(* ===== verification/Prelude.thy ===== *)
theory Prelude
  imports Main "HOL-Library.Word" "HOL-Library.Sublist"
begin

unbundle bit_operations_syntax

text \<open>
  Shared vocabulary of the development: the Go types the components use (bytes, 64-bit integers
  with their wrap-around, errors as values), the computations that may fail while they change a
  state, and the lemma collections the component theories draw on.
\<close>

section \<open>Lemma collections\<close>

named_theorems go_std \<open>unfolding equations for the standard-library operations\<close>
named_theorems sm_simps \<open>evaluation of stateful computations\<close>
named_theorems sm_defs \<open>definitions of primitive stateful computations\<close>

section \<open>Go types\<close>

type_synonym byte = "8 word"
type_synonym bytes = "byte list"
type_synonym u64 = "64 word"

text \<open>
  Go's \<open>int\<close> and \<open>int64\<close> are mathematical integers here, and every arithmetic step that could
  leave the 64-bit range goes through \<open>wrap64\<close>, two's complement wrap-around.
\<close>

definition wrap64 :: "int \<Rightarrow> int" where
  "wrap64 x = signed_take_bit 63 x"

definition int64_range :: "int \<Rightarrow> bool" where
  "int64_range x \<longleftrightarrow> - (2 ^ 63) \<le> x \<and> x < 2 ^ 63"

lemma wrap64_id [simp]: "int64_range x \<Longrightarrow> wrap64 x = x"
  by (simp add: wrap64_def int64_range_def signed_take_bit_int_eq_self_iff)

lemma int64_range_wrap64 [simp]: "int64_range (wrap64 x)"
  using signed_take_bit_int_greater_eq_minus_exp [of 63 x] signed_take_bit_int_less_exp [of 63 x]
  by (simp add: wrap64_def int64_range_def)

lemma wrap64_add: "wrap64 (wrap64 a + b) = wrap64 (a + b)"
  by (simp add: wrap64_def signed_take_bit_eq_take_bit_shift take_bit_eq_mod algebra_simps mod_simps)

section \<open>Errors and results\<close>

text \<open>
  One datatype for the errors of the whole program. \<open>Msg\<close> is an error built from its fixed text
  (\<open>errors.New\<close>, \<open>fmt.Errorf\<close> without \<open>%w\<close>); \<open>Wrap\<close> is \<open>fmt.Errorf\<close> with \<open>%w\<close>;
  \<open>Permanent\<close> is the agent's \<open>permanentError\<close>; \<open>HTTPStatus\<close> is an answer with an unexpected
  status; the rest are the sentinels the code tests for. \<open>OutOfFuel\<close> is no error of the program: it
  marks a loop the model stopped following after the number of rounds it was given.
\<close>

datatype error =
    Msg string
  | Wrap string error
  | Permanent error
  | HTTPStatus int
  | NotExist
  | IOError
  | TransportError
  | Canceled
  | NotModified
  | OutOfFuel

type_synonym 'a result = "error + 'a"

text \<open>\<open>errors.As(e, &permanent)\<close>: the error or one it wraps is a \<open>permanentError\<close>.\<close>

fun isPermanent :: "error \<Rightarrow> bool" where
  "isPermanent (Permanent _) = True"
| "isPermanent (Wrap _ e) = isPermanent e"
| "isPermanent _ = False"

text \<open>\<open>errors.Is(e, errNotModified)\<close>, through \<open>%w\<close> wrapping.\<close>

fun isNotModified :: "error \<Rightarrow> bool" where
  "isNotModified NotModified = True"
| "isNotModified (Wrap _ e) = isNotModified e"
| "isNotModified _ = False"

fun bindR :: "'a result \<Rightarrow> ('a \<Rightarrow> 'b result) \<Rightarrow> 'b result" where
  "bindR (Inl e) f = Inl e"
| "bindR (Inr x) f = f x"

lemma bindR_Inr_iff: "bindR r f = Inr y \<longleftrightarrow> (\<exists>x. r = Inr x \<and> f x = Inr y)"
  by (cases r) auto

lemma bindR_Inl_iff: "bindR r f = Inl e \<longleftrightarrow> r = Inl e \<or> (\<exists>x. r = Inr x \<and> f x = Inl e)"
  by (cases r) auto

text \<open>An early return: \<open>if bad { return error }\<close>.\<close>

definition guardR :: "bool \<Rightarrow> error \<Rightarrow> unit result" where
  "guardR ok e = (if ok then Inr () else Inl e)"

lemma guardR_Inr [simp]: "guardR ok e = Inr u \<longleftrightarrow> ok"
  by (simp add: guardR_def)

lemma guardR_Inl [simp]: "guardR ok e = Inl e' \<longleftrightarrow> \<not> ok \<and> e' = e"
  by (auto simp: guardR_def)

lemma guardR_True [simp]: "guardR True e = Inr ()"
  by (simp add: guardR_def)

lemma guardR_False [simp]: "guardR False e = Inl e"
  by (simp add: guardR_def)

section \<open>Stateful computations that may fail\<close>

type_synonym ('s, 'a) sm = "'s \<Rightarrow> 'a result \<times> 's"

definition ret :: "'a \<Rightarrow> ('s, 'a) sm" where
  "ret x s = (Inr x, s)"

definition throw :: "error \<Rightarrow> ('s, 'a) sm" where
  "throw e s = (Inl e, s)"

definition bindM :: "('s, 'a) sm \<Rightarrow> ('a \<Rightarrow> ('s, 'b) sm) \<Rightarrow> ('s, 'b) sm" where
  "bindM m f s = (case m s of (Inl e, s') \<Rightarrow> (Inl e, s') | (Inr x, s') \<Rightarrow> f x s')"

text \<open>\<open>x, e := m()\<close> where the code looks at the error itself.\<close>

definition attemptM :: "('s, 'a) sm \<Rightarrow> ('s, 'a result) sm" where
  "attemptM m s = (case m s of (r, s') \<Rightarrow> (Inr r, s'))"

definition liftR :: "'a result \<Rightarrow> ('s, 'a) sm" where
  "liftR r s = (r, s)"

definition guardM :: "bool \<Rightarrow> error \<Rightarrow> ('s, unit) sm" where
  "guardM ok e = (if ok then ret () else throw e)"

text \<open>\<open>defer m()\<close>: runs after the body, its own result is dropped.\<close>

definition deferM :: "('s, 'b) sm \<Rightarrow> ('s, 'a) sm \<Rightarrow> ('s, 'a) sm" where
  "deferM m body s = (case body s of (r, s') \<Rightarrow> (r, snd (m s')))"

fun forM :: "'a list \<Rightarrow> ('a \<Rightarrow> ('s, unit) sm) \<Rightarrow> ('s, unit) sm" where
  "forM [] f = ret ()"
| "forM (x # xs) f = bindM (f x) (\<lambda>_. forM xs f)"

lemma ret_run [simp]: "ret x s = (r, s') \<longleftrightarrow> r = Inr x \<and> s' = s" by (auto simp: ret_def)
lemma throw_run [simp]: "throw e s = (r, s') \<longleftrightarrow> r = Inl e \<and> s' = s" by (auto simp: throw_def)
lemma liftR_run [simp]: "liftR r s = (r', s') \<longleftrightarrow> r' = r \<and> s' = s" by (auto simp: liftR_def)

lemma run_sel [simp]:
  "fst (ret x s) = Inr x" "snd (ret x s) = s"
  "fst (throw e s) = Inl e" "snd (throw e s) = s"
  "fst (liftR r s) = r" "snd (liftR r s) = s"
  by (simp_all add: ret_def throw_def liftR_def)

lemmas sm_run = ret_def throw_def liftR_def

lemma bindM_Pair_Inr [simp]: "bindM (Pair (Inr x)) f = f x"
  by (rule ext) (simp add: bindM_def)

lemma bindM_Pair_Inl [simp]: "bindM (Pair (Inl e)) f = Pair (Inl e)"
  by (rule ext) (simp add: bindM_def)

lemma bindM_Inr [sm_simps]: "m s = (Inr x, s') \<Longrightarrow> bindM m f s = f x s'"
  by (simp add: bindM_def)

lemma bindM_Inl [sm_simps]: "m s = (Inl e, s') \<Longrightarrow> bindM m f s = (Inl e, s')"
  by (simp add: bindM_def)

lemma bindM_ret [simp]: "bindM (ret x) f = f x"
  by (rule ext) (simp add: bindM_def ret_def)

lemma bindM_throw [simp]: "bindM (throw e) f = throw e"
  by (rule ext) (simp add: bindM_def throw_def)

lemma bindM_ret_right [simp]: "bindM m ret = m"
  by (rule ext) (auto simp: bindM_def ret_def split: prod.splits sum.splits)

lemma bindM_assoc: "bindM (bindM m f) g = bindM m (\<lambda>x. bindM (f x) g)"
  by (rule ext) (auto simp: bindM_def split: prod.splits sum.splits)

lemma bindM_okE:
  assumes "bindM m f s = (Inr y, s'')"
  obtains x s' where "m s = (Inr x, s')" "f x s' = (Inr y, s'')"
  using assms by (auto simp: bindM_def split: prod.splits sum.splits)

lemma bindM_run:
  "bindM m f s = (r, s'') \<longleftrightarrow>
     (\<exists>e s'. m s = (Inl e, s') \<and> r = Inl e \<and> s'' = s') \<or>
     (\<exists>x s'. m s = (Inr x, s') \<and> f x s' = (r, s''))"
  by (auto simp: bindM_def split: prod.splits sum.splits)

lemma attemptM_run: "attemptM m s = (r, s') \<longleftrightarrow> (\<exists>r'. m s = (r', s') \<and> r = Inr r')"
  by (auto simp: attemptM_def split: prod.splits)

lemma guardM_True [simp]: "guardM True e = ret ()" by (simp add: guardM_def)
lemma guardM_False [simp]: "guardM False e = throw e" by (simp add: guardM_def)

lemma guardM_ok [simp]: "guardM ok e s = (Inr u, s') \<longleftrightarrow> ok \<and> s' = s"
  by (auto simp: guardM_def)

lemma forM_append: "forM (xs @ ys) f = bindM (forM xs f) (\<lambda>_. forM ys f)"
  by (induction xs) (simp_all add: bindM_assoc)

subsection \<open>Effects bounded by a preorder\<close>

text \<open>
  \<open>steps R m\<close>: however the computation ends, its final state is \<open>R\<close>-after its initial one. With
  \<open>R\<close> a preorder this is a compositional notion, and it states both invariants
  (\<open>R s s' = (I s \<longrightarrow> I s')\<close>) and monotonicity (\<open>R s s' = (f s \<le> f s')\<close>) of whole operations. The
  composition rules are proved once, in the locale, and each relation interprets it.
\<close>

definition steps :: "('s \<Rightarrow> 's \<Rightarrow> bool) \<Rightarrow> ('s, 'a) sm \<Rightarrow> bool" where
  "steps R m \<longleftrightarrow> (\<forall>s. R s (snd (m s)))"

lemma stepsI: "(\<And>s r s'. m s = (r, s') \<Longrightarrow> R s s') \<Longrightarrow> steps R m"
  unfolding steps_def by (metis prod.collapse)

lemma stepsD: "steps R m \<Longrightarrow> m s = (r, s') \<Longrightarrow> R s s'"
  unfolding steps_def by (metis snd_conv)

locale effect_order =
  fixes R :: "'s \<Rightarrow> 's \<Rightarrow> bool"
  assumes R_refl: "R s s"
    and R_trans: "R s t \<Longrightarrow> R t u \<Longrightarrow> R s u"
begin

lemma steps_ret: "steps R (ret x)"
  by (simp add: steps_def R_refl)

lemma steps_throw: "steps R (throw e)"
  by (simp add: steps_def R_refl)

lemma steps_liftR: "steps R (liftR r)"
  by (simp add: steps_def R_refl)

lemma steps_guardM: "steps R (guardM ok e)"
  by (simp add: guardM_def steps_ret steps_throw)

lemma steps_bindM:
  assumes "steps R m" and "\<And>x. steps R (f x)"
  shows "steps R (bindM m f)"
proof (rule stepsI)
  fix s r s'' assume "bindM m f s = (r, s'')"
  then consider e where "m s = (Inl e, s'')" | x s' where "m s = (Inr x, s')" "f x s' = (r, s'')"
    by (auto simp: bindM_run)
  then show "R s s''"
    by cases (use assms in \<open>blast dest: stepsD intro: R_trans\<close>)+
qed

lemma steps_bindM_res:
  assumes "steps R m" and "\<And>x s s'. m s = (Inr x, s') \<Longrightarrow> steps R (f x)"
  shows "steps R (bindM m f)"
proof (rule stepsI)
  fix s r s'' assume "bindM m f s = (r, s'')"
  then consider e where "m s = (Inl e, s'')" | x s' where "m s = (Inr x, s')" "f x s' = (r, s'')"
    by (auto simp: bindM_run)
  then show "R s s''"
    by cases (use assms in \<open>blast dest: stepsD intro: R_trans\<close>)+
qed

lemma steps_attemptM: "steps R m \<Longrightarrow> steps R (attemptM m)"
  by (auto intro!: stepsI simp: attemptM_run dest: stepsD)

lemma steps_deferM:
  assumes "steps R d" and "steps R m"
  shows "steps R (deferM d m)"
proof (rule stepsI)
  fix s r s' assume "deferM d m s = (r, s')"
  then obtain s1 where "m s = (r, s1)" "s' = snd (d s1)"
    by (auto simp: deferM_def split: prod.splits)
  with assms show "R s s'"
    by (metis R_trans steps_def snd_conv)
qed

lemma steps_forM: "(\<And>x. x \<in> set xs \<Longrightarrow> steps R (f x)) \<Longrightarrow> steps R (forM xs f)"
  by (induction xs) (auto intro: steps_ret steps_bindM)

lemma steps_if: "(b \<Longrightarrow> steps R m) \<Longrightarrow> (\<not> b \<Longrightarrow> steps R n) \<Longrightarrow> steps R (if b then m else n)"
  by simp

lemma steps_case_option:
  "(x = None \<Longrightarrow> steps R m) \<Longrightarrow> (\<And>y. x = Some y \<Longrightarrow> steps R (f y)) \<Longrightarrow>
   steps R (case x of None \<Rightarrow> m | Some y \<Rightarrow> f y)"
  by (cases x) auto

lemma steps_case_sum:
  "(\<And>e. x = Inl e \<Longrightarrow> steps R (f e)) \<Longrightarrow> (\<And>y. x = Inr y \<Longrightarrow> steps R (g y)) \<Longrightarrow>
   steps R (case x of Inl e \<Rightarrow> f e | Inr y \<Rightarrow> g y)"
  by (cases x) auto

lemma steps_case_prod: "(\<And>a b. x = (a, b) \<Longrightarrow> steps R (f a b)) \<Longrightarrow> steps R (case x of (a, b) \<Rightarrow> f a b)"
  by (cases x) auto

lemmas steps_rules =
  steps_ret steps_throw steps_liftR steps_guardM steps_bindM steps_attemptM steps_deferM
  steps_forM steps_if steps_case_option steps_case_sum steps_case_prod

end

subsection \<open>Triples\<close>

text \<open>
  \<open>triple P m Q X\<close>: started where \<open>P\<close> holds, the computation either returns a value with \<open>Q\<close> or an
  error with \<open>X\<close>.
\<close>

definition triple :: "('s \<Rightarrow> bool) \<Rightarrow> ('s, 'a) sm \<Rightarrow> ('a \<Rightarrow> 's \<Rightarrow> bool) \<Rightarrow> (error \<Rightarrow> 's \<Rightarrow> bool) \<Rightarrow> bool" where
  "triple P m Q X \<longleftrightarrow> (\<forall>s. P s \<longrightarrow> (case m s of (Inr x, s') \<Rightarrow> Q x s' | (Inl e, s') \<Rightarrow> X e s'))"

lemma tripleI:
  "(\<And>s x s'. P s \<Longrightarrow> m s = (Inr x, s') \<Longrightarrow> Q x s') \<Longrightarrow> (\<And>s e s'. P s \<Longrightarrow> m s = (Inl e, s') \<Longrightarrow> X e s') \<Longrightarrow> triple P m Q X"
  by (auto simp: triple_def split: prod.splits sum.splits)

lemma triple_okD: "triple P m Q X \<Longrightarrow> P s \<Longrightarrow> m s = (Inr x, s') \<Longrightarrow> Q x s'"
  by (fastforce simp: triple_def)

lemma triple_errD: "triple P m Q X \<Longrightarrow> P s \<Longrightarrow> m s = (Inl e, s') \<Longrightarrow> X e s'"
  by (fastforce simp: triple_def)

lemma triple_bind:
  assumes "triple P m Q' X" and "\<And>x. triple (Q' x) (f x) Q X"
  shows "triple P (bindM m f) Q X"
  using assms by (fastforce simp: triple_def bindM_def split: prod.splits sum.splits)

lemma triple_ret: "(\<And>s. P s \<Longrightarrow> Q x s) \<Longrightarrow> triple P (ret x) Q X"
  by (simp add: triple_def ret_def)

lemma triple_throw: "(\<And>s. P s \<Longrightarrow> X e s) \<Longrightarrow> triple P (throw e) Q X"
  by (simp add: triple_def throw_def)

lemma triple_liftR:
  "(\<And>s x. P s \<Longrightarrow> r = Inr x \<Longrightarrow> Q x s) \<Longrightarrow> (\<And>s e. P s \<Longrightarrow> r = Inl e \<Longrightarrow> X e s) \<Longrightarrow> triple P (liftR r) Q X"
  by (cases r) (auto simp: triple_def liftR_def)

lemma triple_guard:
  "(\<And>s. P s \<Longrightarrow> ok \<Longrightarrow> Q () s) \<Longrightarrow> (\<And>s. P s \<Longrightarrow> \<not> ok \<Longrightarrow> X e s) \<Longrightarrow> triple P (guardM ok e) Q X"
  by (auto simp: guardM_def triple_def ret_def throw_def)

lemma triple_attempt:
  "triple P m (\<lambda>x. Q (Inr x)) (\<lambda>e. Q (Inl e)) \<Longrightarrow> triple P (attemptM m) Q X"
proof (rule tripleI)
  assume t: "triple P m (\<lambda>x. Q (Inr x)) (\<lambda>e. Q (Inl e))"
  fix s r s' assume "P s" and "attemptM m s = (Inr r, s')"
  then have "m s = (r, s')" by (auto simp: attemptM_run)
  then show "Q r s'"
    using triple_okD [OF t \<open>P s\<close>] triple_errD [OF t \<open>P s\<close>] by (cases r) auto
qed (auto simp: attemptM_run)

lemma triple_defer:
  assumes "triple P m Q' X'"
    and "\<And>x s. Q' x s \<Longrightarrow> Q x (snd (d s))" and "\<And>e s. X' e s \<Longrightarrow> X e (snd (d s))"
  shows "triple P (deferM d m) Q X"
  using assms by (fastforce simp: triple_def deferM_def split: prod.splits sum.splits)

lemma triple_conseq:
  "triple P' m Q' X' \<Longrightarrow> (\<And>s. P s \<Longrightarrow> P' s) \<Longrightarrow> (\<And>x s. Q' x s \<Longrightarrow> Q x s) \<Longrightarrow> (\<And>e s. X' e s \<Longrightarrow> X e s) \<Longrightarrow> triple P m Q X"
  by (fastforce simp: triple_def split: prod.splits sum.splits)

lemma triple_if:
  "(b \<Longrightarrow> triple P m Q X) \<Longrightarrow> (\<not> b \<Longrightarrow> triple P n Q X) \<Longrightarrow> triple P (if b then m else n) Q X"
  by simp

lemma triple_pre: "(\<And>s0. P s0 \<Longrightarrow> triple (\<lambda>s. s = s0) m Q X) \<Longrightarrow> triple P m Q X"
  by (fastforce simp: triple_def)

lemma triple_pure: "(C \<Longrightarrow> triple P m Q X) \<Longrightarrow> triple (\<lambda>s. C \<and> P s) m Q X"
  by (fastforce simp: triple_def)

lemma triple_forM:
  assumes "\<And>x. x \<in> set xs \<Longrightarrow> triple I (f x) (\<lambda>_. I) X"
  shows "triple I (forM xs f) (\<lambda>_. I) X"
  using assms by (induction xs) (auto intro!: triple_ret triple_bind)

lemma triple_forM_upto:
  assumes "\<And>done x rest. xs = done @ x # rest \<Longrightarrow> triple (I done) (f x) (\<lambda>_. I (done @ [x])) X"
  shows "triple (I []) (forM xs f) (\<lambda>_. I xs) X"
proof -
  have "triple (I pre) (forM ys f) (\<lambda>_. I xs) X" if "xs = pre @ ys" for pre ys
    using that
  proof (induction ys arbitrary: pre)
    case Nil then show ?case by (auto intro: triple_ret)
  next
    case (Cons y ys)
    show ?case
      unfolding forM.simps
      by (rule triple_bind, rule assms [OF Cons.prems], rule Cons.IH) (simp add: Cons.prems)
  qed
  from this [of "[]" xs] show ?thesis by simp
qed

lemma triple_steps: "steps R m \<Longrightarrow> triple (\<lambda>s. s = s0) m (\<lambda>_. R s0) (\<lambda>_. R s0)"
  by (auto intro: tripleI dest: stepsD)

subsection \<open>A second state component\<close>

text \<open>
  Operations that keep variables of their own beside the state of another component: \<open>onFst\<close> runs a
  computation of that component, \<open>modS\<close> updates and \<open>getS\<close> reads the variables.
\<close>

definition onFst :: "('s, 'a) sm \<Rightarrow> ('s \<times> 't, 'a) sm" where
  "onFst m st = (case m (fst st) of (r, s') \<Rightarrow> (r, (s', snd st)))"

definition modS :: "('t \<Rightarrow> 't) \<Rightarrow> ('s \<times> 't, unit) sm" where
  "modS f st = (Inr (), (fst st, f (snd st)))"

definition getS :: "('s \<times> 't, 't) sm" where
  "getS st = (Inr (snd st), st)"

lemma onFst_run: "onFst m (s, t) = (r, s', t') \<longleftrightarrow> m s = (r, s') \<and> t' = t"
  by (auto simp: onFst_def split: prod.splits)

lemma modS_run [simp]: "modS f (s, t) = (r, st) \<longleftrightarrow> r = Inr () \<and> st = (s, f t)"
  by (auto simp: modS_def)

lemma getS_run [simp]: "getS st = (r, st') \<longleftrightarrow> r = Inr (snd st) \<and> st' = st"
  by (auto simp: getS_def)

lemma triple_onFst:
  assumes "\<And>t. triple (\<lambda>s. P (s, t)) m (\<lambda>x s. Q x (s, t)) (\<lambda>e s. X e (s, t))"
  shows "triple P (onFst m) Q X"
  using assms by (fastforce simp: triple_def onFst_def split: prod.splits sum.splits)

lemma triple_onFst_frame:
  assumes "triple P m Q X"
  shows "triple (\<lambda>st. P (fst st) \<and> C (snd st)) (onFst m)
     (\<lambda>x st. Q x (fst st) \<and> C (snd st)) (\<lambda>e st. X e (fst st) \<and> C (snd st))"
  using assms by (fastforce simp: triple_def onFst_def split: prod.splits sum.splits)

lemma triple_modS: "(\<And>s t. P (s, t) \<Longrightarrow> Q () (s, f t)) \<Longrightarrow> triple P (modS f) Q X"
  by (auto simp: triple_def modS_def)

lemma triple_getS: "(\<And>s t. P (s, t) \<Longrightarrow> Q t (s, t)) \<Longrightarrow> triple P getS Q X"
  by (auto simp: triple_def getS_def)

text \<open>A relation on the first component, whatever happens to the second.\<close>

definition on_fst :: "('s \<Rightarrow> 's \<Rightarrow> bool) \<Rightarrow> 's \<times> 't \<Rightarrow> 's \<times> 't \<Rightarrow> bool" where
  "on_fst R st st' \<longleftrightarrow> R (fst st) (fst st')"

lemma steps_onFst: "steps R m \<Longrightarrow> steps (on_fst R) (onFst m)"
  by (auto simp: steps_def on_fst_def onFst_def split: prod.splits) (metis snd_conv)

lemma on_fst_order: "effect_order R \<Longrightarrow> effect_order (on_fst R)"
  unfolding effect_order_def on_fst_def by blast

section \<open>Lists\<close>

lemma list_all_nth_conv: "list_all P xs \<longleftrightarrow> (\<forall>i < length xs. P (xs ! i))"
  by (rule list_all_length)

lemma concat_butlast_last: "xs \<noteq> [] \<Longrightarrow> concat (butlast xs) @ last xs = concat xs"
  by (metis append_butlast_last_id concat.simps concat_append append_Nil2)

lemma sum_list_map_int_length: "(\<Sum>c\<leftarrow>cs. int (length c)) = int (length (concat cs))"
  by (induction cs) auto

end
