(* ===== verification/GoStd.thy ===== *)
theory GoStd
  imports Prelude
begin

unbundle bit_operations_syntax

text \<open>
  The parts of Go's standard library the program computes with: byte strings, \<open>strings\<close>,
  \<open>encoding/hex\<close>, \<open>encoding/base64\<close> (standard alphabet, padded) and \<open>crypto/sha256\<close>, defined
  here rather than assumed, with the round trips and length facts the components use.
\<close>

section \<open>Bytes and strings\<close>

definition byte_of_char :: "char \<Rightarrow> byte" where
  "byte_of_char c = word_of_nat (of_char c)"

definition char_of_byte :: "byte \<Rightarrow> char" where
  "char_of_byte b = char_of (unat b)"

definition bytes_of :: "string \<Rightarrow> bytes" where
  "bytes_of s = map byte_of_char s"

definition string_of :: "bytes \<Rightarrow> string" where
  "string_of b = map char_of_byte b"

lemma of_char_less: "(of_char c :: nat) < 256"
  by (metis mod_less_divisor of_char_mod_256 zero_less_numeral)

lemma unat_less_256: "unat (b :: byte) < 256"
  using unsigned_less [of b] by simp

lemma char_of_byte_of_char [simp]: "char_of_byte (byte_of_char c) = c"
  using of_char_less [of c] by (simp add: char_of_byte_def byte_of_char_def unat_of_nat)

lemma byte_of_char_of_byte [simp]: "byte_of_char (char_of_byte b) = b"
  using unat_less_256 [of b] by (simp add: char_of_byte_def byte_of_char_def)

lemma string_of_bytes_of [simp]: "string_of (bytes_of s) = s"
  by (induction s) (simp_all add: string_of_def bytes_of_def)

lemma bytes_of_string_of [simp]: "bytes_of (string_of b) = b"
  by (induction b) (simp_all add: string_of_def bytes_of_def)

lemma length_bytes_of [simp]: "length (bytes_of s) = length s"
  by (simp add: bytes_of_def)

text \<open>\<open>strings.HasPrefix\<close>, \<open>HasSuffix\<close>, \<open>TrimPrefix\<close>, \<open>TrimSuffix\<close>, \<open>Split\<close>, \<open>Cut\<close>, \<open>TrimSpace\<close> and
  the \<open>Trim\<close> family on ASCII cut sets.\<close>

definition hasPrefix :: "string \<Rightarrow> string \<Rightarrow> bool" where
  "hasPrefix s p \<longleftrightarrow> take (length p) s = p"

definition hasSuffix :: "string \<Rightarrow> string \<Rightarrow> bool" where
  "hasSuffix s p \<longleftrightarrow> length p \<le> length s \<and> drop (length s - length p) s = p"

definition trimPrefix :: "string \<Rightarrow> string \<Rightarrow> string" where
  "trimPrefix s p = (if hasPrefix s p then drop (length p) s else s)"

definition trimSuffix :: "string \<Rightarrow> string \<Rightarrow> string" where
  "trimSuffix s p = (if hasSuffix s p then take (length s - length p) s else s)"

fun splitOn :: "'a \<Rightarrow> 'a list \<Rightarrow> 'a list list" where
  "splitOn d [] = [[]]"
| "splitOn d (c # cs) =
     (if c = d then [] # splitOn d cs
      else (case splitOn d cs of [] \<Rightarrow> [[c]] | w # ws \<Rightarrow> (c # w) # ws))"

definition trimLeft :: "'a set \<Rightarrow> 'a list \<Rightarrow> 'a list" where
  "trimLeft cs s = dropWhile (\<lambda>c. c \<in> cs) s"

definition trimRight :: "'a set \<Rightarrow> 'a list \<Rightarrow> 'a list" where
  "trimRight cs s = rev (dropWhile (\<lambda>c. c \<in> cs) (rev s))"

definition trim :: "'a set \<Rightarrow> 'a list \<Rightarrow> 'a list" where
  "trim cs s = trimRight cs (trimLeft cs s)"

definition asciiSpace :: "char set" where
  "asciiSpace = {CHR 0x09, CHR 0x0A, CHR 0x0B, CHR 0x0C, CHR 0x0D, CHR '' ''}"

definition trimSpace :: "string \<Rightarrow> string" where
  "trimSpace s = trim asciiSpace s"

lemma hasSuffix_append [simp]: "hasSuffix (s @ p) p"
  by (simp add: hasSuffix_def)

lemma trimSuffix_append [simp]: "trimSuffix (s @ p) p = s"
  by (simp add: trimSuffix_def)

lemma hasPrefix_append [simp]: "hasPrefix (p @ s) p"
  by (simp add: hasPrefix_def)

lemma trimPrefix_append [simp]: "trimPrefix (p @ s) p = s"
  by (simp add: trimPrefix_def)

lemma hasPrefix_iff: "hasPrefix s p \<longleftrightarrow> (\<exists>t. s = p @ t)"
  by (metis append_take_drop_id hasPrefix_append hasPrefix_def)

lemma splitOn_nonempty: "splitOn d s \<noteq> []"
  by (cases s) (auto split: list.splits)

lemma splitOn_no_sep: "d \<notin> set s \<Longrightarrow> splitOn d s = [s]"
  by (induction s) auto

lemma splitOn_append: "d \<notin> set s \<Longrightarrow> splitOn d (s @ d # t) = s # splitOn d t"
  by (induction s) auto

lemma splitOn_parts: "w \<in> set (splitOn d s) \<Longrightarrow> d \<notin> set w \<and> set w \<subseteq> set s"
proof (induction s arbitrary: w)
  case Nil then show ?case by simp
next
  case (Cons c s)
  obtain v vs where v: "splitOn d s = v # vs"
    using splitOn_nonempty [of d s] by (cases "splitOn d s") auto
  show ?case
  proof (cases "c = d")
    case True
    with Cons v show ?thesis by auto
  next
    case False
    then have "w = c # v \<or> w \<in> set vs" using Cons.prems v by auto
    with Cons.IH [of v] Cons.IH [of w] v False show ?thesis by auto
  qed
qed

lemma trim_subset: "set (trim cs s) \<subseteq> set s"
  unfolding trim_def trimRight_def trimLeft_def
  by (auto dest!: set_dropWhileD)

text \<open>\<open>strings.Join\<close>, separator first.\<close>

fun joinWith :: "string \<Rightarrow> string list \<Rightarrow> string" where
  "joinWith d [] = []"
| "joinWith d [s] = s"
| "joinWith d (s # t # ss) = s @ d @ joinWith d (t # ss)"

section \<open>encoding/hex\<close>

definition hexd :: "nat \<Rightarrow> char" where
  "hexd n = (if n < 10 then char_of (48 + n) else char_of (87 + n))"

definition hex_byte :: "byte \<Rightarrow> string" where
  "hex_byte b = [hexd (unat b div 16), hexd (unat b mod 16)]"

definition hex_encode :: "bytes \<Rightarrow> string" where
  "hex_encode b = concat (map hex_byte b)"

definition hex_val :: "char \<Rightarrow> nat option" where
  "hex_val c = (let n = of_char c in
     if 48 \<le> n \<and> n \<le> 57 then Some (n - 48)
     else if 97 \<le> n \<and> n \<le> 102 then Some (n - 87)
     else if 65 \<le> n \<and> n \<le> 70 then Some (n - 55) else None)"

fun hex_decode :: "string \<Rightarrow> bytes option" where
  "hex_decode [] = Some []"
| "hex_decode [c] = None"
| "hex_decode (c # d # s) =
     (case (hex_val c, hex_val d) of
        (Some x, Some y) \<Rightarrow> map_option ((#) (word_of_nat (16 * x + y))) (hex_decode s)
      | _ \<Rightarrow> None)"

definition is_hex :: "char \<Rightarrow> bool" where
  "is_hex c \<longleftrightarrow> (let n = (of_char c :: nat) in 48 \<le> n \<and> n \<le> 57 \<or> 97 \<le> n \<and> n \<le> 102)"

lemma of_char_hexd: "n < 16 \<Longrightarrow> (of_char (hexd n) :: nat) = (if n < 10 then 48 + n else 87 + n)"
  by (simp add: hexd_def)

lemma is_hex_hexd [simp]: "n < 16 \<Longrightarrow> is_hex (hexd n)"
  by (simp add: is_hex_def of_char_hexd)

lemma hex_val_hexd [simp]: "n < 16 \<Longrightarrow> hex_val (hexd n) = Some n"
  by (auto simp: hex_val_def of_char_hexd Let_def)

lemma hex_byte_digits: "list_all is_hex (hex_byte b)"
  using unat_less_256 [of b] by (simp add: hex_byte_def)

lemma hex_encode_digits [simp]: "list_all is_hex (hex_encode b)"
  by (induction b) (simp_all add: hex_encode_def hex_byte_digits)

lemma length_hex_encode [simp]: "length (hex_encode b) = 2 * length b"
  by (induction b) (simp_all add: hex_encode_def hex_byte_def)

lemma hex_decode_byte: "hex_decode (hex_byte b @ s) = map_option ((#) b) (hex_decode s)"
proof -
  have "16 * (unat b div 16) + unat b mod 16 = unat b" by simp
  then show ?thesis
    using unat_less_256 [of b] by (simp add: hex_byte_def)
qed

lemma hex_decode_encode [simp]: "hex_decode (hex_encode b) = Some b"
  by (induction b) (simp_all add: hex_encode_def hex_decode_byte)

lemma hex_encode_inj [simp]: "hex_encode a = hex_encode b \<longleftrightarrow> a = b"
  by (metis hex_decode_encode option.inject)

section \<open>encoding/base64\<close>

definition b64_char :: "nat \<Rightarrow> char" where
  "b64_char n =
     (if n < 26 then char_of (65 + n)
      else if n < 52 then char_of (71 + n)
      else if n < 62 then char_of (n - 4)
      else if n = 62 then CHR ''+'' else CHR ''/'')"

definition b64_val :: "char \<Rightarrow> nat option" where
  "b64_val c = (let n = of_char c in
     if 65 \<le> n \<and> n \<le> 90 then Some (n - 65)
     else if 97 \<le> n \<and> n \<le> 122 then Some (n - 71)
     else if 48 \<le> n \<and> n \<le> 57 then Some (n + 4)
     else if c = CHR ''+'' then Some 62 else if c = CHR ''/'' then Some 63 else None)"

fun base64_encode :: "bytes \<Rightarrow> string" where
  "base64_encode [] = []"
| "base64_encode [a] =
     (let n = unat a in [b64_char (n div 4), b64_char (n mod 4 * 16), CHR ''='', CHR ''=''])"
| "base64_encode [a, b] =
     (let n = unat a * 256 + unat b in
      [b64_char (n div 1024), b64_char (n div 16 mod 64), b64_char (n mod 16 * 4), CHR ''=''])"
| "base64_encode (a # b # c # r) =
     (let n = unat a * 65536 + unat b * 256 + unat c in
      b64_char (n div 262144) # b64_char (n div 4096 mod 64) # b64_char (n div 64 mod 64)
        # b64_char (n mod 64) # base64_encode r)"

text \<open>The decoder skips line breaks, reads groups of four, and takes padding only in the last one.\<close>

fun b64_groups :: "string \<Rightarrow> bytes option" where
  "b64_groups [] = Some []"
| "b64_groups (p # q # r # s # rest) =
     (case (b64_val p, b64_val q) of
        (Some x, Some y) \<Rightarrow>
          (if r = CHR ''='' then
             (if s = CHR ''='' \<and> rest = [] then Some [word_of_nat (x * 4 + y div 16)] else None)
           else (case b64_val r of None \<Rightarrow> None
             | Some z \<Rightarrow>
                (if s = CHR ''='' then
                   (if rest = [] then
                      (let n = x * 1024 + y * 16 + z div 4 in Some [word_of_nat (n div 256), word_of_nat (n mod 256)])
                    else None)
                 else (case b64_val s of None \<Rightarrow> None
                   | Some w \<Rightarrow>
                       (let n = x * 262144 + y * 4096 + z * 64 + w in
                        map_option (\<lambda>t. word_of_nat (n div 65536) # word_of_nat (n div 256 mod 256)
                                        # word_of_nat (n mod 256) # t) (b64_groups rest))))))
      | _ \<Rightarrow> None)"
| "b64_groups _ = None"

definition base64_decode :: "string \<Rightarrow> bytes option" where
  "base64_decode s = b64_groups (filter (\<lambda>c. c \<noteq> CHR 0x0A \<and> c \<noteq> CHR 0x0D) s)"

lemma b64_of_char: "n < 64 \<Longrightarrow> (of_char (b64_char n) :: nat) =
   (if n < 26 then 65 + n else if n < 52 then 71 + n else if n < 62 then n - 4
    else if n = 62 then 43 else 47)"
  by (simp add: b64_char_def)

lemma b64_val_char [simp]: "n < 64 \<Longrightarrow> b64_val (b64_char n) = Some n"
proof -
  assume n: "n < 64"
  consider "n < 62" | "n = 62" | "n = 63" using n by linarith
  then show ?thesis
    by cases (use n in \<open>auto simp: b64_val_def Let_def b64_of_char, (simp_all add: b64_char_def)?\<close>)
qed

lemma b64_char_plain:
  assumes "n < 64"
  shows "b64_char n \<noteq> CHR ''=''" "b64_char n \<noteq> CHR 0x0A" "b64_char n \<noteq> CHR 0x0D"
proof -
  have "(of_char (b64_char n) :: nat) \<noteq> 61" "(of_char (b64_char n) :: nat) \<noteq> 10"
    "(of_char (b64_char n) :: nat) \<noteq> 13"
    using assms by (auto simp: b64_of_char)
  then show "b64_char n \<noteq> CHR ''=''" "b64_char n \<noteq> CHR 0x0A" "b64_char n \<noteq> CHR 0x0D"
    by auto
qed

lemma b64_no_breaks: "filter (\<lambda>c. c \<noteq> CHR 0x0A \<and> c \<noteq> CHR 0x0D) (base64_encode b) = base64_encode b"
proof (induction b rule: base64_encode.induct)
  case (2 a)
  then show ?case using unat_less_256 [of a] by (simp add: Let_def b64_char_plain)
next
  case (3 a b)
  then show ?case using unat_less_256 [of a] unat_less_256 [of b] by (simp add: Let_def b64_char_plain)
next
  case (4 a b c r)
  then show ?case
    using unat_less_256 [of a] unat_less_256 [of b] unat_less_256 [of c]
    by (simp add: Let_def b64_char_plain)
qed simp

lemma b64_three:
  fixes n :: nat
  shows "n div 262144 * 262144 + n div 4096 mod 64 * 4096 + n div 64 mod 64 * 64 + n mod 64 = n"
proof -
  have "n div 262144 = n div 4096 div 64" "n div 4096 = n div 64 div 64"
    by (simp_all flip: div_mult2_eq)
  then show ?thesis
    using div_mult_mod_eq [of "n div 4096" 64] div_mult_mod_eq [of "n div 64" 64] div_mult_mod_eq [of n 64]
    by linarith
qed

lemma b64_two: "(n::nat) div 1024 * 1024 + n div 16 mod 64 * 16 + n mod 16 = n"
proof -
  have "n div 1024 = n div 16 div 64" by (simp flip: div_mult2_eq)
  then show ?thesis
    using div_mult_mod_eq [of "n div 16" 64] div_mult_mod_eq [of n 16] by linarith
qed

lemma b64_split3:
  assumes "(b::nat) < 256" "c < 256"
  shows "(a * 65536 + b * 256 + c) div 65536 = a" "(a * 65536 + b * 256 + c) div 256 mod 256 = b"
    "(a * 65536 + b * 256 + c) mod 256 = c"
proof -
  have e: "a * 65536 + b * 256 + c = c + (a * 256 + b) * 256" by simp
  have d: "(a * 65536 + b * 256 + c) div 256 = a * 256 + b"
    unfolding e using assms by (subst div_mult_self1) simp_all
  have "(a * 65536 + b * 256 + c) div 65536 = (a * 65536 + b * 256 + c) div 256 div 256"
    by (simp flip: div_mult2_eq)
  with d assms show "(a * 65536 + b * 256 + c) div 65536 = a" by simp
  from d assms show "(a * 65536 + b * 256 + c) div 256 mod 256 = b" by simp
  show "(a * 65536 + b * 256 + c) mod 256 = c"
    unfolding e using assms by (subst mod_mult_self1) simp
qed

lemma b64_groups_encode: "b64_groups (base64_encode b) = Some b"
proof (induction b rule: base64_encode.induct)
  case (2 a)
  have "unat a div 4 * 4 + unat a mod 4 * 16 div 16 = unat a" by simp
  then show ?case using unat_less_256 [of a] by (simp add: Let_def b64_char_plain)
next
  case (3 a b)
  let ?n = "unat a * 256 + unat b"
  have lt: "?n < 65536" using unat_less_256 [of a] unat_less_256 [of b] by simp
  have "?n div 1024 * 1024 + ?n div 16 mod 64 * 16 + ?n mod 16 * 4 div 4 = ?n"
    using b64_two [of ?n] by simp
  moreover have "?n div 256 = unat a" "?n mod 256 = unat b"
    using unat_less_256 [of b] by simp_all
  ultimately show ?case
    using lt by (simp add: Let_def b64_char_plain del: div_mult_self1 div_mult_self2 div_mult_self3 div_mult_self4)
next
  case (4 a b c r)
  let ?n = "unat a * 65536 + unat b * 256 + unat c"
  have lt: "?n < 16777216"
    using unat_less_256 [of a] unat_less_256 [of b] unat_less_256 [of c] by simp
  have "?n div 65536 = unat a" "?n div 256 mod 256 = unat b" "?n mod 256 = unat c"
    using b64_split3 [of "unat b" "unat c" "unat a"] unat_less_256 [of b] unat_less_256 [of c] by simp_all
  with 4 b64_three [of ?n] lt show ?case
    by (simp add: Let_def b64_char_plain)
qed simp

lemma base64_decode_encode [simp]: "base64_decode (base64_encode b) = Some b"
  by (simp add: base64_decode_def b64_no_breaks b64_groups_encode)

section \<open>crypto/sha256\<close>

definition ror32 :: "nat \<Rightarrow> 32 word \<Rightarrow> 32 word" where
  "ror32 n x = drop_bit n x OR push_bit (32 - n) x"

definition ssig0 :: "32 word \<Rightarrow> 32 word" where
  "ssig0 x = ror32 7 x XOR ror32 18 x XOR drop_bit 3 x"

definition ssig1 :: "32 word \<Rightarrow> 32 word" where
  "ssig1 x = ror32 17 x XOR ror32 19 x XOR drop_bit 10 x"

definition bsig0 :: "32 word \<Rightarrow> 32 word" where
  "bsig0 x = ror32 2 x XOR ror32 13 x XOR ror32 22 x"

definition bsig1 :: "32 word \<Rightarrow> 32 word" where
  "bsig1 x = ror32 6 x XOR ror32 11 x XOR ror32 25 x"

definition sha_k :: "32 word list" where
  "sha_k = [1116352408, 1899447441, 3049323471, 3921009573, 961987163, 1508970993, 2453635748, 2870763221,
    3624381080, 310598401, 607225278, 1426881987, 1925078388, 2162078206, 2614888103, 3248222580,
    3835390401, 4022224774, 264347078, 604807628, 770255983, 1249150122, 1555081692, 1996064986,
    2554220882, 2821834349, 2952996808, 3210313671, 3336571891, 3584528711, 113926993, 338241895,
    666307205, 773529912, 1294757372, 1396182291, 1695183700, 1986661051, 2177026350, 2456956037,
    2730485921, 2820302411, 3259730800, 3345764771, 3516065817, 3600352804, 4094571909, 275423344,
    430227734, 506948616, 659060556, 883997877, 958139571, 1322822218, 1537002063, 1747873779,
    1955562222, 2024104815, 2227730452, 2361852424, 2428436474, 2756734187, 3204031479, 3329325298]"

definition sha_init :: "32 word list" where
  "sha_init = [1779033703, 3144134277, 1013904242, 2773480762,
               1359893119, 2600822924, 528734635, 1541459225]"

text \<open>The message schedule is a window of the next sixteen words, extended by one each round.\<close>

fun sha_rounds :: "32 word list \<Rightarrow> 32 word list \<Rightarrow> 32 word list \<Rightarrow> 32 word list" where
  "sha_rounds [] ws st = st"
| "sha_rounds (k # ks) ws st =
     (let a = st ! 0; b = st ! 1; c = st ! 2; d = st ! 3;
          e = st ! 4; f = st ! 5; g = st ! 6; h = st ! 7;
          t1 = h + bsig1 e + ((e AND f) XOR (NOT e AND g)) + k + ws ! 0;
          t2 = bsig0 a + ((a AND b) XOR (a AND c) XOR (b AND c));
          w' = ssig1 (ws ! 14) + ws ! 9 + ssig0 (ws ! 1) + ws ! 0
      in sha_rounds ks (tl ws @ [w']) [t1 + t2, a, b, c, d + t1, e, f, g])"

definition be32 :: "bytes \<Rightarrow> 32 word" where
  "be32 b = push_bit 24 (ucast (b ! 0)) OR push_bit 16 (ucast (b ! 1))
            OR push_bit 8 (ucast (b ! 2)) OR ucast (b ! 3)"

definition be32_bytes :: "32 word \<Rightarrow> bytes" where
  "be32_bytes w = [ucast (drop_bit 24 w), ucast (drop_bit 16 w), ucast (drop_bit 8 w), ucast w]"

definition sha_block :: "32 word list \<Rightarrow> bytes \<Rightarrow> 32 word list" where
  "sha_block st blk =
     map2 (+) (sha_rounds sha_k (map (\<lambda>i. be32 (take 4 (drop (4 * i) blk))) [0..<16]) st) st"

function sha_blocks :: "32 word list \<Rightarrow> bytes \<Rightarrow> 32 word list" where
  "sha_blocks st msg = (if length msg < 64 then st else sha_blocks (sha_block st (take 64 msg)) (drop 64 msg))"
  by pat_completeness auto
termination
  by (relation "measure (\<lambda>(st, msg). length msg)") auto

declare sha_blocks.simps [simp del]

definition be64_bytes :: "nat \<Rightarrow> bytes" where
  "be64_bytes n = map (\<lambda>i. word_of_nat (n div 256 ^ (7 - i))) [0..<8]"

definition sha_pad :: "bytes \<Rightarrow> bytes" where
  "sha_pad msg = msg @ [0x80] @ replicate ((119 - length msg mod 64) mod 64) 0
                 @ be64_bytes (8 * length msg)"

definition sha256 :: "bytes \<Rightarrow> bytes" where
  "sha256 msg = concat (map be32_bytes (sha_blocks sha_init (sha_pad msg)))"

lemma length_sha_rounds: "length st = 8 \<Longrightarrow> length (sha_rounds ks ws st) = 8"
  by (induction ks ws st rule: sha_rounds.induct) (simp_all add: Let_def)

lemma length_sha_block: "length st = 8 \<Longrightarrow> length (sha_block st blk) = 8"
  by (simp add: sha_block_def length_sha_rounds)

lemma length_sha_blocks: "length st = 8 \<Longrightarrow> length (sha_blocks st msg) = 8"
proof (induction st msg rule: sha_blocks.induct)
  case (1 st msg)
  then show ?case
    by (cases "length msg < 64") (simp_all add: sha_blocks.simps [of st msg] length_sha_block)
qed

lemma length_sha256 [simp]: "length (sha256 b) = 32"
proof -
  have "length (concat (map be32_bytes ws)) = 4 * length ws" for ws
    by (induction ws) (simp_all add: be32_bytes_def)
  then show ?thesis
    by (simp add: sha256_def length_sha_blocks sha_init_def)
qed

text \<open>The padded message is a whole number of blocks, so no message byte is left out.\<close>

lemma length_sha_pad: "length (sha_pad b) mod 64 = 0"
proof -
  define r where "r = length b mod 64"
  have r: "r < 64" by (simp add: r_def)
  have "length (sha_pad b) mod 64 = (length b + (9 + (119 - r) mod 64)) mod 64"
    by (simp add: sha_pad_def be64_bytes_def r_def add.commute)
  also have "\<dots> = (r + (9 + (119 - r) mod 64)) mod 64"
    unfolding r_def by (rule mod_add_left_eq [symmetric])
  also have "\<dots> = 0"
  proof (cases "r \<le> 55")
    case True
    then have "(119 - r) mod 64 = 55 - r" by (simp add: mod_if)
    with True show ?thesis by simp
  next
    case False
    then have "(119 - r) mod 64 = 119 - r" by simp
    with False r show ?thesis by simp
  qed
  finally show ?thesis .
qed

end
