(* ===== verification/World.thy ===== *)
theory World
  imports GoStd "HOL-Library.AList" "HOL-Library.Char_ord" "HOL-Library.List_Lexorder"
begin

text \<open>
  The machine a process of the program runs on, as far as the program can see it: a file tree, and
  an environment that decides from outside which operation fails, what time it is, whether the
  caller cancelled, what the network and the Docker daemon answer, and which goroutine runs next.
  Every operation takes one tick, and the environment may answer differently at every tick, so a theorem for all
  environments covers every pattern of failures, clocks and replies.
\<close>

section \<open>File tree\<close>

text \<open>
  A path is its list of components below the root; the empty path is the root, which always is a
  directory. Links, sockets and ownership are not modelled.
\<close>

type_synonym path = "string list"

datatype node = FileN bytes nat | DirN

section \<open>Network messages\<close>

record http_request =
  rqMethod :: string
  rqURL :: string
  rqHeaders :: "(string \<times> string) list"
  rqBody :: bytes

text \<open>
  An answer as a client sees it: the body that arrives before the connection ends, and whether the
  transfer broke off (a reset, or fewer bytes than the announced length).
\<close>

record http_response =
  rsStatus :: int
  rsHeaders :: "(string \<times> string) list"
  rsLength :: int
  rsBody :: bytes
  rsBroken :: bool

section \<open>Environment and world\<close>

record env =
  io_fails :: "nat \<Rightarrow> bool"
  short_write :: "nat \<Rightarrow> nat"
  temp_rand :: "nat \<Rightarrow> string"
  ctx_done :: "nat \<Rightarrow> bool"
  clock :: "nat \<Rightarrow> int"
  free_bytes :: "nat \<Rightarrow> int"
  lock_taken :: "nat \<Rightarrow> bool"
  http_reply :: "nat \<Rightarrow> http_request \<Rightarrow> http_response option"
  docker_reply :: "nat \<Rightarrow> string list \<Rightarrow> string \<times> bool"
  jitter :: "nat \<Rightarrow> int \<Rightarrow> int"
  sched :: "nat \<Rightarrow> nat"

record world =
  files :: "(path \<times> node) list"
  tick :: nat
  sent :: "http_request list"
  docker_log :: "string list list"
  slept :: "int list"

type_synonym 'a io = "(world, 'a) sm"

definition lookup :: "world \<Rightarrow> path \<Rightarrow> node option" where
  "lookup w p = (if p = [] then Some DirN else map_of (files w) p)"

definition put_node :: "path \<Rightarrow> node \<Rightarrow> world \<Rightarrow> world" where
  "put_node p n w = w\<lparr>files := AList.update p n (files w)\<rparr>"

definition del_node :: "path \<Rightarrow> world \<Rightarrow> world" where
  "del_node p w = w\<lparr>files := AList.delete p (files w)\<rparr>"

definition file_bytes :: "world \<Rightarrow> path \<Rightarrow> bytes option" where
  "file_bytes w p = (case lookup w p of Some (FileN b _) \<Rightarrow> Some b | _ \<Rightarrow> None)"

lemma lookup_put [simp]: "p \<noteq> [] \<Longrightarrow> lookup (put_node p n w) q = (if q = p then Some n else lookup w q)"
  by (auto simp: lookup_def put_node_def update_conv')

lemma lookup_del [simp]: "p \<noteq> [] \<Longrightarrow> lookup (del_node p w) q = (if q = p then None else lookup w q)"
  by (auto simp: lookup_def del_node_def delete_conv')

lemma lookup_root [simp]: "lookup w [] = Some DirN"
  by (simp add: lookup_def)

lemma lookup_tick [simp]: "lookup (w\<lparr>tick := n\<rparr>) p = lookup w p"
  by (simp add: lookup_def)

lemma lookup_sent [simp]: "lookup (w\<lparr>sent := n\<rparr>) p = lookup w p"
  by (simp add: lookup_def)

lemma lookup_docker_log [simp]: "lookup (w\<lparr>docker_log := n\<rparr>) p = lookup w p"
  by (simp add: lookup_def)

lemma lookup_slept [simp]: "lookup (w\<lparr>slept := n\<rparr>) p = lookup w p"
  by (simp add: lookup_def)

lemma put_node_sel [simp]:
  "tick (put_node p n w) = tick w" "sent (put_node p n w) = sent w"
  "docker_log (put_node p n w) = docker_log w" "slept (put_node p n w) = slept w"
  by (simp_all add: put_node_def)

lemma del_node_sel [simp]:
  "tick (del_node p w) = tick w" "sent (del_node p w) = sent w"
  "docker_log (del_node p w) = docker_log w" "slept (del_node p w) = slept w"
  by (simp_all add: del_node_def)

section \<open>Primitive operations\<close>

text \<open>One operation: it takes a tick, and the environment may make it fail.\<close>

definition prim :: "env \<Rightarrow> 'a io \<Rightarrow> 'a io" where
  "prim E f w = (let w' = w\<lparr>tick := Suc (tick w)\<rparr> in
     if io_fails E (tick w) then (Inl IOError, w') else f w')"

text \<open>\<open>ctx.Err()\<close> and \<open>time.Now()\<close>.\<close>

definition ctxErr :: "env \<Rightarrow> unit io" where
  "ctxErr E w = (let w' = w\<lparr>tick := Suc (tick w)\<rparr> in
     if ctx_done E (tick w) then (Inl Canceled, w') else (Inr (), w'))"

definition timeNow :: "env \<Rightarrow> int io" where
  "timeNow E w = (Inr (clock E (tick w)), w\<lparr>tick := Suc (tick w)\<rparr>)"

text \<open>\<open>os.Stat\<close>, \<open>os.ReadFile\<close>, \<open>os.Mkdir\<close>, \<open>os.Remove\<close>, \<open>os.Rename\<close>, \<open>os.CreateTemp\<close>, the writes
  through an open temporary file, and \<open>os.ReadDir\<close> (names in byte order).\<close>

definition osStat :: "env \<Rightarrow> path \<Rightarrow> node io" where
  "osStat E p = prim E (\<lambda>w. case lookup w p of None \<Rightarrow> (Inl NotExist, w) | Some n \<Rightarrow> (Inr n, w))"

definition osReadFile :: "env \<Rightarrow> path \<Rightarrow> bytes io" where
  "osReadFile E p = prim E (\<lambda>w. case lookup w p of
       None \<Rightarrow> (Inl NotExist, w)
     | Some DirN \<Rightarrow> (Inl IOError, w)
     | Some (FileN b _) \<Rightarrow> (Inr b, w))"

definition ErrExist :: error where
  "ErrExist = Msg ''file exists''"

definition osMkdir :: "env \<Rightarrow> path \<Rightarrow> unit io" where
  "osMkdir E p = prim E (\<lambda>w.
     if lookup w p \<noteq> None then (Inl ErrExist, w)
     else if lookup w (butlast p) \<noteq> Some DirN then (Inl NotExist, w)
     else (Inr (), put_node p DirN w))"

definition osRemove :: "env \<Rightarrow> path \<Rightarrow> unit io" where
  "osRemove E p = prim E (\<lambda>w. case lookup w p of
       None \<Rightarrow> (Inl NotExist, w)
     | Some DirN \<Rightarrow> (Inl IOError, w)
     | Some (FileN _ _) \<Rightarrow> (Inr (), del_node p w))"

definition osRename :: "env \<Rightarrow> path \<Rightarrow> path \<Rightarrow> unit io" where
  "osRename E p q = prim E (\<lambda>w. case lookup w p of
       None \<Rightarrow> (Inl NotExist, w)
     | Some DirN \<Rightarrow> (Inl IOError, w)
     | Some (FileN b m) \<Rightarrow>
         if lookup w q = Some DirN \<or> lookup w (butlast q) \<noteq> Some DirN then (Inl IOError, w)
         else (Inr (), put_node q (FileN b m) (del_node p w)))"

definition osCreateTemp :: "env \<Rightarrow> path \<Rightarrow> string \<Rightarrow> path io" where
  "osCreateTemp E dir pre w = prim E (\<lambda>w'.
     let p = dir @ [pre @ temp_rand E (tick w)] in
     if lookup w' dir \<noteq> Some DirN then (Inl NotExist, w')
     else if lookup w' p \<noteq> None then (Inl ErrExist, w')
     else (Inr p, put_node p (FileN [] 384) w')) w"

definition fChmod :: "env \<Rightarrow> path \<Rightarrow> nat \<Rightarrow> unit io" where
  "fChmod E p mode = prim E (\<lambda>w. case lookup w p of
       Some (FileN b _) \<Rightarrow> (Inr (), put_node p (FileN b mode) w)
     | _ \<Rightarrow> (Inl IOError, w))"

text \<open>A failing write may leave a prefix of the data in the file.\<close>

definition fWrite :: "env \<Rightarrow> path \<Rightarrow> bytes \<Rightarrow> unit io" where
  "fWrite E p b w = (let w' = w\<lparr>tick := Suc (tick w)\<rparr> in
     case lookup w p of
       Some (FileN old m) \<Rightarrow>
         if io_fails E (tick w)
         then (Inl IOError, put_node p (FileN (old @ take (short_write E (tick w)) b) m) w')
         else (Inr (), put_node p (FileN (old @ b) m) w')
     | _ \<Rightarrow> (Inl IOError, w'))"

definition fSync :: "env \<Rightarrow> path \<Rightarrow> unit io" where
  "fSync E p = prim E (\<lambda>w. (Inr (), w))"

definition fClose :: "env \<Rightarrow> path \<Rightarrow> unit io" where
  "fClose E p = prim E (\<lambda>w. (Inr (), w))"

text \<open>\<open>os.Create\<close>: an existing file is truncated.\<close>

definition osCreate :: "env \<Rightarrow> path \<Rightarrow> unit io" where
  "osCreate E p = prim E (\<lambda>w. case lookup w p of
       Some DirN \<Rightarrow> (Inl IOError, w)
     | Some (FileN _ m) \<Rightarrow> (Inr (), put_node p (FileN [] m) w)
     | None \<Rightarrow> if lookup w (butlast p) \<noteq> Some DirN then (Inl NotExist, w) else (Inr (), put_node p (FileN [] 420) w))"

definition dir_names :: "world \<Rightarrow> path \<Rightarrow> string list" where
  "dir_names w d = sort (map (last \<circ> fst) (filter (\<lambda>(p, n). p \<noteq> [] \<and> butlast p = d) (files w)))"

definition osReadDir :: "env \<Rightarrow> path \<Rightarrow> string list io" where
  "osReadDir E d = prim E (\<lambda>w. case lookup w d of
       None \<Rightarrow> (Inl NotExist, w)
     | Some DirN \<Rightarrow> (Inr (dir_names w d), w)
     | Some (FileN _ _) \<Rightarrow> (Inl IOError, w))"

text \<open>\<open>os.MkdirAll\<close>: the path is taken innermost component first.\<close>

fun mkdirAll_rev :: "env \<Rightarrow> string list \<Rightarrow> unit io" where
  "mkdirAll_rev E [] = ret ()"
| "mkdirAll_rev E (c # cs) =
     bindM (attemptM (osStat E (rev (c # cs)))) (\<lambda>r. case r of
       Inr DirN \<Rightarrow> ret ()
     | Inr (FileN _ _) \<Rightarrow> throw (Msg ''not a directory'')
     | Inl _ \<Rightarrow> bindM (mkdirAll_rev E cs) (\<lambda>_.
               bindM (attemptM (osMkdir E (rev (c # cs)))) (\<lambda>m. case m of
                 Inr _ \<Rightarrow> ret ()
               | Inl e \<Rightarrow> bindM (attemptM (osStat E (rev (c # cs)))) (\<lambda>d. case d of Inr DirN \<Rightarrow> ret () | _ \<Rightarrow> throw e))))"

text \<open>\<open>client.Do\<close>: the request is on the wire before the answer or the transport error comes back.\<close>

definition httpDo :: "env \<Rightarrow> http_request \<Rightarrow> http_response io" where
  "httpDo E rq w = (let w' = w\<lparr>tick := Suc (tick w), sent := sent w @ [rq]\<rparr> in
     case http_reply E (tick w) rq of None \<Rightarrow> (Inl TransportError, w') | Some rs \<Rightarrow> (Inr rs, w'))"

text \<open>\<open>sleepContext\<close>-style waits record their duration; a cancelled context ends the wait.\<close>

definition sleepFor :: "env \<Rightarrow> int \<Rightarrow> unit io" where
  "sleepFor E d w = (let w' = w\<lparr>tick := Suc (tick w), slept := slept w @ [d]\<rparr> in
     if ctx_done E (tick w) then (Inl Canceled, w') else (Inr (), w'))"

lemmas prim_defs [sm_defs] =
  osStat_def osReadFile_def osMkdir_def osRemove_def osRename_def osCreateTemp_def fChmod_def
  fWrite_def fSync_def fClose_def osReadDir_def httpDo_def sleepFor_def ctxErr_def timeNow_def
  prim_def

text \<open>
  \<open>client.Do\<close> of a client whose \<open>CheckRedirect\<close> refuses: an answer that asks for a redirect is an
  error.
\<close>

definition header :: "http_response \<Rightarrow> string \<Rightarrow> string" where
  "header rs k = (case map_of (rsHeaders rs) k of Some v \<Rightarrow> v | None \<Rightarrow> [])"

definition wants_redirect :: "http_response \<Rightarrow> bool" where
  "wants_redirect rs \<longleftrightarrow> rsStatus rs \<in> {301, 302, 303, 307, 308} \<and> header rs ''Location'' \<noteq> []"

definition clientDo :: "env \<Rightarrow> http_request \<Rightarrow> http_response io" where
  "clientDo E rq = bindM (httpDo E rq) (\<lambda>rs.
     if wants_redirect rs then throw (Msg ''redirects are disabled'') else ret rs)"

text \<open>A command run through \<open>os/exec\<close>: its output and whether it exited with success.\<close>

definition dockerRun :: "env \<Rightarrow> string list \<Rightarrow> (string \<times> bool) io" where
  "dockerRun E args w = (Inr (docker_reply E (tick w) args),
     w\<lparr>tick := Suc (tick w), docker_log := docker_log w @ [args]\<rparr>)"

section \<open>Frames\<close>

text \<open>\<open>only_at P\<close>: every path outside \<open>P\<close> has the node it had before.\<close>

definition only_at :: "(path \<Rightarrow> bool) \<Rightarrow> world \<Rightarrow> world \<Rightarrow> bool" where
  "only_at P w w' \<longleftrightarrow> (\<forall>q. \<not> P q \<longrightarrow> lookup w' q = lookup w q)"

interpretation frame: effect_order "only_at P" for P
  by unfold_locales (auto simp: only_at_def)

lemma only_at_mono: "steps (only_at P) m \<Longrightarrow> (\<And>q. P q \<Longrightarrow> Q q) \<Longrightarrow> steps (only_at Q) m"
  by (fastforce simp: steps_def only_at_def)

lemma only_at_quiet [simp]:
  "only_at P w w" "only_at P w (w\<lparr>tick := n\<rparr>)" "only_at P w (w\<lparr>tick := n, sent := x\<rparr>)"
  "only_at P w (w\<lparr>tick := n, slept := y\<rparr>)" "only_at P w (w\<lparr>tick := n, docker_log := z\<rparr>)"
  by (simp_all add: only_at_def)

lemma steps_quiet:
  "steps (only_at P) (osStat E p)" "steps (only_at P) (osReadFile E p)" "steps (only_at P) (fSync E p)"
  "steps (only_at P) (fClose E p)" "steps (only_at P) (osReadDir E p)" "steps (only_at P) (httpDo E rq)"
  "steps (only_at P) (sleepFor E d)" "steps (only_at P) (ctxErr E)" "steps (only_at P) (timeNow E)"
  "steps (only_at P) (dockerRun E args)"
  by (auto simp: steps_def prim_defs dockerRun_def Let_def split: option.splits node.splits)

lemma steps_touch:
  "p \<noteq> [] \<Longrightarrow> P p \<Longrightarrow> steps (only_at P) (osMkdir E p)"
  "p \<noteq> [] \<Longrightarrow> P p \<Longrightarrow> steps (only_at P) (osRemove E p)"
  "p \<noteq> [] \<Longrightarrow> P p \<Longrightarrow> steps (only_at P) (fChmod E p m)"
  "p \<noteq> [] \<Longrightarrow> P p \<Longrightarrow> steps (only_at P) (fWrite E p b)"
  by (auto simp: steps_def prim_defs Let_def only_at_def split: option.splits node.splits)

lemma steps_rename:
  "p \<noteq> [] \<Longrightarrow> q \<noteq> [] \<Longrightarrow> P p \<Longrightarrow> P q \<Longrightarrow> steps (only_at P) (osRename E p q)"
  by (auto simp: steps_def prim_defs Let_def only_at_def split: option.splits node.splits)

section \<open>Machines for concrete runs\<close>

text \<open>A machine on which every operation succeeds but the one at tick \<open>k\<close>, with no network.\<close>

definition env_fail_at :: "nat \<Rightarrow> env" where
  "env_fail_at k = \<lparr>io_fails = (\<lambda>n. n = k), short_write = (\<lambda>_. 1), temp_rand = (\<lambda>n. ''0''),
     ctx_done = (\<lambda>_. False), clock = (\<lambda>_. 0), free_bytes = (\<lambda>_. 1000000000), lock_taken = (\<lambda>_. False),
     http_reply = (\<lambda>_ _. None), docker_reply = (\<lambda>_ _. ('''', False)), jitter = (\<lambda>_ d. d), sched = (\<lambda>_. 0)\<rparr>"

definition empty_world :: world where
  "empty_world = \<lparr>files = [], tick = 0, sent = [], docker_log = [], slept = []\<rparr>"

end
