(* ===== verification/Storage.thy ===== *)
theory Storage
  imports World
begin

text \<open>
  \<open>src/internal/lab/storage.go\<close>: durable directories, the atomic file replacement every other
  component commits through, the state-directory lock and the sweep of abandoned temporary files.
\<close>

section \<open>Model\<close>

definition SyncDir :: "env \<Rightarrow> path \<Rightarrow> unit io" where
  "SyncDir E p = bindM (osStat E p) (\<lambda>_. fSync E p)"

text \<open>\<open>EnsureDir\<close> climbs to the first existing ancestor; the path is taken innermost component first.\<close>

fun ensureDir_rev :: "env \<Rightarrow> string list \<Rightarrow> unit io" where
  "ensureDir_rev E [] = bindM (osStat E []) (\<lambda>_. ret ())"
| "ensureDir_rev E (c # cs) =
     bindM (attemptM (osStat E (rev (c # cs)))) (\<lambda>r. case r of
        Inr DirN \<Rightarrow> ret ()
      | Inr (FileN _ _) \<Rightarrow> throw (Msg ''not a directory'')
      | Inl e \<Rightarrow>
          if e \<noteq> NotExist then throw e
          else bindM (ensureDir_rev E cs) (\<lambda>_.
               bindM (attemptM (osMkdir E (rev (c # cs)))) (\<lambda>r'. case r' of
                  Inl e' \<Rightarrow> if e' \<noteq> ErrExist then throw e' else SyncDir E (rev cs)
                | Inr _ \<Rightarrow> SyncDir E (rev cs))))"

definition EnsureDir :: "env \<Rightarrow> path \<Rightarrow> unit io" where
  "EnsureDir E p = ensureDir_rev E (rev p)"

definition tmpPrefix :: string where
  "tmpPrefix = ''.tmp-''"

definition AtomicWrite :: "env \<Rightarrow> path \<Rightarrow> bytes \<Rightarrow> nat \<Rightarrow> unit io" where
  "AtomicWrite E p b mode =
     (let dir = butlast p in
      bindM (EnsureDir E dir) (\<lambda>_.
      bindM (osCreateTemp E dir tmpPrefix) (\<lambda>tmp.
      deferM (osRemove E tmp)
       (bindM (fChmod E tmp mode) (\<lambda>_.
        bindM (fWrite E tmp b) (\<lambda>_.
        bindM (fSync E tmp) (\<lambda>_.
        bindM (fClose E tmp) (\<lambda>_.
        bindM (osRename E tmp p) (\<lambda>_.
        SyncDir E dir)))))))))"

text \<open>
  \<open>LockState\<close> opens \<open>agent.lock\<close> (creating it) and takes an exclusive, non-blocking lock, which fails
  while another holder exists.
\<close>

definition osOpenCreate :: "env \<Rightarrow> path \<Rightarrow> nat \<Rightarrow> unit io" where
  "osOpenCreate E p mode = prim E (\<lambda>w. case lookup w p of
       Some DirN \<Rightarrow> (Inl IOError, w)
     | Some (FileN _ _) \<Rightarrow> (Inr (), w)
     | None \<Rightarrow> if lookup w (butlast p) = Some DirN then (Inr (), put_node p (FileN [] mode) w)
                else (Inl NotExist, w))"

definition flock :: "env \<Rightarrow> unit io" where
  "flock E w = (let w' = w\<lparr>tick := Suc (tick w)\<rparr> in
     if lock_taken E (tick w) then (Inl (Msg ''another agent holds this state directory''), w')
     else (Inr (), w'))"

definition LockState :: "env \<Rightarrow> path \<Rightarrow> unit io" where
  "LockState E p =
     bindM (EnsureDir E p) (\<lambda>_.
     bindM (osOpenCreate E (p @ [''agent.lock'']) 384) (\<lambda>_. flock E))"

definition AvailableBytes :: "env \<Rightarrow> path \<Rightarrow> int io" where
  "AvailableBytes E p w = prim E (\<lambda>w'. (Inr (free_bytes E (tick w)), w')) w"

text \<open>\<open>CleanTemps\<close>: \<open>WalkDir\<close> over everything below the root, removing the regular files whose name
  starts with \<open>.tmp-\<close>.\<close>

definition isTempName :: "string \<Rightarrow> bool" where
  "isTempName s \<longleftrightarrow> length s \<ge> 5 \<and> take 5 s = ''.tmp-''"

definition is_temp :: "path \<Rightarrow> bool" where
  "is_temp p \<longleftrightarrow> p \<noteq> [] \<and> isTempName (last p)"

definition temps_below :: "world \<Rightarrow> path \<Rightarrow> path list" where
  "temps_below w root =
     remdups (map fst (filter (\<lambda>(p, n). take (length root) p = root \<and> length root < length p
                               \<and> is_temp p \<and> (case lookup w p of Some (FileN _ _) \<Rightarrow> True | _ \<Rightarrow> False)) (files w)))"

definition CleanTemps :: "env \<Rightarrow> path \<Rightarrow> unit io" where
  "CleanTemps E root w =
     bindM (osStat E root) (\<lambda>_. forM (temps_below w root) (\<lambda>p. osRemove E p)) w"

section \<open>Effects of the primitives on the tree\<close>

lemma isTempName_tmp [simp]: "isTempName (tmpPrefix @ s)"
  by (simp add: isTempName_def tmpPrefix_def)

lemma prim_okE:
  assumes "prim E f w = (Inr x, w')"
  obtains "\<not> io_fails E (tick w)" "f (w\<lparr>tick := Suc (tick w)\<rparr>) = (Inr x, w')"
  using assms by (auto simp: prim_def Let_def split: if_splits)

lemma steps_SyncDir: "steps (only_at P) (SyncDir E p)"
  unfolding SyncDir_def by (intro frame.steps_rules steps_quiet)

lemma steps_ensureDir_rev:
  "(\<And>n. 0 < n \<Longrightarrow> n \<le> length cs \<Longrightarrow> P (take n (rev cs))) \<Longrightarrow> steps (only_at P) (ensureDir_rev E cs)"
proof (induction cs)
  case Nil
  then show ?case by (auto intro!: frame.steps_rules steps_quiet)
next
  case (Cons c cs)
  have IH: "steps (only_at P) (ensureDir_rev E cs)"
  proof (rule Cons.IH)
    fix n assume "0 < n" "n \<le> length cs"
    then show "P (take n (rev cs))" using Cons.prems [of n] by simp
  qed
  have here: "P (rev (c # cs))" using Cons.prems [of "Suc (length cs)"] by simp
  show ?case
    unfolding ensureDir_rev.simps
    by (intro frame.steps_rules steps_quiet)
       (auto split: sum.split node.split intro!: frame.steps_rules steps_quiet steps_touch steps_SyncDir IH here [simplified])
qed


text \<open>
  The progress of one atomic replacement: \<open>aw_at\<close> while the temporary file has the content \<open>c\<close> and
  the target is untouched, \<open>aw_done\<close> once the target is replaced. Nothing else changes in either.
\<close>

definition aw_frame :: "world \<Rightarrow> path \<Rightarrow> path \<Rightarrow> world \<Rightarrow> bool" where
  "aw_frame w0 t p = only_at (\<lambda>q. q = t \<or> q = p) w0"

definition aw_at :: "world \<Rightarrow> path \<Rightarrow> path \<Rightarrow> node \<Rightarrow> world \<Rightarrow> bool" where
  "aw_at w0 t p c w \<longleftrightarrow> aw_frame w0 t p w \<and> lookup w p = lookup w0 p \<and> lookup w t = Some c"

definition aw_done :: "world \<Rightarrow> path \<Rightarrow> path \<Rightarrow> node \<Rightarrow> world \<Rightarrow> bool" where
  "aw_done w0 t p c w \<longleftrightarrow> aw_frame w0 t p w \<and> lookup w p = Some c"

definition aw_any :: "world \<Rightarrow> path \<Rightarrow> path \<Rightarrow> node \<Rightarrow> world \<Rightarrow> bool" where
  "aw_any w0 t p c w \<longleftrightarrow> aw_frame w0 t p w \<and> (lookup w p = lookup w0 p \<or> lookup w p = Some c)"

lemmas aw_defs = aw_frame_def aw_at_def aw_done_def aw_any_def only_at_def

text \<open>The part of \<open>AtomicWrite\<close> between the creation of the temporary file and its removal.\<close>

definition aw_body :: "env \<Rightarrow> path \<Rightarrow> path \<Rightarrow> bytes \<Rightarrow> nat \<Rightarrow> unit io" where
  "aw_body E t p b mode =
     bindM (fChmod E t mode) (\<lambda>_. bindM (fWrite E t b) (\<lambda>_. bindM (fSync E t) (\<lambda>_.
     bindM (fClose E t) (\<lambda>_. bindM (osRename E t p) (\<lambda>_. SyncDir E (butlast p))))))"

lemma AtomicWrite_alt:
  "AtomicWrite E p b mode =
     bindM (EnsureDir E (butlast p)) (\<lambda>_. bindM (osCreateTemp E (butlast p) tmpPrefix) (\<lambda>t.
       deferM (osRemove E t) (aw_body E t p b mode)))"
  by (simp add: AtomicWrite_def aw_body_def Let_def)

lemma aw_body_triple:
  assumes ne: "t \<noteq> []" "p \<noteq> []" "t \<noteq> p"
  shows "triple (aw_at w0 t p (FileN [] m0)) (aw_body E t p b mode)
           (\<lambda>_. aw_done w0 t p (FileN b mode)) (\<lambda>_. aw_any w0 t p (FileN b mode))"
proof -
  let ?X = "\<lambda>_. aw_any w0 t p (FileN b mode)"
  have chmod: "triple (aw_at w0 t p (FileN [] m0)) (fChmod E t mode) (\<lambda>_. aw_at w0 t p (FileN [] mode)) ?X"
    using ne by (intro tripleI) (auto simp: fChmod_def prim_def Let_def aw_defs split: if_splits)
  have wr: "triple (aw_at w0 t p (FileN [] mode)) (fWrite E t b) (\<lambda>_. aw_at w0 t p (FileN b mode)) ?X"
    using ne by (intro tripleI) (auto simp: fWrite_def Let_def aw_defs split: if_splits)
  have sync: "triple (aw_at w0 t p (FileN b mode)) (fSync E t) (\<lambda>_. aw_at w0 t p (FileN b mode)) ?X"
    by (intro tripleI) (auto simp: fSync_def prim_def Let_def aw_defs split: if_splits)
  have close: "triple (aw_at w0 t p (FileN b mode)) (fClose E t) (\<lambda>_. aw_at w0 t p (FileN b mode)) ?X"
    by (intro tripleI) (auto simp: fClose_def prim_def Let_def aw_defs split: if_splits)
  have rename: "triple (aw_at w0 t p (FileN b mode)) (osRename E t p) (\<lambda>_. aw_done w0 t p (FileN b mode)) ?X"
    using ne by (intro tripleI) (auto simp: osRename_def prim_def Let_def aw_defs split: if_splits)
  have dir: "triple (aw_done w0 t p (FileN b mode)) (SyncDir E d) (\<lambda>_. aw_done w0 t p (FileN b mode)) ?X" for d
    by (intro tripleI; drule stepsD [OF steps_SyncDir [where P = "\<lambda>_. False"], rotated]; simp add: aw_defs)
  show ?thesis
    unfolding aw_body_def by (rule chmod wr sync close rename dir triple_bind)+
qed

section \<open>Directories\<close>

text \<open>\<open>mk_dirs d\<close>: the only change is that missing ancestors of \<open>d\<close> became directories.\<close>

definition mk_dirs :: "path \<Rightarrow> world \<Rightarrow> world \<Rightarrow> bool" where
  "mk_dirs d w w' \<longleftrightarrow> (\<forall>q. lookup w' q = lookup w q \<or>
     lookup w q = None \<and> lookup w' q = Some DirN \<and> prefix q d)"

interpretation dirs: effect_order "mk_dirs d" for d
proof
  fix s t u assume a: "mk_dirs d s t" "mk_dirs d t u"
  show "mk_dirs d s u"
    unfolding mk_dirs_def
  proof
    fix q
    show "lookup u q = lookup s q \<or> lookup s q = None \<and> lookup u q = Some DirN \<and> prefix q d"
      using a [unfolded mk_dirs_def, THEN spec, of q] by auto
  qed
qed (simp add: mk_dirs_def)

lemma steps_mk_dirs_quiet: "steps (only_at (\<lambda>_. False)) m \<Longrightarrow> steps (mk_dirs d) m"
  by (auto simp: steps_def only_at_def mk_dirs_def)

lemmas mk_dirs_quiet = steps_quiet [THEN steps_mk_dirs_quiet] steps_SyncDir [THEN steps_mk_dirs_quiet]

lemma steps_mk_dirs_mkdir: "p \<noteq> [] \<Longrightarrow> prefix p d \<Longrightarrow> steps (mk_dirs d) (osMkdir E p)"
  by (auto simp: steps_def osMkdir_def prim_def Let_def mk_dirs_def)

lemma steps_mk_dirs_ensure: "prefix (rev cs) d \<Longrightarrow> steps (mk_dirs d) (ensureDir_rev E cs)"
proof (induction cs)
  case Nil
  show ?case
    unfolding ensureDir_rev.simps by (intro steps_mk_dirs_quiet frame.steps_rules steps_quiet)
next
  case (Cons c cs)
  then have here: "prefix (rev cs @ [c]) d" and up: "prefix (rev cs) d"
    by (auto dest: append_prefixD)
  show ?case
    unfolding ensureDir_rev.simps
    by (intro dirs.steps_rules mk_dirs_quiet)
       (auto split: sum.split node.split
             intro!: dirs.steps_rules mk_dirs_quiet steps_mk_dirs_mkdir here Cons.IH up)
qed

lemma steps_EnsureDir: "steps (mk_dirs d) (EnsureDir E d)"
  unfolding EnsureDir_def by (rule steps_mk_dirs_ensure) simp

lemma ensureDir_rev_ok:
  "triple (\<lambda>_. True) (ensureDir_rev E cs) (\<lambda>_ w. lookup w (rev cs) = Some DirN) (\<lambda>_ _. True)"
proof (induction cs)
  case Nil
  show ?case by (auto intro: tripleI)
next
  case (Cons c cs)
  let ?p = "rev (c # cs)"
  have keep: "triple (\<lambda>w. lookup w ?p = None) (ensureDir_rev E cs)
                 (\<lambda>_ w. lookup w ?p = None \<and> lookup w (rev cs) = Some DirN) (\<lambda>_ _. True)"
  proof (rule tripleI)
    fix s x s' assume a: "lookup s ?p = None" "ensureDir_rev E cs s = (Inr x, s')"
    have "steps (only_at (\<lambda>q. length q \<le> length cs)) (ensureDir_rev E cs)"
      by (rule steps_ensureDir_rev) simp
    from stepsD [OF this a(2)] a(1) have "lookup s' ?p = None" by (simp add: only_at_def)
    with triple_okD [OF Cons.IH _ a(2)] show "lookup s' ?p = None \<and> lookup s' (rev cs) = Some DirN" by simp
  qed simp
  have stat: "triple (\<lambda>_. True) (attemptM (osStat E ?p))
      (\<lambda>r w. (r = Inr DirN \<longrightarrow> lookup w ?p = Some DirN) \<and> (r = Inl NotExist \<longrightarrow> lookup w ?p = None)) (\<lambda>_ _. True)"
    by (rule triple_attempt, rule tripleI) (auto simp: osStat_def prim_def Let_def split: if_splits option.splits)
  have mkdir: "triple (\<lambda>w. lookup w ?p = None \<and> lookup w (rev cs) = Some DirN) (attemptM (osMkdir E ?p))
      (\<lambda>r w. r \<noteq> Inl ErrExist \<and> (\<forall>u. r = Inr u \<longrightarrow> lookup w ?p = Some DirN)) (\<lambda>_ _. True)"
    by (rule triple_attempt, rule tripleI) (auto simp: osMkdir_def prim_def Let_def ErrExist_def split: if_splits)
  have sync: "triple (\<lambda>w. lookup w q = Some DirN) (SyncDir E d) (\<lambda>_ w. lookup w q = Some DirN) (\<lambda>_ _. True)" for q d
    by (rule tripleI) (auto dest: stepsD [OF steps_SyncDir [where P = "\<lambda>_. False"]] simp: only_at_def)
  show ?case
    unfolding ensureDir_rev.simps
  proof (rule triple_bind [OF stat], goal_cases)
    case (1 r)
    have make: "triple (\<lambda>w. lookup w ?p = None)
       (bindM (ensureDir_rev E cs) (\<lambda>_. bindM (attemptM (osMkdir E ?p)) (\<lambda>r'. case r' of
           Inl e' \<Rightarrow> if e' \<noteq> ErrExist then throw e' else SyncDir E (rev cs)
         | Inr _ \<Rightarrow> SyncDir E (rev cs)))) (\<lambda>_ w. lookup w ?p = Some DirN) (\<lambda>_ _. True)"
      by (rule triple_bind [OF keep], rule triple_bind [OF mkdir], rule triple_pre)
         (auto split: sum.split intro!: triple_throw triple_conseq [OF sync])
    show ?case
      by (cases r rule: sum.exhaust)
         (auto split: node.split intro!: triple_throw triple_ret triple_conseq [OF make [simplified]])
  qed
qed

lemma EnsureDir_ok: "EnsureDir E d w = (Inr u, w') \<Longrightarrow> lookup w' d = Some DirN"
  using triple_okD [OF ensureDir_rev_ok TrueI] unfolding EnsureDir_def by fastforce

section \<open>Atomic replacement\<close>

definition aw_effect :: "path \<Rightarrow> node \<Rightarrow> world \<Rightarrow> world \<Rightarrow> bool" where
  "aw_effect p c w w' \<longleftrightarrow>
     (lookup w' p = lookup w p \<or> lookup w' p = Some c) \<and>
     (\<forall>q. q \<noteq> p \<and> lookup w q \<noteq> None \<longrightarrow> lookup w' q = lookup w q) \<and>
     (\<forall>q. q \<noteq> p \<and> lookup w q = None \<and> lookup w' q \<noteq> None \<longrightarrow>
        lookup w' q = Some DirN \<and> strict_prefix q p \<or> is_temp q \<and> butlast q = butlast p)"

lemma osCreateTemp_ok:
  assumes "osCreateTemp E d pre w = (Inr t, w')"
  shows "lookup w t = None" "lookup w' t = Some (FileN [] 384)" "only_at (\<lambda>q. q = t) w w'"
    "\<exists>s. t = d @ [pre @ s]"
  using assms by (auto simp: osCreateTemp_def prim_def Let_def only_at_def split: if_splits)

lemma osCreateTemp_err: "osCreateTemp E d pre w = (Inl e, w') \<Longrightarrow> only_at (\<lambda>q. False) w w'"
  by (auto simp: osCreateTemp_def prim_def Let_def only_at_def split: if_splits)

lemma osRemove_frame: "t \<noteq> [] \<Longrightarrow> only_at (\<lambda>q. q = t) w (snd (osRemove E t w))"
  using steps_touch(2) [of t "\<lambda>q. q = t" E] by (simp add: steps_def)

lemma AtomicWrite_run:
  assumes p: "p \<noteq> []" "\<not> is_temp p" and run: "AtomicWrite E p b mode w = (r, w')"
  shows "aw_effect p (FileN b mode) w w' \<and> (r = Inr () \<longrightarrow> lookup w' p = Some (FileN b mode))"
proof -
  obtain r1 w1 where e: "EnsureDir E (butlast p) w = (r1, w1)" by fastforce
  have d: "mk_dirs (butlast p) w w1" using stepsD [OF steps_EnsureDir e] .
  have notp: "\<not> prefix p (butlast p)"
    using p(1) prefix_length_le [of p "butlast p"] by (cases p) auto
  have sp: "prefix q (butlast p) \<Longrightarrow> strict_prefix q p" for q
    using p(1) notp prefixeq_butlast [of p] by (metis prefix_order.order_trans strict_prefix_def)
  have dirs: "aw_effect p c w w1" for c
    using d notp sp unfolding aw_effect_def mk_dirs_def by metis
  show ?thesis
  proof (cases r1)
    case (Inl err)
    with run e dirs show ?thesis by (auto simp: AtomicWrite_alt bindM_def)
  next
    case (Inr u)
    obtain r2 w2 where c: "osCreateTemp E (butlast p) tmpPrefix w1 = (r2, w2)" by fastforce
    show ?thesis
    proof (cases r2)
      case (Inl err)
      with run e c \<open>r1 = Inr u\<close> have "w' = w2" "r = Inl err" by (auto simp: AtomicWrite_alt bindM_def)
      with osCreateTemp_err [OF c [unfolded Inl]] dirs show ?thesis by (simp add: aw_effect_def only_at_def)
    next
      case (Inr t)
      note tmp = osCreateTemp_ok [OF c [unfolded Inr]]
      have t0: "t \<noteq> []" "is_temp t" "butlast t = butlast p"
        using tmp(4) by (auto simp: is_temp_def)
      then have t: "t \<noteq> []" "is_temp t" "butlast t = butlast p" "t \<noteq> p" using p(2) by auto
      obtain r3 w3 where b: "aw_body E t p b mode w2 = (r3, w3)" by fastforce
      have fin: "w' = snd (osRemove E t w3)" "r = r3"
        using run e c b \<open>r1 = Inr u\<close> Inr by (auto simp: AtomicWrite_alt bindM_def deferM_def)
      have at2: "aw_at w2 t p (FileN [] 384) w2" using tmp(2) by (simp add: aw_defs)
      note tr = aw_body_triple [OF t(1) p(1) t(4), of w2 384 E b mode]
      have any: "aw_any w2 t p (FileN b mode) w3" "r3 = Inr () \<longrightarrow> lookup w3 p = Some (FileN b mode)"
        using triple_okD [OF tr at2, of _ w3] triple_errD [OF tr at2, of _ w3] b
        by (cases r3; auto simp: aw_defs)+
      have rm: "lookup w' q = lookup w3 q" if "q \<noteq> t" for q
        using osRemove_frame [OF t(1), of w3 E] fin(1) that by (simp add: only_at_def)
      show ?thesis
        using any rm fin(2) tmp(1,3) t dirs [of "FileN b mode"] unfolding aw_effect_def aw_defs
        by (metis)
    qed
  qed
qed

lemma AtomicWrite_ok:
  "AtomicWrite E p b mode w = (Inr u, w') \<Longrightarrow> p \<noteq> [] \<Longrightarrow> \<not> is_temp p \<Longrightarrow> lookup w' p = Some (FileN b mode)"
  using AtomicWrite_run [of p E b mode w "Inr u" w'] by simp

lemma AtomicWrite_other:
  assumes "AtomicWrite E p b mode w = (r, w')" "p \<noteq> []" "\<not> is_temp p" "q \<noteq> p" "lookup w q = Some (FileN c m)"
  shows "lookup w' q = Some (FileN c m)"
  using AtomicWrite_run [OF assms(2,3,1)] assms(4,5) by (auto simp: aw_effect_def)

lemma AtomicWrite_frame:
  assumes "AtomicWrite E p b mode w = (r, w')" "p \<noteq> []" "\<not> is_temp p" "q \<noteq> p" "\<not> is_temp q" "\<not> strict_prefix q p"
  shows "lookup w' q = lookup w q"
proof -
  note eff = AtomicWrite_run [OF assms(2,3,1), THEN conjunct1, unfolded aw_effect_def]
  show ?thesis
  proof (cases "lookup w q")
    case None
    then show ?thesis using eff assms(4-6) by (cases "lookup w' q") auto
  qed (use eff assms(4) in auto)
qed

section \<open>Machines without failures\<close>

text \<open>\<open>open_path\<close>: a file may be created or replaced there. \<open>fresh_temps\<close>: no temporary file is in
  the way. On such a machine the operations succeed.\<close>

definition calm :: "env \<Rightarrow> bool" where
  "calm E \<longleftrightarrow> (\<forall>t. \<not> io_fails E t \<and> \<not> ctx_done E t)"

definition open_path :: "world \<Rightarrow> path \<Rightarrow> bool" where
  "open_path w p \<longleftrightarrow> p \<noteq> [] \<and> (\<forall>q. strict_prefix q p \<longrightarrow> lookup w q \<in> {None, Some DirN}) \<and> lookup w p \<noteq> Some DirN"

definition fresh_temps :: "world \<Rightarrow> bool" where
  "fresh_temps w \<longleftrightarrow> (\<forall>d s. lookup w (d @ [tmpPrefix @ s]) = None)"

lemma calm_prim: "calm E \<Longrightarrow> prim E f w = f (w\<lparr>tick := Suc (tick w)\<rparr>)"
  by (simp add: prim_def calm_def)

lemma SyncDir_live: "calm E \<Longrightarrow> lookup w d = Some n \<Longrightarrow> \<exists>w'. SyncDir E d w = (Inr (), w')"
  by (simp add: SyncDir_def osStat_def fSync_def calm_prim bindM_def)

lemma ensureDir_rev_live:
  assumes c: "calm E"
  shows "(\<forall>q. prefix q (rev cs) \<longrightarrow> lookup w q \<in> {None, Some DirN}) \<Longrightarrow> \<exists>w'. ensureDir_rev E cs w = (Inr (), w')"
proof (induction cs arbitrary: w)
  case Nil
  show ?case by (simp add: osStat_def calm_prim [OF c] bindM_def sm_run)
next
  case (Cons x cs)
  let ?w = "w\<lparr>tick := Suc (tick w)\<rparr>"
  have here: "lookup w (rev (x # cs)) \<in> {None, Some DirN}" using Cons.prems by blast
  show ?case
  proof (cases "lookup w (rev (x # cs))")
    case (Some n)
    then show ?thesis using here by (auto simp: osStat_def calm_prim [OF c] bindM_def attemptM_def sm_run)
  next
    case None
    have "\<forall>q. prefix q (rev cs) \<longrightarrow> lookup ?w q \<in> {None, Some DirN}" using Cons.prems by simp
    then obtain w1 where e: "ensureDir_rev E cs ?w = (Inr (), w1)" using Cons.IH by blast
    have up: "lookup w1 (rev cs) = Some DirN" using triple_okD [OF ensureDir_rev_ok TrueI e] .
    have "steps (only_at (\<lambda>q. length q \<le> length cs)) (ensureDir_rev E cs)"
      by (rule steps_ensureDir_rev) simp
    from stepsD [OF this e] None have n1: "lookup w1 (rev cs @ [x]) = None" by (simp add: only_at_def)
    obtain w2 where m: "osMkdir E (rev cs @ [x]) w1 = (Inr (), w2)" and "lookup w2 (rev cs) = Some DirN"
      using up n1 by (simp add: osMkdir_def calm_prim [OF c])
    then obtain w3 where "SyncDir E (rev cs) w2 = (Inr (), w3)" using SyncDir_live [OF c] by blast
    then show ?thesis
      using None e m by (simp add: osStat_def calm_prim [OF c] bindM_def attemptM_def)
  qed
qed

lemma EnsureDir_live:
  assumes "calm E" and "\<forall>q. prefix q d \<longrightarrow> lookup w q \<in> {None, Some DirN}"
  shows "\<exists>w'. EnsureDir E d w = (Inr (), w')"
  unfolding EnsureDir_def by (rule ensureDir_rev_live) (use assms in auto)

text \<open>The exact effect of a replacement that succeeds.\<close>

definition wrote :: "path \<Rightarrow> node \<Rightarrow> world \<Rightarrow> world \<Rightarrow> bool" where
  "wrote p c w w' \<longleftrightarrow> lookup w' p = Some c \<and>
     (\<forall>q. q \<noteq> p \<longrightarrow> lookup w' q = lookup w q \<or> lookup w q = None \<and> lookup w' q = Some DirN \<and> strict_prefix q p)"

lemma aw_body_live:
  assumes c: "calm E" and ne: "t \<noteq> []" "p \<noteq> []" "t \<noteq> p" "butlast p \<noteq> t" "butlast p \<noteq> p"
    and w: "lookup w t = Some (FileN [] k)" "lookup w (butlast p) = Some DirN" "lookup w p \<noteq> Some DirN"
  shows "\<exists>w'. aw_body E t p b mode w = (Inr (), w') \<and> lookup w' t = None"
proof -
  obtain w1 where 1: "fChmod E t mode w = (Inr (), w1)" "lookup w1 = (lookup w)(t \<mapsto> FileN [] mode)"
    using w ne by (auto simp: fChmod_def calm_prim [OF c] fun_eq_iff)
  obtain w2 where 2: "fWrite E t b w1 = (Inr (), w2)" "lookup w2 = (lookup w)(t \<mapsto> FileN b mode)"
    using 1 ne c by (auto simp: fWrite_def calm_def Let_def fun_eq_iff)
  obtain w3 where 3: "fSync E t w2 = (Inr (), w3)" "lookup w3 = lookup w2"
    by (auto simp: fSync_def calm_prim [OF c] fun_eq_iff)
  obtain w4 where 4: "fClose E t w3 = (Inr (), w4)" "lookup w4 = lookup w2"
    using 3 by (auto simp: fClose_def calm_prim [OF c] fun_eq_iff)
  obtain w5 where 5: "osRename E t p w4 = (Inr (), w5)" "lookup w5 = (lookup w2)(t := None, p \<mapsto> FileN b mode)"
    using 2 4 ne w by (auto simp: osRename_def calm_prim [OF c] fun_eq_iff)
  have "lookup w5 (butlast p) = Some DirN" using 5 2 ne w by simp
  then obtain w6 where 6: "SyncDir E (butlast p) w5 = (Inr (), w6)" using SyncDir_live [OF c] by blast
  have "lookup w6 t = None"
    using stepsD [OF steps_SyncDir [where P = "\<lambda>_. False"] 6] 5 ne by (simp add: only_at_def)
  with 1 2 3 4 5 6 show ?thesis by (simp add: aw_body_def bindM_def)
qed

lemma AtomicWrite_live:
  assumes c: "calm E" and p: "open_path w p" "\<not> is_temp p" and f: "fresh_temps w"
  shows "\<exists>w'. AtomicWrite E p b mode w = (Inr (), w') \<and> wrote p (FileN b mode) w w'"
proof -
  have pn: "p \<noteq> []" using p by (simp add: open_path_def)
  then have bp: "strict_prefix (butlast p) p"
    by (cases p rule: rev_cases) (simp_all add: strict_prefix_def)
  have above: "\<forall>q. prefix q (butlast p) \<longrightarrow> lookup w q \<in> {None, Some DirN}"
    using p bp by (auto simp: open_path_def dest: prefix_order.le_less_trans)
  obtain w1 where e: "EnsureDir E (butlast p) w = (Inr (), w1)" using EnsureDir_live [OF c above] by blast
  note d1 = EnsureDir_ok [OF e] and mk = stepsD [OF steps_EnsureDir e, unfolded mk_dirs_def]
  define t where "t = butlast p @ [tmpPrefix @ temp_rand E (tick w1)]"
  have "is_temp t" "t \<noteq> []" by (simp_all add: t_def is_temp_def)
  with p(2) have tt: "is_temp t" "t \<noteq> []" "t \<noteq> p" by auto
  have t0: "lookup w1 t = None"
    using mk [THEN spec, of t] f by (auto simp: t_def fresh_temps_def)
  obtain w2 where cr: "osCreateTemp E (butlast p) tmpPrefix w1 = (Inr t, w2)"
    and w2: "lookup w2 = (lookup w1)(t \<mapsto> FileN [] 384)"
    using d1 t0 by (auto simp: osCreateTemp_def calm_prim [OF c] Let_def t_def fun_eq_iff)
  have "lookup w1 p \<noteq> Some DirN"
    using mk [THEN spec, of p] p bp by (auto simp: open_path_def dest: prefix_order.le_less_trans)
  moreover have "butlast p \<noteq> t" "butlast p \<noteq> p" using bp by (auto simp: t_def)
  ultimately obtain w3 where b: "aw_body E t p b mode w2 = (Inr (), w3)" "lookup w3 t = None"
    using aw_body_live [OF c tt(2) pn tt(3), of w2 384 b mode] w2 tt(3) d1 by auto
  then have "AtomicWrite E p b mode w = (Inr (), snd (osRemove E t w3))"
    using e cr by (simp add: AtomicWrite_alt bindM_def deferM_def)
  moreover have rem: "lookup (snd (osRemove E t w3)) = lookup w3"
    using b(2) by (simp add: osRemove_def calm_prim [OF c] fun_eq_iff)
  moreover have "wrote p (FileN b mode) w w3"
    unfolding wrote_def
  proof (intro conjI allI impI)
    have at: "aw_at w1 t p (FileN [] 384) w2" using w2 tt by (auto simp: aw_defs)
    note fin = triple_okD [OF aw_body_triple [OF tt(2) pn tt(3)] at b(1), unfolded aw_defs]
    then show "lookup w3 p = Some (FileN b mode)" by blast
    fix q assume "q \<noteq> p"
    then show "lookup w3 q = lookup w q \<or> lookup w q = None \<and> lookup w3 q = Some DirN \<and> strict_prefix q p"
      using fin mk [THEN spec, of q] b(2) f bp
      by (cases "q = t") (auto simp: t_def fresh_temps_def dest: prefix_order.le_less_trans)
  qed
  ultimately show ?thesis by (auto simp: wrote_def)
qed

lemma open_path_lookup: "lookup w' = lookup w \<Longrightarrow> open_path w' = open_path w"
  by (simp add: open_path_def fun_eq_iff)

lemma fresh_temps_lookup: "lookup w' = lookup w \<Longrightarrow> fresh_temps w' = fresh_temps w"
  by (simp add: fresh_temps_def)

lemma open_path_wrote:
  assumes "wrote p (FileN b m) w w'" and "open_path w q" and "\<not> strict_prefix p q" and "\<not> strict_prefix q p"
  shows "open_path w' q"
  unfolding open_path_def
proof (intro conjI allI impI)
  fix r assume "strict_prefix r q"
  then show "lookup w' r \<in> {None, Some DirN}"
    using assms(1-3) unfolding wrote_def open_path_def by (metis insert_iff)
next
  show "lookup w' q \<noteq> Some DirN"
    using assms unfolding wrote_def open_path_def by (metis node.distinct(1) option.inject)
qed (use assms(2) in \<open>simp add: open_path_def\<close>)

lemma fresh_temps_wrote:
  assumes "wrote p c w w'" and "fresh_temps w" and "\<And>q. prefix q p \<Longrightarrow> \<not> is_temp q"
  shows "fresh_temps w'"
  unfolding fresh_temps_def
proof (intro allI)
  fix d s
  have "\<not> prefix (d @ [tmpPrefix @ s]) p" using assms(3) by (force simp: is_temp_def)
  then show "lookup w' (d @ [tmpPrefix @ s]) = None"
    using assms(1,2) unfolding wrote_def fresh_temps_def by (metis prefix_order.dual_order.refl prefix_order.less_imp_le)
qed

section \<open>Sweep and lock\<close>

lemma temps_below_is_temp: "q \<in> set (temps_below w root) \<Longrightarrow> is_temp q"
  by (auto simp: temps_below_def)

lemma steps_CleanTemps: "steps (only_at is_temp) (CleanTemps E root)"
proof (rule stepsI)
  fix w r w' assume run: "CleanTemps E root w = (r, w')"
  have "steps (only_at is_temp) (bindM (osStat E root) (\<lambda>_. forM (temps_below w root) (osRemove E)))"
    by (intro frame.steps_rules steps_quiet steps_touch)
       (auto dest: temps_below_is_temp simp: is_temp_def)
  from stepsD [OF this run [unfolded CleanTemps_def]] show "only_at is_temp w w'" .
qed

lemma forM_remove_ok:
  assumes "forM ps (osRemove E) w = (Inr u, w')" and "\<And>q. q \<in> set ps \<Longrightarrow> q \<noteq> []"
  shows "\<forall>q \<in> set ps. lookup w' q = None"
proof -
  have "triple (\<lambda>w. \<forall>q \<in> set []. lookup w q = None) (forM ps (osRemove E))
          (\<lambda>_ w. \<forall>q \<in> set ps. lookup w q = None) (\<lambda>_ _. True)"
  proof (rule triple_forM_upto [where I = "\<lambda>ps w. \<forall>q \<in> set ps. lookup w q = None"])
    fix pre x post assume "ps = pre @ x # post"
    then show "triple (\<lambda>w. \<forall>q \<in> set pre. lookup w q = None) (osRemove E x)
        (\<lambda>_ w. \<forall>q \<in> set (pre @ [x]). lookup w q = None) (\<lambda>_ _. True)"
      using assms(2) [of x]
      by (intro tripleI) (auto simp: osRemove_def prim_def Let_def split: if_splits option.splits node.splits)
  qed
  from triple_okD [OF this _ assms(1)] show ?thesis by simp
qed

lemma temps_below_complete:
  assumes "is_temp p" "strict_prefix root p" "lookup w p = Some (FileN b m)"
  shows "p \<in> set (temps_below w root)"
proof -
  have "(p, FileN b m) \<in> set (files w)"
    using assms by (auto simp: lookup_def is_temp_def dest: map_of_SomeD)
  moreover have "take (length root) p = root" "length root < length p"
    using assms(2) by (auto simp: strict_prefix_def prefix_def)
  ultimately show ?thesis
    using assms by (force simp: temps_below_def)
qed

section \<open>Properties\<close>

text \<open>C9. Atomic replacement. However \<open>AtomicWrite\<close> ends, at whatever step it failed, a reader of the
  target finds the node that was there before or the complete new file, never a part of it; success
  means the new file; no other existing node changes, and the only new nodes are the missing parent
  directories and possibly an abandoned temporary file beside the target.\<close>

theorem AtomicWrite_atomic:
  assumes "p \<noteq> []" and "\<not> is_temp p" and "AtomicWrite E p b mode w = (r, w')"
  shows "(lookup w' p = lookup w p \<or> lookup w' p = Some (FileN b mode))
    \<and> (r = Inr () \<longrightarrow> lookup w' p = Some (FileN b mode))
    \<and> (\<forall>q. q \<noteq> p \<and> lookup w q \<noteq> None \<longrightarrow> lookup w' q = lookup w q)
    \<and> (\<forall>q. q \<noteq> p \<and> lookup w q = None \<and> lookup w' q \<noteq> None \<longrightarrow>
          lookup w' q = Some DirN \<and> strict_prefix q p \<or> is_temp q \<and> butlast q = butlast p)"
  using AtomicWrite_run [OF assms] unfolding aw_effect_def by blast

theorem AtomicWrite_atomic_witness:
  "lookup (snd (AtomicWrite (env_fail_at 3) [''f''] [1, 2] 420 (put_node [''f''] (FileN [9] 384) empty_world)))
     [''f''] \<in> {Some (FileN [9] 384), Some (FileN [1, 2] 420)}"
proof -
  let ?w = "put_node [''f''] (FileN [9] 384) empty_world"
  obtain r w' where run: "AtomicWrite (env_fail_at 3) [''f''] [1, 2] 420 ?w = (r, w')" by fastforce
  have "\<not> is_temp [''f'']" by (simp add: is_temp_def isTempName_def)
  from AtomicWrite_atomic [OF _ this run] run show ?thesis by auto
qed

text \<open>\<open>EnsureDir\<close> only ever adds missing ancestors as directories, on every path through its
  errors, and when it succeeds the directory is there.\<close>

theorem EnsureDir_creates:
  assumes "EnsureDir E d w = (r, w')"
  shows "(r = Inr () \<longrightarrow> lookup w' d = Some DirN)
    \<and> (\<forall>q. lookup w' q = lookup w q \<or> lookup w q = None \<and> lookup w' q = Some DirN \<and> prefix q d)"
  using EnsureDir_ok [of E d w "()" w'] stepsD [OF steps_EnsureDir assms] assms
  by (auto simp: mk_dirs_def)

theorem EnsureDir_creates_witness:
  "\<exists>w'. EnsureDir (env_fail_at 99) [''a'', ''b''] empty_world = (Inr (), w') \<and> lookup w' [''a'', ''b''] = Some DirN"
proof -
  obtain w' where run: "EnsureDir (env_fail_at 99) [''a'', ''b''] empty_world = (Inr (), w')"
    by (simp add: EnsureDir_def SyncDir_def bindM_def attemptM_def prim_defs Let_def empty_world_def
        env_fail_at_def lookup_def put_node_def ret_def)
  from EnsureDir_creates [OF run] run show ?thesis by blast
qed

text \<open>The restart sweep removes temporary files and nothing else, and a sweep that succeeds leaves
  no temporary file below the directory.\<close>

theorem CleanTemps_only_temps:
  assumes "CleanTemps E root w = (r, w')"
  shows "(\<forall>q. \<not> is_temp q \<longrightarrow> lookup w' q = lookup w q)
    \<and> (r = Inr () \<longrightarrow> (\<forall>q b m. is_temp q \<and> strict_prefix root q \<and> lookup w q = Some (FileN b m) \<longrightarrow> lookup w' q = None))"
proof (intro conjI impI allI)
  fix q assume "\<not> is_temp q"
  then show "lookup w' q = lookup w q"
    using stepsD [OF steps_CleanTemps assms] by (simp add: only_at_def)
next
  fix q b m assume ok: "r = Inr ()" and q: "is_temp q \<and> strict_prefix root q \<and> lookup w q = Some (FileN b m)"
  obtain w1 where "forM (temps_below w root) (osRemove E) w1 = (Inr (), w')"
    using assms ok by (auto simp: CleanTemps_def elim: bindM_okE)
  then have "\<forall>q \<in> set (temps_below w root). lookup w' q = None"
    by (rule forM_remove_ok) (auto dest: temps_below_is_temp simp: is_temp_def)
  with q temps_below_complete show "lookup w' q = None" by blast
qed

theorem CleanTemps_only_temps_witness:
  "\<exists>w'. CleanTemps (env_fail_at 99) [''s''] (put_node [''s''] DirN (put_node [''s'', ''.tmp-1''] (FileN [1] 384) empty_world))
        = (Inr (), w') \<and> lookup w' [''s'', ''.tmp-1''] = None \<and> lookup w' [''s''] = Some DirN"
proof -
  let ?w = "put_node [''s''] DirN (put_node [''s'', ''.tmp-1''] (FileN [1] 384) empty_world)"
  obtain w' where run: "CleanTemps (env_fail_at 99) [''s''] ?w = (Inr (), w')"
    by (simp add: CleanTemps_def temps_below_def bindM_def prim_defs Let_def empty_world_def
        env_fail_at_def lookup_def put_node_def del_node_def ret_def is_temp_def isTempName_def)
  have "is_temp [''s'', ''.tmp-1'']" "\<not> is_temp [''s'']" "strict_prefix [''s''] [''s'', ''.tmp-1'']"
    by (simp_all add: is_temp_def isTempName_def)
  with CleanTemps_only_temps [OF run] run show ?thesis by (auto simp: empty_world_def)
qed

end
