(* ===== verification/Chunker.thy ===== *)
theory Chunker
  imports GoStd
begin

unbundle bit_operations_syntax

text \<open>
  \<open>src/internal/lab/chunker.go\<close>: the Gear content-defined splitter. \<open>Split\<close> reads a byte stream,
  keeps the open piece and its rolling hash, and hands every closed piece to a callback that may
  fail. The reference definition \<open>gear_chunks\<close> is the plain list of pieces; the theorems relate the
  two and state what the splitter promises: nothing is lost or reordered, the sizes are bounded, and
  equal content after a cut gives equal pieces.
\<close>

section \<open>Model\<close>

definition MaxChunkBytes :: int where
  "MaxChunkBytes = 4 * 2 ^ 20"

text \<open>\<open>fmt.Sprintf("edge-delta-lab/gear-v1/%d", i)\<close>: decimal digits of the table index.\<close>

fun decimal :: "nat \<Rightarrow> string" where
  "decimal n = (if n < 10 then [char_of (48 + n)] else decimal (n div 10) @ [char_of (48 + n mod 10)])"

declare decimal.simps [simp del]

definition le64 :: "bytes \<Rightarrow> u64" where
  "le64 b = word_of_nat (\<Sum>i<8. unat (b ! i) * 256 ^ i)"

definition gearTable :: "byte \<Rightarrow> u64" where
  "gearTable b = le64 (take 8 (sha256 (bytes_of (''edge-delta-lab/gear-v1/'' @ decimal (unat b)))))"

text \<open>The parameter check shared by \<open>Split\<close> and \<open>Verify\<close>, negated: these values are accepted.\<close>

definition cdc_params_ok :: "int \<Rightarrow> int \<Rightarrow> int \<Rightarrow> bool" where
  "cdc_params_ok mn avg mx \<longleftrightarrow>
     \<not> (mn < 64 \<or> mn > avg \<or> avg > mx \<or> mx > MaxChunkBytes \<or> avg AND (avg - 1) \<noteq> 0)"

definition gear_roll :: "u64 \<Rightarrow> byte \<Rightarrow> u64" where
  "gear_roll rolling b = push_bit 1 rolling + gearTable b"

definition gear_cut :: "int \<Rightarrow> int \<Rightarrow> int \<Rightarrow> bytes \<Rightarrow> u64 \<Rightarrow> bool" where
  "gear_cut mn avg mx buf rolling \<longleftrightarrow>
     int (length buf) \<ge> mx \<or>
     (int (length buf) \<ge> mn \<and> rolling AND word_of_int (avg - 1) = 0)"

text \<open>
  The loop. The stream is the bytes it delivers and then either end of file (\<open>None\<close>) or a read
  error; the callback \<open>emit\<close> may change the caller's state and may fail.
\<close>

fun split_loop ::
  "int \<Rightarrow> int \<Rightarrow> int \<Rightarrow> (bytes \<Rightarrow> ('s, unit) sm) \<Rightarrow> error option \<Rightarrow> bytes \<Rightarrow> u64 \<Rightarrow> bytes \<Rightarrow> ('s, unit) sm" where
  "split_loop mn avg mx emit rerr buf rolling [] =
     (case rerr of
        None \<Rightarrow> (if buf \<noteq> [] then emit buf else ret ())
      | Some e \<Rightarrow> throw e)"
| "split_loop mn avg mx emit rerr buf rolling (b # bs) =
     (let buf' = buf @ [b]; rolling' = gear_roll rolling b in
      if gear_cut mn avg mx buf' rolling'
      then bindM (emit buf') (\<lambda>_. split_loop mn avg mx emit rerr [] 0 bs)
      else split_loop mn avg mx emit rerr buf' rolling' bs)"

definition Split ::
  "bytes \<Rightarrow> error option \<Rightarrow> int \<Rightarrow> int \<Rightarrow> int \<Rightarrow> (bytes \<Rightarrow> ('s, unit) sm) \<Rightarrow> ('s, unit) sm" where
  "Split r rerr mn avg mx emit =
     (if cdc_params_ok mn avg mx then split_loop mn avg mx emit rerr [] 0 r
      else throw (Msg ''invalid CDC parameters''))"

section \<open>Reference definition\<close>

text \<open>The closed pieces of a stream, and the open piece with its rolling hash.\<close>

fun gear_scan :: "int \<Rightarrow> int \<Rightarrow> int \<Rightarrow> bytes \<Rightarrow> u64 \<Rightarrow> bytes \<Rightarrow> bytes list \<times> bytes \<times> u64" where
  "gear_scan mn avg mx buf h [] = ([], buf, h)"
| "gear_scan mn avg mx buf h (b # bs) =
     (let buf' = buf @ [b]; h' = gear_roll h b in
      if gear_cut mn avg mx buf' h'
      then (case gear_scan mn avg mx [] 0 bs of (cs, p) \<Rightarrow> (buf' # cs, p))
      else gear_scan mn avg mx buf' h' bs)"

definition closed_pieces :: "int \<Rightarrow> int \<Rightarrow> int \<Rightarrow> bytes \<Rightarrow> bytes list" where
  "closed_pieces mn avg mx r = fst (gear_scan mn avg mx [] 0 r)"

definition open_piece :: "int \<Rightarrow> int \<Rightarrow> int \<Rightarrow> bytes \<Rightarrow> bytes" where
  "open_piece mn avg mx r = fst (snd (gear_scan mn avg mx [] 0 r))"

definition gear_chunks :: "int \<Rightarrow> int \<Rightarrow> int \<Rightarrow> bytes \<Rightarrow> bytes list" where
  "gear_chunks mn avg mx r =
     closed_pieces mn avg mx r @ (if open_piece mn avg mx r = [] then [] else [open_piece mn avg mx r])"

section \<open>Lemmas\<close>

lemma gear_scan_append:
  "gear_scan mn avg mx buf h (xs @ ys) =
     (case gear_scan mn avg mx buf h xs of (cs, buf', h') \<Rightarrow>
        (case gear_scan mn avg mx buf' h' ys of (ds, p) \<Rightarrow> (cs @ ds, p)))"
  by (induction mn avg mx buf h xs rule: gear_scan.induct)
     (auto simp: Let_def split: prod.splits)

lemma gear_scan_concat:
  "gear_scan mn avg mx buf h xs = (cs, buf', h') \<Longrightarrow> concat cs @ buf' = buf @ xs"
  by (induction mn avg mx buf h xs arbitrary: cs buf' h' rule: gear_scan.induct)
     (fastforce simp: Let_def split: if_splits prod.splits)+

lemma gear_scan_open_bound:
  assumes "gear_scan mn avg mx buf h xs = (cs, buf', h')" and "int (length buf) < mx" and "0 < mx"
  shows "int (length buf') < mx"
  using assms
proof (induction mn avg mx buf h xs arbitrary: cs buf' h' rule: gear_scan.induct)
  case (2 mn avg mx buf h b bs)
  show ?case
  proof (cases "gear_cut mn avg mx (buf @ [b]) (gear_roll h b)")
    case True
    with 2 show ?thesis by (auto simp: Let_def split: prod.splits)
  next
    case False
    then have "int (length (buf @ [b])) < mx" by (simp add: gear_cut_def)
    with False 2 show ?thesis by (auto simp: Let_def)
  qed
qed simp

lemma gear_scan_closed_bounds:
  assumes "gear_scan mn avg mx buf h xs = (cs, buf', h')" and "int (length buf) < mx"
    and "0 < mn" and "mn \<le> mx" and "c \<in> set cs"
  shows "mn \<le> int (length c) \<and> int (length c) \<le> mx"
  using assms
proof (induction mn avg mx buf h xs arbitrary: cs buf' h' rule: gear_scan.induct)
  case (2 mn avg mx buf h b bs)
  show ?case
  proof (cases "gear_cut mn avg mx (buf @ [b]) (gear_roll h b)")
    case True
    then obtain ds where cs: "cs = (buf @ [b]) # ds" and ds: "gear_scan mn avg mx [] 0 bs = (ds, buf', h')"
      using "2.prems"(1) by (auto simp: Let_def split: prod.splits)
    have "mn \<le> int (length (buf @ [b])) \<and> int (length (buf @ [b])) \<le> mx"
      using True "2.prems" by (auto simp: gear_cut_def)
    with cs "2.IH"(1) [OF refl refl True ds] "2.prems" show ?thesis by auto
  next
    case False
    then have "int (length (buf @ [b])) < mx" by (simp add: gear_cut_def)
    with False "2.IH"(2) [OF refl refl False] "2.prems" show ?thesis by (auto simp: Let_def)
  qed
qed simp

lemma gear_chunks_scan:
  "gear_scan mn avg mx [] 0 r = (cs, buf, h) \<Longrightarrow>
   gear_chunks mn avg mx r = cs @ (if buf = [] then [] else [buf])"
  by (simp add: gear_chunks_def closed_pieces_def open_piece_def)

lemma concat_gear_chunks [simp]: "concat (gear_chunks mn avg mx r) = r"
proof -
  obtain cs buf h where s: "gear_scan mn avg mx [] 0 r = (cs, buf, h)" by (metis prod_cases3)
  from gear_scan_concat [OF s] gear_chunks_scan [OF s] show ?thesis by (auto split: if_splits)
qed

lemma params_mn_pos: "cdc_params_ok mn avg mx \<Longrightarrow> 64 \<le> mn \<and> mn \<le> avg \<and> avg \<le> mx \<and> mx \<le> MaxChunkBytes"
  by (auto simp: cdc_params_ok_def)

lemma scan_pieces:
  obtains h where "gear_scan mn avg mx [] 0 r = (closed_pieces mn avg mx r, open_piece mn avg mx r, h)"
  by (metis closed_pieces_def open_piece_def prod.collapse)

lemma closed_pieces_bounds:
  assumes "cdc_params_ok mn avg mx" and "c \<in> set (closed_pieces mn avg mx r)"
  shows "mn \<le> int (length c) \<and> int (length c) \<le> mx"
proof -
  obtain h where s: "gear_scan mn avg mx [] 0 r = (closed_pieces mn avg mx r, open_piece mn avg mx r, h)"
    by (rule scan_pieces)
  show ?thesis
    using gear_scan_closed_bounds [OF s _ _ _ assms(2)] params_mn_pos [OF assms(1)] by simp
qed

lemma open_piece_bound:
  assumes "cdc_params_ok mn avg mx"
  shows "int (length (open_piece mn avg mx r)) < mx"
proof -
  obtain h where s: "gear_scan mn avg mx [] 0 r = (closed_pieces mn avg mx r, open_piece mn avg mx r, h)"
    by (rule scan_pieces)
  show ?thesis
    using gear_scan_open_bound [OF s] params_mn_pos [OF assms(1)] by simp
qed

lemma gear_chunks_bounds:
  assumes "cdc_params_ok mn avg mx" and "c \<in> set (gear_chunks mn avg mx r)"
  shows "0 < length c \<and> int (length c) \<le> mx"
  using assms closed_pieces_bounds [OF assms(1), of c r] open_piece_bound [OF assms(1), of r]
    params_mn_pos [OF assms(1)]
  by (auto simp: gear_chunks_def split: if_splits)

lemma split_loop_scan:
  "split_loop mn avg mx emit rerr buf h r =
     (case gear_scan mn avg mx buf h r of (cs, buf', h') \<Rightarrow>
        bindM (forM cs emit) (\<lambda>_. case rerr of
            None \<Rightarrow> (if buf' \<noteq> [] then emit buf' else ret ())
          | Some e \<Rightarrow> throw e))"
  by (induction mn avg mx emit rerr buf h r rule: split_loop.induct)
     (auto simp: Let_def bindM_assoc split: prod.splits option.splits)

lemma split_loop_eq_forM:
  "split_loop mn avg mx emit None [] 0 r = forM (gear_chunks mn avg mx r) emit"
proof -
  obtain cs buf h where s: "gear_scan mn avg mx [] 0 r = (cs, buf, h)" by (metis prod_cases3)
  show ?thesis
    by (simp add: split_loop_scan s gear_chunks_scan [OF s] forM_append)
qed

text \<open>An empty open piece always comes with the rolling hash just reset.\<close>

lemma gear_scan_reset:
  "gear_scan mn avg mx buf h xs = (cs, [], h') \<Longrightarrow> (buf = [] \<Longrightarrow> h = 0) \<Longrightarrow> h' = 0"
  by (induction mn avg mx buf h xs arbitrary: cs h' rule: gear_scan.induct)
     (auto simp: Let_def split: if_splits prod.splits)

lemma gear_chunks_at_cut:
  assumes "open_piece mn avg mx a = []"
  shows "gear_chunks mn avg mx (a @ z) = gear_chunks mn avg mx a @ gear_chunks mn avg mx z"
proof -
  obtain h where s: "gear_scan mn avg mx [] 0 a = (closed_pieces mn avg mx a, [], h)"
    using assms scan_pieces by metis
  from gear_scan_reset [OF s] have h: "h = 0" by simp
  obtain ds buf k where z: "gear_scan mn avg mx [] 0 z = (ds, buf, k)" by (metis prod_cases3)
  have az: "gear_scan mn avg mx [] 0 (a @ z) = (closed_pieces mn avg mx a @ ds, buf, k)"
    by (simp only: gear_scan_append s h z prod.case)
  show ?thesis
    unfolding gear_chunks_scan [OF az] gear_chunks_scan [OF s] gear_chunks_scan [OF z] by simp
qed

lemma gear_chunks_all_but_last:
  assumes "cdc_params_ok mn avg mx" and "c \<in> set (butlast (gear_chunks mn avg mx r))"
  shows "mn \<le> int (length c)"
  using assms closed_pieces_bounds [OF assms(1), of c r]
  by (auto simp: gear_chunks_def butlast_append split: if_splits dest: in_set_butlastD)

definition collect :: "bytes \<Rightarrow> (bytes list, unit) sm" where
  "collect c s = (Inr (), s @ [c])"

lemma forM_collect: "forM cs collect s = (Inr (), s @ cs)"
  by (induction cs arbitrary: s) (simp_all add: bindM_def collect_def)

section \<open>Properties\<close>

text \<open>C13. \<open>Split\<close> on accepted parameters and a stream that reads to its end calls the callback on
  exactly the reference pieces, in order, and stops at the first callback error.\<close>

theorem Split_refines_gear_chunks:
  assumes "cdc_params_ok mn avg mx"
  shows "Split r None mn avg mx emit = forM (gear_chunks mn avg mx r) emit"
  using assms by (simp add: Split_def split_loop_eq_forM)

theorem Split_refines_gear_chunks_witness:
  "Split [1, 2, 3] None 64 64 128 collect [] = (Inr (), [[1, 2, 3]])"
proof -
  have "cdc_params_ok 64 64 128" by (simp add: cdc_params_ok_def MaxChunkBytes_def)
  moreover have "gear_chunks 64 64 128 [1, 2, 3] = [[1, 2, 3]]"
    by (simp add: gear_chunks_def closed_pieces_def open_piece_def gear_cut_def Let_def)
  ultimately show ?thesis
    using Split_refines_gear_chunks [of 64 64 128 "[1, 2, 3]" collect] by (simp add: collect_def)
qed

text \<open>C36. Nothing is lost: with a callback that collects the pieces, the pieces of any stream joined
  together are the stream; every piece is non-empty and at most the maximum, and every piece but the
  last reaches the minimum.\<close>

theorem Split_lossless_bounded:
  assumes "cdc_params_ok mn avg mx"
  shows "\<exists>cs. Split r None mn avg mx collect [] = (Inr (), cs) \<and> concat cs = r
           \<and> (\<forall>c \<in> set cs. 0 < length c \<and> int (length c) \<le> mx)
           \<and> (\<forall>c \<in> set (butlast cs). mn \<le> int (length c))"
proof (intro exI conjI ballI)
  show "Split r None mn avg mx collect [] = (Inr (), gear_chunks mn avg mx r)"
    using assms by (simp add: Split_def split_loop_eq_forM forM_collect)
qed (use assms gear_chunks_bounds gear_chunks_all_but_last in auto)

theorem Split_lossless_bounded_witness:
  "\<exists>cs. Split (replicate 200 7) None 64 64 128 collect [] = (Inr (), cs) \<and> concat cs = replicate 200 7"
  using Split_lossless_bounded [of 64 64 128 "replicate 200 7"]
  by (auto simp: cdc_params_ok_def MaxChunkBytes_def)

text \<open>Resynchronisation, the reason a small change costs few new pieces: where a prefix ends at a
  cut, the pieces of the rest do not depend on the prefix.\<close>

theorem Split_resynchronises:
  assumes "cdc_params_ok mn avg mx" and "open_piece mn avg mx a = []"
  shows "Split (a @ z) None mn avg mx emit =
         bindM (Split a None mn avg mx emit) (\<lambda>_. Split z None mn avg mx emit)"
  using assms by (simp add: Split_def split_loop_eq_forM gear_chunks_at_cut forM_append)

theorem Split_resynchronises_witness:
  "Split (replicate 64 0 @ [1, 2]) None 64 64 64 collect =
   bindM (Split (replicate 64 0) None 64 64 64 collect) (\<lambda>_. Split [1, 2] None 64 64 64 collect)"
proof -
  have "cdc_params_ok 64 64 64" by (simp add: cdc_params_ok_def MaxChunkBytes_def)
  moreover have "open_piece 64 64 64 (replicate 64 0) = []"
    by (simp add: open_piece_def gear_cut_def Let_def numeral_nat)
  ultimately show ?thesis by (rule Split_resynchronises)
qed

text \<open>Errors: rejected parameters return the error before anything is read or emitted, and a read
  error surfaces after the pieces closed before it, without emitting the unfinished piece.\<close>

theorem Split_errors:
  "(\<not> cdc_params_ok mn avg mx \<longrightarrow>
      Split r rerr mn avg mx emit s = (Inl (Msg ''invalid CDC parameters''), s)) \<and>
   (cdc_params_ok mn avg mx \<longrightarrow>
      Split r (Some e) mn avg mx emit s = bindM (forM (closed_pieces mn avg mx r) emit) (\<lambda>_. throw e) s)"
  by (auto simp: Split_def split_loop_scan closed_pieces_def split: prod.splits)

theorem Split_errors_witness:
  "Split [1] None 16 64 128 collect [] = (Inl (Msg ''invalid CDC parameters''), [])
   \<and> Split [1] (Some IOError) 64 64 128 collect [] = (Inl IOError, [])"
proof -
  have "\<not> cdc_params_ok 16 64 128" "cdc_params_ok 64 64 128"
    "closed_pieces 64 64 128 [1] = []"
    by (simp_all add: cdc_params_ok_def MaxChunkBytes_def closed_pieces_def gear_cut_def Let_def)
  then show ?thesis
    using Split_errors [of 16 64 128 "[1]" None collect "[]"]
      Split_errors [of 64 64 128 "[1]" None collect "[]" IOError]
    by (simp add: throw_def)
qed

end
