(* ===== verification/Format.thy ===== *)
theory Format
  imports Storage Chunker
begin

unbundle bit_operations_syntax

text \<open>
  \<open>src/internal/lab/format.go\<close>: the release format. Chunk and manifest records, the signed envelope
  with \<open>Sign\<close> and \<open>Verify\<close>, the object paths, the per-chunk compression with its integrity checks,
  key files, and \<open>Unique\<close>. Ed25519, gzip and the JSON layout of the records are the fields of
  \<open>prims\<close>; hex, base64 and SHA-256 are the definitions of \<open>GoStd\<close>.
\<close>

section \<open>Data\<close>

record chunk =
  cSHA256 :: string
  cSize :: int
  cEncodedSHA256 :: string
  cEncodedSize :: int

record manifest =
  mVersion :: int
  mRelease :: string
  mSequence :: u64
  mKind :: string
  mArtifactSHA256 :: string
  mArtifactSize :: int
  mImageIDs :: "string list"
  mSource :: string
  mChunker :: string
  mMin :: int
  mAvg :: int
  mMax :: int
  mChunks :: "chunk list"

record envelope =
  ePayload :: string
  eSignature :: string

text \<open>
  The library operations the model is parametric in. \<open>gzipInflate\<close> is \<open>None\<close> on a bad header and
  otherwise the decompressed stream followed by end of file or an error; the JSON decoders fail as
  \<open>json.Unmarshal\<close> does; \<open>edGenerate\<close> draws the key pair (public, private).
\<close>

record prims =
  edSign :: "bytes \<Rightarrow> bytes \<Rightarrow> bytes"
  edVerify :: "bytes \<Rightarrow> bytes \<Rightarrow> bytes \<Rightarrow> bool"
  edGenerate :: "nat \<Rightarrow> (bytes \<times> bytes) result"
  gzipDeflate :: "bytes \<Rightarrow> bytes"
  gzipInflate :: "bytes \<Rightarrow> (bytes \<times> error option) option"
  jsonEnvelope :: "envelope \<Rightarrow> bytes"
  jsonEnvelopeDec :: "bytes \<Rightarrow> envelope result"
  jsonManifest :: "manifest \<Rightarrow> bytes"
  jsonManifestDec :: "bytes \<Rightarrow> manifest result"

definition FormatVersion :: int where "FormatVersion = 1"
definition MaxManifestBytes :: int where "MaxManifestBytes = 32 * 2 ^ 20"

definition PublicKeySize :: nat where "PublicKeySize = 32"
definition PrivateKeySize :: nat where "PrivateKeySize = 64"

text \<open>\<open>ed25519.PrivateKey.Public\<close>: the second half of the private key.\<close>

definition edPublic :: "bytes \<Rightarrow> bytes" where
  "edPublic key = drop 32 key"

section \<open>Names and digests\<close>

definition isAlnum :: "char \<Rightarrow> bool" where
  "isAlnum c \<longleftrightarrow> (let n = (of_char c :: nat) in
     65 \<le> n \<and> n \<le> 90 \<or> 97 \<le> n \<and> n \<le> 122 \<or> 48 \<le> n \<and> n \<le> 57)"

definition isReleaseChar :: "char \<Rightarrow> bool" where
  "isReleaseChar c \<longleftrightarrow> isAlnum c \<or> c = CHR ''_'' \<or> c = CHR ''.'' \<or> c = CHR ''-''"

definition safeRelease :: "string \<Rightarrow> bool" where
  "safeRelease s = (case s of [] \<Rightarrow> False
     | c # cs \<Rightarrow> isAlnum c \<and> length cs \<le> 100 \<and> list_all isReleaseChar cs)"

definition hexDigest :: "string \<Rightarrow> bool" where
  "hexDigest s \<longleftrightarrow> length s = 64 \<and> list_all is_hex s"

definition Hash :: "bytes \<Rightarrow> string" where
  "Hash b = hex_encode (sha256 b)"

section \<open>Files\<close>

text \<open>
  Opening and reading a file to its end: the bytes read so far and the error that stopped the read,
  as \<open>io.Copy\<close> reports both.
\<close>

definition openRead :: "env \<Rightarrow> path \<Rightarrow> (bytes \<times> error option) io" where
  "openRead E p = bindM (osStat E p) (\<lambda>n. case n of
       DirN \<Rightarrow> ret ([], Some IOError)
     | FileN b _ \<Rightarrow> (\<lambda>w. let w' = w\<lparr>tick := Suc (tick w)\<rparr> in
         if io_fails E (tick w) then (Inr (take (short_write E (tick w)) b, Some IOError), w')
         else (Inr (b, None), w')))"

definition FileHash :: "env \<Rightarrow> path \<Rightarrow> (string \<times> int \<times> error option) io" where
  "FileHash E p = bindM (attemptM (openRead E p)) (\<lambda>r. case r of
       Inl e \<Rightarrow> ret ('''', 0, Some e)
     | Inr (b, e) \<Rightarrow> ret (Hash b, int (length b), e))"

definition keyText :: "bytes \<Rightarrow> bytes" where
  "keyText k = bytes_of (hex_encode k @ [CHR 0x0A])"

definition Keygen :: "'x prims_scheme \<Rightarrow> env \<Rightarrow> path \<Rightarrow> unit io" where
  "Keygen P E dir =
     bindM (EnsureDir E dir) (\<lambda>_.
     bindM (attemptM (osStat E (dir @ [''publisher.key'']))) (\<lambda>r.
     if r \<noteq> Inl NotExist then throw (Msg ''refusing to overwrite a key'')
     else bindM (\<lambda>w. (edGenerate P (tick w), w\<lparr>tick := Suc (tick w)\<rparr>)) (\<lambda>(pub, priv).
          bindM (AtomicWrite E (dir @ [''publisher.key'']) (keyText priv) 384) (\<lambda>_.
          AtomicWrite E (dir @ [''publisher.pub'']) (keyText pub) 420))))"

definition parseKey :: "bytes \<Rightarrow> nat \<Rightarrow> bytes result" where
  "parseKey b sz = (case hex_decode (trimSpace (string_of b)) of
       None \<Rightarrow> Inl (Msg ''invalid hex'')
     | Some d \<Rightarrow> if length d \<noteq> sz then Inl (Msg ''key must contain size bytes'') else Inr d)"

definition ReadKey :: "env \<Rightarrow> path \<Rightarrow> nat \<Rightarrow> bytes io" where
  "ReadKey E p sz = bindM (osReadFile E p) (\<lambda>b. liftR (parseKey b sz))"

section \<open>Signing and verification\<close>

definition Sign :: "'x prims_scheme \<Rightarrow> manifest \<Rightarrow> bytes \<Rightarrow> bytes" where
  "Sign P m key = (let b = jsonManifest P m in
     jsonEnvelope P \<lparr>ePayload = base64_encode b, eSignature = base64_encode (edSign P key b)\<rparr>)"

definition b64Field :: "string \<Rightarrow> bytes result" where
  "b64Field s = (case base64_decode s of None \<Rightarrow> Inl (Msg ''illegal base64 data'') | Some b \<Rightarrow> Inr b)"

definition chunk_fields_ok :: "int \<Rightarrow> chunk \<Rightarrow> bool" where
  "chunk_fields_ok mx c \<longleftrightarrow>
     \<not> (\<not> hexDigest (cSHA256 c) \<or> \<not> hexDigest (cEncodedSHA256 c) \<or> cSize c \<le> 0 \<or> cSize c > mx
        \<or> cEncodedSize c \<le> 0 \<or> cEncodedSize c > mx + 65536)"

text \<open>The loop over the chunk descriptors, with its \<open>seen\<close> map and running size.\<close>

fun verify_chunks :: "int \<Rightarrow> int \<Rightarrow> chunk list \<Rightarrow> (string \<rightharpoonup> chunk) \<Rightarrow> int \<Rightarrow> int result" where
  "verify_chunks mx sz [] seen n = Inr n"
| "verify_chunks mx sz (c # cs) seen n =
     (if \<not> chunk_fields_ok mx c then Inl (Msg ''invalid chunk descriptor'')
      else if (case seen (cSHA256 c) of Some old \<Rightarrow> old \<noteq> c | None \<Rightarrow> False)
      then Inl (Msg ''inconsistent repeated chunk descriptor'')
      else (let n' = wrap64 (n + cSize c) in
        if n' > sz then Inl (Msg ''chunk sizes exceed artifact'')
        else verify_chunks mx sz cs (seen(cSHA256 c \<mapsto> c)) n'))"

definition imageID_ok :: "string \<Rightarrow> bool" where
  "imageID_ok s \<longleftrightarrow> \<not> (length s \<noteq> 71 \<or> take 7 s \<noteq> ''sha256:'' \<or> \<not> hexDigest (drop 7 s))"

text \<open>Everything \<open>Verify\<close> checks of the decoded manifest.\<close>

definition check_manifest :: "manifest \<Rightarrow> int \<Rightarrow> unit result" where
  "check_manifest m maxArtifact =
     bindR (guardR (\<not> (mVersion m \<noteq> FormatVersion \<or> mChunker m \<noteq> ''gear64-lab-v1''
                       \<or> \<not> safeRelease (mRelease m) \<or> mSequence m = 0))
              (Msg ''unsupported or invalid release'')) (\<lambda>_.
     bindR (guardR (\<not> (mKind m \<noteq> ''raw'' \<and> mKind m \<noteq> ''docker-archive''))
              (Msg ''unsupported artifact kind'')) (\<lambda>_.
     bindR (guardR (cdc_params_ok (mMin m) (mAvg m) (mMax m)) (Msg ''invalid chunk parameters'')) (\<lambda>_.
     bindR (guardR (\<not> (mArtifactSize m \<le> 0 \<or> mArtifactSize m > maxArtifact
                       \<or> \<not> hexDigest (mArtifactSHA256 m)))
              (Msg ''invalid artifact size or hash'')) (\<lambda>_.
     bindR (verify_chunks (mMax m) (mArtifactSize m) (mChunks m) Map.empty 0) (\<lambda>n.
     bindR (guardR (n = mArtifactSize m) (Msg ''chunk sizes do not equal artifact size'')) (\<lambda>_.
     guardR (list_all imageID_ok (mImageIDs m)) (Msg ''invalid Docker image ID'')))))))"

definition Verify :: "'x prims_scheme \<Rightarrow> bytes \<Rightarrow> bytes \<Rightarrow> int \<Rightarrow> (manifest \<times> string) result" where
  "Verify P data pub maxArtifact =
     bindR (guardR (\<not> int (length data) > MaxManifestBytes) (Msg ''manifest exceeds limit'')) (\<lambda>_.
     bindR (jsonEnvelopeDec P data) (\<lambda>env.
     bindR (b64Field (ePayload env)) (\<lambda>p.
     bindR (b64Field (eSignature env)) (\<lambda>sig.
     bindR (guardR (edVerify P pub p sig) (Msg ''invalid release signature'')) (\<lambda>_.
     bindR (jsonManifestDec P p) (\<lambda>m.
     bindR (check_manifest m maxArtifact) (\<lambda>_. Inr (m, Hash p))))))))"

section \<open>Objects\<close>

text \<open>\<open>filepath.Join(root, rel)\<close>: the components of \<open>rel\<close> below \<open>root\<close>, cleaned.\<close>

fun cleanOnto :: "path \<Rightarrow> string list \<Rightarrow> path" where
  "cleanOnto p [] = p"
| "cleanOnto p (c # cs) =
     (if c = [] \<or> c = ''.'' then cleanOnto p cs
      else if c = ''..'' then cleanOnto (butlast p) cs
      else cleanOnto (p @ [c]) cs)"

definition Join :: "path \<Rightarrow> string \<Rightarrow> path" where
  "Join root rel = cleanOnto root (splitOn CHR ''/'' rel)"

definition BlobRel :: "chunk \<Rightarrow> string" where
  "BlobRel c = ''chunks/'' @ take 2 (cEncodedSHA256 c) @ ''/'' @ cEncodedSHA256 c @ ''.gz''"

definition CachePath :: "path \<Rightarrow> chunk \<Rightarrow> path" where
  "CachePath state c = state @ [''cache'', take 2 (cSHA256 c), cSHA256 c]"

definition Encode :: "'x prims_scheme \<Rightarrow> bytes \<Rightarrow> bytes" where
  "Encode P raw = gzipDeflate P raw"

text \<open>\<open>io.ReadAll(io.LimitReader(z, n))\<close> on a stream that ends or fails after some bytes.\<close>

definition readAllLimit :: "bytes \<times> error option \<Rightarrow> int \<Rightarrow> bytes result" where
  "readAllLimit s n = (case s of (b, e) \<Rightarrow>
     if int (length b) \<ge> n then Inr (take (nat n) b)
     else (case e of None \<Rightarrow> Inr b | Some err \<Rightarrow> Inl err))"

definition Decode :: "'x prims_scheme \<Rightarrow> bytes \<Rightarrow> chunk \<Rightarrow> bytes result" where
  "Decode P encoded c =
     bindR (guardR (\<not> (int (length encoded) \<noteq> cEncodedSize c \<or> Hash encoded \<noteq> cEncodedSHA256 c))
              (Msg ''encoded chunk integrity failure'')) (\<lambda>_.
     bindR (case gzipInflate P encoded of None \<Rightarrow> Inl (Msg ''gzip: invalid header'') | Some s \<Rightarrow> Inr s) (\<lambda>z.
     bindR (readAllLimit z (wrap64 (cSize c + 1))) (\<lambda>raw.
     bindR (guardR (\<not> (int (length raw) \<noteq> cSize c \<or> Hash raw \<noteq> cSHA256 c))
              (Msg ''raw chunk integrity failure'')) (\<lambda>_. Inr raw))))"

fun unique_from :: "chunk list \<Rightarrow> (string \<Rightarrow> bool) \<Rightarrow> chunk list" where
  "unique_from [] seen = []"
| "unique_from (c # cs) seen =
     (if \<not> seen (cSHA256 c) then c # unique_from cs (seen(cSHA256 c := True))
      else unique_from cs seen)"

definition Unique :: "manifest \<Rightarrow> chunk list" where
  "Unique m = unique_from (mChunks m) (\<lambda>_. False)"

definition ValidChunk :: "env \<Rightarrow> path \<Rightarrow> chunk \<Rightarrow> bool io" where
  "ValidChunk E state c = bindM (FileHash E (CachePath state c)) (\<lambda>(h, n, e).
     ret (e = None \<and> n = cSize c \<and> h = cSHA256 c))"

section \<open>Digests, paths and compression\<close>

lemma hexDigest_Hash [simp]: "hexDigest (Hash b)"
  by (simp add: hexDigest_def Hash_def)

lemma hexDigest_no_slash: "hexDigest s \<Longrightarrow> CHR ''/'' \<notin> set s"
  by (auto simp: hexDigest_def list_all_iff is_hex_def)

lemma hexDigest_chars: "hexDigest s \<Longrightarrow> c \<in> set s \<Longrightarrow> is_hex c"
  by (simp add: hexDigest_def list_all_iff)

lemma hexDigest_take2: "hexDigest s \<Longrightarrow> \<exists>a b t. s = a # b # t \<and> is_hex a \<and> is_hex b \<and> length t = 62"
proof -
  assume h: "hexDigest s"
  then obtain a b t where "s = a # b # t"
    by (cases s rule: remdups_adj.cases) (auto simp: hexDigest_def)
  with h show ?thesis by (auto simp: hexDigest_def)
qed

lemma hexDigest_not_temp: "hexDigest h \<Longrightarrow> \<not> isTempName (h @ s)"
  using hexDigest_take2 [of h] by (auto simp: isTempName_def is_hex_def)

text \<open>The object path of a chunk with valid digests stays below the store root.\<close>

lemma Join_BlobRel:
  assumes "hexDigest (cEncodedSHA256 c)"
  shows "Join root (BlobRel c) = root @ [''chunks'', take 2 (cEncodedSHA256 c), cEncodedSHA256 c @ ''.gz'']"
proof -
  obtain a b t where s: "cEncodedSHA256 c = a # b # t" "is_hex a" "is_hex b"
    using hexDigest_take2 [OF assms] by blast
  have ns: "CHR ''/'' \<notin> set (cEncodedSHA256 c @ ''.gz'')" "CHR ''/'' \<notin> set [a, b]"
    using hexDigest_no_slash [OF assms] s by (auto simp: is_hex_def)
  have dots: "a \<noteq> CHR ''.''" using s by (auto simp: is_hex_def)
  have "splitOn CHR ''/'' (BlobRel c) = [''chunks'', [a, b], cEncodedSHA256 c @ ''.gz'']"
    unfolding BlobRel_def s(1)
    using splitOn_append [of "CHR ''/''" "''chunks''"] splitOn_append [OF ns(2)] splitOn_no_sep [OF ns(1)] s(1)
    by simp
  with dots s(1) show ?thesis by (simp add: Join_def)
qed

lemma Decode_iff:
  "Decode P encoded c = Inr raw \<longleftrightarrow>
     int (length encoded) = cEncodedSize c \<and> Hash encoded = cEncodedSHA256 c
   \<and> (\<exists>z. gzipInflate P encoded = Some z \<and> readAllLimit z (wrap64 (cSize c + 1)) = Inr raw)
   \<and> int (length raw) = cSize c \<and> Hash raw = cSHA256 c"
  by (auto simp: Decode_def bindR_Inr_iff split: option.splits)

lemma readAllLimit_all: "int (length b) < n \<Longrightarrow> readAllLimit (b, None) n = Inr b"
  by (simp add: readAllLimit_def)

section \<open>What a verified manifest satisfies\<close>

definition consistent :: "chunk list \<Rightarrow> bool" where
  "consistent cs \<longleftrightarrow> (\<forall>c \<in> set cs. \<forall>d \<in> set cs. cSHA256 c = cSHA256 d \<longrightarrow> c = d)"

definition chunk_total :: "chunk list \<Rightarrow> int" where
  "chunk_total cs = (\<Sum>c\<leftarrow>cs. cSize c)"

text \<open>The declarative reading of the checks; \<open>check_manifest_iff\<close> shows the code implements it.\<close>

definition manifest_ok :: "manifest \<Rightarrow> int \<Rightarrow> bool" where
  "manifest_ok m maxArtifact \<longleftrightarrow>
     mVersion m = FormatVersion \<and> mChunker m = ''gear64-lab-v1'' \<and> safeRelease (mRelease m) \<and> mSequence m \<noteq> 0
   \<and> mKind m \<in> {''raw'', ''docker-archive''} \<and> cdc_params_ok (mMin m) (mAvg m) (mMax m)
   \<and> 0 < mArtifactSize m \<and> mArtifactSize m \<le> maxArtifact \<and> hexDigest (mArtifactSHA256 m)
   \<and> list_all (chunk_fields_ok (mMax m)) (mChunks m) \<and> consistent (mChunks m)
   \<and> chunk_total (mChunks m) = mArtifactSize m
   \<and> list_all imageID_ok (mImageIDs m)"

lemma chunk_fields_pos: "chunk_fields_ok mx c \<Longrightarrow> 0 < cSize c \<and> cSize c \<le> mx"
  by (auto simp: chunk_fields_ok_def)

lemma chunk_total_nonneg: "list_all (chunk_fields_ok mx) cs \<Longrightarrow> 0 \<le> chunk_total cs"
  by (induction cs) (auto simp: chunk_total_def dest: chunk_fields_pos)

lemma consistent_Cons:
  "consistent (c # cs) \<longleftrightarrow> (\<forall>d \<in> set cs. cSHA256 d = cSHA256 c \<longrightarrow> d = c) \<and> consistent cs"
  by (auto simp: consistent_def)

lemma verify_chunks_iff:
  assumes "mx \<le> 2 ^ 22" and "sz \<le> 2 ^ 62"
  shows "0 \<le> n \<Longrightarrow> n \<le> sz \<Longrightarrow> verify_chunks mx sz cs seen n = Inr k \<longleftrightarrow>
     list_all (chunk_fields_ok mx) cs \<and> consistent cs
   \<and> (\<forall>c \<in> set cs. \<forall>d. seen (cSHA256 c) = Some d \<longrightarrow> d = c) \<and> k = n + chunk_total cs \<and> k \<le> sz"
proof (induction cs arbitrary: seen n)
  case Nil
  then show ?case by (auto simp: consistent_def chunk_total_def)
next
  case (Cons c cs)
  show ?case
  proof (cases "chunk_fields_ok mx c \<and> (\<forall>d. seen (cSHA256 c) = Some d \<longrightarrow> d = c)")
    case False
    then show ?thesis by (auto split: option.splits)
  next
    case ok: True
    then have sz: "0 < cSize c" "cSize c \<le> mx" using chunk_fields_pos by blast+
    with Cons.prems assms have w: "wrap64 (n + cSize c) = n + cSize c"
      by (intro wrap64_id) (simp add: int64_range_def)
    have old: "\<not> (case seen (cSHA256 c) of None \<Rightarrow> False | Some old \<Rightarrow> old \<noteq> c)"
      using ok by (auto split: option.splits)
    have step: "verify_chunks mx sz (c # cs) seen n = Inr k \<longleftrightarrow>
        n + cSize c \<le> sz \<and> verify_chunks mx sz cs (seen(cSHA256 c \<mapsto> c)) (n + cSize c) = Inr k"
      using ok old by (simp add: w Let_def)
    have tot: "chunk_total (c # cs) = cSize c + chunk_total cs" by (simp add: chunk_total_def)
    show ?thesis
    proof (cases "n + cSize c \<le> sz")
      case le: True
      have IH: "verify_chunks mx sz cs (seen(cSHA256 c \<mapsto> c)) (n + cSize c) = Inr k \<longleftrightarrow>
         list_all (chunk_fields_ok mx) cs \<and> consistent cs
       \<and> (\<forall>x \<in> set cs. \<forall>d. (seen(cSHA256 c \<mapsto> c)) (cSHA256 x) = Some d \<longrightarrow> d = x)
       \<and> k = n + cSize c + chunk_total cs \<and> k \<le> sz"
        by (rule Cons.IH) (use le sz Cons.prems in auto)
      show ?thesis
        unfolding step IH consistent_Cons tot using ok le by (auto split: if_splits)
    next
      case False
      then show ?thesis
        unfolding step tot using chunk_total_nonneg by fastforce
    qed
  qed
qed

lemma cdc_params_max: "cdc_params_ok a b c \<Longrightarrow> c \<le> 2 ^ 22"
  by (auto simp: cdc_params_ok_def MaxChunkBytes_def)

lemma check_manifest_iff:
  assumes "maxArtifact \<le> 2 ^ 62"
  shows "check_manifest m maxArtifact = Inr u \<longleftrightarrow> manifest_ok m maxArtifact"
proof (cases "cdc_params_ok (mMin m) (mAvg m) (mMax m) \<and> 0 < mArtifactSize m \<and> mArtifactSize m \<le> maxArtifact")
  case True
  then have "mMax m \<le> 2 ^ 22" "mArtifactSize m \<le> 2 ^ 62" using cdc_params_max assms by auto
  then have v: "verify_chunks (mMax m) (mArtifactSize m) (mChunks m) Map.empty 0 = Inr k \<longleftrightarrow>
      list_all (chunk_fields_ok (mMax m)) (mChunks m) \<and> consistent (mChunks m)
    \<and> k = chunk_total (mChunks m) \<and> k \<le> mArtifactSize m" for k
    using True by (simp add: verify_chunks_iff)
  show ?thesis
    unfolding check_manifest_def bindR_Inr_iff guardR_Inr v manifest_ok_def
    using True by (simp add: not_le not_less) (metis order_refl)
next
  case False
  then show ?thesis by (auto simp: check_manifest_def manifest_ok_def bindR_Inr_iff)
qed

lemma Verify_ok_iff:
  assumes "maxArtifact \<le> 2 ^ 62"
  shows "Verify P data pub maxArtifact = Inr (m, rid) \<longleftrightarrow>
     int (length data) \<le> MaxManifestBytes
   \<and> (\<exists>env p sig. jsonEnvelopeDec P data = Inr env \<and> base64_decode (ePayload env) = Some p
        \<and> base64_decode (eSignature env) = Some sig \<and> edVerify P pub p sig
        \<and> jsonManifestDec P p = Inr m \<and> manifest_ok m maxArtifact \<and> rid = Hash p)"
  by (auto simp: Verify_def bindR_Inr_iff b64Field_def check_manifest_iff [OF assms] split: option.splits)

section \<open>Unique chunks\<close>

lemma unique_from_set:
  "set (map cSHA256 (unique_from cs seen)) = {h \<in> set (map cSHA256 cs). \<not> seen h}"
  by (induction cs arbitrary: seen) (auto split: if_splits)

lemma unique_from_distinct: "distinct (map cSHA256 (unique_from cs seen))"
proof (induction cs arbitrary: seen)
  case (Cons c cs)
  then show ?case using unique_from_set [of cs "seen(cSHA256 c := True)"] by auto
qed simp

lemma unique_from_subseq: "subseq (unique_from cs seen) cs"
  by (induction cs arbitrary: seen) auto

lemma Unique_hashes: "set (map cSHA256 (Unique m)) = set (map cSHA256 (mChunks m))"
  unfolding Unique_def unique_from_set by simp

lemma Unique_subset: "set (Unique m) \<subseteq> set (mChunks m)"
  unfolding Unique_def using subseqs_powset [of "mChunks m"] unique_from_subseq [of "mChunks m"]
  by (metis (no_types, lifting) Pow_iff image_eqI in_set_subseqs)

lemma Unique_set: "consistent (mChunks m) \<Longrightarrow> set (Unique m) = set (mChunks m)"
proof
  assume con: "consistent (mChunks m)"
  show "set (mChunks m) \<subseteq> set (Unique m)"
  proof
    fix c assume c: "c \<in> set (mChunks m)"
    then obtain d where "d \<in> set (Unique m)" "cSHA256 d = cSHA256 c"
      using Unique_hashes [of m] by (metis (no_types, lifting) imageE imageI set_map)
    with con c Unique_subset show "c \<in> set (Unique m)"
      unfolding consistent_def by (metis subsetD)
  qed
qed (rule Unique_subset)

section \<open>Keys\<close>

lemma hex_not_space: "is_hex c \<Longrightarrow> c \<notin> asciiSpace"
  by (auto simp: is_hex_def asciiSpace_def)

lemma trim_hex: "list_all is_hex s \<Longrightarrow> trimSpace (s @ [CHR 0x0A]) = s"
proof -
  assume h: "list_all is_hex s"
  have nl: "CHR 0x0A \<in> asciiSpace" by (simp add: asciiSpace_def)
  show ?thesis
  proof (cases s rule: rev_cases)
    case Nil
    then show ?thesis by (simp add: trimSpace_def trim_def trimLeft_def trimRight_def nl)
  next
    case (snoc t z)
    then have z: "z \<notin> asciiSpace" using h hex_not_space by auto
    have "hd s \<notin> asciiSpace" using h snoc hex_not_space by (cases t) auto
    then have "trimLeft asciiSpace (s @ [CHR 0x0A]) = s @ [CHR 0x0A]"
      using snoc by (cases t) (auto simp: trimLeft_def)
    with nl z snoc show ?thesis by (simp add: trimSpace_def trim_def trimRight_def)
  qed
qed

lemma parseKey_keyText [simp]: "parseKey (keyText k) (length k) = Inr k"
  by (simp add: parseKey_def keyText_def trim_hex)

lemma not_temp_publisher [simp]: "\<not> is_temp (d @ [''publisher.key''])" "\<not> is_temp (d @ [''publisher.pub''])"
  by (simp_all add: is_temp_def isTempName_def)

lemma EnsureDir_keeps:
  assumes "EnsureDir E d w = (r, w')" and "lookup w q = Some n"
  shows "lookup w' q = Some n"
  using stepsD [OF steps_EnsureDir assms(1), unfolded mk_dirs_def, THEN spec, of q] assms(2) by auto

lemma osStat_same: "osStat E p w = (r, w') \<Longrightarrow> lookup w' = lookup w \<and> (r = Inl NotExist \<longrightarrow> lookup w p = None)"
  by (auto simp: osStat_def prim_def Let_def split: if_splits option.splits)

section \<open>Properties\<close>

text \<open>C7. \<open>Verify\<close> accepts exactly the envelopes whose payload is signed by the key and decodes to a
  well-formed manifest: known version and chunker, valid name and parameters, chunk descriptors in
  range that agree where they repeat and whose sizes add up to the artifact without overflow. The
  identity it returns is the hash of the signed bytes.\<close>

theorem Verify_exact:
  assumes "maxArtifact \<le> 2 ^ 62"
  shows "Verify P data pub maxArtifact = Inr (m, rid) \<longleftrightarrow>
     int (length data) \<le> MaxManifestBytes
   \<and> (\<exists>env p sig. jsonEnvelopeDec P data = Inr env \<and> base64_decode (ePayload env) = Some p
        \<and> base64_decode (eSignature env) = Some sig \<and> edVerify P pub p sig
        \<and> jsonManifestDec P p = Inr m \<and> manifest_ok m maxArtifact \<and> rid = Hash p)"
  by (rule Verify_ok_iff [OF assms])

text \<open>A concrete instance of the parameters and a manifest, for the witnesses: the signature of a
  payload is the payload followed by the first byte of the public key.\<close>

definition demo_chunk :: chunk where
  "demo_chunk = \<lparr>cSHA256 = replicate 64 CHR ''a'', cSize = 7, cEncodedSHA256 = replicate 64 CHR ''b'', cEncodedSize = 9\<rparr>"

definition demo_manifest :: manifest where
  "demo_manifest = \<lparr>mVersion = 1, mRelease = ''r1'', mSequence = 1, mKind = ''raw'',
     mArtifactSHA256 = replicate 64 CHR ''c'', mArtifactSize = 14, mImageIDs = [], mSource = [],
     mChunker = ''gear64-lab-v1'', mMin = 64, mAvg = 128, mMax = 256, mChunks = [demo_chunk, demo_chunk]\<rparr>"

definition demo_prims :: prims where
  "demo_prims = \<lparr>edSign = (\<lambda>k b. b @ take 1 (edPublic k)), edVerify = (\<lambda>pub p sig. sig = p @ take 1 pub),
     edGenerate = (\<lambda>n. Inr (replicate 32 1, replicate 64 1)),
     gzipDeflate = (\<lambda>b. b), gzipInflate = (\<lambda>b. Some (b, None)),
     jsonEnvelope = (\<lambda>e. bytes_of (replicate (length (ePayload e)) CHR ''1'' @ [CHR ''.''] @ ePayload e @ eSignature e)),
     jsonEnvelopeDec = (\<lambda>b. let s = string_of b; n = length (takeWhile (\<lambda>c. c = CHR ''1'') s); t = drop (Suc n) s in
        Inr \<lparr>ePayload = take n t, eSignature = drop n t\<rparr>),
     jsonManifest = (\<lambda>m. [1]), jsonManifestDec = (\<lambda>b. if b = [1] then Inr demo_manifest else Inl (Msg ''json''))\<rparr>"

lemma takeWhile_replicate_sep: "\<not> Q y \<Longrightarrow> Q x \<Longrightarrow> takeWhile Q (replicate n x @ y # s) = replicate n x"
  by (induction n) auto

lemma demo_prims_sel:
  "edSign demo_prims k b = b @ take 1 (edPublic k)" "edVerify demo_prims pub p sig \<longleftrightarrow> sig = p @ take 1 pub"
  "jsonManifest demo_prims m = [1]" "jsonManifestDec demo_prims [1] = Inr demo_manifest"
  "jsonEnvelopeDec demo_prims (jsonEnvelope demo_prims env) = Inr env"
  "length (jsonEnvelope demo_prims env) = Suc (length (ePayload env) + length (ePayload env) + length (eSignature env))"
  by (simp_all add: demo_prims_def Let_def takeWhile_replicate_sep)

lemma demo_sign_short: "int (length (Sign demo_prims demo_manifest (replicate 64 1))) \<le> MaxManifestBytes"
  by (simp add: Sign_def demo_prims_sel edPublic_def MaxManifestBytes_def Let_def)

lemma demo_manifest_ok: "manifest_ok demo_manifest 1000"
  by (simp add: manifest_ok_def demo_manifest_def demo_chunk_def FormatVersion_def safeRelease_def isAlnum_def
      isReleaseChar_def cdc_params_ok_def MaxChunkBytes_def hexDigest_def chunk_fields_ok_def consistent_def
      chunk_total_def is_hex_def Let_def list_all_iff)

theorem Verify_exact_witness:
  "Verify demo_prims (Sign demo_prims demo_manifest (replicate 64 1)) (replicate 32 1) 1000 = Inr (demo_manifest, Hash [1])"
  using Verify_exact [of 1000 demo_prims "Sign demo_prims demo_manifest (replicate 64 1)" "replicate 32 1" demo_manifest "Hash [1]"]
    demo_sign_short demo_manifest_ok
  by (simp add: Sign_def demo_prims_sel Let_def edPublic_def del: base64_encode.simps)



text \<open>C38. What \<open>Decode\<close> returns has the size and the SHA-256 of the descriptor, whatever bytes it
  was given; and it inverts \<open>Encode\<close> for a descriptor computed as the publisher computes it.\<close>

theorem Decode_sound_and_inverse:
  shows "(Decode P encoded c = Inr raw \<longrightarrow>
            Hash raw = cSHA256 c \<and> int (length raw) = cSize c
          \<and> Hash encoded = cEncodedSHA256 c \<and> int (length encoded) = cEncodedSize c)
     \<and> (gzipInflate P (gzipDeflate P x) = Some (x, None) \<and> length x < 2 ^ 62 \<longrightarrow>
          Decode P (Encode P x) \<lparr>cSHA256 = Hash x, cSize = int (length x),
            cEncodedSHA256 = Hash (Encode P x), cEncodedSize = int (length (Encode P x))\<rparr> = Inr x)"
proof (intro conjI impI)
  assume "gzipInflate P (gzipDeflate P x) = Some (x, None) \<and> length x < 2 ^ 62"
  then have z: "gzipInflate P (gzipDeflate P x) = Some (x, None)" and "int64_range (int (length x) + 1)"
    by (simp_all add: int64_range_def)
  then have "readAllLimit (x, None) (wrap64 (int (length x) + 1)) = Inr x" by (simp add: readAllLimit_all)
  with z show "Decode P (Encode P x) \<lparr>cSHA256 = Hash x, cSize = int (length x),
      cEncodedSHA256 = Hash (Encode P x), cEncodedSize = int (length (Encode P x))\<rparr> = Inr x"
    by (simp add: Decode_iff Encode_def)
qed (simp_all add: Decode_iff)

theorem Decode_sound_and_inverse_witness:
  "Decode demo_prims (Encode demo_prims [5]) \<lparr>cSHA256 = Hash [5], cSize = int (length [5 :: byte]),
     cEncodedSHA256 = Hash (Encode demo_prims [5]), cEncodedSize = int (length (Encode demo_prims [5]))\<rparr> = Inr [5]"
proof -
  have "gzipInflate demo_prims (gzipDeflate demo_prims [5]) = Some ([5], None) \<and> length [5 :: byte] < 2 ^ 62"
    by (simp add: demo_prims_def)
  then show ?thesis
    by (rule Decode_sound_and_inverse [of demo_prims "[]" demo_chunk "[]" "[5]", THEN conjunct2, THEN mp])
qed

text \<open>\<open>Unique\<close> keeps one descriptor per digest, in the order of first occurrence, and for the
  descriptors of a verified manifest loses none: every chunk of the artifact is fetched, and no
  digest twice.\<close>

theorem Unique_covers:
  assumes "consistent (mChunks m)"
  shows "distinct (map cSHA256 (Unique m)) \<and> subseq (Unique m) (mChunks m) \<and> set (Unique m) = set (mChunks m)"
  using unique_from_distinct unique_from_subseq Unique_set [OF assms] by (auto simp: Unique_def)

theorem Unique_covers_witness:
  "Unique demo_manifest = [demo_chunk] \<and> distinct (map cSHA256 (Unique demo_manifest))"
proof -
  have "consistent (mChunks demo_manifest)" by (simp add: demo_manifest_def consistent_def)
  from Unique_covers [OF this] show ?thesis by (simp add: Unique_def demo_manifest_def)
qed

text \<open>\<open>Keygen\<close> never replaces a key: where the private key file exists it fails and leaves the
  file as it was. When it succeeds both files hold the generated pair, with the private key readable
  by its owner only, and reading them gives the pair back.\<close>

theorem Keygen_safe:
  assumes "Keygen P E dir w = (r, w')"
  shows "(\<forall>n. lookup w (dir @ [''publisher.key'']) = Some n \<longrightarrow>
             r \<noteq> Inr () \<and> lookup w' (dir @ [''publisher.key'']) = Some n)
   \<and> (r = Inr () \<longrightarrow> (\<exists>t pub priv kp kk. edGenerate P t = Inr (pub, priv)
         \<and> lookup w' (dir @ [''publisher.key'']) = Some (FileN kk 384) \<and> parseKey kk (length priv) = Inr priv
         \<and> lookup w' (dir @ [''publisher.pub'']) = Some (FileN kp 420) \<and> parseKey kp (length pub) = Inr pub))"
    (is "?keep \<and> ?made")
proof -
  let ?k = "dir @ [''publisher.key'']" and ?p = "dir @ [''publisher.pub'']"
  have ?keep
  proof (intro allI impI)
    fix n assume n: "lookup w ?k = Some n"
    show "r \<noteq> Inr () \<and> lookup w' ?k = Some n"
    proof (cases "EnsureDir E dir w")
      case (Pair e w1)
      then have k1: "lookup w1 ?k = Some n" using EnsureDir_keeps n by blast
      obtain s w2 where st: "osStat E ?k w1 = (s, w2)" by fastforce
      with k1 osStat_same have "s \<noteq> Inl NotExist" "lookup w2 ?k = Some n" by fastforce+
      with assms Pair st k1 show ?thesis
        by (cases e) (auto simp: Keygen_def bindM_def attemptM_def)
    qed
  qed
  moreover have ?made
  proof
    assume "r = Inr ()"
    with assms obtain w1 w2 t pub priv where g: "edGenerate P t = Inr (pub, priv)"
      and a: "AtomicWrite E ?k (keyText priv) 384 w1 = (Inr (), w2)"
      and b: "AtomicWrite E ?p (keyText pub) 420 w2 = (Inr (), w')"
      by (auto simp: Keygen_def bindM_run split: if_splits)
    have "lookup w2 ?k = Some (FileN (keyText priv) 384)" by (rule AtomicWrite_ok [OF a]) simp_all
    with AtomicWrite_other [OF b] have "lookup w' ?k = Some (FileN (keyText priv) 384)" by simp
    moreover have "lookup w' ?p = Some (FileN (keyText pub) 420)" by (rule AtomicWrite_ok [OF b]) simp_all
    ultimately show "\<exists>t pub priv kp kk. edGenerate P t = Inr (pub, priv)
         \<and> lookup w' ?k = Some (FileN kk 384) \<and> parseKey kk (length priv) = Inr priv
         \<and> lookup w' ?p = Some (FileN kp 420) \<and> parseKey kp (length pub) = Inr pub"
      using g by (intro exI conjI) (assumption | simp)+
  qed
  ultimately show ?thesis ..
qed

theorem Keygen_safe_witness:
  "fst (Keygen demo_prims (env_fail_at 99) [] (put_node [''publisher.key''] (FileN [9] 384) empty_world)) \<noteq> Inr ()
   \<and> lookup (snd (Keygen demo_prims (env_fail_at 99) [] (put_node [''publisher.key''] (FileN [9] 384) empty_world)))
       [''publisher.key''] = Some (FileN [9] 384)"
  using Keygen_safe [of demo_prims "env_fail_at 99" "[]" "put_node [''publisher.key''] (FileN [9] 384) empty_world"
      "fst (Keygen demo_prims (env_fail_at 99) [] (put_node [''publisher.key''] (FileN [9] 384) empty_world))"
      "snd (Keygen demo_prims (env_fail_at 99) [] (put_node [''publisher.key''] (FileN [9] 384) empty_world))"]
  by (simp del: fst_conv snd_conv)

end
