(* ===== verification/HubClient.thy ===== *)
theory HubClient
  imports Format
begin

text \<open>
  \<open>src/hubclient/tls.go\<close>: the client an agent uses towards its hub. It validates every URL before it
  sends, loads the TLS material, and never follows a redirect. URL parsing, PEM and X.509 are
  parameters (\<open>hub_prims\<close>).
\<close>

unbundle bit_operations_syntax

section \<open>Model\<close>

record url =
  uScheme :: string
  uHost :: string
  uUser :: "string option"
  uRawQuery :: string
  uFragment :: string

record hub_prims = prims +
  urlParse :: "string \<Rightarrow> url result"
  appendCerts :: "bytes \<Rightarrow> bool"
  x509KeyPair :: "bytes \<Rightarrow> bytes \<Rightarrow> bool"

record hub_config =
  hcCA :: string
  hcClientCert :: string
  hcClientKey :: string

definition zero_config :: hub_config where
  "zero_config = \<lparr>hcCA = [], hcClientCert = [], hcClientKey = []\<rparr>"

text \<open>A file name as the path it denotes.\<close>

definition pathOf :: "string \<Rightarrow> path" where
  "pathOf s = Join [] s"

definition ValidateURL :: "'x hub_prims_scheme \<Rightarrow> hub_config \<Rightarrow> string \<Rightarrow> unit result" where
  "ValidateURL P c raw = (case urlParse P raw of
       Inl _ \<Rightarrow> Inl (Msg ''endpoint must be an absolute URL without credentials'')
     | Inr u \<Rightarrow>
         if uHost u = [] \<or> uUser u \<noteq> None
         then Inl (Msg ''endpoint must be an absolute URL without credentials'')
         else if uScheme u \<noteq> ''https'' \<and> uScheme u \<noteq> ''wss'' then
           (if uScheme u \<noteq> ''http'' \<and> uScheme u \<noteq> ''ws'' then Inl (Msg ''unsupported endpoint scheme'')
            else if c \<noteq> zero_config then Inl (Msg ''TLS configuration requires HTTPS or WSS'')
            else Inr ())
         else Inr ())"

record tls_config =
  tcRootCA :: "bytes option"
  tcCertificate :: "(bytes \<times> bytes) option"

definition mapErr :: "error \<Rightarrow> 'a io \<Rightarrow> 'a io" where
  "mapErr e m = bindM (attemptM m) (\<lambda>r. case r of Inl _ \<Rightarrow> throw e | Inr x \<Rightarrow> ret x)"

definition loadCA :: "'x hub_prims_scheme \<Rightarrow> env \<Rightarrow> hub_config \<Rightarrow> bytes option io" where
  "loadCA P E c = (if hcCA c = [] then ret None
     else bindM (mapErr (Msg ''cannot read hub CA'') (osReadFile E (pathOf (hcCA c)))) (\<lambda>b.
          bindM (guardM (appendCerts P b) (Msg ''hub CA contains no certificates'')) (\<lambda>_. ret (Some b))))"

definition loadPair :: "'x hub_prims_scheme \<Rightarrow> env \<Rightarrow> hub_config \<Rightarrow> (bytes \<times> bytes) option io" where
  "loadPair P E c = (if hcClientKey c = [] then ret None
     else bindM (mapErr (Msg ''cannot open hub client key'') (osStat E (pathOf (hcClientKey c)))) (\<lambda>_.
          bindM (mapErr (Msg ''hub client key must be a private regular file (0600 or stricter)'')
                  (osStat E (pathOf (hcClientKey c)))) (\<lambda>st.
          bindM (guardM (\<not> (case st of DirN \<Rightarrow> True | FileN _ mode \<Rightarrow> mode AND 127 \<noteq> 0))
                  (Msg ''hub client key must be a private regular file (0600 or stricter)'')) (\<lambda>_.
          bindM (mapErr (Msg ''cannot read hub client key'') (osReadFile E (pathOf (hcClientKey c)))) (\<lambda>key.
          bindM (mapErr (Msg ''cannot read hub client certificate'') (osReadFile E (pathOf (hcClientCert c)))) (\<lambda>cert.
          bindM (guardM (x509KeyPair P cert key) (Msg ''invalid hub client certificate/key pair'')) (\<lambda>_.
          ret (Some (cert, key)))))))))"

definition TLSConfig :: "'x hub_prims_scheme \<Rightarrow> env \<Rightarrow> hub_config \<Rightarrow> tls_config io" where
  "TLSConfig P E c =
     bindM (guardM (\<not> ((hcClientCert c = []) \<noteq> (hcClientKey c = [])))
             (Msg ''hub client certificate and key must be configured together'')) (\<lambda>_.
     bindM (loadCA P E c) (\<lambda>ca.
     bindM (loadPair P E c) (\<lambda>pair.
     ret \<lparr>tcRootCA = ca, tcCertificate = pair\<rparr>)))"

text \<open>
  \<open>New\<close> returns a client that owns its TLS configuration; \<open>RoundTrip\<close> validates the URL of every
  request against the configuration before the transport sees it.
\<close>

record hub_client =
  cfTLS :: tls_config
  cfConfig :: hub_config

definition New :: "'x hub_prims_scheme \<Rightarrow> env \<Rightarrow> hub_config \<Rightarrow> hub_client io" where
  "New P E c = bindM (TLSConfig P E c) (\<lambda>cfg. ret \<lparr>cfTLS = cfg, cfConfig = c\<rparr>)"

definition RoundTrip :: "'x hub_prims_scheme \<Rightarrow> env \<Rightarrow> hub_client \<Rightarrow> http_request \<Rightarrow> http_response io" where
  "RoundTrip P E cl rq = bindM (liftR (ValidateURL P (cfConfig cl) (rqURL rq))) (\<lambda>_. httpDo E rq)"

definition hubDo :: "'x hub_prims_scheme \<Rightarrow> env \<Rightarrow> hub_client \<Rightarrow> http_request \<Rightarrow> http_response io" where
  "hubDo P E cl rq = bindM (RoundTrip P E cl rq) (\<lambda>rs.
     if wants_redirect rs then throw (Msg ''hub redirects disabled'') else ret rs)"

section \<open>Lemmas\<close>

lemma ValidateURL_ok:
  "ValidateURL P c raw = Inr x \<longleftrightarrow> (\<exists>u. urlParse P raw = Inr u \<and> uHost u \<noteq> [] \<and> uUser u = None
     \<and> (uScheme u \<in> {''https'', ''wss''} \<or> uScheme u \<in> {''http'', ''ws''} \<and> c = zero_config))"
  by (auto simp: ValidateURL_def split: sum.splits)

lemma httpDo_sent: "httpDo E rq w = (r, w') \<Longrightarrow> sent w' = sent w @ [rq]"
  by (auto simp: httpDo_def Let_def split: option.splits)

lemma hubDo_sent:
  assumes "hubDo P E cl rq w = (r, w')"
  shows "sent w' = (if ValidateURL P (cfConfig cl) (rqURL rq) = Inr () then sent w @ [rq] else sent w)"
  using assms by (auto simp: hubDo_def RoundTrip_def bindM_run dest: httpDo_sent split: if_splits)

lemma mapErr_ok: "mapErr e m w = (Inr x, w') \<longleftrightarrow> m w = (Inr x, w')"
  by (auto simp: mapErr_def bindM_def attemptM_def sm_run split: prod.splits sum.splits)

lemma osReadFile_ok: "osReadFile E p w = (Inr b, w') \<Longrightarrow> lookup w' = lookup w \<and> file_bytes w p = Some b"
  by (auto simp: osReadFile_def prim_def Let_def file_bytes_def fun_eq_iff split: if_splits option.splits node.splits)

lemma osStat_ok: "osStat E p w = (Inr n, w') \<Longrightarrow> lookup w' = lookup w \<and> lookup w p = Some n"
  by (auto simp: osStat_def prim_def Let_def fun_eq_iff split: if_splits option.splits)

lemma file_bytes_cong: "lookup w' = lookup w \<Longrightarrow> file_bytes w' = file_bytes w"
  by (simp add: file_bytes_def fun_eq_iff)

lemma loadPair_ok:
  assumes "loadPair P E c w = (Inr pr, w')" and "hcClientKey c \<noteq> []"
  shows "\<exists>cert key mode. pr = Some (cert, key) \<and> lookup w (pathOf (hcClientKey c)) = Some (FileN key mode)
     \<and> mode AND 127 = 0 \<and> file_bytes w (pathOf (hcClientCert c)) = Some cert \<and> x509KeyPair P cert key"
proof -
  obtain n1 w1 n2 w2 key w3 cert where s: "osStat E (pathOf (hcClientKey c)) w = (Inr n1, w1)"
    "osStat E (pathOf (hcClientKey c)) w1 = (Inr n2, w2)" "osReadFile E (pathOf (hcClientKey c)) w2 = (Inr key, w3)"
    "osReadFile E (pathOf (hcClientCert c)) w3 = (Inr cert, w')" "pr = Some (cert, key)" "x509KeyPair P cert key"
    and priv: "\<not> (case n2 of DirN \<Rightarrow> True | FileN _ mode \<Rightarrow> mode AND 127 \<noteq> 0)"
    using assms by (auto simp: loadPair_def bindM_run mapErr_ok)
  have l: "lookup w1 = lookup w" "lookup w2 = lookup w" "lookup w3 = lookup w"
    using osStat_ok [OF s(1)] osStat_ok [OF s(2)] osReadFile_ok [OF s(3)] by simp_all
  have "lookup w (pathOf (hcClientKey c)) = Some n2" using osStat_ok [OF s(2)] l by simp
  moreover have "file_bytes w (pathOf (hcClientKey c)) = Some key" "file_bytes w (pathOf (hcClientCert c)) = Some cert"
    using osReadFile_ok [OF s(3)] osReadFile_ok [OF s(4)] file_bytes_cong [OF l(2)] file_bytes_cong [OF l(3)] by simp_all
  ultimately show ?thesis
    using priv s(5,6) by (cases n2) (auto simp: file_bytes_def)
qed

lemma loadCA_ok:
  assumes "loadCA P E c w = (Inr ca, w')"
  shows "lookup w' = lookup w \<and> (case ca of None \<Rightarrow> hcCA c = [] | Some b \<Rightarrow> file_bytes w (pathOf (hcCA c)) = Some b \<and> appendCerts P b)"
  using assms by (auto simp: loadCA_def bindM_run mapErr_ok dest!: osReadFile_ok split: if_splits)

section \<open>Properties\<close>

text \<open>A hub client puts a request on the wire only for an absolute URL without credentials, at most
  once per call (a redirect answer is never followed), and never in plaintext once any TLS material
  is configured.\<close>

theorem hubDo_never_plaintext:
  assumes "hubDo P E cl rq w = (r, w')"
  shows "sent w' = sent w \<or> sent w' = sent w @ [rq] \<and> (\<exists>u. urlParse P (rqURL rq) = Inr u
     \<and> uHost u \<noteq> [] \<and> uUser u = None \<and> uScheme u \<in> {''https'', ''wss'', ''http'', ''ws''}
     \<and> (cfConfig cl \<noteq> zero_config \<longrightarrow> uScheme u \<in> {''https'', ''wss''}))"
  using hubDo_sent [OF assms] ValidateURL_ok [of P "cfConfig cl" "rqURL rq" "()"] by (auto split: if_splits)

definition demo_hub :: hub_prims where
  "demo_hub = prims.extend demo_prims (hub_prims.fields
     (\<lambda>s. Inr \<lparr>uScheme = takeWhile (\<lambda>c. c \<noteq> CHR '':'') s, uHost = ''h'', uUser = None, uRawQuery = [], uFragment = []\<rparr>)
     (\<lambda>b. b \<noteq> []) (\<lambda>c k. c = k))"

theorem hubDo_never_plaintext_witness:
  "sent (snd (hubDo demo_hub (env_fail_at 0)
       \<lparr>cfTLS = \<lparr>tcRootCA = Some [1], tcCertificate = None\<rparr>, cfConfig = \<lparr>hcCA = ''ca'', hcClientCert = [], hcClientKey = []\<rparr>\<rparr>
       \<lparr>rqMethod = ''GET'', rqURL = ''http://h/'', rqHeaders = [], rqBody = []\<rparr> empty_world)) = []"
  using hubDo_never_plaintext [of demo_hub "env_fail_at 0"
      "\<lparr>cfTLS = \<lparr>tcRootCA = Some [1], tcCertificate = None\<rparr>, cfConfig = \<lparr>hcCA = ''ca'', hcClientCert = [], hcClientKey = []\<rparr>\<rparr>"
      "\<lparr>rqMethod = ''GET'', rqURL = ''http://h/'', rqHeaders = [], rqBody = []\<rparr>" empty_world _ _, OF prod.collapse [symmetric]]
  by (simp add: demo_hub_def zero_config_def empty_world_def hub_prims.defs prims.defs)

text \<open>Loading the TLS material: success means that certificate and key were configured together or
  not at all, that the CA file was readable and held certificates, and that the key came from a
  regular file without group or other permissions and matches the certificate.\<close>

theorem TLSConfig_sound:
  assumes "TLSConfig P E c w = (Inr cfg, w')"
  shows "(hcClientCert c = [] \<longleftrightarrow> hcClientKey c = [])
    \<and> (case tcRootCA cfg of None \<Rightarrow> hcCA c = [] | Some b \<Rightarrow> file_bytes w (pathOf (hcCA c)) = Some b \<and> appendCerts P b)
    \<and> (case tcCertificate cfg of None \<Rightarrow> hcClientKey c = []
        | Some (cert, key) \<Rightarrow> (\<exists>mode. lookup w (pathOf (hcClientKey c)) = Some (FileN key mode) \<and> mode AND 127 = 0)
            \<and> file_bytes w (pathOf (hcClientCert c)) = Some cert \<and> x509KeyPair P cert key)"
proof -
  obtain ca w1 pr where ca: "loadCA P E c w = (Inr ca, w1)" and pr: "loadPair P E c w1 = (Inr pr, w')"
    and cfg: "cfg = \<lparr>tcRootCA = ca, tcCertificate = pr\<rparr>" and both: "hcClientCert c = [] \<longleftrightarrow> hcClientKey c = []"
    using assms by (auto simp: TLSConfig_def bindM_run)
  have l: "lookup w1 = lookup w" using loadCA_ok [OF ca] by simp
  show ?thesis
  proof (cases "hcClientKey c = []")
    case True
    then have "pr = None" using pr by (simp add: loadPair_def)
    with True both cfg loadCA_ok [OF ca] show ?thesis by simp
  next
    case False
    from loadPair_ok [OF pr False] both cfg loadCA_ok [OF ca] l file_bytes_cong [OF l] show ?thesis by auto
  qed
qed

theorem TLSConfig_sound_witness:
  "\<exists>cfg w'. TLSConfig demo_hub (env_fail_at 99) \<lparr>hcCA = [], hcClientCert = ''c'', hcClientKey = ''k''\<rparr>
       (put_node [''c''] (FileN [7] 420) (put_node [''k''] (FileN [7] 384) empty_world)) = (Inr cfg, w')
     \<and> tcCertificate cfg = Some ([7], [7])"
proof -
  let ?w = "put_node [''c''] (FileN [7] 420) (put_node [''k''] (FileN [7] 384) empty_world)"
  let ?c = "\<lparr>hcCA = [], hcClientCert = ''c'', hcClientKey = ''k''\<rparr>"
  obtain cfg w' where run: "TLSConfig demo_hub (env_fail_at 99) ?c ?w = (Inr cfg, w')"
    by (simp add: TLSConfig_def loadCA_def loadPair_def mapErr_def bindM_def attemptM_def prim_defs Let_def sm_run
        pathOf_def Join_def env_fail_at_def lookup_def put_node_def empty_world_def demo_hub_def hub_prims.defs prims.defs)
  with TLSConfig_sound [OF run] show ?thesis
    by (auto simp: file_bytes_def pathOf_def Join_def lookup_def put_node_def empty_world_def split: option.splits)
qed

end
