(* ===== verification/AgentBase.thy ===== *)
theory AgentBase
  imports HubClient
begin

text \<open>
  \<open>src/internal/lab/agent.go\<close>, first part: the agent's options, its persistent state, the summary and
  telemetry it keeps, the bounded HTTP request and the retry loop. The variables of one run (progress
  counters, telemetry, summary, emitted events) stand beside the machine state.
\<close>

section \<open>Data\<close>

record agent_state =
  asSequence :: u64
  asManifestSHA256 :: string
  asManifestURL :: string
  asRelease :: string
  asPhase :: string
  asArtifact :: path
  asUpdated :: string
  asLoadedManifestSHA256 :: string

text \<open>Elapsed time is kept in nanoseconds, where the code has a float of seconds.\<close>

record summary =
  suRelease :: string
  suSequence :: u64
  suPhase :: string
  suArtifact :: path
  suArtifactSHA256 :: string
  suArtifactBytes :: int
  suUniqueChunks :: int
  suReusedChunks :: int
  suReusedRawBytes :: int
  suDownloadedChunks :: int
  suDownloadedRawBytes :: int
  suChunkBodyBytes :: int
  suMetadataBodyBytes :: int
  suUsefulEncodedBytes :: int
  suRetryOverheadBytes :: int
  suChunkRequests :: int
  suMetadataRequests :: int
  suRetries :: int
  suIntegrityFailures :: int
  suSeconds :: int

record agent_options =
  oHubTLS :: hub_config
  oManifestURL :: string
  oBaseURL :: string
  oStateDir :: path
  oPublicKey :: path
  oReceiptURL :: string
  oDeviceID :: string
  oWorkers :: int
  oMaxAttempts :: int
  oBackoff :: int
  oMaxBackoff :: int
  oRequestTimeout :: int
  oMaxArtifact :: int
  oReserveBytes :: int
  oOffline :: bool
  oDockerLoad :: bool
  oAllowHTTP :: bool
  oEvents :: bool

datatype client_state =
  clientUnknown | clientIdle | clientDownloading | clientVerifying | clientStaged | clientLoading | clientLoaded | clientFailed

record telemetry =
  tStarted :: int
  tState :: client_state
  tActive :: int
  tChunkBytes :: int
  tMetadataBytes :: int
  tChunkRequests :: int
  tMetadataRequests :: int
  tSyncSuccess :: int
  tSyncFailure :: int
  tRetries :: int
  tIntegrity :: int
  tVerified :: int
  tVerifiedChunks :: int
  tReusedChunks :: int
  tLastDuration :: int
  tLastSuccess :: int
  tLastDownloadBytes :: int
  tLastVerifiedChunks :: int
  tLastReusedChunks :: int

record progress =
  pWire :: int
  pMetadata :: int
  pUseful :: int
  pRequests :: int
  pMetaRequests :: int
  pRetries :: int
  pIntegrity :: int
  pCommitted :: int
  pRaw :: int

text \<open>The variables of one \<open>Sync\<close>; \<open>vTel\<close> is \<open>None\<close> for a nil \<open>Telemetry\<close>, \<open>vEnvelope\<close> the downloaded
  manifest. An event is its kind.\<close>

record vars =
  vEnvelope :: bytes
  vProg :: progress
  vTel :: "telemetry option"
  vSum :: summary
  vEvents :: "string list"

type_synonym 'a ag = "(world \<times> vars, 'a) sm"

record receipt =
  rcID :: string
  rcDeviceID :: string
  rcRelease :: string
  rcPhase :: string
  rcArtifactSHA256 :: string
  rcRecordedAt :: string
  rcSummary :: summary

record tar_entry =
  teName :: string
  teRegular :: bool
  teSize :: int
  teData :: bytes

text \<open>
  Library operations of this component: JSON of its records, the clock's text form, and reading a tar
  archive (the entries up to the end or an error).
\<close>

record agent_prims = hub_prims +
  jsonState :: "agent_state \<Rightarrow> bytes"
  jsonStateDec :: "bytes \<Rightarrow> agent_state result"
  jsonSummary :: "summary \<Rightarrow> bytes"
  jsonReceipt :: "receipt \<Rightarrow> bytes"
  jsonReceiptDec :: "bytes \<Rightarrow> receipt result"
  formatTime :: "int \<Rightarrow> string"
  parseTime :: "string \<Rightarrow> bool"
  formatSeconds :: "int \<Rightarrow> string"
  tarEntries :: "bytes \<Rightarrow> tar_entry list \<times> error option"
  jsonConfigs :: "bytes \<Rightarrow> string list result"

definition zero_state :: agent_state where
  "zero_state = \<lparr>asSequence = 0, asManifestSHA256 = [], asManifestURL = [], asRelease = [], asPhase = [],
     asArtifact = [], asUpdated = [], asLoadedManifestSHA256 = []\<rparr>"

definition zero_summary :: summary where
  "zero_summary = \<lparr>suRelease = [], suSequence = 0, suPhase = [], suArtifact = [], suArtifactSHA256 = [], suArtifactBytes = 0,
     suUniqueChunks = 0, suReusedChunks = 0, suReusedRawBytes = 0, suDownloadedChunks = 0, suDownloadedRawBytes = 0,
     suChunkBodyBytes = 0, suMetadataBodyBytes = 0, suUsefulEncodedBytes = 0, suRetryOverheadBytes = 0,
     suChunkRequests = 0, suMetadataRequests = 0, suRetries = 0, suIntegrityFailures = 0, suSeconds = 0\<rparr>"

definition zero_progress :: progress where
  "zero_progress = \<lparr>pWire = 0, pMetadata = 0, pUseful = 0, pRequests = 0, pMetaRequests = 0, pRetries = 0,
     pIntegrity = 0, pCommitted = 0, pRaw = 0\<rparr>"

definition DefaultAgentOptions :: agent_options where
  "DefaultAgentOptions = \<lparr>oHubTLS = zero_config, oManifestURL = [], oBaseURL = [], oStateDir = [], oPublicKey = [],
     oReceiptURL = [], oDeviceID = [], oWorkers = 2, oMaxAttempts = 12, oBackoff = 200000000, oMaxBackoff = 5000000000,
     oRequestTimeout = 30000000000, oMaxArtifact = 10 * 2 ^ 30, oReserveBytes = 64 * 2 ^ 20,
     oOffline = False, oDockerLoad = False, oAllowHTTP = False, oEvents = False\<rparr>"

text \<open>Decimal text of an \<open>int\<close>.\<close>

definition showInt :: "int \<Rightarrow> string" where
  "showInt i = (if i < 0 then CHR ''-'' # decimal (nat (- i)) else decimal (nat i))"

section \<open>Telemetry and events\<close>

definition NewTelemetry :: "env \<Rightarrow> telemetry io" where
  "NewTelemetry E = bindM (timeNow E) (\<lambda>t. ret \<lparr>tStarted = t, tState = clientIdle, tActive = 0, tChunkBytes = 0,
     tMetadataBytes = 0, tChunkRequests = 0, tMetadataRequests = 0, tSyncSuccess = 0, tSyncFailure = 0, tRetries = 0,
     tIntegrity = 0, tVerified = 0, tVerifiedChunks = 0, tReusedChunks = 0, tLastDuration = 0, tLastSuccess = 0,
     tLastDownloadBytes = 0, tLastVerifiedChunks = 0, tLastReusedChunks = 0\<rparr>)"

fun state_name :: "client_state \<Rightarrow> string" where
  "state_name clientUnknown = ''unknown''"
| "state_name clientIdle = ''idle''"
| "state_name clientDownloading = ''downloading''"
| "state_name clientVerifying = ''verifying''"
| "state_name clientStaged = ''staged''"
| "state_name clientLoading = ''loading''"
| "state_name clientLoaded = ''loaded''"
| "state_name clientFailed = ''failed''"

text \<open>The snapshot as a list of named values; times in nanoseconds.\<close>

datatype metric = MInt int | MStr string

definition Snapshot :: "telemetry option \<Rightarrow> (string \<times> metric) list" where
  "Snapshot t' = (case t' of None \<Rightarrow> [] | Some t \<Rightarrow>
     [(''process_start_time_seconds'', MInt (tStarted t)),
      (''chunk_response_body_bytes'', MInt (tChunkBytes t)), (''metadata_response_body_bytes'', MInt (tMetadataBytes t)),
      (''chunk_requests'', MInt (tChunkRequests t)), (''metadata_requests'', MInt (tMetadataRequests t)),
      (''sync_success'', MInt (tSyncSuccess t)), (''sync_failure'', MInt (tSyncFailure t)),
      (''retries'', MInt (tRetries t)), (''integrity_failures'', MInt (tIntegrity t)),
      (''verified_download_bytes'', MInt (tVerified t)), (''sync_active'', MInt (tActive t)),
      (''verified_chunks'', MInt (tVerifiedChunks t)), (''reused_chunks'', MInt (tReusedChunks t)),
      (''state'', MStr (state_name (tState t))), (''last_sync_duration_seconds'', MInt (tLastDuration t)),
      (''last_success_timestamp_seconds'', MInt (if tLastSuccess t > 0 then tLastSuccess t else 0)),
      (''last_sync_download_bytes'', MInt (tLastDownloadBytes t)),
      (''last_sync_verified_chunks'', MInt (tLastVerifiedChunks t)),
      (''last_sync_reused_chunks'', MInt (tLastReusedChunks t))])"

definition event :: "agent_options \<Rightarrow> string \<Rightarrow> unit ag" where
  "event o' kind = modS (\<lambda>v. if oEvents o' then v\<lparr>vEvents := vEvents v @ [kind]\<rparr> else v)"

definition prog :: "(progress \<Rightarrow> progress) \<Rightarrow> unit ag" where
  "prog f = modS (\<lambda>v. v\<lparr>vProg := f (vProg v)\<rparr>)"

definition tel :: "(telemetry \<Rightarrow> telemetry) \<Rightarrow> unit ag" where
  "tel f = modS (\<lambda>v. v\<lparr>vTel := map_option f (vTel v)\<rparr>)"

definition summ :: "(summary \<Rightarrow> summary) \<Rightarrow> unit ag" where
  "summ f = modS (\<lambda>v. v\<lparr>vSum := f (vSum v)\<rparr>)"

section \<open>The state file\<close>

definition statePath :: "path \<Rightarrow> path" where
  "statePath dir = dir @ [''state.json'']"

definition readState :: "'x agent_prims_scheme \<Rightarrow> env \<Rightarrow> path \<Rightarrow> agent_state io" where
  "readState P E dir = bindM (attemptM (osReadFile E (statePath dir))) (\<lambda>r. case r of
       Inl e \<Rightarrow> if e = NotExist then ret zero_state else throw e
     | Inr b \<Rightarrow> liftR (jsonStateDec P b))"

definition writeState :: "'x agent_prims_scheme \<Rightarrow> env \<Rightarrow> path \<Rightarrow> agent_state \<Rightarrow> unit io" where
  "writeState P E dir s = bindM (timeNow E) (\<lambda>t.
     AtomicWrite E (statePath dir) (jsonState P (s\<lparr>asUpdated := formatTime P t\<rparr>)) 384)"

section \<open>Requests\<close>

definition allowedURL :: "'x hub_prims_scheme \<Rightarrow> string \<Rightarrow> bool \<Rightarrow> unit result" where
  "allowedURL P raw allowHTTP = (case urlParse P raw of
       Inl e \<Rightarrow> Inl e
     | Inr u \<Rightarrow>
         if uHost u = [] \<or> uUser u \<noteq> None \<or> uRawQuery u \<noteq> [] \<or> uFragment u \<noteq> []
         then Inl (Msg ''URLs require a host and must not include credentials, query or fragment'')
         else if uScheme u = ''https'' then Inr ()
         else if uScheme u = ''http'' \<and> allowHTTP then Inr ()
         else Inl (Msg ''HTTPS required; --allow-http is for an isolated lab only''))"

text \<open>\<open>strconv.Atoi\<close>: an optional sign, decimal digits, the value in the 64-bit range.\<close>

definition isDigit :: "char \<Rightarrow> bool" where
  "isDigit c \<longleftrightarrow> 48 \<le> (of_char c :: nat) \<and> (of_char c :: nat) \<le> 57"

definition digits_val :: "string \<Rightarrow> nat" where
  "digits_val s = foldl (\<lambda>n c. 10 * n + ((of_char c :: nat) - 48)) 0 s"

definition atoi :: "string \<Rightarrow> int option" where
  "atoi s = (let neg = (s \<noteq> [] \<and> hd s = CHR ''-'');
                 d = (if s \<noteq> [] \<and> (hd s = CHR ''-'' \<or> hd s = CHR ''+'') then tl s else s);
                 v = (if neg then - int (digits_val d) else int (digits_val d))
     in if d \<noteq> [] \<and> list_all isDigit d \<and> int64_range v then Some v else None)"

definition retryAfter :: "http_response \<Rightarrow> int" where
  "retryAfter rs = (case atoi (header rs ''Retry-After'') of
       Some sec \<Rightarrow> if sec > 0 then wrap64 (sec * 1000000000) else 0
     | None \<Rightarrow> 0)"

text \<open>What \<open>request\<close> makes of an answer: body, body bytes read, requested delay, error.\<close>

definition read_reply :: "int \<Rightarrow> string \<Rightarrow> http_response \<Rightarrow> bytes \<times> int \<times> int \<times> error option" where
  "read_reply limit etag rs =
     (if rsStatus rs = 304 \<and> etag \<noteq> [] then ([], 0, 0, Some NotModified)
      else if rsStatus rs \<noteq> 200 then
        (let n = int (length (take 4096 (rsBody rs))) in
         if rsStatus rs = 429 \<or> rsStatus rs \<ge> 500 then ([], n, retryAfter rs, Some (HTTPStatus (rsStatus rs)))
         else ([], n, 0, Some (Permanent (HTTPStatus (rsStatus rs)))))
      else if rsLength rs > limit then ([], 0, 0, Some (Permanent (Msg ''response exceeds signed size limit'')))
      else (let b = take (nat (limit + 1)) (rsBody rs) in
         if int (length b) > limit then ([], int (length b), 0, Some (Permanent (Msg ''response exceeds signed size limit'')))
         else (b, int (length b), 0, if rsBroken rs then Some TransportError else None)))"

definition request :: "'x hub_prims_scheme \<Rightarrow> env \<Rightarrow> string \<Rightarrow> int \<Rightarrow> string \<Rightarrow> string \<Rightarrow> (bytes \<times> int \<times> int \<times> error option) io" where
  "request P E uri limit etag device = (case urlParse P uri of
       Inl e \<Rightarrow> ret ([], 0, 0, Some (Permanent e))
     | Inr _ \<Rightarrow>
         bindM (attemptM (clientDo E \<lparr>rqMethod = ''GET'', rqURL = uri,
                  rqHeaders = [(''Accept-Encoding'', ''identity'')]
                    @ (if device \<noteq> [] then [(''X-Edgelab-Device'', device)] else [])
                    @ (if etag \<noteq> [] then [(''If-None-Match'', etag)] else []), rqBody = []\<rparr>)) (\<lambda>r. case r of
              Inl e \<Rightarrow> ret ([], 0, 0, Some e)
            | Inr rs \<Rightarrow> ret (read_reply limit etag rs)))"

section \<open>Retry\<close>

text \<open>
  One round of the retry loop. \<open>canceled\<close> is the cancellation of the derived context the download
  workers share; \<open>fn\<close> reports the delay the server asked for and its error.
\<close>

datatype iter = IterDone | IterFail error | IterAgain int

definition fetchCtxErr :: "env \<Rightarrow> bool \<Rightarrow> unit io" where
  "fetchCtxErr E canceled = (if canceled then throw Canceled else ctxErr E)"

definition sleepContext :: "env \<Rightarrow> bool \<Rightarrow> int \<Rightarrow> unit io" where
  "sleepContext E canceled d = (if canceled then throw Canceled else sleepFor E d)"

definition retry_delay :: "agent_options \<Rightarrow> int \<Rightarrow> int \<Rightarrow> int" where
  "retry_delay o' j after = (let d = (if j > oMaxBackoff o' then oMaxBackoff o' else j) in if after > d then after else d)"

definition next_delay :: "agent_options \<Rightarrow> int \<Rightarrow> int" where
  "next_delay o' delay = (if delay < oMaxBackoff o' div 2 then delay * 2 else oMaxBackoff o')"

definition jittered :: "env \<Rightarrow> int \<Rightarrow> int io" where
  "jittered E d w = (Inr (jitter E (tick w) d), w\<lparr>tick := Suc (tick w)\<rparr>)"

definition retry_iter :: "env \<Rightarrow> agent_options \<Rightarrow> bool \<Rightarrow> string \<Rightarrow> (int \<times> error option) ag \<Rightarrow> int \<Rightarrow> int \<Rightarrow> iter ag" where
  "retry_iter E o' canceled lab fn attempt delay =
     bindM (onFst (attemptM (fetchCtxErr E canceled))) (\<lambda>c. case c of
       Inl e \<Rightarrow> ret (IterFail e)
     | Inr _ \<Rightarrow> bindM fn (\<lambda>(after, e). case e of
         None \<Rightarrow> ret IterDone
       | Some err \<Rightarrow>
           if isPermanent err then ret (IterFail err)
           else if oMaxAttempts o' > 0 \<and> attempt \<ge> oMaxAttempts o' then ret (IterFail (Wrap lab err))
           else bindM (onFst (jittered E delay)) (\<lambda>j.
                bindM (prog (\<lambda>p. p\<lparr>pRetries := pRetries p + 1\<rparr>)) (\<lambda>_.
                bindM (tel (\<lambda>t. t\<lparr>tRetries := tRetries t + 1\<rparr>)) (\<lambda>_.
                bindM (event o' ''retry'') (\<lambda>_.
                bindM (onFst (attemptM (sleepContext E canceled (retry_delay o' j after)))) (\<lambda>s. case s of
                  Inl e' \<Rightarrow> ret (IterFail e')
                | Inr _ \<Rightarrow> ret (IterAgain (next_delay o' delay)))))))))"

fun retry_loop :: "env \<Rightarrow> agent_options \<Rightarrow> string \<Rightarrow> (int \<times> error option) ag \<Rightarrow> nat \<Rightarrow> int \<Rightarrow> int \<Rightarrow> unit ag" where
  "retry_loop E o' lab fn 0 attempt delay = throw OutOfFuel"
| "retry_loop E o' lab fn (Suc fuel) attempt delay =
     bindM (retry_iter E o' False lab fn attempt delay) (\<lambda>r. case r of
       IterDone \<Rightarrow> ret ()
     | IterFail e \<Rightarrow> throw e
     | IterAgain d \<Rightarrow> retry_loop E o' lab fn fuel (attempt + 1) d)"

definition retry :: "env \<Rightarrow> nat \<Rightarrow> agent_options \<Rightarrow> string \<Rightarrow> (int \<times> error option) ag \<Rightarrow> unit ag" where
  "retry E fuel o' lab fn = retry_loop E o' lab fn fuel 1 (oBackoff o')"

end
