(* ===== verification/Receipts.thy ===== *)
theory Receipts
  imports AgentBase
begin

text \<open>
  \<open>src/internal/lab/telemetry.go\<close>, client side: a receipt is named by the hash of its own content,
  queued durably in the outbox and posted until the origin accepts it.
\<close>

section \<open>Model\<close>

definition digest :: "'x agent_prims_scheme \<Rightarrow> receipt \<Rightarrow> string" where
  "digest P r = Hash (jsonReceipt P (r\<lparr>rcID := []\<rparr>))"

definition validate :: "'x agent_prims_scheme \<Rightarrow> receipt \<Rightarrow> unit result" where
  "validate P r =
     bindR (guardR (\<not> (\<not> safeRelease (rcDeviceID r) \<or> \<not> safeRelease (rcRelease r) \<or> \<not> hexDigest (rcArtifactSHA256 r)))
             (Msg ''invalid receipt identity'')) (\<lambda>_.
     bindR (guardR (\<not> (rcPhase r \<noteq> ''staged'' \<and> rcPhase r \<noteq> ''loaded''))
             (Msg ''receipt must acknowledge staged or loaded, not running'')) (\<lambda>_.
     bindR (guardR (\<not> (rcID r \<noteq> digest P r)) (Msg ''receipt ID mismatch'')) (\<lambda>_.
     guardR (parseTime P (rcRecordedAt r)) (Msg ''parsing time''))))"

definition outbox :: "agent_options \<Rightarrow> path" where
  "outbox o' = oStateDir o' @ [''outbox'']"

definition queueReceipt :: "'x agent_prims_scheme \<Rightarrow> env \<Rightarrow> agent_options \<Rightarrow> summary \<Rightarrow> unit io" where
  "queueReceipt P E o' s = bindM (timeNow E) (\<lambda>t.
     (let r0 = \<lparr>rcID = [], rcDeviceID = oDeviceID o', rcRelease = suRelease s, rcPhase = suPhase s,
               rcArtifactSHA256 = suArtifactSHA256 s, rcRecordedAt = formatTime P t, rcSummary = s\<rparr>;
          r = r0\<lparr>rcID := digest P r0\<rparr> in
      bindM (liftR (validate P r)) (\<lambda>_.
      AtomicWrite E (outbox o' @ [rcID r @ ''.json'']) (jsonReceipt P r) 384)))"

text \<open>\<open>os.ReadDir\<close> with the kind of each entry.\<close>

definition readDirEntries :: "env \<Rightarrow> path \<Rightarrow> (string \<times> bool) list io" where
  "readDirEntries E d = prim E (\<lambda>w. case lookup w d of
       None \<Rightarrow> (Inl NotExist, w)
     | Some DirN \<Rightarrow> (Inr (map (\<lambda>n. (n, lookup w (d @ [n]) = Some DirN)) (dir_names w d)), w)
     | Some (FileN _ _) \<Rightarrow> (Inl IOError, w))"

definition receiptPost :: "agent_options \<Rightarrow> bytes \<Rightarrow> http_request" where
  "receiptPost o' b = \<lparr>rqMethod = ''POST'', rqURL = oReceiptURL o',
     rqHeaders = [(''Content-Type'', ''application/json'')], rqBody = b\<rparr>"

definition flush_one :: "'x agent_prims_scheme \<Rightarrow> env \<Rightarrow> agent_options \<Rightarrow> hub_client \<Rightarrow> string \<times> bool \<Rightarrow> unit io" where
  "flush_one P E o' cl entry =
     (if snd entry \<or> \<not> hasSuffix (fst entry) ''.json'' then ret ()
      else (let p = outbox o' @ [fst entry] in
        bindM (osReadFile E p) (\<lambda>b.
        bindM (liftR (bindR (urlParse P (oReceiptURL o')) (\<lambda>_. Inr ()))) (\<lambda>_.
        bindM (hubDo P E cl (receiptPost o' b)) (\<lambda>rs.
        bindM (guardM (\<not> (rsStatus rs \<noteq> 200 \<and> rsStatus rs \<noteq> 201)) (HTTPStatus (rsStatus rs))) (\<lambda>_.
        bindM (attemptM (osRemove E p)) (\<lambda>r. case r of
            Inl e \<Rightarrow> if e \<noteq> NotExist then throw e else SyncDir E (outbox o')
          | Inr _ \<Rightarrow> SyncDir E (outbox o'))))))))"

definition FlushReceipts :: "'x agent_prims_scheme \<Rightarrow> env \<Rightarrow> agent_options \<Rightarrow> unit io" where
  "FlushReceipts P E o' =
     (if oReceiptURL o' = [] \<or> oOffline o' then ret ()
      else bindM (liftR (allowedURL P (oReceiptURL o') (oAllowHTTP o'))) (\<lambda>_.
           bindM (attemptM (readDirEntries E (outbox o'))) (\<lambda>r. case r of
               Inl e \<Rightarrow> if e = NotExist then ret () else throw e
             | Inr entries \<Rightarrow>
                 bindM (New P E (oHubTLS o')) (\<lambda>cl. forM entries (flush_one P E o' cl)))))"

section \<open>Delivery\<close>

text \<open>
  \<open>delivered\<close>: everything queued in the outbox is still there or was posted, byte for byte, in the
  meantime and accepted by the origin.
\<close>

definition accepted :: "env \<Rightarrow> http_request \<Rightarrow> bool" where
  "accepted E rq \<longleftrightarrow> (\<exists>t rs. http_reply E t rq = Some rs \<and> rsStatus rs \<in> {200, 201})"

definition delivered :: "env \<Rightarrow> agent_options \<Rightarrow> world \<Rightarrow> world \<Rightarrow> bool" where
  "delivered E o' w w' \<longleftrightarrow> prefix (sent w) (sent w') \<and>
     (\<forall>n b m. lookup w (outbox o' @ [n]) = Some (FileN b m) \<longrightarrow>
        lookup w' (outbox o' @ [n]) = Some (FileN b m) \<or>
        receiptPost o' b \<in> set (drop (length (sent w)) (sent w')) \<and> accepted E (receiptPost o' b))"

lemma drop_prefix_subset:
  "prefix xs ys \<Longrightarrow> prefix ys zs \<Longrightarrow> set (drop (length xs) ys) \<subseteq> set (drop (length xs) zs)"
  "prefix xs ys \<Longrightarrow> prefix ys zs \<Longrightarrow> set (drop (length ys) zs) \<subseteq> set (drop (length xs) zs)"
  by (auto simp: prefix_def)

interpretation deliver: effect_order "delivered E o'" for E o'
proof
  fix s t u assume st: "delivered E o' s t" and tu: "delivered E o' t u"
  then have p: "prefix (sent s) (sent t)" "prefix (sent t) (sent u)" by (auto simp: delivered_def)
  show "delivered E o' s u"
    unfolding delivered_def
  proof (intro conjI allI impI)
    show "prefix (sent s) (sent u)" using p by (rule prefix_order.trans)
    fix n b m assume "lookup s (outbox o' @ [n]) = Some (FileN b m)"
    then consider "lookup t (outbox o' @ [n]) = Some (FileN b m)"
      | "receiptPost o' b \<in> set (drop (length (sent s)) (sent t)) \<and> accepted E (receiptPost o' b)"
      using st unfolding delivered_def by blast
    then show "lookup u (outbox o' @ [n]) = Some (FileN b m) \<or>
        receiptPost o' b \<in> set (drop (length (sent s)) (sent u)) \<and> accepted E (receiptPost o' b)"
    proof cases
      case 1
      then show ?thesis using tu drop_prefix_subset(2) [OF p] unfolding delivered_def by blast
    next
      case 2
      then show ?thesis using drop_prefix_subset(1) [OF p] by blast
    qed
  qed
qed (simp add: delivered_def)

text \<open>Operations that neither send nor change a file in the tree.\<close>

definition silent :: "world \<Rightarrow> world \<Rightarrow> bool" where
  "silent w w' \<longleftrightarrow> lookup w' = lookup w \<and> sent w' = sent w"

interpretation silence: effect_order silent
  by unfold_locales (simp_all add: silent_def)

lemma steps_silent_prims:
  "steps silent (osStat E p)" "steps silent (osReadFile E p)" "steps silent (fSync E p)" "steps silent (ctxErr E)"
  "steps silent (readDirEntries E p)" "steps silent (timeNow E)" "steps silent (dockerRun E args)"
  "steps silent (sleepFor E d)" "steps silent (jittered E d)"
  by (auto simp: steps_def prim_defs dockerRun_def readDirEntries_def jittered_def Let_def silent_def fun_eq_iff
      split: option.splits node.splits)

lemma steps_silent_SyncDir: "steps silent (SyncDir E p)"
  unfolding SyncDir_def by (intro silence.steps_rules steps_silent_prims)

lemma steps_silent_mapErr: "steps silent m \<Longrightarrow> steps silent (mapErr e m)"
  unfolding mapErr_def by (intro silence.steps_rules)

lemma steps_silent_New: "steps silent (New P E c)"
  unfolding New_def TLSConfig_def loadCA_def loadPair_def
  by (intro silence.steps_rules steps_silent_prims steps_silent_mapErr)

lemma silent_delivered: "steps silent m \<Longrightarrow> steps (delivered E o') m"
  by (auto simp: steps_def silent_def delivered_def)

lemma ReadKey_run:
  "ReadKey E p sz w = (r, w') \<Longrightarrow> lookup w' = lookup w \<and> (\<forall>k. r = Inr k \<longrightarrow> (\<exists>b. file_bytes w p = Some b \<and> parseKey b sz = Inr k))"
proof -
  assume run: "ReadKey E p sz w = (r, w')"
  obtain x w1 where rd: "osReadFile E p w = (x, w1)" by (rule prod.exhaust)
  have s: "lookup w1 = lookup w" using stepsD [OF steps_silent_prims(2) rd] by (simp add: silent_def)
  show ?thesis
    using run rd s osReadFile_ok [of E p w] by (cases x) (auto simp: ReadKey_def bindM_def)
qed

lemma hubDo_effect:
  assumes "hubDo P E cl rq w = (r, w')"
  shows "lookup w' = lookup w" "prefix (sent w) (sent w')"
    "r = Inr rs \<Longrightarrow> sent w' = sent w @ [rq] \<and> (\<exists>t. http_reply E t rq = Some rs)"
  using assms by (auto simp: hubDo_def RoundTrip_def bindM_run httpDo_def Let_def fun_eq_iff split: option.splits if_splits)

lemma osRemove_effect:
  assumes "osRemove E p w = (r, w')" "p \<noteq> []"
  shows "\<forall>q. q \<noteq> p \<longrightarrow> lookup w' q = lookup w q" "sent w' = sent w"
  using assms by (auto simp: osRemove_def prim_def Let_def split: if_splits option.splits node.splits)

lemma steps_flush_one: "steps (delivered E o') (flush_one P E o' cl entry)"
proof (cases "snd entry \<or> \<not> hasSuffix (fst entry) ''.json''")
  case True
  then show ?thesis by (simp add: flush_one_def deliver.steps_ret)
next
  case False
  let ?p = "outbox o' @ [fst entry]"
  have post: "delivered E o' w w'"
    if rd: "file_bytes w ?p = Some b" and
      run: "bindM (hubDo P E cl (receiptPost o' b)) (\<lambda>rs.
        bindM (guardM (\<not> (rsStatus rs \<noteq> 200 \<and> rsStatus rs \<noteq> 201)) (HTTPStatus (rsStatus rs))) (\<lambda>_.
        bindM (attemptM (osRemove E ?p)) (\<lambda>r. case r of
            Inl e \<Rightarrow> if e \<noteq> NotExist then throw e else SyncDir E (outbox o')
          | Inr _ \<Rightarrow> SyncDir E (outbox o')))) w = (r, w')" for b w r w'
  proof -
    obtain x w1 where h: "hubDo P E cl (receiptPost o' b) w = (x, w1)" by fastforce
    show ?thesis
    proof (cases "\<exists>rs. x = Inr rs \<and> rsStatus rs \<in> {200, 201}")
      case False
      then have "w' = w1"
        using run h by (cases x) (auto simp: bindM_def guardM_def sm_run)
      then show ?thesis using hubDo_effect(1,2) [OF h] by (simp add: delivered_def)
    next
      case True
      then obtain rs where x: "x = Inr rs" and ok: "rsStatus rs \<in> {200, 201}" by blast
      note eff = hubDo_effect(1) [OF h] hubDo_effect(3) [OF h x]
      obtain y w2 where rm: "osRemove E ?p w1 = (y, w2)" by fastforce
      have "silent w2 w'"
        using run h x ok rm
        by (auto simp: bindM_def attemptM_def sm_run silent_def split: sum.splits if_splits
            dest!: stepsD [OF steps_silent_SyncDir])
      then have s: "sent w' = sent w @ [receiptPost o' b]" and
        l: "\<forall>q. q \<noteq> ?p \<longrightarrow> lookup w' q = lookup w q"
        using eff osRemove_effect [OF rm] by (auto simp: silent_def)
      have acc: "accepted E (receiptPost o' b)" using eff(2) ok by (auto simp: accepted_def)
      show ?thesis
        unfolding delivered_def
      proof (intro conjI allI impI)
        fix n c m assume n: "lookup w (outbox o' @ [n]) = Some (FileN c m)"
        show "lookup w' (outbox o' @ [n]) = Some (FileN c m) \<or>
            receiptPost o' c \<in> set (drop (length (sent w)) (sent w')) \<and> accepted E (receiptPost o' c)"
          using n l s acc rd by (cases "n = fst entry") (auto simp: file_bytes_def)
      qed (simp add: s)
    qed
  qed
  show ?thesis
  proof (rule stepsI)
    fix w r w' assume run: "flush_one P E o' cl entry w = (r, w')"
    obtain x w1 where rd: "osReadFile E ?p w = (x, w1)" by fastforce
    have s1: "silent w w1" using stepsD [OF steps_silent_prims(2) rd] .
    show "delivered E o' w w'"
    proof (cases x)
      case (Inl e)
      then show ?thesis using run False rd s1 by (simp add: flush_one_def Let_def bindM_def silent_def delivered_def)
    next
      case (Inr b)
      then have fb: "file_bytes w1 ?p = Some b" using osReadFile_ok rd file_bytes_cong by metis
      have "delivered E o' w1 w'"
        using run False rd Inr post [OF fb]
        by (cases "urlParse P (oReceiptURL o')")
           (auto simp: flush_one_def Let_def bindM_def [of "osReadFile E ?p"] bindM_def [of "liftR _"] sm_run
              intro: deliver.R_refl)
      with s1 show ?thesis by (simp add: silent_def delivered_def)
    qed
  qed
qed

lemma steps_FlushReceipts: "steps (delivered E o') (FlushReceipts P E o')"
  unfolding FlushReceipts_def
  by (intro deliver.steps_rules silent_delivered [OF steps_silent_prims(5)] silent_delivered [OF steps_silent_New]
      steps_flush_one)

section \<open>Where the flush acts, and that it drains\<close>

definition in_outbox :: "agent_options \<Rightarrow> path \<Rightarrow> bool" where
  "in_outbox o' q \<longleftrightarrow> q \<noteq> [] \<and> butlast q = outbox o'"

lemma in_outbox_snoc [simp]: "in_outbox o' (outbox o' @ [n])"
  by (simp add: in_outbox_def)

lemma silent_frame: "steps silent m \<Longrightarrow> steps (only_at Q) m"
  by (auto simp: steps_def silent_def only_at_def)

lemma steps_hubDo_frame: "steps (only_at Q) (hubDo P E cl rq)"
  by (auto intro!: stepsI simp: only_at_def dest: hubDo_effect(1))

lemma steps_flush_one_frame: "steps (only_at (in_outbox o')) (flush_one P E o' cl entry)"
  unfolding flush_one_def Let_def
  by (intro frame.steps_rules steps_quiet steps_touch steps_hubDo_frame steps_SyncDir) simp_all

lemma steps_FlushReceipts_frame: "steps (only_at (in_outbox o')) (FlushReceipts P E o')"
  unfolding FlushReceipts_def
  by (intro frame.steps_rules silent_frame [OF steps_silent_prims(5)] silent_frame [OF steps_silent_New] steps_flush_one_frame)

lemma flush_one_ok:
  assumes "flush_one P E o' cl entry w = (Inr u, w')"
  shows "(\<forall>q. lookup w q = None \<longrightarrow> lookup w' q = None) \<and>
    (\<not> snd entry \<and> hasSuffix (fst entry) ''.json'' \<longrightarrow> lookup w' (outbox o' @ [fst entry]) = None)"
proof (cases "snd entry \<or> \<not> hasSuffix (fst entry) ''.json''")
  case True
  then show ?thesis using assms by (auto simp: flush_one_def)
next
  case False
  let ?p = "outbox o' @ [fst entry]"
  obtain b w1 rs w2 x w3 where s: "osReadFile E ?p w = (Inr b, w1)"
    "hubDo P E cl (receiptPost o' b) w1 = (Inr rs, w2)" "osRemove E ?p w2 = (x, w3)"
    and t: "(case x of Inl e \<Rightarrow> if e \<noteq> NotExist then throw e else SyncDir E (outbox o')
              | Inr _ \<Rightarrow> SyncDir E (outbox o')) w3 = (Inr u, w')"
    using assms False by (auto simp: flush_one_def Let_def bindM_run attemptM_run)
  from t have x: "x = Inl NotExist \<or> (\<exists>u. x = Inr u)" and sy: "SyncDir E (outbox o') w3 = (Inr u, w')"
    by (auto split: sum.splits if_splits)
  have "lookup w1 = lookup w" "lookup w2 = lookup w1" "lookup w' = lookup w3"
    using osReadFile_ok [OF s(1)] hubDo_effect(1) [OF s(2)] stepsD [OF steps_silent_SyncDir sy] by (simp_all add: silent_def)
  moreover have "lookup w3 ?p = None" "\<forall>q. q \<noteq> ?p \<longrightarrow> lookup w3 q = lookup w2 q"
    using s(3) x by (auto simp: osRemove_def prim_def Let_def split: if_splits option.splits node.splits)
  ultimately show ?thesis by metis
qed

lemma flush_all_ok:
  "triple (\<lambda>_. True) (forM entries (flush_one P E o' cl))
     (\<lambda>_ w. \<forall>(n, d) \<in> set entries. \<not> d \<and> hasSuffix n ''.json'' \<longrightarrow> lookup w (outbox o' @ [n]) = None) (\<lambda>_ _. True)"
proof -
  let ?I = "\<lambda>done w. \<forall>(n, d) \<in> set done. \<not> d \<and> hasSuffix n ''.json'' \<longrightarrow> lookup w (outbox o' @ [n]) = None"
  have "triple (?I []) (forM entries (flush_one P E o' cl)) (\<lambda>_. ?I entries) (\<lambda>_ _. True)"
  proof (rule triple_forM_upto, rule tripleI)
    fix pre e post w u w' assume "?I pre w" and "flush_one P E o' cl e w = (Inr u, w')"
    then show "?I (pre @ [e]) w'" using flush_one_ok [of P E o' cl e w u w'] by (cases e) fastforce
  qed simp
  then show ?thesis by simp
qed

lemma dir_names_complete: "lookup w (d @ [n]) = Some x \<Longrightarrow> n \<in> set (dir_names w d)"
  by (force simp: lookup_def dir_names_def dest: map_of_SomeD)

lemma readDirEntries_ok:
  assumes "readDirEntries E d w = (Inr es, w')"
  shows "es = map (\<lambda>n. (n, lookup w (d @ [n]) = Some DirN)) (dir_names w d)"
  using assms by (simp add: readDirEntries_def prim_def Let_def dir_names_def split: if_splits option.splits node.splits)

section \<open>Properties\<close>

text \<open>C35. No acknowledgement is lost. However a flush ends, every receipt queued before is still in the
  outbox or was posted during the flush and accepted by the origin; nothing outside the outbox is
  touched; and a flush that succeeds has drained every receipt.\<close>

theorem FlushReceipts_at_least_once:
  assumes "FlushReceipts P E o' w = (r, w')"
  shows "(\<forall>n b m. lookup w (outbox o' @ [n]) = Some (FileN b m) \<longrightarrow>
             lookup w' (outbox o' @ [n]) = Some (FileN b m)
           \<or> receiptPost o' b \<in> set (drop (length (sent w)) (sent w')) \<and> accepted E (receiptPost o' b))
    \<and> (\<forall>q. \<not> in_outbox o' q \<longrightarrow> lookup w' q = lookup w q)
    \<and> (r = Inr () \<and> oReceiptURL o' \<noteq> [] \<and> \<not> oOffline o' \<longrightarrow>
        (\<forall>n b m. lookup w (outbox o' @ [n]) = Some (FileN b m) \<and> lookup w (outbox o') = Some DirN \<and> hasSuffix n ''.json''
           \<longrightarrow> lookup w' (outbox o' @ [n]) = None))"
proof (intro conjI impI allI)
  fix n b m assume n: "lookup w (outbox o' @ [n]) = Some (FileN b m)"
  then show "lookup w' (outbox o' @ [n]) = Some (FileN b m)
      \<or> receiptPost o' b \<in> set (drop (length (sent w)) (sent w')) \<and> accepted E (receiptPost o' b)"
    using stepsD [OF steps_FlushReceipts assms] by (simp add: delivered_def)
next
  fix q assume "\<not> in_outbox o' q"
  then show "lookup w' q = lookup w q" using stepsD [OF steps_FlushReceipts_frame assms] by (simp add: only_at_def)
next
  fix n b m
  assume ok: "r = Inr () \<and> oReceiptURL o' \<noteq> [] \<and> \<not> oOffline o'"
    and n: "lookup w (outbox o' @ [n]) = Some (FileN b m) \<and> lookup w (outbox o') = Some DirN \<and> hasSuffix n ''.json''"
  obtain x w1 where rd: "readDirEntries E (outbox o') w = (x, w1)" by fastforce
  obtain entries where x: "x = Inr entries"
    using assms ok n rd
    by (cases x) (auto simp: FlushReceipts_def readDirEntries_def prim_def Let_def bindM_run attemptM_run split: if_splits)
  then have "(n, False) \<in> set entries"
    using readDirEntries_ok [OF rd [unfolded x]] n dir_names_complete [of w "outbox o'" n] by force
  moreover obtain cl w2 where "forM entries (flush_one P E o' cl) w2 = (Inr (), w')"
    using assms ok rd x by (auto simp: FlushReceipts_def bindM_run attemptM_run)
  then have "\<forall>(n, d) \<in> set entries. \<not> d \<and> hasSuffix n ''.json'' \<longrightarrow> lookup w' (outbox o' @ [n]) = None"
    using triple_okD [OF flush_all_ok TrueI] by blast
  ultimately show "lookup w' (outbox o' @ [n]) = None" using n by auto
qed

definition demo_agent_prims :: agent_prims where
  "demo_agent_prims = hub_prims.extend demo_hub (agent_prims.fields
     (\<lambda>s. bytes_of (asManifestSHA256 s)) (\<lambda>b. Inr (zero_state\<lparr>asManifestSHA256 := string_of b\<rparr>)) (\<lambda>_. [])
     (\<lambda>r. bytes_of (rcID r)) (\<lambda>_. Inl (Msg ''json'')) (\<lambda>_. ''t'') (\<lambda>_. True) (\<lambda>_. ''0'')
     (\<lambda>_. ([], None)) (\<lambda>_. Inl (Msg ''json'')))"

definition demo_options :: agent_options where
  "demo_options = DefaultAgentOptions\<lparr>oStateDir := [''s''], oReceiptURL := ''https://h/r'', oDeviceID := ''d1''\<rparr>"

definition demo_outbox :: world where
  "demo_outbox = put_node [''s'', ''outbox''] DirN (put_node [''s'', ''outbox'', ''a.json''] (FileN [5] 384) empty_world)"

lemma demo_outbox_lookup:
  "lookup demo_outbox q = (if q = [] \<or> q = [''s'', ''outbox''] then Some DirN
     else if q = [''s'', ''outbox'', ''a.json''] then Some (FileN [5] 384) else None)"
  by (auto simp: demo_outbox_def empty_world_def lookup_def put_node_def)

text \<open>The origin is unreachable in this run: the receipt stays.\<close>

theorem FlushReceipts_at_least_once_witness:
  "lookup (snd (FlushReceipts demo_agent_prims (env_fail_at 99) demo_options demo_outbox)) [''s'', ''outbox'', ''a.json'']
     = Some (FileN [5] 384)"
proof -
  let ?r = "FlushReceipts demo_agent_prims (env_fail_at 99) demo_options demo_outbox"
  have "lookup demo_outbox (outbox demo_options @ [''a.json'']) = Some (FileN [5] 384)"
    by (simp add: demo_outbox_lookup outbox_def demo_options_def)
  with FlushReceipts_at_least_once [of demo_agent_prims "env_fail_at 99" demo_options demo_outbox "fst ?r" "snd ?r"]
  have "lookup (snd ?r) (outbox demo_options @ [''a.json'']) = Some (FileN [5] 384) \<or> accepted (env_fail_at 99) (receiptPost demo_options [5])"
    by auto
  then show ?thesis by (simp add: accepted_def env_fail_at_def outbox_def demo_options_def)
qed

end
