(* ===== verification/DockerLoad.thy ===== *)
theory DockerLoad
  imports Receipts
begin

text \<open>
  \<open>src/internal/lab/agent.go\<close>, the proof that a loaded image is really stored: the references the
  daemon reports, each saved back out of the store, and the hash of the preserved config bytes
  compared with the signed image IDs.
\<close>

section \<open>Model\<close>

text \<open>\<open>regexp\<close> search for a literal followed by \<open>(\S+)\<close>: all matches from left to right, the group of each.\<close>

definition nonSpace :: "char \<Rightarrow> bool" where
  "nonSpace c \<longleftrightarrow> c \<notin> {CHR 0x09, CHR 0x0A, CHR 0x0C, CHR 0x0D, CHR '' ''}"

function find_all :: "string \<Rightarrow> string \<Rightarrow> string list" where
  "find_all lit [] = []"
| "find_all lit (c # s) =
     (let t = c # s; w = takeWhile nonSpace (drop (length lit) t) in
      if hasPrefix t lit \<and> w \<noteq> [] then w # find_all lit (drop (length lit + length w) t)
      else find_all lit s)"
  by pat_completeness auto
termination
proof (relation "measure (\<lambda>(lit, s). length s)")
  fix lit c s t and w :: string
  assume "t = c # s" and "hasPrefix t lit \<and> w \<noteq> []"
  then have "0 < length w" by simp
  then show "((lit, drop (length lit + length w) t), lit, c # s) \<in> measure (\<lambda>(lit, s). length s)"
    using \<open>t = c # s\<close> by simp
qed auto

definition loadReportRefs :: "string \<Rightarrow> string list" where
  "loadReportRefs report = find_all ''Loaded image: '' report
     @ filter (\<lambda>m. hexDigest (trimPrefix m ''sha256:'')) (find_all ''Loaded image ID: '' report)"

fun member :: "tar_entry list \<Rightarrow> error option \<Rightarrow> string \<Rightarrow> int \<Rightarrow> bytes result" where
  "member [] stop name limit = (case stop of None \<Rightarrow> Inl (Msg ''saved archive lacks member'') | Some e \<Rightarrow> Inl e)"
| "member (h # hs) stop name limit =
     (if teName h \<noteq> name \<or> \<not> teRegular h \<or> teSize h > limit then member hs stop name limit
      else if int (length (teData h)) < teSize h then Inl IOError
      else Inr (take (nat limit) (take (nat (teSize h)) (teData h))))"

definition afterLastSlash :: "string \<Rightarrow> string" where
  "afterLastSlash s = rev (takeWhile (\<lambda>c. c \<noteq> CHR ''/'') (rev s))"

definition configOf :: "'x agent_prims_scheme \<Rightarrow> bytes \<Rightarrow> string result" where
  "configOf P archive = (case tarEntries P archive of (es, stop) \<Rightarrow>
     bindR (member es stop ''manifest.json'' (4 * 2 ^ 20)) (\<lambda>b.
     bindR (case jsonConfigs P b of Inr [cfg] \<Rightarrow> Inr cfg | _ \<Rightarrow> Inl (Msg ''saved archive must describe exactly one image'')) (\<lambda>cfg.
     bindR (guardR (hexDigest (afterLastSlash cfg)) (Msg ''saved config path is not a content digest'')) (\<lambda>_.
     bindR (member es stop cfg (4 * 2 ^ 20)) (\<lambda>b'.
     Inr (''sha256:'' @ Hash b'))))))"

definition savedConfigID :: "'x agent_prims_scheme \<Rightarrow> env \<Rightarrow> path \<Rightarrow> string io" where
  "savedConfigID P E p = bindM (openRead E p) (\<lambda>(b, e). case e of
       Some err \<Rightarrow> throw err
     | None \<Rightarrow> liftR (configOf P b))"

text \<open>\<open>os.MkdirTemp\<close> in the system's temporary directory, and \<open>os.RemoveAll\<close>.\<close>

definition osMkdirTemp :: "env \<Rightarrow> string \<Rightarrow> path io" where
  "osMkdirTemp E pre w = prim E (\<lambda>w'.
     let p = [''tmp'', pre @ temp_rand E (tick w)] in
     if lookup w' [''tmp''] \<noteq> Some DirN then (Inl NotExist, w')
     else if lookup w' p \<noteq> None then (Inl ErrExist, w')
     else (Inr p, put_node p DirN w')) w"

definition osRemoveAll :: "path \<Rightarrow> unit io" where
  "osRemoveAll d w = (Inr (), w\<lparr>files := filter (\<lambda>(p, n). \<not> prefix d p) (files w)\<rparr>)"

definition pathString :: "path \<Rightarrow> string" where
  "pathString p = concat (map (\<lambda>c. CHR ''/'' # c) p)"

definition saveArgs :: "path \<Rightarrow> string \<Rightarrow> string list" where
  "saveArgs p ref = [''image'', ''save'', ''--output'', pathString p, ref]"

text \<open>\<open>docker image save\<close>: on success the archive, the reply of the daemon, is at the output path.\<close>

definition dockerSave :: "env \<Rightarrow> path \<Rightarrow> string \<Rightarrow> unit io" where
  "dockerSave E p ref = bindM (dockerRun E (saveArgs p ref)) (\<lambda>(out, ok).
     if ok then (\<lambda>w. (Inr (), put_node p (FileN (bytes_of out) 384) w)) else throw (Msg ''exit status''))"

definition check_ref :: "'x agent_prims_scheme \<Rightarrow> env \<Rightarrow> string set \<Rightarrow> string \<Rightarrow> string io" where
  "check_ref P E ids0 ref =
     bindM (osMkdirTemp E ''edgelab-loadcheck-'') (\<lambda>dir.
     bindM (attemptM (bindM (dockerSave E (dir @ [''roundtrip.tar'']) ref) (\<lambda>_.
            bindM (savedConfigID P E (dir @ [''roundtrip.tar''])) (\<lambda>configID.
            bindM (guardM (configID \<in> ids0) (Msg ''stored config is not a signed image ID'')) (\<lambda>_. ret configID))))) (\<lambda>r.
     bindM (osRemoveAll dir) (\<lambda>_. case r of
         Inl e \<Rightarrow> throw (Wrap ''post-load proof failed'' e)
       | Inr configID \<Rightarrow> ret configID)))"

fun check_refs :: "'x agent_prims_scheme \<Rightarrow> env \<Rightarrow> string set \<Rightarrow> string list \<Rightarrow> string set \<Rightarrow> string set io" where
  "check_refs P E ids0 [] covered = ret covered"
| "check_refs P E ids0 (ref # refs) covered =
     bindM (check_ref P E ids0 ref) (\<lambda>configID. check_refs P E ids0 refs (insert configID covered))"

definition verifyLoadedConfigIdentity :: "'x agent_prims_scheme \<Rightarrow> env \<Rightarrow> string \<Rightarrow> string list \<Rightarrow> unit io" where
  "verifyLoadedConfigIdentity P E loadReport imageIDs =
     (let refs = loadReportRefs loadReport; ids0 = set (map trimSpace imageIDs) in
      bindM (guardM (\<not> length refs = 0) (Msg ''docker load report names no loaded image; cannot prove stored identity'')) (\<lambda>_.
      bindM (check_refs P E ids0 refs {}) (\<lambda>covered.
      guardM (list_all (\<lambda>id. trimSpace id \<in> covered) imageIDs)
        (Msg ''load report and store never accounted for signed image ID''))))"

section \<open>What the proof establishes\<close>

text \<open>The daemon, asked at some moment to save \<open>ref\<close>, produced an archive whose config bytes hash to \<open>i\<close>.\<close>

definition stored :: "'x agent_prims_scheme \<Rightarrow> env \<Rightarrow> string \<Rightarrow> string \<Rightarrow> bool" where
  "stored P E ref i \<longleftrightarrow> (\<exists>t p out. docker_reply E t (saveArgs p ref) = (out, True) \<and> configOf P (bytes_of out) = Inr i)"

definition in_loadcheck :: "path \<Rightarrow> bool" where
  "in_loadcheck q \<longleftrightarrow> (\<exists>s. prefix [''tmp'', ''edgelab-loadcheck-'' @ s] q)"

lemma in_loadcheck_self: "in_loadcheck [''tmp'', ''edgelab-loadcheck-'' @ s]"
  unfolding in_loadcheck_def by blast

lemma lookup_RemoveAll:
  assumes "d \<noteq> []"
  shows "lookup (snd (osRemoveAll d w)) q = (if prefix d q then None else lookup w q)"
proof -
  have "map_of (filter (\<lambda>(p, n). \<not> prefix d p) xs) q = (if prefix d q then None else map_of xs q)" for xs :: "(path \<times> node) list"
    by (induction xs) auto
  then show ?thesis using assms by (auto simp: lookup_def osRemoveAll_def)
qed

lemma osMkdirTemp_ok:
  assumes "osMkdirTemp E pre w = (r, w')"
  shows "only_at (\<lambda>q. \<exists>s. q = [''tmp'', pre @ s]) w w'" "r = Inr d \<Longrightarrow> \<exists>s. d = [''tmp'', pre @ s]"
  using assms by (auto simp: osMkdirTemp_def prim_def Let_def only_at_def split: if_splits)

lemma dockerSave_ok:
  assumes "dockerSave E p ref w = (Inr u, w')" and "p \<noteq> []"
  shows "\<exists>t out. docker_reply E t (saveArgs p ref) = (out, True) \<and> lookup w' p = Some (FileN (bytes_of out) 384)"
  using assms by (auto simp: dockerSave_def dockerRun_def bindM_def split: prod.splits if_splits) blast

lemma steps_dockerSave: "p \<noteq> [] \<Longrightarrow> Q p \<Longrightarrow> steps (only_at Q) (dockerSave E p ref)"
  unfolding dockerSave_def
  by (intro frame.steps_rules steps_quiet) (auto simp: steps_def only_at_def)

lemma savedConfigID_run:
  assumes "savedConfigID P E p w = (r, w')"
  shows "lookup w' = lookup w" "r = Inr i \<Longrightarrow> \<exists>b. file_bytes w p = Some b \<and> configOf P b = Inr i"
  using assms
  by (auto simp: savedConfigID_def openRead_def osStat_def prim_def bindM_def Let_def file_bytes_def sm_run fun_eq_iff
      split: if_splits option.splits node.splits prod.splits sum.splits)

lemma savedConfigID_steps: "steps (only_at Q) (savedConfigID P E p)"
  by (auto intro!: stepsI simp: only_at_def dest: savedConfigID_run(1))

lemma steps_RemoveAll: "d \<noteq> [] \<Longrightarrow> (\<And>q. prefix d q \<Longrightarrow> Q q) \<Longrightarrow> steps (only_at Q) (osRemoveAll d)"
  by (auto simp: steps_def only_at_def lookup_RemoveAll)

lemma check_ref_frame: "steps (only_at in_loadcheck) (check_ref P E ids0 ref)"
proof (rule stepsI)
  fix w r w' assume run: "check_ref P E ids0 ref w = (r, w')"
  obtain x w1 where mk: "osMkdirTemp E ''edgelab-loadcheck-'' w = (x, w1)" by fastforce
  have f1: "only_at in_loadcheck w w1"
    using osMkdirTemp_ok(1) [OF mk] in_loadcheck_self unfolding only_at_def by metis
  show "only_at in_loadcheck w w'"
  proof (cases x)
    case (Inl e)
    then show ?thesis using run mk f1 by (simp add: check_ref_def bindM_def)
  next
    case (Inr dir)
    then obtain s where d: "dir = [''tmp'', ''edgelab-loadcheck-'' @ s]" using osMkdirTemp_ok(2) [OF mk] by blast
    have "steps (only_at in_loadcheck) (bindM (attemptM (bindM (dockerSave E (dir @ [''roundtrip.tar'']) ref) (\<lambda>_.
            bindM (savedConfigID P E (dir @ [''roundtrip.tar''])) (\<lambda>configID.
            bindM (guardM (configID \<in> ids0) (Msg ''stored config is not a signed image ID'')) (\<lambda>_. ret configID))))) (\<lambda>r.
        bindM (osRemoveAll dir) (\<lambda>_. case r of
            Inl e \<Rightarrow> throw (Wrap ''post-load proof failed'' e) | Inr configID \<Rightarrow> ret configID)))"
      by (intro frame.steps_rules steps_dockerSave savedConfigID_steps steps_RemoveAll)
         (auto simp: d in_loadcheck_def)
    from stepsD [OF this, of w1 r w'] run mk Inr have "only_at in_loadcheck w1 w'"
      by (simp add: check_ref_def bindM_def [of "osMkdirTemp _ _"])
    with f1 show ?thesis by (rule frame.R_trans)
  qed
qed

lemma steps_check_refs: "steps (only_at in_loadcheck) (check_refs P E ids0 refs covered)"
  by (induction refs arbitrary: covered) (auto intro: frame.steps_rules check_ref_frame)

lemma steps_verifyLoaded: "steps (only_at in_loadcheck) (verifyLoadedConfigIdentity P E report ids)"
  unfolding verifyLoadedConfigIdentity_def Let_def by (intro frame.steps_rules steps_check_refs)

lemma check_ref_ok:
  assumes "check_ref P E ids0 ref w = (Inr i, w')"
  shows "i \<in> ids0 \<and> stored P E ref i"
proof -
  obtain dir w1 r w4 w5 where body: "bindM (dockerSave E (dir @ [''roundtrip.tar'']) ref) (\<lambda>_.
            bindM (savedConfigID P E (dir @ [''roundtrip.tar''])) (\<lambda>configID.
            bindM (guardM (configID \<in> ids0) (Msg ''stored config is not a signed image ID'')) (\<lambda>_. ret configID))) w1 = (r, w4)"
    and r: "(case r of Inl e \<Rightarrow> throw (Wrap ''post-load proof failed'' e) | Inr configID \<Rightarrow> ret configID) w5 = (Inr i, w')"
    using assms by (auto simp: check_ref_def bindM_run [of "osMkdirTemp _ _"] bindM_run [of "attemptM _"]
        bindM_run [of "osRemoveAll _"] attemptM_run)
  from r have "r = Inr i" by (cases r) auto
  with body obtain w2 w3 where sv: "dockerSave E (dir @ [''roundtrip.tar'']) ref w1 = (Inr (), w2)"
    and id: "savedConfigID P E (dir @ [''roundtrip.tar'']) w2 = (Inr i, w3)" and sg: "i \<in> ids0"
    by (auto simp: bindM_run)
  obtain t out where "docker_reply E t (saveArgs (dir @ [''roundtrip.tar'']) ref) = (out, True)"
    and "lookup w2 (dir @ [''roundtrip.tar'']) = Some (FileN (bytes_of out) 384)"
    using dockerSave_ok [OF sv] by auto
  with savedConfigID_run(2) [OF id] sg show ?thesis by (auto simp: stored_def file_bytes_def)
qed

lemma check_refs_ok:
  assumes "check_refs P E ids0 refs covered w = (Inr cov, w')"
  shows "covered \<subseteq> cov \<and> (\<forall>i \<in> cov - covered. i \<in> ids0 \<and> (\<exists>ref \<in> set refs. stored P E ref i))
    \<and> (\<forall>ref \<in> set refs. \<exists>i \<in> ids0. stored P E ref i)"
  using assms
proof (induction refs arbitrary: covered w)
  case (Cons ref refs)
  then obtain i w1 where c: "check_ref P E ids0 ref w = (Inr i, w1)"
    and rest: "check_refs P E ids0 refs (insert i covered) w1 = (Inr cov, w')"
    by (auto simp: bindM_run)
  from check_ref_ok [OF c] Cons.IH [OF rest] show ?case by auto
qed simp

section \<open>Properties\<close>

text \<open>C39. A load is proved, not believed: when \<open>verifyLoadedConfigIdentity\<close> succeeds the report named at
  least one image, the daemon gave back every reported image with a config whose bytes hash to a
  signed ID, and every signed ID is one of them. Nothing outside its scratch directories changes,
  whatever the outcome.\<close>

theorem verifyLoaded_sound:
  assumes "verifyLoadedConfigIdentity P E report ids w = (r, w')"
  shows "(\<forall>q. \<not> in_loadcheck q \<longrightarrow> lookup w' q = lookup w q)
    \<and> (r = Inr () \<longrightarrow> loadReportRefs report \<noteq> []
        \<and> (\<forall>ref \<in> set (loadReportRefs report). \<exists>id \<in> set ids. stored P E ref (trimSpace id))
        \<and> (\<forall>id \<in> set ids. \<exists>ref \<in> set (loadReportRefs report). stored P E ref (trimSpace id)))"
proof (intro conjI impI allI)
  fix q assume "\<not> in_loadcheck q"
  then show "lookup w' q = lookup w q" using stepsD [OF steps_verifyLoaded assms] by (simp add: only_at_def)
next
  assume "r = Inr ()"
  then obtain cov where ne: "loadReportRefs report \<noteq> []"
    and c: "check_refs P E (set (map trimSpace ids)) (loadReportRefs report) {} w = (Inr cov, w')"
    and all: "list_all (\<lambda>id. trimSpace id \<in> cov) ids"
    using assms by (auto simp: verifyLoadedConfigIdentity_def Let_def bindM_run)
  show "loadReportRefs report \<noteq> []" by (rule ne)
  from check_refs_ok [OF c] all
  show "\<forall>ref \<in> set (loadReportRefs report). \<exists>id \<in> set ids. stored P E ref (trimSpace id)"
    and "\<forall>id \<in> set ids. \<exists>ref \<in> set (loadReportRefs report). stored P E ref (trimSpace id)"
    by (auto simp: list_all_iff)
qed

text \<open>A daemon that answers every save with the same archive, one image whose config is the bytes \<open>[1]\<close>.\<close>

definition docker_prims :: agent_prims where
  "docker_prims = demo_agent_prims\<lparr>tarEntries := (\<lambda>_.
       ([\<lparr>teName = ''manifest.json'', teRegular = True, teSize = 0, teData = []\<rparr>,
         \<lparr>teName = replicate 64 CHR ''a'', teRegular = True, teSize = 1, teData = [1]\<rparr>], None)),
     jsonConfigs := (\<lambda>_. Inr [replicate 64 CHR ''a''])\<rparr>"

definition docker_env :: env where
  "docker_env = (env_fail_at 99)\<lparr>docker_reply := (\<lambda>_ _. (''x'', True))\<rparr>"

theorem verifyLoaded_sound_witness:
  "\<exists>w'. verifyLoadedConfigIdentity docker_prims docker_env ''Loaded image: a'' [''sha256:'' @ Hash [1]]
         (put_node [''tmp''] DirN empty_world) = (Inr (), w')
     \<and> (\<exists>ref \<in> set (loadReportRefs ''Loaded image: a''). stored docker_prims docker_env ref (trimSpace (''sha256:'' @ Hash [1])))"
proof -
  let ?w = "put_node [''tmp''] DirN empty_world"
  have refs: "loadReportRefs ''Loaded image: a'' = [''a'']"
    by code_simp
  have "''manifest.json'' \<noteq> replicate 64 CHR ''a''"
    by (rule notI, drule arg_cong [where f = hd]) simp
  then have cfg: "configOf docker_prims b = Inr (''sha256:'' @ Hash [1])" for b
    by (simp add: configOf_def docker_prims_def hexDigest_def afterLastSlash_def is_hex_def list_all_iff)
  have tr: "trimSpace (''sha256:'' @ Hash [1]) = ''sha256:'' @ Hash [1]"
  proof -
    have "list_all is_hex (Hash [1])" "Hash [1] \<noteq> []" using hexDigest_Hash [of "[1]"] by (auto simp: hexDigest_def)
    then obtain t z where "Hash [1] = t @ [z]" "is_hex z" by (cases "Hash [1]" rule: rev_cases) auto
    then show ?thesis using hex_not_space [of z]
      by (simp add: trimSpace_def trim_def trimLeft_def trimRight_def asciiSpace_def)
  qed
  obtain w' where run: "verifyLoadedConfigIdentity docker_prims docker_env ''Loaded image: a'' [''sha256:'' @ Hash [1]] ?w = (Inr (), w')"
    unfolding verifyLoadedConfigIdentity_def refs Let_def
    by (simp add: bindM_def check_ref_def attemptM_def osMkdirTemp_def prim_defs Let_def docker_env_def env_fail_at_def
        lookup_def put_node_def empty_world_def dockerSave_def dockerRun_def savedConfigID_def openRead_def sm_run
        cfg tr [simplified] osRemoveAll_def)
  from verifyLoaded_sound [OF run] run show ?thesis by auto
qed

end
