(* ===== verification/Sync.thy ===== *)
theory Sync
  imports DockerLoad
begin

text \<open>
  \<open>src/internal/lab/agent.go\<close>, \<open>Sync\<close>: one run of the agent, from the lock to the receipt, in the
  order of the code. The download workers are a pool whose members the environment schedules, one
  attempt of one worker at a time, so that a statement for all environments covers every interleaving
  of attempts.
\<close>

section \<open>Before the run\<close>

fun validate_urls :: "'x hub_prims_scheme \<Rightarrow> hub_config \<Rightarrow> string list \<Rightarrow> unit result" where
  "validate_urls P c [] = Inr ()"
| "validate_urls P c (raw # rest) =
     (if raw \<noteq> [] then bindR (ValidateURL P c raw) (\<lambda>_. validate_urls P c rest) else validate_urls P c rest)"

definition sync_prologue :: "'x agent_prims_scheme \<Rightarrow> env \<Rightarrow> agent_options \<Rightarrow> unit ag" where
  "sync_prologue P E o' =
     bindM (onFst (ctxErr E)) (\<lambda>_.
     bindM (onFst (TLSConfig P E (oHubTLS o'))) (\<lambda>_.
     liftR (validate_urls P (oHubTLS o') [oManifestURL o', oBaseURL o', oReceiptURL o'])))"

definition options_ok :: "agent_options \<Rightarrow> bool" where
  "options_ok o' \<longleftrightarrow> \<not> (oWorkers o' < 1 \<or> oWorkers o' > 32 \<or> oBackoff o' \<le> 0 \<or> oMaxBackoff o' < oBackoff o'
     \<or> oRequestTimeout o' \<le> 0 \<or> oMaxArtifact o' \<le> 0 \<or> oReserveBytes o' < 0)"

definition flush_and_note :: "'x agent_prims_scheme \<Rightarrow> env \<Rightarrow> agent_options \<Rightarrow> unit ag" where
  "flush_and_note P E o' = bindM (onFst (attemptM (FlushReceipts P E o'))) (\<lambda>r. case r of
       Inl _ \<Rightarrow> event o' ''receipt_pending'' | Inr _ \<Rightarrow> ret ())"

definition sync_checks :: "'x agent_prims_scheme \<Rightarrow> env \<Rightarrow> agent_options \<Rightarrow> unit ag" where
  "sync_checks P E o' =
     bindM (if oReceiptURL o' \<noteq> [] then
              bindM (guardM (safeRelease (oDeviceID o')) (Msg ''receipt reporting requires a valid --device-id'')) (\<lambda>_.
              bindM (liftR (allowedURL P (oReceiptURL o') (oAllowHTTP o'))) (\<lambda>_. flush_and_note P E o'))
            else ret ()) (\<lambda>_.
     guardM (options_ok o') (Msg ''invalid agent options''))"

section \<open>The manifest\<close>

definition manifestPath :: "path \<Rightarrow> string \<Rightarrow> path" where
  "manifestPath dir d = Join (dir @ [''manifests'']) (d @ ''.json'')"

definition load_offline :: "env \<Rightarrow> agent_options \<Rightarrow> agent_state \<Rightarrow> (bytes \<times> string) io" where
  "load_offline E o' old =
     bindM (guardM (\<not> asManifestSHA256 old = []) (Msg ''no accepted manifest available offline'')) (\<lambda>_.
     bindM (guardM (\<not> (oManifestURL o' \<noteq> [] \<and> oManifestURL o' \<noteq> asManifestURL old))
              (Msg ''offline mode only accepts the current cached manifest'')) (\<lambda>_.
     bindM (osReadFile E (manifestPath (oStateDir o') (asManifestSHA256 old))) (\<lambda>b.
     ret (b, asManifestURL old))))"

text \<open>The accepted manifest kept on disk, if it is for the same URL and still verifies.\<close>

definition cached_manifest :: "'x agent_prims_scheme \<Rightarrow> env \<Rightarrow> agent_options \<Rightarrow> bytes \<Rightarrow> agent_state \<Rightarrow> bytes option io" where
  "cached_manifest P E o' pub old =
     (if asManifestURL old = oManifestURL o' \<and> asManifestSHA256 old \<noteq> []
      then bindM (attemptM (osReadFile E (manifestPath (oStateDir o') (asManifestSHA256 old)))) (\<lambda>r. case r of
          Inl _ \<Rightarrow> ret None
        | Inr b \<Rightarrow> (case Verify P b pub (oMaxArtifact o') of
            Inl _ \<Rightarrow> ret None
          | Inr (_, d) \<Rightarrow> ret (if d = asManifestSHA256 old then Some b else None)))
      else ret None)"

definition etagOf :: "bytes option \<Rightarrow> string" where
  "etagOf cached = (case cached of None \<Rightarrow> [] | Some b \<Rightarrow> [CHR 0x22] @ Hash b @ [CHR 0x22])"

definition manifest_attempt :: "'x agent_prims_scheme \<Rightarrow> env \<Rightarrow> agent_options \<Rightarrow> bytes option \<Rightarrow> (int \<times> error option) ag" where
  "manifest_attempt P E o' cached =
     bindM (prog (\<lambda>p. p\<lparr>pMetaRequests := pMetaRequests p + 1\<rparr>)) (\<lambda>_.
     bindM (onFst (request P E (oManifestURL o') MaxManifestBytes (etagOf cached) (oDeviceID o'))) (\<lambda>(b, n, after, err).
     bindM (prog (\<lambda>p. p\<lparr>pMetadata := pMetadata p + n\<rparr>)) (\<lambda>_.
     bindM (tel (\<lambda>t. t\<lparr>tMetadataBytes := tMetadataBytes t + n, tMetadataRequests := tMetadataRequests t + 1\<rparr>)) (\<lambda>_.
     if (case err of Some e \<Rightarrow> isNotModified e | None \<Rightarrow> False) \<and> cached \<noteq> None
     then bindM (modS (\<lambda>v. v\<lparr>vEnvelope := the cached\<rparr>)) (\<lambda>_. ret (0, None))
     else if err = None then bindM (modS (\<lambda>v. v\<lparr>vEnvelope := b\<rparr>)) (\<lambda>_. ret (after, err))
     else ret (after, err)))))"

definition load_online :: "'x agent_prims_scheme \<Rightarrow> env \<Rightarrow> nat \<Rightarrow> agent_options \<Rightarrow> bytes \<Rightarrow> agent_state \<Rightarrow> (bytes \<times> string) ag" where
  "load_online P E fuel o' pub old =
     bindM (liftR (allowedURL P (oManifestURL o') (oAllowHTTP o'))) (\<lambda>_.
     bindM (liftR (allowedURL P (oBaseURL o') (oAllowHTTP o'))) (\<lambda>_.
     bindM (onFst (cached_manifest P E o' pub old)) (\<lambda>cached.
     bindM (retry E fuel o' ''manifest'' (manifest_attempt P E o' cached)) (\<lambda>_.
     bindM getS (\<lambda>v. ret (vEnvelope v, oManifestURL o'))))))"

definition stagedPath :: "agent_options \<Rightarrow> manifest \<Rightarrow> path" where
  "stagedPath o' m = oStateDir o' @ [''staged'', mArtifactSHA256 m @ ''.tar'']"

text \<open>Verification, the rollback and equivocation checks, and the durable high-water mark.\<close>

definition accept_manifest ::
  "'x agent_prims_scheme \<Rightarrow> env \<Rightarrow> agent_options \<Rightarrow> bytes \<Rightarrow> agent_state \<Rightarrow> bytes \<times> string \<Rightarrow> (manifest \<times> string \<times> agent_state) ag" where
  "accept_manifest P E o' pub old eu = (case eu of (envelope, url) \<Rightarrow>
     bindM (liftR (Verify P envelope pub (oMaxArtifact o'))) (\<lambda>(m, dg).
     bindM (guardM (\<not> mSequence m < asSequence old) (Msg ''rollback rejected'')) (\<lambda>_.
     bindM (guardM (\<not> (mSequence m = asSequence old \<and> asManifestSHA256 old \<noteq> [] \<and> dg \<noteq> asManifestSHA256 old))
              (Msg ''same-sequence equivocation rejected'')) (\<lambda>_.
     bindM (onFst (AtomicWrite E (manifestPath (oStateDir o') dg) envelope 384)) (\<lambda>_.
     (let s = \<lparr>asSequence = mSequence m, asManifestSHA256 = dg, asManifestURL = url, asRelease = mRelease m,
               asPhase = ''planning'', asArtifact = stagedPath o' m, asUpdated = [],
               asLoadedManifestSHA256 = asLoadedManifestSHA256 old\<rparr> in
      bindM (onFst (writeState P E (oStateDir o') s)) (\<lambda>_.
      bindM (summ (\<lambda>u. u\<lparr>suRelease := mRelease m, suSequence := mSequence m, suArtifact := stagedPath o' m,
                 suArtifactSHA256 := mArtifactSHA256 m, suArtifactBytes := mArtifactSize m,
                 suUniqueChunks := int (length (Unique m))\<rparr>)) (\<lambda>_. ret (m, dg, s)))))))))"

section \<open>The plan\<close>

fun plan_chunks :: "env \<Rightarrow> agent_options \<Rightarrow> chunk list \<Rightarrow> chunk list \<Rightarrow> int \<Rightarrow> (chunk list \<times> int) ag" where
  "plan_chunks E o' [] missing bytes = ret (missing, bytes)"
| "plan_chunks E o' (c # cs) missing bytes =
     bindM (onFst (ctxErr E)) (\<lambda>_.
     bindM (onFst (ValidChunk E (oStateDir o') c)) (\<lambda>valid.
     if valid
     then bindM (summ (\<lambda>u. u\<lparr>suReusedChunks := suReusedChunks u + 1, suReusedRawBytes := suReusedRawBytes u + cSize c\<rparr>)) (\<lambda>_.
          plan_chunks E o' cs missing bytes)
     else plan_chunks E o' cs (missing @ [c]) (bytes + cSize c)))"

text \<open>The space the run needs, and the check of it. Returns whether the archive is already there.\<close>

definition needed_bytes :: "agent_options \<Rightarrow> manifest \<Rightarrow> int \<Rightarrow> bool \<Rightarrow> int" where
  "needed_bytes o' m missingBytes archiveValid =
     (let n = wrap64 (missingBytes + oReserveBytes o') in if archiveValid then n else wrap64 (n + mArtifactSize m))"

definition check_space :: "env \<Rightarrow> agent_options \<Rightarrow> manifest \<Rightarrow> int \<Rightarrow> bool io" where
  "check_space E o' m missingBytes =
     bindM (FileHash E (stagedPath o' m)) (\<lambda>(h, n, _).
     (let archiveValid = (h = mArtifactSHA256 m \<and> n = mArtifactSize m) in
      bindM (AvailableBytes E (oStateDir o')) (\<lambda>free.
      bindM (guardM (\<not> free < needed_bytes o' m missingBytes archiveValid) (Msg ''insufficient space'')) (\<lambda>_.
      ret archiveValid))))"

section \<open>The downloads\<close>

definition chunkURL :: "agent_options \<Rightarrow> chunk \<Rightarrow> string" where
  "chunkURL o' c = trimRight {CHR ''/''} (oBaseURL o') @ ''/'' @ BlobRel c"

definition fetch_attempt :: "'x agent_prims_scheme \<Rightarrow> env \<Rightarrow> agent_options \<Rightarrow> chunk \<Rightarrow> (int \<times> error option) ag" where
  "fetch_attempt P E o' c =
     bindM (prog (\<lambda>p. p\<lparr>pRequests := pRequests p + 1\<rparr>)) (\<lambda>_.
     bindM (onFst (request P E (chunkURL o' c) (cEncodedSize c) [] (oDeviceID o'))) (\<lambda>(b, n, after, e).
     bindM (prog (\<lambda>p. p\<lparr>pWire := pWire p + n\<rparr>)) (\<lambda>_.
     bindM (tel (\<lambda>t. t\<lparr>tChunkBytes := tChunkBytes t + n, tChunkRequests := tChunkRequests t + 1\<rparr>)) (\<lambda>_.
     if e \<noteq> None then ret (after, e)
     else (case Decode P b c of
         Inl err \<Rightarrow>
           bindM (prog (\<lambda>p. p\<lparr>pIntegrity := pIntegrity p + 1\<rparr>)) (\<lambda>_.
           bindM (tel (\<lambda>t. t\<lparr>tIntegrity := tIntegrity t + 1, tState := clientVerifying\<rparr>)) (\<lambda>_.
           bindM (event o' ''integrity_failure'') (\<lambda>_. ret (0, Some err))))
       | Inr raw \<Rightarrow>
           bindM (onFst (attemptM (AtomicWrite E (CachePath (oStateDir o') c) raw 384))) (\<lambda>r. case r of
             Inl err \<Rightarrow> ret (0, Some (Permanent err))
           | Inr _ \<Rightarrow>
               bindM (prog (\<lambda>p. p\<lparr>pCommitted := pCommitted p + 1, pRaw := pRaw p + cSize c, pUseful := pUseful p + cEncodedSize c\<rparr>)) (\<lambda>_.
               bindM (tel (\<lambda>t. t\<lparr>tVerified := tVerified t + cEncodedSize c\<rparr>)) (\<lambda>_.
               bindM (event o' ''chunk_committed'') (\<lambda>_. ret (0, None))))))))))"

text \<open>
  A worker waits for a job, is in round \<open>attempt\<close> of the retry loop for a chunk, or has returned. The
  queue is what the sending loop has not handed over yet.
\<close>

datatype wstate = WIdle | WBusy chunk int int | WExit

record pool =
  plWorkers :: "wstate list"
  plQueue :: "chunk list"
  plErr :: "error option"
  plCancel :: bool

definition set_worker :: "nat \<Rightarrow> wstate \<Rightarrow> pool \<Rightarrow> pool" where
  "set_worker i x pl = pl\<lparr>plWorkers := (plWorkers pl)[i := x]\<rparr>"

text \<open>\<open>errOnce.Do(func() { firstErr = e; cancel() })\<close> and the worker's return.\<close>

definition worker_fail :: "nat \<Rightarrow> error \<Rightarrow> pool \<Rightarrow> pool" where
  "worker_fail i e pl = (set_worker i WExit pl)\<lparr>plErr := (case plErr pl of None \<Rightarrow> Some e | Some x \<Rightarrow> Some x), plCancel := True\<rparr>"

text \<open>
  A step of an idle worker: the channel is closed, or the sender hands over the next chunk. Once the
  context is done the sender's \<open>select\<close> may as well stop sending; the environment decides.
\<close>

definition stop_sending :: "env \<Rightarrow> pool \<Rightarrow> bool io" where
  "stop_sending E pl w = (Inr ((plCancel pl \<or> ctx_done E (tick w)) \<and> odd (sched E (tick w))), w\<lparr>tick := Suc (tick w)\<rparr>)"

definition pool_step :: "'x agent_prims_scheme \<Rightarrow> env \<Rightarrow> agent_options \<Rightarrow> pool \<Rightarrow> nat \<Rightarrow> pool ag" where
  "pool_step P E o' pl i = (case plWorkers pl ! i of
       WExit \<Rightarrow> ret pl
     | WIdle \<Rightarrow> (case plQueue pl of
         [] \<Rightarrow> ret (set_worker i WExit pl)
       | c # cs \<Rightarrow> bindM (onFst (stop_sending E pl)) (\<lambda>stop.
           ret (if stop then pl\<lparr>plQueue := []\<rparr> else set_worker i (WBusy c 1 (oBackoff o')) (pl\<lparr>plQueue := cs\<rparr>))))
     | WBusy c attempt delay \<Rightarrow>
         bindM (retry_iter E o' (plCancel pl) (cSHA256 c) (fetch_attempt P E o' c) attempt delay) (\<lambda>r.
         ret (case r of
             IterDone \<Rightarrow> set_worker i WIdle pl
           | IterFail e \<Rightarrow> worker_fail i e pl
           | IterAgain d \<Rightarrow> set_worker i (WBusy c (attempt + 1) d) pl)))"

definition running :: "pool \<Rightarrow> nat list" where
  "running pl = filter (\<lambda>i. plWorkers pl ! i \<noteq> WExit) [0..<length (plWorkers pl)]"

definition pick :: "env \<Rightarrow> nat list \<Rightarrow> nat io" where
  "pick E is w = (Inr (is ! (sched E (tick w) mod length is)), w\<lparr>tick := Suc (tick w)\<rparr>)"

fun pool_run :: "'x agent_prims_scheme \<Rightarrow> env \<Rightarrow> agent_options \<Rightarrow> nat \<Rightarrow> pool \<Rightarrow> pool ag" where
  "pool_run P E o' 0 pl = (if running pl = [] then ret pl else throw OutOfFuel)"
| "pool_run P E o' (Suc fuel) pl =
     (if running pl = [] then ret pl
      else bindM (onFst (pick E (running pl))) (\<lambda>i.
           bindM (pool_step P E o' pl i) (\<lambda>pl'. pool_run P E o' fuel pl')))"

definition start_pool :: "agent_options \<Rightarrow> chunk list \<Rightarrow> pool" where
  "start_pool o' missing = \<lparr>plWorkers = replicate (nat (oWorkers o')) WIdle, plQueue = missing, plErr = None, plCancel = False\<rparr>"

definition fetch_missing :: "'x agent_prims_scheme \<Rightarrow> env \<Rightarrow> nat \<Rightarrow> agent_options \<Rightarrow> chunk list \<Rightarrow> unit ag" where
  "fetch_missing P E fuel o' missing =
     bindM (pool_run P E o' fuel (start_pool o' missing)) (\<lambda>pl.
     bindM (liftR (case plErr pl of Some e \<Rightarrow> Inl e | None \<Rightarrow> Inr ())) (\<lambda>_. onFst (ctxErr E)))"

section \<open>Assembly\<close>

text \<open>\<open>io.Copy(writer, io.LimitReader(src, c.Size+1))\<close>: what reaches the file and the hash.\<close>

definition copy_chunk :: "env \<Rightarrow> path \<Rightarrow> path \<Rightarrow> chunk \<Rightarrow> bytes io" where
  "copy_chunk E state t c =
     bindM (ctxErr E) (\<lambda>_.
     bindM (openRead E (CachePath state c)) (\<lambda>(b, e).
     (let data = take (nat (cSize c + 1)) b in
      bindM (fWrite E t data) (\<lambda>_.
      bindM (liftR (if int (length b) \<ge> cSize c + 1 then Inr () else (case e of None \<Rightarrow> Inr () | Some err \<Rightarrow> Inl err))) (\<lambda>_.
      bindM (guardM (\<not> int (length data) \<noteq> cSize c) (Msg ''cached chunk size changed during assembly'')) (\<lambda>_.
      ret data))))))"

fun copy_chunks :: "env \<Rightarrow> path \<Rightarrow> path \<Rightarrow> chunk list \<Rightarrow> bytes \<Rightarrow> bytes io" where
  "copy_chunks E state t [] hashed = ret hashed"
| "copy_chunks E state t (c # cs) hashed = bindM (copy_chunk E state t c) (\<lambda>b. copy_chunks E state t cs (hashed @ b))"

definition assemble_body :: "env \<Rightarrow> path \<Rightarrow> manifest \<Rightarrow> path \<Rightarrow> path \<Rightarrow> unit io" where
  "assemble_body E state m out t =
     bindM (copy_chunks E state t (mChunks m) []) (\<lambda>hashed.
     bindM (guardM (\<not> (int (length hashed) \<noteq> mArtifactSize m \<or> Hash hashed \<noteq> mArtifactSHA256 m))
             (Msg ''assembled artifact integrity failure'')) (\<lambda>_.
     bindM (fSync E t) (\<lambda>_.
     bindM (fClose E t) (\<lambda>_.
     bindM (osRename E t out) (\<lambda>_.
     SyncDir E (butlast out))))))"

definition assemble :: "env \<Rightarrow> path \<Rightarrow> manifest \<Rightarrow> path \<Rightarrow> unit io" where
  "assemble E state m out =
     bindM (EnsureDir E (butlast out)) (\<lambda>_.
     bindM (osCreateTemp E (butlast out) ''.tmp-archive-'') (\<lambda>t.
     deferM (osRemove E t) (assemble_body E state m out t)))"

section \<open>The image load\<close>

definition loadArgs :: "path \<Rightarrow> string list" where
  "loadArgs out = [''image'', ''load'', ''--input'', pathString out]"

definition docker_load ::
  "'x agent_prims_scheme \<Rightarrow> env \<Rightarrow> agent_options \<Rightarrow> manifest \<Rightarrow> string \<Rightarrow> agent_state \<Rightarrow> agent_state io" where
  "docker_load P E o' m dg s =
     (if \<not> oDockerLoad o' then ret (s\<lparr>asPhase := ''staged''\<rparr>)
      else bindM (guardM (\<not> (mKind m \<noteq> ''docker-archive'' \<or> mImageIDs m = []))
                   (Msg ''docker-load requires docker-archive and signed expected image IDs'')) (\<lambda>_.
        if asLoadedManifestSHA256 s \<noteq> dg then
          (let s1 = s\<lparr>asLoadedManifestSHA256 := [], asPhase := ''loading''\<rparr> in
           bindM (writeState P E (oStateDir o') s1) (\<lambda>_.
           bindM (dockerRun E (loadArgs (stagedPath o' m))) (\<lambda>(report, ok).
           bindM (guardM ok (Wrap ''local docker load failed; archive retained'' (Msg ''exit status''))) (\<lambda>_.
           bindM (verifyLoadedConfigIdentity P E report (mImageIDs m)) (\<lambda>_.
           ret (s1\<lparr>asLoadedManifestSHA256 := dg, asPhase := ''loaded''\<rparr>))))))
        else ret (s\<lparr>asPhase := ''loaded''\<rparr>)))"

section \<open>The run\<close>

definition sync_manifest ::
  "'x agent_prims_scheme \<Rightarrow> env \<Rightarrow> nat \<Rightarrow> agent_options \<Rightarrow> (manifest \<times> string \<times> agent_state) ag" where
  "sync_manifest P E fuel o' =
     bindM (onFst (LockState E (oStateDir o'))) (\<lambda>_.
     bindM (onFst (CleanTemps E (oStateDir o'))) (\<lambda>_.
     bindM (onFst (ReadKey E (oPublicKey o') PublicKeySize)) (\<lambda>pub.
     bindM (onFst (readState P E (oStateDir o'))) (\<lambda>old.
     bindM (if oOffline o' then onFst (load_offline E o' old) else load_online P E fuel o' pub old) (\<lambda>eu.
     accept_manifest P E o' pub old eu)))))"

definition sync_fetch ::
  "'x agent_prims_scheme \<Rightarrow> env \<Rightarrow> nat \<Rightarrow> agent_options \<Rightarrow> manifest \<Rightarrow> agent_state \<Rightarrow> bool ag" where
  "sync_fetch P E fuel o' m s =
     bindM (plan_chunks E o' (Unique m) [] 0) (\<lambda>(missing, missingBytes).
     bindM (event o' ''plan'') (\<lambda>_.
     bindM (guardM (\<not> (oOffline o' \<and> length missing > 0)) (Msg ''offline: chunks missing or corrupt'')) (\<lambda>_.
     bindM (onFst (check_space E o' m missingBytes)) (\<lambda>archiveValid.
     bindM (onFst (writeState P E (oStateDir o') (s\<lparr>asPhase := ''fetching''\<rparr>))) (\<lambda>_.
     bindM (fetch_missing P E fuel o' missing) (\<lambda>_. ret archiveValid))))))"

definition sync_install ::
  "'x agent_prims_scheme \<Rightarrow> env \<Rightarrow> agent_options \<Rightarrow> manifest \<Rightarrow> string \<Rightarrow> agent_state \<Rightarrow> bool \<Rightarrow> agent_state io" where
  "sync_install P E o' m dg s archiveValid =
     bindM (writeState P E (oStateDir o') (s\<lparr>asPhase := ''assembling''\<rparr>)) (\<lambda>_.
     bindM (if \<not> archiveValid then assemble E (oStateDir o') m (stagedPath o' m) else ret ()) (\<lambda>_.
     bindM (docker_load P E o' m dg (s\<lparr>asPhase := ''assembling''\<rparr>)) (\<lambda>s'.
     bindM (writeState P E (oStateDir o') s') (\<lambda>_. ret s'))))"

definition sync_main :: "'x agent_prims_scheme \<Rightarrow> env \<Rightarrow> nat \<Rightarrow> agent_options \<Rightarrow> unit ag" where
  "sync_main P E fuel o' =
     bindM (sync_checks P E o') (\<lambda>_.
     bindM (sync_manifest P E fuel o') (\<lambda>(m, dg, s).
     bindM (sync_fetch P E fuel o' m s) (\<lambda>archiveValid.
     bindM (onFst (sync_install P E o' m dg s archiveValid)) (\<lambda>s'.
     bindM (summ (\<lambda>u. u\<lparr>suPhase := asPhase s'\<rparr>)) (\<lambda>_. event o' ''release_ready'')))))"

text \<open>The deferred function: the counters become the summary, telemetry is updated, and after a
  success the receipt is queued and flushed.\<close>

definition finish_summary :: "int \<Rightarrow> vars \<Rightarrow> vars" where
  "finish_summary elapsed v = (let p = vProg v in v\<lparr>vSum := (vSum v)\<lparr>suSeconds := elapsed, suChunkBodyBytes := pWire p,
     suMetadataBodyBytes := pMetadata p, suUsefulEncodedBytes := pUseful p, suRetryOverheadBytes := pWire p - pUseful p,
     suChunkRequests := pRequests p, suMetadataRequests := pMetaRequests p, suRetries := pRetries p,
     suIntegrityFailures := pIntegrity p, suDownloadedChunks := pCommitted p, suDownloadedRawBytes := pRaw p\<rparr>\<rparr>)"

definition finish_telemetry :: "bool \<Rightarrow> int \<Rightarrow> int \<Rightarrow> summary \<Rightarrow> telemetry \<Rightarrow> telemetry" where
  "finish_telemetry failed elapsed now s t =
     (let t' = t\<lparr>tActive := 0, tLastDuration := elapsed, tLastDownloadBytes := suUsefulEncodedBytes s,
                 tLastVerifiedChunks := suDownloadedChunks s, tLastReusedChunks := suReusedChunks s\<rparr> in
      if failed then t'\<lparr>tSyncFailure := tSyncFailure t' + 1, tState := clientFailed\<rparr>
      else t'\<lparr>tSyncSuccess := tSyncSuccess t' + 1, tVerifiedChunks := tVerifiedChunks t' + suDownloadedChunks s,
              tReusedChunks := tReusedChunks t' + suReusedChunks s, tLastSuccess := now, tState := clientLoaded\<rparr>)"

definition sync_finish :: "'x agent_prims_scheme \<Rightarrow> env \<Rightarrow> agent_options \<Rightarrow> int \<Rightarrow> unit result \<Rightarrow> unit ag" where
  "sync_finish P E o' start r =
     bindM (onFst (timeNow E)) (\<lambda>now.
     bindM (modS (finish_summary (now - start))) (\<lambda>_.
     bindM (onFst (timeNow E)) (\<lambda>now'.
     bindM (modS (\<lambda>v. v\<lparr>vTel := map_option (finish_telemetry (\<not> r = Inr ()) (now' - start) now' (vSum v)) (vTel v)\<rparr>)) (\<lambda>_.
     bindM getS (\<lambda>v. case r of
         Inl _ \<Rightarrow> event o' ''failed''
       | Inr _ \<Rightarrow> if oReceiptURL o' \<noteq> [] \<and> \<not> oOffline o'
                   then bindM (onFst (attemptM (queueReceipt P E o' (vSum v)))) (\<lambda>q. case q of
                          Inl _ \<Rightarrow> event o' ''receipt_queue_failed''
                        | Inr _ \<Rightarrow> flush_and_note P E o')
                   else ret ())))))"

text \<open>\<open>WriteSummary\<close>: the summary file and the node-exporter text file.\<close>

definition gauge :: "string \<Rightarrow> string \<Rightarrow> string" where
  "gauge name v = ''# TYPE '' @ name @ '' gauge'' @ [CHR 0x0A] @ name @ '' '' @ v @ [CHR 0x0A]"

definition WriteSummary :: "'x agent_prims_scheme \<Rightarrow> env \<Rightarrow> path \<Rightarrow> summary \<Rightarrow> unit io" where
  "WriteSummary P E state s =
     bindM (AtomicWrite E (state @ [''summary.json'']) (jsonSummary P s) 384) (\<lambda>_.
     bindM (timeNow E) (\<lambda>now.
     AtomicWrite E (state @ [''agent.prom'']) (bytes_of (
         gauge ''edge_update_last_chunk_body_bytes'' (showInt (suChunkBodyBytes s))
       @ gauge ''edge_update_last_retry_overhead_bytes'' (showInt (suRetryOverheadBytes s))
       @ gauge ''edge_update_last_reused_chunks'' (showInt (suReusedChunks s))
       @ gauge ''edge_update_last_elapsed_seconds'' (formatSeconds P (suSeconds s))
       @ gauge ''edge_update_last_success_timestamp_seconds'' (showInt (now div 1000000000))
       @ gauge ''edge_update_accepted_sequence'' (decimal (unat (suSequence s))))) 420))"

definition Sync :: "'x agent_prims_scheme \<Rightarrow> env \<Rightarrow> nat \<Rightarrow> agent_options \<Rightarrow> unit ag" where
  "Sync P E fuel o' =
     bindM (modS (\<lambda>v. v\<lparr>vSum := zero_summary\<rparr>)) (\<lambda>_.
     bindM (sync_prologue P E o') (\<lambda>_.
     bindM (onFst (timeNow E)) (\<lambda>start.
     bindM (modS (\<lambda>v. v\<lparr>vProg := zero_progress, vEnvelope := [],
               vTel := map_option (\<lambda>t. t\<lparr>tActive := 1, tState := clientDownloading\<rparr>) (vTel v)\<rparr>)) (\<lambda>_.
     (\<lambda>st. case sync_main P E fuel o' st of (r, st') \<Rightarrow> (r, snd (sync_finish P E o' start r st')))))))"

end
