(* ===== verification/SyncEffects.thy ===== *)
theory SyncEffects
  imports Sync
begin

text \<open>
  What one run of the agent may do to the machine, operation by operation: the interface
  \<open>file_order\<close> gives the composition rules for any reflexive and transitive relation on worlds that
  looks at the file tree and the daemon's log only, and the relations below interpret it.
\<close>

section \<open>The chunks a pool works on\<close>

definition pool_in :: "chunk set \<Rightarrow> pool \<Rightarrow> bool" where
  "pool_in Q pl \<longleftrightarrow> set (plQueue pl) \<subseteq> Q \<and> (\<forall>x \<in> set (plWorkers pl). \<forall>c a d. x = WBusy c a d \<longrightarrow> c \<in> Q)"

lemma pool_in_set_worker:
  "pool_in Q pl \<Longrightarrow> (\<And>c a d. x = WBusy c a d \<Longrightarrow> c \<in> Q) \<Longrightarrow> pool_in Q (set_worker i x pl)"
  unfolding pool_in_def set_worker_def by (auto dest!: set_update_subset_insert [THEN subsetD])

lemma pool_in_upd [simp]:
  "pool_in Q (pl\<lparr>plErr := e, plCancel := c\<rparr>) = pool_in Q pl" "pool_in Q pl \<Longrightarrow> pool_in Q (pl\<lparr>plQueue := []\<rparr>)"
  by (simp_all add: pool_in_def)

lemma running_iff: "i \<in> set (running pl) \<longleftrightarrow> i < length (plWorkers pl) \<and> plWorkers pl ! i \<noteq> WExit"
  by (auto simp: running_def)

lemma pick_running: "onFst (pick E is) st = (Inr i, st') \<Longrightarrow> is \<noteq> [] \<Longrightarrow> i \<in> set is"
  by (auto simp: onFst_def pick_def)

lemma pool_in_step:
  assumes "pool_step P E o' pl i st = (Inr pl', st')" and "pool_in Q pl" and "i \<in> set (running pl)"
  shows "pool_in Q pl'"
proof (cases "plWorkers pl ! i")
  case WIdle
  then show ?thesis
    using assms by (auto simp: pool_step_def bindM_run pool_in_def set_worker_def dest!: set_update_subset_insert [THEN subsetD]
        split: list.splits if_splits)
next
  case (WBusy c a d)
  then have c: "c \<in> Q" using assms(2,3) unfolding pool_in_def running_iff by (metis nth_mem)
  from WBusy assms(1) obtain r where "pl' = (case r of
             IterDone \<Rightarrow> set_worker i WIdle pl
           | IterFail e \<Rightarrow> worker_fail i e pl
           | IterAgain d \<Rightarrow> set_worker i (WBusy c (a + 1) d) pl)"
    by (auto simp: pool_step_def bindM_run)
  with c assms(2) show ?thesis
    by (cases r) (auto simp: worker_fail_def intro!: pool_in_set_worker)
qed (use assms in \<open>simp add: pool_step_def\<close>)

section \<open>Relations on the file tree\<close>

definition still :: "world \<Rightarrow> world \<Rightarrow> bool" where
  "still w w' \<longleftrightarrow> lookup w' = lookup w \<and> docker_log w' = docker_log w"

interpretation stillness: effect_order still
  by unfold_locales (simp_all add: still_def)

lemma still_prims:
  "steps still (osStat E p)" "steps still (osReadFile E p)" "steps still (fSync E p)" "steps still (fClose E p)"
  "steps still (osReadDir E p)" "steps still (httpDo E rq)" "steps still (sleepFor E d)" "steps still (ctxErr E)"
  "steps still (timeNow E)" "steps still (jittered E d)" "steps still (AvailableBytes E p)" "steps still (pick E is)"
  "steps still (stop_sending E pl)" "steps still (readDirEntries E p)" "steps still (flock E)"
  by (auto simp: steps_def prim_defs AvailableBytes_def pick_def stop_sending_def jittered_def readDirEntries_def flock_def
      Let_def still_def fun_eq_iff split: option.splits node.splits)

lemma still_openRead: "steps still (openRead E p)"
  by (auto simp: steps_def openRead_def osStat_def prim_def bindM_def Let_def sm_run still_def fun_eq_iff
      split: option.splits node.splits)

lemma still_SyncDir: "steps still (SyncDir E p)"
  unfolding SyncDir_def by (intro stillness.steps_rules still_prims)

lemma still_TLSConfig: "steps still (TLSConfig P E c)"
  unfolding TLSConfig_def loadCA_def loadPair_def mapErr_def by (intro stillness.steps_rules still_prims)

locale file_order = effect_order R for R :: "world \<Rightarrow> world \<Rightarrow> bool" +
  assumes R_tree: "still w w' \<Longrightarrow> R w w'"
begin

lemma steps_still: "steps still m \<Longrightarrow> steps R m"
  unfolding steps_def by (blast intro: R_tree)

lemmas still_rules = still_prims [THEN steps_still] still_SyncDir [THEN steps_still]
  still_openRead [THEN steps_still] still_TLSConfig [THEN steps_still]

lemma on_fst_effect: "effect_order (on_fst R)"
  by (rule on_fst_order) (unfold_locales)

end

sublocale file_order \<subseteq> ag: effect_order "on_fst R"
  by (rule on_fst_effect)

context file_order
begin

lemma steps_modS: "steps (on_fst R) (modS f)"
  by (simp add: steps_def on_fst_def modS_def R_refl)

lemma steps_getS: "steps (on_fst R) getS"
  by (simp add: steps_def on_fst_def getS_def R_refl)

lemma steps_vars:
  "steps (on_fst R) (event o' k)" "steps (on_fst R) (prog f)" "steps (on_fst R) (tel g)" "steps (on_fst R) (summ h)"
  by (simp_all add: event_def prog_def tel_def summ_def steps_modS)

lemma steps_request: "steps R (request P E uri limit etag dev)"
  unfolding request_def clientDo_def by (intro steps_rules still_rules)

lemma steps_waits: "steps R (fetchCtxErr E c)" "steps R (sleepContext E c d)"
  unfolding fetchCtxErr_def sleepContext_def by (intro steps_rules still_rules)+

lemma steps_iter:
  assumes "steps (on_fst R) fn"
  shows "steps (on_fst R) (retry_iter E o' c lab fn a d)"
  unfolding retry_iter_def
  by (intro ag.steps_rules steps_onFst steps_vars steps_rules steps_waits still_rules assms)

lemma steps_retry_loop:
  assumes "steps (on_fst R) fn"
  shows "steps (on_fst R) (retry_loop E o' lab fn fuel a d)"
proof (induction fuel arbitrary: a d)
  case 0
  then show ?case by (simp add: ag.steps_throw)
next
  case (Suc fuel)
  show ?case
    unfolding retry_loop.simps
  proof (rule ag.steps_bindM [OF steps_iter [OF assms]])
    fix x show "steps (on_fst R) (case x of IterDone \<Rightarrow> ret () | IterFail e \<Rightarrow> throw e
        | IterAgain d \<Rightarrow> retry_loop E o' lab fn fuel (a + 1) d)"
      by (cases x) (auto intro: ag.steps_ret ag.steps_throw Suc.IH)
  qed
qed

lemma steps_manifest_attempt: "steps (on_fst R) (manifest_attempt P E o' cached)"
  unfolding manifest_attempt_def
  by (intro ag.steps_rules steps_onFst steps_vars steps_modS steps_request)

lemma steps_readState: "steps R (readState P E d)"
  unfolding readState_def by (intro steps_rules still_rules)

lemma steps_ReadKey: "steps R (ReadKey E p n)"
  unfolding ReadKey_def by (intro steps_rules still_rules)

lemma steps_FileHash: "steps R (FileHash E p)"
  unfolding FileHash_def by (intro steps_rules still_rules)

lemma steps_load_online: "steps (on_fst R) (load_online P E fuel o' pub old)"
  unfolding load_online_def cached_manifest_def retry_def
  by (intro ag.steps_rules steps_onFst steps_rules still_rules steps_retry_loop steps_manifest_attempt steps_getS)

lemma steps_load_offline: "steps R (load_offline E o' old)"
  unfolding load_offline_def by (intro steps_rules still_rules)

lemma steps_plan: "steps (on_fst R) (plan_chunks E o' cs missing b)"
  by (induction cs arbitrary: missing b)
     (auto simp: ValidChunk_def intro!: ag.steps_rules steps_onFst steps_rules still_rules steps_FileHash steps_vars)

lemma steps_check_space: "steps R (check_space E o' m n)"
  unfolding check_space_def Let_def by (intro steps_rules steps_FileHash still_rules)

lemma steps_pool_step:
  assumes "\<And>c. c \<in> Q \<Longrightarrow> steps (on_fst R) (fetch_attempt P E o' c)"
    and "\<And>c a d. plWorkers pl ! i = WBusy c a d \<Longrightarrow> c \<in> Q"
  shows "steps (on_fst R) (pool_step P E o' pl i)"
proof (cases "plWorkers pl ! i")
  case WIdle
  then show ?thesis
    by (auto simp: pool_step_def split: list.split intro!: ag.steps_rules steps_onFst still_rules)
next
  case (WBusy c a d)
  with assms show ?thesis by (auto simp: pool_step_def intro!: ag.steps_rules steps_iter)
qed (simp add: pool_step_def ag.steps_ret)

lemma steps_pool_run:
  assumes fetch: "\<And>c. c \<in> Q \<Longrightarrow> steps (on_fst R) (fetch_attempt P E o' c)"
  shows "pool_in Q pl \<Longrightarrow> steps (on_fst R) (pool_run P E o' fuel pl)"
proof (induction fuel arbitrary: pl)
  case 0
  then show ?case by (simp add: ag.steps_ret ag.steps_throw)
next
  case (Suc fuel)
  have "steps (on_fst R) (bindM (pool_step P E o' pl i) (pool_run P E o' fuel))" if "i \<in> set (running pl)" for i
  proof (rule ag.steps_bindM_res)
    have "plWorkers pl ! i \<in> set (plWorkers pl)" using that by (auto simp: running_def)
    then show "steps (on_fst R) (pool_step P E o' pl i)"
      using Suc.prems by (intro steps_pool_step [where Q = Q] fetch) (auto simp: pool_in_def)
    fix pl' st st' assume "pool_step P E o' pl i st = (Inr pl', st')"
    then show "steps (on_fst R) (pool_run P E o' fuel pl')"
      by (rule Suc.IH [OF pool_in_step [OF _ Suc.prems that]])
  qed
  note step = this
  have "steps (on_fst R) (bindM (onFst (pick E (running pl))) (\<lambda>i. bindM (pool_step P E o' pl i) (pool_run P E o' fuel)))"
    if "running pl \<noteq> []"
    by (rule ag.steps_bindM_res [OF steps_onFst [OF still_rules(12)]], rule step, erule pick_running) (rule that)
  then show ?case by (simp add: ag.steps_ret)
qed

lemma steps_fetch_missing:
  assumes "\<And>c. c \<in> set missing \<Longrightarrow> steps (on_fst R) (fetch_attempt P E o' c)"
  shows "steps (on_fst R) (fetch_missing P E fuel o' missing)"
  unfolding fetch_missing_def
  by (intro ag.steps_rules steps_onFst still_rules steps_pool_run [OF assms]) (auto simp: pool_in_def start_pool_def)

lemma steps_prologue: "steps (on_fst R) (sync_prologue P E o')"
  unfolding sync_prologue_def by (intro ag.steps_rules steps_onFst still_rules)

end

interpretation fo: file_order "only_at Q" for Q
  by unfold_locales (simp add: only_at_def still_def)

section \<open>The files that matter\<close>

definition cachePath :: "path \<Rightarrow> string \<Rightarrow> path" where
  "cachePath dir h = dir @ [''cache'', take 2 h, h]"

definition archivePath :: "path \<Rightarrow> string \<Rightarrow> path" where
  "archivePath dir h = dir @ [''staged'', h @ ''.tar'']"

text \<open>State file, cached chunks and staged archives of a state directory.\<close>

definition vital :: "path \<Rightarrow> path \<Rightarrow> bool" where
  "vital dir q \<longleftrightarrow> q = statePath dir \<or> (\<exists>h. hexDigest h \<and> (q = cachePath dir h \<or> q = archivePath dir h))"

lemmas vital_paths = statePath_def cachePath_def archivePath_def

lemma CachePath_eq: "CachePath dir c = cachePath dir (cSHA256 c)"
  by (simp add: CachePath_def cachePath_def)

lemma stagedPath_eq: "stagedPath o' m = archivePath (oStateDir o') (mArtifactSHA256 m)"
  by (simp add: stagedPath_def archivePath_def)

lemma vital_not_temp: "vital dir q \<Longrightarrow> \<not> is_temp q"
  using hexDigest_not_temp [of _ "[]"] hexDigest_not_temp [of _ "''.tar''"]
  by (auto simp: vital_def vital_paths is_temp_def isTempName_def)

lemma vital_not_empty: "vital dir q \<Longrightarrow> q \<noteq> []"
  by (auto simp: vital_def vital_paths)

lemma vital_below: "vital dir q \<Longrightarrow> \<exists>n xs. q = dir @ n # xs \<and> n \<in> {''state.json'', ''cache'', ''staged''}"
  by (auto simp: vital_def vital_paths)

lemma vital_not_prefix_dir: "vital dir q \<Longrightarrow> \<not> prefix q dir"
  by (auto simp: vital_def vital_paths)

lemma steps_AtomicWrite:
  assumes "p \<noteq> []" and "\<not> is_temp p" and "\<And>q. q = p \<or> is_temp q \<or> strict_prefix q p \<Longrightarrow> Q q"
  shows "steps (only_at Q) (AtomicWrite E p b mode)"
proof (rule stepsI)
  fix w r w' assume run: "AtomicWrite E p b mode w = (r, w')"
  show "only_at Q w w'"
    unfolding only_at_def using AtomicWrite_frame [OF run assms(1,2)] assms(3) by blast
qed

text \<open>A file of another name directly or further below the state directory: writing it changes no
  vital file.\<close>

lemma other_file_apart:
  assumes "n \<notin> {''state.json'', ''cache'', ''staged''}" and "vital dir q"
  shows "q \<noteq> dir @ n # xs" and "\<not> strict_prefix q (dir @ n # xs)"
  using vital_below [OF assms(2)] assms(1) by (auto simp: strict_prefix_def prefix_def)

lemma steps_write_other:
  assumes "n \<notin> {''state.json'', ''cache'', ''staged''}" and "\<not> is_temp (dir @ n # xs)"
  shows "steps (only_at (\<lambda>q. \<not> vital dir q)) (AtomicWrite E (dir @ n # xs) b mode)"
  by (rule steps_AtomicWrite) (use assms other_file_apart [OF assms(1)] vital_not_temp in auto)

lemma steps_EnsureDir_vital: "steps (only_at (\<lambda>q. \<not> vital dir q)) (EnsureDir E dir)"
proof (rule stepsI)
  fix w r w' assume "EnsureDir E dir w = (r, w')"
  from stepsD [OF steps_EnsureDir this] show "only_at (\<lambda>q. \<not> vital dir q) w w'"
    unfolding only_at_def mk_dirs_def using vital_not_prefix_dir by blast
qed

lemma steps_LockState: "steps (only_at (\<lambda>q. \<not> vital dir q)) (LockState E dir)"
proof -
  have "steps (only_at (\<lambda>q. \<not> vital dir q)) (osOpenCreate E (dir @ [''agent.lock'']) 384)"
    using other_file_apart(1) [of "''agent.lock''" dir _ "[]"]
    by (auto simp: steps_def osOpenCreate_def prim_def Let_def only_at_def split: option.splits node.splits)
  moreover have "steps (only_at (\<lambda>q. \<not> vital dir q)) (flock E)"
    by (auto simp: steps_def flock_def Let_def only_at_def)
  ultimately show ?thesis
    unfolding LockState_def by (intro frame.steps_rules steps_EnsureDir_vital)
qed

lemma steps_CleanTemps_vital: "steps (only_at (\<lambda>q. \<not> vital dir q)) (CleanTemps E root)"
  by (rule only_at_mono [OF steps_CleanTemps]) (use vital_not_temp in blast)

lemma not_in_outbox: "vital (oStateDir o') q \<Longrightarrow> \<not> in_outbox o' q"
  by (auto simp: vital_def vital_paths in_outbox_def outbox_def butlast_append)

lemma steps_FlushReceipts_vital: "steps (only_at (\<lambda>q. \<not> vital (oStateDir o') q)) (FlushReceipts P E o')"
  by (rule only_at_mono [OF steps_FlushReceipts_frame]) (use not_in_outbox in blast)

lemma steps_queueReceipt_vital: "steps (only_at (\<lambda>q. \<not> vital (oStateDir o') q)) (queueReceipt P E o' s)"
proof -
  have "\<not> is_temp (oStateDir o' @ ''outbox'' # [digest P r @ ''.json''])" for r
    using hexDigest_not_temp [of "digest P r"] by (simp add: is_temp_def digest_def)
  then show ?thesis
    unfolding queueReceipt_def Let_def outbox_def
    by (intro frame.steps_rules steps_quiet) (simp add: steps_write_other)
qed

definition state_dir_ok :: "agent_options \<Rightarrow> bool" where
  "state_dir_ok o' \<longleftrightarrow> \<not> in_loadcheck (oStateDir o')"

lemma vital_not_loadcheck:
  assumes "\<not> in_loadcheck dir" and "vital dir q"
  shows "\<not> in_loadcheck q"
proof
  assume "in_loadcheck q"
  then obtain s where s: "prefix [''tmp'', ''edgelab-loadcheck-'' @ s] q" by (auto simp: in_loadcheck_def)
  obtain n xs where q: "q = dir @ n # xs" "n \<in> {''state.json'', ''cache'', ''staged''}" using vital_below [OF assms(2)] by blast
  show False
  proof (cases dir)
    case Nil
    then show ?thesis using s q by auto
  next
    case (Cons a as)
    show ?thesis
    proof (cases as)
      case Nil
      then show ?thesis using Cons s q by auto
    next
      case (Cons b bs)
      then show ?thesis using \<open>dir = a # as\<close> s q assms(1) by (auto simp: in_loadcheck_def)
    qed
  qed
qed

lemma steps_verifyLoaded_vital:
  "state_dir_ok o' \<Longrightarrow> steps (only_at (\<lambda>q. \<not> vital (oStateDir o') q)) (verifyLoadedConfigIdentity P E report ids)"
  by (rule only_at_mono [OF steps_verifyLoaded]) (use vital_not_loadcheck in \<open>auto simp: state_dir_ok_def\<close>)

section \<open>What a verified manifest guarantees without bounds\<close>

lemma verify_chunks_fields: "verify_chunks mx sz cs seen n = Inr k \<Longrightarrow> list_all (chunk_fields_ok mx) cs"
  by (induction cs arbitrary: seen n) (auto simp: Let_def split: if_splits option.splits)

lemma Verify_digests:
  assumes "Verify P data pub mx = Inr (m, dg)"
  shows "hexDigest dg" "hexDigest (mArtifactSHA256 m)" "\<And>c. c \<in> set (mChunks m) \<Longrightarrow> hexDigest (cSHA256 c)"
    "\<And>c. c \<in> set (mChunks m) \<Longrightarrow> 0 < cSize c" "0 < mArtifactSize m"
  using assms
  by (auto simp: Verify_def check_manifest_def bindR_Inr_iff chunk_fields_ok_def list_all_iff not_le dest!: verify_chunks_fields)

lemma manifestPath_hex: "hexDigest d \<Longrightarrow> manifestPath dir d = dir @ ''manifests'' # [d @ ''.json'']"
proof -
  assume h: "hexDigest d"
  then obtain a b t where d: "d = a # b # t" "is_hex a" using hexDigest_take2 by blast
  have "CHR ''/'' \<notin> set (d @ ''.json'')" using hexDigest_no_slash [OF h] by simp
  from splitOn_no_sep [OF this] have "manifestPath dir d = cleanOnto (dir @ [''manifests'']) [d @ ''.json'']"
    by (simp only: manifestPath_def Join_def)
  moreover have "a \<noteq> CHR ''.''" using d by (auto simp: is_hex_def)
  ultimately show ?thesis using d by simp
qed

section \<open>Effects of the operations that write\<close>

lemma steps_write_manifest:
  assumes "hexDigest d"
  shows "steps (only_at (\<lambda>q. \<not> vital dir q)) (AtomicWrite E (manifestPath dir d) b mode)"
  unfolding manifestPath_hex [OF assms]
  by (rule steps_write_other) (use hexDigest_not_temp [OF assms] in \<open>simp_all add: is_temp_def\<close>)

lemma vital_antichain: "vital dir p \<Longrightarrow> vital dir q \<Longrightarrow> \<not> strict_prefix q p"
  by (auto simp: vital_def vital_paths strict_prefix_def)

text \<open>Writing one vital file leaves the others alone.\<close>

lemma steps_write_vital:
  assumes "vital dir p"
  shows "steps (only_at (\<lambda>q. vital dir q \<longrightarrow> q = p)) (AtomicWrite E p b mode)"
  by (rule steps_AtomicWrite) (use assms vital_not_empty vital_not_temp vital_antichain in blast)+

lemma vital_intros:
  "vital dir (statePath dir)" "hexDigest h \<Longrightarrow> vital dir (cachePath dir h)" "hexDigest h \<Longrightarrow> vital dir (archivePath dir h)"
  by (auto simp: vital_def)

lemma vital_distinct [simp]:
  "statePath dir \<noteq> cachePath dir h" "statePath dir \<noteq> archivePath dir h" "cachePath dir h \<noteq> archivePath dir h'"
  "cachePath dir h \<noteq> statePath dir" "archivePath dir h \<noteq> statePath dir" "archivePath dir h' \<noteq> cachePath dir h"
  "archivePath dir h = archivePath dir h' \<longleftrightarrow> h = h'"
  by (auto simp: vital_paths)

lemma cachePath_inj [simp]: "cachePath dir h = cachePath dir h' \<longleftrightarrow> h = h'"
  by (auto simp: vital_paths)

lemma steps_writeState: "steps (only_at (\<lambda>q. vital dir q \<longrightarrow> q = statePath dir)) (writeState P E dir s)"
  unfolding writeState_def by (intro frame.steps_rules steps_quiet steps_write_vital vital_intros)

lemma steps_fetch_attempt:
  assumes "hexDigest (cSHA256 c)"
  shows "steps (on_fst (only_at (\<lambda>q. vital (oStateDir o') q \<longrightarrow> q = cachePath (oStateDir o') (cSHA256 c)))) (fetch_attempt P E o' c)"
  unfolding fetch_attempt_def CachePath_eq
  by (intro fo.ag.steps_rules steps_onFst fo.steps_vars fo.steps_request frame.steps_rules steps_write_vital vital_intros assms)

text \<open>The archive is built in a temporary file and renamed into place.\<close>

lemma steps_copy_chunks: "t \<noteq> [] \<Longrightarrow> Q t \<Longrightarrow> steps (only_at Q) (copy_chunks E state t cs hashed)"
  by (induction cs arbitrary: hashed)
     (auto simp: copy_chunk_def Let_def intro!: frame.steps_rules steps_quiet fo.still_rules steps_touch)

lemma steps_assemble_body:
  assumes "t \<noteq> []" "out \<noteq> []"
  shows "steps (only_at (\<lambda>q. q = t \<or> q = out)) (assemble_body E state m out t)"
  unfolding assemble_body_def
  by (intro frame.steps_rules steps_quiet steps_SyncDir steps_copy_chunks steps_rename) (use assms in auto)

lemma steps_assemble:
  assumes out: "vital dir out"
  shows "steps (only_at (\<lambda>q. vital dir q \<longrightarrow> q = out)) (assemble E state m out)"
proof -
  have ensure: "steps (only_at (\<lambda>q. vital dir q \<longrightarrow> q = out)) (EnsureDir E (butlast out))"
  proof (rule stepsI)
    fix w r w' assume "EnsureDir E (butlast out) w = (r, w')"
    from stepsD [OF steps_EnsureDir this] have mk: "mk_dirs (butlast out) w w'" .
    have "\<not> prefix q (butlast out)" if "vital dir q" for q
    proof
      assume "prefix q (butlast out)"
      moreover have "strict_prefix (butlast out) out"
        using vital_not_empty [OF out] by (cases out rule: rev_cases) (simp_all add: strict_prefix_def)
      ultimately show False using vital_antichain [OF out that] by (metis prefix_order.le_less_trans)
    qed
    with mk show "only_at (\<lambda>q. vital dir q \<longrightarrow> q = out) w w'" by (auto simp: only_at_def mk_dirs_def)
  qed
  have rest: "steps (only_at (\<lambda>q. vital dir q \<longrightarrow> q = out)) (deferM (osRemove E t) (assemble_body E state m out t))"
    if "is_temp t" for t
  proof (intro frame.steps_rules)
    have t: "t \<noteq> []" "\<not> vital dir t" using that vital_not_temp by (auto simp: is_temp_def)
    then show "steps (only_at (\<lambda>q. vital dir q \<longrightarrow> q = out)) (osRemove E t)" by (intro steps_touch) auto
    show "steps (only_at (\<lambda>q. vital dir q \<longrightarrow> q = out)) (assemble_body E state m out t)"
      by (rule only_at_mono [OF steps_assemble_body]) (use t vital_not_empty [OF out] in auto)
  qed
  have create: "steps (only_at (\<lambda>q. vital dir q \<longrightarrow> q = out)) (osCreateTemp E d ''.tmp-archive-'')" for d
    using vital_not_temp [of dir]
    by (fastforce simp: steps_def osCreateTemp_def prim_def Let_def only_at_def is_temp_def isTempName_def)
  show ?thesis
    unfolding assemble_def
  proof (intro frame.steps_bindM [OF ensure] frame.steps_bindM_res [OF create] rest)
    fix t w w' assume "osCreateTemp E (butlast out) ''.tmp-archive-'' w = (Inr t, w')"
    then show "is_temp t" by (auto dest!: osCreateTemp_ok(4) simp: is_temp_def isTempName_def)
  qed
qed

lemma steps_docker_load:
  assumes "state_dir_ok o'"
  shows "steps (only_at (\<lambda>q. vital (oStateDir o') q \<longrightarrow> q = statePath (oStateDir o'))) (docker_load P E o' m dg s)"
  unfolding docker_load_def Let_def
  by (intro frame.steps_rules steps_quiet steps_writeState only_at_mono [OF steps_verifyLoaded_vital [OF assms]]) simp

section \<open>The whole run\<close>

lemma accept_manifest_ok:
  assumes "accept_manifest P E o' pub old eu st = (Inr (m, dg, s), st')"
  shows "Verify P (fst eu) pub (oMaxArtifact o') = Inr (m, dg)" "asSequence old \<le> mSequence m"
    "mSequence m = asSequence old \<Longrightarrow> asManifestSHA256 old \<noteq> [] \<Longrightarrow> dg = asManifestSHA256 old"
    "asSequence s = mSequence m" "asManifestSHA256 s = dg" "asArtifact s = stagedPath o' m"
    "asLoadedManifestSHA256 s = asLoadedManifestSHA256 old"
  using assms by (auto simp: accept_manifest_def Let_def bindM_run not_less split: prod.splits)

lemma sync_manifest_ok:
  assumes "sync_manifest P E fuel o' st = (Inr (m, dg, s), st')"
  shows "\<exists>envelope pub. Verify P envelope pub (oMaxArtifact o') = Inr (m, dg)"
  using assms by (auto simp: sync_manifest_def bindM_run dest: accept_manifest_ok(1))

lemma plan_chunks_subset:
  "plan_chunks E o' cs missing b st = (Inr (ms, n), st') \<Longrightarrow> set ms \<subseteq> set missing \<union> set cs"
proof (induction cs arbitrary: missing b st)
  case (Cons c cs)
  from Cons.prems obtain valid st1 where
    "(if valid then bindM (summ (\<lambda>u. u\<lparr>suReusedChunks := suReusedChunks u + 1, suReusedRawBytes := suReusedRawBytes u + cSize c\<rparr>))
         (\<lambda>_. plan_chunks E o' cs missing b) else plan_chunks E o' cs (missing @ [c]) (b + cSize c)) st1 = (Inr (ms, n), st')"
    by (auto simp: bindM_run [of "onFst _"] simp del: bindM_ret)
  then consider st2 where "plan_chunks E o' cs missing b st2 = (Inr (ms, n), st')"
    | "plan_chunks E o' cs (missing @ [c]) (b + cSize c) st1 = (Inr (ms, n), st')"
    by (auto simp: bindM_run split: if_splits)
  then show ?case by cases (use Cons.IH in fastforce)+
qed simp

text \<open>
  The operations of the agent that write, as interfaces: a relation that each of them keeps is kept by
  the phases of a run, and by the whole run. \<open>Sok\<close> are the states the run may record.
\<close>

locale agent_core = file_order R for R +
  fixes Sok :: "agent_state \<Rightarrow> bool" and P :: "'x agent_prims_scheme" and E :: env and o' :: agent_options
  assumes Sok_phase: "Sok s \<Longrightarrow> Sok (s\<lparr>asPhase := ph\<rparr>)"
    and w_lock: "steps R (LockState E (oStateDir o'))"
    and w_clean: "steps R (CleanTemps E (oStateDir o'))"
    and w_flush: "steps R (FlushReceipts P E o')"
    and w_queue: "steps R (queueReceipt P E o' sm)"
    and w_manifest: "hexDigest dg \<Longrightarrow> steps R (AtomicWrite E (manifestPath (oStateDir o') dg) b 384)"
    and w_state: "Sok s \<Longrightarrow> steps R (writeState P E (oStateDir o') s)"
    and w_fetch: "hexDigest (cSHA256 c) \<Longrightarrow> steps (on_fst R) (fetch_attempt P E o' c)"
    and w_assemble: "hexDigest (mArtifactSHA256 m) \<Longrightarrow> steps R (assemble E (oStateDir o') m (stagedPath o' m))"
begin

lemma steps_note: "steps (on_fst R) (flush_and_note P E o')"
  unfolding flush_and_note_def by (intro ag.steps_rules steps_onFst steps_rules w_flush steps_vars)

lemma steps_checks: "steps (on_fst R) (sync_checks P E o')"
  unfolding sync_checks_def by (intro ag.steps_rules steps_note)

lemma steps_load:
  "steps (on_fst R) (if oOffline o' then onFst (load_offline E o' old) else load_online P E fuel o' pub old)"
  by (intro ag.steps_rules steps_onFst steps_load_offline steps_load_online)

lemma steps_sync_fetch:
  assumes "\<And>c. c \<in> set (mChunks m) \<Longrightarrow> hexDigest (cSHA256 c)" and "Sok s"
  shows "steps (on_fst R) (sync_fetch P E fuel o' m s)"
  unfolding sync_fetch_def
proof (rule ag.steps_bindM_res [OF steps_plan])
  fix x st st' assume pl: "plan_chunks E o' (Unique m) [] 0 st = (Inr x, st')"
  obtain missing n where x: "x = (missing, n)" by (cases x)
  have sub: "set missing \<subseteq> set (mChunks m)" using plan_chunks_subset [OF pl [unfolded x]] Unique_subset by fastforce
  have "steps (on_fst R) (fetch_missing P E fuel o' missing)"
    by (rule steps_fetch_missing) (use sub assms w_fetch in blast)
  then show "steps (on_fst R) (case x of (missing, missingBytes) \<Rightarrow>
     bindM (event o' ''plan'') (\<lambda>_.
     bindM (guardM (\<not> (oOffline o' \<and> length missing > 0)) (Msg ''offline: chunks missing or corrupt'')) (\<lambda>_.
     bindM (onFst (check_space E o' m missingBytes)) (\<lambda>archiveValid.
     bindM (onFst (writeState P E (oStateDir o') (s\<lparr>asPhase := ''fetching''\<rparr>))) (\<lambda>_.
     bindM (fetch_missing P E fuel o' missing) (\<lambda>_. ret archiveValid))))))"
    unfolding x prod.case
    by (intro ag.steps_rules steps_onFst steps_vars steps_check_space w_state Sok_phase assms(2))
qed

lemma steps_finish: "steps (on_fst R) (sync_finish P E o' start r)"
  unfolding sync_finish_def
  by (intro ag.steps_rules steps_onFst steps_rules still_rules steps_modS steps_getS steps_vars w_queue steps_note)

end

text \<open>Any state may be recorded.\<close>

locale agent_free = agent_core R Sok P E o' for R Sok P E o' +
  assumes Sok_all: "Sok s"
begin

lemma steps_accept: "steps (on_fst R) (accept_manifest P E o' pub old eu)"
proof -
  have wr: "steps (on_fst R) (onFst (AtomicWrite E (manifestPath (oStateDir o') dg) envelope 384))"
    if "Verify P envelope pub mx = Inr (m, dg)" for envelope mx m dg
    by (intro steps_onFst w_manifest Verify_digests(1) [OF that])
  show ?thesis
    unfolding accept_manifest_def Let_def
    by (intro ag.steps_case_prod ag.steps_bindM_res [OF ag.steps_liftR] ag.steps_rules wr steps_onFst w_state Sok_all steps_vars)
       (simp, erule sym)
qed

lemma steps_sync_manifest: "steps (on_fst R) (sync_manifest P E fuel o')"
  unfolding sync_manifest_def
  by (intro ag.steps_bindM steps_load steps_onFst w_lock w_clean steps_ReadKey steps_readState steps_accept)

end

text \<open>The image load keeps the relation too.\<close>

locale agent_docker = agent_core R Sok P E o' for R Sok P E o' +
  assumes w_docker: "Sok s \<Longrightarrow> steps R (docker_load P E o' m dg s)"
    and docker_Sok: "Sok s \<Longrightarrow> docker_load P E o' m dg s w = (Inr s', w') \<Longrightarrow> Sok s'"
begin

lemma steps_install:
  assumes "hexDigest (mArtifactSHA256 m)" and "Sok s"
  shows "steps R (sync_install P E o' m dg s av)"
  unfolding sync_install_def
  by (intro steps_bindM [OF w_state] steps_bindM_res [OF w_docker] steps_bindM steps_if steps_ret
      w_assemble assms w_state Sok_phase docker_Sok [of "s\<lparr>asPhase := ''assembling''\<rparr>"])

end

locale agent_writers = agent_free R Sok P E o' + agent_docker R Sok P E o' for R Sok P E o'
begin

lemma steps_main: "steps (on_fst R) (sync_main P E fuel o')"
  unfolding sync_main_def
proof (rule ag.steps_bindM [OF steps_checks], rule ag.steps_bindM_res [OF steps_sync_manifest])
  fix x st st' assume mf: "sync_manifest P E fuel o' st = (Inr x, st')"
  obtain m dg s where x: "x = (m, dg, s)" by (cases x)
  obtain envelope pub where v: "Verify P envelope pub (oMaxArtifact o') = Inr (m, dg)"
    using sync_manifest_ok [OF mf [unfolded x]] by blast
  show "steps (on_fst R) (case x of (m, dg, s) \<Rightarrow>
     bindM (sync_fetch P E fuel o' m s) (\<lambda>archiveValid.
     bindM (onFst (sync_install P E o' m dg s archiveValid)) (\<lambda>s'.
     bindM (summ (\<lambda>u. u\<lparr>suPhase := asPhase s'\<rparr>)) (\<lambda>_. event o' ''release_ready''))))"
    unfolding x prod.case
    by (intro ag.steps_rules steps_sync_fetch steps_onFst steps_install steps_vars Verify_digests [OF v] Sok_all)
qed

lemma steps_run: "steps (on_fst R) (Sync P E fuel o')"
proof -
  have "steps (on_fst R) (\<lambda>st. case sync_main P E fuel o' st of (r, st') \<Rightarrow> (r, snd (sync_finish P E o' start r st')))" for start
  proof (rule stepsI)
    fix st r st2
    assume "(case sync_main P E fuel o' st of (r, st') \<Rightarrow> (r, snd (sync_finish P E o' start r st'))) = (r, st2)"
    then obtain st1 where "sync_main P E fuel o' st = (r, st1)" "st2 = snd (sync_finish P E o' start r st1)"
      by (auto split: prod.splits)
    then show "on_fst R st st2"
      using stepsD [OF steps_main] steps_finish unfolding steps_def by (metis ag.R_trans)
  qed
  then show ?thesis
    unfolding Sync_def by (intro ag.steps_rules steps_modS steps_prologue steps_onFst still_rules)
qed

end

section \<open>The daemon's log\<close>

text \<open>Nothing but the commands of the image load reaches the daemon.\<close>

definition same_log :: "world \<Rightarrow> world \<Rightarrow> bool" where
  "same_log w w' \<longleftrightarrow> docker_log w' = docker_log w"

interpretation logR: file_order same_log
  by unfold_locales (simp_all add: same_log_def still_def)

lemma log_prims:
  "steps same_log (osMkdir E p)" "steps same_log (osRemove E p)" "steps same_log (fChmod E p m)"
  "steps same_log (fWrite E p b)" "steps same_log (osRename E p q)" "steps same_log (osCreateTemp E d pre)"
  "steps same_log (osOpenCreate E p m)"
  by (auto simp: steps_def prim_defs osOpenCreate_def Let_def same_log_def split: option.splits node.splits)

lemmas log_rules = logR.steps_rules logR.still_rules log_prims

lemma log_ensureDir: "steps same_log (ensureDir_rev E cs)"
  by (induction cs) (auto intro!: log_rules split: sum.split node.split)

lemma log_EnsureDir: "steps same_log (EnsureDir E d)"
  unfolding EnsureDir_def by (rule log_ensureDir)

lemma log_AtomicWrite: "steps same_log (AtomicWrite E p b mode)"
  unfolding AtomicWrite_def Let_def by (intro log_rules log_EnsureDir)

lemma log_CleanTemps: "steps same_log (CleanTemps E root)"
proof (rule stepsI)
  fix w r w' assume "CleanTemps E root w = (r, w')"
  moreover have "steps same_log (bindM (osStat E root) (\<lambda>_. forM (temps_below w root) (osRemove E)))"
    by (intro log_rules)
  ultimately show "same_log w w'" unfolding CleanTemps_def by (blast dest: stepsD)
qed

lemma log_hubDo: "steps same_log (hubDo P E cl rq)"
  unfolding hubDo_def RoundTrip_def by (intro log_rules)

lemma log_FlushReceipts: "steps same_log (FlushReceipts P E o')"
  unfolding FlushReceipts_def flush_one_def New_def Let_def by (intro log_rules log_hubDo)

lemma log_copy_chunks: "steps same_log (copy_chunks E state t cs h)"
  by (induction cs arbitrary: h) (auto simp: copy_chunk_def Let_def intro!: log_rules)

interpretation logW: agent_free same_log "\<lambda>_. True" P E o' for P E o'
proof
  show "steps same_log (assemble E (oStateDir o') m (stagedPath o' m))" for m
    unfolding assemble_def assemble_body_def by (intro log_rules log_EnsureDir log_copy_chunks)
  show "steps (on_fst same_log) (fetch_attempt P E o' c)" for c
    unfolding fetch_attempt_def
    by (intro logR.ag.steps_rules steps_onFst logR.steps_vars logR.steps_request logR.steps_rules log_AtomicWrite)
  show "steps same_log (LockState E (oStateDir o'))"
    unfolding LockState_def by (intro log_rules log_EnsureDir)
  show "steps same_log (queueReceipt P E o' sm)" for sm
    unfolding queueReceipt_def Let_def by (intro log_rules log_AtomicWrite)
  show "steps same_log (writeState P E (oStateDir o') s)" for s
    unfolding writeState_def by (intro log_rules log_AtomicWrite)
qed (auto intro: log_CleanTemps log_FlushReceipts log_AtomicWrite)

end
