(* ===== verification/SyncLoops.thy ===== *)
theory SyncLoops
  imports SyncEffects
begin

text \<open>
  The loops of the agent: with a limit on attempts the retry loop and the download pool end, the fuel
  of the model is enough from a stated bound on, and the number of requests is bounded.
\<close>

section \<open>Retry\<close>

lemma bindM_cong_res:
  "(\<And>x s s'. m s = (Inr x, s') \<Longrightarrow> f x s' = g x s') \<Longrightarrow> bindM m f = bindM m g"
  by (rule ext) (auto simp: bindM_def split: prod.splits sum.splits)

text \<open>Statements about the value returned, whatever the intermediate results are.\<close>

definition returns :: "('s, 'a) sm \<Rightarrow> ('a \<Rightarrow> bool) \<Rightarrow> bool" where
  "returns m Q \<longleftrightarrow> triple (\<lambda>_. True) m (\<lambda>x _. Q x) (\<lambda>_ _. True)"

lemma returnsD: "returns m Q \<Longrightarrow> m s = (Inr x, s') \<Longrightarrow> Q x"
  unfolding returns_def by (erule triple_okD) simp_all

lemma returns_bind: "(\<And>x. returns (f x) Q) \<Longrightarrow> returns (bindM m f) Q"
  unfolding returns_def by (rule triple_bind [where Q' = "\<lambda>_ _. True"]) (auto intro: tripleI)

lemma returns_ret: "Q x \<Longrightarrow> returns (ret x) Q"
  unfolding returns_def by (rule triple_ret)

lemma returns_if: "(b \<Longrightarrow> returns m Q) \<Longrightarrow> (\<not> b \<Longrightarrow> returns n Q) \<Longrightarrow> returns (if b then m else n) Q"
  by simp

definition goes_on :: "agent_options \<Rightarrow> int \<Rightarrow> int \<Rightarrow> iter \<Rightarrow> bool" where
  "goes_on o' attempt delay r \<longleftrightarrow> (\<forall>d. r = IterAgain d \<longrightarrow>
     (oMaxAttempts o' \<le> 0 \<or> attempt < oMaxAttempts o') \<and> d = next_delay o' delay)"

lemma retry_iter_again:
  assumes "retry_iter E o' canceled lab fn attempt delay st = (Inr (IterAgain d), st')"
  shows "oMaxAttempts o' \<le> 0 \<or> attempt < oMaxAttempts o'" and "d = next_delay o' delay"
proof -
  have "returns (retry_iter E o' canceled lab fn attempt delay) (goes_on o' attempt delay)"
    unfolding retry_iter_def
    by (auto intro!: returns_bind returns_if split: sum.split option.split)
       (auto intro!: returns_ret returns_bind simp: goes_on_def split: sum.split)
  from returnsD [OF this assms] show "oMaxAttempts o' \<le> 0 \<or> attempt < oMaxAttempts o'" and "d = next_delay o' delay"
    by (simp_all add: goes_on_def)
qed

lemma retry_loop_fuel:
  assumes "0 < oMaxAttempts o'" and "nat (oMaxAttempts o' - attempt) < fuel" and "nat (oMaxAttempts o' - attempt) < fuel'"
  shows "retry_loop E o' lab fn fuel attempt delay = retry_loop E o' lab fn fuel' attempt delay"
  using assms(2,3)
proof (induction fuel arbitrary: fuel' attempt delay)
  case (Suc f)
  then obtain f' where f': "fuel' = Suc f'" by (cases fuel') auto
  have "retry_loop E o' lab fn f (attempt + 1) d = retry_loop E o' lab fn f' (attempt + 1) d" if "attempt < oMaxAttempts o'" for d
    by (rule Suc.IH) (use Suc.prems f' that in auto)
  then show ?case
    unfolding f' retry_loop.simps
    by (intro bindM_cong_res) (use assms(1) in \<open>auto split: iter.split dest!: retry_iter_again(1)\<close>)
qed simp

text \<open>The retry loop without fuel, as the rounds it makes: a finite derivation is a loop that returned.\<close>

inductive retry_runs :: "env \<Rightarrow> agent_options \<Rightarrow> string \<Rightarrow> (int \<times> error option) ag \<Rightarrow> int \<Rightarrow> int \<Rightarrow>
    world \<times> vars \<Rightarrow> unit result \<Rightarrow> world \<times> vars \<Rightarrow> bool"
  for E o' lab fn where
  raised: "retry_iter E o' False lab fn attempt delay st = (Inl e, st') \<Longrightarrow> retry_runs E o' lab fn attempt delay st (Inl e) st'"
| finished: "retry_iter E o' False lab fn attempt delay st = (Inr IterDone, st') \<Longrightarrow>
    retry_runs E o' lab fn attempt delay st (Inr ()) st'"
| failed: "retry_iter E o' False lab fn attempt delay st = (Inr (IterFail e), st') \<Longrightarrow>
    retry_runs E o' lab fn attempt delay st (Inl e) st'"
| again: "retry_iter E o' False lab fn attempt delay st = (Inr (IterAgain d), st1) \<Longrightarrow>
    retry_runs E o' lab fn (attempt + 1) d st1 r st' \<Longrightarrow> retry_runs E o' lab fn attempt delay st r st'"

lemma retry_loop_runs:
  assumes "0 < oMaxAttempts o'" and "nat (oMaxAttempts o' - attempt) < fuel"
    and "retry_loop E o' lab fn fuel attempt delay st = (r, st')"
  shows "retry_runs E o' lab fn attempt delay st r st'"
  using assms(2,3)
proof (induction fuel arbitrary: attempt delay st)
  case (Suc f)
  obtain x st1 where it: "retry_iter E o' False lab fn attempt delay st = (x, st1)" by (rule prod.exhaust)
  show ?case
  proof (cases x)
    case (Inl e)
    then show ?thesis using Suc.prems(2) it by (auto simp: bindM_def intro: raised)
  next
    case (Inr y)
    show ?thesis
    proof (cases y)
      case (IterAgain d)
      have "attempt < oMaxAttempts o'" using retry_iter_again(1) [OF it [unfolded Inr IterAgain]] assms(1) by linarith
      then have "nat (oMaxAttempts o' - (attempt + 1)) < f" using Suc.prems(1) by linarith
      moreover have "retry_loop E o' lab fn f (attempt + 1) d st1 = (r, st')"
        using Suc.prems(2) it Inr IterAgain by (simp add: bindM_def)
      ultimately show ?thesis by (rule again [OF it [unfolded Inr IterAgain] Suc.IH])
    qed (use Suc.prems(2) it Inr in \<open>auto simp: bindM_def sm_run intro: finished failed\<close>)
  qed
qed simp

section \<open>The download pool\<close>

text \<open>What is left to do, in steps: a chunk in the queue is one hand-over and all its attempts, a busy
  worker the rest of its attempts and the return to the queue, an idle worker its exit.\<close>

fun work_left :: "int \<Rightarrow> wstate \<Rightarrow> nat" where
  "work_left A WExit = 0"
| "work_left A WIdle = 1"
| "work_left A (WBusy c a d) = nat (A - a) + 2"

definition pool_left :: "int \<Rightarrow> pool \<Rightarrow> nat" where
  "pool_left A pl = length (plQueue pl) * (nat A + 2) + sum_list (map (work_left A) (plWorkers pl))"

lemma sum_list_update_less:
  fixes f :: "'a \<Rightarrow> nat"
  assumes "i < length xs"
  shows "sum_list (map f (xs[i := x])) + f (xs ! i) = sum_list (map f xs) + f x"
  using assms by (induction xs arbitrary: i) (auto split: nat.split)

lemma pool_left_worker:
  assumes "i < length (plWorkers pl)"
  shows "pool_left A (set_worker i x pl) + work_left A (plWorkers pl ! i) = pool_left A pl + work_left A x"
  using sum_list_update_less [OF assms, of "work_left A" x] by (simp add: pool_left_def set_worker_def)

lemma pool_left_upd [simp]: "pool_left A (pl\<lparr>plErr := e, plCancel := c\<rparr>) = pool_left A pl"
  by (simp add: pool_left_def)

lemma pool_step_less:
  assumes A: "0 < oMaxAttempts o'" and i: "i \<in> set (running pl)" and run: "pool_step P E o' pl i st = (Inr pl', st')"
  shows "pool_left (oMaxAttempts o') pl' < pool_left (oMaxAttempts o') pl"
proof -
  let ?A = "oMaxAttempts o'"
  have il: "i < length (plWorkers pl)" and ne: "plWorkers pl ! i \<noteq> WExit" using i by (simp_all add: running_iff)
  note w = pool_left_worker [OF il, of ?A]
  show ?thesis
  proof (cases "plWorkers pl ! i")
    case WIdle
    show ?thesis
    proof (cases "plQueue pl")
      case Nil
      then show ?thesis using run WIdle w [of WExit] by (simp add: pool_step_def)
    next
      case (Cons c cs)
      let ?pl = "pl\<lparr>plQueue := cs\<rparr>"
      from run WIdle Cons have "pl' = pl\<lparr>plQueue := []\<rparr> \<or> pl' = set_worker i (WBusy c 1 (oBackoff o')) ?pl"
        by (auto simp: pool_step_def bindM_run split: if_splits)
      then show ?thesis
        using pool_left_worker [of i ?pl ?A "WBusy c 1 (oBackoff o')"] il WIdle Cons A
        by (auto simp: pool_left_def)
    qed
  next
    case (WBusy c a d)
    from run WBusy obtain r st1 where r: "retry_iter E o' (plCancel pl) (cSHA256 c) (fetch_attempt P E o' c) a d st = (Inr r, st1)"
      and pl': "pl' = (case r of IterDone \<Rightarrow> set_worker i WIdle pl | IterFail e \<Rightarrow> worker_fail i e pl
           | IterAgain d \<Rightarrow> set_worker i (WBusy c (a + 1) d) pl)"
      by (auto simp: pool_step_def elim!: bindM_okE)
    show ?thesis
    proof (cases r)
      case IterDone
      then show ?thesis using pl' w [of WIdle] WBusy by simp
    next
      case (IterFail e)
      then show ?thesis using pl' w [of WExit] WBusy by (simp add: worker_fail_def)
    next
      case (IterAgain d')
      have "a < ?A" using retry_iter_again(1) [OF r [unfolded IterAgain]] A by linarith
      with IterAgain show ?thesis using pl' w [of "WBusy c (a + 1) d'"] WBusy by simp
    qed
  qed (use ne in simp)
qed

lemma pool_left_running: "pool_left A pl = 0 \<Longrightarrow> running pl = []"
proof -
  assume "pool_left A pl = 0"
  then have "\<forall>x \<in> set (plWorkers pl). work_left A x = 0" by (simp add: pool_left_def)
  moreover have "work_left A x = 0 \<Longrightarrow> x = WExit" for x by (cases x) auto
  ultimately show ?thesis by (auto simp: running_def filter_empty_conv)
qed

lemma pool_run_fuel:
  assumes A: "0 < oMaxAttempts o'"
    and "pool_left (oMaxAttempts o') pl \<le> fuel" and "pool_left (oMaxAttempts o') pl \<le> fuel'"
  shows "pool_run P E o' fuel pl = pool_run P E o' fuel' pl"
  using assms(2,3)
proof (induction fuel arbitrary: fuel' pl)
  case 0
  then show ?case using pool_left_running by (cases fuel') auto
next
  case (Suc f)
  show ?case
  proof (cases "running pl = []")
    case True
    then show ?thesis by (cases fuel') simp_all
  next
    case False
    with Suc.prems pool_left_running [of "oMaxAttempts o'" pl] obtain f' where f': "fuel' = Suc f'" by (cases fuel') auto
    have "bindM (pool_step P E o' pl i) (\<lambda>pl'. pool_run P E o' f pl') = bindM (pool_step P E o' pl i) (\<lambda>pl'. pool_run P E o' f' pl')"
      if "i \<in> set (running pl)" for i
    proof (rule bindM_cong_res)
      fix pl' s s' assume "pool_step P E o' pl i s = (Inr pl', s')"
      from pool_step_less [OF A that this] have "pool_run P E o' f pl' = pool_run P E o' f' pl'"
        by (intro Suc.IH) (use Suc.prems f' in linarith)+
      then show "pool_run P E o' f pl' s' = pool_run P E o' f' pl' s'" by simp
    qed
    then show ?thesis
      using False unfolding f' pool_run.simps
      by (simp, intro bindM_cong_res) (auto dest: pick_running)
  qed
qed

section \<open>Termination of a run\<close>

text \<open>The steps the downloads of a list of chunks can take.\<close>

definition fetch_steps :: "agent_options \<Rightarrow> chunk list \<Rightarrow> nat" where
  "fetch_steps o' missing = length missing * (nat (oMaxAttempts o') + 2) + nat (oWorkers o')"

lemma start_pool_left: "pool_left (oMaxAttempts o') (start_pool o' missing) = fetch_steps o' missing"
  by (simp add: pool_left_def start_pool_def fetch_steps_def sum_list_replicate)

lemma fetch_missing_fuel:
  assumes "0 < oMaxAttempts o'" and "fetch_steps o' missing \<le> fuel" and "fetch_steps o' missing \<le> fuel'"
  shows "fetch_missing P E fuel o' missing = fetch_missing P E fuel' o' missing"
proof -
  have "pool_run P E o' fuel (start_pool o' missing) = pool_run P E o' fuel' (start_pool o' missing)"
    by (rule pool_run_fuel [OF assms(1)]) (simp_all add: start_pool_left assms)
  then show ?thesis by (simp only: fetch_missing_def)
qed

lemma plan_chunks_length:
  "plan_chunks E o' cs missing b st = (Inr (ms, n), st') \<Longrightarrow> length ms \<le> length missing + length cs"
proof (induction cs arbitrary: missing b st)
  case (Cons c cs)
  from Cons.prems obtain valid st1 where
    "(if valid then bindM (summ (\<lambda>u. u\<lparr>suReusedChunks := suReusedChunks u + 1, suReusedRawBytes := suReusedRawBytes u + cSize c\<rparr>))
         (\<lambda>_. plan_chunks E o' cs missing b) else plan_chunks E o' cs (missing @ [c]) (b + cSize c)) st1 = (Inr (ms, n), st')"
    by (auto simp: bindM_run [of "onFst _"] simp del: bindM_ret)
  then consider st2 where "plan_chunks E o' cs missing b st2 = (Inr (ms, n), st')"
    | "plan_chunks E o' cs (missing @ [c]) (b + cSize c) st1 = (Inr (ms, n), st')"
    by (auto simp: bindM_run split: if_splits)
  then show ?case by cases (use Cons.IH in fastforce)+
qed simp

text \<open>Enough fuel for a run that accepts a manifest with at most \<open>n\<close> distinct chunks.\<close>

definition run_steps :: "agent_options \<Rightarrow> nat \<Rightarrow> nat" where
  "run_steps o' n = n * (nat (oMaxAttempts o') + 2) + nat (oWorkers o') + nat (oMaxAttempts o')"

lemma fetch_steps_run: "length missing \<le> n \<Longrightarrow> fetch_steps o' missing \<le> run_steps o' n"
  unfolding fetch_steps_def run_steps_def by (meson add_le_mono1 mult_le_mono1 trans_le_add1)

lemma sync_fetch_fuel:
  assumes "0 < oMaxAttempts o'" and "length (Unique m) \<le> n" and "run_steps o' n \<le> fuel" and "run_steps o' n \<le> fuel'"
  shows "sync_fetch P E fuel o' m s = sync_fetch P E fuel' o' m s"
  unfolding sync_fetch_def
proof (rule bindM_cong_res)
  fix x st st' assume pl: "plan_chunks E o' (Unique m) [] 0 st = (Inr x, st')"
  obtain missing b where x: "x = (missing, b)" by (cases x)
  have "length missing \<le> n" using plan_chunks_length [OF pl [unfolded x]] assms(2) by simp
  then have "fetch_steps o' missing \<le> run_steps o' n" by (rule fetch_steps_run)
  then have "fetch_missing P E fuel o' missing = fetch_missing P E fuel' o' missing"
    using fetch_missing_fuel [OF assms(1), of missing fuel fuel'] assms(3,4) by simp
  then show "(case x of (missing, missingBytes) \<Rightarrow>
     bindM (event o' ''plan'') (\<lambda>_.
     bindM (guardM (\<not> (oOffline o' \<and> length missing > 0)) (Msg ''offline: chunks missing or corrupt'')) (\<lambda>_.
     bindM (onFst (check_space E o' m missingBytes)) (\<lambda>archiveValid.
     bindM (onFst (writeState P E (oStateDir o') (s\<lparr>asPhase := ''fetching''\<rparr>))) (\<lambda>_.
     bindM (fetch_missing P E fuel o' missing) (\<lambda>_. ret archiveValid)))))) st' = (case x of (missing, missingBytes) \<Rightarrow>
     bindM (event o' ''plan'') (\<lambda>_.
     bindM (guardM (\<not> (oOffline o' \<and> length missing > 0)) (Msg ''offline: chunks missing or corrupt'')) (\<lambda>_.
     bindM (onFst (check_space E o' m missingBytes)) (\<lambda>archiveValid.
     bindM (onFst (writeState P E (oStateDir o') (s\<lparr>asPhase := ''fetching''\<rparr>))) (\<lambda>_.
     bindM (fetch_missing P E fuel' o' missing) (\<lambda>_. ret archiveValid)))))) st'"
    by (simp add: x)
qed

lemma sync_manifest_fuel:
  assumes "0 < oMaxAttempts o'" and "nat (oMaxAttempts o') \<le> fuel" and "nat (oMaxAttempts o') \<le> fuel'"
  shows "sync_manifest P E fuel o' = sync_manifest P E fuel' o'"
proof -
  have "retry E fuel o' lab fn = retry E fuel' o' lab fn" for lab fn
    unfolding retry_def by (rule retry_loop_fuel [OF assms(1)]) (use assms in auto)
  then have "load_online P E fuel o' pub old = load_online P E fuel' o' pub old" for pub old
    by (simp only: load_online_def)
  then show ?thesis by (simp only: sync_manifest_def)
qed

lemma length_unique_from: "length (unique_from cs seen) \<le> length cs"
  by (induction cs arbitrary: seen) (auto simp: le_SucI)

lemma chunk_count:
  assumes "Verify P data pub mx = Inr (m, dg)" and "mx \<le> 2 ^ 62"
  shows "length (Unique m) \<le> nat mx"
proof -
  have ok: "manifest_ok m mx" using assms(1) unfolding Verify_ok_iff [OF assms(2)] by blast
  have "list_all (\<lambda>c. 0 < cSize c) cs \<Longrightarrow> int (length cs) \<le> chunk_total cs" for cs
    by (induction cs) (auto simp: chunk_total_def)
  moreover have "list_all (\<lambda>c. 0 < cSize c) (mChunks m)"
    using ok by (auto simp: manifest_ok_def chunk_fields_ok_def list_all_iff)
  ultimately have "int (length (mChunks m)) \<le> mx" using ok by (fastforce simp: manifest_ok_def)
  then have "length (mChunks m) \<le> nat mx" by linarith
  then show ?thesis using length_unique_from unfolding Unique_def by (rule order_trans [rotated])
qed

lemma sync_main_fuel:
  assumes "0 < oMaxAttempts o'" and "oMaxArtifact o' \<le> 2 ^ 62"
    and "run_steps o' (nat (oMaxArtifact o')) \<le> fuel" and "run_steps o' (nat (oMaxArtifact o')) \<le> fuel'"
  shows "sync_main P E fuel o' = sync_main P E fuel' o'"
proof -
  have mf: "sync_manifest P E fuel o' = sync_manifest P E fuel' o'"
    by (rule sync_manifest_fuel [OF assms(1)]) (use assms(3,4) in \<open>simp_all add: run_steps_def\<close>)
  show ?thesis
    unfolding sync_main_def mf
  proof (rule bindM_cong_res, rule arg_cong [of _ _ "\<lambda>m. m _"], rule bindM_cong_res)
    fix x st st' assume "sync_manifest P E fuel' o' st = (Inr x, st')"
    moreover obtain m dg s where x: "x = (m, dg, s)" by (cases x)
    ultimately obtain envelope pub where v: "Verify P envelope pub (oMaxArtifact o') = Inr (m, dg)"
      using sync_manifest_ok by blast
    have "sync_fetch P E fuel o' m s = sync_fetch P E fuel' o' m s"
      by (rule sync_fetch_fuel [OF assms(1) chunk_count [OF v assms(2)] assms(3,4)])
    then show "(case x of (m, dg, s) \<Rightarrow> bindM (sync_fetch P E fuel o' m s) (\<lambda>archiveValid.
        bindM (onFst (sync_install P E o' m dg s archiveValid)) (\<lambda>s'.
        bindM (summ (\<lambda>u. u\<lparr>suPhase := asPhase s'\<rparr>)) (\<lambda>_. event o' ''release_ready'')))) st'
      = (case x of (m, dg, s) \<Rightarrow> bindM (sync_fetch P E fuel' o' m s) (\<lambda>archiveValid.
        bindM (onFst (sync_install P E o' m dg s archiveValid)) (\<lambda>s'.
        bindM (summ (\<lambda>u. u\<lparr>suPhase := asPhase s'\<rparr>)) (\<lambda>_. event o' ''release_ready'')))) st'"
      by (simp add: x)
  qed
qed

section \<open>Requests\<close>

text \<open>A computation that sends nothing, and one that sends a given request at most once.\<close>

definition silent :: "world \<Rightarrow> world \<Rightarrow> bool" where
  "silent w w' \<longleftrightarrow> sent w' = sent w"

definition asks :: "http_request \<Rightarrow> world \<Rightarrow> world \<Rightarrow> bool" where
  "asks rq w w' \<longleftrightarrow> sent w' = sent w \<or> sent w' = sent w @ [rq]"

interpretation silence: effect_order silent
  by unfold_locales (simp_all add: silent_def)

interpretation silence_ag: effect_order "on_fst silent"
  by (rule on_fst_order) unfold_locales

lemma silent_prims:
  "steps silent (osStat E p)" "steps silent (fSync E p)" "steps silent (fClose E p)" "steps silent (osReadDir E p)"
  "steps silent (sleepFor E d)" "steps silent (ctxErr E)" "steps silent (timeNow E)"
  "steps silent (osMkdir E p)" "steps silent (osRemove E p)" "steps silent (fChmod E p m)" "steps silent (fWrite E p b)"
  "steps silent (osRename E p q)" "steps silent (osCreateTemp E q pre)" "steps silent (jittered E n)"
  by (auto simp: steps_def prim_defs jittered_def Let_def silent_def split: option.splits node.splits)

lemmas silent_rules = silence.steps_rules silent_prims

lemma silent_ensureDir: "steps silent (ensureDir_rev E cs)"
  by (induction cs) (auto simp: SyncDir_def intro!: silent_rules split: sum.split node.split)

lemma silent_AtomicWrite: "steps silent (AtomicWrite E p b mode)"
  unfolding AtomicWrite_def EnsureDir_def SyncDir_def Let_def by (intro silent_rules silent_ensureDir)

lemma silent_vars: "steps (on_fst silent) (prog f)" "steps (on_fst silent) (tel g)" "steps (on_fst silent) (event o' k)"
  by (simp_all add: steps_def prog_def tel_def event_def modS_def on_fst_def silent_def)

lemma steps_asks_before:
  assumes "steps (on_fst silent) m" and "\<And>x. steps (on_fst (asks rq)) (f x)"
  shows "steps (on_fst (asks rq)) (bindM m f)"
  using assms unfolding steps_def on_fst_def silent_def asks_def bindM_def
  by (auto split: prod.splits sum.splits) (metis fst_conv snd_conv)+

lemma steps_asks_after:
  assumes "steps (on_fst (asks rq)) m" and "\<And>x. steps (on_fst silent) (f x)"
  shows "steps (on_fst (asks rq)) (bindM m f)"
  using assms unfolding steps_def on_fst_def silent_def asks_def bindM_def
  by (auto split: prod.splits sum.splits) (metis fst_conv snd_conv)+

lemma steps_asks_silent: "steps (on_fst silent) m \<Longrightarrow> steps (on_fst (asks rq)) m"
  by (auto simp: steps_def on_fst_def silent_def asks_def)

text \<open>The one request of a download attempt.\<close>

definition chunk_get :: "agent_options \<Rightarrow> chunk \<Rightarrow> http_request" where
  "chunk_get o' c = \<lparr>rqMethod = ''GET'', rqURL = chunkURL o' c,
     rqHeaders = [(''Accept-Encoding'', ''identity'')] @ (if oDeviceID o' \<noteq> [] then [(''X-Edgelab-Device'', oDeviceID o')] else []),
     rqBody = []\<rparr>"

lemma asks_request: "steps (asks (chunk_get o' c)) (request P E (chunkURL o' c) limit [] (oDeviceID o'))"
  by (auto simp: steps_def request_def asks_def chunk_get_def clientDo_def httpDo_def bindM_def attemptM_def sm_run Let_def
      split: sum.splits option.splits)

lemma asks_fetch: "steps (on_fst (asks (chunk_get o' c))) (fetch_attempt P E o' c)"
  unfolding fetch_attempt_def
  by (rule steps_asks_before [OF silent_vars(1)], rule steps_asks_after [OF steps_onFst [OF asks_request]])
     (intro silence_ag.steps_rules silent_vars steps_onFst silence.steps_rules silent_AtomicWrite)

lemma asks_iter:
  "steps (on_fst (asks (chunk_get o' c))) (retry_iter E o' canceled lab (fetch_attempt P E o' c) attempt delay)"
  unfolding retry_iter_def fetchCtxErr_def sleepContext_def
  apply (rule steps_asks_before)
   apply (intro steps_onFst silent_rules)
  apply (split sum.split, intro conjI allI impI)
   apply (intro steps_asks_silent silence_ag.steps_rules)
  apply (rule steps_asks_after [OF asks_fetch])
  apply (intro silence_ag.steps_rules silent_vars steps_onFst silent_rules)
  done

text \<open>An attempt reports its errors as values.\<close>

definition answers :: "('s, 'a) sm \<Rightarrow> bool" where
  "answers m \<longleftrightarrow> (\<forall>s. \<exists>x. fst (m s) = Inr x)"

lemma answers_bind:
  assumes "answers m" and "\<And>x. answers (f x)"
  shows "answers (bindM m f)"
  unfolding answers_def
proof
  fix s
  obtain r s' where m: "m s = (r, s')" by (rule prod.exhaust)
  then obtain x where "r = Inr x" using assms(1) unfolding answers_def by (metis fst_conv)
  then show "\<exists>y. fst (bindM m f s) = Inr y" using m assms(2) by (auto simp: answers_def bindM_def)
qed

lemma answers_prims:
  "answers (ret x)" "answers (attemptM m)" "answers (modS g)" "answers (jittered E n)" "answers (prog h)" "answers (tel k)"
  "answers (event o' kind)"
  by (simp_all add: answers_def ret_def attemptM_def modS_def jittered_def prog_def tel_def event_def split: prod.split)

lemma answers_onFst: "answers m \<Longrightarrow> answers (onFst m)"
  unfolding answers_def onFst_def by (metis (mono_tags, lifting) case_prod_beta fst_conv)

lemma answers_cases:
  "(b \<Longrightarrow> answers m) \<Longrightarrow> (\<not> b \<Longrightarrow> answers n) \<Longrightarrow> answers (if b then m else n)"
  "(\<And>e. x = Inl e \<Longrightarrow> answers (f e)) \<Longrightarrow> (\<And>y. x = Inr y \<Longrightarrow> answers (g y)) \<Longrightarrow> answers (case x of Inl e \<Rightarrow> f e | Inr y \<Rightarrow> g y)"
  "(z = None \<Longrightarrow> answers m) \<Longrightarrow> (\<And>y. z = Some y \<Longrightarrow> answers (k y)) \<Longrightarrow> answers (case z of None \<Rightarrow> m | Some y \<Rightarrow> k y)"
  "(\<And>a b. p = (a, b) \<Longrightarrow> answers (h a b)) \<Longrightarrow> answers (case p of (a, b) \<Rightarrow> h a b)"
  by (cases x; cases z; cases p; simp)+

lemmas answers_rules = answers_bind answers_prims answers_onFst answers_cases

lemma answers_fetch: "answers (fetch_attempt P E o' c)"
  unfolding fetch_attempt_def request_def by (intro answers_rules)

lemma retry_iter_total:
  assumes "retry_iter E o' canceled lab (fetch_attempt P E o' c) attempt delay st = (r, st')"
  shows "\<exists>x. r = Inr x"
proof -
  have "answers (retry_iter E o' canceled lab (fetch_attempt P E o' c) attempt delay)"
    unfolding retry_iter_def by (intro answers_rules answers_fetch)
  then show ?thesis using assms unfolding answers_def by (metis fst_conv)
qed

text \<open>The attempts a pool may still make.\<close>

fun attempts_left :: "int \<Rightarrow> wstate \<Rightarrow> nat" where
  "attempts_left A (WBusy c a d) = nat (A - a) + 1"
| "attempts_left A _ = 0"

definition pool_attempts :: "int \<Rightarrow> pool \<Rightarrow> nat" where
  "pool_attempts A pl = length (plQueue pl) * nat A + sum_list (map (attempts_left A) (plWorkers pl))"

lemma pool_attempts_worker:
  assumes "i < length (plWorkers pl)"
  shows "pool_attempts A (set_worker i x pl) + attempts_left A (plWorkers pl ! i) = pool_attempts A pl + attempts_left A x"
  using sum_list_update_less [OF assms, of "attempts_left A" x] by (simp add: pool_attempts_def set_worker_def)

lemma pool_attempts_upd [simp]: "pool_attempts A (pl\<lparr>plErr := e, plCancel := c\<rparr>) = pool_attempts A pl"
  by (simp add: pool_attempts_def)

text \<open>The requests between two states, within a budget.\<close>

definition asked :: "agent_options \<Rightarrow> chunk set \<Rightarrow> nat \<Rightarrow> world \<Rightarrow> world \<Rightarrow> bool" where
  "asked o' Q n w w' \<longleftrightarrow> (\<exists>rqs. sent w' = sent w @ rqs \<and> length rqs \<le> n \<and> set rqs \<subseteq> chunk_get o' ` Q)"

lemma asked_0: "sent w' = sent w \<Longrightarrow> asked o' Q n w w'"
  by (simp add: asked_def)

lemma asked_trans: "asked o' Q a w w' \<Longrightarrow> asked o' Q b w' w'' \<Longrightarrow> a + b \<le> n \<Longrightarrow> asked o' Q n w w''"
  unfolding asked_def by (elim exE conjE) (rule_tac x = "rqs @ rqsa" in exI, auto)

lemma asked_1: "asks (chunk_get o' c) w w' \<Longrightarrow> c \<in> Q \<Longrightarrow> asked o' Q 1 w w'"
  unfolding asks_def asked_def by auto

lemma pool_step_asked:
  assumes A: "0 < oMaxAttempts o'" and i: "i \<in> set (running pl)" and Q: "pool_in Q pl"
    and run: "pool_step P E o' pl i st = (r, st')"
  shows "\<exists>pl' n. r = Inr pl' \<and> asked o' Q n (fst st) (fst st') \<and> n + pool_attempts (oMaxAttempts o') pl' \<le> pool_attempts (oMaxAttempts o') pl"
proof -
  let ?A = "oMaxAttempts o'"
  have il: "i < length (plWorkers pl)" and ne: "plWorkers pl ! i \<noteq> WExit" using i by (simp_all add: running_iff)
  note w = pool_attempts_worker [OF il, of ?A]
  show ?thesis
  proof (cases "plWorkers pl ! i")
    case WIdle
    then have s0: "sent (fst st') = sent (fst st)"
      using run by (auto simp: pool_step_def bindM_def onFst_def stop_sending_def sm_run split: list.splits if_splits)
    show ?thesis
    proof (cases "plQueue pl")
      case Nil
      then show ?thesis using run WIdle w [of WExit] s0 by (auto simp: pool_step_def sm_run intro!: exI [of _ 0] asked_0)
    next
      case (Cons c cs)
      let ?pl = "pl\<lparr>plQueue := cs\<rparr>"
      have "r = Inr (pl\<lparr>plQueue := []\<rparr>) \<or> r = Inr (set_worker i (WBusy c 1 (oBackoff o')) ?pl)"
        using run WIdle Cons by (auto simp: pool_step_def bindM_def onFst_def stop_sending_def sm_run split: if_splits)
      moreover have "pool_attempts ?A (set_worker i (WBusy c 1 (oBackoff o')) ?pl) \<le> pool_attempts ?A pl"
        using pool_attempts_worker [of i ?pl ?A "WBusy c 1 (oBackoff o')"] il WIdle Cons A by (simp add: pool_attempts_def)
      moreover have "pool_attempts ?A (pl\<lparr>plQueue := []\<rparr>) \<le> pool_attempts ?A pl" by (simp add: pool_attempts_def)
      ultimately show ?thesis using s0 by (metis asked_0 add_0)
    qed
  next
    case (WBusy c a d)
    have c: "c \<in> Q" using Q il WBusy nth_mem unfolding pool_in_def by metis
    obtain r1 st1 where it: "retry_iter E o' (plCancel pl) (cSHA256 c) (fetch_attempt P E o' c) a d st = (r1, st1)" by (rule prod.exhaust)
    obtain x where r1: "r1 = Inr x" using retry_iter_total [OF it] by blast
    have r: "r = Inr (case x of IterDone \<Rightarrow> set_worker i WIdle pl | IterFail e \<Rightarrow> worker_fail i e pl
           | IterAgain d \<Rightarrow> set_worker i (WBusy c (a + 1) d) pl)" and st': "st' = st1"
      using run WBusy it r1 by (auto simp: pool_step_def bindM_def sm_run)
    have ask: "asked o' Q 1 (fst st) (fst st')"
      using stepsD [OF asks_iter it] asked_1 c st' by (simp add: on_fst_def)
    have "1 + pool_attempts ?A (case x of IterDone \<Rightarrow> set_worker i WIdle pl | IterFail e \<Rightarrow> worker_fail i e pl
           | IterAgain d \<Rightarrow> set_worker i (WBusy c (a + 1) d) pl) \<le> pool_attempts ?A pl"
    proof (cases x)
      case IterDone
      then show ?thesis using w [of WIdle] WBusy by simp
    next
      case (IterFail e)
      then show ?thesis using w [of WExit] WBusy by (simp add: worker_fail_def)
    next
      case (IterAgain d')
      have "a < ?A" using retry_iter_again(1) [OF it [unfolded r1 IterAgain]] A by linarith
      then show ?thesis using IterAgain w [of "WBusy c (a + 1) d'"] WBusy by simp
    qed
    with r ask show ?thesis by blast
  qed (use ne in simp)
qed

lemma pool_run_ends:
  assumes A: "0 < oMaxAttempts o'" and Q: "pool_in Q pl" and "pool_left (oMaxAttempts o') pl \<le> fuel"
  shows "\<exists>pl' st'. pool_run P E o' fuel pl st = (Inr pl', st') \<and> running pl' = []
     \<and> asked o' Q (pool_attempts (oMaxAttempts o') pl) (fst st) (fst st')"
  using Q assms(3)
proof (induction fuel arbitrary: pl st)
  case 0
  then have "running pl = []" using pool_left_running by simp
  then show ?case by (auto simp: sm_run intro: asked_0)
next
  case (Suc f)
  show ?case
  proof (cases "running pl = []")
    case True
    then show ?thesis by (auto simp: sm_run intro: asked_0)
  next
    case False
    obtain i st1 where pk: "onFst (pick E (running pl)) st = (Inr i, st1)" and s1: "sent (fst st1) = sent (fst st)"
      by (auto simp: onFst_def pick_def)
    note i = pick_running [OF pk False]
    obtain r st2 where ps: "pool_step P E o' pl i st1 = (r, st2)" by (rule prod.exhaust)
    obtain pl2 n where r: "r = Inr pl2" and n: "asked o' Q n (fst st1) (fst st2)"
      "n + pool_attempts (oMaxAttempts o') pl2 \<le> pool_attempts (oMaxAttempts o') pl"
      using pool_step_asked [OF A i Suc.prems(1) ps] by blast
    have "pool_left (oMaxAttempts o') pl2 \<le> f" using pool_step_less [OF A i ps [unfolded r]] Suc.prems(2) by simp
    with Suc.IH [OF pool_in_step [OF ps [unfolded r] Suc.prems(1) i], of st2] obtain pl' st' where
      e: "pool_run P E o' f pl2 st2 = (Inr pl', st')" "running pl' = []"
      "asked o' Q (pool_attempts (oMaxAttempts o') pl2) (fst st2) (fst st')" by blast
    have "asked o' Q (pool_attempts (oMaxAttempts o') pl) (fst st) (fst st')"
      using asked_trans [OF n(1) e(3) n(2)] s1 by (simp add: asked_def)
    then show ?thesis using False pk ps r e by (auto simp: bindM_def)
  qed
qed

section \<open>Properties\<close>

lemma start_pool_attempts: "pool_attempts A (start_pool o' missing) = length missing * nat A"
  by (simp add: pool_attempts_def start_pool_def sum_list_replicate)

lemma start_pool_in: "pool_in (set missing) (start_pool o' missing)"
  by (auto simp: pool_in_def start_pool_def)

text \<open>With a limit on attempts the download pool ends in every schedule of its workers, whatever the
  network answers: every worker returns, and from the stated bound on the fuel plays no part. Until
  then the origin has been sent at most that many attempts per missing chunk, every one of them a GET
  for a missing chunk.\<close>

theorem fetch_pool_ends:
  assumes "0 < oMaxAttempts o'" and "fetch_steps o' missing \<le> fuel"
  shows "\<exists>pl st' rqs. pool_run P E o' fuel (start_pool o' missing) st = (Inr pl, st') \<and> running pl = []
     \<and> sent (fst st') = sent (fst st) @ rqs \<and> length rqs \<le> length missing * nat (oMaxAttempts o')
     \<and> set rqs \<subseteq> chunk_get o' ` set missing"
  using pool_run_ends [OF assms(1) start_pool_in [of missing o'], of fuel P E st] assms(2)
  by (auto simp: start_pool_left start_pool_attempts asked_def)

text \<open>C18. A run ends: with a limit on attempts and a size limit below \<open>2\<^sup>6\<^sup>2\<close>, \<open>run_steps\<close> is enough fuel for
  every machine and every network, since a verified manifest has at most as many chunks as its size
  limit has bytes; more fuel changes nothing. The two loops of a run return with it on their own: the retry loop
  stops after finitely many rounds with the answer of the last one, whatever is retried, and the pool of as many
  chunks as a manifest may have ends with every worker returned.\<close>

theorem Sync_terminates:
  assumes "0 < oMaxAttempts o'" and "oMaxArtifact o' \<le> 2 ^ 62" and "run_steps o' (nat (oMaxArtifact o')) \<le> fuel"
  shows "Sync P E fuel o' = Sync P E (run_steps o' (nat (oMaxArtifact o'))) o'
    \<and> (\<forall>lab fn st r st'. retry E fuel o' lab fn st = (r, st') \<longrightarrow> retry_runs E o' lab fn 1 (oBackoff o') st r st')
    \<and> (\<forall>missing st. length missing \<le> nat (oMaxArtifact o') \<longrightarrow>
         (\<exists>pl st'. pool_run P E o' fuel (start_pool o' missing) st = (Inr pl, st') \<and> running pl = []))"
proof (intro conjI allI impI)
  have "sync_main P E fuel o' = sync_main P E (run_steps o' (nat (oMaxArtifact o'))) o'"
    by (rule sync_main_fuel [OF assms]) simp
  then show "Sync P E fuel o' = Sync P E (run_steps o' (nat (oMaxArtifact o'))) o'" by (simp only: Sync_def)
next
  fix lab fn st r st' assume "retry E fuel o' lab fn st = (r, st')"
  then have run: "retry_loop E o' lab fn fuel 1 (oBackoff o') st = (r, st')" by (simp only: retry_def)
  have "nat (oMaxAttempts o' - 1) < fuel" using assms(1,3) by (simp add: run_steps_def)
  then show "retry_runs E o' lab fn 1 (oBackoff o') st r st'" using retry_loop_runs [OF assms(1) _ run] by blast
next
  fix missing :: "chunk list" and st assume "length missing \<le> nat (oMaxArtifact o')"
  then have "fetch_steps o' missing \<le> fuel" using fetch_steps_run assms(3) order_trans by blast
  then show "\<exists>pl st'. pool_run P E o' fuel (start_pool o' missing) st = (Inr pl, st') \<and> running pl = []"
    using pool_run_ends [OF assms(1) start_pool_in [of missing o'], of fuel P E st] by (auto simp: start_pool_left)
qed

text \<open>The delays of the retry loop are bounded: a round that goes on waits at most the larger of the
  configured maximum and what the server asked for, and within the configured limits the next delay is
  again between the first one and the maximum.\<close>

theorem retry_delays_bounded:
  assumes "0 < oBackoff o'" and "oBackoff o' \<le> delay" and "delay \<le> oMaxBackoff o'"
  shows "oBackoff o' \<le> next_delay o' delay \<and> next_delay o' delay \<le> oMaxBackoff o'
     \<and> retry_delay o' j after \<le> max (oMaxBackoff o') after
     \<and> after \<le> retry_delay o' j after"
  using assms by (auto simp: next_delay_def retry_delay_def Let_def)

definition loop_options :: agent_options where
  "loop_options = DefaultAgentOptions\<lparr>oStateDir := [''s''], oBaseURL := ''https://h'', oMaxArtifact := 100\<rparr>"

definition loop_vars :: vars where
  "loop_vars = \<lparr>vEnvelope = [], vProg = zero_progress, vTel = None, vSum = zero_summary, vEvents = []\<rparr>"

theorem fetch_pool_ends_witness:
  "\<exists>pl st' rqs. pool_run demo_agent_prims (env_fail_at 7) loop_options 40 (start_pool loop_options [demo_chunk]) (empty_world, loop_vars) = (Inr pl, st')
     \<and> running pl = [] \<and> sent (fst st') = rqs \<and> length rqs \<le> 12"
  using fetch_pool_ends [of loop_options "[demo_chunk]" 40 demo_agent_prims "env_fail_at 7" "(empty_world, loop_vars)"]
  by (auto simp: loop_options_def DefaultAgentOptions_def fetch_steps_def empty_world_def)

theorem Sync_terminates_witness:
  "Sync demo_agent_prims (env_fail_at 7) 5000 loop_options = Sync demo_agent_prims (env_fail_at 7) 1414 loop_options
    \<and> (\<exists>pl st'. pool_run demo_agent_prims (env_fail_at 7) loop_options 5000 (start_pool loop_options [demo_chunk]) (empty_world, loop_vars)
         = (Inr pl, st') \<and> running pl = [])"
  using Sync_terminates [of loop_options 5000 demo_agent_prims "env_fail_at 7"]
  by (simp add: loop_options_def DefaultAgentOptions_def run_steps_def)

theorem retry_delays_bounded_witness:
  "next_delay DefaultAgentOptions 3000000000 \<le> 5000000000 \<and> retry_delay DefaultAgentOptions 9000000000 0 \<le> 5000000000"
  using retry_delays_bounded [of DefaultAgentOptions 3000000000 9000000000 0]
  by (simp add: DefaultAgentOptions_def)

end
