(* ===== verification/Machine.thy ===== *)
theory Machine
  imports Prelude
begin

text \<open>
  Concurrent components as machines: a partial step function over events, its runs, and the interface
  through which an invariant kept by every step is carried over to all runs.
\<close>

section \<open>Runs\<close>

text \<open>\<open>None\<close> means the event is not enabled.\<close>

fun exec :: "('e \<Rightarrow> 's \<Rightarrow> 's option) \<Rightarrow> 'e list \<Rightarrow> 's \<Rightarrow> 's option" where
  "exec step [] s = Some s"
| "exec step (e # es) s = (case step e s of None \<Rightarrow> None | Some s' \<Rightarrow> exec step es s')"

lemma exec_append: "exec step (es @ fs) s = (case exec step es s of None \<Rightarrow> None | Some s' \<Rightarrow> exec step fs s')"
  by (induction es arbitrary: s) (auto split: option.split)

inductive reaches :: "('e \<Rightarrow> 's \<Rightarrow> 's option) \<Rightarrow> 's \<Rightarrow> 's \<Rightarrow> bool" for step s0 where
  start: "reaches step s0 s0"
| move: "reaches step s0 s \<Longrightarrow> step e s = Some s' \<Longrightarrow> reaches step s0 s'"

inductive_cases reachesE: "reaches step s0 s"

lemma exec_reaches: "exec step es s = Some s' \<Longrightarrow> reaches step s0 s \<Longrightarrow> reaches step s0 s'"
  by (induction es arbitrary: s) (auto split: option.splits intro: reaches.move)

lemma reaches_exec: "reaches step s0 s \<longleftrightarrow> (\<exists>es. exec step es s0 = Some s)"
proof
  show "reaches step s0 s \<Longrightarrow> \<exists>es. exec step es s0 = Some s"
  proof (induction rule: reaches.induct)
    case start
    show ?case by (rule exI [of _ "[]"]) simp
  next
    case (move s e s')
    then obtain es where "exec step es s0 = Some s" by blast
    with move(2) show ?case by (intro exI [of _ "es @ [e]"]) (simp add: exec_append)
  qed
qed (auto intro: exec_reaches reaches.start)

section \<open>Invariants\<close>

locale invariant =
  fixes step :: "'e \<Rightarrow> 's \<Rightarrow> 's option" and I :: "'s \<Rightarrow> bool"
  assumes kept: "I s \<Longrightarrow> step e s = Some s' \<Longrightarrow> I s'"
begin

lemma holds: "reaches step s0 s \<Longrightarrow> I s0 \<Longrightarrow> I s"
  by (induction rule: reaches.induct) (auto intro: kept)

lemma exec_holds: "exec step es s0 = Some s \<Longrightarrow> I s0 \<Longrightarrow> I s"
  using holds reaches_exec by metis

end

text \<open>A machine in which every step uses up a measure has no run longer than the measure.\<close>

locale well_founded = invariant step I for step :: "'e \<Rightarrow> 's \<Rightarrow> 's option" and I +
  fixes size_of :: "'s \<Rightarrow> nat"
  assumes less: "I s \<Longrightarrow> step e s = Some s' \<Longrightarrow> size_of s' < size_of s"
begin

lemma run_bound: "exec step es s = Some s' \<Longrightarrow> I s \<Longrightarrow> length es + size_of s' \<le> size_of s"
proof (induction es arbitrary: s)
  case (Cons e es)
  from Cons.prems obtain s1 where s1: "step e s = Some s1" "exec step es s1 = Some s'" by (auto split: option.splits)
  show ?case using Cons.IH [OF s1(2) kept [OF Cons.prems(2) s1(1)]] less [OF Cons.prems(2) s1(1)] by simp
qed simp

end

end
