(* ===== verification/Broker.thy ===== *)
theory Broker
  imports Machine GoStd
begin

text \<open>
  The announce channel of the hub, \<open>src/internal/push/push.go\<close>: the \<open>Broker\<close> with its bounded
  subscriber channels and the websocket connections \<open>serveConn\<close> runs over them. A schedule is a list of
  events; the selection the code leaves to \<open>select\<close> is the choice of the next event.
\<close>

section \<open>Bounded channels\<close>

text \<open>A buffered Go channel: a send that does not block, and a receive.\<close>

definition trySend :: "nat \<Rightarrow> 'a \<Rightarrow> 'a list \<Rightarrow> 'a list \<times> bool" where
  "trySend cap x q = (if length q < cap then (q @ [x], True) else (q, False))"

fun recv :: "'a list \<Rightarrow> ('a \<times> 'a list) option" where
  "recv [] = None"
| "recv (x # q) = Some (x, q)"

text \<open>
  The contract of a bounded queue that may refuse: it delivers in order, a subsequence of what was
  offered, never more than its capacity at once.
\<close>

locale lossy_queue =
  fixes cap :: nat and send :: "'a \<Rightarrow> 'q \<Rightarrow> 'q \<times> bool" and receive :: "'q \<Rightarrow> ('a \<times> 'q) option" and buffer :: "'q \<Rightarrow> 'a list"
  assumes send_ok: "send x q = (q', True) \<Longrightarrow> length (buffer q) < cap \<and> buffer q' = buffer q @ [x]"
    and send_full: "send x q = (q', False) \<Longrightarrow> cap \<le> length (buffer q) \<and> q' = q"
    and receive_some: "receive q = Some (x, q') \<Longrightarrow> buffer q = x # buffer q'"
    and receive_none: "receive q = None \<Longrightarrow> buffer q = []"
begin

lemma send_bound: "length (buffer q) \<le> cap \<Longrightarrow> send x q = (q', ok) \<Longrightarrow> length (buffer q') \<le> cap"
  using send_ok [of x q q'] send_full [of x q q'] by (cases ok) auto

lemma send_subseq:
  "subseq (done @ buffer q) offered \<Longrightarrow> send x q = (q', ok) \<Longrightarrow> subseq (done @ buffer q') (offered @ [x])"
  using send_ok [of x q q'] send_full [of x q q'] list_emb_append_mono [of "(=)" "done @ buffer q" offered "[x]" "[x]"]
  by (cases ok) (auto intro: subseq_order.order_trans)

lemma send_count:
  "send x q = (q', ok) \<Longrightarrow> length (buffer q') + (if ok then 0 else 1) = length (buffer q) + 1"
  using send_ok [of x q q'] send_full [of x q q'] by (cases ok) auto

lemma receive_moves: "receive q = Some (x, q') \<Longrightarrow> (done @ [x]) @ buffer q' = done @ buffer q"
  using receive_some by simp

end

interpretation chan: lossy_queue cap "trySend cap" recv "\<lambda>q. q" for cap
  by unfold_locales (auto simp: trySend_def split: if_splits elim: recv.elims)

section \<open>State\<close>

record announce =
  anKind :: string
  anRelease :: string
  anSequence :: u64
  anDigest :: string
  anEnvelope :: bytes

definition subBuffer :: nat where
  "subBuffer = 32"

text \<open>What a connection writes.\<close>

datatype frame = FPing | FAnnounce announce | FClose

text \<open>
  A subscriber with its channel and its connection: what the connection has written, whether it is
  still served, whether it is in the broker's set. \<open>sbOffered\<close> and \<open>sbTaken\<close> record what the broker offered
  and what \<open>serveConn\<close> took; no operation reads them.
\<close>

record sub =
  sbCh :: "announce list"
  sbLive :: bool
  sbServing :: bool
  sbFrames :: "frame list"
  sbOffered :: "announce list"
  sbTaken :: "announce list"

record broker =
  bkSubs :: "sub list"
  bkDropped :: int
  bkAnnounced :: int

definition NewBroker :: broker where
  "NewBroker = \<lparr>bkSubs = [], bkDropped = 0, bkAnnounced = 0\<rparr>"

section \<open>Operations\<close>

definition offer :: "announce \<Rightarrow> sub \<Rightarrow> sub \<times> int" where
  "offer a s = (if sbLive s then (case trySend subBuffer a (sbCh s) of (q, ok) \<Rightarrow>
       (s\<lparr>sbCh := q, sbOffered := sbOffered s @ [a]\<rparr>, if ok then 0 else 1)) else (s, 0))"

definition brAnnounce :: "announce \<Rightarrow> broker \<Rightarrow> broker" where
  "brAnnounce a b = b\<lparr>bkAnnounced := bkAnnounced b + 1, bkSubs := map (\<lambda>s. fst (offer a s)) (bkSubs b),
     bkDropped := bkDropped b + (\<Sum>s\<leftarrow>bkSubs b. snd (offer a s))\<rparr>"

definition Subscribe :: "broker \<Rightarrow> broker" where
  "Subscribe b = b\<lparr>bkSubs := bkSubs b @ [\<lparr>sbCh = [], sbLive = True, sbServing = True, sbFrames = [], sbOffered = [], sbTaken = []\<rparr>]\<rparr>"

definition cancel :: "nat \<Rightarrow> broker \<Rightarrow> broker" where
  "cancel i b = b\<lparr>bkSubs := (bkSubs b)[i := (bkSubs b ! i)\<lparr>sbLive := False\<rparr>]\<rparr>"

definition Count :: "broker \<Rightarrow> nat" where
  "Count b = length (filter sbLive (bkSubs b))"

record broker_stats =
  bsSubscribers :: int
  bsAnnounced :: int
  bsDropped :: int

definition brSnapshot :: "broker \<Rightarrow> broker_stats" where
  "brSnapshot b = \<lparr>bsSubscribers = int (length (filter sbLive (bkSubs b))), bsAnnounced = bkAnnounced b, bsDropped = bkDropped b\<rparr>"

text \<open>The cases of the \<open>select\<close> in \<open>serveConn\<close>; leaving the loop runs the deferred \<open>cancel\<close>. \<open>ok\<close> is whether
  the write of the announcement succeeded.\<close>

datatype wake = CtxDone | ReadErr | Tick | FromCh bool

definition write_frame :: "frame \<Rightarrow> nat \<Rightarrow> broker \<Rightarrow> broker" where
  "write_frame f i b = b\<lparr>bkSubs := (bkSubs b)[i := (bkSubs b ! i)\<lparr>sbFrames := sbFrames (bkSubs b ! i) @ [f]\<rparr>]\<rparr>"

definition leave :: "nat \<Rightarrow> broker \<Rightarrow> broker" where
  "leave i b = cancel i (b\<lparr>bkSubs := (bkSubs b)[i := (bkSubs b ! i)\<lparr>sbServing := False\<rparr>]\<rparr>)"

definition serveConn_step :: "nat \<Rightarrow> wake \<Rightarrow> broker \<Rightarrow> broker option" where
  "serveConn_step i w b = (if i < length (bkSubs b) \<and> sbServing (bkSubs b ! i) then (case w of
       CtxDone \<Rightarrow> Some (leave i (write_frame FClose i b))
     | ReadErr \<Rightarrow> Some (leave i b)
     | Tick \<Rightarrow> Some (write_frame FPing i b)
     | FromCh ok \<Rightarrow> (case recv (sbCh (bkSubs b ! i)) of
           None \<Rightarrow> None
         | Some (a, q) \<Rightarrow>
             (let b1 = b\<lparr>bkSubs := (bkSubs b)[i := (bkSubs b ! i)\<lparr>sbCh := q, sbTaken := sbTaken (bkSubs b ! i) @ [a]\<rparr>]\<rparr> in
              if ok then Some (write_frame (FAnnounce a) i b1) else Some (leave i b1)))) else None)"

text \<open>Events: an announcement, a new connection, a connection's next wake-up, and the goroutine that
  cancels the subscription once the context is done.\<close>

datatype broker_event = EvAnnounce announce | EvConnect | EvWake nat wake | EvCancel nat

definition broker_step :: "broker_event \<Rightarrow> broker \<Rightarrow> broker option" where
  "broker_step ev b = (case ev of
       EvAnnounce a \<Rightarrow> Some (brAnnounce a b)
     | EvConnect \<Rightarrow> Some (Subscribe b)
     | EvWake i w \<Rightarrow> serveConn_step i w b
     | EvCancel i \<Rightarrow> if i < length (bkSubs b) then Some (cancel i b) else None)"

text \<open>The HTTP handler: a request that does not ask for a websocket is told to upgrade.\<close>

definition lower_char :: "char \<Rightarrow> char" where
  "lower_char c = (let n = (of_char c :: nat) in if 65 \<le> n \<and> n \<le> 90 then char_of (n + 32) else c)"

definition lower :: "string \<Rightarrow> string" where
  "lower s = map lower_char s"

datatype handled = Status426 | UpgradeFailed | Served broker

definition brHandler :: "string \<Rightarrow> bool \<Rightarrow> broker \<Rightarrow> handled" where
  "brHandler upgrade upgraded b = (if lower upgrade \<noteq> ''websocket'' then Status426
     else if \<not> upgraded then UpgradeFailed else Served (Subscribe b))"

section \<open>Invariant\<close>

definition announcements :: "frame list \<Rightarrow> announce list" where
  "announcements fs = List.map_filter (\<lambda>f. case f of FAnnounce a \<Rightarrow> Some a | _ \<Rightarrow> None) fs"

definition sub_ok :: "sub \<Rightarrow> bool" where
  "sub_ok s \<longleftrightarrow> length (sbCh s) \<le> subBuffer \<and> subseq (sbTaken s @ sbCh s) (sbOffered s)
     \<and> prefix (announcements (sbFrames s)) (sbTaken s)
     \<and> (sbServing s \<longrightarrow> announcements (sbFrames s) = sbTaken s)
     \<and> (\<not> sbServing s \<longrightarrow> \<not> sbLive s)"

definition lost :: "sub \<Rightarrow> int" where
  "lost s = int (length (sbOffered s)) - int (length (sbTaken s)) - int (length (sbCh s))"

definition broker_ok :: "broker \<Rightarrow> bool" where
  "broker_ok b \<longleftrightarrow> list_all sub_ok (bkSubs b) \<and> bkDropped b = (\<Sum>s\<leftarrow>bkSubs b. lost s)"

lemma announcements_simps [simp]:
  "announcements [] = []" "announcements (fs @ [FAnnounce a]) = announcements fs @ [a]"
  "announcements (fs @ [FPing]) = announcements fs" "announcements (fs @ [FClose]) = announcements fs"
  by (simp_all add: announcements_def List.map_filter_def)

lemma offer_ok:
  assumes "sub_ok s"
  shows "sub_ok (fst (offer a s))" "lost (fst (offer a s)) = lost s + snd (offer a s)"
proof -
  obtain q ok where q: "trySend subBuffer a (sbCh s) = (q, ok)" by fastforce
  show "sub_ok (fst (offer a s))"
    using assms chan.send_bound [OF _ q] chan.send_subseq [OF _ q, of "sbTaken s" "sbOffered s"]
    by (auto simp: offer_def q sub_ok_def)
  show "lost (fst (offer a s)) = lost s + snd (offer a s)"
    using chan.send_count [OF q] by (auto simp: offer_def q lost_def)
qed

lemma sum_list_update_int:
  fixes f :: "'a \<Rightarrow> int"
  assumes "i < length xs"
  shows "(\<Sum>x\<leftarrow>xs[i := y]. f x) = (\<Sum>x\<leftarrow>xs. f x) - f (xs ! i) + f y"
  using assms by (induction xs arbitrary: i) (auto split: nat.split)

lemma broker_ok_update:
  assumes "broker_ok b" and "i < length (bkSubs b)" and "sub_ok s" and "lost s = lost (bkSubs b ! i)"
  shows "broker_ok (b\<lparr>bkSubs := (bkSubs b)[i := s]\<rparr>)"
  using assms by (auto simp: broker_ok_def sum_list_update_int list_all_iff dest!: set_update_subset_insert [THEN subsetD])

lemma broker_ok_sub: "broker_ok b \<Longrightarrow> i < length (bkSubs b) \<Longrightarrow> sub_ok (bkSubs b ! i)"
  by (simp add: broker_ok_def list_all_length)

lemma broker_ok_announce: "broker_ok b \<Longrightarrow> broker_ok (brAnnounce a b)"
proof -
  assume b: "broker_ok b"
  have "list_all sub_ok xs \<Longrightarrow> (\<Sum>s\<leftarrow>map (\<lambda>s. fst (offer a s)) xs. lost s) = (\<Sum>s\<leftarrow>xs. lost s) + (\<Sum>s\<leftarrow>xs. snd (offer a s))" for xs
    by (induction xs) (auto simp: offer_ok)
  then show ?thesis using b by (auto simp: broker_ok_def brAnnounce_def list_all_iff offer_ok)
qed

lemma leave_eq:
  "i < length (bkSubs b) \<Longrightarrow> leave i b = b\<lparr>bkSubs := (bkSubs b)[i := (bkSubs b ! i)\<lparr>sbServing := False, sbLive := False\<rparr>]\<rparr>"
  by (simp add: leave_def cancel_def)

lemma broker_ok_leave:
  assumes "broker_ok b" and "i < length (bkSubs b)"
  shows "broker_ok (leave i b)"
  unfolding leave_eq [OF assms(2)]
  by (rule broker_ok_update [OF assms]) (use broker_ok_sub [OF assms] in \<open>auto simp: sub_ok_def lost_def\<close>)

lemma broker_ok_frame:
  assumes "broker_ok b" and "i < length (bkSubs b)" and "f = FPing \<or> f = FClose"
  shows "broker_ok (write_frame f i b)"
  unfolding write_frame_def
  by (rule broker_ok_update [OF assms(1,2)]) (use broker_ok_sub [OF assms(1,2)] assms(3) in \<open>auto simp: sub_ok_def lost_def\<close>)

lemma broker_ok_take:
  assumes b: "broker_ok b" and i: "i < length (bkSubs b)" and serving: "sbServing (bkSubs b ! i)" and r: "recv (sbCh (bkSubs b ! i)) = Some (a, q)"
  defines "b1 \<equiv> b\<lparr>bkSubs := (bkSubs b)[i := (bkSubs b ! i)\<lparr>sbCh := q, sbTaken := sbTaken (bkSubs b ! i) @ [a]\<rparr>]\<rparr>"
  shows "broker_ok (write_frame (FAnnounce a) i b1)" "broker_ok (leave i b1)"
proof -
  let ?s = "bkSubs b ! i"
  have s: "sub_ok ?s" by (rule broker_ok_sub [OF b i])
  have q: "sbCh ?s = a # q" using chan.receive_some [OF r] .
  have len: "length q \<le> subBuffer" and sub: "subseq (sbTaken ?s @ a # q) (sbOffered ?s)" and an: "announcements (sbFrames ?s) = sbTaken ?s"
    using s serving q by (simp_all add: sub_ok_def)
  have w: "write_frame (FAnnounce a) i b1 = b\<lparr>bkSubs := (bkSubs b)[i := ?s\<lparr>sbCh := q, sbTaken := sbTaken ?s @ [a], sbFrames := sbFrames ?s @ [FAnnounce a]\<rparr>]\<rparr>"
    using i by (simp add: write_frame_def b1_def)
  show "broker_ok (write_frame (FAnnounce a) i b1)"
    unfolding w by (rule broker_ok_update [OF b i]) (use s serving q len sub an in \<open>auto simp: sub_ok_def lost_def\<close>)
  have i1: "i < length (bkSubs b1)" using i by (simp add: b1_def)
  have l: "leave i b1 = b\<lparr>bkSubs := (bkSubs b)[i := ?s\<lparr>sbCh := q, sbTaken := sbTaken ?s @ [a], sbServing := False, sbLive := False\<rparr>]\<rparr>"
    unfolding leave_eq [OF i1] using i by (simp add: b1_def)
  show "broker_ok (leave i b1)"
    unfolding l by (rule broker_ok_update [OF b i]) (use s serving q len sub an in \<open>auto simp: sub_ok_def lost_def\<close>)
qed

lemma broker_ok_step:
  assumes b: "broker_ok b" and run: "broker_step ev b = Some b'"
  shows "broker_ok b'"
proof (cases ev)
  case (EvAnnounce a)
  then show ?thesis using run broker_ok_announce [OF b] by (auto simp: broker_step_def)
next
  case EvConnect
  then show ?thesis using run b by (auto simp: broker_step_def Subscribe_def broker_ok_def sub_ok_def lost_def)
next
  case (EvCancel i)
  then have i: "i < length (bkSubs b)" and b': "b' = cancel i b" using run by (auto simp: broker_step_def split: if_splits)
  show ?thesis
    unfolding b' cancel_def by (rule broker_ok_update [OF b i]) (use broker_ok_sub [OF b i] in \<open>auto simp: sub_ok_def lost_def\<close>)
next
  case (EvWake i w)
  then have i: "i < length (bkSubs b)" and sv: "sbServing (bkSubs b ! i)" and st: "serveConn_step i w b = Some b'"
    using run by (auto simp: broker_step_def serveConn_step_def split: if_splits)
  show ?thesis
  proof (cases w)
    case CtxDone
    then show ?thesis
      using st i sv broker_ok_leave [OF broker_ok_frame [OF b i], of FClose] by (auto simp: serveConn_step_def write_frame_def)
  next
    case ReadErr
    then show ?thesis using st i sv broker_ok_leave [OF b i] by (auto simp: serveConn_step_def)
  next
    case Tick
    then show ?thesis using st i sv broker_ok_frame [OF b i, of FPing] by (auto simp: serveConn_step_def)
  next
    case (FromCh ok)
    then obtain a q where r: "recv (sbCh (bkSubs b ! i)) = Some (a, q)"
      using st i sv by (auto simp: serveConn_step_def split: option.splits)
    show ?thesis using st FromCh i sv r broker_ok_take [OF b i sv r] by (auto simp: serveConn_step_def Let_def split: if_splits)
  qed
qed

interpretation brokerI: invariant broker_step broker_ok
  by unfold_locales (rule broker_ok_step)

lemma NewBroker_ok: "broker_ok NewBroker"
  by (simp add: broker_ok_def NewBroker_def)

section \<open>Properties\<close>


text \<open>Announcing never waits: it is enabled in every state, reaches every live subscriber with room
  in its channel, leaves the channels of the others as they are, and counts one announcement.\<close>

theorem Broker_announce_never_blocks:
  "\<exists>b'. broker_step (EvAnnounce a) b = Some b' \<and> bkAnnounced b' = bkAnnounced b + 1 \<and> length (bkSubs b') = length (bkSubs b)
     \<and> list_all2 (\<lambda>s s'. sbCh s' = (if sbLive s \<and> length (sbCh s) < 32 then sbCh s @ [a] else sbCh s)) (bkSubs b) (bkSubs b')"
  by (auto simp: broker_step_def brAnnounce_def offer_def trySend_def subBuffer_def list_all2_map2 intro!: list_all2_refl)

definition demo_announce :: announce where
  "demo_announce = \<lparr>anKind = ''publish'', anRelease = ''r1'', anSequence = 1, anDigest = [], anEnvelope = [1]\<rparr>"


end
