(* ===== verification/Trigger.thy ===== *)
theory Trigger
  imports Broker Format "HOL-Library.List_Lexorder" "HOL-Library.Char_ord"
begin

text \<open>
  The announce trigger of the hub and the gate of the spokes, \<open>src/internal/push/trigger.go\<close>. What one
  scan sees of the origin directory (listing, stat, content) is its input.
\<close>

section \<open>Data\<close>

record trigger_options =
  toRoot :: string
  toPoll :: int
  toChannels :: "string list"

record fileStamp =
  fsSize :: int
  fsMtime :: int

record trigger =
  trStamps :: "string \<rightharpoonup> fileStamp"
  trAnnounced :: "string \<rightharpoonup> string"
  trPrimed :: bool

text \<open>The directory as a scan finds it: the entries with whether they are directories, and the answers of
  \<open>os.Stat\<close> and \<open>os.ReadFile\<close> per name.\<close>

record scan_input =
  siDir :: "(string \<times> bool) list result"
  siStat :: "string \<Rightarrow> fileStamp result"
  siRead :: "string \<Rightarrow> bytes result"

text \<open>\<open>json.Unmarshal\<close> of the payload into its release and sequence.\<close>

type_synonym header_json = "bytes \<Rightarrow> (string \<times> u64) result"

datatype trigger_out = OError string | OAnnounce announce

definition defaultPoll :: int where
  "defaultPoll = 250000000"

definition NewTrigger :: "trigger_options \<Rightarrow> trigger_options \<times> trigger" where
  "NewTrigger o' = (if toPoll o' \<le> 0 then o'\<lparr>toPoll := defaultPoll\<rparr> else o',
     \<lparr>trStamps = Map.empty, trAnnounced = Map.empty, trPrimed = False\<rparr>)"

section \<open>Operations\<close>

definition kindOf :: "trigger_options \<Rightarrow> string \<Rightarrow> string" where
  "kindOf o' name = (if trimSuffix name ''.json'' \<in> set (toChannels o') then ''promote'' else ''publish'')"

text \<open>The digest is noted before the envelope is parsed.\<close>

definition announceFile ::
  "'x prims_scheme \<Rightarrow> header_json \<Rightarrow> trigger_options \<Rightarrow> scan_input \<Rightarrow> string \<Rightarrow> trigger \<Rightarrow> trigger \<times> trigger_out list" where
  "announceFile P J o' si name t = (case siRead si name of
       Inl e \<Rightarrow> (t, [OError (''read '' @ name)])
     | Inr b \<Rightarrow>
         if trAnnounced t name = Some (Hash b) then (t, [])
         else (let t' = t\<lparr>trAnnounced := (trAnnounced t)(name \<mapsto> Hash b)\<rparr> in
           (case jsonEnvelopeDec P b of
               Inl e \<Rightarrow> (t', [OError (''parse '' @ name)])
             | Inr env \<Rightarrow> (case base64_decode (ePayload env) of
                 None \<Rightarrow> (t', [OError (''payload '' @ name)])
               | Some payload \<Rightarrow> (case J payload of
                   Inl e \<Rightarrow> (t', [OError (''manifest '' @ name)])
                 | Inr (release, sequence) \<Rightarrow> (t', [OAnnounce \<lparr>anKind = kindOf o' name, anRelease = release,
                     anSequence = sequence, anDigest = Hash b, anEnvelope = b\<rparr>]))))))"

definition scan_file ::
  "'x prims_scheme \<Rightarrow> header_json \<Rightarrow> trigger_options \<Rightarrow> scan_input \<Rightarrow> string \<Rightarrow> trigger \<Rightarrow> trigger \<times> trigger_out list" where
  "scan_file P J o' si name t = (case siStat si name of
       Inl _ \<Rightarrow> (t, [])
     | Inr cur \<Rightarrow>
         (let prev = trStamps t name; t' = t\<lparr>trStamps := (trStamps t)(name \<mapsto> cur)\<rparr> in
          if (case prev of Some p \<Rightarrow> cur \<noteq> p | None \<Rightarrow> trPrimed t) then announceFile P J o' si name t' else (t', [])))"

fun scan_files ::
  "'x prims_scheme \<Rightarrow> header_json \<Rightarrow> trigger_options \<Rightarrow> scan_input \<Rightarrow> string list \<Rightarrow> trigger \<Rightarrow> trigger \<times> trigger_out list" where
  "scan_files P J o' si [] t = (t, [])"
| "scan_files P J o' si (name # names) t = (case scan_file P J o' si name t of (t1, out1) \<Rightarrow>
     (case scan_files P J o' si names t1 of (t2, out2) \<Rightarrow> (t2, out1 @ out2)))"

definition release_names :: "(string \<times> bool) list \<Rightarrow> string list" where
  "release_names entries = sort (map fst (filter (\<lambda>(n, d). \<not> (d \<or> \<not> hasSuffix n ''.json'')) entries))"

definition ScanOnce ::
  "'x prims_scheme \<Rightarrow> header_json \<Rightarrow> trigger_options \<Rightarrow> scan_input \<Rightarrow> trigger \<Rightarrow> trigger \<times> trigger_out list" where
  "ScanOnce P J o' si t = (case siDir si of
       Inl e \<Rightarrow> (t, if e = NotExist then [] else [OError ''readdir''])
     | Inr entries \<Rightarrow> (case scan_files P J o' si (release_names entries) t of (t', out) \<Rightarrow> (t'\<lparr>trPrimed := True\<rparr>, out)))"

definition SeenFiles :: "trigger \<Rightarrow> nat" where
  "SeenFiles t = card (dom (trStamps t))"

text \<open>\<open>Run\<close> scans once and then at every tick, until the context ends.\<close>

fun trRun :: "'x prims_scheme \<Rightarrow> header_json \<Rightarrow> trigger_options \<Rightarrow> scan_input list \<Rightarrow> trigger \<Rightarrow> trigger \<times> trigger_out list" where
  "trRun P J o' [] t = (t, [])"
| "trRun P J o' (si # sis) t = (case ScanOnce P J o' si t of (t1, out1) \<Rightarrow> (case trRun P J o' sis t1 of (t2, out2) \<Rightarrow> (t2, out1 @ out2)))"

text \<open>The spoke's gate.\<close>

definition Accept :: "'x prims_scheme \<Rightarrow> announce \<Rightarrow> bytes \<Rightarrow> int \<Rightarrow> manifest result" where
  "Accept P a pub maxArtifact =
     (if length (anEnvelope a) = 0 then Inl (Msg ''announce: empty envelope'')
      else if anDigest a \<noteq> [] \<and> Hash (anEnvelope a) \<noteq> anDigest a then Inl (Msg ''announce: envelope digest mismatch'')
      else (case Verify P (anEnvelope a) pub maxArtifact of
          Inl e \<Rightarrow> Inl (Wrap ''announce'' e)
        | Inr (m, _) \<Rightarrow> Inr m))"

section \<open>What a scan announces\<close>

definition announced_from :: "'x prims_scheme \<Rightarrow> header_json \<Rightarrow> scan_input \<Rightarrow> announce \<Rightarrow> bool" where
  "announced_from P J si a \<longleftrightarrow> (\<exists>name env payload. siRead si name = Inr (anEnvelope a) \<and> hasSuffix name ''.json''
     \<and> anDigest a = Hash (anEnvelope a) \<and> jsonEnvelopeDec P (anEnvelope a) = Inr env
     \<and> base64_decode (ePayload env) = Some payload \<and> J payload = Inr (anRelease a, anSequence a))"

lemma announceFile_out:
  assumes "announceFile P J o' si name t = (t', out)" and "hasSuffix name ''.json''"
  shows "OAnnounce a \<in> set out \<Longrightarrow> announced_from P J si a"
    and "trStamps t' = trStamps t" "trPrimed t' = trPrimed t"
    and "n \<noteq> name \<Longrightarrow> trAnnounced t' n = trAnnounced t n"
  using assms by (auto simp: announceFile_def announced_from_def Let_def split: sum.splits if_splits option.splits prod.splits)

lemma scan_file_out:
  assumes "scan_file P J o' si name t = (t', out)" and "hasSuffix name ''.json''"
  shows "OAnnounce a \<in> set out \<Longrightarrow> announced_from P J si a"
    and "trPrimed t' = trPrimed t"
    and "n \<noteq> name \<Longrightarrow> trStamps t' n = trStamps t n"
    and "siStat si name = Inr cur \<Longrightarrow> trStamps t' name = Some cur"
    and "siStat si name = Inl e \<Longrightarrow> t' = t \<and> out = []"
    and "trStamps t name = None \<Longrightarrow> \<not> trPrimed t \<Longrightarrow> out = []"
    and "siStat si name = Inr cur \<Longrightarrow> trStamps t name = Some cur \<Longrightarrow> out = [] \<and> t' = t"
proof -
  have j: "hasSuffix name ''.json''" by (rule assms(2))
  show "siStat si name = Inl e \<Longrightarrow> t' = t \<and> out = []" using assms(1) by (simp add: scan_file_def)
  show "siStat si name = Inr cur \<Longrightarrow> trStamps t name = Some cur \<Longrightarrow> out = [] \<and> t' = t"
    using assms(1) by (simp add: scan_file_def fun_upd_idem)
  consider e where "siStat si name = Inl e" "t' = t" "out = []"
    | c where "siStat si name = Inr c" "t' = t\<lparr>trStamps := (trStamps t)(name \<mapsto> c)\<rparr>" "out = []"
    | c where "siStat si name = Inr c" "announceFile P J o' si name (t\<lparr>trStamps := (trStamps t)(name \<mapsto> c)\<rparr>) = (t', out)"
        "case trStamps t name of Some p \<Rightarrow> c \<noteq> p | None \<Rightarrow> trPrimed t"
  proof (cases "siStat si name")
    case (Inl e)
    show thesis by (rule that(1) [OF Inl]) (use assms(1) Inl in \<open>simp_all add: scan_file_def\<close>)
  next
    case (Inr c)
    show thesis
    proof (cases "case trStamps t name of Some p \<Rightarrow> c \<noteq> p | None \<Rightarrow> trPrimed t")
      case True
      show thesis by (rule that(3) [OF Inr _ True]) (use assms(1) Inr True in \<open>simp add: scan_file_def Let_def\<close>)
    next
      case False
      show thesis by (rule that(2) [OF Inr]) (use assms(1) Inr False in \<open>simp_all add: scan_file_def Let_def\<close>)
    qed
  qed
  note c = this
  show "OAnnounce a \<in> set out \<Longrightarrow> announced_from P J si a"
    by (cases rule: c) (auto dest: announceFile_out(1) [OF _ j])
  show "trPrimed t' = trPrimed t" by (cases rule: c) (auto dest: announceFile_out(3) [OF _ j])
  show "n \<noteq> name \<Longrightarrow> trStamps t' n = trStamps t n" by (cases rule: c) (auto dest: announceFile_out(2) [OF _ j])
  show "siStat si name = Inr cur \<Longrightarrow> trStamps t' name = Some cur" by (cases rule: c) (auto dest: announceFile_out(2) [OF _ j])
  show "trStamps t name = None \<Longrightarrow> \<not> trPrimed t \<Longrightarrow> out = []" by (cases rule: c) auto
qed

lemma release_names_json: "name \<in> set (release_names entries) \<Longrightarrow> hasSuffix name ''.json''"
  by (auto simp: release_names_def)

lemma scan_files_out:
  assumes "scan_files P J o' si names t = (t', out)" and "\<And>n. n \<in> set names \<Longrightarrow> hasSuffix n ''.json''"
  shows "OAnnounce a \<in> set out \<Longrightarrow> announced_from P J si a"
  using assms
proof (induction names arbitrary: t out)
  case (Cons n names)
  obtain t1 out1 where 1: "scan_file P J o' si n t = (t1, out1)" by fastforce
  obtain out2 where 2: "scan_files P J o' si names t1 = (t', out2)" "out = out1 @ out2"
    using Cons.prems(2) 1 by (auto split: prod.splits)
  show ?case
    using Cons.prems(1,3) Cons.IH [OF _ 2(1)] scan_file_out(1) [OF 1] 2(2) by auto
qed simp

text \<open>Stamps that agree with what a scan sees.\<close>

definition stamped :: "scan_input \<Rightarrow> string \<Rightarrow> trigger \<Rightarrow> bool" where
  "stamped si n t \<longleftrightarrow> (\<forall>cur. siStat si n = Inr cur \<longrightarrow> trStamps t n = Some cur)"

lemma scan_files_first:
  assumes "scan_files P J o' si names t = (t', out)" and "\<And>n. n \<in> set names \<Longrightarrow> hasSuffix n ''.json''"
    and "\<not> trPrimed t" and "\<And>n. trStamps t n = None \<or> stamped si n t"
  shows "out = []"
  using assms
proof (induction names arbitrary: t out)
  case (Cons n names)
  obtain t1 out1 where 1: "scan_file P J o' si n t = (t1, out1)" by fastforce
  obtain out2 where 2: "scan_files P J o' si names t1 = (t', out2)" "out = out1 @ out2"
    using Cons.prems(1) 1 by (auto split: prod.splits)
  have j: "hasSuffix n ''.json''" using Cons.prems(2) by simp
  note s = scan_file_out [OF 1 j]
  have o1: "out1 = []"
  proof (cases "siStat si n")
    case (Inr cur)
    show ?thesis
    proof (cases "trStamps t n")
      case None
      then show ?thesis using s(6) Cons.prems(3) by simp
    next
      case (Some p)
      then have "stamped si n t" using Cons.prems(4) [of n] by simp
      then show ?thesis using s(7) [OF Inr] Inr by (simp add: stamped_def)
    qed
  next
    case (Inl e)
    then show ?thesis using s(5) by simp
  qed
  have inv: "trStamps t1 k = None \<or> stamped si k t1" for k
    using Cons.prems(4) [of k] s(3) [of k] s(4) s(5) unfolding stamped_def
    by (cases "k = n"; cases "siStat si n") auto
  have "out2 = []" by (rule Cons.IH [OF 2(1)]) (use Cons.prems(2,3) s(2) inv in auto)
  then show ?case using o1 2 by simp
qed simp

lemma scan_files_stamps:
  assumes "scan_files P J o' si names t = (t', out)" and "\<And>n. n \<in> set names \<Longrightarrow> hasSuffix n ''.json''"
  shows "(k \<in> set names \<or> stamped si k t \<Longrightarrow> stamped si k t')"
  using assms
proof (induction names arbitrary: t out)
  case (Cons n names)
  obtain t1 out1 where 1: "scan_file P J o' si n t = (t1, out1)" by fastforce
  obtain out2 where 2: "scan_files P J o' si names t1 = (t', out2)" "out = out1 @ out2"
    using Cons.prems(2) 1 by (auto split: prod.splits)
  have j: "hasSuffix n ''.json''" using Cons.prems(3) by simp
  note s = scan_file_out [OF 1 j]
  have "stamped si k t1" if "k = n \<or> stamped si k t"
    using that s(3) [of k] s(4) unfolding stamped_def by (cases "k = n") auto
  then show ?case using Cons.prems(1,3) Cons.IH [OF _ 2(1)] by auto
qed simp

lemma scan_files_quiet:
  assumes "\<And>n. n \<in> set names \<Longrightarrow> hasSuffix n ''.json'' \<and> stamped si n t"
  shows "scan_files P J o' si names t = (t, [])"
  using assms
proof (induction names)
  case (Cons n names)
  obtain t1 out1 where 1: "scan_file P J o' si n t = (t1, out1)" by fastforce
  have "t1 = t \<and> out1 = []"
    using scan_file_out(5,7) [OF 1] Cons.prems [of n] unfolding stamped_def by (cases "siStat si n") auto
  then show ?case using Cons 1 by simp
qed simp

section \<open>Properties\<close>

text \<open>The trigger announces nothing but release files it has read: over any sequence of scans, every
  announcement carries the exact bytes of a \<open>.json\<close> file of the directory at that scan, their digest,
  and the release and sequence of the payload inside.\<close>

theorem Trigger_announces_files:
  shows "\<forall>a. OAnnounce a \<in> set (snd (trRun P J o' sis t)) \<longrightarrow> (\<exists>si \<in> set sis. announced_from P J si a)"
proof (induction sis arbitrary: t)
  case (Cons si sis)
  obtain t1 out1 where 1: "ScanOnce P J o' si t = (t1, out1)" by fastforce
  have "announced_from P J si a" if "OAnnounce a \<in> set out1" for a
  proof (cases "siDir si")
    case (Inl e)
    then show ?thesis using 1 that by (auto simp: ScanOnce_def split: if_splits)
  next
    case (Inr entries)
    then obtain t2 where "scan_files P J o' si (release_names entries) t = (t2, out1)"
      using 1 by (auto simp: ScanOnce_def split: prod.splits)
    from scan_files_out [OF this release_names_json that] show ?thesis .
  qed
  moreover obtain t2 out2 where 2: "trRun P J o' sis t1 = (t2, out2)" by fastforce
  then have "OAnnounce a \<in> set out2 \<Longrightarrow> \<exists>si \<in> set sis. announced_from P J si a" for a
    using Cons [of t1] by simp
  ultimately show ?case using 1 2 by auto
qed simp

text \<open>The first scan is silent, so that a restarted hub does not announce what it finds; and a second
  scan of an unchanged directory announces nothing and changes nothing.\<close>

theorem Trigger_only_writes:
  assumes "siDir si = Inr entries"
  shows "snd (ScanOnce P J o' si (snd (NewTrigger o0))) = []
     \<and> ScanOnce P J o' si (fst (ScanOnce P J o' si t)) = (fst (ScanOnce P J o' si t), [])"
proof
  let ?ns = "release_names entries"
  obtain t1 out1 where 1: "scan_files P J o' si ?ns (snd (NewTrigger o0)) = (t1, out1)" by fastforce
  have "out1 = []"
    by (rule scan_files_first [OF 1 release_names_json]) (simp_all add: NewTrigger_def)
  then show "snd (ScanOnce P J o' si (snd (NewTrigger o0))) = []" using 1 assms by (simp add: ScanOnce_def)
  obtain t2 out2 where 2: "scan_files P J o' si ?ns t = (t2, out2)" by fastforce
  have "stamped si n (t2\<lparr>trPrimed := True\<rparr>)" if "n \<in> set ?ns" for n
    using scan_files_stamps [OF 2 release_names_json, where k = n] that by (simp add: stamped_def)
  then have "scan_files P J o' si ?ns (t2\<lparr>trPrimed := True\<rparr>) = (t2\<lparr>trPrimed := True\<rparr>, [])"
    by (intro scan_files_quiet conjI release_names_json)
  then show "ScanOnce P J o' si (fst (ScanOnce P J o' si t)) = (fst (ScanOnce P J o' si t), [])"
    using 2 assms by (simp add: ScanOnce_def)
qed

text \<open>A spoke accepts an announcement exactly when its envelope verifies under the pinned key and the
  announced digest, if any, is the envelope's; kind, release and sequence of the announcement have no
  say. So what the trigger sends for a release that verifies is accepted, and nothing unsigned is.\<close>

theorem Accept_exact:
  "(Accept P a pub maxArtifact = Inr m \<longleftrightarrow>
      anEnvelope a \<noteq> [] \<and> (anDigest a = [] \<or> anDigest a = Hash (anEnvelope a))
      \<and> (\<exists>d. Verify P (anEnvelope a) pub maxArtifact = Inr (m, d)))
   \<and> (announced_from P J si a \<longrightarrow> anEnvelope a \<noteq> [] \<longrightarrow>
      (Accept P a pub maxArtifact = Inr m \<longleftrightarrow> (\<exists>d. Verify P (anEnvelope a) pub maxArtifact = Inr (m, d))))"
  by (auto simp: Accept_def announced_from_def split: sum.splits)

definition demo_scan :: scan_input where
  "demo_scan = \<lparr>siDir = Inr [(''desired.json'', False), (''tmp'', True)], siStat = (\<lambda>n. Inr \<lparr>fsSize = 3, fsMtime = 7\<rparr>),
     siRead = (\<lambda>n. Inr (Sign demo_prims demo_manifest (replicate 64 1)))\<rparr>"

definition demo_header :: header_json where
  "demo_header = (\<lambda>b. Inr (''r1'', 1))"

definition primed_trigger :: trigger where
  "primed_trigger = \<lparr>trStamps = [''desired.json'' \<mapsto> \<lparr>fsSize = 3, fsMtime = 6\<rparr>], trAnnounced = Map.empty, trPrimed = True\<rparr>"

definition demo_trigger_options :: trigger_options where
  "demo_trigger_options = \<lparr>toRoot = ''/o'', toPoll = 0, toChannels = [''desired'']\<rparr>"

definition promoted :: announce where
  "promoted = \<lparr>anKind = ''promote'', anRelease = ''r1'', anSequence = 1,
     anDigest = Hash (Sign demo_prims demo_manifest (replicate 64 1)), anEnvelope = Sign demo_prims demo_manifest (replicate 64 1)\<rparr>"

lemma promoted_out: "snd (trRun demo_prims demo_header demo_trigger_options [demo_scan] primed_trigger) = [OAnnounce promoted]"
proof -
  have names: "release_names [(''desired.json'', False), (''tmp'', True)] = [''desired.json'']"
    by (simp add: release_names_def hasSuffix_def)
  have k: "kindOf demo_trigger_options ''desired.json'' = ''promote''"
    by (simp add: kindOf_def demo_trigger_options_def trimSuffix_def hasSuffix_def)
  show ?thesis
    by (simp add: ScanOnce_def demo_scan_def names scan_file_def Let_def primed_trigger_def announceFile_def Sign_def
        demo_prims_sel demo_header_def promoted_def k [unfolded] del: base64_encode.simps)
qed

theorem Trigger_announces_files_witness:
  "\<exists>si \<in> set [demo_scan]. announced_from demo_prims demo_header si promoted"
  using Trigger_announces_files [of demo_prims demo_header demo_trigger_options "[demo_scan]" primed_trigger] promoted_out
  by (metis list.set_intros(1))

theorem Trigger_only_writes_witness:
  "snd (ScanOnce demo_prims demo_header demo_trigger_options demo_scan (snd (NewTrigger demo_trigger_options))) = []"
  using Trigger_only_writes [of demo_scan "[(''desired.json'', False), (''tmp'', True)]" demo_prims demo_header demo_trigger_options]
  by (simp add: demo_scan_def)

theorem Accept_exact_witness:
  "Accept demo_prims promoted (replicate 32 1) 1000 = Inr demo_manifest"
proof -
  have "length (Sign demo_prims demo_manifest (replicate 64 1)) \<noteq> 0"
    by (simp add: Sign_def demo_prims_sel Let_def)
  then have e: "anEnvelope promoted \<noteq> []" "anDigest promoted = Hash (anEnvelope promoted)" by (auto simp: promoted_def)
  have "Verify demo_prims (Sign demo_prims demo_manifest (replicate 64 1)) (replicate 32 1) 1000 = Inr (demo_manifest, Hash [1])"
    using demo_sign_short demo_manifest_ok
    by (simp add: Verify_ok_iff Sign_def demo_prims_sel Let_def edPublic_def del: base64_encode.simps)
  then have "\<exists>d. Verify demo_prims (anEnvelope promoted) (replicate 32 1) 1000 = Inr (demo_manifest, d)" by (auto simp: promoted_def)
  with e Accept_exact [of demo_prims promoted "replicate 32 1" 1000 demo_manifest demo_header demo_scan] show ?thesis by blast
qed

end
