(* ===== verification/PushClient.thy ===== *)
theory PushClient
  imports Broker
begin

text \<open>
  The spoke's end of the announce channel, \<open>src/internal/push/push.go\<close> (\<open>Run\<close>, \<open>jitter\<close>, \<open>sleep\<close>,
  \<open>minDuration\<close>). The loop has no end of its own: the model follows it step by step, over an environment
  that answers the context, the dialer, the socket, the random source and the timer.
\<close>

section \<open>Data\<close>

record client_options =
  coURL :: string
  coDevice :: string
  coHandler :: bool
  coBackoff :: int
  coMaxBackoff :: int
  coDialTimeout :: int

text \<open>Answers by the number of questions asked before: is the context done, does the dial succeed, what
  does the socket read, what is drawn below a bound, does the timer fire before the context ends.\<close>

record push_env =
  peDone :: "nat \<Rightarrow> bool"
  peDial :: "nat \<Rightarrow> bool"
  peRead :: "nat \<Rightarrow> bytes option"
  peRand :: "nat \<Rightarrow> int \<Rightarrow> int"
  peFires :: "nat \<Rightarrow> bool"

datatype phase = Dialing int | Reading int | Stopped

record push_client =
  pcTick :: nat
  pcPhase :: phase
  pcDials :: "(string \<times> string) list list"
  pcSlept :: "int list"
  pcHandled :: "announce list"

section \<open>Operations\<close>

definition minDuration :: "int \<Rightarrow> int \<Rightarrow> int" where
  "minDuration a b = (if a < b then a else b)"

definition push_jitter :: "(int \<Rightarrow> int) \<Rightarrow> int \<Rightarrow> int" where
  "push_jitter draw d = (if d \<le> 0 then d else (let half = d div 2 in half + draw (d - half + 1)))"

definition withDefaults :: "client_options \<Rightarrow> client_options" where
  "withDefaults o' = (let o1 = (if coBackoff o' \<le> 0 then o'\<lparr>coBackoff := 1000000000\<rparr> else o');
       o2 = (if coMaxBackoff o1 < coBackoff o1 then o1\<lparr>coMaxBackoff := 30000000000\<rparr> else o1)
     in if coDialTimeout o2 \<le> 0 then o2\<lparr>coDialTimeout := 5000000000\<rparr> else o2)"

definition startClient :: "client_options \<Rightarrow> push_client" where
  "startClient o' = \<lparr>pcTick = 0, pcPhase = Dialing (coBackoff (withDefaults o')), pcDials = [], pcSlept = [], pcHandled = []\<rparr>"

text \<open>\<open>sleep\<close> of the jittered delay, then the next dial with the delay doubled.\<close>

definition pause :: "push_env \<Rightarrow> client_options \<Rightarrow> int \<Rightarrow> push_client \<Rightarrow> push_client" where
  "pause E o' backoff c =
     (let d = push_jitter (peRand E (pcTick c)) backoff; c1 = c\<lparr>pcTick := Suc (pcTick c), pcSlept := pcSlept c @ [d]\<rparr> in
      if peFires E (pcTick c) then c1\<lparr>pcPhase := Dialing (minDuration (wrap64 (backoff * 2)) (coMaxBackoff o'))\<rparr>
      else c1\<lparr>pcPhase := Stopped\<rparr>)"

definition dialHeader :: "client_options \<Rightarrow> (string \<times> string) list" where
  "dialHeader o' = (if coDevice o' \<noteq> [] then [(''X-Edgelab-Device'', coDevice o')] else [])"

definition client_step :: "push_env \<Rightarrow> (bytes \<Rightarrow> announce result) \<Rightarrow> client_options \<Rightarrow> push_client \<Rightarrow> push_client" where
  "client_step E J o' c = (case pcPhase c of
       Stopped \<Rightarrow> c
     | Dialing backoff \<Rightarrow>
         if peDone E (pcTick c) then c\<lparr>pcTick := Suc (pcTick c), pcPhase := Stopped\<rparr>
         else (let c1 = c\<lparr>pcTick := Suc (pcTick c), pcDials := pcDials c @ [dialHeader o']\<rparr> in
           if peDial E (pcTick c) then c1\<lparr>pcPhase := Reading (coBackoff o')\<rparr> else pause E o' backoff c1)
     | Reading backoff \<Rightarrow>
         if peDone E (pcTick c) then c\<lparr>pcTick := Suc (pcTick c), pcPhase := Stopped\<rparr>
         else (case peRead E (pcTick c) of
             Some msg \<Rightarrow> c\<lparr>pcTick := Suc (pcTick c), pcHandled := pcHandled c @
               (case J msg of Inr a \<Rightarrow> if coHandler o' then [a] else [] | Inl _ \<Rightarrow> [])\<rparr>
           | None \<Rightarrow>
               if peDone E (Suc (pcTick c)) then c\<lparr>pcTick := Suc (Suc (pcTick c)), pcPhase := Stopped\<rparr>
               else pause E o' backoff (c\<lparr>pcTick := Suc (pcTick c)\<rparr>)))"

text \<open>\<open>Run\<close>, followed for a number of steps.\<close>

primrec runClient :: "push_env \<Rightarrow> (bytes \<Rightarrow> announce result) \<Rightarrow> client_options \<Rightarrow> nat \<Rightarrow> push_client" where
  "runClient E J o' 0 = startClient o'"
| "runClient E J o' (Suc n) = client_step E J (withDefaults o') (runClient E J o' n)"

section \<open>Backoff\<close>

definition fair_draws :: "push_env \<Rightarrow> bool" where
  "fair_draws E \<longleftrightarrow> (\<forall>k n. 0 < n \<longrightarrow> 0 \<le> peRand E k n \<and> peRand E k n < n)"

definition backoff_ok :: "client_options \<Rightarrow> int \<Rightarrow> bool" where
  "backoff_ok o' b \<longleftrightarrow> min (coBackoff o') (coMaxBackoff o') \<le> b \<and> b \<le> max (coBackoff o') (coMaxBackoff o')"

lemma withDefaults_pos: "0 < coBackoff (withDefaults o')" "0 < coMaxBackoff (withDefaults o')" "0 < coDialTimeout (withDefaults o')"
  by (auto simp: withDefaults_def Let_def)

lemma jitter_bounds:
  assumes "fair_draws E" and "0 < d"
  shows "d div 2 \<le> push_jitter (peRand E k) d \<and> push_jitter (peRand E k) d \<le> d"
proof -
  have "0 < d - d div 2 + 1" using assms(2) by simp
  then have "0 \<le> peRand E k (d - d div 2 + 1)" "peRand E k (d - d div 2 + 1) < d - d div 2 + 1"
    using assms(1) unfolding fair_draws_def by blast+
  then show ?thesis using assms(2) by (simp add: push_jitter_def Let_def)
qed

lemma doubled_ok:
  assumes "backoff_ok o' b" and "0 < coBackoff o'" "0 < coMaxBackoff o'" and "max (coBackoff o') (coMaxBackoff o') < 2 ^ 62"
  shows "backoff_ok o' (minDuration (wrap64 (b * 2)) (coMaxBackoff o'))"
proof -
  have "0 < b" "b < 2 ^ 62" using assms by (auto simp: backoff_ok_def)
  then have "wrap64 (b * 2) = b * 2" by (simp add: int64_range_def)
  then show ?thesis using assms by (auto simp: backoff_ok_def minDuration_def)
qed

definition client_ok :: "client_options \<Rightarrow> push_client \<Rightarrow> bool" where
  "client_ok o' c \<longleftrightarrow> (\<forall>b. pcPhase c = Dialing b \<or> pcPhase c = Reading b \<longrightarrow> backoff_ok o' b)
     \<and> list_all (\<lambda>d. min (coBackoff o') (coMaxBackoff o') div 2 \<le> d \<and> d \<le> max (coBackoff o') (coMaxBackoff o')) (pcSlept c)
     \<and> list_all (\<lambda>h. h = dialHeader o') (pcDials c)"

lemma pause_ok:
  assumes f: "fair_draws E" and b: "backoff_ok o' b" and o: "0 < coBackoff o'" "0 < coMaxBackoff o'"
    "max (coBackoff o') (coMaxBackoff o') < 2 ^ 62" and c: "client_ok o' (c\<lparr>pcPhase := Stopped\<rparr>)"
  shows "client_ok o' (pause E o' b c)"
proof -
  have pos: "0 < b" using b o by (auto simp: backoff_ok_def)
  have "min (coBackoff o') (coMaxBackoff o') div 2 \<le> b div 2" using b by (intro zdiv_mono1) (auto simp: backoff_ok_def)
  then have "min (coBackoff o') (coMaxBackoff o') div 2 \<le> push_jitter (peRand E (pcTick c)) b"
    "push_jitter (peRand E (pcTick c)) b \<le> max (coBackoff o') (coMaxBackoff o')"
    using jitter_bounds [OF f pos, of "pcTick c"] b by (auto simp: backoff_ok_def)
  then show ?thesis using c doubled_ok [OF b o] by (auto simp: pause_def Let_def client_ok_def)
qed

lemma client_step_ok:
  assumes f: "fair_draws E" and o: "0 < coBackoff o'" "0 < coMaxBackoff o'" "max (coBackoff o') (coMaxBackoff o') < 2 ^ 62"
    and c: "client_ok o' c"
  shows "client_ok o' (client_step E J o' c)"
proof (cases "pcPhase c")
  case (Dialing b)
  then have b: "backoff_ok o' b" using c by (simp add: client_ok_def)
  let ?c = "c\<lparr>pcTick := Suc (pcTick c), pcDials := pcDials c @ [dialHeader o']\<rparr>"
  have "client_ok o' (pause E o' b ?c)" by (rule pause_ok [OF f b o]) (use c in \<open>simp add: client_ok_def\<close>)
  moreover have "client_ok o' (?c\<lparr>pcPhase := Reading (coBackoff o')\<rparr>)" using c by (auto simp: client_ok_def backoff_ok_def)
  moreover have "client_ok o' (c\<lparr>pcTick := Suc (pcTick c), pcPhase := Stopped\<rparr>)" using c by (simp add: client_ok_def)
  ultimately show ?thesis using Dialing by (simp add: client_step_def Let_def)
next
  case (Reading b)
  then have b: "backoff_ok o' b" using c by (simp add: client_ok_def)
  have "client_ok o' (pause E o' b (c\<lparr>pcTick := Suc (pcTick c)\<rparr>))" by (rule pause_ok [OF f b o]) (use c in \<open>simp add: client_ok_def\<close>)
  moreover have "client_ok o' (c\<lparr>pcTick := k, pcPhase := Stopped\<rparr>)" for k using c by (simp add: client_ok_def)
  moreover have "client_ok o' (c\<lparr>pcTick := k, pcHandled := as\<rparr>)" for k as using c by (simp add: client_ok_def)
  ultimately show ?thesis using Reading by (simp add: client_step_def split: option.split)
qed (use c in \<open>simp add: client_step_def\<close>)

section \<open>Properties\<close>

text \<open>C40. However often the connection fails, every pause before a reconnect lies between half of the
  smaller and the whole of the larger of the configured delays (after the defaults are filled in), and
  every dial identifies the device as configured. The random source draws within its bound, and the
  delays are far enough from the 64-bit limit for doubling not to wrap.\<close>

theorem push_backoff_bounded:
  assumes "fair_draws E" and "max (coBackoff (withDefaults o')) (coMaxBackoff (withDefaults o')) < 2 ^ 62"
  shows "list_all (\<lambda>d. min (coBackoff (withDefaults o')) (coMaxBackoff (withDefaults o')) div 2 \<le> d
           \<and> d \<le> max (coBackoff (withDefaults o')) (coMaxBackoff (withDefaults o'))) (pcSlept (runClient E J o' n))
     \<and> list_all (\<lambda>h. h = (if coDevice o' = [] then [] else [(''X-Edgelab-Device'', coDevice o')])) (pcDials (runClient E J o' n))"
proof -
  let ?o = "withDefaults o'"
  have "client_ok ?o (runClient E J o' n)"
  proof (induction n)
    case 0
    show ?case by (auto simp: startClient_def client_ok_def backoff_ok_def)
  next
    case (Suc n)
    show ?case unfolding runClient.simps by (rule client_step_ok [OF assms(1) withDefaults_pos(1,2) assms(2) Suc])
  qed
  moreover have "coDevice ?o = coDevice o'" by (simp add: withDefaults_def Let_def)
  ultimately show ?thesis unfolding client_ok_def dialHeader_def by (simp split: if_splits)
qed

definition flaky :: push_env where
  "flaky = \<lparr>peDone = (\<lambda>_. False), peDial = (\<lambda>_. False), peRead = (\<lambda>_. None), peRand = (\<lambda>_ n. n - 1), peFires = (\<lambda>_. True)\<rparr>"

definition spoke_options :: client_options where
  "spoke_options = \<lparr>coURL = ''wss://h/events'', coDevice = ''pi1'', coHandler = True, coBackoff = 0, coMaxBackoff = 0, coDialTimeout = 0\<rparr>"

theorem push_backoff_bounded_witness:
  "list_all (\<lambda>d. 500000000 \<le> d \<and> d \<le> 30000000000) (pcSlept (runClient flaky (\<lambda>_. Inl (Msg [])) spoke_options 100))
   \<and> pcSlept (runClient flaky (\<lambda>_. Inl (Msg [])) spoke_options 3) = [1000000000, 2000000000, 4000000000]"
proof -
  have f: "fair_draws flaky" by (simp add: fair_draws_def flaky_def)
  have o: "coBackoff (withDefaults spoke_options) = 1000000000" "coMaxBackoff (withDefaults spoke_options) = 30000000000"
    by (simp_all add: withDefaults_def spoke_options_def)
  have "pcSlept (runClient flaky (\<lambda>_. Inl (Msg [])) spoke_options 3) = [1000000000, 2000000000, 4000000000]"
    by (simp add: numeral_3_eq_3 client_step_def startClient_def pause_def push_jitter_def minDuration_def o flaky_def Let_def
        wrap64_id int64_range_def)
  then show ?thesis using push_backoff_bounded [OF f, of spoke_options "\<lambda>_. Inl (Msg [])" 100] by (simp add: o)
qed

end
