(* ===== verification/Server.thy ===== *)
theory Server
  imports Receipts
begin

text \<open>
  The origin with its fault plan, \<open>src/internal/lab/server.go\<close>, and its receipts endpoint,
  \<open>src/internal/lab/telemetry.go\<close> (\<open>receipts\<close>). A handler runs over the machine and its own variables:
  the counters, the pacer and the response it is writing. An error of the computation is the handler's
  early \<open>return\<close>.
\<close>

section \<open>Data\<close>

record fault_plan =
  fpRateKbit :: int
  fpLatencyMS :: int
  fpOffline :: bool
  fpOfflineForMS :: int
  fpFailFirst :: int
  fpDropEvery :: int
  fpDropAfterBytes :: int
  fpCorruptFirst :: int
  fpStallFirst :: int
  fpStallMS :: int

record server_stats =
  ssRequests :: int
  ssChunkRequests :: int
  ssMetadataRequests :: int
  ssChunkBodyBytes :: int
  ssMetadataBodyBytes :: int
  ssChunkRetryBodyBytes :: int
  ssDrops :: int
  ssFailures :: int
  ssCorruptions :: int
  ssStalls :: int
  ssObjectRequests :: "string \<rightharpoonup> int"

text \<open>The server's configuration; \<open>svLoader\<close> stands for an installed \<open>ObjectLoader\<close>, empty paths and names for
  the empty string.\<close>

record fault_server =
  svRoot :: path
  svPlanFile :: path
  svReceiptsDir :: path
  svPlan :: fault_plan
  svStarted :: int
  svLoader :: "(string \<Rightarrow> bytes result) option"
  svDeviceHeader :: string
  svObserver :: bool
  svEvents :: bool

record server_request =
  sqMethod :: string
  sqPath :: string
  sqHeaders :: "(string \<times> string) list"
  sqBody :: bytes

text \<open>The variables of a handler: counters and pacer of the server, and the response so far. \<open>hvClosed\<close>: the
  connection was taken over and closed; \<open>hvEvents\<close>: the request went to the websocket handler.\<close>

record handler_vars =
  hvStats :: server_stats
  hvNext :: int
  hvStatus :: "int option"
  hvHeaders :: "(string \<times> string) list"
  hvBody :: bytes
  hvClosed :: bool
  hvEvents :: bool
  hvObserved :: "(string \<times> bool \<times> int) list"

type_synonym 'a sv = "(world \<times> handler_vars, 'a) sm"

text \<open>Library operations: JSON of the fault plan, of a receipt (from the bytes the limited reader lets through,
  and whether it fails after them), of the lists and of the counters, and the text of an error.\<close>

record server_prims = agent_prims +
  jsonPlanDec :: "bytes \<Rightarrow> fault_plan result"
  jsonReceiptStrict :: "bytes \<Rightarrow> bool \<Rightarrow> receipt result"
  jsonReceipts :: "receipt list \<Rightarrow> bytes"
  jsonStats :: "server_stats \<times> int \<Rightarrow> bytes"
  errText :: "error \<Rightarrow> string"

definition zero_stats :: server_stats where
  "zero_stats = \<lparr>ssRequests = 0, ssChunkRequests = 0, ssMetadataRequests = 0, ssChunkBodyBytes = 0, ssMetadataBodyBytes = 0,
     ssChunkRetryBodyBytes = 0, ssDrops = 0, ssFailures = 0, ssCorruptions = 0, ssStalls = 0, ssObjectRequests = Map.empty\<rparr>"

definition NewFaultServer :: "path \<Rightarrow> fault_plan \<Rightarrow> int \<Rightarrow> fault_server" where
  "NewFaultServer root plan now = \<lparr>svRoot = root, svPlanFile = [], svReceiptsDir = [], svPlan = plan, svStarted = now,
     svLoader = None, svDeviceHeader = [], svObserver = False, svEvents = False\<rparr>"

section \<open>Pieces of a response\<close>

definition stats :: "(server_stats \<Rightarrow> server_stats) \<Rightarrow> unit sv" where
  "stats f = modS (\<lambda>v. v\<lparr>hvStats := f (hvStats v)\<rparr>)"

definition setHeader :: "string \<Rightarrow> string \<Rightarrow> unit sv" where
  "setHeader k x = modS (\<lambda>v. v\<lparr>hvHeaders := AList.update k x (hvHeaders v)\<rparr>)"

text \<open>The first status wins.\<close>

definition writeHeader :: "int \<Rightarrow> unit sv" where
  "writeHeader code = modS (\<lambda>v. if hvStatus v = None then v\<lparr>hvStatus := Some code\<rparr> else v)"

text \<open>\<open>w.Write\<close>: how much of the data went out, and whether it failed.\<close>

definition respond :: "env \<Rightarrow> bytes \<Rightarrow> (nat \<times> bool) sv" where
  "respond E b st = (case st of (w, v) \<Rightarrow>
     (let bad = io_fails E (tick w); n = (if bad then min (short_write E (tick w)) (length b) else length b) in
      (Inr (n, bad), (w\<lparr>tick := Suc (tick w)\<rparr>,
         v\<lparr>hvStatus := (case hvStatus v of None \<Rightarrow> Some 200 | s \<Rightarrow> s), hvBody := hvBody v @ take n b\<rparr>))))"

definition httpError :: "env \<Rightarrow> string \<Rightarrow> int \<Rightarrow> 'a sv" where
  "httpError E msg code =
     bindM (modS (\<lambda>v. v\<lparr>hvHeaders := AList.delete ''Content-Length'' (hvHeaders v)\<rparr>)) (\<lambda>_.
     bindM (setHeader ''Content-Type'' ''text/plain; charset=utf-8'') (\<lambda>_.
     bindM (setHeader ''X-Content-Type-Options'' ''nosniff'') (\<lambda>_.
     bindM (writeHeader code) (\<lambda>_. bindM (respond E (bytes_of (msg @ [CHR 0x0A]))) (\<lambda>_. throw (Msg msg))))))"

definition ssSnapshot :: "server_stats \<Rightarrow> fault_server \<Rightarrow> server_stats \<times> int" where
  "ssSnapshot s sv = (s, svStarted sv)"

definition readPlan :: "'x server_prims_scheme \<Rightarrow> env \<Rightarrow> fault_server \<Rightarrow> fault_plan io" where
  "readPlan P E sv = (if svPlanFile sv = [] then ret (svPlan sv)
     else bindM (osReadFile E (svPlanFile sv)) (\<lambda>b. liftR (jsonPlanDec P b)))"

definition msNanos :: "int \<Rightarrow> int" where
  "msNanos ms = wrap64 (ms * 1000000)"

definition offlineNow :: "fault_server \<Rightarrow> fault_plan \<Rightarrow> int \<Rightarrow> bool" where
  "offlineNow sv plan now \<longleftrightarrow> fpOffline plan \<or> (fpOfflineForMS plan > 0 \<and> now - svStarted sv < msNanos (fpOfflineForMS plan))"

text \<open>
  The time of \<open>n\<close> bytes at the rate, truncated to nanoseconds as the conversion of the quotient does. The
  code divides floating-point numbers; below \<open>2\<^sup>5\<^sup>3\<close> the quotient truncates to the same integer.
\<close>

definition paceFor :: "nat \<Rightarrow> int \<Rightarrow> int" where
  "paceFor n rateKbit = (let r = wrap64 (rateKbit * 1000); bits = int n * 8 * 1000000000 in
     if r = 0 then 0 else if r > 0 then bits div r else - (bits div (- r)))"

definition pacerWait :: "env \<Rightarrow> nat \<Rightarrow> int \<Rightarrow> unit sv" where
  "pacerWait E n rateKbit =
     (if rateKbit \<le> 0 then ret ()
      else bindM (onFst (timeNow E)) (\<lambda>now.
           bindM (modS (\<lambda>v. v\<lparr>hvNext := (if hvNext v < now then now else hvNext v) + paceFor n rateKbit\<rparr>)) (\<lambda>_.
           bindM (onFst (timeNow E)) (\<lambda>now'.
           bindM getS (\<lambda>v. onFst (sleepFor E (hvNext v - now')))))))"

section \<open>Routing\<close>

definition isChunkRel :: "string list \<Rightarrow> bool" where
  "isChunkRel parts \<longleftrightarrow> length parts = 3 \<and> parts ! 0 = ''chunks'' \<and> length (parts ! 1) = 2
     \<and> hasSuffix (parts ! 2) ''.gz'' \<and> hexDigest (trimSuffix (parts ! 2) ''.gz'')"

definition isMetaRel :: "string list \<Rightarrow> bool" where
  "isMetaRel parts \<longleftrightarrow> length parts = 2 \<and> parts ! 0 = ''releases''
     \<and> hasSuffix (parts ! 1) ''.json'' \<and> safeRelease (trimSuffix (parts ! 1) ''.json'')"

definition sqHeader :: "server_request \<Rightarrow> string \<Rightarrow> string" where
  "sqHeader r k = (case map_of (sqHeaders r) k of Some x \<Rightarrow> x | None \<Rightarrow> [])"

definition observe :: "fault_server \<Rightarrow> server_request \<Rightarrow> bool \<Rightarrow> int \<Rightarrow> unit sv" where
  "observe sv r isChunk n = (if \<not> svObserver sv \<or> svDeviceHeader sv = [] then ret ()
     else modS (\<lambda>v. v\<lparr>hvObserved := hvObserved v @ [(sqHeader r (svDeviceHeader sv), isChunk, n)]\<rparr>))"

section \<open>The object path\<close>

text \<open>The counters of an arriving request: its number, its number among the chunk requests, and whether the
  chunk was asked for before.\<close>

definition count_request :: "string \<Rightarrow> bool \<Rightarrow> (int \<times> int \<times> bool) sv" where
  "count_request rel isChunk st = (case st of (w, v) \<Rightarrow>
     (let s = (hvStats v)\<lparr>ssRequests := ssRequests (hvStats v) + 1\<rparr> in
      if isChunk then
        (let k = (case ssObjectRequests s rel of Some n \<Rightarrow> n | None \<Rightarrow> 0) + 1;
             s' = s\<lparr>ssChunkRequests := ssChunkRequests s + 1, ssObjectRequests := (ssObjectRequests s)(rel \<mapsto> k)\<rparr> in
         (Inr (ssRequests s', ssChunkRequests s', k > 1), (w, v\<lparr>hvStats := s'\<rparr>)))
      else (let s' = s\<lparr>ssMetadataRequests := ssMetadataRequests s + 1\<rparr> in
         (Inr (ssRequests s', 0, False), (w, v\<lparr>hvStats := s'\<rparr>)))))"

definition flipped :: "bytes \<Rightarrow> bytes" where
  "flipped b = b[length b div 2 := (b ! (length b div 2)) XOR 0x40]"

definition drop_limit :: "fault_plan \<Rightarrow> nat \<Rightarrow> nat" where
  "drop_limit plan len = (let n = (if fpDropAfterBytes plan \<le> 0 then 4096 else nat (fpDropAfterBytes plan)) in
     if n \<ge> len then len div 2 else n)"

definition count_bytes :: "bool \<Rightarrow> bool \<Rightarrow> nat \<Rightarrow> server_stats \<Rightarrow> server_stats" where
  "count_bytes isChunk repeated n s = (if isChunk
     then s\<lparr>ssChunkBodyBytes := ssChunkBodyBytes s + int n,
            ssChunkRetryBodyBytes := ssChunkRetryBodyBytes s + (if repeated then int n else 0)\<rparr>
     else s\<lparr>ssMetadataBodyBytes := ssMetadataBodyBytes s + int n\<rparr>)"

text \<open>The write loop: pieces of 8192 bytes, paced, up to the limit. A writer that reports no byte and no error
  breaks the contract of \<open>io.Writer\<close>; the model ends the loop there.\<close>

function send_body :: "env \<Rightarrow> fault_plan \<Rightarrow> bool \<Rightarrow> bool \<Rightarrow> bytes \<Rightarrow> nat \<Rightarrow> nat \<Rightarrow> nat sv" where
  "send_body E plan isChunk repeated data limit off =
     (if limit \<le> off then ret off
      else (let upto = min (off + 8192) limit in
        bindM (pacerWait E (upto - off) (fpRateKbit plan)) (\<lambda>_.
        bindM (respond E (take (upto - off) (drop off data))) (\<lambda>(n, bad).
        bindM (stats (count_bytes isChunk repeated n)) (\<lambda>_.
        if bad \<or> n = 0 then throw IOError
        else send_body E plan isChunk repeated data limit (off + n))))))"
  by pat_completeness auto
termination by (relation "measure (\<lambda>(E, plan, isChunk, repeated, data, limit, off). limit - off)") auto

declare send_body.simps [simp del]

definition serve_data :: "env \<Rightarrow> fault_server \<Rightarrow> server_request \<Rightarrow> fault_plan \<Rightarrow> bool \<Rightarrow> int \<Rightarrow> bool \<Rightarrow> bytes \<Rightarrow> unit sv" where
  "serve_data E sv r plan isChunk chunkNo repeated data0 =
     (let corrupt = (isChunk \<and> chunkNo \<le> fpCorruptFirst plan \<and> length data0 > 0);
          data = (if corrupt then flipped data0 else data0);
          drop' = (isChunk \<and> fpDropEvery plan > 0 \<and> chunkNo mod fpDropEvery plan = 0);
          limit = (if drop' then drop_limit plan (length data) else length data) in
      bindM (if corrupt then stats (\<lambda>s. s\<lparr>ssCorruptions := ssCorruptions s + 1\<rparr>) else ret ()) (\<lambda>_.
      bindM (if drop' then stats (\<lambda>s. s\<lparr>ssDrops := ssDrops s + 1\<rparr>) else ret ()) (\<lambda>_.
      bindM (setHeader ''Content-Type'' ''application/octet-stream'') (\<lambda>_.
      bindM (setHeader ''Content-Length'' (decimal (length data))) (\<lambda>_.
      bindM (setHeader ''Cache-Control'' ''no-store'') (\<lambda>_.
      bindM (if drop' then setHeader ''Connection'' ''close'' else ret ()) (\<lambda>_.
      bindM (writeHeader 200) (\<lambda>_.
      bindM (send_body E plan isChunk repeated data limit 0) (\<lambda>n.
      bindM (observe sv r isChunk (int n)) (\<lambda>_.
      if drop' then modS (\<lambda>v. v\<lparr>hvClosed := True\<rparr>) else ret ()))))))))))"

text \<open>The conditional request: metadata has an entity tag.\<close>

definition serve_found :: "env \<Rightarrow> fault_server \<Rightarrow> server_request \<Rightarrow> fault_plan \<Rightarrow> bool \<Rightarrow> int \<Rightarrow> bool \<Rightarrow> bytes \<Rightarrow> unit sv" where
  "serve_found E sv r plan isChunk chunkNo repeated data =
     (if isChunk then serve_data E sv r plan isChunk chunkNo repeated data
      else (let etag = [CHR 0x22] @ Hash data @ [CHR 0x22] in
        bindM (setHeader ''ETag'' etag) (\<lambda>_.
        if sqHeader r ''If-None-Match'' = etag
        then bindM (observe sv r isChunk 0) (\<lambda>_. writeHeader 304)
        else serve_data E sv r plan isChunk chunkNo repeated data)))"

definition load_object :: "env \<Rightarrow> fault_server \<Rightarrow> string \<Rightarrow> bytes io" where
  "load_object E sv rel = (case svLoader sv of
       Some f \<Rightarrow> liftR (f rel)
     | None \<Rightarrow> osReadFile E (Join (svRoot sv) rel))"

definition serve_object :: "'x server_prims_scheme \<Rightarrow> env \<Rightarrow> fault_server \<Rightarrow> server_request \<Rightarrow> string \<Rightarrow> bool \<Rightarrow> unit sv" where
  "serve_object P E sv r rel isChunk =
     bindM (onFst (attemptM (readPlan P E sv))) (\<lambda>pl. case pl of
       Inl _ \<Rightarrow> httpError E ''invalid fault plan'' 500
     | Inr plan \<Rightarrow>
       bindM (count_request rel isChunk) (\<lambda>(requestNo, chunkNo, repeated).
       bindM (onFst (sleepFor E (msNanos (fpLatencyMS plan)))) (\<lambda>_.
       bindM (onFst (timeNow E)) (\<lambda>now.
       if offlineNow sv plan now \<or> requestNo \<le> fpFailFirst plan then
         bindM (stats (\<lambda>s. s\<lparr>ssFailures := ssFailures s + 1\<rparr>)) (\<lambda>_.
         bindM (setHeader ''Retry-After'' ''1'') (\<lambda>_. writeHeader 503))
       else
         bindM (if isChunk \<and> fpStallFirst plan > 0 \<and> chunkNo \<le> fpStallFirst plan then
                  bindM (stats (\<lambda>s. s\<lparr>ssStalls := ssStalls s + 1\<rparr>)) (\<lambda>_. onFst (sleepFor E (msNanos (fpStallMS plan))))
                else ret ()) (\<lambda>_.
         bindM (onFst (attemptM (load_object E sv rel))) (\<lambda>ld. case ld of
           Inl _ \<Rightarrow> httpError E ''404 page not found'' 404
         | Inr data \<Rightarrow>
           serve_found E sv r plan isChunk chunkNo repeated data))))))"

section \<open>The receipts endpoint\<close>

definition corrupt_receipt :: "env \<Rightarrow> 'a sv" where
  "corrupt_receipt E = httpError E ''corrupt persisted receipt'' 500"

fun read_receipts :: "'x server_prims_scheme \<Rightarrow> env \<Rightarrow> fault_server \<Rightarrow> (string \<times> bool) list \<Rightarrow> receipt list \<Rightarrow> receipt list sv" where
  "read_receipts P E sv [] acc = ret acc"
| "read_receipts P E sv ((name, isDir) # rest) acc =
     (if isDir \<or> \<not> hasSuffix name ''.json'' then read_receipts P E sv rest acc
      else bindM (onFst (attemptM (osReadFile E (svReceiptsDir sv @ [name])))) (\<lambda>rd. case rd of
          Inl e \<Rightarrow> httpError E (errText P e) 500
        | Inr b \<Rightarrow> (case jsonReceiptDec P b of
            Inl e \<Rightarrow> corrupt_receipt E
          | Inr rc \<Rightarrow> (case validate P rc of
              Inl e \<Rightarrow> corrupt_receipt E
            | Inr _ \<Rightarrow> read_receipts P E sv rest (acc @ [rc])))))"

definition get_receipts :: "'x server_prims_scheme \<Rightarrow> env \<Rightarrow> fault_server \<Rightarrow> unit sv" where
  "get_receipts P E sv =
     bindM (onFst (attemptM (readDirEntries E (svReceiptsDir sv)))) (\<lambda>rd.
     bindM (case rd of Inl e \<Rightarrow> if e = NotExist then ret [] else httpError E (errText P e) 500 | Inr es \<Rightarrow> ret es) (\<lambda>entries.
     bindM (read_receipts P E sv entries []) (\<lambda>out.
     bindM (setHeader ''Content-Type'' ''application/json'') (\<lambda>_.
     bindM (respond E (jsonReceipts P out)) (\<lambda>_. ret ())))))"

definition post_receipt :: "'x server_prims_scheme \<Rightarrow> env \<Rightarrow> fault_server \<Rightarrow> server_request \<Rightarrow> unit sv" where
  "post_receipt P E sv r =
     bindM (onFst (attemptM (readPlan P E sv))) (\<lambda>pl. case pl of
       Inl _ \<Rightarrow> httpError E ''invalid plan'' 500
     | Inr plan \<Rightarrow>
       bindM (onFst (timeNow E)) (\<lambda>now.
       if offlineNow sv plan now then writeHeader 503
       else (case jsonReceiptStrict P (take 65536 (sqBody r)) (length (sqBody r) > 65536) of
           Inl _ \<Rightarrow> httpError E ''invalid receipt JSON'' 400
         | Inr rc \<Rightarrow> (case validate P rc of
             Inl e \<Rightarrow> httpError E (errText P e) 400
           | Inr _ \<Rightarrow>
               bindM (onFst (attemptM (AtomicWrite E (Join (svReceiptsDir sv) (rcID rc @ ''.json'')) (jsonReceipt P rc) 384))) (\<lambda>wr. case wr of
                 Inl e \<Rightarrow> httpError E (errText P e) 500
               | Inr _ \<Rightarrow> writeHeader 201)))))"

definition receipts :: "'x server_prims_scheme \<Rightarrow> env \<Rightarrow> fault_server \<Rightarrow> server_request \<Rightarrow> unit sv" where
  "receipts P E sv r =
     (if svReceiptsDir sv = [] then httpError E ''receipts disabled; configure --receipts-dir'' 404
      else if sqMethod r = ''GET'' then get_receipts P E sv
      else if sqMethod r = ''POST'' then post_receipt P E sv r
      else bindM (setHeader ''Allow'' ''GET, POST'') (\<lambda>_. httpError E ''method not allowed'' 405))"

section \<open>The handler\<close>

definition metric_lines :: "server_stats \<Rightarrow> string" where
  "metric_lines s = concat (map (\<lambda>(name, v). ''# TYPE '' @ name @ '' counter'' @ [CHR 0x0A] @ name @ '' '' @ decimal (nat v) @ [CHR 0x0A])
     [(''edge_origin_chunk_body_bytes_total'', ssChunkBodyBytes s), (''edge_origin_chunk_requests_total'', ssChunkRequests s),
      (''edge_origin_injected_disconnects_total'', ssDrops s), (''edge_origin_injected_503s_total'', ssFailures s)])"

definition serve_http :: "'x server_prims_scheme \<Rightarrow> env \<Rightarrow> fault_server \<Rightarrow> server_request \<Rightarrow> unit sv" where
  "serve_http P E sv r =
     (if sqPath r = ''/receipts'' then receipts P E sv r
      else if sqPath r = ''/healthz'' then
        bindM (writeHeader 200) (\<lambda>_. bindM (respond E (bytes_of (''ok'' @ [CHR 0x0A]))) (\<lambda>_. ret ()))
      else if sqPath r = ''/stats'' then
        bindM (setHeader ''Content-Type'' ''application/json'') (\<lambda>_. bindM getS (\<lambda>v.
        bindM (respond E (jsonStats P (ssSnapshot (hvStats v) sv))) (\<lambda>_. ret ())))
      else if sqPath r = ''/metrics'' then
        bindM (setHeader ''Content-Type'' ''text/plain; version=0.0.4'') (\<lambda>_. bindM getS (\<lambda>v.
        bindM (respond E (bytes_of (metric_lines (hvStats v)))) (\<lambda>_. ret ())))
      else if sqMethod r \<noteq> ''GET'' then httpError E ''GET required'' 405
      else (let rel = trimPrefix (sqPath r) ''/''; parts = splitOn CHR ''/'' rel in
        if rel = ''events'' \<and> svEvents sv then modS (\<lambda>v. v\<lparr>hvEvents := True\<rparr>)
        else if \<not> isChunkRel parts \<and> \<not> isMetaRel parts then httpError E ''404 page not found'' 404
        else serve_object P E sv r rel (isChunkRel parts)))"

definition new_response :: "server_stats \<Rightarrow> int \<Rightarrow> handler_vars" where
  "new_response s next = \<lparr>hvStats = s, hvNext = next, hvStatus = None, hvHeaders = [], hvBody = [], hvClosed = False,
     hvEvents = False, hvObserved = []\<rparr>"

text \<open>A handler that returns without having written anything answers 200.\<close>

definition ServeHTTP ::
  "'x server_prims_scheme \<Rightarrow> env \<Rightarrow> fault_server \<Rightarrow> server_request \<Rightarrow> world \<times> server_stats \<times> int \<Rightarrow> handler_vars \<times> world \<times> server_stats \<times> int" where
  "ServeHTTP P E sv r st = (case st of (w, s, next) \<Rightarrow>
     (case serve_http P E sv r (w, new_response s next) of (_, (w', v)) \<Rightarrow>
        (v\<lparr>hvStatus := (case hvStatus v of None \<Rightarrow> Some 200 | c \<Rightarrow> c)\<rparr>, w', hvStats v, hvNext v)))"

end
