(* ===== verification/ServerProps.thy ===== *)
theory ServerProps
  imports Server
begin

text \<open>
  What the origin's answers are made of and what its counters count: every path through the handler ends
  in one of three outcomes, an answer not begun, an answer with another status than 200, or a prefix of one
  published object with the bytes accounted for.
\<close>

section \<open>Quiet operations\<close>

text \<open>Waiting changes neither the tree, nor the counters, nor the response.\<close>

definition quiet :: "world \<times> handler_vars \<Rightarrow> world \<times> handler_vars \<Rightarrow> bool" where
  "quiet st st' \<longleftrightarrow> lookup (fst st') = lookup (fst st) \<and> (\<exists>n. snd st' = (snd st)\<lparr>hvNext := n\<rparr>)"

lemma same_next [simp]: "\<exists>n. v = v\<lparr>hvNext := n\<rparr>"
  by (rule exI [of _ "hvNext v"]) simp

interpretation quietR: effect_order quiet
  by unfold_locales (auto simp: quiet_def)

lemma quiet_onFst: "steps silent m \<Longrightarrow> steps quiet (onFst m)"
  by (auto simp: steps_def quiet_def silent_def onFst_def split: prod.splits) (metis snd_conv)

lemma quiet_prims:
  "steps quiet (onFst (timeNow E))" "steps quiet (onFst (sleepFor E d))"
  by (intro quiet_onFst steps_silent_prims)+

lemma quiet_pacer: "steps quiet (pacerWait E n rate)"
  unfolding pacerWait_def
  by (intro quietR.steps_rules quiet_prims) (auto simp: steps_def quiet_def modS_def getS_def)

lemma triple_quiet:
  assumes "steps quiet m" and "\<And>st st'. A st \<Longrightarrow> quiet st st' \<Longrightarrow> A st'" and "\<And>st. A st \<Longrightarrow> X st"
  shows "triple A m (\<lambda>_. A) (\<lambda>_. X)"
  by (rule tripleI; drule stepsD [OF assms(1)]) (use assms(2,3) in blast)+

section \<open>Outcomes\<close>

definition body_bytes :: "server_stats \<Rightarrow> int" where
  "body_bytes s = ssChunkBodyBytes s + ssMetadataBodyBytes s"

definition unanswered :: "world \<Rightarrow> server_stats \<Rightarrow> world \<times> handler_vars \<Rightarrow> bool" where
  "unanswered w0 s0 st \<longleftrightarrow> lookup (fst st) = lookup w0 \<and> hvStatus (snd st) = None \<and> hvBody (snd st) = []
     \<and> body_bytes (hvStats (snd st)) = body_bytes s0"

definition refused :: "world \<Rightarrow> server_stats \<Rightarrow> world \<times> handler_vars \<Rightarrow> bool" where
  "refused w0 s0 st \<longleftrightarrow> lookup (fst st) = lookup w0 \<and> (\<exists>c. hvStatus (snd st) = Some c \<and> c \<noteq> 200)
     \<and> body_bytes (hvStats (snd st)) = body_bytes s0"

text \<open>While a body is being sent: the response has status 200 and announces the whole object, and the bytes
  counted are the bytes sent.\<close>

definition sending :: "world \<Rightarrow> server_stats \<Rightarrow> bytes \<Rightarrow> nat \<Rightarrow> world \<times> handler_vars \<Rightarrow> bool" where
  "sending w0 s0 data off st \<longleftrightarrow> lookup (fst st) = lookup w0 \<and> hvStatus (snd st) = Some 200
     \<and> hvBody (snd st) = take off data \<and> off \<le> length data
     \<and> map_of (hvHeaders (snd st)) ''Content-Length'' = Some (decimal (length data))
     \<and> body_bytes (hvStats (snd st)) = body_bytes s0 + int off"

lemma quiet_keeps:
  "unanswered w0 s0 st \<Longrightarrow> quiet st st' \<Longrightarrow> unanswered w0 s0 st'"
  "sending w0 s0 data off st \<Longrightarrow> quiet st st' \<Longrightarrow> sending w0 s0 data off st'"
  by (auto simp: unanswered_def sending_def quiet_def)

lemma body_bytes_count: "body_bytes (count_bytes isChunk repeated n s) = body_bytes s + int n"
  by (simp add: body_bytes_def count_bytes_def)

lemma send_body_triple:
  assumes "limit \<le> length data"
  shows "triple (sending w0 s0 data off) (send_body E plan isChunk repeated data limit off)
     (\<lambda>n st. limit \<le> n \<and> (off \<le> limit \<longrightarrow> n = limit) \<and> sending w0 s0 data n st) (\<lambda>_ st. \<exists>n. sending w0 s0 data n st)"
  using assms
proof (induction E plan isChunk repeated data limit off rule: send_body.induct)
  case (1 E plan isChunk repeated data limit off)
  show ?case
  proof (cases "limit \<le> off")
    case True
    then show ?thesis by (subst send_body.simps) (auto intro!: triple_ret)
  next
    case False
    let ?k = "min (off + 8192) limit - off"
    have k: "0 < ?k" "off + ?k \<le> limit" using False by auto
    have wait: "triple (sending w0 s0 data off) (pacerWait E ?k (fpRateKbit plan)) (\<lambda>_. sending w0 s0 data off) (\<lambda>_ st. \<exists>n. sending w0 s0 data n st)"
      by (rule triple_quiet [OF quiet_pacer quiet_keeps(2)]) auto
    let ?mid = "\<lambda>(n, bad) st. n \<le> ?k \<and> (\<not> bad \<longrightarrow> n = ?k) \<and> lookup (fst st) = lookup w0 \<and> hvStatus (snd st) = Some 200
        \<and> map_of (hvHeaders (snd st)) ''Content-Length'' = Some (decimal (length data)) \<and> hvBody (snd st) = take (off + n) data
        \<and> off + n \<le> length data \<and> body_bytes (hvStats (snd st)) = body_bytes s0 + int off"
    have write': "triple (sending w0 s0 data off) (respond E (take ?k (drop off data))) ?mid (\<lambda>_ st. \<exists>n. sending w0 s0 data n st)"
    proof (rule tripleI)
      fix st x st' assume pre: "sending w0 s0 data off st" and run: "respond E (take ?k (drop off data)) st = (Inr x, st')"
      obtain w v where st: "st = (w, v)" by (cases st)
      have len: "length (take ?k (drop off data)) = ?k" using k "1.prems" False by simp
      define n where "n = (if io_fails E (tick w) then min (short_write E (tick w)) ?k else ?k)"
      have x: "x = (n, io_fails E (tick w))" and st': "lookup (fst st') = lookup w" "snd st' = v\<lparr>hvStatus := Some 200, hvBody := hvBody v @ take n (take ?k (drop off data))\<rparr>"
        using run pre unfolding st respond_def by (auto simp: len n_def Let_def sending_def simp del: length_take)
      have "n \<le> ?k" by (simp add: n_def)
      then have "take off data @ take n (take ?k (drop off data)) = take (off + n) data"
        by (simp add: take_add min_absorb1)
      then show "?mid x st'" using pre st' k "1.prems" \<open>n \<le> ?k\<close> by (auto simp: x st sending_def n_def)
    qed (auto simp: respond_def Let_def)
    have count: "triple (?mid x) (stats (count_bytes isChunk repeated (fst x)))
        (\<lambda>_ st. fst x \<le> ?k \<and> (\<not> snd x \<longrightarrow> fst x = ?k) \<and> sending w0 s0 data (off + fst x) st) (\<lambda>_ st. \<exists>n. sending w0 s0 data n st)" for x
      unfolding stats_def by (rule triple_modS) (auto simp: sending_def body_bytes_count split: prod.splits)
    have rest: "triple (\<lambda>st. fst x \<le> ?k \<and> (\<not> snd x \<longrightarrow> fst x = ?k) \<and> sending w0 s0 data (off + fst x) st)
        (if snd x \<or> fst x = 0 then throw IOError else send_body E plan isChunk repeated data limit (off + fst x))
        (\<lambda>n st. limit \<le> n \<and> (off \<le> limit \<longrightarrow> n = limit) \<and> sending w0 s0 data n st) (\<lambda>_ st. \<exists>n. sending w0 s0 data n st)" for x
    proof (cases "snd x \<or> fst x = 0")
      case True
      then show ?thesis by (auto intro!: triple_throw)
    next
      case x: False
      show ?thesis
      proof (cases "fst x = ?k")
        case True
        have "triple (sending w0 s0 data (off + fst x)) (send_body E plan isChunk repeated data limit (off + fst x))
            (\<lambda>n st. limit \<le> n \<and> (off + fst x \<le> limit \<longrightarrow> n = limit) \<and> sending w0 s0 data n st) (\<lambda>_ st. \<exists>n. sending w0 s0 data n st)"
          by (rule "1.IH" [OF False refl x "1.prems"])
        then show ?thesis using x k True by (auto elim!: triple_conseq)
      next
        case nk: False
        show ?thesis using x nk by (auto intro!: tripleI)
      qed
    qed
    have eq: "send_body E plan isChunk repeated data limit off =
        bindM (pacerWait E ?k (fpRateKbit plan)) (\<lambda>_. bindM (respond E (take ?k (drop off data))) (\<lambda>x.
        bindM (stats (count_bytes isChunk repeated (fst x))) (\<lambda>_.
        if snd x \<or> fst x = 0 then throw IOError else send_body E plan isChunk repeated data limit (off + fst x))))"
      using False by (subst send_body.simps) (simp add: Let_def case_prod_unfold)
    show ?thesis
      unfolding eq by (rule triple_bind [OF wait], rule triple_bind [OF write'], rule triple_bind [OF count], rule rest)
  qed
qed

section \<open>The object path\<close>

text \<open>The steps before the answer begins.\<close>

lemma triple_unanswered:
  "(\<And>s. body_bytes (f s) = body_bytes s) \<Longrightarrow> triple (unanswered w0 s0) (stats f) (\<lambda>_. unanswered w0 s0) X"
  "triple (unanswered w0 s0) (setHeader k x) (\<lambda>_. unanswered w0 s0) X"
  "triple (unanswered w0 s0) (count_request rel isChunk) (\<lambda>_. unanswered w0 s0) X"
  "triple (unanswered w0 s0) (observe sv r isChunk n) (\<lambda>_. unanswered w0 s0) X"
  by (auto intro!: triple_modS triple_ret tripleI
      simp: stats_def setHeader_def count_request_def observe_def unanswered_def body_bytes_def Let_def split: if_splits)

lemma triple_waiting: "steps quiet m \<Longrightarrow> triple (unanswered w0 s0) m (\<lambda>_. unanswered w0 s0) (\<lambda>_. unanswered w0 s0)"
  by (rule triple_quiet [OF _ quiet_keeps(1)]) auto

lemma triple_refuse:
  "c \<noteq> 200 \<Longrightarrow> triple (unanswered w0 s0) (writeHeader c) (\<lambda>_. refused w0 s0) X"
  "c \<noteq> 200 \<Longrightarrow> triple (unanswered w0 s0) (httpError E msg c) Q (\<lambda>_. refused w0 s0)"
  by (auto intro!: tripleI
      simp: writeHeader_def httpError_def setHeader_def respond_def bindM_def modS_def sm_run Let_def unanswered_def refused_def
        fun_eq_iff)

definition published :: "fault_server \<Rightarrow> string \<Rightarrow> world \<Rightarrow> bool \<Rightarrow> bytes \<Rightarrow> bool" where
  "published sv rel w0 isChunk data \<longleftrightarrow> (\<exists>b. file_bytes w0 (Join (svRoot sv) rel) = Some b \<and> (data = b \<or> isChunk \<and> data = flipped b))"

definition answered :: "fault_server \<Rightarrow> string \<Rightarrow> bool \<Rightarrow> world \<Rightarrow> server_stats \<Rightarrow> world \<times> handler_vars \<Rightarrow> bool" where
  "answered sv rel isChunk w0 s0 st \<longleftrightarrow> unanswered w0 s0 st \<or> refused w0 s0 st
     \<or> (\<exists>data n. published sv rel w0 isChunk data \<and> sending w0 s0 data n st)"

definition announced :: "world \<Rightarrow> server_stats \<Rightarrow> bytes \<Rightarrow> world \<times> handler_vars \<Rightarrow> bool" where
  "announced w0 s0 data st \<longleftrightarrow> unanswered w0 s0 st \<and> map_of (hvHeaders (snd st)) ''Content-Length'' = Some (decimal (length data))"

lemma triple_announce:
  "triple (unanswered w0 s0) (setHeader ''Content-Length'' (decimal (length data))) (\<lambda>_. announced w0 s0 data) X"
  "k \<noteq> ''Content-Length'' \<Longrightarrow> triple (announced w0 s0 data) (setHeader k x) (\<lambda>_. announced w0 s0 data) X"
  "triple (announced w0 s0 data) (writeHeader 200) (\<lambda>_. sending w0 s0 data 0) X"
  by (auto intro!: triple_modS
      simp: setHeader_def writeHeader_def announced_def unanswered_def sending_def update_conv')

lemma serve_data_triple:
  assumes "file_bytes w0 (Join (svRoot sv) rel) = Some data"
  shows "triple (unanswered w0 s0) (serve_data E sv r plan isChunk chunkNo repeated data)
     (\<lambda>_. answered sv rel isChunk w0 s0) (\<lambda>_. answered sv rel isChunk w0 s0)"
proof -
  define corrupt where "corrupt \<longleftrightarrow> isChunk \<and> chunkNo \<le> fpCorruptFirst plan \<and> length data > 0"
  define d where "d = (if corrupt then flipped data else data)"
  define dropping where "dropping \<longleftrightarrow> isChunk \<and> fpDropEvery plan > 0 \<and> chunkNo mod fpDropEvery plan = 0"
  define limit where "limit = (if dropping then drop_limit plan (length d) else length d)"
  have pub: "published sv rel w0 isChunk d"
    using assms by (auto simp: published_def d_def corrupt_def)
  have lim: "limit \<le> length d" by (simp add: limit_def drop_limit_def Let_def)
  let ?S = "\<lambda>_ st. \<exists>n. sending w0 s0 d n st"
  have tail: "triple (\<lambda>st. sending w0 s0 d n st) (bindM (observe sv r isChunk (int n)) (\<lambda>_.
      if dropping then modS (\<lambda>v. v\<lparr>hvClosed := True\<rparr>) else ret ())) ?S ?S" for n
    by (rule tripleI) (auto simp: bindM_def observe_def modS_def sm_run sending_def split: if_splits)
  have pre: "triple (unanswered w0 s0) (if corrupt then stats (\<lambda>s. s\<lparr>ssCorruptions := ssCorruptions s + 1\<rparr>) else ret ()) (\<lambda>_. unanswered w0 s0) ?S"
    "triple (unanswered w0 s0) (if dropping then stats (\<lambda>s. s\<lparr>ssDrops := ssDrops s + 1\<rparr>) else ret ()) (\<lambda>_. unanswered w0 s0) ?S"
    "triple (announced w0 s0 d) (if dropping then setHeader ''Connection'' ''close'' else ret ()) (\<lambda>_. announced w0 s0 d) ?S"
    by (auto intro!: triple_unanswered triple_announce triple_ret simp: body_bytes_def)
  have send: "triple (sending w0 s0 d 0) (send_body E plan isChunk repeated d limit 0) (\<lambda>n. sending w0 s0 d n) ?S"
    by (rule triple_conseq [OF send_body_triple [OF lim]]) auto
  have "triple (unanswered w0 s0) (serve_data E sv r plan isChunk chunkNo repeated data) ?S ?S"
    unfolding serve_data_def Let_def corrupt_def [symmetric] d_def [symmetric] dropping_def [symmetric] limit_def [symmetric]
    by (rule triple_bind [OF pre(1)], rule triple_bind [OF pre(2)], rule triple_bind [OF triple_unanswered(2)],
        rule triple_bind [OF triple_announce(1)], rule triple_bind [OF triple_announce(2)], simp,
        rule triple_bind [OF pre(3)], rule triple_bind [OF triple_announce(3)], rule triple_bind [OF send],
        rule triple_conseq [OF tail]) auto
  then show ?thesis
    by (rule triple_conseq) (use pub in \<open>auto simp: answered_def\<close>)
qed

lemma unanswered_plan: "steps quiet (onFst (attemptM (readPlan P E sv)))"
  unfolding readPlan_def by (intro quiet_onFst silence.steps_rules steps_silent_prims)

lemma triple_load:
  assumes "svLoader sv = None"
  shows "triple (unanswered w0 s0) (onFst (attemptM (load_object E sv rel)))
     (\<lambda>ld st. unanswered w0 s0 st \<and> (\<forall>b. ld = Inr b \<longrightarrow> file_bytes w0 (Join (svRoot sv) rel) = Some b)) X"
proof (rule tripleI)
  fix st x st' assume pre: "unanswered w0 s0 st" and run: "onFst (attemptM (load_object E sv rel)) st = (Inr x, st')"
  then have rd: "osReadFile E (Join (svRoot sv) rel) (fst st) = (x, fst st')" and st': "snd st' = snd st"
    using assms by (auto simp: onFst_def attemptM_run load_object_def split: prod.splits)
  have "lookup (fst st') = lookup (fst st)"
    using stepsD [OF steps_silent_prims(2) rd] by (simp add: silent_def)
  moreover have "file_bytes w0 (Join (svRoot sv) rel) = Some b" if "x = Inr b" for b
    using osReadFile_ok [OF rd [unfolded that]] pre by (simp add: unanswered_def file_bytes_def)
  ultimately show "unanswered w0 s0 st' \<and> (\<forall>b. x = Inr b \<longrightarrow> file_bytes w0 (Join (svRoot sv) rel) = Some b)"
    using pre st' by (simp add: unanswered_def)
qed (auto simp: onFst_def attemptM_def split: prod.splits)

lemma triple_any: "triple A m (\<lambda>_. A') (\<lambda>_. A') \<Longrightarrow> (\<And>st. A' st \<Longrightarrow> B st) \<Longrightarrow> triple A m (\<lambda>_. B) (\<lambda>_. B)"
  by (erule triple_conseq) auto

lemma serve_object_triple:
  assumes "svLoader sv = None"
  shows "triple (unanswered w0 s0) (serve_object P E sv r rel isChunk)
     (\<lambda>_. answered sv rel isChunk w0 s0) (\<lambda>_. answered sv rel isChunk w0 s0)"
    (is "triple _ _ (\<lambda>_. ?A) _")
proof -
  have A: "unanswered w0 s0 st \<Longrightarrow> ?A st" "refused w0 s0 st \<Longrightarrow> ?A st" for st by (simp_all add: answered_def)
  have wait: "triple (unanswered w0 s0) m (\<lambda>_. unanswered w0 s0) (\<lambda>_. ?A)" if "steps quiet m" for m :: "'b sv"
    by (rule triple_conseq [OF triple_waiting [OF that]]) (auto intro: A)
  have err: "triple (unanswered w0 s0) (httpError E msg c) (\<lambda>_. ?A) (\<lambda>_. ?A)" if "c \<noteq> 200" for msg c
    by (rule triple_conseq [OF triple_refuse(2) [OF that]]) (auto intro: A)
  have code: "triple (unanswered w0 s0) (writeHeader c) (\<lambda>_. ?A) (\<lambda>_. ?A)" if "c \<noteq> 200" for c
    by (rule triple_conseq [OF triple_refuse(1) [OF that]]) (auto intro: A)
  have stall: "triple (unanswered w0 s0) (if b then bindM (stats (\<lambda>s. s\<lparr>ssStalls := ssStalls s + 1\<rparr>)) (\<lambda>_. onFst (sleepFor E d)) else ret ())
      (\<lambda>_. unanswered w0 s0) (\<lambda>_. ?A)" for b d
    by (rule triple_if; (rule triple_bind [OF triple_unanswered(1)], simp add: body_bytes_def, rule wait [OF quiet_prims(2)])?)
       (auto intro: triple_ret)
  have found: "triple (unanswered w0 s0) (serve_found E sv r plan isChunk chunkNo repeated data) (\<lambda>_. ?A) (\<lambda>_. ?A)"
    if "file_bytes w0 (Join (svRoot sv) rel) = Some data" for plan chunkNo repeated data
    unfolding serve_found_def Let_def
    by (intro triple_if triple_bind [OF triple_unanswered(2)] triple_bind [OF triple_unanswered(4)] serve_data_triple code that) simp
  have body: "triple (\<lambda>st. unanswered w0 s0 st \<and> (\<forall>b. ld = Inr b \<longrightarrow> file_bytes w0 (Join (svRoot sv) rel) = Some b))
      (case ld of Inl _ \<Rightarrow> httpError E ''404 page not found'' 404
         | Inr data \<Rightarrow> serve_found E sv r plan isChunk chunkNo repeated data) (\<lambda>_. ?A) (\<lambda>_. ?A)" for ld plan chunkNo repeated
  proof (cases ld)
    case (Inl e)
    then show ?thesis using triple_conseq [OF err [of 404]] by simp
  next
    case (Inr data)
    have "triple (\<lambda>st. file_bytes w0 (Join (svRoot sv) rel) = Some data \<and> unanswered w0 s0 st)
        (serve_found E sv r plan isChunk chunkNo repeated data) (\<lambda>_. ?A) (\<lambda>_. ?A)"
      by (rule triple_pure) (rule found)
    then show ?thesis by (simp add: Inr conj_commute)
  qed
  show ?thesis
    unfolding serve_object_def
    apply (rule triple_bind [OF wait [OF unanswered_plan]])
    subgoal for pl
      apply (cases pl)
       apply (simp add: err)
      apply (simp add: case_prod_unfold)
      apply (rule triple_bind [OF triple_unanswered(3)], rule triple_bind [OF wait [OF quiet_prims(2)]],
             rule triple_bind [OF wait [OF quiet_prims(1)]], rule triple_if)
       apply (rule triple_bind [OF triple_unanswered(1)], simp add: body_bytes_def, rule triple_bind [OF triple_unanswered(2)],
              rule code, simp)
      apply (rule triple_bind [OF stall], rule triple_bind [OF triple_load [OF assms]])
      apply (rule body)
      done
    done
qed

lemma list3_cases:
  obtains "xs = []" | a where "xs = [a]" | a b where "xs = [a, b]" | a b c where "xs = [a, b, c]" | a b c d ys where "xs = a # b # c # d # ys"
  by (metis neq_Nil_conv)

lemma Join_object:
  assumes "isChunkRel (splitOn CHR ''/'' rel) \<or> isMetaRel (splitOn CHR ''/'' rel)"
  shows "strict_prefix root (Join root rel)"
proof -
  have plain: "x \<noteq> [] \<and> x \<noteq> ''.'' \<and> x \<noteq> ''..''" if "hasSuffix x s" "length s > 2" for x s
    using that by (auto simp: hasSuffix_def)
  from assms show ?thesis
  proof
    assume c: "isChunkRel (splitOn CHR ''/'' rel)"
    then obtain a b where "splitOn CHR ''/'' rel = [''chunks'', a, b]" and "length a = 2" and "hasSuffix b ''.gz''"
      unfolding isChunkRel_def by (cases "splitOn CHR ''/'' rel" rule: list3_cases) auto
    then show ?thesis using plain [of b "''.gz''"] by (auto simp: Join_def strict_prefix_def)
  next
    assume "isMetaRel (splitOn CHR ''/'' rel)"
    then obtain b where "splitOn CHR ''/'' rel = [''releases'', b]" and "hasSuffix b ''.json''"
      unfolding isMetaRel_def by (cases "splitOn CHR ''/'' rel" rule: list3_cases) auto
    then show ?thesis using plain [of b "''.json''"] by (auto simp: Join_def strict_prefix_def)
  qed
qed

definition own_pages :: "string list" where
  "own_pages = [''/receipts'', ''/healthz'', ''/stats'', ''/metrics'']"

lemma serve_http_objects:
  assumes "svLoader sv = None" "sqPath r \<notin> set own_pages" "serve_http P E sv r (w, new_response s nx) = (x, st)"
  shows "unanswered w s st \<or> refused w s st \<or>
    (\<exists>data n. published sv (trimPrefix (sqPath r) ''/'') w (isChunkRel (splitOn CHR ''/'' (trimPrefix (sqPath r) ''/''))) data \<and> sending w s data n st
       \<and> strict_prefix (svRoot sv) (Join (svRoot sv) (trimPrefix (sqPath r) ''/'')))"
proof -
  let ?rel = "trimPrefix (sqPath r) ''/''"
  let ?parts = "splitOn CHR ''/'' ?rel"
  have start: "unanswered w s (w, new_response s nx)" by (simp add: unanswered_def new_response_def)
  have route: "serve_http P E sv r = (if sqMethod r \<noteq> ''GET'' then httpError E ''GET required'' 405
      else if ?rel = ''events'' \<and> svEvents sv then modS (\<lambda>v. v\<lparr>hvEvents := True\<rparr>)
      else if \<not> isChunkRel ?parts \<and> \<not> isMetaRel ?parts then httpError E ''404 page not found'' 404
      else serve_object P E sv r ?rel (isChunkRel ?parts))"
    using assms(2) unfolding serve_http_def Let_def own_pages_def by auto
  have ends: "A st" if "triple (unanswered w s) (serve_http P E sv r) (\<lambda>_. A) (\<lambda>_. A)" for A
    using triple_okD [OF that start] triple_errD [OF that start] assms(3) by (cases x) auto
  consider "sqMethod r \<noteq> ''GET'' \<or> \<not> (?rel = ''events'' \<and> svEvents sv) \<and> \<not> isChunkRel ?parts \<and> \<not> isMetaRel ?parts"
    | "sqMethod r = ''GET''" "?rel = ''events'' \<and> svEvents sv"
    | "sqMethod r = ''GET''" "\<not> (?rel = ''events'' \<and> svEvents sv)" "isChunkRel ?parts \<or> isMetaRel ?parts"
    by blast
  then show ?thesis
  proof cases
    case 1
    then have "triple (unanswered w s) (serve_http P E sv r) (\<lambda>_. refused w s) (\<lambda>_. refused w s)"
      unfolding route by (auto intro: triple_refuse(2))
    from ends [OF this] show ?thesis by blast
  next
    case 2
    then have "triple (unanswered w s) (serve_http P E sv r) (\<lambda>_. unanswered w s) (\<lambda>_. unanswered w s)"
      unfolding route by (auto intro!: triple_modS simp: unanswered_def)
    from ends [OF this] show ?thesis by blast
  next
    case 3
    then have eq: "serve_http P E sv r = serve_object P E sv r ?rel (isChunkRel ?parts)"
      unfolding route if_not_P [OF 3(2)] by auto
    have "answered sv ?rel (isChunkRel ?parts) w s st"
      by (rule ends) (unfold eq, rule serve_object_triple [OF assms(1)])
    then show ?thesis unfolding answered_def using Join_object [OF 3(3)] by blast
  qed
qed


section \<open>The counters\<close>

definition books :: "server_stats \<Rightarrow> bool" where
  "books s \<longleftrightarrow> ssRequests s = ssChunkRequests s + ssMetadataRequests s
     \<and> finite (dom (ssObjectRequests s)) \<and> (\<forall>n \<in> ran (ssObjectRequests s). 1 \<le> n)
     \<and> ssChunkRequests s = (\<Sum>rel \<in> dom (ssObjectRequests s). the (ssObjectRequests s rel))
     \<and> 0 \<le> ssMetadataBodyBytes s \<and> 0 \<le> ssChunkRetryBodyBytes s \<and> ssChunkRetryBodyBytes s \<le> ssChunkBodyBytes s"

definition ledger :: "world \<times> handler_vars \<Rightarrow> world \<times> handler_vars \<Rightarrow> bool" where
  "ledger st st' \<longleftrightarrow> (books (hvStats (snd st)) \<longrightarrow> books (hvStats (snd st')))"

interpretation ledgerR: effect_order ledger
  by unfold_locales (auto simp: ledger_def)

lemma books_count_bytes: "books s \<Longrightarrow> books (count_bytes isChunk repeated n s)"
  by (simp add: books_def count_bytes_def)

lemma sum_upd:
  assumes "finite (dom m)"
  shows "(\<Sum>k \<in> dom (m(x \<mapsto> y)). the ((m(x \<mapsto> y)) k)) = (\<Sum>k \<in> dom m. the (m k)) + y - (case m x of Some z \<Rightarrow> z | None \<Rightarrow> (0 :: int))"
proof -
  have "(\<Sum>k \<in> dom m - {x}. the ((m(x \<mapsto> y)) k)) = (\<Sum>k \<in> dom m - {x}. the (m k))" by (rule sum.cong) auto
  moreover have "(\<Sum>k \<in> dom m. the (m k)) = (case m x of Some z \<Rightarrow> z | None \<Rightarrow> 0) + (\<Sum>k \<in> dom m - {x}. the (m k))"
    using assms sum.remove [of "dom m" x "\<lambda>k. the (m k)"] by (cases "m x") (auto simp: domIff)
  ultimately show ?thesis using assms by (simp add: sum.insert_remove)
qed

lemma ledger_count_request: "steps ledger (count_request rel isChunk)"
proof (rule stepsI)
  fix st r st' assume run: "count_request rel isChunk st = (r, st')"
  obtain w v where st: "st = (w, v)" by (cases st)
  let ?s = "hvStats v"
  have ran: "1 \<le> n" if "books ?s" "n \<in> ran ((ssObjectRequests ?s)(rel \<mapsto> (case ssObjectRequests ?s rel of Some n \<Rightarrow> n | None \<Rightarrow> 0) + 1))" for n
    using that unfolding books_def by (fastforce simp: ran_def split: option.splits if_splits)
  show "ledger st st'"
    using run ran unfolding st ledger_def
    by (auto simp: count_request_def Let_def books_def sum_upd simp del: dom_fun_upd fun_upd_apply split: if_splits) (simp_all)
qed

lemma ledger_prims:
  "steps ledger (onFst m)" "steps ledger (respond E b)" "steps ledger (setHeader k x)" "steps ledger (writeHeader c)"
  "steps ledger (observe sv r isChunk n)" "(\<And>s. books s \<Longrightarrow> books (f s)) \<Longrightarrow> steps ledger (stats f)"
  "(\<And>v. hvStats (g v) = hvStats v) \<Longrightarrow> steps ledger (modS g)" "steps ledger getS"
  by (auto simp: steps_def ledger_def onFst_def respond_def setHeader_def writeHeader_def observe_def stats_def modS_def getS_def
      sm_run Let_def split: prod.splits)

lemma ledger_httpError: "steps ledger (httpError E msg c)"
  unfolding httpError_def by (intro ledgerR.steps_rules ledger_prims) simp

lemma ledger_pacer: "steps ledger (pacerWait E n rate)"
  unfolding pacerWait_def by (intro ledgerR.steps_rules ledger_prims) simp

lemma ledger_send_body: "steps ledger (send_body E plan isChunk repeated data limit off)"
proof (induction E plan isChunk repeated data limit off rule: send_body.induct)
  case (1 E plan isChunk repeated data limit off)
  show ?case
    by (subst send_body.simps, unfold Let_def)
       (intro ledgerR.steps_rules ledger_pacer ledger_prims books_count_bytes, assumption, rule "1.IH" [OF _ refl], assumption+)
qed

lemma ledger_serve_object: "steps ledger (serve_object P E sv r rel isChunk)"
  unfolding serve_object_def serve_found_def serve_data_def Let_def
  by (intro ledgerR.steps_rules ledger_count_request ledger_send_body ledger_httpError ledger_prims) (simp_all add: books_def)

lemma ledger_receipts: "steps ledger (receipts P E sv r)"
proof -
  have rd: "steps ledger (read_receipts P E sv es acc)" for es acc
    by (induction P E sv es acc rule: read_receipts.induct)
       (auto intro!: ledgerR.steps_rules ledger_prims ledger_httpError simp: corrupt_receipt_def)
  show ?thesis
    unfolding receipts_def get_receipts_def post_receipt_def
    by (intro ledgerR.steps_rules rd ledger_httpError ledger_prims)
qed

lemma ledger_serve_http: "steps ledger (serve_http P E sv r)"
  unfolding serve_http_def Let_def
  by (intro ledgerR.steps_rules ledger_receipts ledger_serve_object ledger_httpError ledger_prims) simp

fun serve_all :: "'x server_prims_scheme \<Rightarrow> env \<Rightarrow> fault_server \<Rightarrow> server_request list \<Rightarrow> world \<times> server_stats \<times> int \<Rightarrow> world \<times> server_stats \<times> int" where
  "serve_all P E sv [] st = st"
| "serve_all P E sv (r # rs) st = serve_all P E sv rs (snd (ServeHTTP P E sv r st))"

lemma books_serve_all: "books (fst (snd st)) \<Longrightarrow> books (fst (snd (serve_all P E sv rs st)))"
proof (induction rs arbitrary: st)
  case (Cons r rs)
  obtain w s nx where st: "st = (w, s, nx)" by (cases st)
  obtain x w' v where run: "serve_http P E sv r (w, new_response s nx) = (x, w', v)" by (rule prod.exhaust [of "serve_http P E sv r (w, new_response s nx)"]) auto
  have "books (fst (snd (snd (ServeHTTP P E sv r st))))"
    using stepsD [OF ledger_serve_http run] Cons.prems by (simp add: st ServeHTTP_def run ledger_def) (simp add: new_response_def)
  then show ?case by (simp add: Cons.IH)
qed simp

text \<open>The origin's counters after any sequence of requests, from a fresh server and whatever faults occur:
  every counted request is a chunk or a metadata request, the chunk requests are the sum of the per-object
  counts, each of them positive, and the bytes sent again are part of the chunk bytes.\<close>

theorem Server_books: "books (fst (snd (serve_all P E sv rs (w, zero_stats, nx))))"
  by (rule books_serve_all) (simp add: books_def zero_stats_def)

section \<open>Receipts\<close>

lemma validate_id:
  assumes "validate P rc = Inr u"
  shows "hexDigest (rcID rc)" "rcPhase rc = ''staged'' \<or> rcPhase rc = ''loaded''" "rcID rc = digest P rc"
  using assms by (auto simp: validate_def bindR_Inr_iff digest_def)

lemma Join_id:
  assumes "hexDigest i"
  shows "Join d (i @ ''.json'') = d @ [i @ ''.json'']" "\<not> is_temp (d @ [i @ ''.json''])"
proof -
  have s: "splitOn CHR ''/'' (i @ ''.json'') = [i @ ''.json'']"
    using hexDigest_no_slash [OF assms] by (intro splitOn_no_sep) auto
  have "i @ ''.json'' \<notin> {[], ''.'', ''..''}" by auto
  then show "Join d (i @ ''.json'') = d @ [i @ ''.json'']" by (simp add: Join_def s)
  show "\<not> is_temp (d @ [i @ ''.json''])" using hexDigest_not_temp [OF assms] by (simp add: is_temp_def)
qed

definition posted :: "'x server_prims_scheme \<Rightarrow> server_request \<Rightarrow> receipt \<Rightarrow> bool" where
  "posted P r rc \<longleftrightarrow> jsonReceiptStrict P (take 65536 (sqBody r)) (length (sqBody r) > 65536) = Inr rc \<and> validate P rc = Inr ()"

definition receipt_file :: "fault_server \<Rightarrow> receipt \<Rightarrow> path" where
  "receipt_file sv rc = svReceiptsDir sv @ [rcID rc @ ''.json'']"

text \<open>What a POST may do to the tree: nothing, or the atomic write of a validated receipt at its own name.\<close>

definition post_effect :: "'x server_prims_scheme \<Rightarrow> fault_server \<Rightarrow> server_request \<Rightarrow> world \<Rightarrow> world \<times> handler_vars \<Rightarrow> bool" where
  "post_effect P sv r w0 st \<longleftrightarrow>
     (lookup (fst st) = lookup w0 \<and> hvStatus (snd st) \<noteq> Some 201 \<or>
      (\<exists>rc. posted P r rc \<and> aw_effect (receipt_file sv rc) (FileN (jsonReceipt P rc) 384) w0 (fst st)
         \<and> (hvStatus (snd st) = Some 201 \<longrightarrow> lookup (fst st) (receipt_file sv rc) = Some (FileN (jsonReceipt P rc) 384))))"

definition before_post :: "world \<Rightarrow> world \<times> handler_vars \<Rightarrow> bool" where
  "before_post w0 st \<longleftrightarrow> lookup (fst st) = lookup w0 \<and> hvStatus (snd st) = None"

lemma httpError_state:
  assumes "httpError E msg c st = (x, st')"
  shows "\<exists>e. x = Inl e" "lookup (fst st') = lookup (fst st)" "hvStatus (snd st) = None \<Longrightarrow> hvStatus (snd st') = Some c"
  using assms by (auto simp: httpError_def setHeader_def writeHeader_def respond_def bindM_def modS_def sm_run Let_def fun_eq_iff split: prod.splits)

lemma aw_effect_lookup: "lookup w = lookup w0 \<Longrightarrow> aw_effect p c w w' = aw_effect p c w0 w'"
  by (simp add: aw_effect_def)

lemma store_triple:
  assumes "posted P r rc"
  shows "triple (before_post w0)
     (bindM (onFst (attemptM (AtomicWrite E (Join (svReceiptsDir sv) (rcID rc @ ''.json'')) (jsonReceipt P rc) 384))) (\<lambda>wr. case wr of
                 Inl e \<Rightarrow> httpError E (errText P e) 500
               | Inr _ \<Rightarrow> writeHeader 201))
     (\<lambda>_. post_effect P sv r w0) (\<lambda>_. post_effect P sv r w0)"
proof -
  let ?p = "receipt_file sv rc" and ?c = "FileN (jsonReceipt P rc) 384"
  have hex: "hexDigest (rcID rc)" using assms validate_id(1) by (auto simp: posted_def)
  note p = Join_id [OF hex, of "svReceiptsDir sv"]
  have eq: "Join (svReceiptsDir sv) (rcID rc @ ''.json'') = ?p" "\<not> is_temp ?p" "?p \<noteq> []"
    using p by (simp_all add: receipt_file_def)
  let ?M = "\<lambda>wr st. aw_effect ?p ?c w0 (fst st) \<and> hvStatus (snd st) = None \<and> (wr = Inr () \<longrightarrow> lookup (fst st) ?p = Some ?c)"
  have wr: "triple (before_post w0) (onFst (attemptM (AtomicWrite E ?p (jsonReceipt P rc) 384))) ?M X" for X
  proof (rule tripleI)
    fix st x st' assume pre: "before_post w0 st" and run: "onFst (attemptM (AtomicWrite E ?p (jsonReceipt P rc) 384)) st = (Inr x, st')"
    then have "AtomicWrite E ?p (jsonReceipt P rc) 384 (fst st) = (x, fst st')" "snd st' = snd st"
      by (auto simp: onFst_def attemptM_run split: prod.splits)
    with AtomicWrite_run [OF eq(3,2) this(1)] pre show "?M x st'"
      by (auto simp: before_post_def aw_effect_def)
  qed (auto simp: onFst_def attemptM_def split: prod.splits)
  have fin: "triple (?M wr) (case wr of Inl e \<Rightarrow> httpError E (errText P e) 500 | Inr _ \<Rightarrow> writeHeader 201)
      (\<lambda>_. post_effect P sv r w0) (\<lambda>_. post_effect P sv r w0)" for wr :: "unit result"
  proof (cases wr)
    case (Inl e)
    have ends: "post_effect P sv r w0 st'" if "?M (Inl e) st" "httpError E (errText P e) 500 st = (x, st')" for st x st'
      using httpError_state(2,3) [OF that(2)] that(1) assms by (auto simp: post_effect_def aw_effect_def)
    show ?thesis unfolding Inl sum.case by (rule tripleI; erule (1) ends)
  next
    case (Inr u)
    then show ?thesis
      using assms by (auto intro!: triple_modS simp: writeHeader_def post_effect_def)
  qed
  show ?thesis unfolding eq(1) by (rule triple_bind [OF wr fin])
qed

lemma post_triple:
  "triple (before_post w0) (post_receipt P E sv r) (\<lambda>_. post_effect P sv r w0) (\<lambda>_. post_effect P sv r w0)"
    (is "triple _ _ (\<lambda>_. ?A) _")
proof -
  have wait: "triple (before_post w0) m (\<lambda>_. before_post w0) (\<lambda>_. ?A)" if "steps quiet m" for m :: "'b sv"
    by (rule triple_quiet [OF that]) (auto simp: before_post_def quiet_def post_effect_def)
  have ends: "?A st'" if "before_post w0 st" "httpError E msg c st = (x, st')" "c \<noteq> 201" for st msg c x st'
    using httpError_state(2,3) [OF that(2)] that(1,3) by (simp add: before_post_def post_effect_def)
  have err: "triple (before_post w0) (httpError E msg c) (\<lambda>_. ?A) (\<lambda>_. ?A)" if "c \<noteq> 201" for msg c
    by (rule tripleI; erule (1) ends; rule that)
  have busy: "triple (before_post w0) (writeHeader 503) (\<lambda>_. ?A) (\<lambda>_. ?A)"
    unfolding writeHeader_def by (rule triple_modS) (auto simp: before_post_def post_effect_def)
  show ?thesis
    unfolding post_receipt_def
    apply (rule triple_bind [OF wait [OF unanswered_plan]])
    subgoal for pl
      apply (cases pl; simp add: err)
      apply (rule triple_bind [OF wait [OF quiet_prims(1)]], rule triple_if, rule busy)
      apply (auto split: sum.splits intro!: err store_triple simp: posted_def)
      done
    done
qed

text \<open>A receipt posted to the origin: however the request ends, every other file of the tree is unchanged, and
  what is stored under a receipt's name is the old content or the canonical text of a receipt that the body
  encodes and that passed validation (its name is the digest of its content). The answer is 201 only when
  it is stored.\<close>

theorem Receipt_post:
  assumes "sqPath r = ''/receipts''" "sqMethod r = ''POST''" "svReceiptsDir sv \<noteq> []"
    "ServeHTTP P E sv r (w, s, nx) = (v, w', s', nx')"
  shows "(\<forall>q b m. lookup w q = Some (FileN b m) \<longrightarrow> lookup w' q = Some (FileN b m) \<or>
       (\<exists>rc. posted P r rc \<and> q = receipt_file sv rc \<and> lookup w' q = Some (FileN (jsonReceipt P rc) 384)))
    \<and> (hvStatus v = Some 201 \<longrightarrow> (\<exists>rc. posted P r rc \<and> rcID rc = digest P rc
         \<and> lookup w' (receipt_file sv rc) = Some (FileN (jsonReceipt P rc) 384)))"
proof -
  obtain x u where run: "serve_http P E sv r (w, new_response s nx) = (x, w', u)"
    and v: "v = u\<lparr>hvStatus := (case hvStatus u of None \<Rightarrow> Some 200 | c \<Rightarrow> c)\<rparr>"
    using assms(4) by (auto simp: ServeHTTP_def split: prod.splits)
  have start: "before_post w (w, new_response s nx)" by (simp add: before_post_def new_response_def)
  have "serve_http P E sv r = post_receipt P E sv r" using assms(1-3) by (simp add: serve_http_def receipts_def)
  with run have eff: "post_effect P sv r w (w', u)"
    using triple_okD [OF post_triple start] triple_errD [OF post_triple start] by (cases x) auto
  have st: "hvStatus v = Some 201 \<longleftrightarrow> hvStatus u = Some 201" by (simp add: v split: option.splits)
  have "lookup w' q = Some (FileN b m) \<or> (\<exists>rc. posted P r rc \<and> q = receipt_file sv rc \<and> lookup w' q = Some (FileN (jsonReceipt P rc) 384))"
    if "lookup w q = Some (FileN b m)" for q b m
    using eff that unfolding post_effect_def aw_effect_def by (auto 0 4)
  moreover have "\<exists>rc. posted P r rc \<and> rcID rc = digest P rc \<and> lookup w' (receipt_file sv rc) = Some (FileN (jsonReceipt P rc) 384)"
    if "hvStatus v = Some 201"
    using eff that validate_id(3) unfolding st post_effect_def posted_def by auto
  ultimately show ?thesis by blast
qed

section \<open>Witnesses\<close>

definition demo_receipt0 :: receipt where
  "demo_receipt0 = \<lparr>rcID = [], rcDeviceID = ''d1'', rcRelease = ''r1'', rcPhase = ''staged'', rcArtifactSHA256 = replicate 64 (CHR ''a''),
     rcRecordedAt = ''t'', rcSummary = zero_summary\<rparr>"

definition demo_receipt :: receipt where
  "demo_receipt = demo_receipt0\<lparr>rcID := Hash []\<rparr>"

definition demo_server_prims :: server_prims where
  "demo_server_prims = agent_prims.extend (demo_agent_prims\<lparr>jsonReceipt := \<lambda>r. bytes_of (rcID r)\<rparr>) (server_prims.fields
     (\<lambda>_. Inl (Msg ''json'')) (\<lambda>_ _. Inr demo_receipt) (\<lambda>_. []) (\<lambda>_. []) (\<lambda>_. []))"

definition demo_plan :: fault_plan where
  "demo_plan = \<lparr>fpRateKbit = 0, fpLatencyMS = 0, fpOffline = False, fpOfflineForMS = 0, fpFailFirst = 0, fpDropEvery = 0,
     fpDropAfterBytes = 0, fpCorruptFirst = 1, fpStallFirst = 0, fpStallMS = 0\<rparr>"

definition demo_server :: fault_server where
  "demo_server = (NewFaultServer [''r''] demo_plan 0)\<lparr>svReceiptsDir := [''in'']\<rparr>"

definition demo_get :: server_request where
  "demo_get = \<lparr>sqMethod = ''GET'', sqPath = ''/chunks/aa/'' @ replicate 64 (CHR ''a'') @ ''.gz'', sqHeaders = [], sqBody = []\<rparr>"

definition demo_objects :: world where
  "demo_objects = put_node [''r'', ''chunks'', ''aa'', replicate 64 (CHR ''a'') @ ''.gz''] (FileN [1, 2, 3] 420) empty_world"

lemma demo_get_parts: "splitOn CHR ''/'' (trimPrefix (sqPath demo_get) ''/'') = [''chunks'', ''aa'', replicate 64 (CHR ''a'') @ ''.gz'']"
proof -
  have "trimPrefix (sqPath demo_get) ''/'' = ''chunks'' @ CHR ''/'' # ''aa'' @ CHR ''/'' # (replicate 64 (CHR ''a'') @ ''.gz'')"
    by (simp add: demo_get_def trimPrefix_def hasPrefix_def)
  then show ?thesis by (simp add: splitOn_append splitOn_no_sep del: append_Cons append_Nil)
qed

lemma demo_get_run:
  "case serve_http demo_server_prims (env_fail_at 99) demo_server demo_get (demo_objects, new_response zero_stats 0) of (_, w', v) \<Rightarrow>
     hvStatus v = Some 200 \<and> hvBody v = [1, 66, 3]"
proof -
  let ?rel = "trimPrefix (sqPath demo_get) ''/''"
  have ch: "isChunkRel (splitOn CHR ''/'' ?rel)" 
    by (simp add: demo_get_parts isChunkRel_def hasSuffix_def trimSuffix_def hexDigest_def is_hex_def list_all_iff)
  have j: "Join [''r''] ?rel = [''r'', ''chunks'', ''aa'', replicate 64 (CHR ''a'') @ ''.gz'']"
    by (simp add: Join_def demo_get_parts)
  have "serve_http demo_server_prims (env_fail_at 99) demo_server demo_get = serve_object demo_server_prims (env_fail_at 99) demo_server demo_get ?rel True"
    using ch by (simp add: serve_http_def Let_def demo_get_def demo_server_def NewFaultServer_def)
  then show ?thesis 
    by (simp add: serve_object_def readPlan_def bindM_def attemptM_def onFst_def count_request_def j demo_server_def NewFaultServer_def demo_plan_def sm_run
       sleepFor_def timeNow_def env_fail_at_def Let_def load_object_def osReadFile_def prim_def demo_objects_def new_response_def zero_stats_def offlineNow_def
       serve_found_def serve_data_def stats_def setHeader_def writeHeader_def modS_def observe_def pacerWait_def respond_def flipped_def
       lookup_def put_node_def empty_world_def send_body.simps)
qed


lemma demo_receipt_posted: "posted demo_server_prims r demo_receipt"
proof -
  have "safeRelease ''r1''" "safeRelease ''d1''" "hexDigest (replicate 64 (CHR ''a''))"
    by (simp_all add: safeRelease_def isAlnum_def isReleaseChar_def hexDigest_def is_hex_def list_all_iff)
  then show ?thesis
    by (simp add: posted_def demo_server_prims_def validate_def demo_receipt_def demo_receipt0_def digest_def bytes_of_def
        agent_prims.defs server_prims.defs demo_agent_prims_def demo_hub_def hub_prims.defs)
qed

definition demo_post :: server_request where
  "demo_post = \<lparr>sqMethod = ''POST'', sqPath = ''/receipts'', sqHeaders = [], sqBody = [123, 125]\<rparr>"

definition calm_env :: env where
  "calm_env = (env_fail_at 0)\<lparr>io_fails := \<lambda>_. False\<rparr>"

lemma demo_post_status: "hvStatus (fst (ServeHTTP demo_server_prims calm_env demo_server demo_post (demo_objects, zero_stats, 0))) = Some 201"
proof -
  let ?P = demo_server_prims and ?w = "demo_objects\<lparr>tick := Suc (tick demo_objects)\<rparr>"
  let ?p = "receipt_file demo_server demo_receipt"
  have hex: "hexDigest (rcID demo_receipt)" by (simp add: demo_receipt_def)
  have p: "?p = [''in'', rcID demo_receipt @ ''.json'']" by (simp add: receipt_file_def demo_server_def)
  have tree: "lookup ?w q = (if q = [] then Some DirN else if q = [''r'', ''chunks'', ''aa'', replicate 64 (CHR ''a'') @ ''.gz''] then Some (FileN [1, 2, 3] 420) else None)" for q
    by (simp add: demo_objects_def lookup_def put_node_def update_conv' empty_world_def)
  have "open_path ?w ?p" unfolding open_path_def tree p by (auto simp: strict_prefix_def prefix_def Cons_eq_append_conv)
  moreover have "fresh_temps ?w" unfolding fresh_temps_def tree by (auto simp: tmpPrefix_def numeral_eq_Suc)
  moreover have "calm calm_env" by (simp add: calm_def calm_env_def env_fail_at_def)
  moreover have "\<not> is_temp ?p" using Join_id(2) [OF hex] by (simp add: receipt_file_def)
  ultimately obtain w' where aw: "AtomicWrite calm_env ?p (jsonReceipt ?P demo_receipt) 384 ?w = (Inr (), w')"
    using AtomicWrite_live by blast
  have j: "Join (svReceiptsDir demo_server) (rcID demo_receipt @ ''.json'') = ?p"
    using Join_id(1) [OF hex] by (simp add: receipt_file_def)
  have plan: "readPlan ?P calm_env demo_server = ret demo_plan" by (simp add: readPlan_def demo_server_def NewFaultServer_def)
  have dec: "jsonReceiptStrict ?P b c = Inr demo_receipt" for b c by (simp add: demo_server_prims_def agent_prims.defs server_prims.defs)
  have on: "\<not> offlineNow demo_server demo_plan t" for t by (simp add: offlineNow_def demo_plan_def)
  have "post_receipt ?P calm_env demo_server demo_post (demo_objects, new_response zero_stats 0) = (Inr (), w', (new_response zero_stats 0)\<lparr>hvStatus := Some 201\<rparr>)"
    using demo_receipt_posted aw
    by (simp add: post_receipt_def plan bindM_def onFst_def attemptM_def sm_run timeNow_def dec on posted_def j writeHeader_def modS_def new_response_def)
  then show ?thesis by (simp add: ServeHTTP_def serve_http_def receipts_def demo_post_def demo_server_def)
qed

theorem Receipt_post_witness:
  "case ServeHTTP demo_server_prims calm_env demo_server demo_post (demo_objects, zero_stats, 0) of (v, w', s', _) \<Rightarrow>
     (\<exists>rc. posted demo_server_prims demo_post rc \<and> lookup w' (receipt_file demo_server rc) = Some (FileN (jsonReceipt demo_server_prims rc) 384))
     \<and> lookup w' [''r'', ''chunks'', ''aa'', replicate 64 (CHR ''a'') @ ''.gz''] = Some (FileN [1, 2, 3] 420)"
proof -
  let ?r = "ServeHTTP demo_server_prims calm_env demo_server demo_post (demo_objects, zero_stats, 0)"
    and ?q = "[''r'', ''chunks'', ''aa'', replicate 64 (CHR ''a'') @ ''.gz'']"
  obtain v w' s' nx' where r: "?r = (v, w', s', nx')" by (rule prod.exhaust [of ?r]) auto
  have "sqPath demo_post = ''/receipts''" "sqMethod demo_post = ''POST''" "svReceiptsDir demo_server \<noteq> []"
    by (simp_all add: demo_post_def demo_server_def)
  note post = Receipt_post [OF this r]
  have q: "lookup demo_objects ?q = Some (FileN [1, 2, 3] 420)" and n: "?q \<noteq> receipt_file demo_server rc" for rc
    by (simp_all add: demo_objects_def lookup_def put_node_def update_conv' receipt_file_def demo_server_def)
  have "lookup w' ?q = Some (FileN [1, 2, 3] 420)"
    using conjunct1 [OF post, rule_format, OF q] n by blast
  moreover have "hvStatus v = Some 201" using demo_post_status by (simp add: r)
  ultimately show ?thesis unfolding r using conjunct2 [OF post] by blast
qed

end
