(* ===== verification/SyncProps.thy ===== *)
theory SyncProps
  imports SyncEffects
begin

text \<open>
  What a run of the agent guarantees: only verified content enters the cache, the accepted sequence
  never goes back, the daemon sees verified archives only, success means a verified archive in place,
  and the retries are bounded.
\<close>

section \<open>The chunk cache\<close>

text \<open>Every cache entry is what it was or a file whose content hashes to its name.\<close>

definition cache_kept :: "agent_options \<Rightarrow> world \<Rightarrow> world \<Rightarrow> bool" where
  "cache_kept o' w w' \<longleftrightarrow> (state_dir_ok o' \<longrightarrow> (\<forall>h. hexDigest h \<longrightarrow>
     lookup w' (cachePath (oStateDir o') h) = lookup w (cachePath (oStateDir o') h)
   \<or> (\<exists>b. lookup w' (cachePath (oStateDir o') h) = Some (FileN b 384) \<and> Hash b = h)))"

interpretation cacheR: file_order "cache_kept o'" for o'
proof
  fix s t u assume a: "cache_kept o' s t" "cache_kept o' t u"
  then show "cache_kept o' s u" unfolding cache_kept_def by metis
qed (simp_all add: cache_kept_def still_def)

lemma steps_cache_of_frame:
  assumes "steps (only_at (\<lambda>q. vital (oStateDir o') q \<longrightarrow> q = p)) m" and "\<And>h. p \<noteq> cachePath (oStateDir o') h"
  shows "steps (cache_kept o') m"
  using assms vital_intros(2) unfolding steps_def only_at_def cache_kept_def by metis

lemma steps_cache_of_outside: "steps (only_at (\<lambda>q. \<not> vital (oStateDir o') q)) m \<Longrightarrow> steps (cache_kept o') m"
  using vital_intros(2) unfolding steps_def only_at_def cache_kept_def by metis

lemma steps_cache_state_ok:
  "(state_dir_ok o' \<Longrightarrow> steps (cache_kept o') m) \<Longrightarrow> steps (cache_kept o') m"
  by (cases "state_dir_ok o'") (auto simp: steps_def cache_kept_def)

lemma steps_cache_write:
  assumes h: "hexDigest h" and raw: "Hash raw = h"
  shows "steps (cache_kept o') (AtomicWrite E (cachePath (oStateDir o') h) raw 384)"
proof (rule stepsI)
  let ?p = "cachePath (oStateDir o') h"
  fix w r w' assume run: "AtomicWrite E ?p raw 384 w = (r, w')"
  note v = vital_intros(2) [OF h, of "oStateDir o'"]
  have at: "lookup w' ?p = lookup w ?p \<or> lookup w' ?p = Some (FileN raw 384)"
    using AtomicWrite_run [OF vital_not_empty [OF v] vital_not_temp [OF v] run] by (simp add: aw_effect_def)
  have "only_at (\<lambda>q. vital (oStateDir o') q \<longrightarrow> q = ?p) w w'"
    using stepsD [OF steps_write_vital [OF v] run] .
  then have "lookup w' (cachePath (oStateDir o') g) = lookup w (cachePath (oStateDir o') g)" if "hexDigest g" "g \<noteq> h" for g
    using that vital_intros(2) [OF that(1), of "oStateDir o'"] by (simp add: only_at_def)
  with at raw show "cache_kept o' w w'" unfolding cache_kept_def by metis
qed

lemma steps_cache_fetch:
  assumes "hexDigest (cSHA256 c)"
  shows "steps (on_fst (cache_kept o')) (fetch_attempt P E o' c)"
  unfolding fetch_attempt_def CachePath_eq
  by (intro cacheR.ag.steps_rules steps_onFst cacheR.steps_vars cacheR.steps_request cacheR.steps_rules
      steps_cache_write [OF assms]) (simp add: Decode_iff)

interpretation cacheW: agent_writers "cache_kept o'" "\<lambda>_. True" P E o' for P E o'
proof
  show "hexDigest (mArtifactSHA256 m) \<Longrightarrow> steps (cache_kept o') (assemble E (oStateDir o') m (stagedPath o' m))" for m
    unfolding stagedPath_eq
    by (rule steps_cache_of_frame [OF steps_assemble]) (simp_all add: vital_intros)
  show "steps (cache_kept o') (docker_load P E o' m dg s)" for m dg s
    by (rule steps_cache_state_ok, rule steps_cache_of_frame [OF steps_docker_load]) simp_all
qed (auto intro: steps_cache_of_outside steps_LockState steps_CleanTemps_vital steps_FlushReceipts_vital
      steps_queueReceipt_vital steps_write_manifest steps_cache_fetch steps_cache_of_frame [OF steps_writeState])

section \<open>The archive\<close>

text \<open>
  A complete archive of a manifest is in place. Where reading failed the code knows only that the
  part of the file it could read is the artifact.
\<close>

definition staged_ok :: "env \<Rightarrow> agent_options \<Rightarrow> manifest \<Rightarrow> world \<Rightarrow> bool" where
  "staged_ok E o' m w \<longleftrightarrow> (\<exists>b md. lookup w (stagedPath o' m) = Some (FileN b md)
     \<and> mArtifactSize m \<le> int (length b) \<and> Hash (take (nat (mArtifactSize m)) b) = mArtifactSHA256 m
     \<and> (int (length b) = mArtifactSize m \<or> (\<exists>t. io_fails E t)))"

lemma staged_ok_frame:
  "staged_ok E o' m w \<Longrightarrow> lookup w' (stagedPath o' m) = lookup w (stagedPath o' m) \<Longrightarrow> staged_ok E o' m w'"
  by (simp add: staged_ok_def)

lemma openRead_parts:
  assumes "openRead E p w = (Inr (b, e), w')"
  shows "lookup w' = lookup w" "b \<noteq> [] \<Longrightarrow> \<exists>c md. lookup w p = Some (FileN c md) \<and> prefix b c \<and> (b = c \<or> (\<exists>t. io_fails E t))"
  using assms by (auto simp: openRead_def osStat_def prim_def bindM_def Let_def sm_run fun_eq_iff take_is_prefix
      split: if_splits option.splits node.splits prod.splits)

lemma check_space_staged:
  assumes "check_space E o' m n w = (Inr True, w')" and "0 < mArtifactSize m"
  shows "staged_ok E o' m w \<and> lookup w' = lookup w"
proof -
  obtain x w1 where f: "FileHash E (stagedPath o' m) w = (Inr x, w1)" and x: "fst x = mArtifactSHA256 m" "fst (snd x) = mArtifactSize m"
    and rest: "lookup w' = lookup w1"
    using assms(1) by (auto simp: check_space_def bindM_run Let_def AvailableBytes_def prim_def fun_eq_iff split: if_splits)
  obtain y w2 where y: "openRead E (stagedPath o' m) w = (y, w2)" by fastforce
  have xy: "(case y of Inl e \<Rightarrow> ret ([], 0, Some e) | Inr (b, e) \<Rightarrow> ret (Hash b, int (length b), e)) w2 = (Inr x, w1)"
    using f y by (simp add: FileHash_def bindM_def attemptM_def)
  from xy x assms(2) obtain b e where "y = Inr (b, e)" and b: "x = (Hash b, int (length b), e)" and "w2 = w1"
    by (auto split: sum.splits)
  with y have o: "openRead E (stagedPath o' m) w = (Inr (b, e), w1)" by simp
  from x b assms(2) have "b \<noteq> []" by auto
  with openRead_parts [OF o] obtain c md where c: "lookup w (stagedPath o' m) = Some (FileN c md)" "prefix b c"
    "b = c \<or> (\<exists>t. io_fails E t)" "lookup w1 = lookup w" by blast
  have "take (nat (mArtifactSize m)) c = b" using x b c(2) by (auto simp: prefix_def)
  then have "staged_ok E o' m w" using c x b unfolding staged_ok_def by fastforce
  with c rest show ?thesis by simp
qed

text \<open>While the archive is being copied the temporary file holds exactly what was hashed.\<close>

lemma copy_chunk_triple:
  assumes "t \<noteq> []"
  shows "triple (\<lambda>w. \<exists>md. lookup w t = Some (FileN h md)) (copy_chunk E state t c)
     (\<lambda>b w. \<exists>md. lookup w t = Some (FileN (h @ b) md)) (\<lambda>_ _. True)"
proof (rule tripleI)
  fix w b w' assume pre: "\<exists>md. lookup w t = Some (FileN h md)" and run: "copy_chunk E state t c w = (Inr b, w')"
  then obtain w1 x e w2 where c: "ctxErr E w = (Inr (), w1)" and o: "openRead E (CachePath state c) w1 = (Inr (x, e), w2)"
    and f: "fWrite E t b w2 = (Inr (), w')"
    by (auto simp: copy_chunk_def bindM_run Let_def)
  have "lookup w2 = lookup w"
    using openRead_parts(1) [OF o] stepsD [OF still_prims(8) c] by (simp add: still_def)
  with pre f assms show "\<exists>md. lookup w' t = Some (FileN (h @ b) md)"
    by (auto simp: fWrite_def Let_def split: option.splits node.splits if_splits)
qed simp

lemma copy_chunks_triple:
  assumes "t \<noteq> []"
  shows "triple (\<lambda>w. \<exists>md. lookup w t = Some (FileN h md)) (copy_chunks E state t cs h)
     (\<lambda>b w. \<exists>md. lookup w t = Some (FileN b md)) (\<lambda>_ _. True)"
  by (induction cs arbitrary: h) (auto intro!: triple_ret triple_bind [OF copy_chunk_triple [OF assms]])

lemma triple_with_frame:
  assumes "triple A m Q X" and "steps (only_at K) m" and "\<not> K p"
  shows "triple (\<lambda>w. A w \<and> lookup w p = n) m (\<lambda>x w. Q x w \<and> lookup w p = n) (\<lambda>e w. X e w \<and> lookup w p = n)"
proof (rule tripleI)
  fix s x s' assume a: "A s \<and> lookup s p = n" and r: "m s = (Inr x, s')"
  then show "Q x s' \<and> lookup s' p = n"
    using triple_okD [OF assms(1) _ r] stepsD [OF assms(2) r] assms(3) by (simp add: only_at_def)
next
  fix s e s' assume a: "A s \<and> lookup s p = n" and r: "m s = (Inl e, s')"
  then show "X e s' \<and> lookup s' p = n"
    using triple_errD [OF assms(1) _ r] stepsD [OF assms(2) r] assms(3) by (simp add: only_at_def)
qed

definition artifact_at :: "path \<Rightarrow> manifest \<Rightarrow> world \<Rightarrow> bool" where
  "artifact_at out m w \<longleftrightarrow> (\<exists>b md. lookup w out = Some (FileN b md)
     \<and> int (length b) = mArtifactSize m \<and> Hash b = mArtifactSHA256 m)"

lemma assemble_body_triple:
  assumes ne: "t \<noteq> []" "out \<noteq> []" "t \<noteq> out"
  shows "triple (\<lambda>w. (\<exists>md. lookup w t = Some (FileN [] md)) \<and> lookup w out = n) (assemble_body E state m out t)
     (\<lambda>_. artifact_at out m) (\<lambda>_ w. lookup w out = n \<or> artifact_at out m w)"
proof -
  let ?X = "\<lambda>_ w. lookup w out = n \<or> artifact_at out m w"
  let ?J = "\<lambda>h w. (\<exists>md. lookup w t = Some (FileN h md)) \<and> lookup w out = n \<and> int (length h) = mArtifactSize m \<and> Hash h = mArtifactSHA256 m"
  have copy: "triple (\<lambda>w. (\<exists>md. lookup w t = Some (FileN [] md)) \<and> lookup w out = n) (copy_chunks E state t (mChunks m) [])
     (\<lambda>h w. (\<exists>md. lookup w t = Some (FileN h md)) \<and> lookup w out = n) ?X"
    by (rule triple_conseq [OF triple_with_frame [OF copy_chunks_triple [OF ne(1)] steps_copy_chunks [where Q = "\<lambda>q. q = t"]]])
       (use ne in auto)
  have ok: "triple (\<lambda>w. (\<exists>md. lookup w t = Some (FileN h md)) \<and> lookup w out = n)
     (guardM (\<not> (int (length h) \<noteq> mArtifactSize m \<or> Hash h \<noteq> mArtifactSHA256 m)) e) (\<lambda>_. ?J h) ?X" for h e
    by (rule triple_guard) auto
  have quiet: "triple (?J h) act (\<lambda>_. ?J h) ?X" if "steps still act" for h and act :: "unit io"
    by (rule tripleI) (auto simp: still_def dest!: stepsD [OF that])
  have ren: "triple (?J h) (osRename E t out) (\<lambda>_. artifact_at out m) ?X" for h
    by (rule tripleI) (use ne in \<open>auto simp: osRename_def prim_def Let_def artifact_at_def split: if_splits\<close>)
  have sync: "triple (artifact_at out m) (SyncDir E d) (\<lambda>_. artifact_at out m) ?X" for d
    by (rule tripleI) (auto simp: still_def artifact_at_def dest!: stepsD [OF still_SyncDir])
  show ?thesis
    unfolding assemble_body_def
    by (rule triple_bind [OF copy], rule triple_bind [OF ok], rule triple_bind [OF quiet [OF still_prims(3)]],
        rule triple_bind [OF quiet [OF still_prims(4)]], rule triple_bind [OF ren], rule sync)
qed

lemma assemble_run:
  assumes run: "assemble E state m out w = (r, w')" and out: "out \<noteq> []" "\<not> is_temp out"
  shows "(lookup w' out = lookup w out \<and> r \<noteq> Inr ()) \<or> artifact_at out m w'"
proof -
  obtain r1 w1 where e: "EnsureDir E (butlast out) w = (r1, w1)" by fastforce
  have o1: "lookup w1 out = lookup w out"
  proof -
    have "\<not> prefix out (butlast out)" using out(1) by (cases out rule: rev_cases) (auto dest: prefix_length_le)
    then show ?thesis using stepsD [OF steps_EnsureDir e, unfolded mk_dirs_def, THEN spec, of out] by blast
  qed
  show ?thesis
  proof (cases r1)
    case (Inl x)
    then show ?thesis using run e o1 by (auto simp: assemble_def bindM_def)
  next
    case (Inr u)
    obtain r2 w2 where c: "osCreateTemp E (butlast out) ''.tmp-archive-'' w1 = (r2, w2)" by fastforce
    show ?thesis
    proof (cases r2)
      case (Inl x)
      then show ?thesis
        using run e Inr c o1 osCreateTemp_err [of E "butlast out" "''.tmp-archive-''" w1 x w2]
        by (auto simp: assemble_def bindM_def only_at_def)
    next
      case t2: (Inr t)
      note ct = osCreateTemp_ok [OF c [unfolded t2]]
      then have tt: "is_temp t" "t \<noteq> []" by (auto simp: is_temp_def isTempName_def)
      with out(2) have to: "t \<noteq> out" by auto
      obtain r3 w3 where b: "assemble_body E state m out t w2 = (r3, w3)" by fastforce
      have pre: "(\<exists>md. lookup w2 t = Some (FileN [] md)) \<and> lookup w2 out = lookup w out"
        using ct(2,3) to o1 by (simp add: only_at_def)
      have w': "r = r3" "w' = snd (osRemove E t w3)"
        using run e Inr c t2 b by (auto simp: assemble_def bindM_def deferM_def)
      have "lookup w' out = lookup w3 out"
        using to tt osRemove_effect(1) [of E t w3 "fst (osRemove E t w3)" w'] w' by auto
      moreover have "r3 = Inr () \<Longrightarrow> artifact_at out m w3"
        using triple_okD [OF assemble_body_triple [OF tt(2) out(1) to] pre] b by auto
      moreover have "lookup w3 out = lookup w out \<or> artifact_at out m w3"
        using triple_okD [OF assemble_body_triple [OF tt(2) out(1) to] pre]
          triple_errD [OF assemble_body_triple [OF tt(2) out(1) to] pre] b by (cases r3) auto
      ultimately show ?thesis using w'(1) by (auto simp: artifact_at_def)
    qed
  qed
qed

lemma artifact_staged: "artifact_at (stagedPath o' m) m w \<Longrightarrow> 0 < mArtifactSize m \<Longrightarrow> staged_ok E o' m w"
  unfolding artifact_at_def staged_ok_def by force

section \<open>The accepted sequence\<close>

text \<open>What \<open>readState\<close> makes of the node at the state path, and the states a run may record after it.\<close>

definition old_of :: "'x agent_prims_scheme \<Rightarrow> node option \<Rightarrow> agent_state option" where
  "old_of P n = (case n of None \<Rightarrow> Some zero_state
     | Some (FileN b _) \<Rightarrow> (case jsonStateDec P b of Inr s \<Rightarrow> Some s | Inl _ \<Rightarrow> None)
     | Some DirN \<Rightarrow> None)"

definition admits :: "'x agent_prims_scheme \<Rightarrow> node option \<Rightarrow> agent_state \<Rightarrow> bool" where
  "admits P n0 s \<longleftrightarrow> (\<exists>old. old_of P n0 = Some old \<and> asSequence old \<le> asSequence s
     \<and> (asSequence s = asSequence old \<and> asManifestSHA256 old \<noteq> [] \<longrightarrow> asManifestSHA256 s = asManifestSHA256 old)
     \<and> hexDigest (asManifestSHA256 s))"

definition advanced :: "'x agent_prims_scheme \<Rightarrow> node option \<Rightarrow> node option \<Rightarrow> bool" where
  "advanced P n0 n \<longleftrightarrow> n = n0 \<or> (\<exists>s. admits P n0 s \<and> n = Some (FileN (jsonState P s) 384))"

definition state_adv :: "'x agent_prims_scheme \<Rightarrow> agent_options \<Rightarrow> node option \<Rightarrow> world \<Rightarrow> world \<Rightarrow> bool" where
  "state_adv P o' n0 w w' \<longleftrightarrow> (state_dir_ok o' \<and> advanced P n0 (lookup w (statePath (oStateDir o')))
     \<longrightarrow> advanced P n0 (lookup w' (statePath (oStateDir o'))))"

interpretation advR: file_order "state_adv P o' n0" for P o' n0
  by unfold_locales (auto simp: state_adv_def still_def)

lemma steps_adv_of_frame:
  assumes "state_dir_ok o' \<Longrightarrow> steps (only_at K) m" and "\<not> K (statePath (oStateDir o'))"
  shows "steps (state_adv P o' n0) m"
  using assms by (cases "state_dir_ok o'") (auto simp: steps_def only_at_def state_adv_def)

lemma admits_upd [simp]:
  "admits P n0 (s\<lparr>asPhase := ph\<rparr>) = admits P n0 s" "admits P n0 (s\<lparr>asUpdated := u\<rparr>) = admits P n0 s"
  "admits P n0 (s\<lparr>asLoadedManifestSHA256 := l\<rparr>) = admits P n0 s"
  "admits P n0 (s\<lparr>asLoadedManifestSHA256 := l, asPhase := ph\<rparr>) = admits P n0 s"
  "admits P n0 (s\<lparr>asPhase := ph, asLoadedManifestSHA256 := l\<rparr>) = admits P n0 s"
  by (simp_all add: admits_def)

lemma statePath_plain: "statePath dir \<noteq> []" "\<not> is_temp (statePath dir)"
  using vital_not_empty [OF vital_intros(1)] vital_not_temp [OF vital_intros(1)] by blast+

lemma writeState_run:
  assumes "writeState P E dir s w = (r, w')"
  shows "lookup w' (statePath dir) = lookup w (statePath dir) \<or>
     (\<exists>u. lookup w' (statePath dir) = Some (FileN (jsonState P (s\<lparr>asUpdated := u\<rparr>)) 384))"
    and "r = Inr () \<Longrightarrow> \<exists>u. lookup w' (statePath dir) = Some (FileN (jsonState P (s\<lparr>asUpdated := u\<rparr>)) 384)"
proof -
  obtain t w1 where tn: "timeNow E w = (Inr t, w1)"
    and a: "AtomicWrite E (statePath dir) (jsonState P (s\<lparr>asUpdated := formatTime P t\<rparr>)) 384 w1 = (r, w')"
    using assms by (auto simp: writeState_def bindM_run timeNow_def)
  have t: "lookup w1 = lookup w" using stepsD [OF still_prims(9) tn] by (simp add: still_def)
  from AtomicWrite_run [OF statePath_plain a] t
  show "lookup w' (statePath dir) = lookup w (statePath dir) \<or>
     (\<exists>u. lookup w' (statePath dir) = Some (FileN (jsonState P (s\<lparr>asUpdated := u\<rparr>)) 384))"
    and "r = Inr () \<Longrightarrow> \<exists>u. lookup w' (statePath dir) = Some (FileN (jsonState P (s\<lparr>asUpdated := u\<rparr>)) 384)"
    by (auto simp: aw_effect_def)
qed

lemma steps_adv_write: "admits P n0 s \<Longrightarrow> steps (state_adv P o' n0) (writeState P E (oStateDir o') s)"
proof (rule stepsI)
  fix w r w' assume s: "admits P n0 s" and "writeState P E (oStateDir o') s w = (r, w')"
  from writeState_run(1) [OF this(2)] have "lookup w' (statePath (oStateDir o')) = lookup w (statePath (oStateDir o')) \<or>
      (\<exists>s'. admits P n0 s' \<and> lookup w' (statePath (oStateDir o')) = Some (FileN (jsonState P s') 384))"
    using s by (metis admits_upd(2))
  then show "state_adv P o' n0 w w'" by (auto simp: state_adv_def advanced_def)
qed

lemma steps_adv_outside:
  "steps (only_at (\<lambda>q. \<not> vital (oStateDir o') q)) m \<Longrightarrow> steps (state_adv P o' n0) m"
  by (rule steps_adv_of_frame, assumption) (simp add: vital_intros)

lemma docker_load_state:
  assumes "docker_load P E o' m dg s w = (Inr s', w')"
  shows "s' = s\<lparr>asPhase := (if oDockerLoad o' then ''loaded'' else ''staged''),
      asLoadedManifestSHA256 := (if oDockerLoad o' then dg else asLoadedManifestSHA256 s)\<rparr>"
  using assms by (auto simp: docker_load_def Let_def bindM_run split: if_splits)

lemma steps_adv_docker: "admits P n0 s \<Longrightarrow> steps (state_adv P o' n0) (docker_load P E o' m dg s)"
proof -
  assume s: "admits P n0 s"
  have v: "steps (state_adv P o' n0) (verifyLoadedConfigIdentity P E report ids)" for report ids
    by (rule steps_adv_of_frame [OF steps_verifyLoaded_vital], assumption) (simp add: vital_intros)
  have run: "steps (state_adv P o' n0) (dockerRun E args)" for args
    by (auto simp: steps_def dockerRun_def state_adv_def)
  show ?thesis
    unfolding docker_load_def Let_def
    by (intro advR.steps_rules steps_adv_write v run) (use s in simp)
qed

interpretation advD: agent_docker "state_adv P o' n0" "admits P n0" P E o' for P E o' n0
proof
  show "hexDigest (cSHA256 c) \<Longrightarrow> steps (on_fst (state_adv P o' n0)) (fetch_attempt P E o' c)" for c
    unfolding fetch_attempt_def CachePath_eq
    by (intro advR.ag.steps_rules steps_onFst advR.steps_vars advR.steps_request advR.steps_rules
        steps_adv_of_frame [OF steps_write_vital [OF vital_intros(2)]]) (simp_all add: vital_intros(1))
  show "hexDigest (mArtifactSHA256 m) \<Longrightarrow> steps (state_adv P o' n0) (assemble E (oStateDir o') m (stagedPath o' m))" for m
    unfolding stagedPath_eq
    by (rule steps_adv_of_frame [OF steps_assemble [OF vital_intros(3)]], assumption) (simp add: vital_intros(1))
  show "admits P n0 s \<Longrightarrow> docker_load P E o' m dg s w = (Inr s', w') \<Longrightarrow> admits P n0 s'" for m dg s w s' w'
    by (drule docker_load_state) simp
qed (auto intro: steps_adv_outside steps_LockState steps_CleanTemps_vital steps_FlushReceipts_vital
      steps_queueReceipt_vital steps_write_manifest steps_adv_write steps_adv_docker)

lemma readState_ok:
  assumes "readState P E dir w = (Inr s, w')"
  shows "old_of P (lookup w (statePath dir)) = Some s"
  using assms
  by (auto simp: readState_def bindM_def attemptM_def osReadFile_def prim_def Let_def old_of_def sm_run
      split: if_splits option.splits node.splits)

section \<open>The manifest phase\<close>

text \<open>Before the public key is read only the state directory, its ancestors and temporary files change.\<close>

definition near :: "path \<Rightarrow> path \<Rightarrow> bool" where
  "near dir q \<longleftrightarrow> prefix dir q \<or> prefix q dir \<or> is_temp q"

definition trusted_key :: "agent_options \<Rightarrow> world \<Rightarrow> bytes \<Rightarrow> bool" where
  "trusted_key o' w pub \<longleftrightarrow> (\<exists>kb. file_bytes w (oPublicKey o') = Some kb \<and> parseKey kb PublicKeySize = Inr pub)"

lemma near_LockState: "steps (only_at (near dir)) (LockState E dir)"
proof -
  have "steps (only_at (near dir)) (EnsureDir E dir)"
    by (rule stepsI, drule stepsD [OF steps_EnsureDir]) (auto simp: only_at_def near_def mk_dirs_def)
  moreover have "steps (only_at (near dir)) (osOpenCreate E (dir @ [''agent.lock'']) 384)"
    by (auto simp: steps_def osOpenCreate_def prim_def Let_def only_at_def near_def split: option.splits node.splits)
  ultimately show ?thesis
    unfolding LockState_def by (intro frame.steps_rules fo.still_rules)
qed

lemma near_FlushReceipts: "steps (only_at (near (oStateDir o'))) (FlushReceipts P E o')"
  by (rule only_at_mono [OF steps_FlushReceipts_frame])
     (auto simp: near_def in_outbox_def outbox_def prefix_def, metis append_butlast_last_id append_assoc)

lemma near_checks: "steps (on_fst (only_at (near (oStateDir o')))) (sync_checks P E o')"
  unfolding sync_checks_def flush_and_note_def
  by (intro fo.ag.steps_rules steps_onFst frame.steps_rules near_FlushReceipts fo.steps_vars)

lemma vital_checks: "steps (on_fst (only_at (\<lambda>q. \<not> vital (oStateDir o') q))) (sync_checks P E o')"
  unfolding sync_checks_def flush_and_note_def
  by (intro fo.ag.steps_rules steps_onFst frame.steps_rules steps_FlushReceipts_vital fo.steps_vars)

lemma triple_keeps:
  assumes "steps (on_fst (only_at K)) m" and "\<not> K p"
  shows "triple (\<lambda>st. lookup (fst st) p = n) m (\<lambda>_ st. lookup (fst st) p = n) (\<lambda>_ st. lookup (fst st) p = n)"
  by (rule tripleI; drule stepsD [OF assms(1)]) (use assms(2) in \<open>auto simp: on_fst_def only_at_def\<close>)

lemma triple_conj:
  assumes "triple A m Q X" and "triple B m Q' X'"
  shows "triple (\<lambda>s. A s \<and> B s) m (\<lambda>x s. Q x s \<and> Q' x s) (\<lambda>e s. X e s \<and> X' e s)"
  by (rule tripleI) (use assms in \<open>blast dest: triple_okD triple_errD\<close>)+

lemma accept_triple:
  assumes old: "old_of P n0 = Some old"
  shows "triple (\<lambda>st. lookup (fst st) (statePath (oStateDir o')) = n0) (accept_manifest P E o' pub old eu)
    (\<lambda>(m, dg, s) st. Verify P (fst eu) pub (oMaxArtifact o') = Inr (m, dg) \<and> admits P n0 s \<and> asManifestSHA256 s = dg
       \<and> asSequence s = mSequence m \<and> advanced P n0 (lookup (fst st) (statePath (oStateDir o'))))
    (\<lambda>_ st. advanced P n0 (lookup (fst st) (statePath (oStateDir o'))))"
proof (rule tripleI)
  let ?sp = "statePath (oStateDir o')"
  fix st x st'
  {
    fix r assume pre: "lookup (fst st) ?sp = n0" and run: "accept_manifest P E o' pub old eu st = (r, st')"
    obtain envelope url where eu: "eu = (envelope, url)" by (cases eu)
    have same: "lookup w' ?sp = lookup w ?sp"
      if "AtomicWrite E (manifestPath (oStateDir o') dg) b 384 w = (y, w')" "hexDigest dg" for dg b w y w'
      using stepsD [OF steps_write_manifest [OF that(2)] that(1)] vital_intros(1)
      by (simp add: only_at_def)
    have wr: "advanced P n0 (lookup w' ?sp)"
      if "writeState P E (oStateDir o') s w = (y, w')" "admits P n0 s" "lookup w ?sp = n0" for s w y w'
      using writeState_run(1) [OF that(1)] that(2,3) unfolding advanced_def by (metis admits_upd(2))
    have "advanced P n0 (lookup (fst st') ?sp)"
    proof (cases "Verify P envelope pub (oMaxArtifact o')")
      case (Inl e)
      then show ?thesis using run pre by (simp add: eu accept_manifest_def bindM_def sm_run advanced_def)
    next
      case (Inr v)
      obtain m dg where v: "v = (m, dg)" by (cases v)
      have hex: "hexDigest dg" using Verify_digests(1) Inr v by blast
      define s where "s = \<lparr>asSequence = mSequence m, asManifestSHA256 = dg, asManifestURL = url, asRelease = mRelease m,
               asPhase = ''planning'', asArtifact = stagedPath o' m, asUpdated = [],
               asLoadedManifestSHA256 = asLoadedManifestSHA256 old\<rparr>"
      show ?thesis
      proof (cases "\<not> mSequence m < asSequence old \<and> \<not> (mSequence m = asSequence old \<and> asManifestSHA256 old \<noteq> [] \<and> dg \<noteq> asManifestSHA256 old)")
        case False
        then show ?thesis
          using run pre Inr by (auto simp: eu v accept_manifest_def bindM_def sm_run guardM_def advanced_def split: if_splits)
      next
        case ok: True
        then have adm: "admits P n0 s" using old hex by (auto simp: admits_def s_def not_less)
        obtain y w1 where a: "AtomicWrite E (manifestPath (oStateDir o') dg) envelope 384 (fst st) = (y, w1)" by fastforce
        have l1: "lookup w1 ?sp = n0" using same [OF a hex] pre by simp
        show ?thesis
        proof (cases y)
          case (Inl e)
          then show ?thesis
            using run Inr ok a l1 by (auto simp: eu v accept_manifest_def bindM_def sm_run guardM_def onFst_def advanced_def)
        next
          case y: (Inr u)
          obtain z w2 where w: "writeState P E (oStateDir o') s w1 = (z, w2)" by fastforce
          then have "advanced P n0 (lookup w2 ?sp)" using wr adm l1 by blast
          moreover have "fst st' = w2"
            using run Inr ok a y w
            by (cases z) (auto simp: eu v accept_manifest_def bindM_def sm_run guardM_def onFst_def Let_def s_def summ_def modS_def)
          ultimately show ?thesis by simp
        qed
      qed
    qed
  } note adv = this
  show "advanced P n0 (lookup (fst st') ?sp)" if "lookup (fst st) ?sp = n0" "accept_manifest P E o' pub old eu st = (Inl e, st')" for e
    using adv that by blast
  assume pre: "lookup (fst st) ?sp = n0" and run: "accept_manifest P E o' pub old eu st = (Inr x, st')"
  obtain m dg s where x: "x = (m, dg, s)" by (cases x)
  note ok = accept_manifest_ok [OF run [unfolded x]]
  have "admits P n0 s"
    unfolding admits_def using old ok Verify_digests(1) [OF ok(1)] by auto
  with adv [OF pre run] ok x show "(case x of (m, dg, s) \<Rightarrow> \<lambda>st. Verify P (fst eu) pub (oMaxArtifact o') = Inr (m, dg)
       \<and> admits P n0 s \<and> asManifestSHA256 s = dg \<and> asSequence s = mSequence m \<and> advanced P n0 (lookup (fst st) ?sp)) st'"
    by simp
qed

end
