(* ===== verification/SyncRun.thy ===== *)
theory SyncRun
  imports SyncProps
begin

text \<open>
  The guarantees of a whole run of \<open>Sync\<close> (\<open>src/internal/lab/agent.go\<close>), put together from the lemmas
  about its phases.
\<close>

section \<open>The manifest phase\<close>

text \<open>The key that counts is the one on disk before the run.\<close>

definition signed_release :: "'x agent_prims_scheme \<Rightarrow> agent_options \<Rightarrow> world \<Rightarrow> manifest \<Rightarrow> string \<Rightarrow> bool" where
  "signed_release P o' w m dg \<longleftrightarrow> (\<exists>envelope pub. Verify P envelope pub (oMaxArtifact o') = Inr (m, dg)
     \<and> (\<not> near (oStateDir o') (oPublicKey o') \<longrightarrow> trusted_key o' w pub))"

lemma signed_release_digests:
  assumes "signed_release P o' w m dg"
  shows "hexDigest dg" "hexDigest (mArtifactSHA256 m)" "0 < mArtifactSize m"
    "\<And>c. c \<in> set (mChunks m) \<Longrightarrow> hexDigest (cSHA256 c)"
  using assms by (auto simp: signed_release_def dest: Verify_digests)

lemma ReadKey_trusted:
  assumes "ReadKey E (oPublicKey o') PublicKeySize w = (Inr pub, w')"
  shows "trusted_key o' w pub"
  using assms
  by (auto simp: ReadKey_def bindM_run osReadFile_def prim_def Let_def trusted_key_def file_bytes_def split: if_splits option.splits node.splits)

lemma trusted_key_frame:
  "lookup w' (oPublicKey o') = lookup w (oPublicKey o') \<Longrightarrow> trusted_key o' w' pub \<longleftrightarrow> trusted_key o' w pub"
  by (simp add: trusted_key_def file_bytes_def)

text \<open>Up to the point where the manifest is accepted, the state file and the public key stay as they were.\<close>

definition inputs_kept :: "agent_options \<Rightarrow> world \<Rightarrow> world \<times> vars \<Rightarrow> bool" where
  "inputs_kept o' w0 st \<longleftrightarrow> lookup (fst st) (statePath (oStateDir o')) = lookup w0 (statePath (oStateDir o'))
     \<and> (\<not> near (oStateDir o') (oPublicKey o') \<longrightarrow> lookup (fst st) (oPublicKey o') = lookup w0 (oPublicKey o'))"

lemma inputs_kept_step:
  assumes "steps (on_fst (only_at (\<lambda>q. \<not> vital (oStateDir o') q))) m" and "steps (on_fst (only_at (near (oStateDir o')))) m"
    and "m st = (r, st')" and "inputs_kept o' w0 st"
  shows "inputs_kept o' w0 st'"
  using stepsD [OF assms(1,3)] stepsD [OF assms(2,3)] assms(4) vital_intros(1)
  by (simp add: inputs_kept_def on_fst_def only_at_def)

lemma inputs_kept_prepare:
  assumes "inputs_kept o' w0 st"
  shows "onFst (LockState E (oStateDir o')) st = (r, st') \<Longrightarrow> inputs_kept o' w0 st'"
    and "onFst (CleanTemps E (oStateDir o')) st = (r1, st') \<Longrightarrow> inputs_kept o' w0 st'"
    and "onFst (ReadKey E (oPublicKey o') n) st = (r2, st') \<Longrightarrow> inputs_kept o' w0 st'"
    and "onFst (readState P E (oStateDir o')) st = (r3, st') \<Longrightarrow> inputs_kept o' w0 st'"
    and "(if oOffline o' then onFst (load_offline E o' old) else load_online P E fuel o' pub old) st = (r4, st') \<Longrightarrow> inputs_kept o' w0 st'"
    and "sync_checks P E o' st = (r5, st') \<Longrightarrow> inputs_kept o' w0 st'"
proof -
  note go = inputs_kept_step [OF _ _ _ assms]
  have load: "steps (on_fst (only_at Q)) (if oOffline o' then onFst (load_offline E o' old) else load_online P E fuel o' pub old)" for Q
    by (intro fo.ag.steps_rules steps_onFst fo.steps_load_offline fo.steps_load_online)
  show "onFst (LockState E (oStateDir o')) st = (r, st') \<Longrightarrow> inputs_kept o' w0 st'"
    by (rule go [OF steps_onFst [OF steps_LockState] steps_onFst [OF near_LockState]])
  show "onFst (CleanTemps E (oStateDir o')) st = (r1, st') \<Longrightarrow> inputs_kept o' w0 st'"
    by (rule go [OF steps_onFst [OF steps_CleanTemps_vital] steps_onFst [OF only_at_mono [OF steps_CleanTemps]]])
       (simp_all add: near_def)
  show "onFst (ReadKey E (oPublicKey o') n) st = (r2, st') \<Longrightarrow> inputs_kept o' w0 st'"
    by (rule go [OF steps_onFst [OF fo.steps_ReadKey] steps_onFst [OF fo.steps_ReadKey]])
  show "onFst (readState P E (oStateDir o')) st = (r3, st') \<Longrightarrow> inputs_kept o' w0 st'"
    by (rule go [OF steps_onFst [OF fo.steps_readState] steps_onFst [OF fo.steps_readState]])
  show "(if oOffline o' then onFst (load_offline E o' old) else load_online P E fuel o' pub old) st = (r4, st') \<Longrightarrow> inputs_kept o' w0 st'"
    by (rule go [OF load load])
  show "sync_checks P E o' st = (r5, st') \<Longrightarrow> inputs_kept o' w0 st'"
    by (rule go [OF vital_checks near_checks])
qed

lemma inputs_kept_adv: "inputs_kept o' w0 st \<Longrightarrow> advanced P (lookup w0 (statePath (oStateDir o'))) (lookup (fst st) (statePath (oStateDir o')))"
  by (simp add: inputs_kept_def advanced_def)

text \<open>What the manifest phase promises, for a run that starts with the files of \<open>w0\<close>.\<close>

definition accepted_release :: "'x agent_prims_scheme \<Rightarrow> agent_options \<Rightarrow> world \<Rightarrow> manifest \<times> string \<times> agent_state \<Rightarrow> bool" where
  "accepted_release P o' w0 = (\<lambda>(m, dg, s). signed_release P o' w0 m dg \<and> admits P (lookup w0 (statePath (oStateDir o'))) s
     \<and> asManifestSHA256 s = dg \<and> asSequence s = mSequence m)"

lemma sync_manifest_triple:
  fixes P :: "'x agent_prims_scheme" and o' :: agent_options and w0 :: world
  defines "n0 \<equiv> lookup w0 (statePath (oStateDir o'))"
  defines "Adv \<equiv> \<lambda>st::world \<times> vars. advanced P n0 (lookup (fst st) (statePath (oStateDir o')))"
  shows "triple (inputs_kept o' w0) (sync_manifest P E fuel o') (\<lambda>x st. accepted_release P o' w0 x \<and> Adv st) (\<lambda>_. Adv)"
proof -
  let ?K = "inputs_kept o' w0"
  let ?key = "\<lambda>pub. \<not> near (oStateDir o') (oPublicKey o') \<longrightarrow> trusted_key o' w0 pub"
  have KA: "?K st \<Longrightarrow> Adv st" for st
    by (simp add: inputs_kept_adv Adv_def n0_def)
  have lock: "triple ?K (onFst (LockState E (oStateDir o'))) (\<lambda>_. ?K) (\<lambda>_. Adv)"
    by (rule tripleI) (blast dest: inputs_kept_prepare(1) intro: KA)+
  have clean: "triple ?K (onFst (CleanTemps E (oStateDir o'))) (\<lambda>_. ?K) (\<lambda>_. Adv)"
    by (rule tripleI) (blast dest: inputs_kept_prepare(2) intro: KA)+
  have key: "triple ?K (onFst (ReadKey E (oPublicKey o') PublicKeySize)) (\<lambda>pub st. ?key pub \<and> ?K st) (\<lambda>_. Adv)"
  proof (rule tripleI)
    fix st pub st' assume k: "?K st" and run: "onFst (ReadKey E (oPublicKey o') PublicKeySize) st = (Inr pub, st')"
    have "trusted_key o' (fst st) pub"
      using run by (auto simp: onFst_def intro: ReadKey_trusted split: prod.splits)
    then show "?key pub \<and> ?K st'"
      using k inputs_kept_prepare(3) [OF k run] trusted_key_frame [of "fst st" o' w0 pub] by (auto simp: inputs_kept_def)
  qed (blast dest: inputs_kept_prepare(3) intro: KA)
  have state: "triple ?K (onFst (readState P E (oStateDir o'))) (\<lambda>old st. old_of P n0 = Some old \<and> ?K st) (\<lambda>_. Adv)"
  proof (rule tripleI)
    fix st old st' assume k: "?K st" and run: "onFst (readState P E (oStateDir o')) st = (Inr old, st')"
    have "old_of P (lookup (fst st) (statePath (oStateDir o'))) = Some old"
      using run by (auto simp: onFst_def intro: readState_ok split: prod.splits)
    then show "old_of P n0 = Some old \<and> ?K st'"
      using k inputs_kept_prepare(4) [OF k run] by (simp add: inputs_kept_def n0_def)
  qed (blast dest: inputs_kept_prepare(4) intro: KA)
  have load: "triple ?K (if oOffline o' then onFst (load_offline E o' old) else load_online P E fuel o' pub old) (\<lambda>_. ?K) (\<lambda>_. Adv)" for old pub
    by (rule tripleI) (blast dest: inputs_kept_prepare(5) intro: KA)+
  have accept: "triple ?K (accept_manifest P E o' pub old eu) (\<lambda>x st. accepted_release P o' w0 x \<and> Adv st) (\<lambda>_. Adv)"
    if "?key pub" "old_of P n0 = Some old" for pub old eu
    by (rule triple_conseq [OF accept_triple [OF that(2), of o' E pub eu]])
       (use that(1) in \<open>auto simp: inputs_kept_def n0_def Adv_def accepted_release_def signed_release_def\<close>)
  show ?thesis
    unfolding sync_manifest_def
    by (rule triple_bind [OF lock], rule triple_bind [OF clean], rule triple_bind [OF key], rule triple_pure,
        rule triple_bind [OF state], rule triple_pure, rule triple_bind [OF load], rule accept)
qed

interpretation stillness_file: file_order still
  by unfold_locales (simp_all add: still_def)

lemma steps_finish_vital: "steps (on_fst (only_at (\<lambda>q. \<not> vital (oStateDir o') q))) (sync_finish P E o' start r)"
  unfolding sync_finish_def flush_and_note_def
  by (intro fo.ag.steps_rules steps_onFst frame.steps_rules fo.still_rules fo.steps_modS fo.steps_getS fo.steps_vars
      steps_FlushReceipts_vital steps_queueReceipt_vital)

section \<open>Fetch and install\<close>

text \<open>Commands are only ever appended to what the daemon was asked.\<close>

definition log_grows :: "world \<Rightarrow> world \<Rightarrow> bool" where
  "log_grows w w' \<longleftrightarrow> prefix (docker_log w) (docker_log w')"

interpretation growR: file_order log_grows
  by unfold_locales (auto simp: log_grows_def still_def)

lemma log_grows_same: "steps same_log m \<Longrightarrow> steps log_grows m"
  by (auto simp: steps_def same_log_def log_grows_def)

lemma grow_docker: "steps log_grows (dockerRun E args)" "steps log_grows (dockerSave E t ref)"
  by (auto simp: steps_def dockerSave_def dockerRun_def log_grows_def bindM_def put_node_def throw_def split: prod.splits)

lemma grow_loadcheck: "steps log_grows (osMkdirTemp E s)" "steps log_grows (osRemoveAll d)"
  by (auto simp: steps_def osMkdirTemp_def osRemoveAll_def prim_def log_grows_def Let_def put_node_def split: option.splits)

lemma grow_savedConfigID: "steps log_grows (savedConfigID P E t)"
  unfolding savedConfigID_def by (intro growR.steps_rules growR.still_rules growR.steps_still [OF still_openRead])

lemma grow_check_refs: "steps log_grows (check_refs P E ids refs cov)"
  by (induction refs arbitrary: cov)
     (auto simp: check_ref_def intro!: growR.steps_rules growR.still_rules grow_docker grow_loadcheck grow_savedConfigID)

lemma grow_verifyLoaded: "steps log_grows (verifyLoadedConfigIdentity P E report ids)"
  unfolding verifyLoadedConfigIdentity_def Let_def by (intro growR.steps_rules grow_check_refs)

text \<open>The daemon has been asked nothing new, or first to load the complete archive of the release.\<close>

definition gate :: "env \<Rightarrow> agent_options \<Rightarrow> manifest \<Rightarrow> string list list \<Rightarrow> world \<Rightarrow> bool" where
  "gate E o' m L w \<longleftrightarrow> docker_log w = L \<or> (staged_ok E o' m w \<and> oDockerLoad o' \<and> mKind m = ''docker-archive'' \<and> mImageIDs m \<noteq> []
     \<and> prefix (L @ [loadArgs (stagedPath o' m)]) (docker_log w))"

lemma gate_step:
  assumes "gate E o' m L w" and "lookup w' (stagedPath o' m) = lookup w (stagedPath o' m)" and "docker_log w' = docker_log w"
  shows "gate E o' m L w'"
  using assms staged_ok_frame [OF _ assms(2)] by (auto simp: gate_def)

lemma writeState_keeps:
  assumes "writeState P E (oStateDir o') s w = (r, w')" and "hexDigest (mArtifactSHA256 m)"
  shows "lookup w' (stagedPath o' m) = lookup w (stagedPath o' m)" "docker_log w' = docker_log w"
proof -
  show "lookup w' (stagedPath o' m) = lookup w (stagedPath o' m)"
    using stepsD [OF steps_writeState assms(1)] vital_intros(3) [OF assms(2), of "oStateDir o'"]
    by (simp add: only_at_def stagedPath_eq)
  show "docker_log w' = docker_log w"
    using stepsD [OF logW.w_state assms(1)] by (simp add: same_log_def)
qed

lemma docker_load_triple:
  assumes h: "hexDigest (mArtifactSHA256 m)" and ok: "state_dir_ok o'"
  shows "triple (\<lambda>w. staged_ok E o' m w \<and> docker_log w = L) (docker_load P E o' m dg s)
     (\<lambda>s' w. staged_ok E o' m w \<and> gate E o' m L w) (\<lambda>_. gate E o' m L)"
proof -
  have "gate E o' m L w' \<and> staged_ok E o' m w'"
    if pre: "staged_ok E o' m w" "docker_log w = L" and run: "docker_load P E o' m dg s w = (r, w')" for w r w'
  proof -
    have "lookup w' (stagedPath o' m) = lookup w (stagedPath o' m)"
      using stepsD [OF steps_docker_load [OF ok] run] vital_intros(3) [OF h, of "oStateDir o'"]
      by (simp add: only_at_def stagedPath_eq)
    then have staged: "staged_ok E o' m w'" using staged_ok_frame pre(1) by blast
    have "docker_log w' = L \<or> (oDockerLoad o' \<and> mKind m = ''docker-archive'' \<and> mImageIDs m \<noteq> []
        \<and> prefix (L @ [loadArgs (stagedPath o' m)]) (docker_log w'))"
    proof (cases "oDockerLoad o' \<and> mKind m = ''docker-archive'' \<and> mImageIDs m \<noteq> [] \<and> asLoadedManifestSHA256 s \<noteq> dg")
      case False
      then have "w' = w" using run by (auto simp: docker_load_def guardM_def sm_run split: if_splits)
      then show ?thesis using pre(2) by simp
    next
      case True
      define s1 where "s1 = s\<lparr>asLoadedManifestSHA256 := [], asPhase := ''loading''\<rparr>"
      obtain y w1 where ws: "writeState P E (oStateDir o') s1 w = (y, w1)" by fastforce
      note log1 = writeState_keeps(2) [OF ws h]
      obtain x w2 where d: "dockerRun E (loadArgs (stagedPath o' m)) w1 = (Inr x, w2)" by (simp add: dockerRun_def)
      then have log2: "docker_log w2 = L @ [loadArgs (stagedPath o' m)]" using log1 pre(2) by (auto simp: dockerRun_def)
      show ?thesis
      proof (cases y)
        case (Inl e)
        then have "w' = w1" using run ws True by (auto simp: docker_load_def Let_def bindM_run s1_def)
        then show ?thesis using log1 pre(2) by simp
      next
        case (Inr u)
        obtain report good where x: "x = (report, good)" by (cases x)
        have "w' = w2 \<or> (\<exists>z. verifyLoadedConfigIdentity P E report (mImageIDs m) w2 = (z, w'))"
          using run ws True d x Inr
          by (auto simp: docker_load_def Let_def bindM_run s1_def guardM_def split: if_splits)
        then have "log_grows w2 w'" using stepsD [OF grow_verifyLoaded] growR.R_refl by blast
        then show ?thesis using True log2 by (simp add: log_grows_def)
      qed
    qed
    with staged show ?thesis by (simp add: gate_def)
  qed
  then show ?thesis by (intro tripleI) blast+
qed

text \<open>The state file records the outcome of the run.\<close>

definition recorded :: "'x agent_prims_scheme \<Rightarrow> agent_options \<Rightarrow> manifest \<Rightarrow> string \<Rightarrow> world \<Rightarrow> bool" where
  "recorded P o' m dg w \<longleftrightarrow> (\<exists>s. lookup w (statePath (oStateDir o')) = Some (FileN (jsonState P s) 384)
     \<and> asManifestSHA256 s = dg \<and> asSequence s = mSequence m
     \<and> asPhase s = (if oDockerLoad o' then ''loaded'' else ''staged'')
     \<and> (oDockerLoad o' \<longrightarrow> asLoadedManifestSHA256 s = dg))"

lemma recorded_frame:
  "recorded P o' m dg w \<Longrightarrow> lookup w' (statePath (oStateDir o')) = lookup w (statePath (oStateDir o')) \<Longrightarrow> recorded P o' m dg w'"
  by (simp add: recorded_def)

lemma sync_install_triple:
  assumes h: "hexDigest (mArtifactSHA256 m)" and pos: "0 < mArtifactSize m" and ok: "state_dir_ok o'"
    and s: "asManifestSHA256 s = dg" "asSequence s = mSequence m"
  shows "triple (\<lambda>w. (av \<longrightarrow> staged_ok E o' m w) \<and> docker_log w = L) (sync_install P E o' m dg s av)
     (\<lambda>_ w. staged_ok E o' m w \<and> gate E o' m L w \<and> recorded P o' m dg w) (\<lambda>_. gate E o' m L)"
proof -
  let ?s = "s\<lparr>asPhase := ''assembling''\<rparr>"
  have mark: "triple (\<lambda>w. (av \<longrightarrow> staged_ok E o' m w) \<and> docker_log w = L) (writeState P E (oStateDir o') ?s)
     (\<lambda>_ w. (av \<longrightarrow> staged_ok E o' m w) \<and> docker_log w = L) (\<lambda>_. gate E o' m L)"
    by (rule tripleI) (auto simp: gate_def writeState_keeps [OF _ h] dest: staged_ok_frame [OF _ writeState_keeps(1) [OF _ h]])
  have build: "triple (\<lambda>w. (av \<longrightarrow> staged_ok E o' m w) \<and> docker_log w = L)
     (if \<not> av then assemble E (oStateDir o') m (stagedPath o' m) else ret ())
     (\<lambda>_ w. staged_ok E o' m w \<and> docker_log w = L) (\<lambda>_. gate E o' m L)"
  proof (cases av)
    case False
    have v: "vital (oStateDir o') (stagedPath o' m)" using vital_intros(3) [OF h] by (simp add: stagedPath_eq)
    have "docker_log w' = docker_log w" if "assemble E (oStateDir o') m (stagedPath o' m) w = (r, w')" for w r w'
      using stepsD [OF logW.w_assemble [OF h] that] by (simp add: same_log_def)
    moreover have "staged_ok E o' m w'" if "assemble E (oStateDir o') m (stagedPath o' m) w = (Inr (), w')" for w w'
      using assemble_run [OF that vital_not_empty [OF v] vital_not_temp [OF v]] artifact_staged [OF _ pos] by auto
    ultimately show ?thesis using False by (auto intro!: tripleI simp: gate_def)
  qed (auto intro: triple_ret)
  have last: "triple (\<lambda>w. staged_ok E o' m w \<and> gate E o' m L w) (writeState P E (oStateDir o') s')
     (\<lambda>_ w. staged_ok E o' m w \<and> gate E o' m L w \<and> recorded P o' m dg w) (\<lambda>_. gate E o' m L)"
    if "s' = ?s\<lparr>asPhase := (if oDockerLoad o' then ''loaded'' else ''staged''),
      asLoadedManifestSHA256 := (if oDockerLoad o' then dg else asLoadedManifestSHA256 s)\<rparr>" for s'
  proof (rule tripleI)
    fix w x w' assume pre: "staged_ok E o' m w \<and> gate E o' m L w" and run: "writeState P E (oStateDir o') s' w = (Inr x, w')"
    obtain u where "lookup w' (statePath (oStateDir o')) = Some (FileN (jsonState P (s'\<lparr>asUpdated := u\<rparr>)) 384)"
      using writeState_run(2) [OF run] by auto
    then have "recorded P o' m dg w'" using s that by (auto simp: recorded_def intro!: exI [of _ "s'\<lparr>asUpdated := u\<rparr>"])
    with pre show "staged_ok E o' m w' \<and> gate E o' m L w' \<and> recorded P o' m dg w'"
      using gate_step [OF _ writeState_keeps [OF run h]] staged_ok_frame [OF _ writeState_keeps(1) [OF run h]] by blast
  qed (rule gate_step [OF conjunct2 writeState_keeps(1) [OF _ h] writeState_keeps(2) [OF _ h]])
  have load: "triple (\<lambda>w. staged_ok E o' m w \<and> docker_log w = L) (docker_load P E o' m dg ?s)
     (\<lambda>s' w. s' = ?s\<lparr>asPhase := (if oDockerLoad o' then ''loaded'' else ''staged''),
      asLoadedManifestSHA256 := (if oDockerLoad o' then dg else asLoadedManifestSHA256 s)\<rparr> \<and> staged_ok E o' m w \<and> gate E o' m L w)
     (\<lambda>_. gate E o' m L)"
  proof (rule tripleI)
    fix w s' w' assume pre: "staged_ok E o' m w \<and> docker_log w = L" and run: "docker_load P E o' m dg ?s w = (Inr s', w')"
    show "s' = ?s\<lparr>asPhase := (if oDockerLoad o' then ''loaded'' else ''staged''),
        asLoadedManifestSHA256 := (if oDockerLoad o' then dg else asLoadedManifestSHA256 s)\<rparr> \<and> staged_ok E o' m w' \<and> gate E o' m L w'"
      using triple_okD [OF docker_load_triple [OF h ok] pre run] docker_load_state [OF run] by simp
  qed (rule triple_errD [OF docker_load_triple [OF h ok]])
  show ?thesis
    unfolding sync_install_def
    by (rule triple_bind [OF mark], rule triple_bind [OF build], rule triple_bind [OF load], rule triple_pure,
        rule triple_bind [OF last], assumption, rule triple_ret)
qed

lemma fetch_missing_keeps:
  assumes "fetch_missing P E fuel o' missing st = (r, st')" and "\<And>c. c \<in> set missing \<Longrightarrow> hexDigest (cSHA256 c)"
    and "hexDigest (mArtifactSHA256 m)"
  shows "lookup (fst st') (stagedPath o' m) = lookup (fst st) (stagedPath o' m)"
proof -
  have "steps (on_fst (only_at (\<lambda>q. q \<noteq> stagedPath o' m))) (fetch_missing P E fuel o' missing)"
  proof (rule fo.steps_fetch_missing)
    fix c assume "c \<in> set missing"
    then have h: "hexDigest (cSHA256 c)" by (rule assms(2))
    show "steps (on_fst (only_at (\<lambda>q. q \<noteq> stagedPath o' m))) (fetch_attempt P E o' c)"
      unfolding fetch_attempt_def CachePath_eq
      by (intro fo.ag.steps_rules steps_onFst fo.steps_vars fo.steps_request frame.steps_rules
          only_at_mono [OF steps_write_vital [OF vital_intros(2) [OF h]]])
         (use vital_intros(3) [OF assms(3), of "oStateDir o'"] in \<open>auto simp: stagedPath_eq\<close>)
  qed
  from stepsD [OF this assms(1)] show ?thesis by (simp add: on_fst_def only_at_def)
qed

lemma sync_fetch_staged:
  assumes run: "sync_fetch P E fuel o' m s st = (Inr True, st')" and h: "hexDigest (mArtifactSHA256 m)" and pos: "0 < mArtifactSize m"
    and cs: "\<And>c. c \<in> set (mChunks m) \<Longrightarrow> hexDigest (cSHA256 c)"
  shows "staged_ok E o' m (fst st')"
proof -
  obtain y st1 where plan': "plan_chunks E o' (Unique m) [] 0 st = (Inr y, st1)"
    and rest: "(case y of (missing, n) \<Rightarrow>
     bindM (event o' ''plan'') (\<lambda>_.
     bindM (guardM (\<not> (oOffline o' \<and> length missing > 0)) (Msg ''offline: chunks missing or corrupt'')) (\<lambda>_.
     bindM (onFst (check_space E o' m n)) (\<lambda>archiveValid.
     bindM (onFst (writeState P E (oStateDir o') (s\<lparr>asPhase := ''fetching''\<rparr>))) (\<lambda>_.
     bindM (fetch_missing P E fuel o' missing) (\<lambda>_. ret archiveValid)))))) st1 = (Inr True, st')"
    using run unfolding sync_fetch_def by (rule bindM_okE)
  obtain missing n where y: "y = (missing, n)" by (cases y)
  note plan = plan' [unfolded y]
  obtain w2 w3 w4 v where space: "check_space E o' m n w2 = (Inr True, w3)"
    and state: "writeState P E (oStateDir o') (s\<lparr>asPhase := ''fetching''\<rparr>) w3 = (Inr (), w4)"
    and fetch: "fetch_missing P E fuel o' missing (w4, v) = (Inr (), st')"
    using rest unfolding y prod.case
    by (elim bindM_okE) (auto simp: onFst_def split: prod.splits)
  have sub: "c \<in> set missing \<Longrightarrow> hexDigest (cSHA256 c)" for c
    using plan_chunks_subset [OF plan] Unique_subset cs by fastforce
  have w3: "staged_ok E o' m w3"
    using check_space_staged [OF space pos] staged_ok_frame by metis
  then have "staged_ok E o' m w4" using writeState_keeps(1) [OF state h] staged_ok_frame by blast
  then show ?thesis
    by (rule staged_ok_frame) (use fetch_missing_keeps [OF fetch sub h] in simp)
qed

text \<open>What is known when the body of a run ends, whatever its result.\<close>

definition run_ok :: "'x agent_prims_scheme \<Rightarrow> env \<Rightarrow> agent_options \<Rightarrow> world \<Rightarrow> unit result \<Rightarrow> world \<Rightarrow> bool" where
  "run_ok P E o' w0 r w \<longleftrightarrow>
     advanced P (lookup w0 (statePath (oStateDir o'))) (lookup w (statePath (oStateDir o')))
   \<and> (docker_log w = docker_log w0 \<or> (\<exists>m dg. signed_release P o' w0 m dg \<and> gate E o' m (docker_log w0) w))
   \<and> (r = Inr () \<longrightarrow> (\<exists>m dg. signed_release P o' w0 m dg \<and> staged_ok E o' m w \<and> recorded P o' m dg w))"

lemma run_ok_quiet:
  assumes "inputs_kept o' w0 st \<or> advanced P (lookup w0 (statePath (oStateDir o'))) (lookup (fst st) (statePath (oStateDir o')))"
    and "docker_log (fst st) = docker_log w0"
  shows "run_ok P E o' w0 (Inl e) (fst st)"
  using assms inputs_kept_adv [of o' w0 st P] by (auto simp: run_ok_def)

lemma run_ok_err: "run_ok P E o' w0 r w \<Longrightarrow> run_ok P E o' w0 (Inl e) w"
  by (simp add: run_ok_def)

lemma sync_main_run:
  assumes k: "inputs_kept o' w0 st" and l: "docker_log (fst st) = docker_log w0" and ok: "state_dir_ok o'"
    and run: "sync_main P E fuel o' st = (r, st')"
  shows "run_ok P E o' w0 r (fst st')"
proof -
  let ?sp = "statePath (oStateDir o')"
  obtain r1 st1 where c: "sync_checks P E o' st = (r1, st1)" by (rule prod.exhaust)
  note k1 = inputs_kept_prepare(6) [OF k c]
  have l1: "docker_log (fst st1) = docker_log w0" using stepsD [OF logW.steps_checks c] l by (simp add: on_fst_def same_log_def)
  show ?thesis
  proof (cases r1)
    case (Inl e)
    then show ?thesis using run c run_ok_quiet [OF disjI1 [OF k1] l1] by (auto simp: sync_main_def bindM_def)
  next
    case (Inr u)
    obtain r2 st2 where mf: "sync_manifest P E fuel o' st1 = (r2, st2)" by (rule prod.exhaust)
    have l2: "docker_log (fst st2) = docker_log w0"
      using stepsD [OF logW.steps_sync_manifest mf] l1 by (simp add: on_fst_def same_log_def)
    show ?thesis
    proof (cases r2)
      case (Inl e)
      then have "run_ok P E o' w0 (Inl e) (fst st2)"
        using triple_errD [OF sync_manifest_triple k1] mf l2 run_ok_quiet by blast
      then show ?thesis using run c Inr mf Inl by (auto simp: sync_main_def bindM_def)
    next
      case r2: (Inr x)
      obtain m dg s where x: "x = (m, dg, s)" by (cases x)
      have acc: "signed_release P o' w0 m dg" "admits P (lookup w0 ?sp) s" "asManifestSHA256 s = dg" "asSequence s = mSequence m"
        and a2: "advanced P (lookup w0 ?sp) (lookup (fst st2) ?sp)"
        using triple_okD [OF sync_manifest_triple k1 mf [unfolded r2 x]] by (simp_all add: accepted_release_def)
      note d = signed_release_digests [OF acc(1)]
      obtain r3 st3 where f: "sync_fetch P E fuel o' m s st2 = (r3, st3)" by (rule prod.exhaust)
      have a3: "advanced P (lookup w0 ?sp) (lookup (fst st3) ?sp)"
        using stepsD [OF advD.steps_sync_fetch [OF d(4) acc(2)] f] a2 ok by (simp add: on_fst_def state_adv_def)
      have l3: "docker_log (fst st3) = docker_log w0"
        using stepsD [OF logW.steps_sync_fetch [OF d(4) TrueI] f] l2 by (simp add: on_fst_def same_log_def)
      show ?thesis
      proof (cases r3)
        case (Inl e)
        then have "st' = st3" "r = Inl e" using run c Inr mf r2 x f by (auto simp: sync_main_def bindM_def)
        then show ?thesis using run_ok_quiet a3 l3 by blast
      next
        case r3: (Inr av)
        have pre: "(av \<longrightarrow> staged_ok E o' m (fst st3)) \<and> docker_log (fst st3) = docker_log w0"
          using l3 sync_fetch_staged [of P E fuel o' m s st2 st3, OF _ d(2,3,4)] f r3 by auto
        obtain r4 w4 where i: "sync_install P E o' m dg s av (fst st3) = (r4, w4)" by fastforce
        have a4: "advanced P (lookup w0 ?sp) (lookup w4 ?sp)"
          using stepsD [OF advD.steps_install [OF d(2) acc(2)] i] a3 ok by (simp add: state_adv_def)
        note inst = sync_install_triple [OF d(2,3) ok acc(3,4)]
        have gate4: "gate E o' m (docker_log w0) w4"
          using triple_okD [OF inst pre] triple_errD [OF inst pre] i by (cases r4) blast+
        have fin: "r4 = Inr s' \<Longrightarrow> staged_ok E o' m w4 \<and> recorded P o' m dg w4" for s'
          using triple_okD [OF inst pre] i by blast
        have "fst st' = w4" "r = Inr () \<Longrightarrow> \<exists>s'. r4 = Inr s'"
          using run c Inr mf r2 x f r3 i
          by (cases r4; auto simp: sync_main_def bindM_def onFst_def summ_def event_def modS_def)+
        then show ?thesis using a4 gate4 fin acc(1) unfolding run_ok_def by blast
      qed
    qed
  qed
qed

lemma prologue_keeps:
  assumes "sync_prologue P E o' st = (r, st')"
  shows "lookup (fst st') = lookup (fst st)" "docker_log (fst st') = docker_log (fst st)"
  using stepsD [OF stillness_file.steps_prologue assms] by (simp_all add: on_fst_def still_def)

lemma Sync_run:
  assumes run: "Sync P E fuel o' st = (r, st')" and ok: "state_dir_ok o'"
  shows "run_ok P E o' (fst st) r (fst st')"
proof -
  define v0 where "v0 = (snd st)\<lparr>vSum := zero_summary\<rparr>"
  obtain r1 st1 where p: "sync_prologue P E o' (fst st, v0) = (r1, st1)" by (rule prod.exhaust)
  note k1 = prologue_keeps [OF p, unfolded fst_conv]
  show ?thesis
  proof (cases r1)
    case (Inl e)
    then have "st' = st1" "r = Inl e" using run p by (auto simp: Sync_def bindM_def modS_def v0_def)
    then show ?thesis using k1 by (simp add: run_ok_def advanced_def)
  next
    case (Inr u)
    obtain t w2 where tn: "timeNow E (fst st1) = (Inr t, w2)" by (auto simp: timeNow_def)
    have k2: "lookup w2 = lookup (fst st)" "docker_log w2 = docker_log (fst st)"
      using stepsD [OF still_prims(9) tn] k1 by (simp_all add: still_def)
    obtain v2 where body: "(\<lambda>st. case sync_main P E fuel o' st of (r, st') \<Rightarrow> (r, snd (sync_finish P E o' t r st'))) (w2, v2) = (r, st')"
      using run p Inr tn by (auto simp: Sync_def bindM_def modS_def onFst_def v0_def)
    obtain r3 st3 where mn: "sync_main P E fuel o' (w2, v2) = (r3, st3)" by (rule prod.exhaust)
    have r: "r3 = r" and st': "st' = snd (sync_finish P E o' t r st3)" using body mn by auto
    have "inputs_kept o' (fst st) (w2, v2)" using k2 by (simp add: inputs_kept_def)
    then have main: "run_ok P E o' (fst st) r (fst st3)"
      using sync_main_run [OF _ _ ok mn] k2 r by simp
    have fin: "sync_finish P E o' t r st3 = (fst (sync_finish P E o' t r st3), st')" using st' by simp
    have "only_at (\<lambda>q. \<not> vital (oStateDir o') q) (fst st3) (fst st')"
      using stepsD [OF steps_finish_vital fin] by (simp add: on_fst_def)
    then have same: "vital (oStateDir o') q \<Longrightarrow> lookup (fst st') q = lookup (fst st3) q" for q by (simp add: only_at_def)
    have log: "docker_log (fst st') = docker_log (fst st3)"
      using stepsD [OF logW.steps_finish fin] by (simp add: on_fst_def same_log_def)
    have staged: "lookup (fst st') (stagedPath o' m) = lookup (fst st3) (stagedPath o' m)"
      if "signed_release P o' (fst st) m dg" for m dg
      using same vital_intros(3) [OF signed_release_digests(2) [OF that], of "oStateDir o'"] by (simp add: stagedPath_eq)
    show ?thesis
      using main log same [OF vital_intros(1)]
        gate_step [OF _ staged log] staged_ok_frame [OF _ staged] recorded_frame
      unfolding run_ok_def by metis
  qed
qed

lemma Sync_outcome:
  assumes "state_dir_ok o'"
  shows "run_ok P E o' (fst st) (fst (Sync P E fuel o' st)) (fst (snd (Sync P E fuel o' st)))"
  using Sync_run [OF _ assms] prod.collapse by metis

section \<open>The guarantees of a run\<close>

text \<open>C16. Whatever a run of \<open>Sync\<close> meets and however it ends, every entry of the chunk cache is the
  node it was before or a file, readable by its owner only, whose content hashes to the name of the
  entry: neither the network nor a crash puts anything else there. (The state directory must not lie
  in the scratch directory of the load check.)\<close>

theorem Sync_cache_safe:
  assumes "state_dir_ok o'" and "hexDigest h"
  shows "lookup (fst (snd (Sync P E fuel o' st))) (cachePath (oStateDir o') h) = lookup (fst st) (cachePath (oStateDir o') h)
     \<or> (\<exists>b. lookup (fst (snd (Sync P E fuel o' st))) (cachePath (oStateDir o') h) = Some (FileN b 384) \<and> Hash b = h)"
  using cacheW.steps_run [of o' P E fuel, unfolded steps_def, THEN spec, of st] assms
  by (simp add: on_fst_def cache_kept_def)

text \<open>The accepted release as a preorder: where the state file decodes, it still decodes, with a sequence at least as high and
  the same digest when equal; otherwise it is as it was.\<close>

definition ahead :: "'x agent_prims_scheme \<Rightarrow> path \<Rightarrow> world \<Rightarrow> world \<Rightarrow> bool" where
  "ahead P dir w w' \<longleftrightarrow> (case old_of P (lookup w (statePath dir)) of
      None \<Rightarrow> lookup w' (statePath dir) = lookup w (statePath dir)
    | Some old \<Rightarrow> (\<exists>new. old_of P (lookup w' (statePath dir)) = Some new
        \<and> (asSequence old < asSequence new
           \<or> asSequence old = asSequence new \<and> (asManifestSHA256 old = [] \<or> asManifestSHA256 new = asManifestSHA256 old))))"

interpretation aheadR: effect_order "ahead P dir" for P dir
proof
  fix w show "ahead P dir w w" by (auto simp: ahead_def split: option.split)
next
  fix a b c assume ab: "ahead P dir a b" and bc: "ahead P dir b c"
  show "ahead P dir a c"
  proof (cases "old_of P (lookup a (statePath dir))")
    case None
    then show ?thesis using ab bc by (simp add: ahead_def)
  next
    case (Some old)
    obtain mid where mid: "old_of P (lookup b (statePath dir)) = Some mid" "asSequence old < asSequence mid
        \<or> asSequence old = asSequence mid \<and> (asManifestSHA256 old = [] \<or> asManifestSHA256 mid = asManifestSHA256 old)"
      using ab Some by (auto simp: ahead_def)
    obtain new where "old_of P (lookup c (statePath dir)) = Some new" "asSequence mid < asSequence new
        \<or> asSequence mid = asSequence new \<and> (asManifestSHA256 mid = [] \<or> asManifestSHA256 new = asManifestSHA256 mid)"
      using bc mid(1) by (auto simp: ahead_def)
    then show ?thesis using Some mid(2) by (auto simp: ahead_def)
  qed
qed

lemma Sync_ahead:
  assumes "state_dir_ok o'"
    and "\<And>s. hexDigest (asManifestSHA256 s) \<Longrightarrow>
       \<exists>s'. jsonStateDec P (jsonState P s) = Inr s' \<and> asSequence s' = asSequence s \<and> asManifestSHA256 s' = asManifestSHA256 s"
  shows "steps (on_fst (ahead P (oStateDir o'))) (Sync P E fuel o')"
  unfolding steps_def on_fst_def
proof
  fix st
  let ?sp = "statePath (oStateDir o')"
  have "advanced P (lookup (fst st) ?sp) (lookup (fst (snd (Sync P E fuel o' st))) ?sp)"
    using Sync_outcome [OF assms(1), of P E st fuel] by (simp add: run_ok_def)
  then show "ahead P (oStateDir o') (fst st) (fst (snd (Sync P E fuel o' st)))"
    using assms(2) by (fastforce simp: ahead_def advanced_def admits_def old_of_def split: option.splits)
qed

text \<open>C1. A run never moves the accepted release back. Where the state file decodes before the run it
  decodes after it, with a sequence at least as high, and with the same manifest digest when the
  sequence is the same; a state file that does not decode is left as it is. The hypothesis on the
  JSON coder is that a written state reads back with its sequence and digest.\<close>

theorem Sync_never_rolls_back:
  assumes "state_dir_ok o'"
    and "\<And>s. hexDigest (asManifestSHA256 s) \<Longrightarrow>
       \<exists>s'. jsonStateDec P (jsonState P s) = Inr s' \<and> asSequence s' = asSequence s \<and> asManifestSHA256 s' = asManifestSHA256 s"
  shows "case old_of P (lookup (fst st) (statePath (oStateDir o'))) of
      None \<Rightarrow> lookup (fst (snd (Sync P E fuel o' st))) (statePath (oStateDir o')) = lookup (fst st) (statePath (oStateDir o'))
    | Some old \<Rightarrow> (\<exists>new. old_of P (lookup (fst (snd (Sync P E fuel o' st))) (statePath (oStateDir o'))) = Some new
        \<and> (asSequence old < asSequence new
           \<or> asSequence old = asSequence new \<and> (asManifestSHA256 old = [] \<or> asManifestSHA256 new = asManifestSHA256 old)))"
  using Sync_ahead [OF assms, of E fuel, unfolded steps_def on_fst_def ahead_def, THEN spec, of st] .



text \<open>A state directory, a machine and a JSON coder these theorems apply to.\<close>

definition sync_prims :: agent_prims where
  "sync_prims = demo_agent_prims\<lparr>
     jsonState := \<lambda>s. bytes_of (asManifestSHA256 s) @ replicate (unat (asSequence s)) 0,
     jsonStateDec := \<lambda>b. Inr (zero_state\<lparr>asManifestSHA256 := string_of (take 64 b), asSequence := of_nat (length b - 64)\<rparr>)\<rparr>"

definition sync_start :: "world \<times> vars" where
  "sync_start = (put_node [''s'', ''state.json''] (FileN (bytes_of (replicate 64 CHR ''a'') @ [0, 0, 0]) 384) empty_world,
     \<lparr>vEnvelope = [], vProg = zero_progress, vTel = None, vSum = zero_summary, vEvents = []\<rparr>)"

lemma demo_state_dir: "state_dir_ok demo_options" "oStateDir demo_options = [''s'']"
  by (simp_all add: state_dir_ok_def in_loadcheck_def demo_options_def)

lemma sync_prims_json:
  assumes "hexDigest (asManifestSHA256 s)"
  shows "\<exists>s'. jsonStateDec sync_prims (jsonState sync_prims s) = Inr s' \<and> asSequence s' = asSequence s
     \<and> asManifestSHA256 s' = asManifestSHA256 s"
  using assms by (simp add: sync_prims_def hexDigest_def)

theorem Sync_cache_safe_witness:
  "lookup (fst (snd (Sync sync_prims (env_fail_at 3) 50 demo_options sync_start))) (cachePath [''s''] (replicate 64 CHR ''0'')) = None
   \<or> (\<exists>b. lookup (fst (snd (Sync sync_prims (env_fail_at 3) 50 demo_options sync_start))) (cachePath [''s''] (replicate 64 CHR ''0''))
        = Some (FileN b 384) \<and> Hash b = replicate 64 CHR ''0'')"
proof -
  have "hexDigest (replicate 64 CHR ''0'')" by (simp add: hexDigest_def list_all_iff is_hex_def)
  moreover have "lookup (fst sync_start) (cachePath [''s''] (replicate 64 CHR ''0'')) = None"
    by (simp add: sync_start_def cachePath_def empty_world_def lookup_def put_node_def)
  ultimately show ?thesis
    using Sync_cache_safe [OF demo_state_dir(1), of "replicate 64 CHR ''0''" sync_prims "env_fail_at 3" 50 sync_start]
    by (simp only: demo_state_dir(2))
qed

theorem Sync_never_rolls_back_witness:
  "\<exists>new. old_of sync_prims (lookup (fst (snd (Sync sync_prims (env_fail_at 3) 50 demo_options sync_start))) [''s'', ''state.json'']) = Some new
     \<and> 3 \<le> asSequence new"
proof -
  have "old_of sync_prims (lookup (fst sync_start) [''s'', ''state.json''])
      = Some (zero_state\<lparr>asManifestSHA256 := replicate 64 CHR ''a'', asSequence := 3\<rparr>)"
    by (simp add: sync_start_def old_of_def sync_prims_def lookup_def put_node_def empty_world_def string_of_def bytes_of_def)
  with Sync_never_rolls_back [OF demo_state_dir(1) sync_prims_json, where st = sync_start and E = "env_fail_at 3" and fuel = 50] show ?thesis
    by (auto simp: statePath_def demo_state_dir(2))
qed



end
