(* ===== verification/Notify.thy ===== *)
theory Notify
  imports Broker AgentBase
begin

text \<open>
  Notifications, \<open>src/internal/notify/notify.go\<close>: the text of an event, the senders with their retry loop, and the
  dispatcher that fans events out to bounded queues without making its caller wait.
\<close>

section \<open>Events\<close>

record notice =
  ntKind :: string
  ntRepo :: string
  ntTag :: string
  ntDigest :: string
  ntRelease :: string
  ntDetail :: string

definition KindReleasePublished :: string where "KindReleasePublished = ''release-published''"
definition KindDeliveryStaged :: string where "KindDeliveryStaged = ''delivery-staged''"
definition KindDeliveryLoaded :: string where "KindDeliveryLoaded = ''delivery-loaded''"
definition KindDeliveryFailed :: string where "KindDeliveryFailed = ''delivery-failed''"

definition noteText :: "notice \<Rightarrow> string" where
  "noteText e =
     (let parts = (if ntRelease e \<noteq> [] then [''release='' @ ntRelease e] else []) @ (if ntRepo e \<noteq> [] then [''repo='' @ ntRepo e] else [])
          @ (if ntTag e \<noteq> [] then [''tag='' @ ntTag e] else []) @ (if ntDigest e \<noteq> [] then [''digest='' @ ntDigest e] else [])
          @ (if ntDetail e \<noteq> [] then [ntDetail e] else [])
      in ''edgelab '' @ ntKind e @ (if parts \<noteq> [] then '': '' @ joinWith '' '' parts else []))"

section \<open>Senders\<close>

text \<open>A notifier with its credentials; \<open>jsonFields\<close> is \<open>json.Marshal\<close> of a map of strings.\<close>

datatype notifier = Telegram string string string | Slack string

fun notifierName :: "notifier \<Rightarrow> string" where
  "notifierName (Telegram base token chat) = ''telegram''"
| "notifierName (Slack webhook) = ''slack''"

definition NewTelegram :: "string \<Rightarrow> string \<Rightarrow> notifier" where
  "NewTelegram token chat = Telegram ''https://api.telegram.org'' token chat"

record notify_prims = hub_prims +
  jsonFields :: "(string \<times> string) list \<Rightarrow> bytes"

definition noteRequest :: "'x notify_prims_scheme \<Rightarrow> string \<Rightarrow> bytes \<Rightarrow> http_request result" where
  "noteRequest P u body = (case urlParse P u of
       Inl e \<Rightarrow> Inl e
     | Inr _ \<Rightarrow> Inr \<lparr>rqMethod = ''POST'', rqURL = u, rqHeaders = [(''Content-Type'', ''application/json'')], rqBody = body\<rparr>)"

fun buildRequest :: "'x notify_prims_scheme \<Rightarrow> notifier \<Rightarrow> notice \<Rightarrow> http_request result" where
  "buildRequest P (Telegram base token chat) e =
     noteRequest P (base @ ''/bot'' @ token @ ''/sendMessage'') (jsonFields P [(''chat_id'', chat), (''text'', noteText e)])"
| "buildRequest P (Slack webhook) e = noteRequest P webhook (jsonFields P [(''text'', noteText e)])"

text \<open>\<open>rand.Int63n\<close> panics unless its bound is positive; a panic ends the process, and the model ends with this
  error. Go's division truncates toward zero.\<close>

definition PanicInt63n :: error where
  "PanicInt63n = Msg ''panic: invalid argument to Int63n''"

definition half :: "int \<Rightarrow> int" where
  "half b = (if b < 0 then - ((- b) div 2) else b div 2)"

definition randBelow :: "env \<Rightarrow> int \<Rightarrow> int io" where
  "randBelow E n w = (if n \<le> 0 then (Inl PanicInt63n, w) else (Inr (jitter E (tick w) n mod n), w\<lparr>tick := Suc (tick w)\<rparr>))"

definition pauseBefore :: "env \<Rightarrow> int \<Rightarrow> unit io" where
  "pauseBefore E backoff = bindM (randBelow E (wrap64 (half backoff + 1))) (\<lambda>j. sleepFor E (wrap64 (backoff + j)))"

definition afterTooMany :: "http_response \<Rightarrow> int \<Rightarrow> int" where
  "afterTooMany rs backoff = (let ra = header rs ''Retry-After'' in
     if ra = [] then backoff
     else case atoi ra of None \<Rightarrow> backoff | Some secs \<Rightarrow> if secs \<ge> 0 then wrap64 (secs * 1000000000) else backoff)"

text \<open>The retry loop; the first argument after the name is the number of attempts left, \<open>again\<close> says that one was
  made before. \<open>httpDo\<close> stands for the answer the client has after the redirects it follows.\<close>

fun attempt_loop :: "env \<Rightarrow> string \<Rightarrow> http_request result \<Rightarrow> nat \<Rightarrow> bool \<Rightarrow> int \<Rightarrow> error option \<Rightarrow> unit io" where
  "attempt_loop E name build 0 again backoff lastErr = (case lastErr of None \<Rightarrow> ret () | Some e \<Rightarrow> throw e)"
| "attempt_loop E name build (Suc n) again backoff lastErr =
     bindM (if again then pauseBefore E backoff else ret ()) (\<lambda>_.
     (let backoff1 = (if again then wrap64 (backoff * 2) else backoff) in
      bindM (liftR (case build of Inl e \<Rightarrow> Inl (Wrap name e) | Inr rq \<Rightarrow> Inr rq)) (\<lambda>rq.
      bindM (attemptM (httpDo E rq)) (\<lambda>x. case x of
        Inl e \<Rightarrow> attempt_loop E name build n True backoff1 (Some (Wrap name e))
      | Inr rs \<Rightarrow>
          if 200 \<le> rsStatus rs \<and> rsStatus rs < 300 then ret ()
          else if rsStatus rs = 429
          then attempt_loop E name build n True (afterTooMany rs backoff1) (Some (Wrap name (HTTPStatus 429)))
          else if rsStatus rs \<ge> 500
          then attempt_loop E name build n True backoff1 (Some (Wrap name (HTTPStatus (rsStatus rs))))
          else throw (Wrap name (HTTPStatus (rsStatus rs)))))))"

definition attemptSend :: "env \<Rightarrow> int \<Rightarrow> string \<Rightarrow> http_request result \<Rightarrow> unit io" where
  "attemptSend E maxAttempts name build = attempt_loop E name build (nat (if maxAttempts \<le> 0 then 4 else maxAttempts)) False 500000000 None"

text \<open>\<open>Notify\<close> of the two senders; Slack's webhook must parse.\<close>

fun notifySend :: "'x notify_prims_scheme \<Rightarrow> env \<Rightarrow> notifier \<Rightarrow> notice \<Rightarrow> unit io" where
  "notifySend P E (Telegram base token chat) e = attemptSend E 0 ''telegram'' (buildRequest P (Telegram base token chat) e)"
| "notifySend P E (Slack webhook) e = (case urlParse P webhook of
       Inl err \<Rightarrow> throw (Wrap ''slack webhook'' err)
     | Inr _ \<Rightarrow> attemptSend E 0 ''slack'' (buildRequest P (Slack webhook) e))"

section \<open>Dispatcher\<close>

text \<open>
  A notifier's queue and its consumer: the event it is delivering, if any. \<open>nqOffered\<close>, \<open>nqDone\<close> and \<open>nqLost\<close>
  record what was dispatched, what was delivered or failed, and how many were dropped; no operation reads them.
\<close>

record nqueue =
  nqName :: string
  nqCh :: "notice list"
  nqBusy :: "notice option"
  nqOffered :: "notice list"
  nqDone :: "(notice \<times> bool) list"
  nqLost :: nat

record dispatcher =
  dpDepth :: nat
  dpQueues :: "nqueue list"
  dpDropped :: "string \<rightharpoonup> u64"
  dpSent :: "string \<rightharpoonup> u64"
  dpFailed :: "string \<rightharpoonup> u64"
  dpClosed :: bool

definition bump :: "string \<Rightarrow> (string \<rightharpoonup> u64) \<Rightarrow> (string \<rightharpoonup> u64)" where
  "bump k m = m(k \<mapsto> (case m k of None \<Rightarrow> 1 | Some c \<Rightarrow> c + 1))"

definition loadCounter :: "(string \<rightharpoonup> u64) \<Rightarrow> string \<Rightarrow> u64" where
  "loadCounter m k = (case m k of None \<Rightarrow> 0 | Some c \<Rightarrow> c)"

definition NewDispatcher :: "int \<Rightarrow> string list \<Rightarrow> dispatcher" where
  "NewDispatcher queueDepth names = \<lparr>dpDepth = nat (if queueDepth \<le> 0 then 64 else queueDepth),
     dpQueues = map (\<lambda>n. \<lparr>nqName = n, nqCh = [], nqBusy = None, nqOffered = [], nqDone = [], nqLost = 0\<rparr>) names,
     dpDropped = Map.empty, dpSent = Map.empty, dpFailed = Map.empty, dpClosed = False\<rparr>"

text \<open>One queue of a dispatch, then all of them; the second component says that no queue was full.\<close>

definition offerNote :: "nat \<Rightarrow> notice \<Rightarrow> nqueue \<Rightarrow> nqueue \<times> bool" where
  "offerNote cap e q = (case trySend cap e (nqCh q) of (ch, ok) \<Rightarrow>
     (q\<lparr>nqCh := ch, nqOffered := nqOffered q @ [e], nqLost := nqLost q + (if ok then 0 else 1)\<rparr>, ok))"

definition Dispatch :: "notice \<Rightarrow> dispatcher \<Rightarrow> dispatcher \<times> bool" where
  "Dispatch e d = (if dpClosed d \<or> dpQueues d = [] then (d, True)
     else (let rs = map (offerNote (dpDepth d) e) (dpQueues d) in
       (d\<lparr>dpQueues := map fst rs,
          dpDropped := fold bump (map nqName (filter (\<lambda>q. \<not> snd (offerNote (dpDepth d) e q)) (dpQueues d))) (dpDropped d)\<rparr>,
        list_all snd rs)))"

text \<open>The consumer takes an event, and later has its result.\<close>

definition takeNote :: "nat \<Rightarrow> dispatcher \<Rightarrow> dispatcher option" where
  "takeNote i d = (if i < length (dpQueues d) \<and> nqBusy (dpQueues d ! i) = None then
     (case recv (nqCh (dpQueues d ! i)) of
        None \<Rightarrow> None
      | Some (e, ch) \<Rightarrow> Some (d\<lparr>dpQueues := (dpQueues d)[i := (dpQueues d ! i)\<lparr>nqCh := ch, nqBusy := Some e\<rparr>]\<rparr>)) else None)"

definition finishNote :: "nat \<Rightarrow> bool \<Rightarrow> dispatcher \<Rightarrow> dispatcher option" where
  "finishNote i ok d = (if i < length (dpQueues d) then (case nqBusy (dpQueues d ! i) of
       None \<Rightarrow> None
     | Some e \<Rightarrow>
         (let q = dpQueues d ! i; d' = d\<lparr>dpQueues := (dpQueues d)[i := q\<lparr>nqBusy := None, nqDone := nqDone q @ [(e, ok)]\<rparr>]\<rparr> in
          Some (if ok then d'\<lparr>dpSent := bump (nqName q) (dpSent d')\<rparr> else d'\<lparr>dpFailed := bump (nqName q) (dpFailed d')\<rparr>))) else None)"

definition closeDispatcher :: "dispatcher \<Rightarrow> dispatcher" where
  "closeDispatcher d = d\<lparr>dpClosed := True\<rparr>"

definition dispatchStats :: "dispatcher \<Rightarrow> string \<Rightarrow> (u64 \<times> u64 \<times> u64) option" where
  "dispatchStats d name = (if name \<in> set (map nqName (dpQueues d))
     then Some (loadCounter (dpSent d) name, loadCounter (dpFailed d) name, loadCounter (dpDropped d) name) else None)"

datatype note_event = NDispatch notice | NTake nat | NFinish nat bool | NClose

definition note_step :: "note_event \<Rightarrow> dispatcher \<Rightarrow> dispatcher option" where
  "note_step ev d = (case ev of
       NDispatch e \<Rightarrow> Some (fst (Dispatch e d))
     | NTake i \<Rightarrow> takeNote i d
     | NFinish i ok \<Rightarrow> finishNote i ok d
     | NClose \<Rightarrow> Some (closeDispatcher d))"

section \<open>Configuration\<close>

record notifier_config =
  ncType :: string
  ncTokenEnv :: string
  ncChatID :: string
  ncWebhookEnv :: string

definition unsetNote :: "nat \<Rightarrow> string \<Rightarrow> string \<Rightarrow> string" where
  "unsetNote i var kind = ''notifiers['' @ decimal i @ '']: '' @ var @ '' unset, '' @ kind @ '' disabled''"

fun buildFrom :: "(string \<Rightarrow> string option) \<Rightarrow> nat \<Rightarrow> notifier_config list \<Rightarrow> notifier list \<times> string list" where
  "buildFrom env i [] = ([], [])"
| "buildFrom env i (c # cs) = (case buildFrom env (Suc i) cs of (out, notes) \<Rightarrow>
     (if lower (ncType c) = ''telegram'' then
        (case env (ncTokenEnv c) of
           Some (t # ts) \<Rightarrow> (NewTelegram (t # ts) (ncChatID c) # out, notes)
         | _ \<Rightarrow> (out, unsetNote i (ncTokenEnv c) ''telegram'' # notes))
      else if lower (ncType c) = ''slack'' then
        (case env (ncWebhookEnv c) of
           Some (t # ts) \<Rightarrow> (Slack (t # ts) # out, notes)
         | _ \<Rightarrow> (out, unsetNote i (ncWebhookEnv c) ''slack'' # notes))
      else (out, (''notifiers['' @ decimal i @ '']: unknown type skipped'') # notes)))"

definition BuildNotifiers :: "(string \<Rightarrow> string option) \<Rightarrow> notifier_config list \<Rightarrow> notifier list \<times> string list" where
  "BuildNotifiers env cfgs = buildFrom env 0 cfgs"

section \<open>The books of the dispatcher\<close>

lemma loadCounter_bump [simp]: "loadCounter (bump k m) n = loadCounter m n + (if n = k then 1 else 0)"
  by (auto simp: loadCounter_def bump_def split: option.splits)

lemma loadCounter_fold: "loadCounter (fold bump ks m) n = loadCounter m n + of_nat (count_list ks n)"
  by (induction ks arbitrary: m) auto

definition pending :: "nqueue \<Rightarrow> notice list" where
  "pending q = (case nqBusy q of None \<Rightarrow> [] | Some e \<Rightarrow> [e]) @ nqCh q"

definition queue_ok :: "nat \<Rightarrow> nqueue \<Rightarrow> bool" where
  "queue_ok cap q \<longleftrightarrow> length (nqCh q) \<le> cap \<and> subseq (map fst (nqDone q) @ pending q) (nqOffered q)
     \<and> length (nqOffered q) = length (nqDone q) + length (pending q) + nqLost q"

text \<open>What the queues of one name add up to.\<close>

definition totalOf :: "(nqueue \<Rightarrow> nat) \<Rightarrow> string \<Rightarrow> nqueue list \<Rightarrow> nat" where
  "totalOf f name qs = (\<Sum>q\<leftarrow>qs. if nqName q = name then f q else 0)"

definition delivered_of :: "bool \<Rightarrow> nqueue \<Rightarrow> nat" where
  "delivered_of ok q = length (filter (\<lambda>(e, b). b = ok) (nqDone q))"

definition dispatcher_ok :: "dispatcher \<Rightarrow> bool" where
  "dispatcher_ok d \<longleftrightarrow> list_all (queue_ok (dpDepth d)) (dpQueues d) \<and> (\<forall>name.
     loadCounter (dpDropped d) name = of_nat (totalOf nqLost name (dpQueues d)) \<and>
     loadCounter (dpSent d) name = of_nat (totalOf (delivered_of True) name (dpQueues d)) \<and>
     loadCounter (dpFailed d) name = of_nat (totalOf (delivered_of False) name (dpQueues d)))"

lemma offerNote_sel [simp]:
  "nqName (fst (offerNote cap e q)) = nqName q" "nqDone (fst (offerNote cap e q)) = nqDone q" "nqBusy (fst (offerNote cap e q)) = nqBusy q"
  "nqLost (fst (offerNote cap e q)) = nqLost q + (if snd (offerNote cap e q) then 0 else 1)"
  by (simp_all add: offerNote_def split: prod.splits)

lemma offerNote_ok:
  assumes "queue_ok cap q"
  shows "queue_ok cap (fst (offerNote cap e q))"
proof -
  obtain ch ok where s: "trySend cap e (nqCh q) = (ch, ok)" by (rule prod.exhaust)
  have "length ch \<le> cap" using assms chan.send_bound [OF _ s] by (simp add: queue_ok_def)
  moreover have "subseq ((map fst (nqDone q) @ (case nqBusy q of None \<Rightarrow> [] | Some e \<Rightarrow> [e])) @ ch) (nqOffered q @ [e])"
    using assms by (intro chan.send_subseq [OF _ s]) (simp add: queue_ok_def pending_def)
  ultimately show ?thesis
    using assms chan.send_count [OF s] by (auto simp: queue_ok_def pending_def offerNote_def s)
qed

lemma total_update:
  assumes "i < length qs" "nqName q = nqName (qs ! i)"
  shows "totalOf f name (qs[i := q]) + (if nqName q = name then f (qs ! i) else 0) = totalOf f name qs + (if nqName q = name then f q else 0)"
  using assms
proof (induction qs arbitrary: i)
  case (Cons p qs)
  show ?case
  proof (cases i)
    case (Suc j)
    then have "totalOf f name (qs[j := q]) + (if nqName q = name then f (qs ! j) else 0) = totalOf f name qs + (if nqName q = name then f q else 0)"
      using Cons.prems by (intro Cons.IH) simp_all
    then show ?thesis using Suc by (simp add: totalOf_def split: if_splits)
  qed (use Cons.prems in \<open>simp add: totalOf_def\<close>)
qed simp

lemma total_offer:
  "totalOf nqLost name (map (\<lambda>q. fst (offerNote cap e q)) qs)
    = totalOf nqLost name qs + count_list (map nqName (filter (\<lambda>q. \<not> snd (offerNote cap e q)) qs)) name"
  "totalOf (delivered_of ok) name (map (\<lambda>q. fst (offerNote cap e q)) qs) = totalOf (delivered_of ok) name qs"
  by (induction qs) (simp_all add: totalOf_def delivered_of_def)

lemma dispatcher_ok_queue: "dispatcher_ok d \<Longrightarrow> i < length (dpQueues d) \<Longrightarrow> queue_ok (dpDepth d) (dpQueues d ! i)"
  by (simp add: dispatcher_ok_def list_all_length)

lemma queue_ok_update:
  assumes "list_all (queue_ok cap) qs" "queue_ok cap q"
  shows "list_all (queue_ok cap) (qs[i := q])"
  using assms by (auto simp: list_all_iff dest!: set_update_subset_insert [THEN subsetD])

lemma dispatcher_ok_Dispatch: "dispatcher_ok d \<Longrightarrow> dispatcher_ok (fst (Dispatch e d))"
  by (auto simp: dispatcher_ok_def Dispatch_def Let_def list_all_iff offerNote_ok loadCounter_fold total_offer comp_def)

lemma dispatcher_ok_take:
  assumes "dispatcher_ok d" "takeNote i d = Some d'"
  shows "dispatcher_ok d'"
proof -
  from assms(2) obtain e ch where i: "i < length (dpQueues d)" and busy: "nqBusy (dpQueues d ! i) = None"
    and r: "recv (nqCh (dpQueues d ! i)) = Some (e, ch)"
    and d': "d' = d\<lparr>dpQueues := (dpQueues d)[i := (dpQueues d ! i)\<lparr>nqCh := ch, nqBusy := Some e\<rparr>]\<rparr>"
    by (auto simp: takeNote_def split: if_splits option.splits)
  have "queue_ok (dpDepth d) ((dpQueues d ! i)\<lparr>nqCh := ch, nqBusy := Some e\<rparr>)"
    using dispatcher_ok_queue [OF assms(1) i] busy chan.receive_some [OF r] by (simp add: queue_ok_def pending_def)
  moreover have "totalOf f name (dpQueues d') = totalOf f name (dpQueues d)"
    if "\<And>q ch e. f (q\<lparr>nqCh := ch, nqBusy := Some e\<rparr>) = f q" for f name
    using total_update [OF i, of "(dpQueues d ! i)\<lparr>nqCh := ch, nqBusy := Some e\<rparr>" f name] that by (simp add: d' split: if_splits)
  ultimately show ?thesis
    using assms(1) by (simp add: dispatcher_ok_def d' queue_ok_update delivered_of_def)
qed

lemma dispatcher_ok_finish:
  assumes "dispatcher_ok d" "finishNote i ok d = Some d'"
  shows "dispatcher_ok d'"
proof -
  let ?q = "dpQueues d ! i"
  from assms(2) obtain e where i: "i < length (dpQueues d)" and busy: "nqBusy ?q = Some e"
    and d': "d' = (let d1 = d\<lparr>dpQueues := (dpQueues d)[i := ?q\<lparr>nqBusy := None, nqDone := nqDone ?q @ [(e, ok)]\<rparr>]\<rparr> in
      if ok then d1\<lparr>dpSent := bump (nqName ?q) (dpSent d1)\<rparr> else d1\<lparr>dpFailed := bump (nqName ?q) (dpFailed d1)\<rparr>)"
    by (auto simp: finishNote_def Let_def split: if_splits option.splits)
  let ?q' = "?q\<lparr>nqBusy := None, nqDone := nqDone ?q @ [(e, ok)]\<rparr>"
  have "queue_ok (dpDepth d) ?q'"
    using dispatcher_ok_queue [OF assms(1) i] busy by (simp add: queue_ok_def pending_def)
  moreover have "totalOf f name ((dpQueues d)[i := ?q']) + (if nqName ?q = name then f ?q else 0)
      = totalOf f name (dpQueues d) + (if nqName ?q = name then f ?q' else 0)" for f name
    using total_update [OF i, of ?q' f name] by simp
  note t = this [of "delivered_of True"] this [of "delivered_of False"] this [of nqLost]
  have cnt: "delivered_of b ?q' = delivered_of b ?q + (if b = ok then 1 else 0)" for b by (simp add: delivered_of_def)
  have sums: "totalOf nqLost name ((dpQueues d)[i := ?q']) = totalOf nqLost name (dpQueues d)"
    "totalOf (delivered_of b) name ((dpQueues d)[i := ?q']) = totalOf (delivered_of b) name (dpQueues d) + (if nqName ?q = name \<and> b = ok then 1 else 0)"
    for name b
    using t(1) [of name] t(2) [of name] t(3) [of name] by (cases b; auto simp: cnt split: if_splits)+
  have books: "dispatcher_ok d \<Longrightarrow> loadCounter (dpDropped d) name = of_nat (totalOf nqLost name (dpQueues d))
      \<and> loadCounter (dpSent d) name = of_nat (totalOf (delivered_of True) name (dpQueues d))
      \<and> loadCounter (dpFailed d) name = of_nat (totalOf (delivered_of False) name (dpQueues d))" for name
    by (simp add: dispatcher_ok_def)
  have "list_all (queue_ok (dpDepth d)) (dpQueues d)" using assms(1) by (simp add: dispatcher_ok_def)
  then have "list_all (queue_ok (dpDepth d')) (dpQueues d')" using queue_ok_update [OF _ calculation] by (cases ok) (simp_all add: d' Let_def)
  moreover have "loadCounter (dpDropped d') name = of_nat (totalOf nqLost name (dpQueues d'))
      \<and> loadCounter (dpSent d') name = of_nat (totalOf (delivered_of True) name (dpQueues d'))
      \<and> loadCounter (dpFailed d') name = of_nat (totalOf (delivered_of False) name (dpQueues d'))" for name
    using books [OF assms(1)] sums(1) [of name] sums(2) [of True name] sums(2) [of False name] by (cases ok) (auto simp: d' Let_def)
  ultimately show ?thesis by (simp add: dispatcher_ok_def)
qed

lemma dispatcher_ok_step:
  assumes "dispatcher_ok d" "note_step ev d = Some d'"
  shows "dispatcher_ok d'"
proof (cases ev)
  case (NDispatch e)
  then show ?thesis using assms dispatcher_ok_Dispatch [OF assms(1), of e] by (simp add: note_step_def)
next
  case (NTake i)
  then show ?thesis using assms dispatcher_ok_take by (simp add: note_step_def)
next
  case (NFinish i ok)
  then show ?thesis using assms dispatcher_ok_finish by (simp add: note_step_def)
next
  case NClose
  then show ?thesis using assms by (auto simp: note_step_def closeDispatcher_def dispatcher_ok_def)
qed

interpretation noteI: invariant note_step dispatcher_ok
  by unfold_locales (rule dispatcher_ok_step)

lemma totalOf_zero: "list_all (\<lambda>q. f q = 0) qs \<Longrightarrow> totalOf f name qs = 0"
  by (induction qs) (simp_all add: totalOf_def)

lemma NewDispatcher_ok: "dispatcher_ok (NewDispatcher depth names)"
proof -
  have "list_all (\<lambda>q. nqLost q = 0 \<and> delivered_of b q = 0) (dpQueues (NewDispatcher depth names))" for b
    by (simp add: NewDispatcher_def list_all_iff delivered_of_def)
  then have "totalOf nqLost name (dpQueues (NewDispatcher depth names)) = 0" "totalOf (delivered_of b) name (dpQueues (NewDispatcher depth names)) = 0" for name b
    by (auto intro!: totalOf_zero simp: list_all_iff)
  moreover have "list_all (queue_ok n) (dpQueues (NewDispatcher depth names))" for n
    by (simp add: NewDispatcher_def list_all_iff queue_ok_def pending_def)
  moreover have "loadCounter Map.empty name = 0" for name by (simp add: loadCounter_def)
  ultimately show ?thesis by (simp add: dispatcher_ok_def) (simp add: NewDispatcher_def)
qed

section \<open>Draining\<close>

definition backlog :: "dispatcher \<Rightarrow> nat" where
  "backlog d = (\<Sum>q\<leftarrow>dpQueues d. 2 * length (nqCh q) + (if nqBusy q = None then 0 else 1))"

text \<open>The moves of the consumers.\<close>

definition consume_step :: "note_event \<Rightarrow> dispatcher \<Rightarrow> dispatcher option" where
  "consume_step ev d = (case ev of NTake i \<Rightarrow> takeNote i d | NFinish i ok \<Rightarrow> finishNote i ok d | _ \<Rightarrow> None)"

lemma sum_list_update_nat:
  fixes f :: "'a \<Rightarrow> nat"
  assumes "i < length xs"
  shows "(\<Sum>x\<leftarrow>xs[i := y]. f x) + f (xs ! i) = (\<Sum>x\<leftarrow>xs. f x) + f y"
  using assms by (induction xs arbitrary: i) (auto split: nat.split)

lemma backlog_less:
  assumes "consume_step ev d = Some d'"
  shows "backlog d' < backlog d"
proof (cases ev)
  case (NTake i)
  then obtain e ch where i: "i < length (dpQueues d)" and busy: "nqBusy (dpQueues d ! i) = None"
    and r: "recv (nqCh (dpQueues d ! i)) = Some (e, ch)"
    and d': "d' = d\<lparr>dpQueues := (dpQueues d)[i := (dpQueues d ! i)\<lparr>nqCh := ch, nqBusy := Some e\<rparr>]\<rparr>"
    using assms by (auto simp: consume_step_def takeNote_def split: if_splits option.splits)
  have "length (nqCh (dpQueues d ! i)) = Suc (length ch)" using chan.receive_some [OF r] by simp
  then show ?thesis
    using sum_list_update_nat [OF i, of "\<lambda>q. 2 * length (nqCh q) + (if nqBusy q = None then 0 else 1)" "(dpQueues d ! i)\<lparr>nqCh := ch, nqBusy := Some e\<rparr>"] busy
    by (simp add: backlog_def d')
next
  case (NFinish i ok)
  then obtain e where i: "i < length (dpQueues d)" and busy: "nqBusy (dpQueues d ! i) = Some e"
    and d': "dpQueues d' = (dpQueues d)[i := (dpQueues d ! i)\<lparr>nqBusy := None, nqDone := nqDone (dpQueues d ! i) @ [(e, ok)]\<rparr>]"
    using assms by (auto simp: consume_step_def finishNote_def Let_def split: if_splits option.splits)
  then show ?thesis
    using sum_list_update_nat [OF i, of "\<lambda>q. 2 * length (nqCh q) + (if nqBusy q = None then 0 else 1)"
        "(dpQueues d ! i)\<lparr>nqBusy := None, nqDone := nqDone (dpQueues d ! i) @ [(e, ok)]\<rparr>"] by (simp add: backlog_def)
qed (use assms in \<open>simp_all add: consume_step_def\<close>)

interpretation drain: well_founded consume_step "\<lambda>_. True" backlog
  by unfold_locales (simp_all add: backlog_less)

lemma backlog_zero: "backlog d = 0 \<longleftrightarrow> (\<forall>q \<in> set (dpQueues d). nqCh q = [] \<and> nqBusy q = None)"
  by (auto simp: backlog_def)

lemma backlog_progress:
  assumes "backlog d \<noteq> 0"
  shows "\<exists>ev d'. consume_step ev d = Some d'"
proof -
  obtain q where "q \<in> set (dpQueues d)" "nqCh q \<noteq> [] \<or> nqBusy q \<noteq> None"
    using assms by (auto simp: backlog_zero)
  then obtain i where i: "i < length (dpQueues d)" and work: "nqCh (dpQueues d ! i) \<noteq> [] \<or> nqBusy (dpQueues d ! i) \<noteq> None"
    by (auto simp: in_set_conv_nth)
  show ?thesis
  proof (cases "nqBusy (dpQueues d ! i)")
    case None
    then obtain e ch where "nqCh (dpQueues d ! i) = e # ch" using work by (cases "nqCh (dpQueues d ! i)") auto
    then show ?thesis using i None by (intro exI [of _ "NTake i"]) (simp add: consume_step_def takeNote_def)
  next
    case (Some e)
    then show ?thesis using i by (intro exI [of _ "NFinish i True"]) (simp add: consume_step_def finishNote_def Let_def)
  qed
qed

section \<open>Properties\<close>

text \<open>C30. In every schedule of dispatches, consumers and closing, each notifier's queue holds at most its depth; what its
  consumer worked off, works on and has queued is a subsequence of what was dispatched, with exactly the dropped
  ones missing; and the three counters of a name are the numbers of its events sent, failed and dropped, modulo
  64 bits.\<close>

theorem Dispatcher_books:
  assumes "reaches note_step (NewDispatcher depth names) d"
  shows "list_all (\<lambda>q. length (nqCh q) \<le> dpDepth d
        \<and> subseq (map fst (nqDone q) @ (case nqBusy q of None \<Rightarrow> [] | Some e \<Rightarrow> [e]) @ nqCh q) (nqOffered q)
        \<and> length (nqOffered q) = length (nqDone q) + (case nqBusy q of None \<Rightarrow> 0 | Some _ \<Rightarrow> 1) + length (nqCh q) + nqLost q) (dpQueues d)
    \<and> (\<forall>name. loadCounter (dpSent d) name = of_nat (\<Sum>q\<leftarrow>dpQueues d. if nqName q = name then length (filter (\<lambda>(e, b). b) (nqDone q)) else 0)
        \<and> loadCounter (dpFailed d) name = of_nat (\<Sum>q\<leftarrow>dpQueues d. if nqName q = name then length (filter (\<lambda>(e, b). \<not> b) (nqDone q)) else 0)
        \<and> loadCounter (dpDropped d) name = of_nat (\<Sum>q\<leftarrow>dpQueues d. if nqName q = name then nqLost q else 0))"
proof -
  have eqs: "delivered_of True = (\<lambda>q. length (filter (\<lambda>(e, b). b) (nqDone q)))" "delivered_of False = (\<lambda>q. length (filter (\<lambda>(e, b). \<not> b) (nqDone q)))"
    by (simp_all add: fun_eq_iff delivered_of_def)
  have q: "queue_ok n q \<Longrightarrow> length (nqCh q) \<le> n \<and> subseq (map fst (nqDone q) @ (case nqBusy q of None \<Rightarrow> [] | Some e \<Rightarrow> [e]) @ nqCh q) (nqOffered q)
      \<and> length (nqOffered q) = length (nqDone q) + (case nqBusy q of None \<Rightarrow> 0 | Some _ \<Rightarrow> 1) + length (nqCh q) + nqLost q" for n q
    by (simp add: queue_ok_def pending_def split: option.splits)
  have "dispatcher_ok d" by (rule noteI.holds [OF assms NewDispatcher_ok])
  note ok = this [unfolded dispatcher_ok_def totalOf_def list_all_iff eqs]
  show ?thesis
    unfolding list_all_iff by (intro conjI ballI allI; (insert ok, blast dest: q)?)
qed

text \<open>Closing drains: after \<open>Close\<close> nothing is accepted any more, as long as an event is queued or being delivered
  some consumer can move, and no run of the consumers has more than two moves per event.\<close>

theorem Dispatcher_close_drains:
  assumes "dpClosed d"
  shows "fst (Dispatch e d) = d
    \<and> ((\<exists>q \<in> set (dpQueues d). nqCh q \<noteq> [] \<or> nqBusy q \<noteq> None) \<longrightarrow> (\<exists>ev d'. consume_step ev d = Some d'))
    \<and> (\<forall>evs d'. exec consume_step evs d = Some d' \<longrightarrow> length evs \<le> 2 * (\<Sum>q\<leftarrow>dpQueues d. length (pending q)))"
proof (intro conjI impI allI)
  show "fst (Dispatch e d) = d" using assms by (simp add: Dispatch_def)
next
  assume "\<exists>q \<in> set (dpQueues d). nqCh q \<noteq> [] \<or> nqBusy q \<noteq> None"
  then have "backlog d \<noteq> 0" by (auto simp: backlog_zero)
  then show "\<exists>ev d'. consume_step ev d = Some d'" by (rule backlog_progress)
next
  fix evs d'
  assume "exec consume_step evs d = Some d'"
  then have "length evs \<le> backlog d" using drain.run_bound by fastforce
  also have "backlog d \<le> (\<Sum>q\<leftarrow>dpQueues d. 2 * length (pending q))"
    unfolding backlog_def by (rule sum_list_mono) (auto simp: pending_def)
  finally show "length evs \<le> 2 * (\<Sum>q\<leftarrow>dpQueues d. length (pending q))" by (simp add: sum_list_const_mult)
qed

definition demo_notice :: notice where
  "demo_notice = \<lparr>ntKind = ''delivery-loaded'', ntRepo = [], ntTag = [], ntDigest = [], ntRelease = ''r1'', ntDetail = []\<rparr>"

text \<open>Depth one, two events for a consumer that has not moved: the second is dropped and counted.\<close>

theorem Dispatcher_books_witness:
  "\<exists>d. exec note_step [NDispatch demo_notice, NDispatch demo_notice, NTake 0, NFinish 0 True] (NewDispatcher 1 [''slack'']) = Some d
     \<and> loadCounter (dpDropped d) ''slack'' = 1 \<and> loadCounter (dpSent d) ''slack'' = 1"
proof -
  obtain d q where d: "exec note_step [NDispatch demo_notice, NDispatch demo_notice, NTake 0, NFinish 0 True] (NewDispatcher 1 [''slack'']) = Some d"
    and q: "dpQueues d = [q]" "nqName q = ''slack''" "nqLost q = 1" "nqDone q = [(demo_notice, True)]"
    by (simp add: note_step_def NewDispatcher_def Dispatch_def offerNote_def trySend_def takeNote_def finishNote_def closeDispatcher_def)
  show ?thesis
    using conjunct2 [OF Dispatcher_books [OF exec_reaches [OF d reaches.start]], rule_format, of "''slack''"] d by (simp add: q)
qed

theorem Dispatcher_close_drains_witness:
  "\<exists>ev d'. consume_step ev (closeDispatcher (fst (Dispatch demo_notice (NewDispatcher 1 [''slack''])))) = Some d'"
  by (rule Dispatcher_close_drains [THEN conjunct2, THEN conjunct1, rule_format])
    (simp_all add: closeDispatcher_def Dispatch_def NewDispatcher_def offerNote_def trySend_def)

section \<open>Sending\<close>

lemma httpDo_cases:
  "httpDo E rq w = (r, w') \<Longrightarrow> sent w' = sent w @ [rq] \<and> (\<forall>rs. r = Inr rs \<longrightarrow> http_reply E (tick w) rq = Some rs)"
  by (auto simp: httpDo_def Let_def split: option.splits)

lemma pauseBefore_sent: "pauseBefore E b w = (r, w') \<Longrightarrow> sent w' = sent w"
  by (auto simp: pauseBefore_def bindM_run randBelow_def sleepFor_def Let_def split: if_splits)

lemma attempt_loop_sent:
  assumes "attempt_loop E name (Inr rq) n again backoff lastErr w = (r, w')"
  shows "\<exists>k \<le> n. sent w' = sent w @ replicate k rq \<and>
    (r = Inr () \<longrightarrow> n = 0 \<and> lastErr = None \<or> (\<exists>t rs. http_reply E t rq = Some rs \<and> 200 \<le> rsStatus rs \<and> rsStatus rs < 300))"
  using assms
proof (induction n arbitrary: again backoff lastErr w)
  case 0
  then show ?case by (auto split: option.splits)
next
  case (Suc n)
  obtain p w1 where p: "(if again then pauseBefore E backoff else ret ()) w = (p, w1)" by (rule prod.exhaust)
  have s1: "sent w1 = sent w" using p pauseBefore_sent by (auto split: if_splits)
  show ?case
  proof (cases p)
    case (Inl e)
    then have "w' = w1" "r = Inl e" using Suc.prems p by (auto simp: bindM_def)
    then show ?thesis using s1 by (intro exI [of _ 0]) simp
  next
    case (Inr u)
    obtain x w2 where x: "httpDo E rq w1 = (x, w2)" by (rule prod.exhaust)
    note hd = httpDo_cases [OF x]
    have again: ?thesis if go: "attempt_loop E name (Inr rq) n True b (Some e) w2 = (r, w')" for b e
    proof -
      obtain k where "k \<le> n" "sent w' = sent w2 @ replicate k rq"
        "r = Inr () \<longrightarrow> (\<exists>t rs. http_reply E t rq = Some rs \<and> 200 \<le> rsStatus rs \<and> rsStatus rs < 300)"
        using Suc.IH [OF go] by auto
      then show ?thesis using hd s1 by (intro exI [of _ "Suc k"]) simp
    qed
    have stop: ?thesis if "w' = w2" "r = Inr () \<longrightarrow> (\<exists>rs. x = Inr rs \<and> 200 \<le> rsStatus rs \<and> rsStatus rs < 300)"
      using that hd s1 by (intro exI [of _ 1]) auto
    show ?thesis
    proof (cases x)
      case (Inl e)
      with Suc.prems p Inr x have "attempt_loop E name (Inr rq) n True (if again then wrap64 (backoff * 2) else backoff) (Some (Wrap name e)) w2 = (r, w')"
        by (simp add: bindM_def sm_run attemptM_def Let_def)
      then show ?thesis by (rule again)
    next
      case rs: (Inr rs)
      from Suc.prems p Inr x rs consider "200 \<le> rsStatus rs" "rsStatus rs < 300" "w' = w2"
        | b e where "attempt_loop E name (Inr rq) n True b (Some e) w2 = (r, w')" | "w' = w2" "r \<noteq> Inr ()"
        by (auto simp: bindM_def sm_run attemptM_def Let_def split: if_splits)
      then show ?thesis using again stop rs by cases auto
    qed
  qed
qed

text \<open>A notification is sent at most as often as allowed (four times by default), always the same request, and it
  counts as delivered only after an answer in the 200 range.\<close>

theorem Notify_attempts_bounded:
  assumes "attemptSend E maxAttempts name (Inr rq) w = (r, w')"
  shows "\<exists>k. int k \<le> (if maxAttempts \<le> 0 then 4 else maxAttempts) \<and> sent w' = sent w @ replicate k rq
    \<and> (r = Inr () \<longrightarrow> (\<exists>t rs. http_reply E t rq = Some rs \<and> 200 \<le> rsStatus rs \<and> rsStatus rs < 300))"
proof -
  obtain k where "k \<le> nat (if maxAttempts \<le> 0 then 4 else maxAttempts)" "sent w' = sent w @ replicate k rq"
    "r = Inr () \<longrightarrow> nat (if maxAttempts \<le> 0 then 4 else maxAttempts) = 0 \<and> None = (None :: error option)
       \<or> (\<exists>t rs. http_reply E t rq = Some rs \<and> 200 \<le> rsStatus rs \<and> rsStatus rs < 300)"
    using attempt_loop_sent [OF assms [unfolded attemptSend_def]] by blast
  then show ?thesis by (intro exI [of _ k]) (auto split: if_splits)
qed

text \<open>An answer 429 that asks to wait 9223372037 seconds wraps to a negative pause, and the process panics before
  the next attempt.\<close>

lemma retry_after_panics:
  assumes "header rs ''Retry-After'' = ''9223372037''"
  shows "afterTooMany rs b = 9223372037 * 1000000000 - 2 ^ 64"
    and "pauseBefore E (afterTooMany rs b) w = (Inl PanicInt63n, w)"
proof -
  have "atoi ''9223372037'' = Some 9223372037" by (simp add: atoi_def digits_val_def isDigit_def int64_range_def Let_def)
  moreover have w: "wrap64 (9223372037 * 1000000000) = 9223372037 * 1000000000 - 2 ^ 64"
    by (simp add: wrap64_def signed_take_bit_eq_take_bit_shift take_bit_eq_mod)
  ultimately show eq: "afterTooMany rs b = 9223372037 * 1000000000 - 2 ^ 64" using assms by (simp add: afterTooMany_def)
  have "wrap64 (half (9223372037 * 1000000000 - 2 ^ 64) + 1) \<le> 0"
    by (simp add: half_def wrap64_def signed_take_bit_eq_take_bit_shift take_bit_eq_mod)
  then show "pauseBefore E (afterTooMany rs b) w = (Inl PanicInt63n, w)"
    unfolding eq by (simp add: pauseBefore_def bindM_def randBelow_def)
qed

theorem Notify_attempts_bounded_witness:
  "length (sent (snd (attemptSend (env_fail_at 0) 0 ''slack''
     (Inr \<lparr>rqMethod = ''POST'', rqURL = ''https://h/'', rqHeaders = [], rqBody = []\<rparr>) empty_world))) \<le> 4"
proof -
  let ?rq = "\<lparr>rqMethod = ''POST'', rqURL = ''https://h/'', rqHeaders = [], rqBody = []\<rparr>"
  obtain r w' where run: "attemptSend (env_fail_at 0) 0 ''slack'' (Inr ?rq) empty_world = (r, w')" by (rule prod.exhaust)
  from Notify_attempts_bounded [OF this] run show ?thesis by (auto simp: empty_world_def)
qed

end
