(* ===== verification/ClientConf.thy ===== *)
theory ClientConf
  imports Notify
begin

text \<open>
  The client configuration and the restart runner, \<open>src/internal/clientconf/clientconf.go\<close> and \<open>runner.go\<close>: which
  releases are eligible, and what is done with containers after a verified load.
\<close>

section \<open>Configuration\<close>

record restart_config =
  rsDockerCLI :: string
  rsInclude :: string
  rsExclude :: string
  rsStopTimeout :: int

record client_config =
  ccHubTLS :: hub_config
  ccOrigin :: string
  ccManifest :: string
  ccPubKey :: string
  ccStateDir :: string
  ccDeviceID :: string
  ccAllowHTTP :: bool
  ccWorkers :: int
  ccAction :: string
  ccAllow :: string
  ccIgnore :: string
  ccMaxReleases :: int
  ccNotifiers :: "notifier_config list"
  ccRestart :: restart_config

text \<open>One record per container restart.\<close>

record audit_record =
  auContainer :: string
  auImage :: string
  auImageID :: string
  auAction :: string
  auRecreated :: bool
  auNewName :: string
  auError :: "error option"
  auStopTimeout :: int

text \<open>Library operations: \<open>regexp\<close> (\<open>None\<close>: the pattern does not compile), the YAML decoder, and the text forms of
  audit records and errors.\<close>

record conf_prims = notify_prims +
  confRegex :: "string \<Rightarrow> string \<Rightarrow> bool option"
  yamlClient :: "bytes \<Rightarrow> client_config result"
  jsonAudit :: "audit_record list \<Rightarrow> bytes"
  jsonRecord :: "audit_record \<Rightarrow> string"
  errText :: "error \<Rightarrow> string"

definition ActionDryRun :: string where "ActionDryRun = ''dry-run''"
definition ActionLoad :: string where "ActionLoad = ''load''"
definition ActionRestart :: string where "ActionRestart = ''restart''"

definition confCompiles :: "'x conf_prims_scheme \<Rightarrow> string \<Rightarrow> bool" where
  "confCompiles P re \<longleftrightarrow> re = [] \<or> confRegex P re [] \<noteq> None"

definition defaultAction :: "client_config \<Rightarrow> client_config result" where
  "defaultAction c = (if ccAction c = [] then Inr (c\<lparr>ccAction := ActionDryRun\<rparr>)
     else if ccAction c \<in> {ActionDryRun, ActionLoad, ActionRestart} then Inr c
     else Inl (Msg ''client config: action must be dry-run, load or restart''))"

definition defaultRestart :: "client_config \<Rightarrow> client_config" where
  "defaultRestart c = (let r = ccRestart c; r1 = (if rsDockerCLI r = [] then r\<lparr>rsDockerCLI := ''docker''\<rparr> else r);
       r2 = (if rsStopTimeout r1 = 0 then r1\<lparr>rsStopTimeout := 10\<rparr> else r1) in c\<lparr>ccRestart := r2\<rparr>)"

definition confParse :: "'x conf_prims_scheme \<Rightarrow> bytes \<Rightarrow> client_config result" where
  "confParse P b =
     bindR (case yamlClient P b of Inl e \<Rightarrow> Inl (Wrap ''client config'' e) | Inr c \<Rightarrow> Inr c) (\<lambda>c.
     bindR (guardR (ccOrigin c \<noteq> []) (Msg ''client config: origin is required'')) (\<lambda>_.
     bindR (guardR (ccManifest c \<noteq> []) (Msg ''client config: manifest is required'')) (\<lambda>_.
     bindR (guardR (ccPubKey c \<noteq> []) (Msg ''client config: pub_key is required'')) (\<lambda>_.
     bindR (guardR (ccStateDir c \<noteq> []) (Msg ''client config: state_dir is required'')) (\<lambda>_.
     bindR (defaultAction c) (\<lambda>c1.
     bindR (guardR (list_all (confCompiles P) [ccAllow c1, ccIgnore c1, rsInclude (ccRestart c1), rsExclude (ccRestart c1)])
              (Msg ''client config: bad pattern'')) (\<lambda>_.
     (let c2 = defaultRestart c1 in
      bindR (guardR (\<not> (ccWorkers c2 < 0 \<or> ccMaxReleases c2 < 0)) (Msg ''client config: workers and max_releases must be >= 0'')) (\<lambda>_.
      Inr c2)))))))))"

definition confLoad :: "'x conf_prims_scheme \<Rightarrow> env \<Rightarrow> path \<Rightarrow> client_config io" where
  "confLoad P E p = bindM (osReadFile E p) (\<lambda>b. liftR (confParse P b))"

text \<open>Ignore wins over allow; an empty allow lets everything through.\<close>

definition Eligible :: "'x conf_prims_scheme \<Rightarrow> client_config \<Rightarrow> string \<Rightarrow> bool" where
  "Eligible P c release =
     (if ccIgnore c \<noteq> [] \<and> confRegex P (ccIgnore c) release = Some True then False
      else if ccAllow c = [] then True
      else case confRegex P (ccAllow c) release of None \<Rightarrow> False | Some m \<Rightarrow> m)"

definition LoadOptions :: "client_config \<Rightarrow> agent_options \<Rightarrow> agent_options" where
  "LoadOptions c o' =
     (let o1 = o'\<lparr>oHubTLS := ccHubTLS c, oManifestURL := ccManifest c, oBaseURL := ccOrigin c,
                  oStateDir := pathOf (ccStateDir c), oPublicKey := pathOf (ccPubKey c)\<rparr>;
          o2 = (if ccDeviceID c \<noteq> [] then o1\<lparr>oDeviceID := ccDeviceID c\<rparr> else o1)\<lparr>oAllowHTTP := ccAllowHTTP c\<rparr>
      in if ccWorkers c > 0 then o2\<lparr>oWorkers := ccWorkers c\<rparr> else o2)"

section \<open>The runner\<close>

record runner =
  rnConfig :: client_config
  rnWrites :: bool

record runner_vars =
  rvEvents :: "(string \<times> string) list"
  rvNotify :: "dispatcher option"

type_synonym 'a rn = "(world \<times> runner_vars, 'a) sm"

definition noticeKind :: "string \<Rightarrow> string option" where
  "noticeKind = map_of [(''release-eligible'', KindReleasePublished), (''release-ignored'', KindReleasePublished),
     (''delivery-staged'', KindDeliveryStaged), (''delivery-loaded'', KindDeliveryLoaded),
     (''containers-restart'', KindDeliveryLoaded), (''delivery-failed'', KindDeliveryFailed)]"

definition runnerEvent :: "runner \<Rightarrow> string \<Rightarrow> string \<Rightarrow> unit rn" where
  "runnerEvent R kind detail = modS (\<lambda>v.
     (let v1 = (if rnWrites R then v\<lparr>rvEvents := rvEvents v @ [(kind, detail)]\<rparr> else v) in
      case (rvNotify v1, noticeKind kind) of
        (Some d, Some k) \<Rightarrow> v1\<lparr>rvNotify := Some (fst (Dispatch \<lparr>ntKind = k, ntRepo = [], ntTag = [], ntDigest = [], ntRelease = [],
           ntDetail = detail\<rparr> d))\<rparr>
      | _ \<Rightarrow> v1))"

record sync_result =
  srRelease :: string
  srImageIDs :: "string list"
  srArtifact :: string
  srPhase :: string

record plan =
  plRelease :: string
  plEligible :: bool
  plAction :: string
  plWouldDo :: "string list"
  plReason :: string

text \<open>The docker command line of each call.\<close>

definition psArgs :: "client_config \<Rightarrow> string \<Rightarrow> string list" where
  "psArgs c imageID = [rsDockerCLI (ccRestart c), ''ps'', ''--filter'', ''ancestor='' @ imageID, ''--format'', ''{{.ID}} {{.Names}} {{.Image}}'']"

definition stopArgs :: "client_config \<Rightarrow> string \<Rightarrow> string list" where
  "stopArgs c cid = [rsDockerCLI (ccRestart c), ''stop'', ''--time='' @ showInt (rsStopTimeout (ccRestart c)), cid]"

definition rmArgs :: "client_config \<Rightarrow> string \<Rightarrow> string list" where
  "rmArgs c cid = [rsDockerCLI (ccRestart c), ''rm'', cid]"

definition runArgs :: "client_config \<Rightarrow> string \<Rightarrow> string \<Rightarrow> string list" where
  "runArgs c newName imageID = [rsDockerCLI (ccRestart c), ''run'', ''--detach'', ''--name'', newName, imageID]"

definition dockerOutput :: "env \<Rightarrow> string \<Rightarrow> string list \<Rightarrow> string io" where
  "dockerOutput E what args = bindM (dockerRun E args) (\<lambda>(out, ok). if ok then ret out else throw (Wrap what (Msg ''exit status'')))"

definition recreate :: "env \<Rightarrow> client_config \<Rightarrow> string \<Rightarrow> string \<Rightarrow> string \<Rightarrow> unit io" where
  "recreate E c cid newName imageID =
     bindM (dockerOutput E ''stop'' (stopArgs c cid)) (\<lambda>_.
     bindM (dockerOutput E ''rm'' (rmArgs c cid)) (\<lambda>_.
     bindM (dockerOutput E ''run replacement'' (runArgs c newName imageID)) (\<lambda>_. ret ())))"

text \<open>\<open>strings.SplitN(line, " ", 3)\<close>: container, name and image, each missing one being the container.\<close>

definition psFields :: "string \<Rightarrow> string \<times> string \<times> string" where
  "psFields line = (case splitOn (CHR '' '') line of
       [] \<Rightarrow> (line, line, line)
     | [cid] \<Rightarrow> (cid, cid, cid)
     | [cid, name] \<Rightarrow> (cid, name, cid)
     | cid # name # rest \<Rightarrow> (cid, name, joinWith '' '' rest))"

definition psLines :: "string \<Rightarrow> string list" where
  "psLines out = filter (\<lambda>l. l \<noteq> []) (splitOn (CHR 0x0A) (trimSpace out))"

definition wantedName :: "'x conf_prims_scheme \<Rightarrow> restart_config \<Rightarrow> string \<Rightarrow> bool" where
  "wantedName P rc name \<longleftrightarrow> \<not> (rsExclude rc \<noteq> [] \<and> confRegex P (rsExclude rc) name = Some True)
     \<and> \<not> (rsInclude rc \<noteq> [] \<and> confRegex P (rsInclude rc) name \<noteq> Some True)"

definition newRecord :: "client_config \<Rightarrow> string \<Rightarrow> string \<Rightarrow> string \<Rightarrow> string \<Rightarrow> unit result \<Rightarrow> audit_record" where
  "newRecord c cid name img imageID r = \<lparr>auContainer = cid, auImage = img, auImageID = imageID, auAction = ''recreate'',
     auRecreated = (case r of Inl _ \<Rightarrow> False | Inr _ \<Rightarrow> True), auNewName = (case r of Inl _ \<Rightarrow> [] | Inr _ \<Rightarrow> name @ ''-restarted''),
     auError = (case r of Inl e \<Rightarrow> Some e | Inr _ \<Rightarrow> None), auStopTimeout = rsStopTimeout (ccRestart c)\<rparr>"

fun restart_lines :: "'x conf_prims_scheme \<Rightarrow> env \<Rightarrow> client_config \<Rightarrow> string \<Rightarrow> string list \<Rightarrow> audit_record list io" where
  "restart_lines P E c imageID [] = ret []"
| "restart_lines P E c imageID (line # ls) = (case psFields line of (cid, name, img) \<Rightarrow>
     if \<not> wantedName P (ccRestart c) name then restart_lines P E c imageID ls
     else bindM (attemptM (recreate E c cid (name @ ''-restarted'') imageID)) (\<lambda>r.
          bindM (restart_lines P E c imageID ls) (\<lambda>recs. ret (newRecord c cid name img imageID r # recs))))"

text \<open>All images; the records so far come with an error.\<close>

fun restart_images :: "'x conf_prims_scheme \<Rightarrow> env \<Rightarrow> client_config \<Rightarrow> string list \<Rightarrow> (audit_record list \<times> error option) io" where
  "restart_images P E c [] = ret ([], None)"
| "restart_images P E c (imageID # ids) =
     bindM (attemptM (dockerOutput E ''restart: docker ps'' (psArgs c imageID))) (\<lambda>x. case x of
       Inl e \<Rightarrow> ret ([], Some e)
     | Inr out \<Rightarrow> bindM (restart_lines P E c imageID (psLines out)) (\<lambda>recs.
                   bindM (restart_images P E c ids) (\<lambda>(more, err). ret (recs @ more, err))))"

text \<open>\<open>os.WriteFile\<close>.\<close>

definition osWriteFile :: "env \<Rightarrow> path \<Rightarrow> bytes \<Rightarrow> unit io" where
  "osWriteFile E p b = bindM (osCreate E p) (\<lambda>_. bindM (fWrite E p b) (\<lambda>_. fClose E p))"

definition auditDir :: "client_config \<Rightarrow> path" where
  "auditDir c = Join (pathOf (ccStateDir c)) ''restart-audit''"

definition auditName :: "int \<Rightarrow> string" where
  "auditName now = ''restart-'' @ showInt (now div 1000000000) @ ''.json''"

definition WriteAudit :: "'x conf_prims_scheme \<Rightarrow> env \<Rightarrow> client_config \<Rightarrow> audit_record list \<Rightarrow> unit io" where
  "WriteAudit P E c records =
     bindM (mkdirAll_rev E (rev (auditDir c))) (\<lambda>_.
     bindM (timeNow E) (\<lambda>now. osWriteFile E (auditDir c @ [auditName now]) (jsonAudit P records)))"

definition RestartMatching :: "'x conf_prims_scheme \<Rightarrow> env \<Rightarrow> client_config \<Rightarrow> string list \<Rightarrow> (audit_record list \<times> error option) io" where
  "RestartMatching P E c imageIDs =
     (if \<not> confCompiles P (rsInclude (ccRestart c)) \<or> \<not> confCompiles P (rsExclude (ccRestart c))
      then ret ([], Some (Msg ''bad pattern''))
      else bindM (restart_images P E c imageIDs) (\<lambda>(records, err). case err of
          Some e \<Rightarrow> ret (records, Some e)
        | None \<Rightarrow> bindM (attemptM (WriteAudit P E c records)) (\<lambda>w. case w of
              Inl e \<Rightarrow> ret (records, Some e) | Inr _ \<Rightarrow> ret (records, None))))"

definition Act :: "'x conf_prims_scheme \<Rightarrow> env \<Rightarrow> runner \<Rightarrow> sync_result \<Rightarrow> (plan \<times> error option) rn" where
  "Act P E R so =
     (let c = rnConfig R; p = \<lparr>plRelease = srRelease so, plEligible = Eligible P c (srRelease so), plAction = ccAction c, plWouldDo = [], plReason = []\<rparr> in
      if \<not> plEligible p then
        bindM (runnerEvent R ''release-ignored'' (''release='' @ srRelease so @ '' reason=allow-ignore-gate'')) (\<lambda>_.
        ret (p\<lparr>plReason := ''release filtered by allow/ignore''\<rparr>, None))
      else if ccAction c = ActionDryRun then
        ret (p\<lparr>plWouldDo := [''docker image load --input '' @ srArtifact so, ''verify stored image IDs against signed manifest image_ids'']
               @ (if srImageIDs so \<noteq> [] then [''restart containers using image '' @ joinWith '', '' (srImageIDs so)] else []),
               plReason := ''dry-run: nothing was touched''\<rparr>, None)
      else if ccAction c = ActionLoad then
        (if srPhase so \<noteq> ''loaded'' then
           ret (p\<lparr>plReason := ''archive verified and staged; load was not requested via --docker-load'',
                  plWouldDo := [''re-run with docker-load enabled to import '' @ srArtifact so]\<rparr>, None)
         else bindM (runnerEvent R ''delivery-loaded'' (''release='' @ srRelease so)) (\<lambda>_.
           ret (p\<lparr>plWouldDo := [''docker image load (verified before import); stored image IDs proved against signed manifest'']\<rparr>, None)))
      else if ccAction c = ActionRestart then
        (if srPhase so \<noteq> ''loaded'' then ret (p\<lparr>plReason := ''restart requires a completed load; archive is staged only''\<rparr>, None)
         else if srImageIDs so = [] then ret (p, Some (Msg ''restart: manifest carries no signed image IDs''))
         else bindM (onFst (RestartMatching P E c (srImageIDs so))) (\<lambda>(recs, err). case err of
             Some e \<Rightarrow> bindM (runnerEvent R ''delivery-failed'' (''release='' @ srRelease so @ '' stage=restart detail='' @ errText P e)) (\<lambda>_. ret (p, Some e))
           | None \<Rightarrow> bindM (runnerEvent R ''containers-restart'' (''release='' @ srRelease so @ '' containers='' @ decimal (length recs))) (\<lambda>_.
               ret (p\<lparr>plWouldDo := map (jsonRecord P) recs\<rparr>, None))))
      else ret (p, Some (Msg ''unknown action'')))"

section \<open>The commands issued\<close>

text \<open>A command the restart of these images may issue: a listing for one of them, or a stop, a removal or a start for
  a container such a listing named, whose name the patterns let through; the start is of the image listed for.\<close>

definition restart_cmd :: "'x conf_prims_scheme \<Rightarrow> env \<Rightarrow> client_config \<Rightarrow> string list \<Rightarrow> string list \<Rightarrow> bool" where
  "restart_cmd P E c ids args \<longleftrightarrow> (\<exists>imageID \<in> set ids. args = psArgs c imageID \<or>
     (\<exists>t out line cid name img. docker_reply E t (psArgs c imageID) = (out, True) \<and> line \<in> set (psLines out)
        \<and> psFields line = (cid, name, img) \<and> wantedName P (ccRestart c) name
        \<and> args \<in> {stopArgs c cid, rmArgs c cid, runArgs c (name @ ''-restarted'') imageID}))"

definition issues :: "(string list \<Rightarrow> bool) \<Rightarrow> world \<Rightarrow> world \<Rightarrow> bool" where
  "issues Q w w' \<longleftrightarrow> (\<exists>cmds. docker_log w' = docker_log w @ cmds \<and> list_all Q cmds)"

interpretation issue: effect_order "issues Q" for Q
proof
  show "issues Q s s" for s by (auto simp: issues_def)
  fix s t u assume "issues Q s t" "issues Q t u"
  then obtain a b where "docker_log t = docker_log s @ a" "docker_log u = docker_log t @ b" "list_all Q a" "list_all Q b"
    unfolding issues_def by blast
  then show "issues Q s u" unfolding issues_def by (intro exI [of _ "a @ b"]) simp
qed

lemma issues_same: "docker_log w' = docker_log w \<Longrightarrow> issues Q w w'"
  by (auto simp: issues_def)

lemma issues_prims:
  "steps (issues Q) (osStat E p)" "steps (issues Q) (osMkdir E p)" "steps (issues Q) (osCreate E p)" "steps (issues Q) (fWrite E p b)"
  "steps (issues Q) (fClose E p)" "steps (issues Q) (timeNow E)"
  by (auto simp: steps_def prim_defs osCreate_def Let_def intro!: issues_same split: option.splits node.splits)

lemma dockerOutput_run:
  "dockerOutput E what args w = (r, w') \<Longrightarrow> docker_log w' = docker_log w @ [args]
     \<and> (\<forall>out. r = Inr out \<longrightarrow> docker_reply E (tick w) args = (out, True))"
  by (auto simp: dockerOutput_def bindM_def dockerRun_def sm_run split: if_splits prod.splits)

lemma issues_dockerOutput: "Q args \<Longrightarrow> steps (issues Q) (dockerOutput E what args)"
  by (rule stepsI) (auto simp: issues_def dest!: dockerOutput_run)

lemma issues_recreate:
  "Q (stopArgs c cid) \<Longrightarrow> Q (rmArgs c cid) \<Longrightarrow> Q (runArgs c n i) \<Longrightarrow> steps (issues Q) (recreate E c cid n i)"
  unfolding recreate_def by (intro issue.steps_rules issues_dockerOutput)

lemma issues_restart_lines:
  assumes "\<And>line cid name img. line \<in> set ls \<Longrightarrow> psFields line = (cid, name, img) \<Longrightarrow> wantedName P (ccRestart c) name \<Longrightarrow>
     Q (stopArgs c cid) \<and> Q (rmArgs c cid) \<and> Q (runArgs c (name @ ''-restarted'') imageID)"
  shows "steps (issues Q) (restart_lines P E c imageID ls)"
  using assms
proof (induction ls)
  case (Cons line ls)
  have IH: "steps (issues Q) (restart_lines P E c imageID ls)"
    by (rule Cons.IH) (rule Cons.prems, simp_all)
  obtain cid name img where f: "psFields line = (cid, name, img)" by (rule prod_cases3)
  show ?case
    using Cons.prems [of line, OF _ f]
    by (simp add: f) (intro conjI impI IH issue.steps_rules issues_recreate; simp)
qed (simp add: issue.steps_ret)

lemma issues_restart_images:
  assumes "set ids \<subseteq> set all"
  shows "steps (issues (restart_cmd P E c all)) (restart_images P E c ids)"
  using assms
proof (induction ids)
  case (Cons imageID ids)
  have IH: "steps (issues (restart_cmd P E c all)) (restart_images P E c ids)" using Cons by simp
  have mem: "imageID \<in> set all" using Cons.prems by simp
  show ?case
    unfolding restart_images.simps
  proof (rule issue.steps_bindM_res)
    show "steps (issues (restart_cmd P E c all)) (attemptM (dockerOutput E ''restart: docker ps'' (psArgs c imageID)))"
      by (intro issue.steps_attemptM issues_dockerOutput) (use mem in \<open>auto simp: restart_cmd_def\<close>)
    fix x w w' assume run: "attemptM (dockerOutput E ''restart: docker ps'' (psArgs c imageID)) w = (Inr x, w')"
    have lines: "steps (issues (restart_cmd P E c all)) (restart_lines P E c imageID (psLines out))" if "x = Inr out" for out
    proof (rule issues_restart_lines)
      fix line cid name img
      assume l: "line \<in> set (psLines out)" "psFields line = (cid, name, img)" "wantedName P (ccRestart c) name"
      have "docker_reply E (tick w) (psArgs c imageID) = (out, True)"
        using run dockerOutput_run that by (auto simp: attemptM_run)
      then have "restart_cmd P E c all args" if "args \<in> {stopArgs c cid, rmArgs c cid, runArgs c (name @ ''-restarted'') imageID}" for args
        unfolding restart_cmd_def using mem l that by blast
      then show "restart_cmd P E c all (stopArgs c cid) \<and> restart_cmd P E c all (rmArgs c cid)
          \<and> restart_cmd P E c all (runArgs c (name @ ''-restarted'') imageID)" by simp
    qed
    show "steps (issues (restart_cmd P E c all)) (case x of Inl e \<Rightarrow> ret ([], Some e)
       | Inr out \<Rightarrow> bindM (restart_lines P E c imageID (psLines out)) (\<lambda>recs.
                   bindM (restart_images P E c ids) (\<lambda>(more, err). ret (recs @ more, err))))"
      by (intro issue.steps_rules lines IH)
  qed
qed (simp add: issue.steps_ret)

lemma issues_mkdirAll: "steps (issues Q) (mkdirAll_rev E cs)"
  by (induction cs) (auto intro!: issue.steps_rules issues_prims split: node.splits)

lemma issues_WriteAudit: "steps (issues Q) (WriteAudit P E c records)"
  unfolding WriteAudit_def osWriteFile_def by (intro issue.steps_rules issues_mkdirAll issues_prims)

lemma issues_RestartMatching: "steps (issues (restart_cmd P E c ids)) (RestartMatching P E c ids)"
  unfolding RestartMatching_def by (intro issue.steps_rules issues_restart_images issues_WriteAudit order_refl)

interpretation issue_fst: effect_order "on_fst (issues Q)" for Q
  by (rule on_fst_order) (rule issue.effect_order_axioms)

lemma issues_event: "steps (on_fst (issues Q)) (runnerEvent R kind detail)"
  by (auto simp: steps_def runnerEvent_def modS_def on_fst_def issues_def)

lemma issues_Act: "steps (on_fst (issues (restart_cmd P E (rnConfig R) (srImageIDs so)))) (Act P E R so)"
  unfolding Act_def Let_def
  by (intro issue_fst.steps_rules issues_event steps_onFst issues_RestartMatching)

lemma event_world: "runnerEvent R kind detail (w, v) = (r, w', v') \<Longrightarrow> w' = w \<and> r = Inr ()"
  by (auto simp: runnerEvent_def modS_def)

lemma Act_gate:
  assumes "Act P E R so (w, v) = (r, w', v')"
  shows "(\<exists>cmds. docker_log w' = docker_log w @ cmds \<and> list_all (restart_cmd P E (rnConfig R) (srImageIDs so)) cmds)
    \<and> (Eligible P (rnConfig R) (srRelease so) \<and> ccAction (rnConfig R) = ActionRestart \<and> srPhase so = ''loaded'' \<and> srImageIDs so \<noteq> []
       \<or> w' = w)"
proof
  show "\<exists>cmds. docker_log w' = docker_log w @ cmds \<and> list_all (restart_cmd P E (rnConfig R) (srImageIDs so)) cmds"
    using stepsD [OF issues_Act assms] by (simp add: on_fst_def issues_def)
  show "Eligible P (rnConfig R) (srRelease so) \<and> ccAction (rnConfig R) = ActionRestart \<and> srPhase so = ''loaded'' \<and> srImageIDs so \<noteq> []
       \<or> w' = w"
    using assms by (auto simp: Act_def Let_def bindM_run ret_def dest!: event_world split: if_splits)
qed

section \<open>Properties\<close>

text \<open>Docker gate of the runner. Whatever \<open>Act\<close> is asked to do, Docker is called only for an eligible release whose load
  has completed, with the action restart and signed image IDs at hand, and then only to list containers of those
  images and to stop, remove and replace containers so listed, each replacement running the signed image. In
  every other case the machine is not touched at all.\<close>

theorem Act_docker_gate:
  assumes "Act P E R so (w, v) = (r, w', v')"
  shows "(\<exists>cmds. docker_log w' = docker_log w @ cmds \<and> list_all (restart_cmd P E (rnConfig R) (srImageIDs so)) cmds)
    \<and> (Eligible P (rnConfig R) (srRelease so) \<and> ccAction (rnConfig R) = ActionRestart \<and> srPhase so = ''loaded'' \<and> srImageIDs so \<noteq> []
       \<or> w' = w)"
  by (rule Act_gate [OF assms])

section \<open>The audit\<close>

text \<open>A container served: the commands issued for it are a beginning of stop, remove and start, all three when the
  record says it was recreated, and the record names the container and the signed image.\<close>

definition served :: "client_config \<Rightarrow> string \<Rightarrow> string \<Rightarrow> audit_record \<times> string list list \<Rightarrow> bool" where
  "served c imageID line x \<longleftrightarrow> (case psFields line of (cid, name, img) \<Rightarrow> case x of (rec, cmds) \<Rightarrow>
     (let full = [stopArgs c cid, rmArgs c cid, runArgs c (name @ ''-restarted'') imageID] in
      cmds \<noteq> [] \<and> prefix cmds full \<and> auContainer rec = cid \<and> auImageID rec = imageID \<and> (auRecreated rec \<longleftrightarrow> auError rec = None)
      \<and> (auRecreated rec \<longrightarrow> cmds = full \<and> auNewName rec = name @ ''-restarted'')))"

lemma recreate_log:
  assumes "recreate E c cid n imageID w = (r, w')"
  shows "\<exists>cmds. docker_log w' = docker_log w @ cmds \<and> cmds \<noteq> [] \<and> prefix cmds [stopArgs c cid, rmArgs c cid, runArgs c n imageID]
    \<and> (r = Inr () \<longrightarrow> cmds = [stopArgs c cid, rmArgs c cid, runArgs c n imageID])"
  using assms by (fastforce simp: recreate_def bindM_run ret_def dest!: dockerOutput_run)

definition wantedLine :: "'x conf_prims_scheme \<Rightarrow> client_config \<Rightarrow> string \<Rightarrow> bool" where
  "wantedLine P c line = wantedName P (ccRestart c) (fst (snd (psFields line)))"

lemma restart_lines_log:
  assumes "restart_lines P E c imageID ls w = (r, w')"
  shows "\<exists>xs. r = Inr (map fst xs) \<and> docker_log w' = docker_log w @ concat (map snd xs)
    \<and> list_all2 (served c imageID) (filter (wantedLine P c) ls) xs"
  using assms
proof (induction ls arbitrary: r w w')
  case Nil
  then show ?case by simp
next
  case (Cons line ls)
  obtain cid name img where f: "psFields line = (cid, name, img)" by (rule prod_cases3)
  show ?case
  proof (cases "wantedName P (ccRestart c) name")
    case False
    then show ?thesis using Cons by (simp add: f wantedLine_def)
  next
    case True
    obtain x w1 where x: "recreate E c cid (name @ ''-restarted'') imageID w = (x, w1)" by (rule prod.exhaust)
    obtain y w2 where y: "restart_lines P E c imageID ls w1 = (y, w2)" by (rule prod.exhaust)
    obtain cmds where c: "docker_log w1 = docker_log w @ cmds" "cmds \<noteq> []" "prefix cmds [stopArgs c cid, rmArgs c cid, runArgs c (name @ ''-restarted'') imageID]"
      "x = Inr () \<longrightarrow> cmds = [stopArgs c cid, rmArgs c cid, runArgs c (name @ ''-restarted'') imageID]"
      using recreate_log [OF x] by blast
    obtain xs where xs: "y = Inr (map fst xs)" "docker_log w2 = docker_log w1 @ concat (map snd xs)"
      "list_all2 (served c imageID) (filter (wantedLine P c) ls) xs"
      using Cons.IH [OF y] by blast
    let ?x = "(newRecord c cid name img imageID x, cmds)"
    have "r = Inr (map fst (?x # xs))" "w' = w2"
      using Cons.prems True x y xs(1) by (simp_all add: f bindM_def attemptM_def ret_def)
    moreover have "served c imageID line ?x"
      using c(2-4) by (cases x) (auto simp: served_def f newRecord_def)
    moreover have "wantedLine P c line" using True by (simp add: wantedLine_def f)
    ultimately show ?thesis
      using c(1) xs(2,3) by (intro exI [of _ "?x # xs"]) simp
  qed
qed

text \<open>An image visited: listed, and exactly the wanted lines of the listing served in turn.\<close>

type_synonym visit = "string \<times> (audit_record \<times> string list list) list"

definition visitRecords :: "visit list \<Rightarrow> audit_record list" where
  "visitRecords vs = concat (map (\<lambda>(imageID, xs). map fst xs) vs)"

definition visitCommands :: "client_config \<Rightarrow> visit list \<Rightarrow> string list list" where
  "visitCommands c vs = concat (map (\<lambda>(imageID, xs). psArgs c imageID # concat (map snd xs)) vs)"

definition visit_ok :: "'x conf_prims_scheme \<Rightarrow> env \<Rightarrow> client_config \<Rightarrow> visit \<Rightarrow> bool" where
  "visit_ok P E c v \<longleftrightarrow> (\<exists>t out. docker_reply E t (psArgs c (fst v)) = (out, True)
     \<and> list_all2 (served c (fst v)) (filter (wantedLine P c) (psLines out)) (snd v))"

lemma visit_simps [simp]:
  "visitRecords [] = []" "visitRecords ((imageID, xs) # vs) = map fst xs @ visitRecords vs"
  "visitCommands c [] = []" "visitCommands c ((imageID, xs) # vs) = psArgs c imageID # concat (map snd xs) @ visitCommands c vs"
  by (simp_all add: visitRecords_def visitCommands_def)

lemma restart_images_log:
  assumes "restart_images P E c ids w = (r, w')"
  shows "\<exists>vs err. r = Inr (visitRecords vs, err) \<and> list_all (visit_ok P E c) vs \<and>
    (err = None \<longrightarrow> map fst vs = ids \<and> docker_log w' = docker_log w @ visitCommands c vs)"
  using assms
proof (induction ids arbitrary: r w w')
  case Nil
  then show ?case by (intro exI [of _ "[]"] exI [of _ None]) simp
next
  case (Cons imageID ids)
  obtain x w1 where x: "dockerOutput E ''restart: docker ps'' (psArgs c imageID) w = (x, w1)" by (rule prod.exhaust)
  show ?case
  proof (cases x)
    case (Inl e)
    then have "r = Inr ([], Some e)" using Cons.prems x by (simp add: bindM_def attemptM_def)
    then show ?thesis by (intro exI [of _ "[]"] exI [of _ "Some e"]) simp
  next
    case (Inr out)
    note log1 = dockerOutput_run [OF x]
    obtain y w2 where y: "restart_lines P E c imageID (psLines out) w1 = (y, w2)" by (rule prod.exhaust)
    obtain xs where xs: "y = Inr (map fst xs)" "docker_log w2 = docker_log w1 @ concat (map snd xs)"
      "list_all2 (served c imageID) (filter (wantedLine P c) (psLines out)) xs"
      using restart_lines_log [OF y] by blast
    obtain z w3 where z: "restart_images P E c ids w2 = (z, w3)" by (rule prod.exhaust)
    obtain vs err where vs: "z = Inr (visitRecords vs, err)" "list_all (visit_ok P E c) vs"
      "err = None \<longrightarrow> map fst vs = ids \<and> docker_log w3 = docker_log w2 @ visitCommands c vs"
      using Cons.IH [OF z] by blast
    have r: "r = Inr (map fst xs @ visitRecords vs, err)" "w' = w3"
      using Cons.prems x y z Inr xs(1) vs(1) by (simp_all add: bindM_def attemptM_def ret_def)
    have "visit_ok P E c (imageID, xs)"
      unfolding visit_ok_def fst_conv snd_conv using log1 Inr xs(3) by blast
    then show ?thesis
      using r log1 xs(2) vs(2,3) by (intro exI [of _ "(imageID, xs) # vs"] exI [of _ err]) simp
  qed
qed

lemma fWrite_ok: "fWrite E p b w = (Inr u, w') \<Longrightarrow> p \<noteq> [] \<Longrightarrow>
    \<exists>old m. lookup w p = Some (FileN old m) \<and> lookup w' p = Some (FileN (old @ b) m)"
  by (auto simp: fWrite_def Let_def split: option.splits node.splits if_splits)

lemma osWriteFile_ok:
  assumes "osWriteFile E p b w = (Inr u, w')" and "p \<noteq> []"
  shows "file_bytes w' p = Some b"
proof -
  obtain u1 w1 u2 w2 where c: "osCreate E p w = (Inr u1, w1)" and f: "fWrite E p b w1 = (Inr u2, w2)" and cl: "fClose E p w2 = (Inr u, w')"
    using assms(1) by (auto simp: osWriteFile_def elim!: bindM_okE)
  have "\<exists>m. lookup w1 p = Some (FileN [] m)"
    using c assms(2) by (auto simp: osCreate_def prim_def Let_def split: if_splits option.splits node.splits)
  then obtain m where "lookup w2 p = Some (FileN b m)" using fWrite_ok [OF f assms(2)] by auto
  moreover have "lookup w' = lookup w2" using cl by (auto simp: fClose_def prim_def Let_def fun_eq_iff split: if_splits)
  ultimately show ?thesis by (simp add: file_bytes_def)
qed


section \<open>Witnesses\<close>

definition demo_conf :: conf_prims where
  "demo_conf = notify_prims.extend (hub_prims.extend demo_hub (notify_prims.fields (\<lambda>_. [1])))
     (conf_prims.fields (\<lambda>_ _. Some True) (\<lambda>_. Inl (Msg ''yaml'')) (\<lambda>_. [7]) (\<lambda>_. ''r'') (\<lambda>_. ''e''))"

definition demo_client :: client_config where
  "demo_client = \<lparr>ccHubTLS = zero_config, ccOrigin = ''https://h'', ccManifest = ''https://h/m'', ccPubKey = ''k'', ccStateDir = ''s'',
     ccDeviceID = [], ccAllowHTTP = False, ccWorkers = 0, ccAction = ActionRestart, ccAllow = [], ccIgnore = [], ccMaxReleases = 0,
     ccNotifiers = [], ccRestart = \<lparr>rsDockerCLI = ''docker'', rsInclude = [], rsExclude = [], rsStopTimeout = 10\<rparr>\<rparr>"

definition demo_docker :: env where
  "demo_docker = (env_fail_at 0)\<lparr>io_fails := \<lambda>_. False,
     docker_reply := \<lambda>_ args. (if args ! 1 = ''ps'' then ''c1 web img'' else [], True)\<rparr>"

theorem Act_docker_gate_witness:
  "docker_log (fst (snd (Act demo_conf demo_docker \<lparr>rnConfig = demo_client\<lparr>ccAction := ActionDryRun\<rparr>, rnWrites = True\<rparr>
     \<lparr>srRelease = ''r1'', srImageIDs = [''sha256:aa''], srArtifact = ''a'', srPhase = ''staged''\<rparr>
     (empty_world, \<lparr>rvEvents = [], rvNotify = None\<rparr>)))) = []"
proof -
  let ?R = "\<lparr>rnConfig = demo_client\<lparr>ccAction := ActionDryRun\<rparr>, rnWrites = True\<rparr>"
  let ?so = "\<lparr>srRelease = ''r1'', srImageIDs = [''sha256:aa''], srArtifact = ''a'', srPhase = ''staged''\<rparr>"
  obtain r w' v' where run: "Act demo_conf demo_docker ?R ?so (empty_world, \<lparr>rvEvents = [], rvNotify = None\<rparr>) = (r, w', v')"
    by (rule prod_cases3)
  from conjunct2 [OF Act_docker_gate [OF run]] have "w' = empty_world" by (simp add: ActionRestart_def ActionDryRun_def)
  then have "docker_log w' = []" by (simp add: empty_world_def)
  then show ?thesis by (simp only: run fst_conv snd_conv)
qed


section \<open>Accepted configurations\<close>

text \<open>What the rest of the program takes for granted of a configuration.\<close>

definition wf_conf :: "'x conf_prims_scheme \<Rightarrow> client_config \<Rightarrow> bool" where
  "wf_conf P c \<longleftrightarrow> ccOrigin c \<noteq> [] \<and> ccManifest c \<noteq> [] \<and> ccPubKey c \<noteq> [] \<and> ccStateDir c \<noteq> []
     \<and> ccAction c \<in> {ActionDryRun, ActionLoad, ActionRestart}
     \<and> list_all (confCompiles P) [ccAllow c, ccIgnore c, rsInclude (ccRestart c), rsExclude (ccRestart c)]
     \<and> rsDockerCLI (ccRestart c) \<noteq> [] \<and> rsStopTimeout (ccRestart c) \<noteq> 0 \<and> 0 \<le> ccWorkers c \<and> 0 \<le> ccMaxReleases c"

text \<open>Whether a pattern compiles does not depend on the text it is matched with.\<close>

definition regex_law :: "'x conf_prims_scheme \<Rightarrow> bool" where
  "regex_law P \<longleftrightarrow> (\<forall>re s t. (confRegex P re s = None) = (confRegex P re t = None))"

definition matches :: "'x conf_prims_scheme \<Rightarrow> string \<Rightarrow> string \<Rightarrow> bool" where
  "matches P re s \<longleftrightarrow> confRegex P re s = Some True"

lemma defaultRestart_sel:
  "ccOrigin (defaultRestart c) = ccOrigin c" "ccManifest (defaultRestart c) = ccManifest c" "ccPubKey (defaultRestart c) = ccPubKey c"
  "ccStateDir (defaultRestart c) = ccStateDir c" "ccAction (defaultRestart c) = ccAction c" "ccAllow (defaultRestart c) = ccAllow c"
  "ccIgnore (defaultRestart c) = ccIgnore c" "ccWorkers (defaultRestart c) = ccWorkers c" "ccMaxReleases (defaultRestart c) = ccMaxReleases c"
  "rsInclude (ccRestart (defaultRestart c)) = rsInclude (ccRestart c)" "rsExclude (ccRestart (defaultRestart c)) = rsExclude (ccRestart c)"
  "rsDockerCLI (ccRestart (defaultRestart c)) \<noteq> []" "rsStopTimeout (ccRestart (defaultRestart c)) \<noteq> 0"
  by (simp_all add: defaultRestart_def Let_def)

lemma defaultAction_ok:
  "defaultAction c = Inr c1 \<Longrightarrow> c1 = c\<lparr>ccAction := ccAction c1\<rparr> \<and> ccAction c1 \<in> {ActionDryRun, ActionLoad, ActionRestart}"
  by (auto simp: defaultAction_def split: if_splits)

lemma confParse_wf:
  assumes "confParse P b = Inr c"
  shows "wf_conf P c"
proof -
  from assms obtain c0 c1 where c0: "ccOrigin c0 \<noteq> []" "ccManifest c0 \<noteq> []" "ccPubKey c0 \<noteq> []" "ccStateDir c0 \<noteq> []"
    and c1: "defaultAction c0 = Inr c1" "list_all (confCompiles P) [ccAllow c1, ccIgnore c1, rsInclude (ccRestart c1), rsExclude (ccRestart c1)]"
    and c: "0 \<le> ccWorkers c" "0 \<le> ccMaxReleases c" "c = defaultRestart c1"
    by (auto simp: confParse_def bindR_Inr_iff Let_def not_less)
  have "c1 = c0\<lparr>ccAction := ccAction c1\<rparr>" "ccAction c1 \<in> {ActionDryRun, ActionLoad, ActionRestart}"
    using defaultAction_ok [OF c1(1)] by auto
  moreover from this(1) have "ccOrigin c1 = ccOrigin c0" "ccManifest c1 = ccManifest c0" "ccPubKey c1 = ccPubKey c0" "ccStateDir c1 = ccStateDir c0"
    by (metis client_config.ext_inject client_config.surjective client_config.update_convs(9))+
  ultimately show ?thesis using c0 c1(2) c unfolding wf_conf_def by (simp add: defaultRestart_sel)
qed

lemma wf_conf_fixed:
  assumes "wf_conf P c" and "yamlClient P b = Inr c"
  shows "confParse P b = Inr c"
  using assms
  by (auto simp: wf_conf_def confParse_def bindR_Inr_iff defaultAction_def defaultRestart_def Let_def
      ActionDryRun_def ActionLoad_def ActionRestart_def)

lemma Eligible_wf:
  assumes "wf_conf P c" and "regex_law P"
  shows "Eligible P c rel \<longleftrightarrow> \<not> (ccIgnore c \<noteq> [] \<and> matches P (ccIgnore c) rel) \<and> (ccAllow c = [] \<or> matches P (ccAllow c) rel)"
  using assms by (auto simp: Eligible_def matches_def split: option.splits)

lemma restart_images_ps:
  assumes "restart_images P E c (i # ids) w = (r, w')"
  shows "\<exists>cmds. docker_log w' = docker_log w @ psArgs c i # cmds"
proof -
  obtain x w1 where x: "dockerOutput E ''restart: docker ps'' (psArgs c i) w = (x, w1)" by (rule prod.exhaust)
  let ?k = "\<lambda>x. case x of Inl e \<Rightarrow> ret ([], Some e)
     | Inr out \<Rightarrow> bindM (restart_lines P E c i (psLines out)) (\<lambda>recs.
                   bindM (restart_images P E c ids) (\<lambda>(more, err). ret (recs @ more, err)))"
  have all: "steps (issues (\<lambda>_. True)) (restart_images P E c ids)"
    using issues_restart_images [OF order_refl, of P E c ids] by (force simp: steps_def issues_def list_all_iff)
  have "steps (issues (\<lambda>_. True)) (?k x)"
    by (intro issue.steps_rules issues_restart_lines all) simp
  moreover have "?k x w1 = (r, w')"
    using assms x by (simp add: bindM_def attemptM_def)
  ultimately have "issues (\<lambda>_. True) w1 w'" by (rule stepsD)
  then obtain cmds where "docker_log w' = docker_log w1 @ cmds" by (auto simp: issues_def)
  then show ?thesis using dockerOutput_run [OF x] by simp
qed

lemma restart_asks_first:
  assumes "RestartMatching P E c ids w = (r, w')" and "wf_conf P c" and "ids \<noteq> []"
  shows "\<exists>cmds. docker_log w' = docker_log w @ psArgs c (hd ids) # cmds"
proof -
  obtain x w1 where x: "restart_images P E c ids w = (x, w1)" by (rule prod.exhaust)
  obtain i ids' where ids: "ids = i # ids'" using assms(3) by (cases ids) auto
  have "confCompiles P (rsInclude (ccRestart c))" "confCompiles P (rsExclude (ccRestart c))" using assms(2) by (auto simp: wf_conf_def)
  moreover have "docker_log u = docker_log w1" if "WriteAudit P E c records w1 = (y, u)" for y u records
    using stepsD [OF issues_WriteAudit [of "\<lambda>_. False"] that] by (auto simp: issues_def list_all_iff)
  ultimately have "docker_log w' = docker_log w1"
    using assms(1) x by (auto simp: RestartMatching_def bindM_def attemptM_def ret_def split: if_splits option.splits sum.splits prod.splits)
  then show ?thesis using restart_images_ps x unfolding ids by force
qed

lemma restart_returns:
  assumes "RestartMatching P E c ids w = (r, w')"
  shows "\<exists>recs err. r = Inr (recs, err)"
proof -
  obtain x w1 where x: "restart_images P E c ids w = (x, w1)" by (rule prod.exhaust)
  obtain recs err where "x = Inr (recs, err)" using restart_images_log [OF x] by blast
  with assms x show ?thesis
    by (auto simp: RestartMatching_def bindM_def attemptM_def ret_def split: if_splits option.splits sum.splits prod.splits)
qed

lemma event_run: "\<exists>g. \<forall>k d u v. runnerEvent R k d (u, v) = (Inr (), u, g k d v)"
  unfolding runnerEvent_def modS_def fst_conv snd_conv
  by (rule exI, intro allI) (rule refl)

lemma Act_total:
  assumes "wf_conf P c" and "rnConfig R = c"
  shows "\<exists>p err w' v'. Act P E R so (w, v) = (Inr (p, err), w', v')
         \<and> (err \<noteq> None \<longrightarrow> ccAction c = ActionRestart \<and> srPhase so = ''loaded'' \<and> Eligible P c (srRelease so)
              \<and> (srImageIDs so = [] \<or> (\<exists>cmds. docker_log w' = docker_log w @ psArgs c (hd (srImageIDs so)) # cmds)))"
proof -
  obtain x w1 where x: "RestartMatching P E c (srImageIDs so) w = (x, w1)" by (rule prod.exhaust)
  obtain recs err where r: "x = Inr (recs, err)" using restart_returns [OF x] by blast
  have asks: "srImageIDs so = [] \<or> (\<exists>cmds. docker_log w1 = docker_log w @ psArgs c (hd (srImageIDs so)) # cmds)"
    using restart_asks_first [OF x assms(1)] by blast
  obtain g where ev: "\<And>k d u v. runnerEvent R k d (u, v) = (Inr (), u, g k d v)" using event_run by blast
  have "ccAction c \<in> {ActionDryRun, ActionLoad, ActionRestart}" using assms(1) by (simp add: wf_conf_def)
  then show ?thesis using assms(2) x r asks
    by (cases err) (auto simp: Act_def Let_def bindM_def onFst_def ret_def ActionDryRun_def ActionLoad_def ActionRestart_def
        ev split: prod.splits)
qed

text \<open>C12. A configuration that \<open>Parse\<close> accepts is well-formed, its defaults are a fixed point, and nothing it says goes wrong
  later: the patterns mean what they match, the action is a known one, and \<open>Act\<close> fails only in a restart after a
  completed load, for a manifest without image IDs or after Docker was asked.\<close>

theorem Config_well_typed:
  assumes "confParse P b = Inr c" and "regex_law P"
  shows "wf_conf P c \<and> (\<forall>b'. yamlClient P b' = Inr c \<longrightarrow> confParse P b' = Inr c)
    \<and> (\<forall>rel. Eligible P c rel \<longleftrightarrow> \<not> (ccIgnore c \<noteq> [] \<and> matches P (ccIgnore c) rel) \<and> (ccAllow c = [] \<or> matches P (ccAllow c) rel))
    \<and> (\<forall>E R so w v. rnConfig R = c \<longrightarrow> (\<exists>p err w' v'. Act P E R so (w, v) = (Inr (p, err), w', v')
         \<and> (err \<noteq> None \<longrightarrow> ccAction c = ActionRestart \<and> srPhase so = ''loaded'' \<and> Eligible P c (srRelease so)
              \<and> (srImageIDs so = [] \<or> (\<exists>cmds. docker_log w' = docker_log w @ psArgs c (hd (srImageIDs so)) # cmds)))))"
proof -
  have wf: "wf_conf P c" by (rule confParse_wf [OF assms(1)])
  have act: "\<exists>p err w' v'. Act P E R so (w, v) = (Inr (p, err), w', v')
         \<and> (err \<noteq> None \<longrightarrow> ccAction c = ActionRestart \<and> srPhase so = ''loaded'' \<and> Eligible P c (srRelease so)
              \<and> (srImageIDs so = [] \<or> (\<exists>cmds. docker_log w' = docker_log w @ psArgs c (hd (srImageIDs so)) # cmds)))"
    if R: "rnConfig R = c" for E R so w v
    using wf R by (rule Act_total)
  show ?thesis using wf wf_conf_fixed [OF wf] Eligible_wf [OF wf assms(2)] act by blast
qed

theorem Config_well_typed_witness:
  "\<exists>c. confParse (demo_conf\<lparr>yamlClient := \<lambda>_. Inr (demo_client\<lparr>ccAction := [], ccIgnore := ''x''\<rparr>)\<rparr>) [] = Inr c
     \<and> ccAction c = ActionDryRun \<and> \<not> Eligible (demo_conf\<lparr>yamlClient := \<lambda>_. Inr (demo_client\<lparr>ccAction := [], ccIgnore := ''x''\<rparr>)\<rparr>) c ''r1''"
proof -
  let ?d = "demo_client\<lparr>ccAction := [], ccIgnore := ''x''\<rparr>" and ?c = "demo_client\<lparr>ccAction := ActionDryRun, ccIgnore := ''x''\<rparr>"
  let ?P = "demo_conf\<lparr>yamlClient := \<lambda>_. Inr ?d\<rparr>"
  have rx: "confRegex demo_conf re s = Some True" for re s by (simp add: demo_conf_def notify_prims.defs hub_prims.defs conf_prims.defs demo_hub_def prims.defs)
  then have parse: "confParse ?P [] = Inr ?c"
    by (simp add: confParse_def defaultAction_def defaultRestart_def confCompiles_def demo_client_def Let_def)
  have "regex_law ?P" by (simp add: regex_law_def rx)
  from Config_well_typed [OF parse this] have "Eligible ?P ?c ''r1'' \<longleftrightarrow> \<not> (ccIgnore ?c \<noteq> [] \<and> matches ?P (ccIgnore ?c) ''r1'')
      \<and> (ccAllow ?c = [] \<or> matches ?P (ccAllow ?c) ''r1'')" by blast
  then have "\<not> Eligible ?P ?c ''r1''" by (simp add: matches_def rx)
  with parse show ?thesis by (intro exI [of _ ?c]) simp
qed

end
