(* ===== verification/Conf.thy ===== *)
theory Conf
  imports SyncRun ClientConf "HOL-Library.Char_ord" "HOL-Library.List_Lexorder"
begin

text \<open>
  The command \<open>edgelab conf\<close>, \<open>src/cmd/edgelab/conf.go\<close>: fetch and verify the manifest, gate the release, run the
  agent, act on the result. It composes the configuration, the agent and the restart runner.
\<close>

section \<open>Model\<close>

definition confHTTPGet :: "'x agent_prims_scheme \<Rightarrow> env \<Rightarrow> agent_options \<Rightarrow> string \<Rightarrow> http_response io" where
  "confHTTPGet P E o' raw =
     bindM (liftR (urlParse P raw)) (\<lambda>u.
     bindM (guardM (\<not> (uHost u = [] \<or> uUser u \<noteq> None \<or> uRawQuery u \<noteq> [] \<or> uFragment u \<noteq> []))
             (Msg ''URLs require a host and must not include credentials, query or fragment'')) (\<lambda>_.
     bindM (guardM (\<not> (uScheme u \<noteq> ''https'' \<and> \<not> (uScheme u = ''http'' \<and> oAllowHTTP o')))
             (Msg ''HTTPS required; allow_http is for an isolated lab only'')) (\<lambda>_.
     bindM (New P E (oHubTLS o')) (\<lambda>cl.
     bindM (hubDo P E cl \<lparr>rqMethod = ''GET'', rqURL = raw, rqHeaders = [], rqBody = []\<rparr>) (\<lambda>rs.
     bindM (guardM (rsStatus rs = 200) (HTTPStatus (rsStatus rs))) (\<lambda>_. ret rs))))))"

text \<open>\<open>io.ReadAll\<close> of at most one byte more than a manifest may have.\<close>

definition readManifestBody :: "http_response \<Rightarrow> bytes result" where
  "readManifestBody rs = (let n = nat (MaxManifestBytes + 1) in
     if length (rsBody rs) < n \<and> rsBroken rs then Inl TransportError else Inr (take n (rsBody rs)))"

definition fetchVerifiedManifest :: "'x agent_prims_scheme \<Rightarrow> env \<Rightarrow> agent_options \<Rightarrow> int \<Rightarrow> manifest io" where
  "fetchVerifiedManifest P E o' maxArtifact =
     bindM (attemptM (confHTTPGet P E o' (oManifestURL o'))) (\<lambda>x. case x of
       Inl e \<Rightarrow> throw (Wrap ''manifest fetch'' e)
     | Inr rs \<Rightarrow>
         bindM (liftR (readManifestBody rs)) (\<lambda>data.
         bindM (guardM (\<not> int (length data) > MaxManifestBytes) (Msg ''manifest exceeds limit'')) (\<lambda>_.
         bindM (attemptM (ReadKey E (oPublicKey o') PublicKeySize)) (\<lambda>k. case k of
           Inl e \<Rightarrow> throw (Wrap ''pinned public key'' e)
         | Inr pub \<Rightarrow> bindM (liftR (Verify P data pub maxArtifact)) (\<lambda>(m, _). ret m)))))"

definition overlayHubTLS :: "hub_config \<Rightarrow> hub_config \<Rightarrow> hub_config" where
  "overlayHubTLS dst flags =
     (let d1 = (if hcCA flags \<noteq> [] then dst\<lparr>hcCA := hcCA flags\<rparr> else dst);
          d2 = (if hcClientCert flags \<noteq> [] then d1\<lparr>hcClientCert := hcClientCert flags\<rparr> else d1)
      in if hcClientKey flags \<noteq> [] then d2\<lparr>hcClientKey := hcClientKey flags\<rparr> else d2)"

definition confOptions :: "client_config \<Rightarrow> hub_config \<Rightarrow> int \<Rightarrow> agent_options" where
  "confOptions cfg tls maxArtifact = (let o' = LoadOptions cfg DefaultAgentOptions in
     o'\<lparr>oHubTLS := overlayHubTLS (oHubTLS o') tls, oEvents := True, oMaxArtifact := maxArtifact\<rparr>)"

fun buildNotifiers :: "(string \<Rightarrow> string option) \<Rightarrow> notifier_config list \<Rightarrow> notifier list result" where
  "buildNotifiers env [] = Inr []"
| "buildNotifiers env (n # ns) =
     bindR (if lower (ncType n) = ''telegram'' then
              (case env (ncTokenEnv n) of Some (t # ts) \<Rightarrow> Inr (NewTelegram (t # ts) (ncChatID n))
               | _ \<Rightarrow> Inl (Msg ''notifier telegram: env is not set''))
            else if lower (ncType n) = ''slack'' then
              (case env (ncWebhookEnv n) of Some (t # ts) \<Rightarrow> Inr (Slack (t # ts))
               | _ \<Rightarrow> Inl (Msg ''notifier slack: env is not set''))
            else Inl (Msg ''notifier type not supported (telegram|slack)'')) (\<lambda>x.
     bindR (buildNotifiers env ns) (\<lambda>xs. Inr (x # xs)))"

definition pathText :: "path \<Rightarrow> string" where
  "pathText p = concat (map (\<lambda>c. CHR ''/'' # c) p)"

text \<open>\<open>lab.Sync\<close> as a caller sees it: the summary or an error.\<close>

definition fresh_vars :: vars where
  "fresh_vars = \<lparr>vEnvelope = [], vProg = zero_progress, vTel = None, vSum = zero_summary, vEvents = []\<rparr>"

definition syncIO :: "'x agent_prims_scheme \<Rightarrow> env \<Rightarrow> nat \<Rightarrow> agent_options \<Rightarrow> summary io" where
  "syncIO P E fuel o' w = (case Sync P E fuel o' (w, fresh_vars) of
     (Inl e, w', _) \<Rightarrow> (Inl e, w') | (Inr _, w', v) \<Rightarrow> (Inr (vSum v), w'))"

definition SortPlans :: "plan list \<Rightarrow> plan list" where
  "SortPlans ps = sort_key plRelease ps"

text \<open>The body, from the verified manifest on: gate, run, act. The plans are what is printed.\<close>

definition confAct :: "'x conf_prims_scheme \<Rightarrow> 'y agent_prims_scheme \<Rightarrow> env \<Rightarrow> nat \<Rightarrow> client_config \<Rightarrow> agent_options \<Rightarrow> manifest \<Rightarrow>
    plan list rn" where
  "confAct P A E fuel cfg o' m =
     (let o2 = o'\<lparr>oDockerLoad := ccAction cfg \<noteq> ActionDryRun\<rparr> in
      bindM (onFst (attemptM (syncIO A E fuel o2))) (\<lambda>x. case x of
        Inl e \<Rightarrow> bindM (onFst (attemptM (WriteAudit P E cfg []))) (\<lambda>_. throw (Wrap (''sync '' @ mRelease m) e))
      | Inr s \<Rightarrow>
          bindM (onFst (WriteSummary A E (oStateDir o2) s)) (\<lambda>_.
          bindM (Act P E \<lparr>rnConfig = cfg, rnWrites = True\<rparr> \<lparr>srRelease = mRelease m, srImageIDs = mImageIDs m,
                   srArtifact = pathText (suArtifact s), srPhase = suPhase s\<rparr>) (\<lambda>(p, err). case err of
            Some e \<Rightarrow> throw e
          | None \<Rightarrow> ret (SortPlans [p])))))"

definition confBody :: "'x conf_prims_scheme \<Rightarrow> 'y agent_prims_scheme \<Rightarrow> env \<Rightarrow> nat \<Rightarrow> client_config \<Rightarrow> agent_options \<Rightarrow> plan list rn" where
  "confBody P A E fuel cfg o' =
     bindM (onFst (fetchVerifiedManifest A E o' (oMaxArtifact o'))) (\<lambda>m.
     if \<not> Eligible P cfg (mRelease m) then
       ret (SortPlans [\<lparr>plRelease = mRelease m, plEligible = False, plAction = ccAction cfg, plWouldDo = [],
              plReason = ''release filtered by allow/ignore (gated before download)''\<rparr>])
     else confAct P A E fuel cfg o' m)"

text \<open>The whole command: the configuration file, the size limit in GiB and the TLS flags.\<close>

definition runConf :: "'x conf_prims_scheme \<Rightarrow> 'y agent_prims_scheme \<Rightarrow> env \<Rightarrow> nat \<Rightarrow> (string \<Rightarrow> string option) \<Rightarrow> path \<Rightarrow> int \<Rightarrow>
    hub_config \<Rightarrow> world \<Rightarrow> plan list result \<times> world \<times> runner_vars" where
  "runConf P A E fuel env cfgPath maxGib tls w =
     (if cfgPath = [] then (Inl (Msg ''conf: -config is required''), w, \<lparr>rvEvents = [], rvNotify = None\<rparr>)
      else case confLoad P E cfgPath w of
        (Inl e, w1) \<Rightarrow> (Inl e, w1, \<lparr>rvEvents = [], rvNotify = None\<rparr>)
      | (Inr cfg, w1) \<Rightarrow>
          (case (if ccNotifiers cfg = [] then Inr None else bindR (buildNotifiers env (ccNotifiers cfg)) (\<lambda>ns. Inr (Some (NewDispatcher 64 (map notifierName ns))))) of
             Inl e \<Rightarrow> (Inl e, w1, \<lparr>rvEvents = [], rvNotify = None\<rparr>)
           | Inr disp \<Rightarrow>
               (case confBody P A E fuel cfg (confOptions cfg tls (wrap64 (maxGib * 2 ^ 30))) (w1, \<lparr>rvEvents = [], rvNotify = disp\<rparr>) of
                  (r, w2, v) \<Rightarrow> (r, w2, v\<lparr>rvNotify := map_option closeDispatcher (rvNotify v)\<rparr>))))"

section \<open>Effects\<close>

lemma steps_hubDo_still: "steps (only_at (\<lambda>_. False)) (hubDo P E cl rq)"
  unfolding hubDo_def RoundTrip_def by (intro frame.steps_rules steps_quiet)

lemma steps_New_still: "steps (only_at (\<lambda>_. False)) (New P E c)"
  unfolding New_def TLSConfig_def loadCA_def loadPair_def mapErr_def
  by (intro frame.steps_rules steps_quiet)

lemma fetch_still: "steps (only_at (\<lambda>_. False)) (fetchVerifiedManifest P E o' n)"
  unfolding fetchVerifiedManifest_def confHTTPGet_def ReadKey_def
  by (intro frame.steps_rules steps_quiet steps_hubDo_still steps_New_still)

lemma fetch_log: "steps same_log (fetchVerifiedManifest P E o' n)"
  unfolding fetchVerifiedManifest_def confHTTPGet_def ReadKey_def New_def TLSConfig_def loadCA_def loadPair_def mapErr_def
  by (intro log_rules log_hubDo)

lemma fetch_ok:
  assumes "fetchVerifiedManifest P E o' n w = (Inr m, w')"
  shows "\<exists>envelope pub dg. Verify P envelope pub n = Inr (m, dg) \<and> trusted_key o' w pub"
proof -
  obtain x w1 where x: "confHTTPGet P E o' (oManifestURL o') w = (x, w1)" by (rule prod.exhaust)
  obtain rs where rs: "x = Inr rs"
    using assms x by (cases x) (auto simp: fetchVerifiedManifest_def bindM_def attemptM_def)
  note g = x [unfolded rs]
  from assms x rs obtain y w3 data w2 where y: "ReadKey E (oPublicKey o') PublicKeySize w1 = (y, w3)"
    and rest: "(case y of Inl e \<Rightarrow> throw (Wrap ''pinned public key'' e)
       | Inr pub \<Rightarrow> bindM (liftR (Verify P data pub n)) (\<lambda>(m, _). ret m)) w3 = (Inr m, w2)"
    by (auto simp: fetchVerifiedManifest_def bindM_def [of "attemptM (confHTTPGet P E o' (oManifestURL o'))"] attemptM_run
        attemptM_def [of "confHTTPGet P E o' (oManifestURL o')"] elim!: bindM_okE)
  from rest obtain pub where pub: "y = Inr pub" and v: "\<exists>dg. Verify P data pub n = Inr (m, dg)"
    by (cases y) (auto elim!: bindM_okE, metis)
  note k = y [unfolded pub]
  have "steps (only_at (\<lambda>_. False)) (confHTTPGet P E o' (oManifestURL o'))"
    unfolding confHTTPGet_def by (intro frame.steps_rules steps_quiet steps_hubDo_still steps_New_still)
  from stepsD [OF this g] have "lookup w1 = lookup w" by (auto simp: only_at_def)
  then have "trusted_key o' w pub"
    using ReadKey_run [OF k] by (auto simp: trusted_key_def file_bytes_def)
  with v show ?thesis by blast
qed

text \<open>One request at most, for the manifest.\<close>

definition asks_only :: "string \<Rightarrow> world \<Rightarrow> world \<Rightarrow> bool" where
  "asks_only u w w' \<longleftrightarrow> (\<exists>rqs. sent w' = sent w @ rqs \<and> list_all (\<lambda>rq. rqURL rq = u) rqs)"

interpretation asks: effect_order "asks_only u" for u
proof
  show "asks_only u s s" for s by (auto simp: asks_only_def)
  fix s t v assume "asks_only u s t" "asks_only u t v"
  then obtain a b where "sent t = sent s @ a" "sent v = sent t @ b" "list_all (\<lambda>rq. rqURL rq = u) a" "list_all (\<lambda>rq. rqURL rq = u) b"
    unfolding asks_only_def by blast
  then show "asks_only u s v" unfolding asks_only_def by (intro exI [of _ "a @ b"]) simp
qed

lemma asks_prims: "steps (asks_only u) (osStat E p)" "steps (asks_only u) (osReadFile E p)"
  by (auto simp: steps_def prim_defs Let_def asks_only_def split: option.splits node.splits)

lemma only_asks_fetch: "steps (asks_only (oManifestURL o')) (fetchVerifiedManifest P E o' n)"
proof -
  have "steps (asks_only (rqURL rq)) (hubDo P E cl rq)" for cl rq
    by (rule stepsI) (auto simp: asks_only_def dest: hubDo_sent)
  from this [of "\<lparr>rqMethod = _, rqURL = u, rqHeaders = _, rqBody = _\<rparr>" for u] show ?thesis
    unfolding fetchVerifiedManifest_def confHTTPGet_def ReadKey_def New_def TLSConfig_def loadCA_def loadPair_def mapErr_def
    by (intro asks.steps_rules asks_prims) simp
qed

section \<open>Properties\<close>

lemma syncIO_gate:
  assumes "syncIO A E fuel o' w = (r, w')" and "state_dir_ok o'"
  shows "docker_log w' = docker_log w \<or> oDockerLoad o' \<and> (\<exists>m dg more. signed_release A o' w m dg \<and> mKind m = ''docker-archive''
     \<and> docker_log w' = docker_log w @ loadArgs (stagedPath o' m) # more)"
proof -
  have "w' = fst (snd (Sync A E fuel o' (w, fresh_vars)))"
    using assms(1) by (auto simp: syncIO_def split: prod.splits sum.splits)
  with Sync_outcome [OF assms(2), of A E "(w, fresh_vars)" fuel] show ?thesis
    by (fastforce simp: run_ok_def gate_def prefix_def)
qed

lemma WriteSummary_log: "WriteSummary A E d s w = (r, w') \<Longrightarrow> docker_log w' = docker_log w"
proof -
  have "steps same_log (WriteSummary A E d s)"
    unfolding WriteSummary_def by (intro log_rules log_AtomicWrite)
  then show "WriteSummary A E d s w = (r, w') \<Longrightarrow> docker_log w' = docker_log w" by (auto simp: same_log_def dest: stepsD)
qed

lemma confAct_gate:
  assumes run: "confAct P A E fuel cfg o' m (w, v) = (r, w', v')" and ok: "state_dir_ok o'" and el: "Eligible P cfg (mRelease m)"
  shows "\<exists>load restart. docker_log w' = docker_log w @ load @ restart
    \<and> (load \<noteq> [] \<longrightarrow> ccAction cfg \<noteq> ActionDryRun \<and> (\<exists>m2 dg2 more. signed_release A o' w m2 dg2 \<and> mKind m2 = ''docker-archive''
         \<and> load = loadArgs (stagedPath o' m2) # more))
    \<and> (restart \<noteq> [] \<longrightarrow> ccAction cfg = ActionRestart \<and> list_all (restart_cmd P E cfg (mImageIDs m)) restart)"
proof -
  let ?o = "o'\<lparr>oDockerLoad := ccAction cfg \<noteq> ActionDryRun\<rparr>"
  have o: "state_dir_ok ?o" "signed_release A ?o w = signed_release A o' w" "stagedPath ?o = stagedPath o'"
    using ok by (simp_all add: state_dir_ok_def signed_release_def trusted_key_def stagedPath_def fun_eq_iff)
  obtain x w1 where s: "syncIO A E fuel ?o w = (x, w1)" by (rule prod.exhaust)
  obtain load where load: "docker_log w1 = docker_log w @ load" "load \<noteq> [] \<longrightarrow> ccAction cfg \<noteq> ActionDryRun
      \<and> (\<exists>m2 dg2 more. signed_release A o' w m2 dg2 \<and> mKind m2 = ''docker-archive'' \<and> load = loadArgs (stagedPath o' m2) # more)"
    using syncIO_gate [OF s o(1)] unfolding o(2,3) by (auto intro: that [of "[]"])
  have same: ?thesis if "docker_log w' = docker_log w1"
    using load that by (intro exI [of _ load] exI [of _ "[]"]) simp
  show ?thesis
  proof (cases x)
    case (Inl e)
    obtain y w2 where a: "WriteAudit P E cfg [] w1 = (y, w2)" by (rule prod.exhaust)
    have "w' = w2" using run s a Inl by (simp add: confAct_def Let_def bindM_def onFst_def attemptM_def throw_def)
    then show ?thesis
      using stepsD [OF issues_WriteAudit [of "\<lambda>_. False"] a] by (intro same) (auto simp: issues_def list_all_iff)
  next
    case (Inr sm)
    obtain y w2 where ws: "WriteSummary A E (oStateDir ?o) sm w1 = (y, w2)" by (rule prod.exhaust)
    have log2: "docker_log w2 = docker_log w1" by (rule WriteSummary_log [OF ws])
    show ?thesis
    proof (cases y)
      case no: (Inl e)
      have "w' = w2" using run s ws Inr no by (simp add: confAct_def Let_def bindM_def onFst_def attemptM_def)
      then show ?thesis using log2 same by simp
    next
      case yes: (Inr u)
      let ?so = "\<lparr>srRelease = mRelease m, srImageIDs = mImageIDs m, srArtifact = pathText (suArtifact sm), srPhase = suPhase sm\<rparr>"
      obtain z w3 v3 where act: "Act P E \<lparr>rnConfig = cfg, rnWrites = True\<rparr> ?so (w2, v) = (z, w3, v3)" by (rule prod_cases3)
      have "w' = w3" using run s ws act Inr yes
        by (cases z) (auto simp: confAct_def Let_def bindM_def onFst_def attemptM_def sm_run split: option.splits)
      moreover obtain restart where "docker_log w3 = docker_log w2 @ restart" "list_all (restart_cmd P E cfg (mImageIDs m)) restart"
        "restart \<noteq> [] \<longrightarrow> ccAction cfg = ActionRestart"
        using Act_gate [OF act] by auto
      ultimately show ?thesis using load log2 by (intro exI [of _ load] exI [of _ restart]) simp
    qed
  qed
qed

text \<open>C11. The gate of \<open>edgelab conf\<close>. Whatever happens, a release the configuration does not let through costs the manifest
  request and nothing else: no other URL is asked, no file changes, Docker is not called. Docker is called only
  when the action is not a dry run and the manifest fetched first verified under the pinned key and is eligible:
  first by the agent, to load the archive of a verified manifest, then, when the action is restart, by the runner,
  for containers of the signed image IDs of the manifest fetched first.\<close>

theorem Conf_gate:
  assumes run: "confBody P A E fuel cfg o' (w, v) = (r, w', v')" and ok: "state_dir_ok o'"
  shows "(\<exists>rqs. sent w' = sent w @ rqs \<and> list_all (\<lambda>rq. rqURL rq = oManifestURL o') rqs) \<and> lookup w' = lookup w \<and> docker_log w' = docker_log w
    \<or> (\<exists>m dg envelope pub load restart. Verify A envelope pub (oMaxArtifact o') = Inr (m, dg) \<and> trusted_key o' w pub \<and> Eligible P cfg (mRelease m)
        \<and> docker_log w' = docker_log w @ load @ restart
        \<and> (load \<noteq> [] \<longrightarrow> ccAction cfg \<noteq> ActionDryRun \<and> (\<exists>m2 dg2 more. signed_release A o' w m2 dg2 \<and> mKind m2 = ''docker-archive''
             \<and> load = loadArgs (stagedPath o' m2) # more))
        \<and> (restart \<noteq> [] \<longrightarrow> ccAction cfg = ActionRestart \<and> list_all (restart_cmd P E cfg (mImageIDs m)) restart))"
proof -
  obtain x w1 where x: "fetchVerifiedManifest A E o' (oMaxArtifact o') w = (x, w1)" by (rule prod.exhaust)
  have still: "(\<exists>rqs. sent w1 = sent w @ rqs \<and> list_all (\<lambda>rq. rqURL rq = oManifestURL o') rqs)" "lookup w1 = lookup w" "docker_log w1 = docker_log w"
    using stepsD [OF only_asks_fetch x] stepsD [OF fetch_still x] stepsD [OF fetch_log x]
    by (auto simp: asks_only_def only_at_def same_log_def)
  show ?thesis
  proof (cases "\<exists>m. x = Inr m \<and> Eligible P cfg (mRelease m)")
    case False
    then have "w' = w1" using run x by (cases x) (auto simp: confBody_def bindM_def onFst_def ret_def)
    then show ?thesis using still by blast
  next
    case True
    then obtain m where m: "x = Inr m" "Eligible P cfg (mRelease m)" by blast
    obtain envelope pub dg where v: "Verify A envelope pub (oMaxArtifact o') = Inr (m, dg)" "trusted_key o' w pub"
      using fetch_ok [OF x [unfolded m(1)]] by blast
    have act: "confAct P A E fuel cfg o' m (w1, v) = (r, w', v')"
      using run x m by (simp add: confBody_def bindM_def onFst_def)
    have "signed_release A o' w1 = signed_release A o' w"
      by (simp add: signed_release_def trusted_key_def file_bytes_def still(2) fun_eq_iff)
    note gate = confAct_gate [OF act ok m(2), unfolded this still(3)]
    show ?thesis by (rule disjI2) (use gate v m(2) in blast)
  qed
qed

theorem Conf_gate_witness:
  "docker_log (fst (snd (confBody demo_conf demo_agent_prims demo_docker 50 (demo_client\<lparr>ccAction := ActionDryRun\<rparr>) demo_options
     (empty_world, \<lparr>rvEvents = [], rvNotify = None\<rparr>)))) = []"
proof -
  let ?cfg = "demo_client\<lparr>ccAction := ActionDryRun\<rparr>"
  obtain r w' v' where run: "confBody demo_conf demo_agent_prims demo_docker 50 ?cfg demo_options (empty_world, \<lparr>rvEvents = [], rvNotify = None\<rparr>) = (r, w', v')"
    by (rule prod_cases3)
  have "docker_log empty_world = []" by (simp add: empty_world_def)
  moreover have "ActionDryRun \<noteq> ActionRestart" by (simp add: ActionRestart_def ActionDryRun_def)
  ultimately have "docker_log w' = []" using Conf_gate [OF run demo_state_dir(1)] by auto
  then show ?thesis by (simp only: run fst_conv snd_conv)
qed

end
