(* ===== verification/Publish.thy ===== *)
theory Publish
  imports Format
begin

text \<open>
  \<open>src/internal/lab/publish.go\<close>: a release is published by splitting the input, storing each
  compressed piece under its content address, signing the manifest, checking it the way a client
  will, and committing it under its immutable name last.
\<close>

section \<open>Model\<close>

record publish_options =
  poInput :: path
  poRoot :: path
  poKey :: path
  poRelease :: string
  poKind :: string
  poSource :: string
  poSequence :: u64
  poImageIDs :: "string list"
  poMin :: int
  poAvg :: int
  poMax :: int

definition start_manifest :: "publish_options \<Rightarrow> manifest" where
  "start_manifest o' = \<lparr>mVersion = FormatVersion, mRelease = poRelease o', mSequence = poSequence o',
     mKind = poKind o', mArtifactSHA256 = [], mArtifactSize = 0, mImageIDs = poImageIDs o', mSource = poSource o',
     mChunker = ''gear64-lab-v1'', mMin = poMin o', mAvg = poAvg o', mMax = poMax o', mChunks = []\<rparr>"

definition chunk_of :: "'x prims_scheme \<Rightarrow> bytes \<Rightarrow> chunk" where
  "chunk_of P raw = (let encoded = Encode P raw in
     \<lparr>cSHA256 = Hash raw, cSize = int (length raw), cEncodedSHA256 = Hash encoded,
      cEncodedSize = int (length encoded)\<rparr>)"

text \<open>The callback \<open>Publish\<close> hands to \<open>Split\<close>. Beside the world it works on the manifest being built.\<close>

definition publish_chunk :: "'x prims_scheme \<Rightarrow> env \<Rightarrow> path \<Rightarrow> bytes \<Rightarrow> (world \<times> manifest, unit) sm" where
  "publish_chunk P E root raw =
     (let encoded = Encode P raw; c = chunk_of P raw; p = Join root (BlobRel c) in
      bindM (onFst (FileHash E p)) (\<lambda>(existing, n, err).
      bindM (if err \<noteq> None \<or> existing \<noteq> cEncodedSHA256 c \<or> n \<noteq> cEncodedSize c
             then onFst (AtomicWrite E p encoded 420) else ret ()) (\<lambda>_.
      modS (\<lambda>m. m\<lparr>mChunks := mChunks m @ [c], mArtifactSize := wrap64 (mArtifactSize m + cSize c)\<rparr>))))"

definition releasePath :: "path \<Rightarrow> string \<Rightarrow> path" where
  "releasePath root rel = root @ [''releases'', rel @ ''.json'']"

definition Publish :: "'x prims_scheme \<Rightarrow> env \<Rightarrow> publish_options \<Rightarrow> (world \<times> manifest, manifest) sm" where
  "Publish P E o' =
     bindM (modS (\<lambda>_. start_manifest o')) (\<lambda>_.
     bindM (guardM (\<not> (\<not> safeRelease (poRelease o') \<or> poSequence o' = 0))
              (Msg ''invalid release or sequence'')) (\<lambda>_.
     bindM (onFst (ReadKey E (poKey o') PrivateKeySize)) (\<lambda>key.
     bindM (onFst (openRead E (poInput o'))) (\<lambda>(data, rerr).
     bindM (Split data rerr (poMin o') (poAvg o') (poMax o') (publish_chunk P E (poRoot o'))) (\<lambda>_.
     bindM (modS (\<lambda>m. m\<lparr>mArtifactSHA256 := Hash data\<rparr>)) (\<lambda>_.
     bindM getS (\<lambda>m.
     (let envelope = Sign P m key; p = releasePath (poRoot o') (poRelease o') in
      bindM (liftR (Verify P envelope (edPublic key) (2 ^ 50))) (\<lambda>_.
      bindM (onFst (attemptM (osReadFile E p))) (\<lambda>old.
      bindM (guardM (\<not> (case old of Inr b \<Rightarrow> b \<noteq> envelope | Inl _ \<Rightarrow> False))
              (Msg ''release name is immutable'')) (\<lambda>_.
      bindM (onFst (AtomicWrite E p envelope 420)) (\<lambda>_. ret m))))))))))))"

section \<open>Where things are stored\<close>

lemma chunk_of_sel [simp]:
  "cSHA256 (chunk_of P raw) = Hash raw" "cSize (chunk_of P raw) = int (length raw)"
  "cEncodedSHA256 (chunk_of P raw) = Hash (Encode P raw)"
  "cEncodedSize (chunk_of P raw) = int (length (Encode P raw))"
  by (simp_all add: chunk_of_def Let_def)

definition blobPath :: "path \<Rightarrow> string \<Rightarrow> path" where
  "blobPath root h = root @ [''chunks'', take 2 h, h @ ''.gz'']"

lemma Join_chunk_of [simp]: "Join root (BlobRel (chunk_of P raw)) = blobPath root (Hash (Encode P raw))"
  using Join_BlobRel [of "chunk_of P raw"] by (simp add: blobPath_def)

lemma blobPath_inj [simp]: "blobPath root a = blobPath root b \<longleftrightarrow> a = b"
  by (auto simp: blobPath_def)



lemma blobPath_ne [simp]: "blobPath root h \<noteq> []" "blobPath root h \<noteq> releasePath root r"
  by (simp_all add: blobPath_def releasePath_def)

lemma blobPath_not_temp [simp]: "hexDigest h \<Longrightarrow> \<not> is_temp (blobPath root h)"
  by (simp add: is_temp_def blobPath_def hexDigest_not_temp)

lemma releasePath_ne [simp]: "releasePath root r \<noteq> []" "releasePath root r \<noteq> blobPath root h"
  by (simp_all add: blobPath_def releasePath_def)

lemma releasePath_not_temp [simp]: "safeRelease r \<Longrightarrow> \<not> is_temp (releasePath root r)"
  by (auto simp: is_temp_def releasePath_def isTempName_def safeRelease_def isAlnum_def Let_def split: list.splits)

lemma releasePath_not_above_blob [simp]: "\<not> strict_prefix (releasePath root r) (blobPath root h)"
  by (auto simp: releasePath_def blobPath_def strict_prefix_def)

text \<open>A complete object under the content address \<open>h\<close>.\<close>

definition blob_at :: "path \<Rightarrow> string \<Rightarrow> world \<Rightarrow> bool" where
  "blob_at root h w \<longleftrightarrow> (\<exists>b m. lookup w (blobPath root h) = Some (FileN b m) \<and> Hash b = h)"

lemma blob_at_put:
  assumes "AtomicWrite E (blobPath root (Hash b)) b 420 w = (r, w')" and "blob_at root h w"
  shows "blob_at root h w'"
proof (cases "h = Hash b")
  case False
  then show ?thesis
    using assms AtomicWrite_other [OF assms(1), of "blobPath root h"] by (auto simp: blob_at_def)
next
  case True
  then show ?thesis
    using assms(2) AtomicWrite_run [OF _ _ assms(1)] by (auto simp: blob_at_def aw_effect_def)
qed

lemma blob_at_release:
  assumes "AtomicWrite E (releasePath root n) b 420 w = (r, w')" and "blob_at root h w" and "safeRelease n"
  shows "blob_at root h w'"
  using assms(2,3) AtomicWrite_other [OF assms(1), of "blobPath root h"] by (auto simp: blob_at_def)

lemma release_kept_by_blob:
  assumes "AtomicWrite E (blobPath root (Hash b)) b 420 w = (r, w')" and "safeRelease n"
  shows "lookup w' (releasePath root n) = lookup w (releasePath root n)"
  using AtomicWrite_frame [OF assms(1)] assms(2) by simp

lemma FileHash_ok:
  assumes "FileHash E p w = (Inr (h, n, err), w')"
  shows "lookup w' = lookup w" and "err = None \<Longrightarrow> \<exists>b m. lookup w p = Some (FileN b m) \<and> h = Hash b \<and> n = int (length b)"
  using assms by (auto simp: FileHash_def openRead_def osStat_def prim_def bindM_def attemptM_def ret_def Let_def
      split: if_splits option.splits node.splits prod.splits sum.splits)

lemma FileHash_no_error: "fst (FileHash E p w) \<noteq> Inl e"
  by (auto simp: FileHash_def bindM_def attemptM_def ret_def split: prod.splits sum.splits)

section \<open>The publishing loop\<close>



definition built :: "'x prims_scheme \<Rightarrow> publish_options \<Rightarrow> bytes list \<Rightarrow> manifest" where
  "built P o' pieces = (start_manifest o')\<lparr>mChunks := map (chunk_of P) pieces,
     mArtifactSize := wrap64 (int (length (concat pieces)))\<rparr>"

lemma built_snoc:
  "(built P o' ps)\<lparr>mChunks := mChunks (built P o' ps) @ [chunk_of P raw],
      mArtifactSize := wrap64 (mArtifactSize (built P o' ps) + cSize (chunk_of P raw))\<rparr>
   = built P o' (ps @ [raw])"
  by (simp add: built_def start_manifest_def wrap64_add)

lemma built_Nil: "start_manifest o' = built P o' []"
  by (simp add: built_def start_manifest_def int64_range_def)

text \<open>While the loop runs the release file is the one found at the start; after the pieces \<open>ps\<close> the
  manifest lists them and every object it names is stored.\<close>

definition rel_same :: "publish_options \<Rightarrow> world \<Rightarrow> world \<Rightarrow> bool" where
  "rel_same o' w0 w \<longleftrightarrow>
     lookup w (releasePath (poRoot o') (poRelease o')) = lookup w0 (releasePath (poRoot o') (poRelease o'))"

definition pub_inv :: "'x prims_scheme \<Rightarrow> publish_options \<Rightarrow> world \<Rightarrow> bytes list \<Rightarrow> world \<times> manifest \<Rightarrow> bool" where
  "pub_inv P o' w0 ps st \<longleftrightarrow> snd st = built P o' ps \<and> rel_same o' w0 (fst st)
     \<and> (\<forall>raw \<in> set ps. blob_at (poRoot o') (Hash (Encode P raw)) (fst st))"

lemma pub_inv_lookup: "lookup w' = lookup w \<Longrightarrow> pub_inv P o' w0 ps (w', m) = pub_inv P o' w0 ps (w, m)"
  by (simp add: pub_inv_def rel_same_def blob_at_def)

lemma publish_chunk_triple:
  assumes safe: "safeRelease (poRelease o')"
  shows "triple (pub_inv P o' w0 ps) (publish_chunk P E (poRoot o') raw) (\<lambda>_. pub_inv P o' w0 (ps @ [raw]))
           (\<lambda>_ st. rel_same o' w0 (fst st))"
proof -
  let ?h = "Hash (Encode P raw)"
  let ?X = "\<lambda>_ st. rel_same o' w0 (fst st)"
  let ?I = "\<lambda>st. pub_inv P o' w0 ps st \<and> blob_at (poRoot o') ?h (fst st)"
  have fh: "triple (pub_inv P o' w0 ps) (onFst (FileHash E (blobPath (poRoot o') ?h)))
     (\<lambda>(h, n, err) st. pub_inv P o' w0 ps st \<and> (err = None \<and> h = ?h \<longrightarrow> blob_at (poRoot o') ?h (fst st))) ?X"
  proof (intro triple_onFst tripleI)
    fix t s x s' assume i: "pub_inv P o' w0 ps (s, t)"
      and f: "FileHash E (blobPath (poRoot o') ?h) s = (Inr x, s')"
    obtain h n err where x: "x = (h, n, err)" by (cases x)
    note ok = FileHash_ok [OF f [unfolded x]]
    show "(case x of (h, n, err) \<Rightarrow> \<lambda>st. pub_inv P o' w0 ps st \<and>
        (err = None \<and> h = ?h \<longrightarrow> blob_at (poRoot o') ?h (fst st))) (s', t)"
      using i ok(2) by (auto simp: x pub_inv_lookup [OF ok(1)] blob_at_def ok(1))
  next
    fix t s e s' assume "FileHash E (blobPath (poRoot o') ?h) s = (Inl e, s')"
    with FileHash_no_error show "rel_same o' w0 (fst (s', t))" by (metis fst_conv)
  qed
  have aw: "triple (pub_inv P o' w0 ps) (onFst (AtomicWrite E (blobPath (poRoot o') ?h) (Encode P raw) 420)) (\<lambda>_. ?I) ?X"
  proof (intro triple_onFst tripleI)
    fix m w x w' assume i: "pub_inv P o' w0 ps (w, m)"
      and a: "AtomicWrite E (blobPath (poRoot o') ?h) (Encode P raw) 420 w = (Inr x, w')"
    have "lookup w' (blobPath (poRoot o') ?h) = Some (FileN (Encode P raw) 420)"
      using AtomicWrite_ok [OF a] by simp
    with i blob_at_put [OF a] release_kept_by_blob [OF a safe] show "?I (w', m)"
      by (auto simp: pub_inv_def rel_same_def blob_at_def)
  qed (auto simp: pub_inv_def rel_same_def release_kept_by_blob [OF _ safe])
  have md: "triple ?I (modS (\<lambda>m. m\<lparr>mChunks := mChunks m @ [chunk_of P raw],
       mArtifactSize := wrap64 (mArtifactSize m + cSize (chunk_of P raw))\<rparr>)) (\<lambda>_. pub_inv P o' w0 (ps @ [raw])) ?X"
    by (rule triple_modS) (auto simp: pub_inv_def built_snoc [simplified])
  show ?thesis
    unfolding publish_chunk_def Let_def Join_chunk_of
  proof (rule triple_bind [OF fh], clarify)
    fix h n err
    show "triple (\<lambda>st. pub_inv P o' w0 ps st \<and> (err = None \<and> h = ?h \<longrightarrow> blob_at (poRoot o') ?h (fst st)))
      (bindM (if err \<noteq> None \<or> h \<noteq> cEncodedSHA256 (chunk_of P raw) \<or> n \<noteq> cEncodedSize (chunk_of P raw)
          then onFst (AtomicWrite E (blobPath (poRoot o') ?h) (Encode P raw) 420) else ret ())
        (\<lambda>_. modS (\<lambda>m. m\<lparr>mChunks := mChunks m @ [chunk_of P raw],
            mArtifactSize := wrap64 (mArtifactSize m + cSize (chunk_of P raw))\<rparr>)))
      (\<lambda>_. pub_inv P o' w0 (ps @ [raw])) ?X"
      by (rule triple_bind [OF _ md], rule triple_if) (auto intro!: triple_ret triple_conseq [OF aw])
  qed
qed

lemma publish_split_triple:
  assumes safe: "safeRelease (poRelease o')"
  shows "triple (pub_inv P o' w0 []) (Split data rerr mn avg mx (publish_chunk P E (poRoot o')))
     (\<lambda>_ st. pub_inv P o' w0 (gear_chunks mn avg mx data) st \<and> rerr = None) (\<lambda>_ st. rel_same o' w0 (fst st))"
proof -
  have loop: "triple (pub_inv P o' w0 []) (forM cs (publish_chunk P E (poRoot o')))
     (\<lambda>_. pub_inv P o' w0 cs) (\<lambda>_ st. rel_same o' w0 (fst st))" for cs
    by (rule triple_forM_upto) (rule publish_chunk_triple [OF safe])
  show ?thesis
  proof (cases rerr)
    case None
    then show ?thesis
      by (auto simp: Split_def split_loop_eq_forM pub_inv_def intro!: triple_throw triple_conseq [OF loop])
  next
    case (Some e)
    have "triple (pub_inv P o' w0 cs) (throw e) (\<lambda>_ st. pub_inv P o' w0 ds st \<and> rerr = None)
            (\<lambda>_ st. rel_same o' w0 (fst st))" for cs ds
      by (rule triple_throw) (simp add: pub_inv_def)
    from triple_bind [OF loop this] Some show ?thesis
      by (auto simp: Split_def split_loop_scan pub_inv_def split: prod.splits intro!: triple_throw)
  qed
qed

section \<open>The commit\<close>

definition released :: "'x prims_scheme \<Rightarrow> publish_options \<Rightarrow> bytes \<Rightarrow> manifest" where
  "released P o' data =
     (built P o' (gear_chunks (poMin o') (poAvg o') (poMax o') data))\<lparr>mArtifactSHA256 := Hash data\<rparr>"

definition has_key :: "publish_options \<Rightarrow> world \<Rightarrow> bytes \<Rightarrow> bool" where
  "has_key o' w key \<longleftrightarrow> (\<exists>kb. file_bytes w (poKey o') = Some kb \<and> parseKey kb PrivateKeySize = Inr key)"

text \<open>What a machine shows once the release is committed.\<close>

definition committed :: "'x prims_scheme \<Rightarrow> env \<Rightarrow> publish_options \<Rightarrow> world \<Rightarrow> world \<times> manifest \<Rightarrow> bool" where
  "committed P E o' w st \<longleftrightarrow> (\<exists>key data. has_key o' w key \<and> file_bytes w (poInput o') = Some data
     \<and> snd st = released P o' data
     \<and> lookup (fst st) (releasePath (poRoot o') (poRelease o')) = Some (FileN (Sign P (snd st) key) 420)
     \<and> (\<exists>v. Verify P (Sign P (snd st) key) (edPublic key) (2 ^ 50) = Inr v)
     \<and> (\<forall>c \<in> set (mChunks (snd st)). blob_at (poRoot o') (cEncodedSHA256 c) (fst st))
     \<and> (\<forall>b. file_bytes w (releasePath (poRoot o') (poRelease o')) = Some b \<longrightarrow>
            b = Sign P (snd st) key \<or> (\<exists>t. io_fails E t)))"

lemma ReadKey_triple:
  "triple (\<lambda>s. lookup s = lookup w) (ReadKey E p n)
     (\<lambda>k s. lookup s = lookup w \<and> (\<exists>kb. file_bytes w p = Some kb \<and> parseKey kb n = Inr k)) (\<lambda>_ s. lookup s = lookup w)"
  unfolding ReadKey_def
  by (rule triple_bind [where Q' = "\<lambda>b s. lookup s = lookup w \<and> file_bytes w p = Some b"])
     (auto intro!: tripleI simp: osReadFile_def prim_def Let_def file_bytes_def fun_eq_iff
           split: if_splits option.splits node.splits)

lemma openRead_triple:
  "triple (\<lambda>s. lookup s = lookup w) (openRead E p)
     (\<lambda>(b, e) s. lookup s = lookup w \<and> (e = None \<longrightarrow> file_bytes w p = Some b)) (\<lambda>_ s. lookup s = lookup w)"
  by (rule tripleI) (auto simp: openRead_def osStat_def prim_def bindM_def Let_def file_bytes_def ret_def fun_eq_iff
      split: if_splits option.splits node.splits prod.splits)

lemma osReadFile_attempt:
  "triple (\<lambda>s. s = w) (attemptM (osReadFile E p))
     (\<lambda>r s. lookup s = lookup w \<and> (\<forall>b. r = Inr b \<longrightarrow> file_bytes w p = Some b)
        \<and> (\<forall>e. r = Inl e \<longrightarrow> file_bytes w p = None \<or> (\<exists>t. io_fails E t))) (\<lambda>_ _. False)"
  by (rule triple_attempt, rule tripleI)
     (auto simp: osReadFile_def prim_def Let_def file_bytes_def fun_eq_iff split: if_splits option.splits node.splits)

text \<open>Everything is in place but the release file.\<close>

definition ready :: "'x prims_scheme \<Rightarrow> publish_options \<Rightarrow> world \<Rightarrow> bytes \<Rightarrow> bytes \<Rightarrow> world \<times> manifest \<Rightarrow> bool" where
  "ready P o' w key data st \<longleftrightarrow> has_key o' w key \<and> file_bytes w (poInput o') = Some data
     \<and> snd st = released P o' data \<and> rel_same o' w (fst st)
     \<and> (\<forall>c \<in> set (mChunks (snd st)). blob_at (poRoot o') (cEncodedSHA256 c) (fst st))"

lemma ready_file_bytes:
  "rel_same o' w s \<Longrightarrow> file_bytes s (releasePath (poRoot o') (poRelease o')) = file_bytes w (releasePath (poRoot o') (poRelease o'))"
  by (simp add: rel_same_def file_bytes_def)

lemma publish_commit_triple:
  assumes safe: "safeRelease (poRelease o')" and v: "Verify P (Sign P m key) (edPublic key) (2 ^ 50) = Inr v"
  shows "triple (\<lambda>st. ready P o' w key data st \<and> snd st = m \<and>
            (\<forall>b. file_bytes w (releasePath (poRoot o') (poRelease o')) = Some b \<longrightarrow> b = Sign P m key \<or> (\<exists>t. io_fails E t)))
     (onFst (AtomicWrite E (releasePath (poRoot o') (poRelease o')) (Sign P m key) 420))
     (\<lambda>_. committed P E o' w) (\<lambda>_ st. rel_same o' w (fst st) \<or> committed P E o' w st)"
proof (intro triple_onFst tripleI, goal_cases)
  case (1 t s x s')
  then have "lookup s' (releasePath (poRoot o') (poRelease o')) = Some (FileN (Sign P m key) 420)"
    using AtomicWrite_ok [OF 1(2)] safe by simp
  then show ?case
    using 1 v blob_at_release [OF 1(2) _ safe] by (auto simp: committed_def ready_def)
next
  case (2 t s e s')
  have "lookup s' (releasePath (poRoot o') (poRelease o')) = lookup s (releasePath (poRoot o') (poRelease o'))
      \<or> lookup s' (releasePath (poRoot o') (poRelease o')) = Some (FileN (Sign P m key) 420)"
    using AtomicWrite_run [OF _ _ 2(2)] safe by (auto simp: aw_effect_def)
  then show ?case
    using 2 v blob_at_release [OF 2(2) _ safe] by (auto simp: committed_def ready_def rel_same_def)
qed

lemma publish_tail_triple:
  assumes safe: "safeRelease (poRelease o')"
  shows "triple (\<lambda>st. ready P o' w key data st \<and> snd st = m)
    (let envelope = Sign P m key; p = releasePath (poRoot o') (poRelease o') in
      bindM (liftR (Verify P envelope (edPublic key) (2 ^ 50))) (\<lambda>_.
      bindM (onFst (attemptM (osReadFile E p))) (\<lambda>old.
      bindM (guardM (\<not> (case old of Inr b \<Rightarrow> b \<noteq> envelope | Inl _ \<Rightarrow> False))
              (Msg ''release name is immutable'')) (\<lambda>_.
      bindM (onFst (AtomicWrite E p envelope 420)) (\<lambda>_. ret m)))))
    (\<lambda>_. committed P E o' w) (\<lambda>_ st. rel_same o' w (fst st) \<or> committed P E o' w st)"
proof (cases "Verify P (Sign P m key) (edPublic key) (2 ^ 50)")
  case (Inl e)
  have "bindM (liftR (Inl e)) f = throw e" for f :: "manifest \<times> string \<Rightarrow> (world \<times> manifest, manifest) sm"
    by (simp add: bindM_def liftR_def throw_def fun_eq_iff)
  with Inl show ?thesis by (simp add: Let_def) (rule triple_throw, simp add: ready_def)
next
  case (Inr v)
  let ?p = "releasePath (poRoot o') (poRelease o')"
  let ?R = "\<lambda>st. ready P o' w key data st \<and> snd st = m"
  let ?X = "\<lambda>_ st. rel_same o' w (fst st) \<or> committed P E o' w st"
  have rd: "triple ?R (onFst (attemptM (osReadFile E ?p)))
     (\<lambda>r st. ?R st \<and> (\<forall>b. r = Inr b \<longrightarrow> file_bytes w ?p = Some b)
        \<and> (\<forall>e. r = Inl e \<longrightarrow> file_bytes w ?p = None \<or> (\<exists>t. io_fails E t))) ?X"
    by (rule triple_onFst, rule triple_pre, rule triple_conseq [OF osReadFile_attempt])
       (auto simp: ready_def rel_same_def blob_at_def file_bytes_def)
  have l: "bindM (liftR (Inr v)) f = f v" for f :: "manifest \<times> string \<Rightarrow> (world \<times> manifest, manifest) sm"
    by (simp add: bindM_def liftR_def fun_eq_iff)
  have g: "triple (\<lambda>st. ?R st \<and> (\<forall>b. r = Inr b \<longrightarrow> file_bytes w ?p = Some b)
        \<and> (\<forall>e. r = Inl e \<longrightarrow> file_bytes w ?p = None \<or> (\<exists>t. io_fails E t)))
     (guardM (\<not> (case r of Inr b \<Rightarrow> b \<noteq> Sign P m key | Inl _ \<Rightarrow> False)) (Msg ''release name is immutable''))
     (\<lambda>_ st. ready P o' w key data st \<and> snd st = m \<and>
        (\<forall>b. file_bytes w ?p = Some b \<longrightarrow> b = Sign P m key \<or> (\<exists>t. io_fails E t))) ?X" for r
    by (rule triple_guard) (fastforce simp: ready_def split: sum.splits)+
  show ?thesis
    unfolding Let_def Inr l
    by (rule triple_bind [OF rd], rule triple_bind [OF g],
        rule triple_bind [OF publish_commit_triple [OF safe Inr]], rule triple_ret)
qed

lemma Publish_triple:
  "triple (\<lambda>st. fst st = w) (Publish P E o') (\<lambda>_. committed P E o' w)
     (\<lambda>_ st. rel_same o' w (fst st) \<or> committed P E o' w st)"
proof (cases "safeRelease (poRelease o') \<and> poSequence o' \<noteq> 0")
  case False
  then have g: "(\<not> (\<not> safeRelease (poRelease o') \<or> poSequence o' = 0)) = False" by blast
  show ?thesis
    unfolding Publish_def g guardM_False bindM_throw
    by (rule triple_bind, rule triple_modS [where Q = "\<lambda>_ st. fst st = w"], simp, rule triple_throw)
       (simp add: rel_same_def)
next
  case True
  then have safe: "safeRelease (poRelease o')" ..
  let ?X = "\<lambda>_ st. rel_same o' w (fst st) \<or> committed P E o' w st"
  let ?S = "\<lambda>st. lookup (fst st) = lookup w \<and> snd st = start_manifest o'"
  have key: "triple ?S (onFst (ReadKey E (poKey o') PrivateKeySize)) (\<lambda>k st. ?S st \<and> has_key o' w k) ?X"
    by (rule triple_conseq [OF triple_onFst_frame [OF ReadKey_triple [of w], where C = "\<lambda>m. m = start_manifest o'"]])
       (auto simp: has_key_def rel_same_def)
  have inp: "triple (\<lambda>st. ?S st \<and> has_key o' w k) (onFst (openRead E (poInput o')))
      (\<lambda>(b, e) st. pub_inv P o' w [] st \<and> has_key o' w k \<and> (e = None \<longrightarrow> file_bytes w (poInput o') = Some b)) ?X" for k
    by (rule triple_conseq [OF triple_onFst_frame [OF openRead_triple [of w], where C = "\<lambda>m. m = start_manifest o' \<and> has_key o' w k"]])
       (auto simp: rel_same_def pub_inv_def built_Nil)
  have split: "triple (\<lambda>st. pub_inv P o' w [] st \<and> has_key o' w k \<and> (e = None \<longrightarrow> file_bytes w (poInput o') = Some b))
      (Split b e (poMin o') (poAvg o') (poMax o') (publish_chunk P E (poRoot o')))
      (\<lambda>_ st. pub_inv P o' w (gear_chunks (poMin o') (poAvg o') (poMax o') b) st \<and> has_key o' w k
         \<and> file_bytes w (poInput o') = Some b) ?X" for k b e
    using publish_split_triple [OF safe, of P w b e "poMin o'" "poAvg o'" "poMax o'" E]
    by (fastforce simp: triple_def split: prod.splits sum.splits)
  have fin: "triple (\<lambda>st. pub_inv P o' w (gear_chunks (poMin o') (poAvg o') (poMax o') b) st \<and> has_key o' w k
         \<and> file_bytes w (poInput o') = Some b) (modS (\<lambda>m. m\<lparr>mArtifactSHA256 := Hash b\<rparr>))
      (\<lambda>_. ready P o' w k b) ?X" for k b
    by (rule triple_modS) (auto simp: pub_inv_def ready_def released_def built_def start_manifest_def)
  have get: "triple (ready P o' w k b) getS (\<lambda>m st. ready P o' w k b st \<and> snd st = m) ?X" for k b
    by (rule triple_getS) simp
  have start: "triple (\<lambda>st. fst st = w) (modS (\<lambda>_. start_manifest o')) (\<lambda>_. ?S) ?X"
    by (rule triple_modS) simp
  have ok: "triple ?S (guardM (\<not> (\<not> safeRelease (poRelease o') \<or> poSequence o' = 0)) e) (\<lambda>_. ?S) ?X" for e
    by (rule triple_guard) (use True in auto)
  show ?thesis
    unfolding Publish_def
    apply (rule triple_bind [OF start], rule triple_bind [OF ok], rule triple_bind [OF key], rule triple_bind [OF inp])
    apply (clarify)
    apply (rule triple_bind [OF split], rule triple_bind [OF fin], rule triple_bind [OF get])
    apply (rule publish_tail_triple [OF safe])
    done
qed

section \<open>Publishing on a machine without failures\<close>

definition store_ready :: "publish_options \<Rightarrow> world \<Rightarrow> bool" where
  "store_ready o' w \<longleftrightarrow> fresh_temps w \<and> (\<forall>q. prefix q (poRoot o') \<longrightarrow> \<not> is_temp q)
     \<and> (\<forall>h. hexDigest h \<longrightarrow> open_path w (blobPath (poRoot o') h))
     \<and> open_path w (releasePath (poRoot o') (poRelease o'))"

lemma store_ready_lookup: "lookup w' = lookup w \<Longrightarrow> store_ready o' w' = store_ready o' w"
  using open_path_lookup [of w' w] fresh_temps_lookup [of w' w] by (simp add: store_ready_def)

lemma prefix_below_root:
  assumes "prefix q (root @ xs)" and "\<forall>r. prefix r root \<longrightarrow> \<not> is_temp r"
    and "\<And>ys. ys \<noteq> [] \<Longrightarrow> prefix ys xs \<Longrightarrow> \<not> isTempName (last ys)"
  shows "\<not> is_temp q"
proof (cases "prefix q root")
  case True
  with assms(2) show ?thesis by simp
next
  case False
  then obtain us where us: "q = root @ us" "prefix us xs" "us \<noteq> []"
    using assms(1) unfolding prefix_append by fastforce
  with assms(3) [OF us(3,2)] show ?thesis by (simp add: is_temp_def)
qed

lemma blobPath_prefix_not_temp:
  assumes "\<forall>r. prefix r root \<longrightarrow> \<not> is_temp r" and "hexDigest h" and "prefix q (blobPath root h)"
  shows "\<not> is_temp q"
proof (rule prefix_below_root [OF _ assms(1)])
  show "prefix q (root @ [''chunks'', take 2 h, h @ ''.gz''])" using assms(3) by (simp add: blobPath_def)
  fix ys assume "ys \<noteq> []" "prefix ys [''chunks'', take 2 h, h @ ''.gz'']"
  then show "\<not> isTempName (last ys)"
    using hexDigest_not_temp [OF assms(2)] hexDigest_take2 [OF assms(2)]
    by (auto simp: prefix_Cons isTempName_def)
qed

lemma store_ready_blob:
  assumes "wrote (blobPath (poRoot o') h) (FileN b m) w w'" and "store_ready o' w" and h: "hexDigest h"
  shows "store_ready o' w'"
proof -
  have "\<not> strict_prefix (blobPath r a) (blobPath r b)" "\<not> strict_prefix (blobPath r a) (releasePath r n)" for r a b n
    by (auto simp: blobPath_def releasePath_def strict_prefix_def)
  with assms show ?thesis
    unfolding store_ready_def
    by (auto intro: open_path_wrote fresh_temps_wrote dest: blobPath_prefix_not_temp)
qed

lemma FileHash_calm: "calm E \<Longrightarrow> \<exists>x w'. FileHash E p w = (Inr x, w') \<and> lookup w' = lookup w"
  by (auto simp: FileHash_def openRead_def osStat_def prim_def bindM_def attemptM_def ret_def Let_def calm_def fun_eq_iff
      split: option.splits node.splits)

lemma publish_chunk_live:
  assumes c: "calm E" and r: "store_ready o' w"
  shows "\<exists>w' m'. publish_chunk P E (poRoot o') raw (w, m) = (Inr (), w', m') \<and> store_ready o' w'"
proof -
  let ?p = "blobPath (poRoot o') (Hash (Encode P raw))"
  obtain h n err w1 where f: "FileHash E ?p w = (Inr (h, n, err), w1)" "lookup w1 = lookup w"
    using FileHash_calm [OF c] by (metis prod_cases3)
  then have r1: "store_ready o' w1" using r store_ready_lookup by blast
  then have "open_path w1 ?p" "fresh_temps w1" by (auto simp: store_ready_def)
  from AtomicWrite_live [OF c this(1) _ this(2)] obtain w2 where
    a: "AtomicWrite E ?p (Encode P raw) 420 w1 = (Inr (), w2)" "wrote ?p (FileN (Encode P raw) 420) w1 w2"
    by (metis blobPath_not_temp hexDigest_Hash)
  have "store_ready o' w2" using store_ready_blob [OF a(2) r1] by simp
  with f(1) a(1) r1 show ?thesis
    by (auto simp: publish_chunk_def Let_def bindM_def onFst_def sm_run modS_def)
qed

lemma publish_forM_live:
  assumes c: "calm E" and r: "store_ready o' w"
  shows "\<exists>w' m'. forM ps (publish_chunk P E (poRoot o')) (w, m) = (Inr (), w', m') \<and> store_ready o' w'"
  using r
proof (induction ps arbitrary: w m)
  case (Cons raw ps)
  obtain w1 m1 where "publish_chunk P E (poRoot o') raw (w, m) = (Inr (), w1, m1)" "store_ready o' w1"
    using publish_chunk_live [OF c Cons.prems] by blast
  with Cons.IH show ?case by (fastforce simp: bindM_def)
qed (simp add: sm_run)

lemma osReadFile_calm:
  assumes "calm E"
  shows "\<exists>w'. osReadFile E p w = ((case file_bytes w p of Some b \<Rightarrow> Inr b
          | None \<Rightarrow> Inl (if lookup w p = None then NotExist else IOError)), w') \<and> lookup w' = lookup w"
  by (auto simp: osReadFile_def calm_prim [OF assms] file_bytes_def fun_eq_iff split: option.splits node.splits)

lemma openRead_calm:
  assumes "calm E" and "file_bytes w p = Some b"
  shows "\<exists>w'. openRead E p w = (Inr (b, None), w') \<and> lookup w' = lookup w"
  using assms by (auto simp: openRead_def osStat_def prim_def bindM_def Let_def calm_def file_bytes_def fun_eq_iff
      split: option.splits node.splits)

lemma Publish_live:
  assumes c: "calm E" and r: "store_ready o' w"
    and safe: "safeRelease (poRelease o')" "poSequence o' \<noteq> 0" "cdc_params_ok (poMin o') (poAvg o') (poMax o')"
    and key: "has_key o' w key" and data: "file_bytes w (poInput o') = Some data"
    and v: "Verify P (Sign P (released P o' data) key) (edPublic key) (2 ^ 50) = Inr v"
    and new: "lookup w (releasePath (poRoot o') (poRelease o')) = None"
  shows "\<exists>w'. Publish P E o' (w, m) = (Inr (released P o' data), w', released P o' data)"
proof -
  let ?rel = "releasePath (poRoot o') (poRelease o')"
  obtain w1 where 1: "ReadKey E (poKey o') PrivateKeySize w = (Inr key, w1)" "lookup w1 = lookup w"
    using key osReadFile_calm [OF c, of "poKey o'" w] by (auto simp: has_key_def ReadKey_def bindM_def sm_run)
  obtain w2 where 2: "openRead E (poInput o') w1 = (Inr (data, None), w2)" "lookup w2 = lookup w"
    using openRead_calm [OF c, of w1 "poInput o'" data] data 1(2) by (auto simp: file_bytes_def)
  have "store_ready o' w2" using r 2(2) store_ready_lookup by blast
  then obtain w3 m3 where 3: "Split data None (poMin o') (poAvg o') (poMax o') (publish_chunk P E (poRoot o')) (w2, start_manifest o')
      = (Inr (), w3, m3)" "store_ready o' w3"
    using publish_forM_live [OF c] safe(3) by (fastforce simp: Split_def split_loop_eq_forM)
  have "pub_inv P o' w [] (w2, start_manifest o')" using 2(2) by (auto simp: pub_inv_def rel_same_def built_Nil)
  from triple_okD [OF publish_split_triple [OF safe(1)] this 3(1)]
  have m3: "m3\<lparr>mArtifactSHA256 := Hash data\<rparr> = released P o' data" and n3: "lookup w3 ?rel = None"
    using new by (auto simp: pub_inv_def released_def rel_same_def)
  obtain w4 where 4: "osReadFile E ?rel w3 = (Inl NotExist, w4)" "lookup w4 = lookup w3"
    using osReadFile_calm [OF c, of ?rel w3] n3 by (auto simp: file_bytes_def)
  then have "open_path w4 ?rel" "fresh_temps w4"
    using 3(2) open_path_lookup [OF 4(2)] fresh_temps_lookup [OF 4(2)] by (simp_all add: store_ready_def)
  then obtain w5 where 5: "AtomicWrite E ?rel (Sign P (released P o' data) key) 420 w4 = (Inr (), w5)"
    using AtomicWrite_live [OF c _ releasePath_not_temp [OF safe(1)]] by blast
  have st: "modS (\<lambda>_. start_manifest o') (w, m) = (Inr (), w, start_manifest o')"
    "modS (\<lambda>m. m\<lparr>mArtifactSHA256 := Hash data\<rparr>) (w3, m3) = (Inr (), w3, released P o' data)"
    "getS (w3, released P o' data) = (Inr (released P o' data), w3, released P o' data)"
    using m3 by simp_all
  have io: "onFst (ReadKey E (poKey o') PrivateKeySize) (w, start_manifest o') = (Inr key, w1, start_manifest o')"
    "onFst (openRead E (poInput o')) (w1, start_manifest o') = (Inr (data, None), w2, start_manifest o')"
    "onFst (attemptM (osReadFile E ?rel)) (w3, released P o' data) = (Inr (Inl NotExist), w4, released P o' data)"
    "onFst (AtomicWrite E ?rel (Sign P (released P o' data) key) 420) (w4, released P o' data) = (Inr (), w5, released P o' data)"
    using 1(1) 2(1) 4(1) 5 by (simp_all add: onFst_run attemptM_run)

  have g: "(\<not> (\<not> safeRelease (poRelease o') \<or> poSequence o' = 0)) = True" using safe by simp
  show ?thesis
    unfolding Publish_def g Let_def
    by (simp add: bindM_def st io 3(1) sm_run v [simplified] del: modS_run getS_run liftR_run)
qed

section \<open>Properties\<close>


text \<open>A store and a request for concrete runs.\<close>

definition demo_world :: world where
  "demo_world = put_node [''k''] (FileN (keyText (replicate 64 1)) 384) (put_node [''in''] (FileN [1, 2, 3] 420) empty_world)"

definition demo_publish :: publish_options where
  "demo_publish = \<lparr>poInput = [''in''], poRoot = [''store''], poKey = [''k''], poRelease = ''r1'', poKind = ''raw'',
     poSource = [], poSequence = 1, poImageIDs = [], poMin = 64, poAvg = 128, poMax = 256\<rparr>"

lemma demo_lookup:
  "lookup demo_world q = (if q = [] then Some DirN else if q = [''k''] then Some (FileN (keyText (replicate 64 1)) 384)
     else if q = [''in''] then Some (FileN [1, 2, 3] 420) else None)"
  by (simp add: demo_world_def empty_world_def lookup_def put_node_def)

lemma demo_store_ready: "store_ready demo_publish demo_world"
  by (auto simp: store_ready_def fresh_temps_def open_path_def demo_lookup demo_publish_def blobPath_def releasePath_def
      is_temp_def isTempName_def tmpPrefix_def strict_prefix_def prefix_Cons)

lemma demo_calm: "calm ((env_fail_at 0)\<lparr>io_fails := \<lambda>_. False\<rparr>)"
  by (simp add: calm_def env_fail_at_def)

lemma demo_verifies:
  "Verify demo_prims (Sign demo_prims x (replicate 64 1)) (edPublic (replicate 64 1)) (2 ^ 50) = Inr (demo_manifest, Hash [1])"
proof -
  have "int (length (Sign demo_prims x (replicate 64 1))) \<le> MaxManifestBytes"
    by (simp add: Sign_def demo_prims_sel edPublic_def MaxManifestBytes_def Let_def)
  moreover have "manifest_ok demo_manifest (2 ^ 50)"
    using demo_manifest_ok by (simp add: manifest_ok_def demo_manifest_def)
  ultimately show ?thesis
    by (simp add: Verify_ok_iff Sign_def demo_prims_sel Let_def del: base64_encode.simps)
qed

lemma demo_publish_runs:
  "\<exists>w'. Publish demo_prims ((env_fail_at 0)\<lparr>io_fails := \<lambda>_. False\<rparr>) demo_publish (demo_world, demo_manifest)
     = (Inr (released demo_prims demo_publish [1, 2, 3]), w', released demo_prims demo_publish [1, 2, 3])"
proof (rule Publish_live [OF demo_calm demo_store_ready])
  have "length (replicate 64 (1 :: byte)) = PrivateKeySize" by (simp add: PrivateKeySize_def)
  then have "parseKey (keyText (replicate 64 1)) PrivateKeySize = Inr (replicate 64 1)"
    by (metis parseKey_keyText)
  then show "has_key demo_publish demo_world (replicate 64 1)"
    by (simp add: has_key_def demo_publish_def file_bytes_def demo_lookup)
  show "lookup demo_world (releasePath (poRoot demo_publish) (poRelease demo_publish)) = None"
    by (simp add: demo_lookup demo_publish_def releasePath_def)
qed (simp_all add: demo_publish_def safeRelease_def isAlnum_def isReleaseChar_def cdc_params_ok_def MaxChunkBytes_def
      file_bytes_def demo_lookup demo_verifies [simplified])


text \<open>Publishing succeeds: on a machine where nothing fails and no foreign node is in the way, a
  valid request with a readable key and input, a fresh name and a manifest that verifies is
  published, and the manifest returned is the one for the pieces of the input.\<close>

theorem Publish_succeeds:
  assumes "calm E" and "store_ready o' w"
    and "safeRelease (poRelease o')" and "poSequence o' \<noteq> 0" and "cdc_params_ok (poMin o') (poAvg o') (poMax o')"
    and "has_key o' w key" and "file_bytes w (poInput o') = Some data"
    and "Verify P (Sign P (released P o' data) key) (edPublic key) (2 ^ 50) = Inr v"
    and "lookup w (releasePath (poRoot o') (poRelease o')) = None"
  shows "\<exists>w'. Publish P E o' (w, m) = (Inr (released P o' data), w', released P o' data)"
  by (rule Publish_live [OF assms])

theorem Publish_succeeds_witness:
  "\<exists>w'. Publish demo_prims ((env_fail_at 0)\<lparr>io_fails := \<lambda>_. False\<rparr>) demo_publish (demo_world, demo_manifest)
     = (Inr (released demo_prims demo_publish [1, 2, 3]), w', released demo_prims demo_publish [1, 2, 3])"
proof (rule Publish_succeeds [OF demo_calm demo_store_ready])
  have "length (replicate 64 (1 :: byte)) = PrivateKeySize" by (simp add: PrivateKeySize_def)
  then have "parseKey (keyText (replicate 64 1)) PrivateKeySize = Inr (replicate 64 1)"
    by (metis parseKey_keyText)
  then show "has_key demo_publish demo_world (replicate 64 1)"
    by (simp add: has_key_def demo_publish_def file_bytes_def demo_lookup)
  show "lookup demo_world (releasePath (poRoot demo_publish) (poRelease demo_publish)) = None"
    by (simp add: demo_lookup demo_publish_def releasePath_def)
qed (simp_all add: demo_publish_def safeRelease_def isAlnum_def isReleaseChar_def cdc_params_ok_def MaxChunkBytes_def
      file_bytes_def demo_lookup demo_verifies [simplified])

end
