(* ===== verification/RegistryPublish.thy ===== *)
theory RegistryPublish
  imports RegistryClient Publish DockerLoad
begin

text \<open>
  From a registry tag to a promoted release, \<open>src/internal/registry/publish.go\<close> and \<open>config.go\<close>: the
  watcher's configuration, release names, the sequence counter, promotion of a channel and the trigger that
  exports an image, publishes it through \<open>lab.Publish\<close> and promotes it. Images come from
  \<open>go-containerregistry\<close>, an argument of the model.
\<close>

section \<open>Configuration\<close>

record repo_config =
  rpName :: string
  rpAllow :: string
  rpIgnore :: string

record publish_config =
  pbRoot :: path
  pbKey :: path
  pbChannel :: string
  pbReleasePrefix :: string
  pbSequenceFile :: path

record watch_config =
  wcRegistryURL :: string
  wcPoll :: int
  wcRepos :: "repo_config list"
  wcStateFile :: path
  wcPublish :: publish_config
  wcUsername :: string
  wcPasswordEnv :: string

text \<open>An image of the library: its manifest digest, the digest of its configuration, and its docker archive.\<close>

record image =
  imDigest :: "string result"
  imConfigHex :: "string result"
  imArchive :: "bytes result"

text \<open>
  Library operations: \<open>regexp\<close> (\<open>None\<close>: the pattern does not compile), the YAML decoder, the environment,
  \<open>v1.NewHash\<close>, \<open>name.ParseReference\<close> (with \<open>name.Insecure\<close>), and \<open>remote.Image\<close> at a moment, with or
  without credentials.
\<close>

record oci_prims = reg_prims +
  regexMatch :: "string \<Rightarrow> string \<Rightarrow> bool option"
  yamlConfig :: "bytes \<Rightarrow> watch_config result"
  getenv :: "string \<Rightarrow> string"
  newHash :: "string \<Rightarrow> unit result"
  parseReference :: "string \<Rightarrow> bool \<Rightarrow> string result"
  remoteImg :: "nat \<Rightarrow> string \<Rightarrow> auth_config option \<Rightarrow> image result"

fun check_repos :: "'x oci_prims_scheme \<Rightarrow> repo_config list \<Rightarrow> unit result" where
  "check_repos P [] = Inr ()"
| "check_repos P (r # rs) =
     (if rpName r = [] then Inl (Msg ''watch config: repos.name is required'')
      else if rpAllow r \<noteq> [] \<and> regexMatch P (rpAllow r) [] = None then Inl (Msg ''watch config: repos.allow'')
      else if rpIgnore r \<noteq> [] \<and> regexMatch P (rpIgnore r) [] = None then Inl (Msg ''watch config: repos.ignore'')
      else check_repos P rs)"

definition ValidateConfig :: "'x oci_prims_scheme \<Rightarrow> watch_config \<Rightarrow> watch_config result" where
  "ValidateConfig P c0 =
     (if wcRegistryURL c0 = [] then Inl (Msg ''watch config: registry_url is required'')
      else if length (wcRepos c0) = 0 then Inl (Msg ''watch config: at least one repo is required'')
      else (let c = (if wcPoll c0 \<le> 0 then c0\<lparr>wcPoll := 30000000000\<rparr> else c0) in
        if wcStateFile c = [] then Inl (Msg ''watch config: state_file is required'')
        else if pbRoot (wcPublish c) = [] \<or> pbKey (wcPublish c) = [] \<or> pbChannel (wcPublish c) = [] \<or> pbSequenceFile (wcPublish c) = []
        then Inl (Msg ''watch config: publish.root, publish.key, publish.channel and publish.sequence_file are required'')
        else bindR (check_repos P (wcRepos c)) (\<lambda>_. Inr c)))"

definition LoadConfig :: "'x oci_prims_scheme \<Rightarrow> env \<Rightarrow> path \<Rightarrow> watch_config io" where
  "LoadConfig P E p = bindM (osReadFile E p) (\<lambda>b.
     liftR (case yamlConfig P b of Inl e \<Rightarrow> Inl (Wrap ''watch config'' e) | Inr c \<Rightarrow> ValidateConfig P c))"

definition eligible :: "'x oci_prims_scheme \<Rightarrow> repo_config \<Rightarrow> string \<Rightarrow> bool" where
  "eligible P r tag =
     (if rpIgnore r \<noteq> [] \<and> regexMatch P (rpIgnore r) tag = Some True then False
      else if rpAllow r = [] then True
      else (case regexMatch P (rpAllow r) tag of None \<Rightarrow> False | Some b \<Rightarrow> b))"

section \<open>Release names\<close>

record publish_request =
  prRepo :: string
  prTag :: string
  prDigest :: string

text \<open>The width of the first rune of a UTF-8 text; an invalid byte is a rune of its own.\<close>

definition in_range :: "nat \<Rightarrow> nat \<Rightarrow> char \<Rightarrow> bool" where
  "in_range lo hi c \<longleftrightarrow> lo \<le> (of_char c :: nat) \<and> (of_char c :: nat) \<le> hi"

definition cont :: "char \<Rightarrow> bool" where
  "cont c \<longleftrightarrow> in_range 0x80 0xBF c"

fun runeWidth :: "string \<Rightarrow> nat" where
  "runeWidth (a # b # c # d # _) =
     (if in_range 0xC2 0xDF a \<and> cont b then 2
      else if (in_range 0xE0 0xE0 a \<and> in_range 0xA0 0xBF b \<or> in_range 0xED 0xED a \<and> in_range 0x80 0x9F b
               \<or> (in_range 0xE1 0xEC a \<or> in_range 0xEE 0xEF a) \<and> cont b) \<and> cont c then 3
      else if (in_range 0xF0 0xF0 a \<and> in_range 0x90 0xBF b \<or> in_range 0xF4 0xF4 a \<and> in_range 0x80 0x8F b
               \<or> in_range 0xF1 0xF3 a \<and> cont b) \<and> cont c \<and> cont d then 4 else 1)"
| "runeWidth [a, b, c] =
     (if in_range 0xC2 0xDF a \<and> cont b then 2
      else if (in_range 0xE0 0xE0 a \<and> in_range 0xA0 0xBF b \<or> in_range 0xED 0xED a \<and> in_range 0x80 0x9F b
               \<or> (in_range 0xE1 0xEC a \<or> in_range 0xEE 0xEF a) \<and> cont b) \<and> cont c then 3 else 1)"
| "runeWidth [a, b] = (if in_range 0xC2 0xDF a \<and> cont b then 2 else 1)"
| "runeWidth s = 1"

lemma runeWidth_pos [simp]: "0 < runeWidth s"
  by (cases s rule: runeWidth.cases) auto

function sanitize_runes :: "string \<Rightarrow> string" where
  "sanitize_runes s = (if s = [] then []
     else (if isReleaseChar (hd s) then hd s else CHR ''-'') # sanitize_runes (drop (runeWidth s) s))"
  by pat_completeness auto
termination by (relation "measure length") auto

declare sanitize_runes.simps [simp del]

definition sanitize :: "string \<Rightarrow> string" where
  "sanitize s = trim {CHR ''-'', CHR ''.''} (sanitize_runes s)"

definition releaseName :: "'x oci_prims_scheme \<Rightarrow> string \<Rightarrow> publish_request \<Rightarrow> string result" where
  "releaseName P pre req = (case newHash P (prDigest req) of
       Inl e \<Rightarrow> Inl (Wrap ''release digest'' e)
     | Inr _ \<Rightarrow>
         (let name = pre @ sanitize (prRepo req) @ ''-'' @ sanitize (prTag req) in
          if name = [] then Inl (Msg ''empty release name'')
          else Inr ((if length name > 36 then take 36 name else name) @ ''-''
                    @ Hash (bytes_of (prRepo req @ CHR 0x00 # prTag req @ CHR 0x00 # prDigest req)))))"

section \<open>The sequence counter\<close>

text \<open>\<open>fmt.Sscanf(s, "%d", &seq)\<close> for an unsigned number: the leading digits; what follows is not read.\<close>

definition sscanfUint :: "string \<Rightarrow> u64 result" where
  "sscanfUint s = (let d = takeWhile isDigit s in
     if d = [] then Inl (Msg ''expected integer'')
     else if digits_val d \<ge> 2 ^ 64 then Inl (Msg ''value out of range'')
     else Inr (of_nat (digits_val d)))"

definition readSequence :: "env \<Rightarrow> path \<Rightarrow> u64 io" where
  "readSequence E p = bindM (attemptM (osReadFile E p)) (\<lambda>r. case r of
       Inr b \<Rightarrow> liftR (case sscanfUint (trimSpace (string_of b)) of Inl e \<Rightarrow> Inl (Wrap ''sequence file'' e) | Inr n \<Rightarrow> Inr n)
     | Inl e \<Rightarrow> if e \<noteq> NotExist then throw e else ret 0)"

definition sequenceText :: "u64 \<Rightarrow> bytes" where
  "sequenceText n = bytes_of (decimal (unat n) @ [CHR 0x0A])"

definition nextSequence :: "env \<Rightarrow> path \<Rightarrow> u64 io" where
  "nextSequence E p = bindM (readSequence E p) (\<lambda>old.
     (let n = old + 1 in
      bindM (guardM (n \<noteq> 0) (Msg ''sequence exhausted'')) (\<lambda>_.
      bindM (AtomicWrite E p (sequenceText n) 384) (\<lambda>_. ret n))))"

section \<open>Promotion\<close>

definition channelPath :: "watch_config \<Rightarrow> path" where
  "channelPath cfg = Join (pbRoot (wcPublish cfg) @ [''releases'']) (pbChannel (wcPublish cfg) @ ''.json'')"

definition promote :: "'x prims_scheme \<Rightarrow> env \<Rightarrow> watch_config \<Rightarrow> bytes \<Rightarrow> unit io" where
  "promote P E cfg envelope =
     bindM (attemptM (osReadFile E (channelPath cfg))) (\<lambda>cur. case cur of
       Inr current \<Rightarrow>
         if current = envelope then ret ()
         else bindM (ReadKey E (pbKey (wcPublish cfg)) PrivateKeySize) (\<lambda>key.
              bindM (liftR (case Verify P current (edPublic key) (2 ^ 50) of Inl e \<Rightarrow> Inl (Wrap ''current channel'' e) | Inr x \<Rightarrow> Inr x)) (\<lambda>(old, _).
              bindM (liftR (Verify P envelope (edPublic key) (2 ^ 50))) (\<lambda>(next, _).
              if mSequence old > mSequence next then ret ()
              else if mSequence old = mSequence next then throw (Msg ''channel sequence already used by a different release'')
              else AtomicWrite E (channelPath cfg) envelope 420)))
     | Inl e \<Rightarrow> if e \<noteq> NotExist then throw e else AtomicWrite E (channelPath cfg) envelope 420)"

section \<open>The trigger\<close>

record trigger_opts =
  tgConfig :: watch_config
  tgEvent :: bool
  tgClient :: "reg_client option"

type_synonym 'a tg = "(world \<times> (string \<times> string) list, 'a) sm"

definition refText :: "reg_client \<Rightarrow> publish_request \<Rightarrow> string" where
  "refText c req = uHost (rcBase c) @ ''/'' @ prRepo req @ '':'' @ prTag req"

definition imageReference :: "'x oci_prims_scheme \<Rightarrow> reg_client \<Rightarrow> publish_request \<Rightarrow> string result" where
  "imageReference P c req = parseReference P (refText c req) (uScheme (rcBase c) = ''http'')"

definition remoteImage :: "'x oci_prims_scheme \<Rightarrow> env \<Rightarrow> reg_client \<Rightarrow> publish_request \<Rightarrow> image io" where
  "remoteImage P E c req =
     bindM (liftR (case imageReference P c req of Inl e \<Rightarrow> Inl (Wrap ''parse reference'' e) | Inr ref \<Rightarrow> Inr ref)) (\<lambda>ref.
     bindM (\<lambda>w. ((case remoteImg P (tick w) ref
                     (if acUsername (rcAuth c) \<noteq> [] \<or> acPassword (rcAuth c) \<noteq> [] then Some (rcAuth c) else None) of
                   Inl e \<Rightarrow> Inl (Wrap ''remote image'' e) | Inr img \<Rightarrow> Inr img), w\<lparr>tick := Suc (tick w)\<rparr>)) (\<lambda>img.
     bindM (liftR (imDigest img)) (\<lambda>dg.
     bindM (guardM (\<not> (prDigest req \<noteq> [] \<and> dg \<noteq> prDigest req)) (Msg ''digest drift'')) (\<lambda>_. ret img))))"

definition exportDockerArchive :: "env \<Rightarrow> image \<Rightarrow> path \<Rightarrow> unit io" where
  "exportDockerArchive E img p = bindM (osCreate E p) (\<lambda>_. bindM (liftR (imArchive img)) (\<lambda>b. fWrite E p b))"

definition publish_io :: "'x prims_scheme \<Rightarrow> env \<Rightarrow> publish_options \<Rightarrow> manifest io" where
  "publish_io P E o' w = (case Publish P E o' (w, start_manifest o') of (r, (w', _)) \<Rightarrow> (r, w'))"

definition emit :: "trigger_opts \<Rightarrow> string \<Rightarrow> string \<Rightarrow> unit tg" where
  "emit opts kind detail = (if tgEvent opts then modS (\<lambda>ev. ev @ [(kind, detail)]) else ret ())"

definition sourceOf :: "watch_config \<Rightarrow> publish_request \<Rightarrow> string" where
  "sourceOf cfg req = ''registry://'' @ wcRegistryURL cfg @ ''/'' @ prRepo req @ ''@'' @ prDigest req"

definition releaseFile :: "watch_config \<Rightarrow> string \<Rightarrow> path" where
  "releaseFile cfg release = Join (pbRoot (wcPublish cfg) @ [''releases'']) (release @ ''.json'')"

definition publishedDetail :: "string \<Rightarrow> publish_request \<Rightarrow> u64 \<Rightarrow> string" where
  "publishedDetail release req n = ''release='' @ release @ '' repo='' @ prRepo req @ '' tag='' @ prTag req @ '' digest='' @ prDigest req
     @ '' sequence='' @ decimal (unat n)"

definition triggerPublish :: "watch_config \<Rightarrow> publish_request \<Rightarrow> path \<Rightarrow> string \<Rightarrow> u64 \<Rightarrow> string \<Rightarrow> publish_options" where
  "triggerPublish cfg req tarPath release n hex =
     \<lparr>poInput = tarPath, poRoot = pbRoot (wcPublish cfg), poKey = pbKey (wcPublish cfg), poRelease = release,
      poKind = ''docker-archive'', poSource = sourceOf cfg req, poSequence = n, poImageIDs = [''sha256:'' @ hex],
      poMin = 16384, poAvg = 65536, poMax = 262144\<rparr>"

text \<open>An existing release is the durable checkpoint: its bytes and sequence are used again.\<close>

definition reuse_release :: "'x oci_prims_scheme \<Rightarrow> env \<Rightarrow> trigger_opts \<Rightarrow> publish_request \<Rightarrow> string \<Rightarrow> bytes \<Rightarrow> string tg" where
  "reuse_release P E opts req release envelope =
     (let cfg = tgConfig opts in
      bindM (onFst (ReadKey E (pbKey (wcPublish cfg)) PrivateKeySize)) (\<lambda>key.
      bindM (liftR (case Verify P envelope (edPublic key) (2 ^ 50) of Inl e \<Rightarrow> Inl (Wrap ''existing release'' e) | Inr x \<Rightarrow> Inr x)) (\<lambda>(m, _).
      bindM (guardM (\<not> (mRelease m \<noteq> release \<or> mSource m \<noteq> sourceOf cfg req \<or> mKind m \<noteq> ''docker-archive''))
               (Msg ''existing release identity mismatch'')) (\<lambda>_.
      bindM (onFst (promote P E cfg envelope)) (\<lambda>_.
      bindM (emit opts ''release-published'' (publishedDetail release req (mSequence m))) (\<lambda>_. ret release))))))"

definition export_release :: "'x oci_prims_scheme \<Rightarrow> env \<Rightarrow> trigger_opts \<Rightarrow> publish_request \<Rightarrow> string \<Rightarrow> image \<Rightarrow> path \<Rightarrow> string tg" where
  "export_release P E opts req release img dir =
     (let cfg = tgConfig opts; tarPath = dir @ [''image.tar''] in
      bindM (onFst (exportDockerArchive E img tarPath)) (\<lambda>_.
      bindM (onFst (nextSequence E (pbSequenceFile (wcPublish cfg)))) (\<lambda>n.
      bindM (liftR (case imConfigHex img of Inl e \<Rightarrow> Inl (Wrap ''config digest'' e) | Inr hex \<Rightarrow> Inr hex)) (\<lambda>hex.
      bindM (onFst (attemptM (publish_io P E (triggerPublish cfg req tarPath release n hex)))) (\<lambda>pub. case pub of
        Inl e \<Rightarrow> throw (Wrap (''publish '' @ release) e)
      | Inr _ \<Rightarrow>
          bindM (onFst (osReadFile E (releaseFile cfg release))) (\<lambda>envelope.
          bindM (onFst (promote P E cfg envelope)) (\<lambda>_.
          bindM (emit opts ''release-published'' (publishedDetail release req n)) (\<lambda>_. ret release))))))))"

definition regTrigger :: "'x oci_prims_scheme \<Rightarrow> env \<Rightarrow> trigger_opts \<Rightarrow> publish_request \<Rightarrow> string tg" where
  "regTrigger P E opts req =
     (let cfg = tgConfig opts in
      bindM (liftR (releaseName P (pbReleasePrefix (wcPublish cfg)) req)) (\<lambda>release.
      bindM (onFst (attemptM (osReadFile E (releaseFile cfg release)))) (\<lambda>old. case old of
        Inr envelope \<Rightarrow> reuse_release P E opts req release envelope
      | Inl e \<Rightarrow>
          if e \<noteq> NotExist then throw e
          else bindM (liftR (case tgClient opts of Some c \<Rightarrow> Inr c
                 | None \<Rightarrow> NewClient P (wcRegistryURL cfg) \<lparr>acUsername = wcUsername cfg, acPassword = getenv P (wcPasswordEnv cfg)\<rparr>)) (\<lambda>c.
               bindM (emit opts ''release-detected'' (prRepo req @ '':'' @ prTag req @ ''@'' @ prDigest req)) (\<lambda>_.
               bindM (onFst (remoteImage P E c req)) (\<lambda>img.
               bindM (onFst (osMkdirTemp E ''edgelab-export'')) (\<lambda>dir.
               deferM (onFst (osRemoveAll dir)) (export_release P E opts req release img dir))))))))"

section \<open>Promotion\<close>

definition key_of :: "watch_config \<Rightarrow> world \<Rightarrow> bytes \<Rightarrow> bool" where
  "key_of cfg w key \<longleftrightarrow> (\<exists>b. file_bytes w (pbKey (wcPublish cfg)) = Some b \<and> parseKey b PrivateKeySize = Inr key)"

definition verified_seq :: "'x prims_scheme \<Rightarrow> bytes \<Rightarrow> bytes \<Rightarrow> u64 \<Rightarrow> bool" where
  "verified_seq P key b n \<longleftrightarrow> (\<exists>m d. Verify P b (edPublic key) (2 ^ 50) = Inr (m, d) \<and> mSequence m = n)"

text \<open>What a promotion decides on: to keep the channel, or to write it.\<close>

definition keeps :: "'x prims_scheme \<Rightarrow> watch_config \<Rightarrow> world \<Rightarrow> bytes \<Rightarrow> bool" where
  "keeps P cfg w envelope \<longleftrightarrow> (\<exists>cur. file_bytes w (channelPath cfg) = Some cur \<and>
     (cur = envelope \<or> (\<exists>key a b. key_of cfg w key \<and> verified_seq P key cur a \<and> verified_seq P key envelope b \<and> b < a)))"

definition advances :: "'x prims_scheme \<Rightarrow> watch_config \<Rightarrow> world \<Rightarrow> bytes \<Rightarrow> bool" where
  "advances P cfg w envelope \<longleftrightarrow> file_bytes w (channelPath cfg) = None \<or>
     (\<exists>cur key a b. file_bytes w (channelPath cfg) = Some cur \<and> key_of cfg w key \<and> verified_seq P key cur a
        \<and> verified_seq P key envelope b \<and> a < b)"

lemma promote_decides:
  assumes run: "promote P E cfg envelope w = (r, w')"
  shows "lookup w' = lookup w \<and> (r = Inr () \<longrightarrow> keeps P cfg w envelope) \<or>
    (\<exists>w1. lookup w1 = lookup w \<and> advances P cfg w envelope \<and> AtomicWrite E (channelPath cfg) envelope 420 w1 = (r, w'))"
proof -
  obtain x w1 where rd: "osReadFile E (channelPath cfg) w = (x, w1)" by (rule prod.exhaust)
  have s1: "lookup w1 = lookup w" using stepsD [OF steps_silent_prims(2) rd] by (simp add: silent_def)
  show ?thesis
  proof (cases x)
    case (Inl e)
    have "e = NotExist \<Longrightarrow> file_bytes w (channelPath cfg) = None"
      using rd Inl by (auto simp: osReadFile_def prim_def Let_def file_bytes_def split: if_splits option.splits node.splits)
    then show ?thesis
      using run rd Inl s1 by (auto simp: promote_def bindM_def attemptM_def advances_def split: if_splits)
  next
    case (Inr cur)
    have cur: "file_bytes w (channelPath cfg) = Some cur" using osReadFile_ok [OF rd [unfolded Inr]] by simp
    show ?thesis
    proof (cases "cur = envelope")
      case True
      then show ?thesis using run rd Inr s1 cur by (auto simp: promote_def bindM_def attemptM_def keeps_def)
    next
      case False
      obtain k w2 where rk: "ReadKey E (pbKey (wcPublish cfg)) PrivateKeySize w1 = (k, w2)" by (rule prod.exhaust)
      note key = ReadKey_run [OF rk]
      have s2: "lookup w2 = lookup w" using key s1 by simp
      have fb: "file_bytes w1 = file_bytes w" using s1 by (simp add: file_bytes_def fun_eq_iff)
      show ?thesis
      proof (cases "\<exists>key old d next d'. k = Inr key \<and> Verify P cur (edPublic key) (2 ^ 50) = Inr (old, d)
          \<and> Verify P envelope (edPublic key) (2 ^ 50) = Inr (next, d')")
        case no: False
        then have "w' = w2 \<and> (\<forall>u. r \<noteq> Inr u)"
          using run rd Inr False rk
          by (cases k; cases "Verify P cur (edPublic (projr k)) (2 ^ 50)"; cases "Verify P envelope (edPublic (projr k)) (2 ^ 50)")
             (auto simp: promote_def bindM_def attemptM_def sm_run split: prod.splits)
        then show ?thesis using s2 by auto
      next
        case True
        then obtain kk old d nxt d' where v: "k = Inr kk" "Verify P cur (edPublic kk) (2 ^ 50) = Inr (old, d)"
          "Verify P envelope (edPublic kk) (2 ^ 50) = Inr (nxt, d')" by blast
        have ks: "key_of cfg w kk" "verified_seq P kk cur (mSequence old)" "verified_seq P kk envelope (mSequence nxt)"
          using key v by (auto simp: key_of_def verified_seq_def fb)
        have tail: "(if mSequence old > mSequence nxt then ret () else if mSequence old = mSequence nxt
            then throw (Msg ''channel sequence already used by a different release'')
            else AtomicWrite E (channelPath cfg) envelope 420) w2 = (r, w')"
          using run rd Inr False rk v by (simp add: promote_def bindM_def attemptM_def sm_run)
        show ?thesis
        proof (cases "mSequence old < mSequence nxt")
          case True
          then have "AtomicWrite E (channelPath cfg) envelope 420 w2 = (r, w')" using tail by (auto split: if_splits)
          then show ?thesis using s2 ks cur True unfolding advances_def by blast
        next
          case no: False
          then have "w' = w2" "r = Inr () \<Longrightarrow> mSequence nxt < mSequence old" using tail by (auto split: if_splits)
          then show ?thesis using s2 ks cur unfolding keeps_def by blast
        qed
      qed
    qed
  qed
qed

text \<open>C4. Promotion never moves a channel backward: however \<open>promote\<close> ends, the channel file is unchanged or
  holds the complete new envelope, and in that case the channel did not exist or both envelopes verify under
  the publisher's key and the new sequence is larger. No other file changes, and when it succeeds the channel
  holds this envelope or one with a larger sequence.\<close>

theorem promote_never_rolls_back:
  assumes "promote P E cfg envelope w = (r, w')" and "channelPath cfg \<noteq> []" and "\<not> is_temp (channelPath cfg)"
  shows "(lookup w' (channelPath cfg) = lookup w (channelPath cfg) \<or>
      lookup w' (channelPath cfg) = Some (FileN envelope 420) \<and>
        (file_bytes w (channelPath cfg) = None \<or>
         (\<exists>cur key a b. file_bytes w (channelPath cfg) = Some cur \<and> key_of cfg w key \<and> verified_seq P key cur a
            \<and> verified_seq P key envelope b \<and> a < b)))
    \<and> (\<forall>q b m. q \<noteq> channelPath cfg \<and> lookup w q = Some (FileN b m) \<longrightarrow> lookup w' q = Some (FileN b m))
    \<and> (r = Inr () \<longrightarrow> file_bytes w' (channelPath cfg) = Some envelope \<or>
        (\<exists>cur key a b. file_bytes w' (channelPath cfg) = Some cur \<and> key_of cfg w key \<and> verified_seq P key cur a
            \<and> verified_seq P key envelope b \<and> b < a))"
  using promote_decides [OF assms(1)]
proof
  assume "lookup w' = lookup w \<and> (r = Inr () \<longrightarrow> keeps P cfg w envelope)"
  then show ?thesis unfolding keeps_def by (auto simp: file_bytes_def)
next
  assume "\<exists>w1. lookup w1 = lookup w \<and> advances P cfg w envelope \<and> AtomicWrite E (channelPath cfg) envelope 420 w1 = (r, w')"
  then obtain w1 where w1: "lookup w1 = lookup w" "advances P cfg w envelope"
    and aw: "AtomicWrite E (channelPath cfg) envelope 420 w1 = (r, w')" by blast
  from AtomicWrite_run [OF assms(2,3) aw] w1 show ?thesis
    unfolding advances_def aw_effect_def by (auto simp: file_bytes_def)
qed

section \<open>The sequence counter\<close>

lemma digits_val_snoc: "digits_val (s @ [c]) = 10 * digits_val s + ((of_char c :: nat) - 48)"
  by (simp add: digits_val_def)

lemma decimal_digits: "list_all isDigit (decimal n) \<and> decimal n \<noteq> [] \<and> digits_val (decimal n) = n"
proof (induction n rule: decimal.induct)
  case (1 n)
  have d: "isDigit (char_of (48 + k))" "(of_char (char_of (48 + k) :: char) :: nat) = 48 + k" if "k < 10" for k :: nat
    using that by (simp_all add: isDigit_def)
  show ?case
  proof (cases "n < 10")
    case True
    then show ?thesis using d [of n] by (subst (1 2 3) decimal.simps) (simp add: digits_val_def)
  next
    case False
    have "n mod 10 < 10" by simp
    with d [of "n mod 10"] 1 False show ?thesis
      by (subst (1 2 3) decimal.simps) (simp add: digits_val_snoc)
  qed
qed

lemma isDigit_hex: "isDigit c \<Longrightarrow> is_hex c"
  by (auto simp: isDigit_def is_hex_def)

lemma sscanf_sequenceText: "sscanfUint (trimSpace (string_of (sequenceText n))) = Inr n"
proof -
  have hex: "list_all is_hex (decimal (unat n))"
    using decimal_digits [of "unat n"] isDigit_hex by (auto simp: list_all_iff)
  have tw: "takeWhile isDigit (decimal (unat n)) = decimal (unat n)"
    using decimal_digits [of "unat n"] by (simp add: takeWhile_eq_all_conv list_all_iff)
  have "unat n < 2 ^ LENGTH(64)" by (rule unsigned_less)
  then show ?thesis
    using decimal_digits [of "unat n"] by (simp add: sequenceText_def trim_hex [OF hex] sscanfUint_def Let_def tw)
qed

definition sequence_at :: "world \<Rightarrow> path \<Rightarrow> u64 \<Rightarrow> bool" where
  "sequence_at w p n \<longleftrightarrow> (case file_bytes w p of None \<Rightarrow> n = 0 | Some b \<Rightarrow> sscanfUint (trimSpace (string_of b)) = Inr n)"

lemma readSequence_run:
  assumes "readSequence E p w = (r, w')"
  shows "lookup w' = lookup w \<and> (\<forall>n. r = Inr n \<longrightarrow> lookup w p \<noteq> Some DirN \<and> sequence_at w p n)"
proof -
  obtain x w1 where rd: "osReadFile E p w = (x, w1)" by (rule prod.exhaust)
  have s: "lookup w1 = lookup w" using stepsD [OF steps_silent_prims(2) rd] by (simp add: silent_def)
  show ?thesis
  proof (cases x)
    case (Inl e)
    have "e = NotExist \<Longrightarrow> lookup w p = None"
      using rd Inl by (auto simp: osReadFile_def prim_def Let_def split: if_splits option.splits node.splits)
    then show ?thesis using assms rd s Inl
      by (auto simp: readSequence_def bindM_def attemptM_def sequence_at_def file_bytes_def split: if_splits)
  next
    case (Inr b)
    note fb = osReadFile_ok [OF rd [unfolded Inr], THEN conjunct2]
    then have "lookup w p \<noteq> Some DirN" by (auto simp: file_bytes_def)
    with fb show ?thesis using assms rd s Inr
      by (auto simp: readSequence_def bindM_def attemptM_def sequence_at_def split: sum.splits)
  qed
qed

text \<open>The sequence counter: a number that is handed out is one more than the stored one, without wrapping, it
  is on disk when it is handed out, and it is what the next allocation reads back; an allocation that fails
  leaves the file as it was or already advanced to the next number, so that no number is handed out
  twice.\<close>

theorem nextSequence_counts:
  assumes "nextSequence E p w = (r, w')" and "p \<noteq> []" "\<not> is_temp p"
  shows "(\<forall>n. r = Inr n \<longrightarrow> (\<exists>old. sequence_at w p old \<and> unat n = unat old + 1) \<and> sequence_at w' p n)
    \<and> (lookup w' p = lookup w p \<or> (\<exists>old n. sequence_at w p old \<and> unat n = unat old + 1 \<and> sequence_at w' p n))"
proof -
  obtain x w1 where rs: "readSequence E p w = (x, w1)" by (rule prod.exhaust)
  note rd = readSequence_run [OF rs]
  show ?thesis
  proof (cases "\<exists>old. x = Inr old \<and> old + 1 \<noteq> 0")
    case False
    then have "w' = w1 \<and> (\<forall>n. r \<noteq> Inr n)"
      using assms(1) rs by (cases x) (auto simp: nextSequence_def bindM_def Let_def)
    then show ?thesis using rd by auto
  next
    case True
    then obtain old where x: "x = Inr old" and nz: "old + 1 \<noteq> 0" by blast
    obtain y w2 where aw: "AtomicWrite E p (sequenceText (old + 1)) 384 w1 = (y, w2)" by (rule prod.exhaust)
    have r: "w' = w2" "\<And>n. r = Inr n \<Longrightarrow> y = Inr () \<and> n = old + 1"
      using assms(1) rs x nz aw by (cases y; auto simp: nextSequence_def bindM_def Let_def sm_run)+
    have suc: "unat (old + 1) = unat old + 1" using nz by (simp add: unatSuc add.commute)
    have at: "sequence_at w2 p (old + 1)" if "lookup w2 p = Some (FileN (sequenceText (old + 1)) 384)"
      using that by (simp add: sequence_at_def file_bytes_def sscanf_sequenceText)
    have old: "sequence_at w p old" using rd x by blast
    have eff: "lookup w2 p = lookup w p \<or> lookup w2 p = Some (FileN (sequenceText (old + 1)) 384)"
      "y = Inr () \<Longrightarrow> lookup w2 p = Some (FileN (sequenceText (old + 1)) 384)"
      using AtomicWrite_run [OF assms(2,3) aw] rd by (auto simp: aw_effect_def)
    show ?thesis using r eff at old suc by metis
  qed
qed

section \<open>The trigger\<close>

lemma safeRelease_plain:
  assumes "safeRelease s"
  shows "CHR ''/'' \<notin> set s" "Join d (s @ ''.json'') = d @ [s @ ''.json'']"
proof -
  show slash: "CHR ''/'' \<notin> set s"
    using assms by (auto simp: safeRelease_def isAlnum_def isReleaseChar_def list_all_iff split: list.splits)
  have "splitOn CHR ''/'' (s @ ''.json'') = [s @ ''.json'']"
    using slash by (intro splitOn_no_sep) auto
  moreover have "s @ ''.json'' \<notin> {[], ''.'', ''..''}" by auto
  ultimately show "Join d (s @ ''.json'') = d @ [s @ ''.json'']" by (simp add: Join_def)
qed

definition ahead :: "'x prims_scheme \<Rightarrow> watch_config \<Rightarrow> world \<Rightarrow> bytes \<Rightarrow> bool" where
  "ahead P cfg w envelope \<longleftrightarrow> file_bytes w (channelPath cfg) = Some envelope \<or>
     (\<exists>cur key a b. file_bytes w (channelPath cfg) = Some cur \<and> verified_seq P key cur a \<and> verified_seq P key envelope b \<and> b < a)"

text \<open>The channel is a file of its own below a root that is not the directory for temporary files.\<close>

definition layout_ok :: "watch_config \<Rightarrow> bool" where
  "layout_ok cfg \<longleftrightarrow> safeRelease (pbChannel (wcPublish cfg)) \<and> pbRoot (wcPublish cfg) \<noteq> [] \<and> hd (pbRoot (wcPublish cfg)) \<noteq> ''tmp''"

lemma layout_channel:
  assumes "layout_ok cfg"
  shows "channelPath cfg = releasePath (pbRoot (wcPublish cfg)) (pbChannel (wcPublish cfg))" "channelPath cfg \<noteq> []" "\<not> is_temp (channelPath cfg)"
proof -
  show eq: "channelPath cfg = releasePath (pbRoot (wcPublish cfg)) (pbChannel (wcPublish cfg))"
    using assms by (simp add: layout_ok_def channelPath_def releasePath_def safeRelease_plain)
  show "channelPath cfg \<noteq> []" "\<not> is_temp (channelPath cfg)"
    using assms by (auto simp: eq layout_ok_def)
qed

lemma promote_ok:
  assumes "layout_ok cfg" "promote P E cfg envelope w = (Inr u, w')" "file_bytes w q = Some envelope"
  shows "ahead P cfg w' envelope" "file_bytes w' q = Some envelope"
proof -
  obtain m where q: "lookup w q = Some (FileN envelope m)"
    using assms(3) by (auto simp: file_bytes_def split: option.splits node.splits)
  consider "lookup w' = lookup w" "keeps P cfg w envelope"
    | w1 where "lookup w1 = lookup w" "AtomicWrite E (channelPath cfg) envelope 420 w1 = (Inr u, w')"
    using promote_decides [OF assms(2)] by auto
  then have "ahead P cfg w' envelope \<and> file_bytes w' q = Some envelope"
  proof cases
    case 1
    then have "file_bytes w' = file_bytes w" by (simp add: file_bytes_def fun_eq_iff)
    with 1 assms(3) show ?thesis by (auto simp: keeps_def ahead_def)
  next
    case (2 w1)
    note aw = AtomicWrite_run [OF layout_channel(2,3) [OF assms(1)] 2(2)]
    have "lookup w' q = Some (FileN envelope m) \<or> lookup w' q = Some (FileN envelope 420)"
      using aw q 2(1) by (cases "q = channelPath cfg") (auto simp: aw_effect_def)
    then show ?thesis using aw by (auto simp: ahead_def file_bytes_def)
  qed
  then show "ahead P cfg w' envelope" "file_bytes w' q = Some envelope" by blast+
qed

lemma emit_tail: "bindM (emit opts kind detail) (\<lambda>_. ret x) st = (r, st') \<Longrightarrow> r = Inr x \<and> fst st' = fst st"
  by (auto simp: bindM_def emit_def modS_def sm_run split: if_splits)

lemma onFst_ok: "onFst m st = (Inr x, st') \<longleftrightarrow> m (fst st) = (Inr x, fst st') \<and> snd st' = snd st"
  by (auto simp: onFst_def prod_eq_iff split: prod.splits)

lemma reuse_ok:
  assumes "reuse_release P E opts req release envelope st = (Inr rel, st')"
  shows "\<exists>w1 u key m d. lookup w1 = lookup (fst st) \<and> key_of (tgConfig opts) (fst st) key \<and> Verify P envelope (edPublic key) (2 ^ 50) = Inr (m, d)
    \<and> mRelease m = release \<and> mSource m = sourceOf (tgConfig opts) req \<and> mKind m = ''docker-archive'' \<and> rel = release
    \<and> promote P E (tgConfig opts) envelope w1 = (Inr u, fst st')"
proof -
  let ?cfg = "tgConfig opts"
  from assms obtain key st1 where k: "onFst (ReadKey E (pbKey (wcPublish ?cfg)) PrivateKeySize) st = (Inr key, st1)"
    and r1: "bindM (liftR (case Verify P envelope (edPublic key) (2 ^ 50) of Inl e \<Rightarrow> Inl (Wrap ''existing release'' e) | Inr x \<Rightarrow> Inr x)) (\<lambda>(m, _).
      bindM (guardM (\<not> (mRelease m \<noteq> release \<or> mSource m \<noteq> sourceOf ?cfg req \<or> mKind m \<noteq> ''docker-archive''))
               (Msg ''existing release identity mismatch'')) (\<lambda>_.
      bindM (onFst (promote P E ?cfg envelope)) (\<lambda>_.
      bindM (emit opts ''release-published'' (publishedDetail release req (mSequence m))) (\<lambda>_. ret release)))) st1 = (Inr rel, st')"
    unfolding reuse_release_def Let_def by (rule bindM_okE)
  from r1 obtain m d where v: "Verify P envelope (edPublic key) (2 ^ 50) = Inr (m, d)"
    and r2: "bindM (guardM (\<not> (mRelease m \<noteq> release \<or> mSource m \<noteq> sourceOf ?cfg req \<or> mKind m \<noteq> ''docker-archive''))
               (Msg ''existing release identity mismatch'')) (\<lambda>_.
      bindM (onFst (promote P E ?cfg envelope)) (\<lambda>_.
      bindM (emit opts ''release-published'' (publishedDetail release req (mSequence m))) (\<lambda>_. ret release))) st1 = (Inr rel, st')"
    by (cases "Verify P envelope (edPublic key) (2 ^ 50)") (auto simp: bindM_def sm_run)
  from r2 have ids: "mRelease m = release" "mSource m = sourceOf ?cfg req" "mKind m = ''docker-archive''"
    and r3: "bindM (onFst (promote P E ?cfg envelope)) (\<lambda>_.
      bindM (emit opts ''release-published'' (publishedDetail release req (mSequence m))) (\<lambda>_. ret release)) st1 = (Inr rel, st')"
    by (auto elim!: bindM_okE [where m = "guardM _ _"])
  from r3 obtain u st3 where p: "onFst (promote P E ?cfg envelope) st1 = (Inr u, st3)"
    and e: "bindM (emit opts ''release-published'' (publishedDetail release req (mSequence m))) (\<lambda>_. ret release) st3 = (Inr rel, st')"
    by (rule bindM_okE)
  have f: "fst st' = fst st3" "rel = release" using emit_tail [OF e] by auto
  have k': "lookup (fst st1) = lookup (fst st)" "key_of ?cfg (fst st) key"
    using ReadKey_run [OF k [unfolded onFst_ok, THEN conjunct1]] by (auto simp: key_of_def)
  show ?thesis
    using f k' ids v p [unfolded onFst_ok, THEN conjunct1]
    by (intro exI [of _ "fst st1"] exI [of _ u] exI [of _ key] exI [of _ m] exI [of _ d]) simp
qed

lemma publish_io_ok:
  assumes "publish_io P E o' w = (Inr m, w')"
  shows "safeRelease (poRelease o')" "\<exists>env. file_bytes w' (releasePath (poRoot o') (poRelease o')) = Some env"
proof -
  obtain m' where run: "Publish P E o' (w, start_manifest o') = (Inr m, (w', m'))"
    using assms by (auto simp: publish_io_def split: prod.splits)
  then show "safeRelease (poRelease o')"
    unfolding Publish_def by (auto simp: bindM_run modS_def guardM_def sm_run split: if_splits)
  have "committed P E o' w (w', m')" using triple_okD [OF Publish_triple _ run, of w] by simp
  then show "\<exists>env. file_bytes w' (releasePath (poRoot o') (poRelease o')) = Some env"
    by (auto simp: committed_def file_bytes_def)
qed

lemma releaseFile_plain: "safeRelease release \<Longrightarrow> releaseFile cfg release = releasePath (pbRoot (wcPublish cfg)) release"
  by (simp add: releaseFile_def releasePath_def safeRelease_plain)

lemma export_ok:
  assumes "export_release P E opts req release img dir st = (Inr rel, st')"
  shows "rel = release \<and> safeRelease release \<and> (\<exists>w1 u env. file_bytes w1 (releaseFile (tgConfig opts) release) = Some env
    \<and> promote P E (tgConfig opts) env w1 = (Inr u, fst st'))"
proof -
  let ?cfg = "tgConfig opts"
  let ?rest = "\<lambda>n. bindM (onFst (osReadFile E (releaseFile ?cfg release))) (\<lambda>envelope.
          bindM (onFst (promote P E ?cfg envelope)) (\<lambda>_.
          bindM (emit opts ''release-published'' (publishedDetail release req n)) (\<lambda>_. ret release)))"
  from assms obtain n hex st3 m st4 where
    pub: "onFst (attemptM (publish_io P E (triggerPublish ?cfg req (dir @ [''image.tar'']) release n hex))) st3 = (Inr (Inr m), st4)"
    and rest: "?rest n st4 = (Inr rel, st')"
    unfolding export_release_def Let_def by (elim bindM_okE) (auto split: sum.splits)
  have safe: "safeRelease release"
    using pub publish_io_ok(1) [of P E "triggerPublish ?cfg req (dir @ [''image.tar'']) release n hex"]
    by (auto simp: onFst_ok attemptM_run triggerPublish_def)
  from rest obtain env st5 where rd: "onFst (osReadFile E (releaseFile ?cfg release)) st4 = (Inr env, st5)"
    and r5: "bindM (onFst (promote P E ?cfg env)) (\<lambda>_.
          bindM (emit opts ''release-published'' (publishedDetail release req n)) (\<lambda>_. ret release)) st5 = (Inr rel, st')"
    by (rule bindM_okE)
  from r5 obtain u st6 where p: "onFst (promote P E ?cfg env) st5 = (Inr u, st6)"
    and e: "bindM (emit opts ''release-published'' (publishedDetail release req n)) (\<lambda>_. ret release) st6 = (Inr rel, st')"
    by (rule bindM_okE)
  have "file_bytes (fst st5) (releaseFile ?cfg release) = Some env"
    using osReadFile_ok [OF rd [unfolded onFst_ok, THEN conjunct1]] by (simp add: file_bytes_def)
  then show ?thesis using p [unfolded onFst_ok] emit_tail [OF e] safe by auto
qed

lemma deferM_ok: "deferM d m s = (Inr x, s') \<Longrightarrow> \<exists>s1. m s = (Inr x, s1) \<and> s' = snd (d s1)"
  by (auto simp: deferM_def split: prod.splits)

lemma regTrigger_ok:
  assumes "layout_ok (tgConfig opts)" and "regTrigger P E opts req (w, ev) = (Inr rel, w', ev')"
  shows "releaseName P (pbReleasePrefix (wcPublish (tgConfig opts))) req = Inr rel \<and> safeRelease rel
    \<and> (\<exists>env. file_bytes w' (releaseFile (tgConfig opts) rel) = Some env \<and> ahead P (tgConfig opts) w' env)"
proof -
  let ?cfg = "tgConfig opts"
  obtain release where name: "releaseName P (pbReleasePrefix (wcPublish ?cfg)) req = Inr release"
    using assms(2) by (cases "releaseName P (pbReleasePrefix (wcPublish ?cfg)) req") (auto simp: regTrigger_def Let_def bindM_def sm_run)
  obtain x w1 where rd: "osReadFile E (releaseFile ?cfg release) w = (x, w1)" by (rule prod.exhaust)
  have s1: "lookup w1 = lookup w" using stepsD [OF steps_silent_prims(2) rd] by (simp add: silent_def)
  show ?thesis
  proof (cases x)
    case (Inr env)
    have run: "reuse_release P E opts req release env (w1, ev) = (Inr rel, w', ev')"
      using assms(2) rd Inr by (simp add: regTrigger_def Let_def name bindM_def sm_run onFst_def attemptM_def)
    from reuse_ok [OF this] obtain w2 u where "rel = release" "lookup w2 = lookup w1" "safeRelease release" and p: "promote P E ?cfg env w2 = (Inr u, w')"
      by (auto simp: Verify_ok_iff manifest_ok_def)
    moreover have "file_bytes w2 (releaseFile ?cfg release) = Some env"
      using osReadFile_ok [OF rd [unfolded Inr]] s1 calculation(2) by (simp add: file_bytes_def)
    ultimately show ?thesis using promote_ok [OF assms(1) p] name by blast
  next
    case (Inl e)
    from assms(2) rd Inl obtain img dir st2 st3 where
      mk: "osMkdirTemp E ''edgelab-export'' (fst st2) = (Inr dir, fst st3)"
      and run: "deferM (onFst (osRemoveAll dir)) (export_release P E opts req release img dir) st3 = (Inr rel, w', ev')"
      by (auto simp: regTrigger_def Let_def name bindM_run onFst_ok attemptM_run onFst_run split: if_splits)
    obtain st4 where ex: "export_release P E opts req release img dir st3 = (Inr rel, st4)" and w': "(w', ev') = snd (onFst (osRemoveAll dir) st4)"
      using deferM_ok [OF run] by auto
    from export_ok [OF ex] obtain w5 u env where rel: "rel = release" and safe: "safeRelease release"
      and fb: "file_bytes w5 (releaseFile ?cfg release) = Some env" and p: "promote P E ?cfg env w5 = (Inr u, fst st4)" by blast
    note ok = promote_ok [OF assms(1) p fb]
    obtain t where dir: "dir = [''tmp'', t]" using osMkdirTemp_ok(2) [OF mk] by auto
    have keep: "file_bytes w' q = file_bytes (fst st4) q" if "\<not> prefix dir q" for q
    proof -
      have "w' = snd (osRemoveAll dir (fst st4))" using w' by (auto simp: onFst_def split: prod.splits)
      then show ?thesis using that lookup_RemoveAll [of dir "fst st4" q] by (simp add: dir file_bytes_def)
    qed
    have away: "\<not> prefix dir (releasePath (pbRoot (wcPublish ?cfg)) n)" for n
      using assms(1) by (cases "pbRoot (wcPublish ?cfg)") (auto simp: layout_ok_def dir releasePath_def)
    have "file_bytes w' (releaseFile ?cfg release) = Some env"
      using keep [OF away] ok(2) by (simp add: releaseFile_plain [OF safe])
    moreover have "ahead P ?cfg w' env"
      using ok(1) keep [OF away] by (simp add: ahead_def layout_channel(1) [OF assms(1)])
    ultimately show ?thesis using name rel safe by blast
  qed
qed

text \<open>C14. A trigger that succeeds has published: the release of that name, derived from repository, tag and digest,
  is in the store, and the channel holds it or a verified release with a larger sequence. This holds for a
  fresh export and for a retry that finds the release already signed.\<close>

theorem Trigger_promotes:
  assumes "layout_ok (tgConfig opts)" and "regTrigger P E opts req (w, ev) = (Inr rel, w', ev')"
  shows "releaseName P (pbReleasePrefix (wcPublish (tgConfig opts))) req = Inr rel
    \<and> (\<exists>env. file_bytes w' (releaseFile (tgConfig opts) rel) = Some env \<and> ahead P (tgConfig opts) w' env)"
  using regTrigger_ok [OF assms] by blast

text \<open>Every file but one is spared.\<close>

definition spares :: "path \<Rightarrow> world \<Rightarrow> world \<Rightarrow> bool" where
  "spares p w w' \<longleftrightarrow> (\<forall>q b m. q \<noteq> p \<and> lookup w q = Some (FileN b m) \<longrightarrow> lookup w' q = Some (FileN b m))"

interpretation spare: effect_order "on_fst (spares p)" for p
  by unfold_locales (auto simp: on_fst_def spares_def)

lemma spares_promote:
  assumes "layout_ok cfg"
  shows "steps (spares (channelPath cfg)) (promote P E cfg envelope)"
proof (rule stepsI)
  fix w r w' assume "promote P E cfg envelope w = (r, w')"
  from promote_decides [OF this] show "spares (channelPath cfg) w w'"
    using AtomicWrite_run [OF layout_channel(2,3) [OF assms]] by (fastforce simp: spares_def aw_effect_def)
qed

lemma spares_reuse:
  assumes "layout_ok (tgConfig opts)"
  shows "steps (on_fst (spares (channelPath (tgConfig opts)))) (reuse_release P E opts req release envelope)"
proof -
  have "steps (spares p) (ReadKey E q sz)" for p q sz
    by (rule stepsI) (auto simp: spares_def dest: ReadKey_run)
  moreover have "steps (on_fst (spares p)) (emit opts kind detail)" for p kind detail
    by (auto simp: steps_def emit_def modS_def on_fst_def spares_def)
  ultimately show ?thesis
    unfolding reuse_release_def Let_def
    by (intro spare.steps_rules steps_onFst spares_promote [OF assms])
qed

text \<open>A retry spends nothing: when the release file is already there, a trigger, however it ends, changes no
  file but the channel (the sequence counter, the release and the objects are untouched), and it succeeds only
  for an envelope that verifies under the publisher's key and names this release, source and kind.\<close>

theorem Trigger_retry_reuses:
  assumes "layout_ok (tgConfig opts)" and "releaseName P (pbReleasePrefix (wcPublish (tgConfig opts))) req = Inr release"
    and "file_bytes w (releaseFile (tgConfig opts) release) = Some env"
    and "regTrigger P E opts req (w, ev) = (r, w', ev')"
  shows "(\<forall>q b m. q \<noteq> channelPath (tgConfig opts) \<and> lookup w q = Some (FileN b m) \<longrightarrow> lookup w' q = Some (FileN b m))
    \<and> (\<forall>rel. r = Inr rel \<longrightarrow> rel = release \<and> (\<exists>key m d. key_of (tgConfig opts) w key
         \<and> Verify P env (edPublic key) (2 ^ 50) = Inr (m, d) \<and> mRelease m = release
         \<and> mSource m = sourceOf (tgConfig opts) req \<and> mKind m = ''docker-archive''))"
proof -
  let ?cfg = "tgConfig opts"
  obtain x w1 where rd: "osReadFile E (releaseFile ?cfg release) w = (x, w1)" by (rule prod.exhaust)
  have s1: "lookup w1 = lookup w" using stepsD [OF steps_silent_prims(2) rd] by (simp add: silent_def)
  have nx: "x \<noteq> Inl NotExist"
    using rd assms(3) by (auto simp: osReadFile_def prim_def Let_def file_bytes_def split: if_splits option.splits node.splits)
  show ?thesis
  proof (cases x)
    case (Inl e)
    then have "w' = w1" "\<forall>rel. r \<noteq> Inr rel"
      using assms(4) rd nx by (auto simp: regTrigger_def Let_def assms(2) bindM_def sm_run onFst_def attemptM_def)
    then show ?thesis using s1 by simp
  next
    case (Inr b)
    have b: "b = env" using osReadFile_ok [OF rd [unfolded Inr]] assms(3) by simp
    have run: "reuse_release P E opts req release env (w1, ev) = (r, w', ev')"
      using assms(4) rd Inr b by (simp add: regTrigger_def Let_def assms(2) bindM_def sm_run onFst_def attemptM_def)
    have "spares (channelPath ?cfg) w1 w'"
      using stepsD [OF spares_reuse [OF assms(1)] run] by (simp add: on_fst_def)
    moreover have "rel = release \<and> (\<exists>key m d. key_of ?cfg w key \<and> Verify P env (edPublic key) (2 ^ 50) = Inr (m, d)
        \<and> mRelease m = release \<and> mSource m = sourceOf ?cfg req \<and> mKind m = ''docker-archive'')" if "r = Inr rel" for rel
      using reuse_ok [OF run [unfolded that]] s1 by (auto simp: key_of_def file_bytes_def)
    ultimately show ?thesis using s1 by (auto simp: spares_def)
  qed
qed

section \<open>Witnesses\<close>

definition demo_request :: publish_request where
  "demo_request = \<lparr>prRepo = ''app'', prTag = ''v1'', prDigest = ''sha256:aa''\<rparr>"

definition demo_config :: watch_config where
  "demo_config = \<lparr>wcRegistryURL = ''https://h'', wcPoll = 30000000000, wcRepos = [\<lparr>rpName = ''app'', rpAllow = [], rpIgnore = []\<rparr>],
     wcStateFile = [''state''], wcPublish = \<lparr>pbRoot = [''store''], pbKey = [''k''], pbChannel = ''stable'', pbReleasePrefix = [],
     pbSequenceFile = [''seq'']\<rparr>, wcUsername = [], wcPasswordEnv = []\<rparr>"

definition demo_name :: string where
  "demo_name = ''app-v1-'' @ Hash (bytes_of (''app'' @ CHR 0x00 # ''v1'' @ CHR 0x00 # ''sha256:aa''))"

definition demo_release :: manifest where
  "demo_release = demo_manifest\<lparr>mRelease := demo_name, mSource := sourceOf demo_config demo_request, mKind := ''docker-archive''\<rparr>"

definition demo_oci :: oci_prims where
  "demo_oci = reg_prims.extend (demo_reg_prims\<lparr>jsonManifestDec := (\<lambda>_. Inr demo_release)\<rparr>)
     (oci_prims.fields (\<lambda>_ _. Some True) (\<lambda>_. Inl (Msg ''yaml'')) (\<lambda>_. []) (\<lambda>_. Inr ()) (\<lambda>s _. Inr s) (\<lambda>_ _ _. Inl TransportError))"

definition demo_opts :: trigger_opts where
  "demo_opts = \<lparr>tgConfig = demo_config, tgEvent = True, tgClient = None\<rparr>"

definition demo_env :: bytes where
  "demo_env = Sign demo_prims demo_manifest (replicate 64 1)"

definition demo_signed :: world where
  "demo_signed = put_node [''store''] DirN (put_node [''store'', ''releases''] DirN
     (put_node [''store'', ''releases'', demo_name @ ''.json''] (FileN demo_env 420)
     (put_node [''seq''] (FileN (sequenceText 41) 384) demo_world)))"

lemma demo_oci_sel:
  "edVerify demo_oci = edVerify demo_prims" "jsonEnvelopeDec demo_oci = jsonEnvelopeDec demo_prims"
  "jsonManifestDec demo_oci b = Inr demo_release" "newHash demo_oci s = Inr ()"
  by (simp_all add: demo_oci_def demo_reg_prims_def demo_hub_def prims.defs hub_prims.defs reg_prims.defs oci_prims.defs demo_prims_def)

lemma demo_releaseName: "releaseName demo_oci [] demo_request = Inr demo_name"
proof -
  have "sanitize ''app'' = ''app''" "sanitize ''v1'' = ''v1''" by code_simp+
  then show ?thesis by (simp add: releaseName_def demo_oci_sel demo_request_def demo_name_def Let_def)
qed

lemma demo_name_safe: "safeRelease demo_name"
proof -
  have "isReleaseChar c" if "is_hex c" for c using that by (auto simp: is_hex_def isReleaseChar_def isAlnum_def Let_def)
  moreover have "list_all is_hex (Hash b)" "length (Hash b) = 64" for b using hexDigest_Hash [of b] by (simp_all add: hexDigest_def)
  ultimately have "list_all isReleaseChar (Hash b)" "length (Hash b) = 64" for b by (auto simp: list_all_iff)
  then show ?thesis by (simp add: safeRelease_def demo_name_def isAlnum_def isReleaseChar_def)
qed

lemma demo_oci_verify: "Verify demo_oci demo_env (edPublic (replicate 64 1)) (2 ^ 50) = Inr (demo_release, Hash [1])"
proof -
  have "manifest_ok demo_release (2 ^ 50)"
    using demo_manifest_ok demo_name_safe by (simp add: manifest_ok_def demo_release_def demo_manifest_def)
  then show ?thesis
    using demo_sign_short
    by (simp add: Verify_ok_iff demo_env_def Sign_def demo_prims_sel demo_oci_sel Let_def edPublic_def del: base64_encode.simps)
qed

lemma demo_signed_lookup:
  "lookup demo_signed q = (if q = [''store''] \<or> q = [''store'', ''releases''] then Some DirN
     else if q = [''store'', ''releases'', demo_name @ ''.json''] then Some (FileN demo_env 420)
     else if q = [''seq''] then Some (FileN (sequenceText 41) 384) else lookup demo_world q)"
  by (simp add: demo_signed_def lookup_def put_node_def update_conv')

lemma demo_paths:
  "releaseFile demo_config demo_name = [''store'', ''releases'', demo_name @ ''.json'']"
  "channelPath demo_config = [''store'', ''releases'', ''stable.json'']" "layout_ok demo_config"
proof -
  have "safeRelease ''stable''" by (simp add: safeRelease_def isAlnum_def isReleaseChar_def)
  then show "layout_ok demo_config" by (simp add: layout_ok_def demo_config_def)
  show "releaseFile demo_config demo_name = [''store'', ''releases'', demo_name @ ''.json'']"
    by (simp add: releaseFile_plain [OF demo_name_safe] releasePath_def demo_config_def)
  show "channelPath demo_config = [''store'', ''releases'', ''stable.json'']"
    using \<open>layout_ok demo_config\<close> by (simp add: layout_channel(1) releasePath_def demo_config_def)
qed

abbreviation calm_machine :: env where
  "calm_machine \<equiv> (env_fail_at 0)\<lparr>io_fails := \<lambda>_. False\<rparr>"

lemma calm_read: "osReadFile calm_machine p w = ((case lookup w p of None \<Rightarrow> Inl NotExist | Some DirN \<Rightarrow> Inl IOError | Some (FileN b m) \<Rightarrow> Inr b), w\<lparr>tick := Suc (tick w)\<rparr>)"
  by (simp add: osReadFile_def prim_def env_fail_at_def split: option.splits node.splits)

lemma demo_trigger_runs: "\<exists>w' ev'. regTrigger demo_oci calm_machine demo_opts demo_request (demo_signed, []) = (Inr demo_name, w', ev')"
proof -
  let ?w = "\<lambda>n. demo_signed\<lparr>tick := n\<rparr>"
  have cfg: "pbReleasePrefix (wcPublish demo_config) = []" "pbKey (wcPublish demo_config) = [''k'']" by (simp_all add: demo_config_def)
  have lk: "lookup (?w n) = lookup demo_signed" for n by (simp add: fun_eq_iff)
  have "length (replicate 64 (1 :: byte)) = PrivateKeySize" by (simp add: PrivateKeySize_def)
  then have key: "parseKey (keyText (replicate 64 1)) PrivateKeySize = Inr (replicate 64 1)"
    by (metis parseKey_keyText)
  have rk: "ReadKey calm_machine [''k''] PrivateKeySize w = (Inr (replicate 64 1), w\<lparr>tick := Suc (tick w)\<rparr>)"
    if "lookup w = lookup demo_signed" for w
    using key by (simp add: ReadKey_def bindM_def calm_read that demo_signed_lookup demo_lookup)
  have "open_path w (channelPath demo_config)" "fresh_temps w" if "lookup w = lookup demo_signed" for w
    unfolding open_path_def fresh_temps_def that demo_paths demo_signed_lookup demo_lookup
    by (auto simp: strict_prefix_def prefix_Cons tmpPrefix_def demo_name_def)
  then have aw: "\<exists>w'. AtomicWrite calm_machine (channelPath demo_config) demo_env 420 w = (Inr (), w')" if "lookup w = lookup demo_signed" for w
    using AtomicWrite_live [OF demo_calm] layout_channel(3) [OF demo_paths(3)] that by blast
  have pr: "\<exists>w'. promote demo_oci calm_machine demo_config demo_env w = (Inr (), w')" if "lookup w = lookup demo_signed" for w
  proof -
    have "lookup w (channelPath demo_config) = None"
      unfolding that demo_paths demo_signed_lookup demo_lookup by (simp add: demo_name_def)
    moreover have "lookup (w\<lparr>tick := Suc (tick w)\<rparr>) = lookup demo_signed" using that by (simp add: fun_eq_iff)
    ultimately show ?thesis using aw by (simp add: promote_def bindM_def attemptM_def calm_read)
  qed
  obtain w' where w': "promote demo_oci calm_machine demo_config demo_env (?w (Suc (Suc (tick demo_signed)))) = (Inr (), w')"
    using pr [OF lk] by blast
  have "regTrigger demo_oci calm_machine demo_opts demo_request (demo_signed, [])
      = reuse_release demo_oci calm_machine demo_opts demo_request demo_name demo_env (?w (Suc (tick demo_signed)), [])"
    using demo_releaseName
    by (simp add: regTrigger_def Let_def demo_opts_def cfg bindM_def sm_run onFst_def attemptM_def calm_read demo_paths demo_signed_lookup)
  also have "\<dots> = (Inr demo_name, w', [(''release-published'', publishedDetail demo_name demo_request (mSequence demo_release))])"
    using rk [OF lk, of "Suc (tick demo_signed)"] w' demo_oci_verify
    by (simp add: reuse_release_def Let_def demo_opts_def bindM_def onFst_def sm_run emit_def modS_def demo_release_def cfg)
  finally show ?thesis by blast
qed

theorem Trigger_promotes_witness:
  "\<exists>w'. (\<exists>ev'. regTrigger demo_oci calm_machine demo_opts demo_request (demo_signed, []) = (Inr demo_name, w', ev'))
     \<and> (\<exists>env. file_bytes w' [''store'', ''releases'', demo_name @ ''.json''] = Some env \<and> ahead demo_oci demo_config w' env)"
proof -
  obtain w' ev' where run: "regTrigger demo_oci calm_machine demo_opts demo_request (demo_signed, []) = (Inr demo_name, w', ev')"
    using demo_trigger_runs by blast
  have "layout_ok (tgConfig demo_opts)" by (simp add: demo_opts_def demo_paths)
  from Trigger_promotes [OF this run] run show ?thesis by (auto simp: demo_opts_def demo_paths)
qed

theorem Trigger_retry_reuses_witness:
  "\<exists>w'. (\<exists>ev'. regTrigger demo_oci calm_machine demo_opts demo_request (demo_signed, []) = (Inr demo_name, w', ev'))
     \<and> lookup w' [''seq''] = Some (FileN (sequenceText 41) 384)"
proof -
  obtain w' ev' where run: "regTrigger demo_oci calm_machine demo_opts demo_request (demo_signed, []) = (Inr demo_name, w', ev')"
    using demo_trigger_runs by blast
  have "layout_ok (tgConfig demo_opts)" "releaseName demo_oci (pbReleasePrefix (wcPublish (tgConfig demo_opts))) demo_request = Inr demo_name"
    "file_bytes demo_signed (releaseFile (tgConfig demo_opts) demo_name) = Some demo_env"
    using demo_releaseName by (simp_all add: demo_opts_def demo_paths) (simp_all add: demo_config_def file_bytes_def demo_signed_lookup)
  note retry = Trigger_retry_reuses [OF this run]
  have "lookup demo_signed [''seq''] = Some (FileN (sequenceText 41) 384)" "[''seq''] \<noteq> channelPath (tgConfig demo_opts)"
    by (simp_all add: demo_signed_lookup demo_opts_def demo_paths)
  with conjunct1 [OF retry] run show ?thesis by blast
qed

theorem promote_never_rolls_back_witness:
  "lookup (snd (promote demo_oci calm_machine demo_config [7] demo_signed)) [''seq''] = Some (FileN (sequenceText 41) 384)"
proof -
  obtain r w' where run: "promote demo_oci calm_machine demo_config [7] demo_signed = (r, w')" by (rule prod.exhaust)
  have "lookup demo_signed [''seq''] = Some (FileN (sequenceText 41) 384)" "[''seq''] \<noteq> channelPath demo_config"
    by (simp_all add: demo_signed_lookup demo_paths)
  with promote_never_rolls_back [OF run layout_channel(2,3) [OF demo_paths(3)]] show ?thesis by (simp add: run)
qed

theorem nextSequence_counts_witness:
  "case nextSequence calm_machine [''seq''] demo_signed of (Inr n, w') \<Rightarrow> unat n = 42 \<and> sequence_at w' [''seq''] n | (Inl _, _) \<Rightarrow> True"
proof -
  obtain r w' where run: "nextSequence calm_machine [''seq''] demo_signed = (r, w')" by (rule prod.exhaust)
  have "[''seq''] \<noteq> []" "\<not> is_temp [''seq'']" by (simp_all add: is_temp_def isTempName_def tmpPrefix_def)
  note counts = nextSequence_counts [OF run this]
  have old: "old = 41" if "sequence_at demo_signed [''seq''] old" for old
    using that by (simp add: sequence_at_def file_bytes_def demo_signed_lookup sscanf_sequenceText)
  show ?thesis
  proof (cases r)
    case (Inr n)
    then obtain o' where "sequence_at demo_signed [''seq''] o'" "unat n = unat o' + 1" "sequence_at w' [''seq''] n" using counts by blast
    then show ?thesis using old [of o'] by (simp add: run Inr)
  qed (simp add: run)
qed

end
