(* ===== verification/RegistryFiles.thy ===== *)
theory RegistryFiles
  imports RegistryPublish
begin

text \<open>
  \<open>src/internal/registry/fs.go\<close>: the registry package's names for reading and writing files, the credentials as the image
  library asks for them, and a second sequence counter beside the one in use.
\<close>

definition readFile :: "env \<Rightarrow> path \<Rightarrow> bytes io" where
  "readFile E p = osReadFile E p"

definition atomicWrite :: "env \<Rightarrow> path \<Rightarrow> bytes \<Rightarrow> nat \<Rightarrow> unit io" where
  "atomicWrite E p b mode = AtomicWrite E p b mode"

text \<open>\<open>basicAuther\<close>: the user name and password, and no error.\<close>

definition Authorization :: "auth_config \<Rightarrow> (string \<times> string) result" where
  "Authorization a = Inr (acUsername a, acPassword a)"

definition nextSequenceFile :: "env \<Rightarrow> path \<Rightarrow> u64 io" where
  "nextSequenceFile E p =
     bindM (attemptM (osReadFile E p)) (\<lambda>r.
     bindM (case r of
         Inr b \<Rightarrow> liftR (case sscanfUint (trimSpace (string_of b)) of Inl e \<Rightarrow> Inl (Wrap ''sequence file'' e) | Inr n \<Rightarrow> Inr n)
       | Inl e \<Rightarrow> if e \<noteq> NotExist then throw e else ret 0) (\<lambda>old.
     (let seq = old + 1 in
      bindM (atomicWrite E p (sequenceText seq) 384) (\<lambda>_. ret seq))))"

section \<open>The two counters\<close>

lemma nextSequenceFile_alt:
  "nextSequenceFile E p = bindM (readSequence E p) (\<lambda>old. bindM (AtomicWrite E p (sequenceText (old + 1)) 384) (\<lambda>_. ret (old + 1)))"
  by (simp add: nextSequenceFile_def readSequence_def atomicWrite_def bindM_assoc Let_def)

text \<open>Below the largest number they are the same; there, the counter in use stops and this one starts over from zero.\<close>

lemma counters_agree:
  assumes "readSequence E p w = (r, w1)" and "r \<noteq> Inr (- 1)"
  shows "nextSequenceFile E p w = nextSequence E p w"
proof -
  have "old + 1 \<noteq> 0" if "r = Inr old" for old using assms(2) that by (metis eq_neg_iff_add_eq_0)
  then show ?thesis using assms(1)
    by (cases r) (auto simp: nextSequenceFile_alt nextSequence_def bindM_def Let_def)
qed

lemma counter_wraps:
  assumes "readSequence E p w = (Inr (- 1), w1)" and "AtomicWrite E p (sequenceText 0) 384 w1 = (Inr (), w2)"
  shows "nextSequenceFile E p w = (Inr 0, w2)" "nextSequence E p w = (Inl (Msg ''sequence exhausted''), w1)"
  using assms by (simp_all add: nextSequenceFile_alt nextSequence_def bindM_def Let_def sm_run)

end
