(* ===== verification/ReceiverLoop.thy ===== *)
theory ReceiverLoop
  imports SyncRun Conf Trigger
begin

text \<open>
  The receiver, \<open>src/internal/receiverloop/run.go\<close> and \<open>src/receiver/receiver.go\<close>: runs of the agent one after
  another, at the poll interval or sooner when an announcement passes the spoke's gate. What goes on while the loop
  runs, the announcements among it, is taken in before each wait.
\<close>

section \<open>The loop\<close>

text \<open>\<open>lvKick\<close> is the channel of capacity one; the callbacks' arguments and what was reported on announcements are logged.\<close>

record loop_vars =
  lvKick :: bool
  lvErrors :: "error list"
  lvSynced :: "summary list"
  lvHints :: "(error + manifest) list"

type_synonym 'a rl = "(world \<times> loop_vars, 'a) sm"

definition start_vars :: loop_vars where
  "start_vars = \<lparr>lvKick = False, lvErrors = [], lvSynced = [], lvHints = []\<rparr>"

definition syncAndSummarise :: "'x agent_prims_scheme \<Rightarrow> env \<Rightarrow> nat \<Rightarrow> agent_options \<Rightarrow> summary io" where
  "syncAndSummarise P E fuel o' = bindM (syncIO P E fuel o') (\<lambda>s. bindM (WriteSummary P E (oStateDir o') s) (\<lambda>_. ret s))"

definition onAnnounce :: "'x agent_prims_scheme \<Rightarrow> bytes \<Rightarrow> int \<Rightarrow> announce \<Rightarrow> loop_vars \<Rightarrow> loop_vars" where
  "onAnnounce P pub mx h v = (let r = Accept P h pub mx in
     v\<lparr>lvHints := lvHints v @ [r], lvKick := (case r of Inl _ \<Rightarrow> lvKick v | Inr _ \<Rightarrow> True)\<rparr>)"

text \<open>The \<open>select\<close>: with a kick at hand either it or the timer may be chosen, and a kick not chosen stays.\<close>

definition waitNext :: "env \<Rightarrow> int \<Rightarrow> unit rl" where
  "waitNext E poll = bindM getS (\<lambda>v.
     bindM (\<lambda>st. (Inr (odd (sched E (tick (fst st)))), ((fst st)\<lparr>tick := Suc (tick (fst st))\<rparr>, snd st))) (\<lambda>kicked.
     if lvKick v \<and> kicked then modS (\<lambda>v. v\<lparr>lvKick := False\<rparr>) else onFst (sleepFor E poll)))"

definition loopRound :: "'x agent_prims_scheme \<Rightarrow> env \<Rightarrow> nat \<Rightarrow> agent_options \<Rightarrow> int \<Rightarrow> bytes \<Rightarrow> announce list \<Rightarrow> unit rl" where
  "loopRound P E fuel o' poll pub hints =
     bindM (onFst (ctxErr E)) (\<lambda>_.
     bindM (onFst (attemptM (syncAndSummarise P E fuel o'))) (\<lambda>r.
     bindM (onFst (ctxErr E)) (\<lambda>_.
     bindM (modS (\<lambda>v. case r of Inl e \<Rightarrow> v\<lparr>lvErrors := lvErrors v @ [e]\<rparr> | Inr s \<Rightarrow> v\<lparr>lvSynced := lvSynced v @ [s]\<rparr>)) (\<lambda>_.
     bindM (modS (fold (onAnnounce P pub (oMaxArtifact o')) hints)) (\<lambda>_.
     waitNext E poll)))))"

text \<open>The rounds, one for every list of announcements; the result \<open>Inr ()\<close> is a loop still running.\<close>

fun loopRounds :: "'x agent_prims_scheme \<Rightarrow> env \<Rightarrow> nat \<Rightarrow> agent_options \<Rightarrow> int \<Rightarrow> bytes \<Rightarrow> announce list list \<Rightarrow> unit rl" where
  "loopRounds P E fuel o' poll pub [] = ret ()"
| "loopRounds P E fuel o' poll pub (hints # rest) =
     bindM (loopRound P E fuel o' poll pub hints) (\<lambda>_. loopRounds P E fuel o' poll pub rest)"

section \<open>Starting\<close>

fun validateURLs :: "'x hub_prims_scheme \<Rightarrow> hub_config \<Rightarrow> string list \<Rightarrow> unit result" where
  "validateURLs P c [] = Inr ()"
| "validateURLs P c (raw # raws) = (if raw = [] then validateURLs P c raws
     else bindR (ValidateURL P c raw) (\<lambda>_. validateURLs P c raws))"

definition eventsURL_ok :: "agent_options \<Rightarrow> string \<Rightarrow> bool" where
  "eventsURL_ok o' url \<longleftrightarrow> url = [] \<or> hasPrefix url ''wss://'' \<or> oAllowHTTP o' \<and> hasPrefix url ''ws://''"

definition loopSetup :: "'x agent_prims_scheme \<Rightarrow> env \<Rightarrow> agent_options \<Rightarrow> int \<Rightarrow> string \<Rightarrow> bytes option io" where
  "loopSetup P E o' poll eventsURL =
     bindM (guardM (0 < poll) (Msg ''poll must be positive'')) (\<lambda>_.
     bindM (TLSConfig P E (oHubTLS o')) (\<lambda>_.
     bindM (liftR (validateURLs P (oHubTLS o') [oManifestURL o', oBaseURL o', oReceiptURL o', eventsURL])) (\<lambda>_.
     bindM (guardM (eventsURL_ok o' eventsURL) (Msg ''events URL requires WSS (WS requires allow-http)'')) (\<lambda>_.
     bindM (ctxErr E) (\<lambda>_.
     if eventsURL \<noteq> [] \<and> \<not> oOffline o'
     then bindM (liftR (ValidateURL P (oHubTLS o') eventsURL)) (\<lambda>_.
          bindM (ReadKey E (oPublicKey o') PublicKeySize) (\<lambda>pub.
          bindM (TLSConfig P E (oHubTLS o')) (\<lambda>_. ret (Some pub))))
     else ret None)))))"

text \<open>Without an events URL, and offline, no announcement is received.\<close>

definition loopRun :: "'x agent_prims_scheme \<Rightarrow> env \<Rightarrow> nat \<Rightarrow> agent_options \<Rightarrow> int \<Rightarrow> string \<Rightarrow> announce list list \<Rightarrow> unit rl" where
  "loopRun P E fuel o' poll eventsURL hints =
     bindM (onFst (loopSetup P E o' poll eventsURL)) (\<lambda>pub. case pub of
         Some k \<Rightarrow> loopRounds P E fuel o' poll k hints
       | None \<Rightarrow> loopRounds P E fuel o' poll [] (map (\<lambda>_. []) hints))"

section \<open>The embedding interface\<close>

text \<open>\<open>Config\<close>: the agent's options with the poll interval and the events URL. \<open>rxOnSync\<close>: the hook is given.\<close>

record receiver_config =
  rxOptions :: agent_options
  rxPoll :: int
  rxEventsURL :: string
  rxOnError :: bool
  rxOnSync :: bool

record receiver_agent =
  rgConfig :: receiver_config
  rgRunning :: bool

definition DefaultConfig :: receiver_config where
  "DefaultConfig = (let d = DefaultAgentOptions in \<lparr>rxOptions = d\<lparr>oDeviceID := [], oOffline := False, oDockerLoad := False, oAllowHTTP := False\<rparr>,
     rxPoll = 30000000000, rxEventsURL = [], rxOnError = False, rxOnSync = False\<rparr>)"

definition plaintextURL :: "string \<Rightarrow> bool" where
  "plaintextURL raw \<longleftrightarrow> hasPrefix raw ''http:'' \<or> hasPrefix raw ''ws:''"

fun receiverURLs :: "'x hub_prims_scheme \<Rightarrow> agent_options \<Rightarrow> string list \<Rightarrow> unit result" where
  "receiverURLs P o' [] = Inr ()"
| "receiverURLs P o' (raw # raws) = (if raw = [] then receiverURLs P o' raws
     else bindR (ValidateURL P (oHubTLS o') raw) (\<lambda>_.
          bindR (guardR (\<not> (\<not> oAllowHTTP o' \<and> plaintextURL raw)) (Msg ''plaintext requires AllowHTTP'')) (\<lambda>_.
          receiverURLs P o' raws)))"

definition receiverNew :: "'x agent_prims_scheme \<Rightarrow> env \<Rightarrow> receiver_config \<Rightarrow> receiver_agent io" where
  "receiverNew P E c = (let o' = rxOptions c in
     bindM (guardM (\<not> (rxPoll c \<le> 0 \<or> oStateDir o' = [] \<or> oPublicKey o' = [] \<or> oWorkers o' < 1 \<or> oWorkers o' > 32 \<or> oBackoff o' \<le> 0
         \<or> oMaxBackoff o' < oBackoff o' \<or> oRequestTimeout o' \<le> 0 \<or> oMaxArtifact o' \<le> 0 \<or> oReserveBytes o' < 0))
         (Msg ''invalid receiver configuration (start with DefaultConfig)'')) (\<lambda>_.
     bindM (guardM (\<not> (\<not> oOffline o' \<and> (oManifestURL o' = [] \<or> oBaseURL o' = []))) (Msg ''receiver requires manifest and base URLs'')) (\<lambda>_.
     bindM (liftR (receiverURLs P o' [oManifestURL o', oBaseURL o', oReceiptURL o', rxEventsURL c])) (\<lambda>_.
     bindM (TLSConfig P E (oHubTLS o')) (\<lambda>_.
     bindM (ReadKey E (oPublicKey o') PublicKeySize) (\<lambda>_.
     ret \<lparr>rgConfig = c, rgRunning = False\<rparr>))))))"

text \<open>\<open>Result\<close>: what the hook is told of a summary.\<close>

record receiver_result =
  rrRelease :: string
  rrPhase :: string
  rrArtifact :: path
  rrSequence :: u64

definition resultOf :: "summary \<Rightarrow> receiver_result" where
  "resultOf s = \<lparr>rrRelease = suRelease s, rrPhase = suPhase s, rrArtifact = suArtifact s, rrSequence = suSequence s\<rparr>"

text \<open>\<open>Run\<close>, with the calls made to the two hooks.\<close>

definition receiverRun :: "'x agent_prims_scheme \<Rightarrow> env \<Rightarrow> nat \<Rightarrow> receiver_agent \<Rightarrow> announce list list \<Rightarrow> world \<Rightarrow>
    unit result \<times> world \<times> error list \<times> receiver_result list" where
  "receiverRun P E fuel a hints w =
     (if rgRunning a then (Inl (Msg ''receiver already running''), w, [], [])
      else (case ctxErr E w of
          (Inl e, w1) \<Rightarrow> (Inl e, w1, [], [])
        | (Inr _, w1) \<Rightarrow> (let c = rgConfig a in
            (case loopRun P E fuel (rxOptions c) (rxPoll c) (rxEventsURL c) hints (w1, start_vars) of
               (r, w2, v) \<Rightarrow> (r, w2, if rxOnError c then lvErrors v else [], if rxOnSync c then map resultOf (lvSynced v) else [])))))"

section \<open>Effects of a round\<close>

lemma ahead_same: "lookup w' (statePath dir) = lookup w (statePath dir) \<Longrightarrow> ahead P dir w w'"
  by (auto simp: ahead_def split: option.split)

lemma ahead_of_frame:
  assumes "steps (only_at K) m" and "\<not> K (statePath dir)"
  shows "steps (ahead P dir) m"
proof (rule stepsI)
  fix w r w' assume "m w = (r, w')"
  then have "lookup w' (statePath dir) = lookup w (statePath dir)" using stepsD [OF assms(1)] assms(2) by (simp add: only_at_def)
  then show "ahead P dir w w'" by (rule ahead_same)
qed

lemma ahead_still: "steps (only_at (\<lambda>_. False)) m \<Longrightarrow> steps (ahead P dir) m"
  by (erule ahead_of_frame) simp

interpretation ahead_fst: effect_order "on_fst (ahead P dir)" for P dir
  by (rule on_fst_order) (rule aheadR.effect_order_axioms)

lemma ahead_WriteSummary: "steps (ahead P dir) (WriteSummary P2 E dir s)"
proof -
  have "steps (only_at (\<lambda>q. q \<noteq> statePath dir)) (AtomicWrite E (dir @ [n]) b 384)"
    "steps (only_at (\<lambda>q. q \<noteq> statePath dir)) (AtomicWrite E (dir @ [n]) b 420)"
    if "n = ''summary.json'' \<or> n = ''agent.prom''" for n b
    by (rule steps_AtomicWrite; use that statePath_plain in \<open>auto simp: is_temp_def isTempName_def tmpPrefix_def statePath_def strict_prefix_def\<close>)+
  then have "steps (only_at (\<lambda>q. q \<noteq> statePath dir)) (WriteSummary P2 E dir s)"
    unfolding WriteSummary_def by (intro frame.steps_rules steps_quiet) auto
  then show ?thesis by (rule ahead_of_frame) simp
qed

lemma ahead_syncIO: "steps (on_fst (ahead P dir)) (Sync P E fuel o') \<Longrightarrow> steps (ahead P dir) (syncIO P E fuel o')"
  by (rule stepsI) (auto simp: syncIO_def on_fst_def dest: stepsD split: prod.splits sum.splits)

lemma ahead_local:
  "steps (on_fst (ahead P dir)) getS" "steps (on_fst (ahead P dir)) (modS f)" "steps (on_fst (ahead P dir)) (waitNext E poll)"
proof -
  show local: "steps (on_fst (ahead P dir)) getS" "steps (on_fst (ahead P dir)) (modS f)" for f :: "'t \<Rightarrow> 't"
    using aheadR.R_refl by (auto simp: steps_def on_fst_def getS_def modS_def)
  have "ahead P dir w (w\<lparr>tick := n\<rparr>)" for w n by (rule ahead_same) simp
  then have pick: "steps (on_fst (ahead P dir)) (\<lambda>st. (Inr (odd (sched E (tick (fst st)))), ((fst st)\<lparr>tick := Suc (tick (fst st))\<rparr>, snd st)))"
    by (simp add: steps_def on_fst_def)
  show "steps (on_fst (ahead P dir)) (waitNext E poll)"
    unfolding waitNext_def by (intro ahead_fst.steps_rules local pick steps_onFst ahead_still steps_quiet)
qed

lemma ahead_rounds:
  assumes "steps (on_fst (ahead P (oStateDir o'))) (Sync P E fuel o')"
  shows "steps (on_fst (ahead P (oStateDir o'))) (loopRounds P E fuel o' poll pub hs)"
proof (induction hs)
  case (Cons hints hs)
  have run: "steps (ahead P (oStateDir o')) (syncAndSummarise P E fuel o')"
    unfolding syncAndSummarise_def by (intro aheadR.steps_rules ahead_syncIO ahead_WriteSummary assms)
  show ?case
    unfolding loopRounds.simps loopRound_def
    by (intro ahead_fst.steps_rules ahead_local steps_onFst aheadR.steps_attemptM run ahead_still [OF steps_quiet(8)] Cons)
qed (simp add: ahead_fst.steps_ret)

lemma setup_still: "steps (only_at (\<lambda>_. False)) (loopSetup P E o' poll url)"
  unfolding loopSetup_def TLSConfig_def loadCA_def loadPair_def mapErr_def ReadKey_def
  by (intro frame.steps_rules steps_quiet)

lemma ahead_loopRun:
  assumes "steps (on_fst (ahead P (oStateDir o'))) (Sync P E fuel o')"
  shows "steps (on_fst (ahead P (oStateDir o'))) (loopRun P E fuel o' poll url hs)"
  unfolding loopRun_def by (intro ahead_fst.steps_rules steps_onFst ahead_still setup_still ahead_rounds assms)

section \<open>Reports\<close>

lemma hints_fold:
  "lvErrors (fold (onAnnounce P pub mx) hs v) = lvErrors v" "lvSynced (fold (onAnnounce P pub mx) hs v) = lvSynced v"
  by (induction hs arbitrary: v) (simp_all add: onAnnounce_def Let_def)

lemma waitNext_vars: "waitNext E poll (w, v) = (r, w', v') \<Longrightarrow> lvErrors v' = lvErrors v \<and> lvSynced v' = lvSynced v
    \<and> (\<forall>e. r = Inl e \<longrightarrow> e = Canceled)"
  by (auto simp: waitNext_def bindM_def getS_def modS_def onFst_def sleepFor_def Let_def split: if_splits)

text \<open>What was reported so far, between two states.\<close>

definition reported :: "nat \<Rightarrow> loop_vars \<Rightarrow> loop_vars \<Rightarrow> bool" where
  "reported n v v' \<longleftrightarrow> (\<exists>errs syncs. lvErrors v' = lvErrors v @ errs \<and> lvSynced v' = lvSynced v @ syncs \<and> length errs + length syncs = n)"

lemma reported_trans: "reported a v v1 \<Longrightarrow> reported b v1 v2 \<Longrightarrow> reported (a + b) v v2"
  unfolding reported_def by (elim exE conjE) (rule_tac x = "errs @ errsa" in exI, rule_tac x = "syncs @ syncsa" in exI, simp)

lemma reported_same: "lvErrors v' = lvErrors v \<Longrightarrow> lvSynced v' = lvSynced v \<Longrightarrow> reported 0 v v'"
  by (simp add: reported_def)

lemma loopRound_reports:
  assumes "loopRound P E fuel o' poll pub hints (w, v) = (r, w', v')"
  shows "(\<exists>n \<le> 1. reported n v v' \<and> (r = Inr () \<longrightarrow> n = 1)) \<and> (\<forall>e. r = Inl e \<longrightarrow> e = Canceled)"
proof -
  obtain c w1 where c: "ctxErr E w = (c, w1)" by (rule prod.exhaust)
  obtain x w2 where x: "syncAndSummarise P E fuel o' w1 = (x, w2)" by (rule prod.exhaust)
  obtain d w3 where d: "ctxErr E w2 = (d, w3)" by (rule prod.exhaust)
  have cancel: "c = Inl e \<Longrightarrow> e = Canceled" "d = Inl e \<Longrightarrow> e = Canceled" for e
    using c d by (auto simp: ctxErr_def Let_def split: if_splits)
  note at = loopRound_def bindM_def onFst_def attemptM_def modS_def
  consider e where "c = Inl e" | u e where "c = Inr u" "d = Inl e" | u u2 where "c = Inr u" "d = Inr u2" by (cases c; cases d) auto
  then show ?thesis
  proof cases
    case 1
    then have "v' = v" "r = Inl e" using assms c by (simp_all add: at)
    then show ?thesis using cancel(1) 1 by (auto intro!: exI [of _ 0] reported_same)
  next
    case 2
    then have "v' = v" "r = Inl e" using assms c x d by (simp_all add: at)
    then show ?thesis using cancel(2) 2 by (auto intro!: exI [of _ 0] reported_same)
  next
    case ok: 3
    let ?v1 = "case x of Inl e \<Rightarrow> v\<lparr>lvErrors := lvErrors v @ [e]\<rparr> | Inr s \<Rightarrow> v\<lparr>lvSynced := lvSynced v @ [s]\<rparr>"
    let ?v2 = "fold (onAnnounce P pub (oMaxArtifact o')) hints ?v1"
    have wait: "waitNext E poll (w3, ?v2) = (r, w', v')" using assms c x d ok by (cases x) (simp_all add: at)
    have "reported 1 v ?v1" by (cases x) (simp_all add: reported_def)
    moreover have "reported 0 ?v1 v'" using waitNext_vars [OF wait] hints_fold by (intro reported_same) simp_all
    ultimately have "reported 1 v v'" using reported_trans by fastforce
    then show ?thesis using waitNext_vars [OF wait] by auto
  qed
qed

lemma loopRounds_reports:
  assumes "loopRounds P E fuel o' poll pub hs (w, v) = (r, w', v')"
  shows "(\<exists>n \<le> length hs. reported n v v' \<and> (r = Inr () \<longrightarrow> n = length hs)) \<and> (\<forall>e. r = Inl e \<longrightarrow> e = Canceled)"
  using assms
proof (induction hs arbitrary: w v)
  case Nil
  then show ?case by (auto intro: reported_same)
next
  case (Cons hints hs)
  obtain x w1 v1 where x: "loopRound P E fuel o' poll pub hints (w, v) = (x, w1, v1)" by (rule prod_cases3)
  obtain n where n: "n \<le> 1" "reported n v v1" "x = Inr () \<longrightarrow> n = 1" and e: "\<forall>e. x = Inl e \<longrightarrow> e = Canceled"
    using loopRound_reports [OF x] by blast
  show ?case
  proof (cases x)
    case (Inl e')
    then have "r = Inl e'" "v' = v1" using Cons.prems x by (simp_all add: bindM_def)
    then show ?thesis using n e Inl by (auto intro!: exI [of _ n])
  next
    case (Inr u)
    then have rest: "loopRounds P E fuel o' poll pub hs (w1, v1) = (r, w', v')" using Cons.prems x by (simp add: bindM_def)
    obtain k where k: "k \<le> length hs" "reported k v1 v'" "r = Inr () \<longrightarrow> k = length hs" and e2: "\<forall>e. r = Inl e \<longrightarrow> e = Canceled"
      using Cons.IH [OF rest] by blast
    have "reported (1 + k) v v'" using reported_trans [OF n(2) k(2)] n(3) Inr by simp
    then show ?thesis using k e2 by (intro conjI exI [of _ "1 + k"]) auto
  qed
qed

section \<open>Docker\<close>

lemma setup_log: "steps same_log (loopSetup P E o' poll url)"
  unfolding loopSetup_def TLSConfig_def loadCA_def loadPair_def mapErr_def ReadKey_def
  by (intro log_rules)

lemma rounds_no_docker:
  assumes "state_dir_ok o'" and "\<not> oDockerLoad o'" and "loopRounds P E fuel o' poll pub hs (w, v) = (r, w', v')"
  shows "docker_log w' = docker_log w"
  using assms(3)
proof (induction hs arbitrary: w v)
  case (Cons hints hs)
  have sync: "docker_log w2 = docker_log w1" if "syncAndSummarise P E fuel o' w1 = (x, w2)" for x w1 w2
  proof -
    obtain y w3 where y: "syncIO P E fuel o' w1 = (y, w3)" by (rule prod.exhaust)
    have "docker_log w3 = docker_log w1" using syncIO_gate [OF y assms(1)] assms(2) by blast
    then show ?thesis using that y by (cases y) (auto simp: syncAndSummarise_def bindM_def sm_run dest: WriteSummary_log split: prod.splits sum.splits)
  qed
  have ctx: "docker_log w2 = docker_log w1" if "ctxErr E w1 = (c, w2)" for c w1 w2
    using that by (auto simp: ctxErr_def Let_def split: if_splits)
  have wait: "docker_log w2 = docker_log w1" if "waitNext E poll (w1, u) = (c, w2, u2)" for c w1 w2 u u2
    using that by (auto simp: waitNext_def bindM_def getS_def modS_def onFst_def sleepFor_def Let_def split: if_splits)
  obtain x w1 v1 where x: "loopRound P E fuel o' poll pub hints (w, v) = (x, w1, v1)" by (rule prod_cases3)
  have "docker_log w1 = docker_log w"
    using x by (auto simp: loopRound_def bindM_def onFst_def attemptM_def modS_def dest!: sync ctx wait split: prod.splits sum.splits)
  then show ?case using Cons x by (cases x) (auto simp: bindM_def)
qed simp

section \<open>Announcements are hints\<close>

text \<open>Announcements that do not pass the gate leave nothing but their report: the run is the one without them.\<close>

definition same_run :: "loop_vars \<Rightarrow> loop_vars \<Rightarrow> bool" where
  "same_run v u \<longleftrightarrow> v\<lparr>lvHints := []\<rparr> = u\<lparr>lvHints := []\<rparr>"

lemma rejected_fold:
  assumes "list_all (\<lambda>h. \<exists>e. Accept P h pub mx = Inl e) hs"
  shows "same_run (fold (onAnnounce P pub mx) hs v) v"
  using assms by (induction hs arbitrary: v) (auto simp: same_run_def onAnnounce_def Let_def)

lemma waitNext_same:
  assumes "waitNext E poll (w, v) = (r, w', v')" and "same_run v u"
  shows "\<exists>u'. waitNext E poll (w, u) = (r, w', u') \<and> same_run v' u'"
proof -
  have "lvKick v = lvKick u" using assms(2) by (cases v; cases u) (simp add: same_run_def)
  then show ?thesis using assms
    by (cases v; cases u) (auto simp: same_run_def waitNext_def bindM_def getS_def modS_def onFst_def split: if_splits prod.splits)
qed

lemma loopRound_same:
  assumes "loopRound P E fuel o' poll pub hints (w, v) = (r, w', v')" and "same_run v u"
    and "list_all (\<lambda>h. \<exists>e. Accept P h pub (oMaxArtifact o') = Inl e) hints"
  shows "\<exists>u'. loopRound P E fuel o' poll pub2 [] (w, u) = (r, w', u') \<and> same_run v' u'"
proof -
  obtain c w1 where c: "ctxErr E w = (c, w1)" by (rule prod.exhaust)
  obtain x w2 where x: "syncAndSummarise P E fuel o' w1 = (x, w2)" by (rule prod.exhaust)
  obtain d w3 where d: "ctxErr E w2 = (d, w3)" by (rule prod.exhaust)
  note at = loopRound_def bindM_def onFst_def attemptM_def modS_def
  consider e where "c = Inl e" | k e where "c = Inr k" "d = Inl e" | k l where "c = Inr k" "d = Inr l" by (cases c; cases d) auto
  then show ?thesis
  proof cases
    case 3
    let ?add = "\<lambda>v. case x of Inl e \<Rightarrow> v\<lparr>lvErrors := lvErrors v @ [e]\<rparr> | Inr s \<Rightarrow> v\<lparr>lvSynced := lvSynced v @ [s]\<rparr>"
    have wait: "waitNext E poll (w3, fold (onAnnounce P pub (oMaxArtifact o')) hints (?add v)) = (r, w', v')"
      using assms(1) c x d 3 by (cases x) (simp_all add: at)
    have "same_run (?add v) (?add u)" using assms(2) by (cases x; cases v; cases u) (auto simp: same_run_def)
    then have "same_run (fold (onAnnounce P pub (oMaxArtifact o')) hints (?add v)) (?add u)"
      using rejected_fold [OF assms(3), of "?add v"] by (simp add: same_run_def)
    from waitNext_same [OF wait this] obtain u' where "waitNext E poll (w3, ?add u) = (r, w', u')" "same_run v' u'" by blast
    then show ?thesis using c x d 3 by (cases x) (simp_all add: at)
  next
    case 1
    then have "r = Inl e" "w' = w1" "v' = v" using assms(1) c by (simp_all add: at)
    then show ?thesis using c 1 assms(2) by (simp add: at)
  next
    case 2
    then have "r = Inl e" "w' = w3" "v' = v" using assms(1) c x d by (simp_all add: at)
    then show ?thesis using c x d 2 assms(2) by (simp add: at)
  qed
qed

lemma loopRounds_same:
  assumes "loopRounds P E fuel o' poll pub hs (w, v) = (r, w', v')" and "same_run v u"
    and "list_all (list_all (\<lambda>h. \<exists>e. Accept P h pub (oMaxArtifact o') = Inl e)) hs"
  shows "\<exists>u'. loopRounds P E fuel o' poll pub2 (map (\<lambda>_. []) hs) (w, u) = (r, w', u') \<and> same_run v' u'"
  using assms
proof (induction hs arbitrary: w v u)
  case Nil
  then show ?case by (auto simp: sm_run)
next
  case (Cons hints hs)
  obtain x w1 v1 where x: "loopRound P E fuel o' poll pub hints (w, v) = (x, w1, v1)" by (rule prod_cases3)
  obtain u1 where u1: "loopRound P E fuel o' poll pub2 [] (w, u) = (x, w1, u1)" "same_run v1 u1"
    using loopRound_same [OF x Cons.prems(2)] Cons.prems(3) by fastforce
  show ?case
  proof (cases x)
    case (Inl e)
    then show ?thesis using Cons.prems(1) x u1 by (auto simp: bindM_def)
  next
    case (Inr k)
    then have "loopRounds P E fuel o' poll pub hs (w1, v1) = (r, w', v')" using Cons.prems(1) x by (simp add: bindM_def)
    from Cons.IH [OF this u1(2)] Cons.prems(3) show ?thesis using u1(1) Inr by (simp add: bindM_def)
  qed
qed

section \<open>The receiver's guarantees\<close>

lemma loopRun_cases:
  assumes "loopRun P E fuel o' poll url hs (w, v) = (r, w', v')"
  shows "(\<exists>e. r = Inl e \<and> v' = v \<and> docker_log w' = docker_log w)
     \<or> (\<exists>k hs2 w1. length hs2 = length hs \<and> docker_log w1 = docker_log w \<and> loopRounds P E fuel o' poll k hs2 (w1, v) = (r, w', v'))"
proof -
  obtain x w1 where x: "loopSetup P E o' poll url w = (x, w1)" by (rule prod.exhaust)
  have log: "docker_log w1 = docker_log w" using stepsD [OF setup_log x] by (simp add: same_log_def)
  show ?thesis
  proof (cases x)
    case (Inl e)
    then show ?thesis using assms x log by (auto simp: loopRun_def bindM_def onFst_def)
  next
    case (Inr pub)
    then have "loopRounds P E fuel o' poll (case pub of Some k \<Rightarrow> k | None \<Rightarrow> [])
        (case pub of Some k \<Rightarrow> hs | None \<Rightarrow> map (\<lambda>_. []) hs) (w1, v) = (r, w', v')"
      using assms x by (cases pub) (simp_all add: loopRun_def bindM_def onFst_def)
    moreover have "length (case pub of Some k \<Rightarrow> hs | None \<Rightarrow> map (\<lambda>_. []) hs) = length hs" by (cases pub) simp_all
    ultimately show ?thesis using log by blast
  qed
qed

lemma loopRun_reports:
  assumes "loopRun P E fuel o' poll url hs (w, start_vars) = (r, w', v')"
  shows "length (lvErrors v') + length (lvSynced v') \<le> length hs"
    and "r = Inr () \<Longrightarrow> length (lvErrors v') + length (lvSynced v') = length hs"
  using loopRun_cases [OF assms]
  by (auto simp: start_vars_def reported_def dest!: loopRounds_reports)

lemma loopRun_no_docker:
  assumes "state_dir_ok o'" and "\<not> oDockerLoad o'" and "loopRun P E fuel o' poll url hs (w, v) = (r, w', v')"
  shows "docker_log w' = docker_log w"
  using loopRun_cases [OF assms(3)] by (auto dest: rounds_no_docker [OF assms(1,2)])

text \<open>\<open>Run\<close> is one call of the loop, or fails before it.\<close>

lemma receiverRun_cases:
  assumes "receiverRun P E fuel a hs w = (r, w', errs, syncs)"
  shows "(\<exists>e. r = Inl e \<and> lookup w' = lookup w \<and> docker_log w' = docker_log w \<and> errs = [] \<and> syncs = [])
     \<or> (\<exists>w1 v'. lookup w1 = lookup w \<and> docker_log w1 = docker_log w
         \<and> loopRun P E fuel (rxOptions (rgConfig a)) (rxPoll (rgConfig a)) (rxEventsURL (rgConfig a)) hs (w1, start_vars) = (r, w', v')
         \<and> errs = (if rxOnError (rgConfig a) then lvErrors v' else [])
         \<and> syncs = (if rxOnSync (rgConfig a) then map resultOf (lvSynced v') else []))"
proof (cases "rgRunning a")
  case True
  then show ?thesis using assms by (intro disjI1) (auto simp: receiverRun_def)
next
  case False
  obtain c w1 where c: "ctxErr E w = (c, w1)" by (rule prod.exhaust)
  then have keep: "lookup w1 = lookup w" "docker_log w1 = docker_log w" by (auto simp: ctxErr_def Let_def split: if_splits)
  obtain r2 w2 v2 where run: "loopRun P E fuel (rxOptions (rgConfig a)) (rxPoll (rgConfig a)) (rxEventsURL (rgConfig a)) hs (w1, start_vars)
      = (r2, w2, v2)" by (rule prod_cases3)
  show ?thesis
  proof (cases c)
    case (Inl e)
    then show ?thesis using assms c keep False by (intro disjI1) (auto simp: receiverRun_def)
  next
    case (Inr u)
    then have "r = r2" "w' = w2" "errs = (if rxOnError (rgConfig a) then lvErrors v2 else [])"
      "syncs = (if rxOnSync (rgConfig a) then map resultOf (lvSynced v2) else [])"
      using assms c run False by (simp_all add: receiverRun_def Let_def)
    then show ?thesis using run keep by blast
  qed
qed

text \<open>C6. However long an embedded receiver runs, whatever it is sent and however its rounds end: the accepted release
  never goes back (where the state file decodes it still decodes, with a sequence at least as high and the same digest
  when equal; otherwise it is left as it is); every round is reported to exactly one of the two hooks, and to none once
  the run was cancelled or failed to start; and without the option Docker is never asked anything. The hypothesis on
  the JSON coder is that a written state reads back with its sequence and digest.\<close>

theorem Receiver_never_rolls_back:
  assumes dir: "state_dir_ok (rxOptions (rgConfig a))"
    and json: "\<And>s. hexDigest (asManifestSHA256 s) \<Longrightarrow>
       \<exists>s'. jsonStateDec P (jsonState P s) = Inr s' \<and> asSequence s' = asSequence s \<and> asManifestSHA256 s' = asManifestSHA256 s"
    and run: "receiverRun P E fuel a hs w = (r, w', errs, syncs)"
  shows "(case old_of P (lookup w (statePath (oStateDir (rxOptions (rgConfig a))))) of
        None \<Rightarrow> lookup w' (statePath (oStateDir (rxOptions (rgConfig a)))) = lookup w (statePath (oStateDir (rxOptions (rgConfig a))))
      | Some old \<Rightarrow> (\<exists>new. old_of P (lookup w' (statePath (oStateDir (rxOptions (rgConfig a))))) = Some new
          \<and> (asSequence old < asSequence new
             \<or> asSequence old = asSequence new \<and> (asManifestSHA256 old = [] \<or> asManifestSHA256 new = asManifestSHA256 old))))
    \<and> length errs + length syncs \<le> length hs
    \<and> (r = Inr () \<and> rxOnError (rgConfig a) \<and> rxOnSync (rgConfig a) \<longrightarrow> length errs + length syncs = length hs)
    \<and> (\<not> oDockerLoad (rxOptions (rgConfig a)) \<longrightarrow> docker_log w' = docker_log w)"
proof -
  let ?o = "rxOptions (rgConfig a)"
  have sync: "steps (on_fst (ahead P (oStateDir ?o))) (Sync P E fuel ?o)" by (rule Sync_ahead [OF dir json])
  from receiverRun_cases [OF run] have "ahead P (oStateDir ?o) w w' \<and> length errs + length syncs \<le> length hs
      \<and> (r = Inr () \<and> rxOnError (rgConfig a) \<and> rxOnSync (rgConfig a) \<longrightarrow> length errs + length syncs = length hs)
      \<and> (\<not> oDockerLoad ?o \<longrightarrow> docker_log w' = docker_log w)"
  proof (elim disjE exE conjE)
    fix e assume "r = Inl e" "lookup w' = lookup w" "docker_log w' = docker_log w" "errs = []" "syncs = []"
    then show ?thesis by (simp add: ahead_same)
  next
    fix w1 v' assume start: "lookup w1 = lookup w" "docker_log w1 = docker_log w"
      and loop: "loopRun P E fuel ?o (rxPoll (rgConfig a)) (rxEventsURL (rgConfig a)) hs (w1, start_vars) = (r, w', v')"
      and hooks: "errs = (if rxOnError (rgConfig a) then lvErrors v' else [])"
        "syncs = (if rxOnSync (rgConfig a) then map resultOf (lvSynced v') else [])"
    have "ahead P (oStateDir ?o) w w'"
      using aheadR.R_trans [OF ahead_same, of w1 _ w] stepsD [OF ahead_loopRun [OF sync] loop] start(1) by (simp add: on_fst_def)
    then show ?thesis using loopRun_reports [OF loop] loopRun_no_docker [OF dir _ loop] start(2) hooks by simp
  qed
  then show ?thesis unfolding ahead_def .
qed

definition demo_receiver :: receiver_agent where
  "demo_receiver = \<lparr>rgConfig = DefaultConfig\<lparr>rxOptions := demo_options, rxOnError := True, rxOnSync := True\<rparr>, rgRunning = False\<rparr>"

theorem Receiver_never_rolls_back_witness:
  "\<exists>new. old_of sync_prims (lookup (fst (snd (receiverRun sync_prims (env_fail_at 3) 50 demo_receiver [[], []] (fst sync_start))))
      [''s'', ''state.json'']) = Some new \<and> 3 \<le> asSequence new"
proof -
  obtain r w' errs syncs where run: "receiverRun sync_prims (env_fail_at 3) 50 demo_receiver [[], []] (fst sync_start) = (r, w', errs, syncs)"
    by (rule prod_cases4)
  have opts: "rxOptions (rgConfig demo_receiver) = demo_options" by (simp add: demo_receiver_def)
  have "old_of sync_prims (lookup (fst sync_start) [''s'', ''state.json''])
      = Some (zero_state\<lparr>asManifestSHA256 := replicate 64 CHR ''a'', asSequence := 3\<rparr>)"
    by (simp add: sync_start_def old_of_def sync_prims_def lookup_def put_node_def empty_world_def string_of_def bytes_of_def)
  with Receiver_never_rolls_back [OF _ sync_prims_json run, unfolded opts, OF demo_state_dir(1)] run show ?thesis
    by (auto simp: statePath_def demo_state_dir(2))
qed

section \<open>Starting the receiver\<close>

text \<open>\<open>New\<close> looks only: it changes no file and sends nothing; and an agent it returns carries usable bounds.\<close>

lemma receiverNew_looks: "steps (only_at (\<lambda>_. False)) (receiverNew P E c)"
  unfolding receiverNew_def TLSConfig_def loadCA_def loadPair_def mapErr_def ReadKey_def Let_def
  by (intro frame.steps_rules steps_quiet)

end
