(* ===== verification/Watcher.thy ===== *)
theory Watcher
  imports RegistryPublish "HOL-Library.Char_ord" "HOL-Library.List_Lexorder" "HOL-Library.Product_Lexorder"
begin

text \<open>
  The polling watcher, \<open>src/internal/registry/watcher.go\<close>: acknowledged digests, kept in memory and in a state
  file, a scan that compares them with the registry, and the loop that publishes, acknowledges and backs
  off. Operations run over the machine and the watcher; the events it reports are logged in the watcher.
\<close>

section \<open>Model\<close>

record watcher =
  waClient :: reg_client
  waCfg :: watch_config
  waState :: "string \<rightharpoonup> string"
  waEvents :: "(string \<times> string) list"

record watch_status =
  wsRepo :: string
  wsTag :: string
  wsDigest :: string

type_synonym 'a wt = "(world \<times> watcher, 'a) sm"

text \<open>The JSON of the state file; \<open>None\<close>: the text has no \<open>digests\<close> object.\<close>

record watch_prims = oci_prims +
  jsonDigests :: "(string \<rightharpoonup> string) \<Rightarrow> bytes"
  jsonDigestsDec :: "bytes \<Rightarrow> (string \<rightharpoonup> string) option result"

definition stateKey :: "string \<Rightarrow> string \<Rightarrow> string" where
  "stateKey repo tag = repo @ CHR 0x00 # tag"

definition onClient :: "'a rg \<Rightarrow> 'a wt" where
  "onClient m st = (case st of (w, wa) \<Rightarrow> (case m (w, waClient wa) of (r, (w', c')) \<Rightarrow> (r, (w', wa\<lparr>waClient := c'\<rparr>))))"

definition emitError :: "string \<Rightarrow> unit wt" where
  "emitError detail = modS (\<lambda>wa. wa\<lparr>waEvents := waEvents wa @ [(''watcher-error'', detail)]\<rparr>)"

definition loadState :: "'x watch_prims_scheme \<Rightarrow> env \<Rightarrow> unit wt" where
  "loadState P E = bindM getS (\<lambda>wa.
     bindM (onFst (attemptM (osReadFile E (wcStateFile (waCfg wa))))) (\<lambda>r. case r of
       Inl e \<Rightarrow> if e = NotExist then ret () else throw e
     | Inr b \<Rightarrow> (case jsonDigestsDec P b of
           Inl e \<Rightarrow> throw (Wrap ''watcher state'' e)
         | Inr None \<Rightarrow> ret ()
         | Inr (Some m) \<Rightarrow> modS (\<lambda>wa. wa\<lparr>waState := m\<rparr>))))"

definition freshWatcher :: "reg_client \<Rightarrow> watch_config \<Rightarrow> watcher" where
  "freshWatcher c cfg = \<lparr>waClient = c, waCfg = cfg, waState = Map.empty, waEvents = []\<rparr>"

definition NewWatcher :: "'x watch_prims_scheme \<Rightarrow> env \<Rightarrow> reg_client \<Rightarrow> watch_config \<Rightarrow> watcher io" where
  "NewWatcher P E c cfg w = (case loadState P E (w, freshWatcher c cfg) of
       (Inl e, (w', _)) \<Rightarrow> (Inl e, w')
     | (Inr _, (w', wa)) \<Rightarrow> (Inr wa, w'))"

text \<open>The status list: one entry per acknowledged key, given the keys in the order the map yields them.\<close>

definition statusEntry :: "(string \<rightharpoonup> string) \<Rightarrow> string \<Rightarrow> watch_status" where
  "statusEntry m k = (case cutAt (CHR 0x00) k of (repo, tag, _) \<Rightarrow> \<lparr>wsRepo = repo, wsTag = tag, wsDigest = the (m k)\<rparr>)"

definition waStatus :: "watcher \<Rightarrow> string list \<Rightarrow> watch_status list" where
  "waStatus wa keys = sort_key (\<lambda>e. (wsRepo e, wsTag e)) (map (statusEntry (waState wa)) keys)"

text \<open>Memory changes only after the file was written.\<close>

definition Acknowledge :: "'x watch_prims_scheme \<Rightarrow> env \<Rightarrow> publish_request \<Rightarrow> unit wt" where
  "Acknowledge P E req = bindM getS (\<lambda>wa.
     (let digests = (waState wa)(stateKey (prRepo req) (prTag req) \<mapsto> prDigest req) in
      bindM (onFst (AtomicWrite E (wcStateFile (waCfg wa)) (jsonDigests P digests) 384)) (\<lambda>_.
      modS (\<lambda>wa. wa\<lparr>waState := digests\<rparr>))))"

text \<open>The scan carries the requests found and the first error.\<close>

definition firstError :: "error option \<Rightarrow> error \<Rightarrow> error option" where
  "firstError f e = (case f of None \<Rightarrow> Some e | Some _ \<Rightarrow> f)"

definition requestOf :: "repo_config \<Rightarrow> string \<Rightarrow> string \<Rightarrow> publish_request" where
  "requestOf r tag dg = \<lparr>prRepo = rpName r, prTag = tag, prDigest = dg\<rparr>"

fun poll_tags :: "'x watch_prims_scheme \<Rightarrow> env \<Rightarrow> repo_config \<Rightarrow> string list \<Rightarrow>
    publish_request list \<times> error option \<Rightarrow> (publish_request list \<times> error option) wt" where
  "poll_tags P E r [] acc = ret acc"
| "poll_tags P E r (tag # tags) acc =
     (if \<not> eligible P r tag then poll_tags P E r tags acc
      else bindM (attemptM (onClient (ManifestDigest P E (rpName r) tag))) (\<lambda>x. case x of
          Inl e \<Rightarrow> bindM (emitError (''manifest '' @ rpName r @ '':'' @ tag)) (\<lambda>_.
                   poll_tags P E r tags (fst acc, firstError (snd acc) e))
        | Inr (dg, _, _) \<Rightarrow> bindM getS (\<lambda>wa.
            if waState wa (stateKey (rpName r) tag) = Some dg then poll_tags P E r tags acc
            else poll_tags P E r tags (fst acc @ [requestOf r tag dg], snd acc))))"

fun poll_repos :: "'x watch_prims_scheme \<Rightarrow> env \<Rightarrow> repo_config list \<Rightarrow>
    publish_request list \<times> error option \<Rightarrow> (publish_request list \<times> error option) wt" where
  "poll_repos P E [] acc = ret acc"
| "poll_repos P E (r # rs) acc =
     bindM (attemptM (onClient (Tags P E (rpName r)))) (\<lambda>x. case x of
       Inl e \<Rightarrow> bindM (emitError (''tags/list '' @ rpName r)) (\<lambda>_. poll_repos P E rs (fst acc, firstError (snd acc) e))
     | Inr tags \<Rightarrow> bindM (poll_tags P E r (sort tags) acc) (\<lambda>acc'. poll_repos P E rs acc'))"

definition PollOnce :: "'x watch_prims_scheme \<Rightarrow> env \<Rightarrow> (publish_request list \<times> error option) wt" where
  "PollOnce P E = bindM getS (\<lambda>wa. poll_repos P E (wcRepos (waCfg wa)) ([], None))"

text \<open>One round of \<open>Run\<close>: the requests found are published and acknowledged in turn, up to the first failure.\<close>

fun run_requests :: "'x watch_prims_scheme \<Rightarrow> env \<Rightarrow> (publish_request \<Rightarrow> unit wt) option \<Rightarrow> publish_request list \<Rightarrow>
    error option \<Rightarrow> error option wt" where
  "run_requests P E trigger [] err = ret err"
| "run_requests P E trigger (req # reqs) err = (case trigger of
       None \<Rightarrow> run_requests P E trigger reqs err
     | Some t \<Rightarrow> bindM (attemptM (t req)) (\<lambda>x. case x of
           Inl e \<Rightarrow> bindM (emitError (''trigger '' @ prRepo req @ '':'' @ prTag req)) (\<lambda>_. ret (Some e))
         | Inr _ \<Rightarrow> bindM (attemptM (Acknowledge P E req)) (\<lambda>y. case y of
             Inl e \<Rightarrow> bindM (emitError ''persist state'') (\<lambda>_. ret (Some e))
           | Inr _ \<Rightarrow> run_requests P E trigger reqs err)))"

definition maxWatchBackoff :: int where
  "maxWatchBackoff = 600000000000"

text \<open>The pause and the backoff after a round.\<close>

definition watchBackoff :: "int \<Rightarrow> int \<Rightarrow> error option \<Rightarrow> int \<times> int" where
  "watchBackoff poll backoff err = (case err of
       None \<Rightarrow> (poll, 0)
     | Some _ \<Rightarrow> (let b = (if backoff = 0 then poll else wrap64 (backoff * 2));
                      b' = (if b > maxWatchBackoff then maxWatchBackoff else b) in (b', b')))"

definition run_round :: "'x watch_prims_scheme \<Rightarrow> env \<Rightarrow> (publish_request \<Rightarrow> unit wt) option \<Rightarrow> int \<Rightarrow> int wt" where
  "run_round P E trigger backoff =
     bindM (onFst (ctxErr E)) (\<lambda>_.
     bindM (PollOnce P E) (\<lambda>(reqs, err).
     bindM (run_requests P E trigger reqs err) (\<lambda>err'.
     bindM getS (\<lambda>wa.
     (case watchBackoff (wcPoll (waCfg wa)) backoff err' of (pause, backoff') \<Rightarrow>
        bindM (onFst (sleepFor E pause)) (\<lambda>_. ret backoff'))))))"

fun watchRun :: "'x watch_prims_scheme \<Rightarrow> env \<Rightarrow> (publish_request \<Rightarrow> unit wt) option \<Rightarrow> nat \<Rightarrow> int \<Rightarrow> unit wt" where
  "watchRun P E trigger 0 backoff = throw OutOfFuel"
| "watchRun P E trigger (Suc rounds) backoff =
     bindM (run_round P E trigger backoff) (\<lambda>backoff'. watchRun P E trigger rounds backoff')"

text \<open>\<open>Run\<close> for a number of rounds; it ends by itself only with the context's error.\<close>

definition wtRun :: "'x watch_prims_scheme \<Rightarrow> env \<Rightarrow> (publish_request \<Rightarrow> unit wt) option \<Rightarrow> nat \<Rightarrow> unit wt" where
  "wtRun P E trigger rounds = watchRun P E trigger rounds 0"

end
