(* ===== verification/WatcherProps.thy ===== *)
theory WatcherProps
  imports Watcher
begin

text \<open>
  What the watcher guarantees: a scan finds exactly the eligible tags whose digest is not acknowledged, memory
  follows the state file, and a digest is acknowledged only after its publication succeeded.
\<close>

section \<open>Client operations leave the files alone\<close>

text \<open>An operation of the client changes no file, and of the client at most the tokens kept.\<close>

definition no_write :: "world \<times> reg_client \<Rightarrow> world \<times> reg_client \<Rightarrow> bool" where
  "no_write st st' \<longleftrightarrow> lookup (fst st') = lookup (fst st) \<and> (snd st')\<lparr>rcTok := Map.empty\<rparr> = (snd st)\<lparr>rcTok := Map.empty\<rparr>"

interpretation idle: effect_order no_write
  by unfold_locales (auto simp: no_write_def)

lemma no_write_local: "steps no_write getS" "steps no_write (modS (\<lambda>c. c\<lparr>rcTok := f c\<rparr>))"
  by (simp_all add: steps_def getS_def modS_def no_write_def)

lemma no_write_onFst: "steps (only_at (\<lambda>_. False)) m \<Longrightarrow> steps no_write (onFst m)"
  by (auto simp: steps_def onFst_def no_write_def only_at_def split: prod.splits) (metis ext snd_conv)

lemma follow_no_write: "steps (only_at (\<lambda>_. False)) (follow P E origin rq via)"
proof (induction P E origin rq via rule: follow.induct)
  case (1 P E origin rq via)
  show ?case
    by (subst follow.simps)
      (intro frame.steps_bindM_res frame.steps_if frame.steps_rules steps_quiet, auto intro: 1 simp: liftR_def split: sum.splits)
qed

lemma regSend_no_write: "steps no_write (regSend P E rq)"
  unfolding regSend_def by (intro idle.steps_rules no_write_onFst follow_no_write)

lemma tokenFor_no_write: "steps no_write (tokenFor P E ch scope)"
  unfolding tokenFor_def fetchToken_def Let_def
  by (intro idle.steps_rules no_write_onFst steps_quiet no_write_local regSend_no_write)

lemma regDo_no_write: "steps no_write (regDo P E meth path hs)"
  unfolding regDo_def Let_def
  by (intro idle.steps_rules no_write_onFst steps_quiet no_write_local regSend_no_write tokenFor_no_write)

lemma tags_pages_no_write: "steps no_write (tags_pages n P E repo lastTag out)"
  by (induction n P E repo lastTag out rule: tags_pages.induct)
    (auto intro!: idle.steps_rules no_write_local regDo_no_write)

lemma client_no_write:
  "steps no_write (Tags P E repo)" "steps no_write (ManifestDigest P E repo ref)"
  by (simp_all add: Tags_def tags_pages_no_write ManifestDigest_def Let_def)
    (intro idle.steps_rules regDo_no_write)

section \<open>The scan\<close>

text \<open>What a scan leaves as it was: files, acknowledged digests, configuration.\<close>

definition scan_same :: "world \<times> watcher \<Rightarrow> world \<times> watcher \<Rightarrow> bool" where
  "scan_same st st' \<longleftrightarrow> lookup (fst st') = lookup (fst st) \<and> waState (snd st') = waState (snd st) \<and> waCfg (snd st') = waCfg (snd st)
     \<and> (waClient (snd st'))\<lparr>rcTok := Map.empty\<rparr> = (waClient (snd st))\<lparr>rcTok := Map.empty\<rparr>"

lemma scan_same_order [simp, intro]:
  "scan_same st st" "scan_same st st' \<Longrightarrow> scan_same st' st'' \<Longrightarrow> scan_same st st''"
  by (simp_all add: scan_same_def)

text \<open>A registry whose answers to a client depend neither on the moment nor on the tokens the client holds.\<close>

definition steady_tags :: "'x watch_prims_scheme \<Rightarrow> env \<Rightarrow> reg_client \<Rightarrow> (string \<Rightarrow> string list result) \<Rightarrow> bool" where
  "steady_tags P E c T \<longleftrightarrow> (\<forall>repo w tok. fst (Tags P E repo (w, c\<lparr>rcTok := tok\<rparr>)) = T repo)"

definition steady_digests :: "'x watch_prims_scheme \<Rightarrow> env \<Rightarrow> reg_client \<Rightarrow> (string \<Rightarrow> string \<Rightarrow> string result) \<Rightarrow> bool" where
  "steady_digests P E c D \<longleftrightarrow> (\<forall>repo tag w tok.
     map_sum id fst (fst (ManifestDigest P E repo tag (w, c\<lparr>rcTok := tok\<rparr>))) = D repo tag)"

text \<open>The reference: what a scan of such a registry finds.\<close>

definition found_in :: "'x watch_prims_scheme \<Rightarrow> (string \<Rightarrow> string \<Rightarrow> string result) \<Rightarrow> (string \<rightharpoonup> string) \<Rightarrow> repo_config \<Rightarrow>
    string list \<Rightarrow> publish_request list" where
  "found_in P D acked r tags = concat (map (\<lambda>tag. case D (rpName r) tag of
       Inl _ \<Rightarrow> []
     | Inr dg \<Rightarrow> if acked (stateKey (rpName r) tag) = Some dg then [] else [requestOf r tag dg]) (filter (eligible P r) tags))"

definition failed_in :: "'x watch_prims_scheme \<Rightarrow> (string \<Rightarrow> string \<Rightarrow> string result) \<Rightarrow> repo_config \<Rightarrow> string list \<Rightarrow> error list" where
  "failed_in P D r tags = concat (map (\<lambda>tag. case D (rpName r) tag of Inl e \<Rightarrow> [e] | Inr _ \<Rightarrow> []) (filter (eligible P r) tags))"

definition scan_found :: "'x watch_prims_scheme \<Rightarrow> (string \<Rightarrow> string list result) \<Rightarrow> (string \<Rightarrow> string \<Rightarrow> string result) \<Rightarrow>
    (string \<rightharpoonup> string) \<Rightarrow> repo_config list \<Rightarrow> publish_request list" where
  "scan_found P T D acked repos = concat (map (\<lambda>r. case T (rpName r) of
       Inl _ \<Rightarrow> [] | Inr tags \<Rightarrow> found_in P D acked r (sort tags)) repos)"

definition scan_failed :: "'x watch_prims_scheme \<Rightarrow> (string \<Rightarrow> string list result) \<Rightarrow> (string \<Rightarrow> string \<Rightarrow> string result) \<Rightarrow>
    repo_config list \<Rightarrow> error list" where
  "scan_failed P T D repos = concat (map (\<lambda>r. case T (rpName r) of
       Inl e \<Rightarrow> [e] | Inr tags \<Rightarrow> failed_in P D r (sort tags)) repos)"

definition first_of :: "error list \<Rightarrow> error option" where
  "first_of es = (case es of [] \<Rightarrow> None | e # _ \<Rightarrow> Some e)"

lemma foldl_firstError: "foldl firstError f es = (case f of None \<Rightarrow> first_of es | Some e \<Rightarrow> Some e)"
  by (induction es arbitrary: f) (auto simp: firstError_def first_of_def split: option.splits)

lemma attempt_client:
  assumes "steps no_write m"
  obtains st' where "attemptM (onClient m) st = (Inr (fst (m (fst st, waClient (snd st)))), st')" "scan_same st st'"
proof -
  obtain w wa where st: "st = (w, wa)" by (rule prod.exhaust)
  obtain r w' c' where m: "m (w, waClient wa) = (r, w', c')" by (rule prod_cases3)
  have "lookup w' = lookup w"
    using stepsD [OF assms m] by (simp add: no_write_def)
  moreover have "c'\<lparr>rcTok := Map.empty\<rparr> = (waClient wa)\<lparr>rcTok := Map.empty\<rparr>"
    using stepsD [OF assms m] by (simp add: no_write_def)
  ultimately show ?thesis
    using that [of "(w', wa\<lparr>waClient := c'\<rparr>)"] m by (simp add: st attemptM_def onClient_def scan_same_def)
qed

lemma same_client: "c'\<lparr>rcTok := Map.empty\<rparr> = c\<lparr>rcTok := Map.empty\<rparr> \<Longrightarrow> c' = c\<lparr>rcTok := rcTok c'\<rparr>" for c' :: reg_client
  by (cases c; cases c') simp

lemma steady_at:
  assumes "(waClient (snd st))\<lparr>rcTok := Map.empty\<rparr> = c\<lparr>rcTok := Map.empty\<rparr>"
  shows "steady_tags P E c T \<Longrightarrow> fst (Tags P E repo (fst st, waClient (snd st))) = T repo"
    and "steady_digests P E c D \<Longrightarrow> map_sum id fst (fst (ManifestDigest P E repo tag (fst st, waClient (snd st)))) = D repo tag"
  using same_client [OF assms] unfolding steady_tags_def steady_digests_def by metis+

lemma emitError_same: obtains st' where "emitError d st = (Inr (), st')" "scan_same st st'"
  using that [of "snd (emitError d st)"] by (simp add: emitError_def modS_def scan_same_def)

lemma poll_tags_run:
  assumes "steady_digests P E c D" and "(waClient (snd st))\<lparr>rcTok := Map.empty\<rparr> = c\<lparr>rcTok := Map.empty\<rparr>"
  shows "\<exists>st'. poll_tags P E r tags acc st =
      (Inr (fst acc @ found_in P D (waState (snd st)) r tags, foldl firstError (snd acc) (failed_in P D r tags)), st') \<and> scan_same st st'"
using assms(2)
proof (induction tags arbitrary: acc st)
  case Nil
  show ?case by (simp add: ret_def found_in_def failed_in_def)
next
  case (Cons tag tags)
  show ?case
  proof (cases "eligible P r tag")
    case False
    then show ?thesis using Cons.IH [OF Cons.prems, of acc] by (simp add: found_in_def failed_in_def)
  next
    case elig: True
    let ?m = "ManifestDigest P E (rpName r) tag"
    obtain st1 where m: "attemptM (onClient ?m) st = (Inr (fst (?m (fst st, waClient (snd st)))), st1)" and same1: "scan_same st st1"
      using attempt_client [OF client_no_write(2)] by blast
    have D: "map_sum id fst (fst (?m (fst st, waClient (snd st)))) = D (rpName r) tag"
      by (rule steady_at(2) [OF Cons.prems assms(1)])
    have keep: "waState (snd st1) = waState (snd st)" using same1 by (simp add: scan_same_def)
    show ?thesis
    proof (cases "fst (?m (fst st, waClient (snd st)))")
      case (Inl e)
      then have De: "D (rpName r) tag = Inl e" using D by simp
      obtain st2 where e: "emitError (''manifest '' @ rpName r @ '':'' @ tag) st1 = (Inr (), st2)" and same2: "scan_same st1 st2"
        by (rule emitError_same)
      have keep2: "waState (snd st2) = waState (snd st)" using same2 keep by (simp add: scan_same_def)
      obtain st' where "poll_tags P E r tags (fst acc, firstError (snd acc) e) st2 =
          (Inr (fst acc @ found_in P D (waState (snd st)) r tags, foldl firstError (firstError (snd acc) e) (failed_in P D r tags)), st')"
        and same3: "scan_same st2 st'"
        using Cons.IH [of st2 "(fst acc, firstError (snd acc) e)"] Cons.prems same1 same2 keep2 by (auto simp: scan_same_def)
      then have "poll_tags P E r (tag # tags) acc st = (Inr (fst acc @ found_in P D (waState (snd st)) r (tag # tags),
          foldl firstError (snd acc) (failed_in P D r (tag # tags))), st')"
        by (simp add: elig m Inl e [simplified] De bindM_def found_in_def failed_in_def)
      with scan_same_order(2) [OF scan_same_order(2) [OF same1 same2] same3] show ?thesis by blast
    next
      case (Inr x)
      obtain dg b ct where x: "x = (dg, b, ct)" by (rule prod_cases3)
      then have Dg: "D (rpName r) tag = Inr dg" using D Inr by simp
      let ?acc = "if waState (snd st) (stateKey (rpName r) tag) = Some dg then acc else (fst acc @ [requestOf r tag dg], snd acc)"
      obtain st' where "poll_tags P E r tags ?acc st1 =
          (Inr (fst ?acc @ found_in P D (waState (snd st)) r tags, foldl firstError (snd ?acc) (failed_in P D r tags)), st')"
        and same2: "scan_same st1 st'"
        using Cons.IH [of st1 ?acc] Cons.prems same1 keep by (auto simp: scan_same_def)
      then have "poll_tags P E r (tag # tags) acc st = (Inr (fst acc @ found_in P D (waState (snd st)) r (tag # tags),
          foldl firstError (snd acc) (failed_in P D r (tag # tags))), st')"
        by (simp add: elig m Inr x Dg keep bindM_def getS_def found_in_def failed_in_def split: if_splits)
      with scan_same_order(2) [OF same1 same2] show ?thesis by blast
    qed
  qed
qed

lemma poll_repos_run:
  assumes "steady_tags P E c T" "steady_digests P E c D" and "(waClient (snd st))\<lparr>rcTok := Map.empty\<rparr> = c\<lparr>rcTok := Map.empty\<rparr>"
  shows "\<exists>st'. poll_repos P E repos acc st =
      (Inr (fst acc @ scan_found P T D (waState (snd st)) repos, foldl firstError (snd acc) (scan_failed P T D repos)), st') \<and> scan_same st st'"
using assms(3)
proof (induction repos arbitrary: acc st)
  case Nil
  show ?case by (simp add: ret_def scan_found_def scan_failed_def)
next
  case (Cons r repos)
  let ?m = "Tags P E (rpName r)"
  obtain st1 where m: "attemptM (onClient ?m) st = (Inr (fst (?m (fst st, waClient (snd st)))), st1)" and same1: "scan_same st st1"
    using attempt_client [OF client_no_write(1)] by blast
  have T: "fst (?m (fst st, waClient (snd st))) = T (rpName r)"
    by (rule steady_at(1) [OF Cons.prems assms(1)])
  show ?case
  proof (cases "T (rpName r)")
    case (Inl e)
    obtain st2 where e: "emitError (''tags/list '' @ rpName r) st1 = (Inr (), st2)" and same2: "scan_same st1 st2"
      by (rule emitError_same)
    have "waState (snd st2) = waState (snd st)" using same1 same2 by (simp add: scan_same_def)
    then obtain st' where "poll_repos P E repos (fst acc, firstError (snd acc) e) st2 =
        (Inr (fst acc @ scan_found P T D (waState (snd st)) repos, foldl firstError (firstError (snd acc) e) (scan_failed P T D repos)), st')"
      and same3: "scan_same st2 st'"
      using Cons.IH [of st2 "(fst acc, firstError (snd acc) e)"] Cons.prems same1 same2 by (auto simp: scan_same_def)
    then have "poll_repos P E (r # repos) acc st = (Inr (fst acc @ scan_found P T D (waState (snd st)) (r # repos),
        foldl firstError (snd acc) (scan_failed P T D (r # repos))), st')"
      by (simp add: m T Inl e [simplified] bindM_def scan_found_def scan_failed_def)
    with scan_same_order(2) [OF scan_same_order(2) [OF same1 same2] same3] show ?thesis by blast
  next
    case (Inr ts)
    let ?acc = "(fst acc @ found_in P D (waState (snd st)) r (sort ts), foldl firstError (snd acc) (failed_in P D r (sort ts)))"
    have keep: "waState (snd st1) = waState (snd st)" using same1 by (simp add: scan_same_def)
    then obtain st2 where t: "poll_tags P E r (sort ts) acc st1 = (Inr ?acc, st2)" and same2: "scan_same st1 st2"
      using poll_tags_run [OF assms(2), of st1 r "sort ts" acc] Cons.prems same1 by (auto simp: scan_same_def)
    have "waState (snd st2) = waState (snd st)" using same2 keep by (simp add: scan_same_def)
    then obtain st' where "poll_repos P E repos ?acc st2 =
        (Inr (fst ?acc @ scan_found P T D (waState (snd st)) repos, foldl firstError (snd ?acc) (scan_failed P T D repos)), st')"
      and same3: "scan_same st2 st'"
      using Cons.IH [of st2 ?acc] Cons.prems same1 same2 by (auto simp: scan_same_def)
    then have "poll_repos P E (r # repos) acc st = (Inr (fst acc @ scan_found P T D (waState (snd st)) (r # repos),
        foldl firstError (snd acc) (scan_failed P T D (r # repos))), st')"
      by (simp add: m T Inr t bindM_def scan_found_def scan_failed_def)
    with scan_same_order(2) [OF scan_same_order(2) [OF same1 same2] same3] show ?thesis by blast
  qed
qed

text \<open>C32. Scan. On a steady registry one scan returns exactly the requests of the reference definition, in its
  order: for every configured repository, every tag in byte order that the repository's patterns let through and
  whose digest is not the acknowledged one. The error returned is the first of those met, and the scan consumes
  nothing: files and acknowledged digests are as before, so a request not acted on is found again.\<close>

theorem PollOnce_exact:
  assumes "steady_tags P E (waClient wa) T" and "steady_digests P E (waClient wa) D"
  shows "\<exists>w' wa'. PollOnce P E (w, wa) = (Inr (scan_found P T D (waState wa) (wcRepos (waCfg wa)),
       first_of (scan_failed P T D (wcRepos (waCfg wa)))), w', wa') \<and> lookup w' = lookup w \<and> waState wa' = waState wa"
proof -
  obtain st' where "poll_repos P E (wcRepos (waCfg wa)) ([], None) (w, wa) = (Inr ([] @ scan_found P T D (waState wa) (wcRepos (waCfg wa)),
      foldl firstError None (scan_failed P T D (wcRepos (waCfg wa)))), st')" and "scan_same (w, wa) st'"
    using poll_repos_run [OF assms, of "(w, wa)" "wcRepos (waCfg wa)" "([], None)"] by auto
  then show ?thesis
    by (cases st') (auto simp: PollOnce_def bindM_def getS_def foldl_firstError scan_same_def)
qed

section \<open>Acknowledging\<close>

lemma Acknowledge_cases:
  assumes "Acknowledge P E req (w, wa) = (r, w', wa')"
  defines "digests \<equiv> (waState wa)(stateKey (prRepo req) (prTag req) \<mapsto> prDigest req)"
  shows "AtomicWrite E (wcStateFile (waCfg wa)) (jsonDigests P digests) 384 w = (r, w')"
    and "wa' = (case r of Inl _ \<Rightarrow> wa | Inr _ \<Rightarrow> wa\<lparr>waState := digests\<rparr>)"
  using assms
  by (auto simp: Acknowledge_def Let_def bindM_def getS_def onFst_def modS_def split: prod.splits sum.splits)

lemma NewWatcher_loads:
  assumes "lookup w (wcStateFile cfg) = Some (FileN (jsonDigests P m) mode)" and "jsonDigestsDec P (jsonDigests P m) = Inr (Some m)"
    and "\<not> io_fails E (tick w)"
  shows "\<exists>w'. NewWatcher P E c cfg w = (Inr ((freshWatcher c cfg)\<lparr>waState := m\<rparr>), w')"
  using assms
  by (simp add: NewWatcher_def loadState_def bindM_def getS_def onFst_def attemptM_def osReadFile_def prim_def freshWatcher_def modS_def)

text \<open>C33. Acknowledging is durable before it is visible: on success memory has the new digest, and a watcher started
  later on these files, whenever it can read its state file, starts with exactly this map. On an error memory is
  what it was and the state file is the old one or the complete new one. No other existing file changes.\<close>

theorem Acknowledge_durable:
  assumes run: "Acknowledge P E req (w, wa) = (r, w', wa')"
    and target: "wcStateFile (waCfg wa) \<noteq> []" "\<not> is_temp (wcStateFile (waCfg wa))"
    and digests: "digests = (waState wa)(stateKey (prRepo req) (prTag req) \<mapsto> prDigest req)"
    and json: "jsonDigestsDec P (jsonDigests P digests) = Inr (Some digests)"
  shows "(case r of
      Inr _ \<Rightarrow> waState wa' = digests \<and> (\<forall>E2 c w2. lookup w2 = lookup w' \<longrightarrow> \<not> io_fails E2 (tick w2) \<longrightarrow>
         (\<exists>wa2. fst (NewWatcher P E2 c (waCfg wa) w2) = Inr wa2 \<and> waState wa2 = waState wa'))
    | Inl _ \<Rightarrow> wa' = wa \<and> lookup w' (wcStateFile (waCfg wa)) \<in>
         {lookup w (wcStateFile (waCfg wa)), Some (FileN (jsonDigests P digests) 384)})
    \<and> (\<forall>q b m. q \<noteq> wcStateFile (waCfg wa) \<longrightarrow> lookup w q = Some (FileN b m) \<longrightarrow> lookup w' q = Some (FileN b m))"
    (is "?main \<and> ?others")
proof
  note ack = Acknowledge_cases [OF run, folded digests]
  show ?others using AtomicWrite_other [OF ack(1) target] by blast
  show ?main
  proof (cases r)
    case (Inl e)
    then show ?thesis using ack AtomicWrite_run [OF target ack(1)] by (auto simp: aw_effect_def)
  next
    case (Inr u)
    have stored: "lookup w' (wcStateFile (waCfg wa)) = Some (FileN (jsonDigests P digests) 384)"
      using AtomicWrite_ok [OF ack(1) [unfolded Inr] target] .
    have "\<exists>wa2. fst (NewWatcher P E2 c (waCfg wa) w2) = Inr wa2 \<and> waState wa2 = digests"
      if "lookup w2 = lookup w'" "\<not> io_fails E2 (tick w2)" for E2 c w2
      using NewWatcher_loads [OF stored [folded that(1)] json that(2), of c] by fastforce
    then show ?thesis using ack(2) Inr by simp
  qed
qed

section \<open>The pause between rounds\<close>

lemma watchBackoff_error:
  assumes "0 < poll" and "0 \<le> backoff" and "backoff \<le> maxWatchBackoff"
  shows "watchBackoff poll backoff (Some e) =
    (min (if backoff = 0 then poll else 2 * backoff) maxWatchBackoff, min (if backoff = 0 then poll else 2 * backoff) maxWatchBackoff)"
proof -
  have "wrap64 (backoff * 2) = backoff * 2"
    by (rule wrap64_id) (use assms in \<open>auto simp: maxWatchBackoff_def int64_range_def\<close>)
  then show ?thesis by (auto simp: watchBackoff_def Let_def maxWatchBackoff_def min_def)
qed

section \<open>Witnesses\<close>

text \<open>A registry with two tags and one digest, the same to everyone at any time.\<close>

definition steady_registry :: env where
  "steady_registry = (env_fail_at 0)\<lparr>io_fails := \<lambda>_. False, http_reply := \<lambda>_ _. Some \<lparr>rsStatus = 200,
     rsHeaders = [(''Docker-Content-Digest'', ''sha256:aa'')], rsLength = 0, rsBody = [], rsBroken = False\<rparr>\<rparr>"

definition demo_watch :: watch_prims where
  "demo_watch = oci_prims.extend (demo_oci\<lparr>jsonTags := (\<lambda>_ _. Inr [''v2'', ''v1''])\<rparr>)
     (watch_prims.fields (\<lambda>_. [7]) (\<lambda>_. Inr (Some [stateKey ''app'' ''v1'' \<mapsto> ''sha256:aa''])))"

definition demo_watcher :: watcher where
  "demo_watcher = (freshWatcher demo_reg_client demo_config)\<lparr>waState := [stateKey ''app'' ''v1'' \<mapsto> ''sha256:aa'']\<rparr>"

lemma demo_watch_sel:
  "urlParse demo_watch = urlParse demo_reg_prims" "jsonTags demo_watch b k = Inr [''v2'', ''v1'']"
  "jsonDigests demo_watch m = [7]" "jsonDigestsDec demo_watch b = Inr (Some [stateKey ''app'' ''v1'' \<mapsto> ''sha256:aa''])"
  by (simp_all add: demo_watch_def demo_oci_def watch_prims.defs oci_prims.defs reg_prims.defs)

lemma steady_do:
  "fst (regDo demo_watch steady_registry meth path hs (w, c)) = Inr \<lparr>rsStatus = 200,
     rsHeaders = [(''Docker-Content-Digest'', ''sha256:aa'')], rsLength = 0, rsBody = [], rsBroken = False\<rparr>"
  by (simp add: regDo_def Let_def bindM_def getS_def sm_run newRequest_def demo_watch_sel demo_reg_sel regSend_def onFst_def
      follow.simps httpDo_def steady_registry_def wants_redirect_def header_def split: prod.splits)

lemma steady_do_run: "\<exists>st'. regDo demo_watch steady_registry meth path hs (w, c) = (Inr \<lparr>rsStatus = 200,
     rsHeaders = [(''Docker-Content-Digest'', ''sha256:aa'')], rsLength = 0, rsBody = [], rsBroken = False\<rparr>, st')"
  using steady_do [of meth path hs w c] by (metis prod.collapse)

lemma demo_steady:
  "steady_tags demo_watch steady_registry demo_reg_client (\<lambda>_. Inr [''v2'', ''v1''])"
  "steady_digests demo_watch steady_registry demo_reg_client (\<lambda>_ _. Inr ''sha256:aa'')"
proof -
  have "fst (Tags demo_watch steady_registry repo (w, demo_reg_client\<lparr>rcTok := tok\<rparr>)) = Inr [''v2'', ''v1'']" for repo w tok
  proof -
    obtain n where n: "(10001 :: nat) = Suc n" by (rule that [of 10000]) simp
    obtain st' where "regDo demo_watch steady_registry ''GET'' (tagsPath repo 0 []) [] (w, demo_reg_client\<lparr>rcTok := tok\<rparr>) = (Inr \<lparr>rsStatus = 200,
       rsHeaders = [(''Docker-Content-Digest'', ''sha256:aa'')], rsLength = 0, rsBody = [], rsBroken = False\<rparr>, st')"
      using steady_do_run by blast
    then show ?thesis
      unfolding Tags_def n by (simp add: bindM_def getS_def demo_reg_client_def sm_run demo_watch_sel)
  qed
  then show "steady_tags demo_watch steady_registry demo_reg_client (\<lambda>_. Inr [''v2'', ''v1''])" by (simp add: steady_tags_def)
  have "map_sum id fst (fst (ManifestDigest demo_watch steady_registry repo tag (w, c))) = Inr ''sha256:aa''" for repo tag w c
    using steady_do_run [of "''GET''" "''/v2/'' @ repo @ ''/manifests/'' @ tag" "[(''Accept'', joinWith '', '' manifestMediaTypes)]" w c]
    by (auto simp: ManifestDigest_def bindM_def sm_run readAll_def Let_def header_def)
  then show "steady_digests demo_watch steady_registry demo_reg_client (\<lambda>_ _. Inr ''sha256:aa'')" by (simp add: steady_digests_def)
qed

theorem PollOnce_exact_witness:
  "fst (PollOnce demo_watch steady_registry (empty_world, demo_watcher)) =
     Inr ([\<lparr>prRepo = ''app'', prTag = ''v2'', prDigest = ''sha256:aa''\<rparr>], None)"
proof -
  let ?T = "\<lambda>_. Inr [''v2'', ''v1'']" and ?D = "\<lambda>_ _. Inr ''sha256:aa''"
  have "steady_tags demo_watch steady_registry (waClient demo_watcher) ?T" "steady_digests demo_watch steady_registry (waClient demo_watcher) ?D"
    using demo_steady by (simp_all add: demo_watcher_def freshWatcher_def)
  from PollOnce_exact [OF this, of empty_world]
  have "fst (PollOnce demo_watch steady_registry (empty_world, demo_watcher)) = Inr (scan_found demo_watch ?T ?D (waState demo_watcher)
      (wcRepos (waCfg demo_watcher)), first_of (scan_failed demo_watch ?T ?D (wcRepos (waCfg demo_watcher))))" by force
  moreover have "sort [''v2'', ''v1''] = [''v1'', ''v2'']" by code_simp
  moreover have "stateKey ''app'' ''v2'' \<noteq> stateKey ''app'' ''v1''" by (simp add: stateKey_def)
  moreover have "eligible demo_watch \<lparr>rpName = ''app'', rpAllow = [], rpIgnore = []\<rparr> tag" for tag by (simp add: eligible_def)
  ultimately show ?thesis
    by (simp add: scan_found_def scan_failed_def found_in_def failed_in_def first_of_def demo_watcher_def freshWatcher_def demo_config_def requestOf_def)
qed

theorem Acknowledge_durable_witness:
  "case Acknowledge demo_watch (env_fail_at 5) \<lparr>prRepo = ''app'', prTag = ''v1'', prDigest = ''sha256:aa''\<rparr> (demo_signed, demo_watcher) of
     (Inr _, _, wa') \<Rightarrow> waState wa' (stateKey ''app'' ''v1'') = Some ''sha256:aa''
   | (Inl _, w', wa') \<Rightarrow> wa' = demo_watcher \<and> lookup w' [''seq''] = Some (FileN (sequenceText 41) 384)"
proof -
  let ?req = "\<lparr>prRepo = ''app'', prTag = ''v1'', prDigest = ''sha256:aa''\<rparr>"
  obtain r w' wa' where run: "Acknowledge demo_watch (env_fail_at 5) ?req (demo_signed, demo_watcher) = (r, w', wa')"
    by (rule prod_cases3)
  have target: "wcStateFile (waCfg demo_watcher) \<noteq> []" "\<not> is_temp (wcStateFile (waCfg demo_watcher))" "[''seq''] \<noteq> wcStateFile (waCfg demo_watcher)"
    by (simp_all add: demo_watcher_def freshWatcher_def demo_config_def is_temp_def isTempName_def tmpPrefix_def)
  have digests: "[stateKey ''app'' ''v1'' \<mapsto> ''sha256:aa''] = (waState demo_watcher)(stateKey (prRepo ?req) (prTag ?req) \<mapsto> prDigest ?req)"
    by (simp add: demo_watcher_def)
  have json: "jsonDigestsDec demo_watch (jsonDigests demo_watch [stateKey ''app'' ''v1'' \<mapsto> ''sha256:aa'']) = Inr (Some [stateKey ''app'' ''v1'' \<mapsto> ''sha256:aa''])"
    by (simp add: demo_watch_sel)
  have "lookup demo_signed [''seq''] = Some (FileN (sequenceText 41) 384)" by (simp add: demo_signed_lookup)
  note ack = Acknowledge_durable [OF run target(1,2) digests json, THEN conjunct1]
    and kept = Acknowledge_durable [OF run target(1,2) digests json, THEN conjunct2, rule_format, OF target(3) this]
  show ?thesis using ack kept by (cases r) (simp_all add: run)
qed

end
