(* ===== verification/PublisherRun.thy ===== *)
theory PublisherRun
  imports WatcherProps
begin

text \<open>
  The embedded publisher, \<open>src/publisher/publisher.go\<close>: the watcher with the publication pipeline as its trigger,
  and what the two guarantee together: a digest is acknowledged only for a release that is in the store and
  stays there.
\<close>

section \<open>Model\<close>

text \<open>\<open>Config\<close>; \<open>pcEvent\<close>: an event function is given.\<close>

record publisher_config =
  pcRegistryURL :: string
  pcRepositories :: "repo_config list"
  pcPoll :: int
  pcStateFile :: path
  pcRoot :: path
  pcSigningKey :: path
  pcChannel :: string
  pcSequenceFile :: path
  pcReleasePrefix :: string
  pcUsername :: string
  pcPasswordEnv :: string
  pcEvent :: bool

record publisher_agent =
  paConfig :: watch_config
  paEvent :: bool
  paRunning :: bool

definition watchConfigOf :: "publisher_config \<Rightarrow> watch_config" where
  "watchConfigOf c = \<lparr>wcRegistryURL = pcRegistryURL c, wcPoll = pcPoll c, wcRepos = pcRepositories c, wcStateFile = pcStateFile c,
     wcPublish = \<lparr>pbRoot = pcRoot c, pbKey = pcSigningKey c, pbChannel = pcChannel c, pbReleasePrefix = pcReleasePrefix c,
       pbSequenceFile = pcSequenceFile c\<rparr>, wcUsername = pcUsername c, wcPasswordEnv = pcPasswordEnv c\<rparr>"

definition publisherNew :: "'x watch_prims_scheme \<Rightarrow> env \<Rightarrow> publisher_config \<Rightarrow> publisher_agent io" where
  "publisherNew P E c =
     bindM (liftR (ValidateConfig P (watchConfigOf c))) (\<lambda>cfg.
     bindM (ReadKey E (pbKey (wcPublish cfg)) PrivateKeySize) (\<lambda>_.
     ret \<lparr>paConfig = cfg, paEvent = pcEvent c, paRunning = False\<rparr>))"

text \<open>The trigger reports to the same function as the watcher.\<close>

definition onEvents :: "'a tg \<Rightarrow> 'a wt" where
  "onEvents m st = (case st of (w, wa) \<Rightarrow> (case m (w, waEvents wa) of (r, (w', ev')) \<Rightarrow> (r, (w', wa\<lparr>waEvents := ev'\<rparr>))))"

definition publisherTrigger :: "'x watch_prims_scheme \<Rightarrow> env \<Rightarrow> trigger_opts \<Rightarrow> publish_request \<Rightarrow> unit wt" where
  "publisherTrigger P E opts req = bindM (onEvents (regTrigger P E opts req)) (\<lambda>_. ret ())"

text \<open>\<open>Run\<close>; the result carries what the event function was called with.\<close>

definition publisherRun :: "'x watch_prims_scheme \<Rightarrow> env \<Rightarrow> nat \<Rightarrow> publisher_agent \<Rightarrow> world \<Rightarrow>
    unit result \<times> world \<times> (string \<times> string) list" where
  "publisherRun P E rounds a w =
     (if paRunning a then (Inl (Msg ''publisher already running''), w, [])
      else case ctxErr E w of (Inl e, w1) \<Rightarrow> (Inl e, w1, []) | (Inr _, w1) \<Rightarrow>
        (let cfg = paConfig a; password = getenv P (wcPasswordEnv cfg) in
         if wcPasswordEnv cfg \<noteq> [] \<and> password = []
         then (Inl (Msg ''publisher password environment variable is not set''), w1, [])
         else case NewClient P (wcRegistryURL cfg) \<lparr>acUsername = wcUsername cfg, acPassword = password\<rparr> of
           Inl e \<Rightarrow> (Inl e, w1, [])
         | Inr c \<Rightarrow> (case NewWatcher P E c cfg w1 of
             (Inl e, w2) \<Rightarrow> (Inl e, w2, [])
           | (Inr wa, w2) \<Rightarrow>
               (case wtRun P E (Some (publisherTrigger P E \<lparr>tgConfig = cfg, tgEvent = paEvent a, tgClient = Some c\<rparr>)) rounds (w2, wa) of
                  (r, w3, wa') \<Rightarrow> (r, w3, if paEvent a then waEvents wa' else [])))))"

section \<open>Files kept\<close>

text \<open>Every file at a path of \<open>Q\<close> stays as it is.\<close>

definition kept :: "(path \<Rightarrow> bool) \<Rightarrow> world \<Rightarrow> world \<Rightarrow> bool" where
  "kept Q w w' \<longleftrightarrow> (\<forall>q b m. Q q \<and> lookup w q = Some (FileN b m) \<longrightarrow> lookup w' q = Some (FileN b m))"

interpretation keep: effect_order "kept Q" for Q
  by unfold_locales (simp_all add: kept_def)

interpretation keep_fst: effect_order "on_fst (kept Q)" for Q
  by (rule on_fst_order) (rule keep.effect_order_axioms)

lemma kept_lookup: "lookup w' = lookup w \<Longrightarrow> kept Q w w'"
  by (simp add: kept_def)

lemma kept_silent: "steps (only_at (\<lambda>_. False)) m \<Longrightarrow> steps (kept Q) m"
  by (auto simp: steps_def only_at_def kept_def)

lemma kept_AtomicWrite: "p \<noteq> [] \<Longrightarrow> \<not> is_temp p \<Longrightarrow> \<not> Q p \<Longrightarrow> steps (kept Q) (AtomicWrite E p b mode)"
  by (rule stepsI) (metis AtomicWrite_other kept_def)

lemma kept_ReadKey: "steps (kept Q) (ReadKey E p n)"
  by (rule stepsI) (auto intro: kept_lookup dest: ReadKey_run)

lemma kept_FileHash: "steps (kept Q) (FileHash E p)"
  by (rule stepsI) (metis FileHash_no_error FileHash_ok(1) fst_conv kept_lookup old.sum.exhaust prod_cases3)

lemma kept_openRead: "steps (kept Q) (openRead E p)"
  by (rule stepsI) (auto intro!: kept_lookup simp: openRead_def osStat_def prim_def bindM_def Let_def ret_def fun_eq_iff
      split: if_splits option.splits node.splits prod.splits)

lemma kept_local: "steps (on_fst (kept Q)) getS" "steps (on_fst (kept Q)) (modS f)"
  by (simp_all add: steps_def getS_def modS_def on_fst_def kept_def)

lemma kept_publish_chunk: "(\<And>h. \<not> Q (blobPath root h)) \<Longrightarrow> steps (on_fst (kept Q)) (publish_chunk P E root raw)"
  unfolding publish_chunk_def Let_def Join_chunk_of
  by (intro keep_fst.steps_rules steps_onFst kept_FileHash kept_AtomicWrite kept_local) simp_all

lemma kept_Split:
  assumes "\<And>raw. steps (on_fst (kept Q)) (f raw)"
  shows "steps (on_fst (kept Q)) (Split data rerr mn avg mx f)"
proof (cases rerr)
  case None
  then show ?thesis using assms by (auto simp: Split_def split_loop_eq_forM intro: keep_fst.steps_rules)
next
  case (Some e)
  then show ?thesis
    using assms by (auto simp: Split_def split_loop_scan intro!: keep_fst.steps_rules split: prod.splits)
qed

lemma kept_publish_io:
  assumes "\<And>h. \<not> Q (blobPath (poRoot o') h)" and "safeRelease (poRelease o') \<Longrightarrow> \<not> Q (releasePath (poRoot o') (poRelease o'))"
  shows "steps (kept Q) (publish_io P E o')"
proof -
  have guard: "steps (on_fst (kept Q)) (bindM (guardM (\<not> (\<not> safeRelease (poRelease o') \<or> n)) e) (\<lambda>_. m))"
    if "safeRelease (poRelease o') \<Longrightarrow> steps (on_fst (kept Q)) m" for n e and m :: "(world \<times> manifest, manifest) sm"
    using that keep_fst.steps_throw by (cases "safeRelease (poRelease o') \<and> \<not> n") (auto simp: guardM_def)
  have "steps (on_fst (kept Q)) (Publish P E o')"
    unfolding Publish_def Let_def
    by (rule keep_fst.steps_bindM [OF kept_local(2)], rule guard)
       (intro keep_fst.steps_rules kept_local steps_onFst kept_ReadKey kept_openRead kept_Split kept_publish_chunk
          keep.steps_attemptM kept_silent [OF steps_quiet(2)] kept_AtomicWrite; simp add: assms)
  then have "kept Q w (fst (snd (Publish P E o' (w, start_manifest o'))))" for w
    by (auto simp: steps_def on_fst_def)
  then show ?thesis by (auto simp: steps_def publish_io_def split: prod.splits) (metis fst_conv snd_conv)
qed

lemma kept_nextSequence:
  assumes "p \<noteq> []" "\<not> is_temp p" "\<not> Q p"
  shows "steps (kept Q) (nextSequence E p)"
  unfolding nextSequence_def readSequence_def Let_def
  by (intro keep.steps_rules kept_silent [OF steps_quiet(2)] kept_AtomicWrite assms)

lemma kept_osCreate: "p \<noteq> [] \<Longrightarrow> \<not> Q p \<Longrightarrow> steps (kept Q) (osCreate E p)"
  by (auto simp: steps_def osCreate_def prim_def Let_def kept_def split: option.splits node.splits)

lemma kept_only: "steps (only_at T) m \<Longrightarrow> (\<And>q. T q \<Longrightarrow> \<not> Q q) \<Longrightarrow> steps (kept Q) m"
  by (auto simp: steps_def only_at_def kept_def) metis

lemma kept_export:
  assumes "p \<noteq> []" "\<not> Q p"
  shows "steps (kept Q) (exportDockerArchive E img p)"
proof -
  have "steps (kept Q) (fWrite E p b)" for b
    by (rule kept_only [OF steps_touch(4) [of p "\<lambda>q. q = p"]]) (use assms in auto)
  then show ?thesis
    unfolding exportDockerArchive_def by (intro keep.steps_rules kept_osCreate assms)
qed

section \<open>The trigger keeps published releases\<close>

text \<open>The release files of the store, the channel excepted.\<close>

definition store_release :: "watch_config \<Rightarrow> path \<Rightarrow> bool" where
  "store_release cfg q \<longleftrightarrow> (\<exists>rel. q = releasePath (pbRoot (wcPublish cfg)) rel) \<and> q \<noteq> channelPath cfg"

text \<open>The counter is a file of its own, beside the releases.\<close>

definition counter_ok :: "watch_config \<Rightarrow> bool" where
  "counter_ok cfg \<longleftrightarrow> pbSequenceFile (wcPublish cfg) \<noteq> [] \<and> \<not> is_temp (pbSequenceFile (wcPublish cfg))
     \<and> \<not> store_release cfg (pbSequenceFile (wcPublish cfg))"

lemma kept_emit: "steps (on_fst (kept Q)) (emit opts kind detail)"
  by (simp add: emit_def kept_local keep_fst.steps_ret)

lemma kept_promote: "layout_ok cfg \<Longrightarrow> steps (kept (store_release cfg)) (promote P E cfg envelope)"
  using spares_promote [of cfg P E envelope] by (fastforce simp: steps_def spares_def kept_def store_release_def)

lemma kept_export_release:
  assumes "layout_ok (tgConfig opts)" "counter_ok (tgConfig opts)" and dir: "dir = [''tmp'', t]"
  shows "steps (on_fst (kept (\<lambda>q. store_release (tgConfig opts) q \<and> q \<noteq> releaseFile (tgConfig opts) release)))
    (export_release P E opts req release img dir)"
proof -
  let ?cfg = "tgConfig opts" and ?Q = "\<lambda>q. store_release (tgConfig opts) q \<and> q \<noteq> releaseFile (tgConfig opts) release"
  have tmp: "\<not> ?Q (dir @ [''image.tar''])" "dir @ [''image.tar''] \<noteq> []"
    using assms(1) by (cases "pbRoot (wcPublish ?cfg)"; auto simp: store_release_def releasePath_def layout_ok_def dir)+
  have archive: "steps (kept ?Q) (exportDockerArchive E img (dir @ [''image.tar'']))"
    by (rule kept_export) (use tmp in auto)
  have publish: "steps (kept ?Q) (publish_io P E (triggerPublish ?cfg req tar release n hex))" for tar n hex
    by (rule kept_publish_io) (auto simp: triggerPublish_def store_release_def releaseFile_plain)
  have weaker: "steps (kept (store_release ?cfg)) m \<Longrightarrow> steps (kept ?Q) m" for m :: "'b io"
    by (auto simp: steps_def kept_def)
  show ?thesis
    unfolding export_release_def Let_def
    by (intro keep_fst.steps_rules steps_onFst archive weaker [OF kept_nextSequence] publish
        kept_silent [OF steps_quiet(2)] weaker [OF kept_promote] kept_emit assms(1) keep.steps_attemptM)
       (use assms(2) in \<open>auto simp: counter_ok_def\<close>)
qed

lemma kept_remoteImage: "steps (kept Q) (remoteImage P E c req)"
  unfolding remoteImage_def
  by (intro keep.steps_rules) (auto simp: steps_def kept_def lookup_def)

lemma kept_export_step:
  assumes "layout_ok (tgConfig opts)" "counter_ok (tgConfig opts)"
  shows "steps (on_fst (kept (\<lambda>q. store_release (tgConfig opts) q \<and> q \<noteq> releaseFile (tgConfig opts) release)))
    (bindM (onFst (osMkdirTemp E pre)) (\<lambda>dir. deferM (onFst (osRemoveAll dir)) (export_release P E opts req release img dir)))"
    (is "steps (on_fst (kept ?Q)) _")
proof (rule keep_fst.steps_bindM_res)
  show "steps (on_fst (kept ?Q)) (onFst (osMkdirTemp E pre) :: path tg)"
    by (rule steps_onFst) (auto simp: steps_def osMkdirTemp_def prim_def Let_def kept_def split: if_splits)
  fix dir st st' assume "onFst (osMkdirTemp E pre) st = (Inr dir, st')"
  then obtain t where dir: "dir = [''tmp'', t]"
    using osMkdirTemp_ok(2) [of E pre "fst st"] by (auto simp: onFst_ok)
  have "\<not> ?Q q" if "prefix dir q" for q
    using that assms(1) by (cases "pbRoot (wcPublish (tgConfig opts))") (auto simp: store_release_def releasePath_def layout_ok_def dir)
  then have "steps (kept ?Q) (osRemoveAll dir)"
    by (intro kept_only [OF steps_RemoveAll [of dir "prefix dir"]]) (auto simp: dir)
  then show "steps (on_fst (kept ?Q)) (deferM (onFst (osRemoveAll dir)) (export_release P E opts req release img dir))"
    by (intro keep_fst.steps_deferM steps_onFst kept_export_release [OF assms dir])
qed

lemma kept_regTrigger:
  assumes lay: "layout_ok (tgConfig opts)" "counter_ok (tgConfig opts)"
  shows "steps (on_fst (kept (store_release (tgConfig opts)))) (regTrigger P E opts req)"
proof (rule stepsI)
  let ?cfg = "tgConfig opts"
  fix st r st' assume run: "regTrigger P E opts req st = (r, st')"
  show "on_fst (kept (store_release ?cfg)) st st'"
  proof (cases "releaseName P (pbReleasePrefix (wcPublish ?cfg)) req")
    case (Inl e)
    then show ?thesis using run by (auto simp: regTrigger_def Let_def bindM_def sm_run on_fst_def kept_def)
  next
    case (Inr release)
    let ?rf = "releaseFile ?cfg release"
    obtain x w1 where rd: "osReadFile E ?rf (fst st) = (x, w1)" by (rule prod.exhaust)
    have s1: "lookup w1 = lookup (fst st)" using stepsD [OF steps_silent_prims(2) rd] by (simp add: silent_def)
    show ?thesis
    proof (cases x)
      case old: (Inr envelope)
      have "reuse_release P E opts req release envelope (w1, snd st) = (r, st')"
        using run rd old Inr by (simp add: regTrigger_def Let_def bindM_def sm_run onFst_def attemptM_def)
      from stepsD [OF spares_reuse [OF lay(1)] this] s1 show ?thesis
        by (auto simp: on_fst_def spares_def kept_def store_release_def)
    next
      case none: (Inl e)
      show ?thesis
      proof (cases "e = NotExist")
        case False
        then show ?thesis using run rd none Inr s1
          by (auto simp: regTrigger_def Let_def bindM_def sm_run onFst_def attemptM_def on_fst_def kept_def)
      next
        case True
        have nofile: "lookup (fst st) ?rf \<noteq> Some (FileN b m)" for b m
          using rd none True by (auto simp: osReadFile_def prim_def Let_def split: if_splits)
        let ?rest = "bindM (liftR (case tgClient opts of Some c \<Rightarrow> Inr c
                 | None \<Rightarrow> NewClient P (wcRegistryURL ?cfg) \<lparr>acUsername = wcUsername ?cfg, acPassword = getenv P (wcPasswordEnv ?cfg)\<rparr>)) (\<lambda>c.
               bindM (emit opts ''release-detected'' (prRepo req @ '':'' @ prTag req @ ''@'' @ prDigest req)) (\<lambda>_.
               bindM (onFst (remoteImage P E c req)) (\<lambda>img.
               bindM (onFst (osMkdirTemp E ''edgelab-export'')) (\<lambda>dir.
               deferM (onFst (osRemoveAll dir)) (export_release P E opts req release img dir)))))"
        have rest: "?rest (w1, snd st) = (r, st')"
          using run rd none Inr True by (simp add: regTrigger_def Let_def bindM_def [of "liftR (Inr release)"]
              bindM_def [of "onFst (attemptM (osReadFile E ?rf))"] sm_run onFst_def [of "attemptM (osReadFile E ?rf)"] attemptM_def)
        have "steps (on_fst (kept (\<lambda>q. store_release ?cfg q \<and> q \<noteq> ?rf))) ?rest"
          by (intro keep_fst.steps_bindM keep_fst.steps_liftR kept_emit steps_onFst kept_remoteImage kept_export_step lay)
        from stepsD [OF this rest] have "kept (\<lambda>q. store_release ?cfg q \<and> q \<noteq> ?rf) w1 (fst st')" by (simp add: on_fst_def)
        then show ?thesis
          unfolding on_fst_def kept_def s1 using nofile by blast
      qed
    qed
  qed
qed

section \<open>Acknowledged means published\<close>

lemma releaseName_long: "releaseName P pre req = Inr rel \<Longrightarrow> 64 < length rel"
  using hexDigest_Hash by (auto simp: releaseName_def Let_def hexDigest_def split: sum.splits if_splits)

definition in_store :: "'x watch_prims_scheme \<Rightarrow> watch_config \<Rightarrow> world \<Rightarrow> publish_request \<Rightarrow> bool" where
  "in_store P cfg w req \<longleftrightarrow> (\<exists>rel envelope. releaseName P (pbReleasePrefix (wcPublish cfg)) req = Inr rel \<and> safeRelease rel
     \<and> file_bytes w (releaseFile cfg rel) = Some envelope)"

text \<open>State file, channel and counter are files of their own.\<close>

definition publisher_layout :: "watch_config \<Rightarrow> bool" where
  "publisher_layout cfg \<longleftrightarrow> layout_ok cfg \<and> counter_ok cfg \<and> length (pbChannel (wcPublish cfg)) \<le> 64
     \<and> wcStateFile cfg \<noteq> [] \<and> \<not> is_temp (wcStateFile cfg) \<and> \<not> store_release cfg (wcStateFile cfg)"

lemma in_store_kept:
  assumes "publisher_layout cfg" "kept (store_release cfg) w w'" "in_store P cfg w req"
  shows "in_store P cfg w' req"
proof -
  from assms(3) obtain rel envelope where r: "releaseName P (pbReleasePrefix (wcPublish cfg)) req = Inr rel" "safeRelease rel"
    "file_bytes w (releaseFile cfg rel) = Some envelope" by (auto simp: in_store_def)
  have "rel \<noteq> pbChannel (wcPublish cfg)" using releaseName_long [OF r(1)] assms(1) by (auto simp: publisher_layout_def)
  then have "store_release cfg (releaseFile cfg rel)"
    using assms(1) layout_channel(1) [of cfg]
    by (auto simp: store_release_def releaseFile_plain [OF r(2)] publisher_layout_def releasePath_def)
  with assms(2) r show ?thesis
    by (fastforce simp: in_store_def kept_def file_bytes_def split: option.splits node.splits)
qed

text \<open>What a step of the loop does: published releases stay, the configuration stays, and a digest newly
  acknowledged belongs to a release in the store.\<close>

definition acks_published :: "'x watch_prims_scheme \<Rightarrow> watch_config \<Rightarrow> world \<times> watcher \<Rightarrow> world \<times> watcher \<Rightarrow> bool" where
  "acks_published P cfg st st' \<longleftrightarrow> (publisher_layout cfg \<and> waCfg (snd st) = cfg \<longrightarrow>
     kept (store_release cfg) (fst st) (fst st') \<and> waCfg (snd st') = cfg \<and>
     (\<forall>k. waState (snd st') k \<noteq> waState (snd st) k \<longrightarrow> (\<exists>req. k = stateKey (prRepo req) (prTag req)
        \<and> waState (snd st') k = Some (prDigest req) \<and> in_store P cfg (fst st') req)))"

interpretation acks: effect_order "acks_published P cfg" for P cfg
proof
  fix s t u assume st: "acks_published P cfg s t" and tu: "acks_published P cfg t u"
  show "acks_published P cfg s u"
    unfolding acks_published_def
  proof (intro impI)
    assume l: "publisher_layout cfg \<and> waCfg (snd s) = cfg"
    note 1 = st [unfolded acks_published_def, rule_format, OF l]
    then have l2: "publisher_layout cfg \<and> waCfg (snd t) = cfg" using l by blast
    note 2 = tu [unfolded acks_published_def, rule_format, OF l2]
    have "\<exists>req. k = stateKey (prRepo req) (prTag req) \<and> waState (snd u) k = Some (prDigest req) \<and> in_store P cfg (fst u) req"
      if k: "waState (snd u) k \<noteq> waState (snd s) k" for k
    proof (cases "waState (snd u) k = waState (snd t) k")
      case False
      then show ?thesis using 2 by blast
    next
      case True
      then obtain req where "k = stateKey (prRepo req) (prTag req)" "waState (snd t) k = Some (prDigest req)" "in_store P cfg (fst t) req"
        using 1 k by auto
      with True 2 l show ?thesis by (metis in_store_kept)
    qed
    with 1 2 show "kept (store_release cfg) (fst s) (fst u) \<and> waCfg (snd u) = cfg \<and>
      (\<forall>k. waState (snd u) k \<noteq> waState (snd s) k \<longrightarrow> (\<exists>req. k = stateKey (prRepo req) (prTag req)
        \<and> waState (snd u) k = Some (prDigest req) \<and> in_store P cfg (fst u) req))"
      by (blast intro: keep.R_trans)
  qed
qed (simp add: acks_published_def kept_def)

lemma acks_quiet:
  assumes "\<And>w wa r w' wa'. m (w, wa) = (r, w', wa') \<Longrightarrow> kept (store_release cfg) w w' \<and> waState wa' = waState wa \<and> waCfg wa' = waCfg wa"
  shows "steps (acks_published P cfg) m"
  by (rule stepsI) (use assms in \<open>fastforce simp: acks_published_def\<close>)

lemma acks_emitError: "steps (acks_published P cfg) (emitError d)"
  by (rule acks_quiet) (auto simp: emitError_def modS_def kept_def)

lemma acks_client: "steps no_write m \<Longrightarrow> steps (acks_published P cfg) (onClient m)"
  by (rule acks_quiet) (auto simp: onClient_def kept_lookup no_write_def dest!: stepsD split: prod.splits)

lemma acks_local: "steps (acks_published P cfg) getS" "steps (acks_published P cfg) (onFst (ctxErr E))"
  "steps (acks_published P cfg) (onFst (sleepFor E d))"
  by (rule acks_quiet; auto simp: onFst_def getS_def kept_def ctxErr_def sleepFor_def Let_def split: prod.splits if_splits)+

lemma acks_poll_tags: "steps (acks_published P' cfg) (poll_tags P E r tags acc)"
  by (induction P E r tags acc rule: poll_tags.induct)
    (auto intro!: acks.steps_rules acks_emitError acks_client client_no_write acks_local)

lemma acks_poll_repos: "steps (acks_published P' cfg) (poll_repos P E rs acc)"
  by (induction P E rs acc rule: poll_repos.induct)
    (auto intro!: acks.steps_rules acks_emitError acks_client client_no_write acks_poll_tags)

text \<open>A request served: the trigger, then the acknowledgement.\<close>

lemma onEvents_run: "onEvents m (w, wa) = (r, w', wa') \<longleftrightarrow> (\<exists>ev'. m (w, waEvents wa) = (r, w', ev') \<and> wa' = wa\<lparr>waEvents := ev'\<rparr>)"
  by (auto simp: onEvents_def split: prod.splits)

lemma publisherTrigger_effect:
  assumes "publisher_layout (tgConfig opts)" "publisherTrigger P E opts req (w, wa) = (r, w', wa')"
  shows "kept (store_release (tgConfig opts)) w w'" "waState wa' = waState wa" "waCfg wa' = waCfg wa"
    "r = Inr () \<Longrightarrow> in_store P (tgConfig opts) w' req"
proof -
  obtain r1 ev' where run: "regTrigger P E opts req (w, waEvents wa) = (r1, w', ev')" and wa': "wa' = wa\<lparr>waEvents := ev'\<rparr>"
    and r: "r = (case r1 of Inl e \<Rightarrow> Inl e | Inr _ \<Rightarrow> Inr ())"
    using assms(2) by (fastforce simp: publisherTrigger_def bindM_run onEvents_run ret_def)
  have lay: "layout_ok (tgConfig opts)" "counter_ok (tgConfig opts)" using assms(1) by (simp_all add: publisher_layout_def)
  show "kept (store_release (tgConfig opts)) w w'"
    using stepsD [OF kept_regTrigger [OF lay] run] by (simp add: on_fst_def)
  show "waState wa' = waState wa" "waCfg wa' = waCfg wa" using wa' by simp_all
  assume "r = Inr ()"
  then obtain rel where "r1 = Inr rel" using r by (cases r1) auto
  with regTrigger_ok [OF lay(1) run [unfolded this]] show "in_store P (tgConfig opts) w' req"
    by (auto simp: in_store_def)
qed

lemma Acknowledge_effect:
  assumes "publisher_layout (waCfg wa)" "Acknowledge P E req (w, wa) = (r, w', wa')"
  shows "kept (store_release (waCfg wa)) w w'"
    and "wa' = (case r of Inl _ \<Rightarrow> wa | Inr _ \<Rightarrow> wa\<lparr>waState := (waState wa)(stateKey (prRepo req) (prTag req) \<mapsto> prDigest req)\<rparr>)"
proof -
  note ack = Acknowledge_cases [OF assms(2)]
  show "kept (store_release (waCfg wa)) w w'"
    using assms(1) by (intro stepsD [OF kept_AtomicWrite ack(1)]) (simp_all add: publisher_layout_def)
qed (rule Acknowledge_cases [OF assms(2)])

definition serve_request :: "'x watch_prims_scheme \<Rightarrow> env \<Rightarrow> trigger_opts \<Rightarrow> publish_request \<Rightarrow> (error + error + unit) wt" where
  "serve_request P E opts req = bindM (attemptM (publisherTrigger P E opts req)) (\<lambda>x. case x of
      Inl e \<Rightarrow> ret (Inl e)
    | Inr _ \<Rightarrow> bindM (attemptM (Acknowledge P E req)) (\<lambda>y. ret (Inr y)))"

lemma acks_serve:
  assumes "tgConfig opts = cfg"
  shows "steps (acks_published P cfg) (serve_request P E opts req)"
proof (rule stepsI)
  fix st r st' assume run: "serve_request P E opts req st = (r, st')"
  show "acks_published P cfg st st'"
    unfolding acks_published_def
  proof (rule impI)
    assume l: "publisher_layout cfg \<and> waCfg (snd st) = cfg"
    obtain w wa where st: "st = (w, wa)" by (rule prod.exhaust)
    obtain x w1 wa1 where t: "publisherTrigger P E opts req (w, wa) = (x, w1, wa1)" by (rule prod_cases3)
    note tr = publisherTrigger_effect [OF _ t, unfolded assms, OF conjunct1 [OF l]]
    let ?goal = "\<lambda>st'. kept (store_release cfg) (fst st) (fst st') \<and> waCfg (snd st') = cfg \<and>
      (\<forall>k. waState (snd st') k \<noteq> waState (snd st) k \<longrightarrow> (\<exists>req. k = stateKey (prRepo req) (prTag req)
        \<and> waState (snd st') k = Some (prDigest req) \<and> in_store P cfg (fst st') req))"
    show "?goal st'"
    proof (cases x)
      case (Inl e)
      then have "st' = (w1, wa1)" using run t by (simp add: st serve_request_def bindM_def attemptM_def ret_def)
      then show ?thesis using tr(1-3) l by (simp add: st)
    next
      case (Inr u)
      obtain y w2 wa2 where a: "Acknowledge P E req (w1, wa1) = (y, w2, wa2)" by (rule prod_cases3)
      have st': "st' = (w2, wa2)" using run t a Inr by (simp add: st serve_request_def bindM_def attemptM_def ret_def)
      have cfg1: "waCfg wa1 = cfg" using tr l st by simp
      note ack = Acknowledge_effect [OF _ a, unfolded cfg1, OF conjunct1 [OF l]]
      have store: "in_store P cfg w2 req"
        using in_store_kept [OF conjunct1 [OF l] ack(1)] tr(4) Inr by simp
      have "waState wa2 k = Some (prDigest req) \<and> k = stateKey (prRepo req) (prTag req)" if "waState wa2 k \<noteq> waState wa k" for k
        using that ack(2) tr(2) by (auto split: sum.splits if_splits)
      moreover have "waCfg wa2 = cfg" using ack(2) cfg1 by (auto split: sum.splits)
      ultimately show ?thesis
        using store keep.R_trans [OF tr(1) ack(1)] by (auto simp: st st')
    qed
  qed
qed

lemma acks_run_requests:
  assumes "tgConfig opts = cfg"
  shows "steps (acks_published P cfg) (run_requests P E (Some (publisherTrigger P E opts)) reqs err)"
proof (induction reqs)
  case Nil
  then show ?case by (simp add: acks.steps_ret)
next
  case (Cons req reqs)
  let ?tail = "\<lambda>z. case z of
      Inl e \<Rightarrow> bindM (emitError (''trigger '' @ prRepo req @ '':'' @ prTag req)) (\<lambda>_. ret (Some e))
    | Inr (Inl e) \<Rightarrow> bindM (emitError ''persist state'') (\<lambda>_. ret (Some e))
    | Inr (Inr _) \<Rightarrow> run_requests P E (Some (publisherTrigger P E opts)) reqs err"
  have eq: "run_requests P E (Some (publisherTrigger P E opts)) (req # reqs) err = bindM (serve_request P E opts req) ?tail"
    by (simp add: serve_request_def bindM_assoc) (rule arg_cong [of _ _ "bindM _"], auto simp: bindM_assoc fun_eq_iff split: sum.splits)
  show ?case
    unfolding eq by (intro acks.steps_bindM acks_serve assms acks.steps_case_sum acks_emitError acks.steps_ret Cons)
qed

lemma acks_watchRun:
  assumes "tgConfig opts = cfg"
  shows "steps (acks_published P cfg) (watchRun P E (Some (publisherTrigger P E opts)) rounds backoff)"
proof (induction rounds arbitrary: backoff)
  case 0
  then show ?case by (simp add: acks.steps_throw)
next
  case (Suc rounds)
  show ?case
    unfolding watchRun.simps run_round_def PollOnce_def
    by (intro acks.steps_rules acks_local acks_poll_repos acks_run_requests assms Suc)
qed

text \<open>C10. The pipeline acknowledges published work only. However a run of the watcher with the publication pipeline
  ends, after any number of rounds and whatever failed on the way: every digest it acknowledged belongs to a
  request whose release, under the name derived from repository, tag and digest, is in the store, and no release
  that was in the store before has changed.\<close>

theorem Publisher_acknowledges_published:
  assumes "publisher_layout cfg" and "waCfg wa = cfg" and "tgConfig opts = cfg"
    and "wtRun P E (Some (publisherTrigger P E opts)) rounds (w, wa) = (r, w', wa')"
  shows "(\<forall>k. waState wa' k \<noteq> waState wa k \<longrightarrow> (\<exists>req rel envelope. k = stateKey (prRepo req) (prTag req)
        \<and> waState wa' k = Some (prDigest req) \<and> releaseName P (pbReleasePrefix (wcPublish cfg)) req = Inr rel
        \<and> file_bytes w' (releasePath (pbRoot (wcPublish cfg)) rel) = Some envelope))
    \<and> (\<forall>rel b m. releasePath (pbRoot (wcPublish cfg)) rel \<noteq> channelPath cfg \<longrightarrow>
        lookup w (releasePath (pbRoot (wcPublish cfg)) rel) = Some (FileN b m) \<longrightarrow>
        lookup w' (releasePath (pbRoot (wcPublish cfg)) rel) = Some (FileN b m))"
proof -
  have "acks_published P cfg (w, wa) (w', wa')"
    using stepsD [OF acks_watchRun [OF assms(3)] assms(4) [unfolded wtRun_def]] .
  then have run: "kept (store_release cfg) w w'" "\<forall>k. waState wa' k \<noteq> waState wa k \<longrightarrow> (\<exists>req. k = stateKey (prRepo req) (prTag req)
        \<and> waState wa' k = Some (prDigest req) \<and> in_store P cfg w' req)"
    using assms(1,2) by (simp_all add: acks_published_def)
  have "\<exists>rel envelope. releaseName P (pbReleasePrefix (wcPublish cfg)) req = Inr rel
      \<and> file_bytes w' (releasePath (pbRoot (wcPublish cfg)) rel) = Some envelope" if "in_store P cfg w' req" for req
    using that by (auto simp: in_store_def releaseFile_plain)
  then have "\<forall>k. waState wa' k \<noteq> waState wa k \<longrightarrow> (\<exists>req rel envelope. k = stateKey (prRepo req) (prTag req)
      \<and> waState wa' k = Some (prDigest req) \<and> releaseName P (pbReleasePrefix (wcPublish cfg)) req = Inr rel
      \<and> file_bytes w' (releasePath (pbRoot (wcPublish cfg)) rel) = Some envelope)"
    using run(2) by meson
  moreover have "store_release cfg (releasePath (pbRoot (wcPublish cfg)) rel)"
    if "releasePath (pbRoot (wcPublish cfg)) rel \<noteq> channelPath cfg" for rel using that by (auto simp: store_release_def)
  ultimately show ?thesis using run(1) by (simp add: kept_def)
qed

theorem Publisher_acknowledges_published_witness:
  "lookup (fst (snd (wtRun demo_watch steady_registry (Some (publisherTrigger demo_watch steady_registry demo_opts)) 3
     (demo_signed, freshWatcher demo_reg_client demo_config)))) [''store'', ''releases'', demo_name @ ''.json''] = Some (FileN demo_env 420)"
proof -
  obtain r w' wa' where run: "wtRun demo_watch steady_registry (Some (publisherTrigger demo_watch steady_registry demo_opts)) 3
     (demo_signed, freshWatcher demo_reg_client demo_config) = (r, w', wa')" by (rule prod_cases3)
  have "publisher_layout demo_config"
    using demo_paths(3)
    by (auto simp: publisher_layout_def counter_ok_def store_release_def releasePath_def is_temp_def isTempName_def tmpPrefix_def)
      (auto simp: demo_config_def)
  moreover have "waCfg (freshWatcher demo_reg_client demo_config) = demo_config" "tgConfig demo_opts = demo_config"
    by (simp_all add: freshWatcher_def demo_opts_def)
  moreover have path: "releasePath (pbRoot (wcPublish demo_config)) demo_name = [''store'', ''releases'', demo_name @ ''.json'']"
    by (simp add: releasePath_def demo_config_def)
  moreover have "[''store'', ''releases'', demo_name @ ''.json''] \<noteq> channelPath demo_config"
    by (simp add: demo_paths(2)) (simp add: demo_name_def)
  moreover have "lookup demo_signed [''store'', ''releases'', demo_name @ ''.json''] = Some (FileN demo_env 420)"
    by (simp add: demo_signed_lookup)
  ultimately show ?thesis
    using conjunct2 [OF Publisher_acknowledges_published [OF _ _ _ run, of demo_config], rule_format, of demo_name] by (simp add: run)
qed

end
