(* ===== verification/HubCache.thy ===== *)
theory HubCache
  imports GoStd
begin

text \<open>
  The byte-budgeted cache of the hub, \<open>src/internal/hub/hub.go\<close> (\<open>LRU\<close>, \<open>InvalidatePrefix\<close>). A body is
  a slice: a pointer to the buffer and its length. The list elements the code points to have identities,
  so that the map and the list are as separate here as they are there.
\<close>

section \<open>Data\<close>

record slice =
  slPtr :: nat
  slLen :: nat

record entry =
  enRel :: string
  enData :: slice

text \<open>\<open>luOrder\<close> is the list from the front (most recent); \<open>luNext\<close> the identity of the next element.\<close>

record LRU =
  luMaxBytes :: int
  luCurBytes :: int
  luItems :: "string \<rightharpoonup> nat"
  luOrder :: "(nat \<times> entry) list"
  luNext :: nat

definition newLRU :: "int \<Rightarrow> LRU" where
  "newLRU maxBytes = \<lparr>luMaxBytes = maxBytes, luCurBytes = 0, luItems = Map.empty, luOrder = [], luNext = 0\<rparr>"

section \<open>Operations\<close>

text \<open>\<open>container/list\<close>: moving and removing an element.\<close>

definition moveToFront :: "nat \<Rightarrow> (nat \<times> entry) list \<Rightarrow> (nat \<times> entry) list" where
  "moveToFront el xs = filter (\<lambda>x. fst x = el) xs @ filter (\<lambda>x. fst x \<noteq> el) xs"

definition remove_el :: "nat \<Rightarrow> (nat \<times> entry) list \<Rightarrow> (nat \<times> entry) list" where
  "remove_el el xs = filter (\<lambda>x. fst x \<noteq> el) xs"

definition lru_get :: "string \<Rightarrow> LRU \<Rightarrow> slice option \<times> LRU" where
  "lru_get rel l = (case luItems l rel of
       None \<Rightarrow> (None, l)
     | Some el \<Rightarrow> (map_option enData (map_of (luOrder l) el), l\<lparr>luOrder := moveToFront el (luOrder l)\<rparr>))"

definition set_data :: "nat \<Rightarrow> slice \<Rightarrow> (nat \<times> entry) list \<Rightarrow> (nat \<times> entry) list" where
  "set_data el d xs = map (\<lambda>(i, e). if i = el then (i, e\<lparr>enData := d\<rparr>) else (i, e)) xs"

definition lru_insert :: "string \<Rightarrow> slice \<Rightarrow> LRU \<Rightarrow> LRU" where
  "lru_insert rel data l = (case luItems l rel of
       Some el \<Rightarrow> l\<lparr>luCurBytes := luCurBytes l + (int (slLen data)
                      - (case map_of (luOrder l) el of Some e \<Rightarrow> int (slLen (enData e)) | None \<Rightarrow> 0)),
                    luOrder := set_data el data (moveToFront el (luOrder l))\<rparr>
     | None \<Rightarrow> l\<lparr>luItems := (luItems l)(rel \<mapsto> luNext l),
                 luOrder := (luNext l, \<lparr>enRel = rel, enData = data\<rparr>) # luOrder l,
                 luNext := Suc (luNext l), luCurBytes := luCurBytes l + int (slLen data)\<rparr>)"

definition drop_entry :: "nat \<times> entry \<Rightarrow> LRU \<Rightarrow> LRU" where
  "drop_entry x l = l\<lparr>luOrder := remove_el (fst x) (luOrder l), luItems := (luItems l)(enRel (snd x) := None),
     luCurBytes := luCurBytes l - int (slLen (enData (snd x)))\<rparr>"

function evict :: "LRU \<Rightarrow> nat \<Rightarrow> LRU \<times> nat" where
  "evict l evicted = (if luCurBytes l > luMaxBytes l \<and> length (luOrder l) > 1
     then evict (drop_entry (last (luOrder l)) l) (Suc evicted) else (l, evicted))"
  by pat_completeness auto
termination
proof (relation "measure (\<lambda>(l, n). length (luOrder l))")
  fix l :: LRU and evicted :: nat
  assume "luCurBytes l > luMaxBytes l \<and> length (luOrder l) > 1"
  then have "last (luOrder l) \<in> set (luOrder l)" by (intro last_in_set) auto
  then show "((drop_entry (last (luOrder l)) l, Suc evicted), (l, evicted)) \<in> measure (\<lambda>(l, n). length (luOrder l))"
    by (auto simp: drop_entry_def remove_el_def intro: length_filter_less)
qed simp

declare evict.simps [simp del]

definition lru_put :: "string \<Rightarrow> slice \<Rightarrow> LRU \<Rightarrow> nat \<times> LRU" where
  "lru_put rel data l = (case evict (lru_insert rel data l) 0 of (l', n) \<Rightarrow> (n, l'))"

text \<open>The scan of \<open>InvalidatePrefix\<close> restarts from the front after each removal.\<close>

function invalidate :: "string \<Rightarrow> LRU \<Rightarrow> nat \<Rightarrow> nat \<times> LRU" where
  "invalidate pre l dropped = (case find (\<lambda>x. hasPrefix (enRel (snd x)) pre) (luOrder l) of
       None \<Rightarrow> (dropped, l)
     | Some x \<Rightarrow> invalidate pre (drop_entry x l) (Suc dropped))"
  by pat_completeness auto
termination
proof (relation "measure (\<lambda>(p, l, n). length (luOrder l))")
  fix pre and l :: LRU and dropped :: nat and x
  assume "find (\<lambda>x. hasPrefix (enRel (snd x)) pre) (luOrder l) = Some x"
  then have "x \<in> set (luOrder l)" by (metis find_Some_iff nth_mem)
  then show "((pre, drop_entry x l, Suc dropped), (pre, l, dropped)) \<in> measure (\<lambda>(p, l, n). length (luOrder l))"
    by (auto simp: drop_entry_def remove_el_def intro: length_filter_less)
qed simp

declare invalidate.simps [simp del]

section \<open>Invariant\<close>

definition entries_bytes :: "(nat \<times> entry) list \<Rightarrow> int" where
  "entries_bytes xs = (\<Sum>x\<leftarrow>xs. int (slLen (enData (snd x))))"

text \<open>Map and list name the same elements, a path occurs once, and \<open>curBytes\<close> is the size of the bodies.\<close>

definition lru_ok :: "LRU \<Rightarrow> bool" where
  "lru_ok l \<longleftrightarrow> distinct (map fst (luOrder l)) \<and> list_all (\<lambda>x. fst x < luNext l) (luOrder l)
   \<and> (\<forall>rel el. luItems l rel = Some el \<longleftrightarrow> (\<exists>e. (el, e) \<in> set (luOrder l) \<and> enRel e = rel))
   \<and> luCurBytes l = entries_bytes (luOrder l)"

lemma newLRU_ok: "lru_ok (newLRU n)"
  by (simp add: lru_ok_def newLRU_def entries_bytes_def)

lemma entries_bytes_simps [simp]:
  "entries_bytes [] = 0" "entries_bytes (x # xs) = int (slLen (enData (snd x))) + entries_bytes xs"
  "entries_bytes (xs @ ys) = entries_bytes xs + entries_bytes ys"
  by (simp_all add: entries_bytes_def)

text \<open>A list without repeated identities around one element.\<close>

lemma split_at_el:
  assumes "distinct (map fst xs)" and "(el, e) \<in> set xs"
  obtains ys zs where "xs = ys @ (el, e) # zs" "\<forall>x \<in> set ys \<union> set zs. fst x \<noteq> el"
proof -
  obtain ys zs where xs: "xs = ys @ (el, e) # zs" using assms(2) by (auto simp: in_set_conv_decomp)
  moreover have "\<forall>x \<in> set ys \<union> set zs. fst x \<noteq> el"
    using assms(1) unfolding xs by (auto simp: image_iff)
  ultimately show ?thesis by (rule that)
qed

lemma filters_at_el:
  assumes "\<forall>x \<in> set ys \<union> set zs. fst x \<noteq> el"
  shows "moveToFront el (ys @ (el, e) # zs) = (el, e) # ys @ zs"
    and "remove_el el (ys @ (el, e) # zs) = ys @ zs"
    and "map_of (ys @ (el, e) # zs) el = Some e"
    and "set_data el d ((el, e) # ys @ zs) = (el, e\<lparr>enData := d\<rparr>) # ys @ zs"
proof -
  have f: "filter (\<lambda>x. fst x = el) ys = []" "filter (\<lambda>x. fst x = el) zs = []"
    "filter (\<lambda>x. fst x \<noteq> el) ys = ys" "filter (\<lambda>x. fst x \<noteq> el) zs = zs"
    using assms by (auto simp: filter_empty_conv filter_id_conv)
  then show "moveToFront el (ys @ (el, e) # zs) = (el, e) # ys @ zs" "remove_el el (ys @ (el, e) # zs) = ys @ zs"
    by (simp_all add: moveToFront_def remove_el_def)
  have "map_of ys el = None" using assms by (force simp: map_of_eq_None_iff)
  then show "map_of (ys @ (el, e) # zs) el = Some e" by (simp add: map_add_def)
  have "map (\<lambda>(i, e). if i = el then (i, e\<lparr>enData := d\<rparr>) else (i, e)) vs = vs" if "\<forall>x \<in> set vs. fst x \<noteq> el" for vs
    using that by (induction vs) auto
  from this [of ys] this [of zs] show "set_data el d ((el, e) # ys @ zs) = (el, e\<lparr>enData := d\<rparr>) # ys @ zs"
    using assms by (simp add: set_data_def)
qed

section \<open>Refinement of a recency list\<close>

text \<open>The cache as a list of bodies by path, most recent first, and what the operations do to it.\<close>

definition recency :: "LRU \<Rightarrow> (string \<times> slice) list" where
  "recency l = map (\<lambda>x. (enRel (snd x), enData (snd x))) (luOrder l)"

definition bodies_bytes :: "(string \<times> slice) list \<Rightarrow> int" where
  "bodies_bytes xs = (\<Sum>x\<leftarrow>xs. int (slLen (snd x)))"

definition touch :: "string \<Rightarrow> (string \<times> slice) list \<Rightarrow> (string \<times> slice) list" where
  "touch rel xs = filter (\<lambda>x. fst x = rel) xs @ filter (\<lambda>x. fst x \<noteq> rel) xs"

definition store :: "string \<Rightarrow> slice \<Rightarrow> (string \<times> slice) list \<Rightarrow> (string \<times> slice) list" where
  "store rel d xs = (rel, d) # filter (\<lambda>x. fst x \<noteq> rel) xs"

text \<open>The longest part from the front that fits, but at least one body.\<close>

fun fits :: "int \<Rightarrow> (string \<times> slice) list \<Rightarrow> (string \<times> slice) list" where
  "fits budget [] = []"
| "fits budget (x # xs) = (if int (slLen (snd x)) \<le> budget then x # fits (budget - int (slLen (snd x))) xs else [])"

fun clip :: "int \<Rightarrow> (string \<times> slice) list \<Rightarrow> (string \<times> slice) list" where
  "clip budget [] = []"
| "clip budget (x # xs) = x # fits (budget - int (slLen (snd x))) xs"

lemma bodies_bytes_simps [simp]:
  "bodies_bytes [] = 0" "bodies_bytes (x # xs) = int (slLen (snd x)) + bodies_bytes xs"
  by (simp_all add: bodies_bytes_def)

lemma bodies_bytes_nonneg [simp]: "0 \<le> bodies_bytes xs"
  by (induction xs) auto

lemma fits_all: "bodies_bytes xs \<le> b \<Longrightarrow> fits b xs = xs"
proof (induction xs arbitrary: b)
  case (Cons x xs)
  then have "int (slLen (snd x)) \<le> b" "bodies_bytes xs \<le> b - int (slLen (snd x))"
    using bodies_bytes_nonneg [of xs] by (simp_all del: bodies_bytes_nonneg)
  with Cons.IH show ?case by simp
qed simp

lemma fits_butlast: "b < bodies_bytes xs \<Longrightarrow> fits b xs = fits b (butlast xs)"
proof (induction xs arbitrary: b)
  case (Cons x xs)
  then show ?case by (cases "xs = []") auto
qed simp

lemma fits_bytes: "0 \<le> b \<Longrightarrow> bodies_bytes (fits b xs) \<le> b"
proof (induction xs arbitrary: b)
  case (Cons x xs)
  have "bodies_bytes (fits (b - int (slLen (snd x))) xs) \<le> b - int (slLen (snd x))" if "int (slLen (snd x)) \<le> b"
    by (rule Cons.IH) (use that in simp)
  with Cons.prems show ?case by auto
qed simp

lemma fits_prefix: "prefix (fits b xs) xs"
  by (induction xs arbitrary: b) auto

lemma clip_prefix: "prefix (clip b xs) xs"
  by (cases xs) (auto simp: fits_prefix)

lemma clip_step:
  "b < bodies_bytes xs \<Longrightarrow> 1 < length xs \<Longrightarrow> clip b xs = clip b (butlast xs)"
  by (cases xs) (auto simp: fits_butlast)

lemma clip_done: "\<not> (b < bodies_bytes xs \<and> 1 < length xs) \<Longrightarrow> clip b xs = xs"
  by (cases xs) (auto simp: fits_all)

text \<open>Within the budget, or a single body that is larger than it.\<close>

lemma clip_budget: "bodies_bytes (clip b xs) \<le> b \<or> length (clip b xs) \<le> 1"
proof (cases xs)
  case (Cons x ys)
  show ?thesis
  proof (cases "int (slLen (snd x)) \<le> b")
    case True
    then show ?thesis using Cons fits_bytes [of "b - int (slLen (snd x))" ys] by simp
  next
    case False
    then have "fits (b - int (slLen (snd x))) ys = []" by (cases ys) auto
    then show ?thesis using Cons by simp
  qed
qed simp

section \<open>Every operation keeps the invariant and refines the list\<close>

lemma lru_ok_el:
  assumes "lru_ok l" and "luItems l rel = Some el"
  obtains e ys zs where "luOrder l = ys @ (el, e) # zs" "enRel e = rel" "\<forall>x \<in> set ys \<union> set zs. fst x \<noteq> el"
    "\<forall>x \<in> set ys \<union> set zs. enRel (snd x) \<noteq> rel"
proof -
  from assms obtain e where e: "(el, e) \<in> set (luOrder l)" "enRel e = rel" unfolding lru_ok_def by blast
  have d: "distinct (map fst (luOrder l))" using assms(1) by (simp add: lru_ok_def)
  obtain ys zs where s: "luOrder l = ys @ (el, e) # zs" "\<forall>x \<in> set ys \<union> set zs. fst x \<noteq> el"
    by (rule split_at_el [OF d e(1)])
  have "enRel (snd x) \<noteq> rel" if "x \<in> set ys \<union> set zs" for x
  proof
    assume "enRel (snd x) = rel"
    then have "luItems l rel = Some (fst x)"
      using assms(1) that s(1) unfolding lru_ok_def by (metis prod.collapse set_append Un_iff list.set_intros(2))
    then show False using assms(2) s(2) that by auto
  qed
  then show ?thesis using that s e(2) by blast
qed

lemma lru_ok_miss: "lru_ok l \<Longrightarrow> luItems l rel = None \<Longrightarrow> x \<in> set (luOrder l) \<Longrightarrow> enRel (snd x) \<noteq> rel"
  unfolding lru_ok_def by (cases x) (metis option.distinct(1) snd_conv)

lemma map_of_recency:
  assumes "lru_ok l"
  shows "map_of (recency l) rel = (case luItems l rel of None \<Rightarrow> None | Some el \<Rightarrow> map_option enData (map_of (luOrder l) el))"
proof (cases "luItems l rel")
  case None
  have "map_of (recency l) rel = None"
    unfolding map_of_eq_None_iff using lru_ok_miss [OF assms None] by (force simp: recency_def)
  then show ?thesis using None by simp
next
  case (Some el)
  obtain e ys zs where s: "luOrder l = ys @ (el, e) # zs" "enRel e = rel" "\<forall>x \<in> set ys \<union> set zs. fst x \<noteq> el"
    "\<forall>x \<in> set ys \<union> set zs. enRel (snd x) \<noteq> rel" by (rule lru_ok_el [OF assms Some])
  have "map_of (map (\<lambda>x. (enRel (snd x), enData (snd x))) ys) rel = None" using s(4) by (force simp: map_of_eq_None_iff)
  moreover have "map_of ys el = None" using s(3) by (force simp: map_of_eq_None_iff)
  ultimately show ?thesis using Some s(1,2) by (simp add: recency_def map_add_def)
qed

lemma lru_get_refines:
  assumes ok: "lru_ok l" and run: "lru_get rel l = (r, l')"
  shows "lru_ok l'" "recency l' = touch rel (recency l)" "r = map_of (recency l) rel" "luMaxBytes l' = luMaxBytes l"
proof -
  show "r = map_of (recency l) rel" using run map_of_recency [OF ok] by (auto simp: lru_get_def split: option.splits)
  show "luMaxBytes l' = luMaxBytes l" using run by (auto simp: lru_get_def split: option.splits)
  have "lru_ok l' \<and> recency l' = touch rel (recency l)"
  proof (cases "luItems l rel")
    case None
    then have l': "l' = l" using run by (simp add: lru_get_def)
    have "filter (\<lambda>x. enRel (snd x) = rel) (luOrder l) = []" "filter (\<lambda>x. enRel (snd x) \<noteq> rel) (luOrder l) = luOrder l"
      using lru_ok_miss [OF ok None] by (auto simp: filter_empty_conv filter_id_conv)
    then show ?thesis using ok l' by (simp add: recency_def touch_def filter_map comp_def)
  next
    case (Some el)
    obtain e ys zs where s: "luOrder l = ys @ (el, e) # zs" "enRel e = rel" "\<forall>x \<in> set ys \<union> set zs. fst x \<noteq> el"
      "\<forall>x \<in> set ys \<union> set zs. enRel (snd x) \<noteq> rel" by (rule lru_ok_el [OF ok Some])
    have l': "l' = l\<lparr>luOrder := (el, e) # ys @ zs\<rparr>" using run Some s by (simp add: lru_get_def filters_at_el)
    have "lru_ok l'" using ok s unfolding l' lru_ok_def by auto
    moreover have f: "filter (\<lambda>x. enRel (snd x) = rel) ys = []" "filter (\<lambda>x. enRel (snd x) = rel) zs = []"
      "filter (\<lambda>x. enRel (snd x) \<noteq> rel) ys = ys" "filter (\<lambda>x. enRel (snd x) \<noteq> rel) zs = zs"
      using s(4) by (auto simp: filter_empty_conv filter_id_conv)
    ultimately show ?thesis using s by (simp add: l' recency_def touch_def filter_map comp_def)
  qed
  then show "lru_ok l'" "recency l' = touch rel (recency l)" by blast+
qed

lemma recency_rels: "lru_ok l \<Longrightarrow> distinct (map fst (recency l))"
proof -
  assume ok: "lru_ok l"
  have "inj_on (\<lambda>x. enRel (snd x)) (set (luOrder l))"
  proof (rule inj_onI)
    fix x y assume "x \<in> set (luOrder l)" "y \<in> set (luOrder l)" and eq: "enRel (snd x) = enRel (snd y)"
    moreover from this have "luItems l (enRel (snd x)) = Some (fst x)" "luItems l (enRel (snd y)) = Some (fst y)"
      using ok unfolding lru_ok_def by (metis prod.collapse)+
    ultimately show "x = y"
      using ok eq unfolding lru_ok_def by (metis eq_key_imp_eq_value option.inject prod.collapse)
  qed
  moreover have "distinct (luOrder l)" using ok by (simp add: lru_ok_def distinct_map)
  ultimately show ?thesis by (simp add: recency_def distinct_map comp_def)
qed

lemma lru_insert_refines:
  assumes ok: "lru_ok l"
  shows "lru_ok (lru_insert rel d l)" "recency (lru_insert rel d l) = store rel d (recency l)"
    "luMaxBytes (lru_insert rel d l) = luMaxBytes l"
proof -
  show "luMaxBytes (lru_insert rel d l) = luMaxBytes l" by (simp add: lru_insert_def split: option.split)
  have "lru_ok (lru_insert rel d l) \<and> recency (lru_insert rel d l) = store rel d (recency l)"
  proof (cases "luItems l rel")
    case None
    have l': "lru_insert rel d l = l\<lparr>luItems := (luItems l)(rel \<mapsto> luNext l),
                 luOrder := (luNext l, \<lparr>enRel = rel, enData = d\<rparr>) # luOrder l,
                 luNext := Suc (luNext l), luCurBytes := luCurBytes l + int (slLen d)\<rparr>"
      using None by (simp add: lru_insert_def)
    have miss: "\<And>x. x \<in> set (luOrder l) \<Longrightarrow> enRel (snd x) \<noteq> rel" using lru_ok_miss [OF ok None] .
    have "lru_ok (lru_insert rel d l)"
      using ok miss unfolding l' lru_ok_def by (auto simp: list_all_iff image_iff less_Suc_eq) force+
    moreover have "filter (\<lambda>x. enRel (snd x) \<noteq> rel) (luOrder l) = luOrder l" using miss by (auto simp: filter_id_conv)
    ultimately show ?thesis by (simp add: l' recency_def store_def filter_map comp_def)
  next
    case (Some el)
    obtain e ys zs where s: "luOrder l = ys @ (el, e) # zs" "enRel e = rel" "\<forall>x \<in> set ys \<union> set zs. fst x \<noteq> el"
      "\<forall>x \<in> set ys \<union> set zs. enRel (snd x) \<noteq> rel" by (rule lru_ok_el [OF ok Some])
    note f = filters_at_el [OF s(3)]
    have l': "lru_insert rel d l = l\<lparr>luCurBytes := luCurBytes l + (int (slLen d) - int (slLen (enData e))),
        luOrder := (el, e\<lparr>enData := d\<rparr>) # ys @ zs\<rparr>"
      using Some by (simp add: lru_insert_def s(1) f del: map_of_append)
    have "lru_ok (lru_insert rel d l)"
      using ok s unfolding l' lru_ok_def by auto
    moreover have "filter (\<lambda>x. enRel (snd x) \<noteq> rel) ys = ys" "filter (\<lambda>x. enRel (snd x) \<noteq> rel) zs = zs"
      using s(4) by (auto simp: filter_id_conv)
    ultimately show ?thesis using s by (simp add: l' recency_def store_def filter_map comp_def)
  qed
  then show "lru_ok (lru_insert rel d l)" "recency (lru_insert rel d l) = store rel d (recency l)" by blast+
qed

lemma drop_entry_refines:
  assumes ok: "lru_ok l" and x: "luOrder l = ys @ x # zs"
  shows "lru_ok (drop_entry x l)" "luOrder (drop_entry x l) = ys @ zs" "luMaxBytes (drop_entry x l) = luMaxBytes l"
proof -
  have d: "\<forall>y \<in> set ys \<union> set zs. fst y \<noteq> fst x" using ok x by (auto simp: lru_ok_def image_iff)
  then have r: "remove_el (fst x) (luOrder l) = ys @ zs" using filters_at_el(2) [OF d, where e = "snd x"] x by simp
  show o: "luOrder (drop_entry x l) = ys @ zs" "luMaxBytes (drop_entry x l) = luMaxBytes l" by (simp_all add: drop_entry_def r)
  have ix: "luItems l (enRel (snd x)) = Some (fst x)"
    using ok x unfolding lru_ok_def by (metis in_set_conv_decomp prod.collapse)
  have rels: "enRel (snd y) \<noteq> enRel (snd x)" if "y \<in> set ys \<union> set zs" for y
  proof
    assume e: "enRel (snd y) = enRel (snd x)"
    have "luItems l (enRel (snd y)) = Some (fst y)"
      using ok x that unfolding lru_ok_def by (metis UnE Un_iff list.set_intros(2) prod.collapse set_append)
    then show False using e ix d that by auto
  qed
  have items: "luItems (drop_entry x l) rel = Some el \<longleftrightarrow> (\<exists>e. (el, e) \<in> set (ys @ zs) \<and> enRel e = rel)" for rel el
  proof (cases "rel = enRel (snd x)")
    case True
    then show ?thesis using rels by (force simp: drop_entry_def)
  next
    case False
    then have "luItems (drop_entry x l) rel = luItems l rel" by (simp add: drop_entry_def)
    moreover have "luItems l rel = Some el \<longleftrightarrow> (\<exists>e. (el, e) \<in> set (luOrder l) \<and> enRel e = rel)"
      using ok by (simp add: lru_ok_def)
    ultimately show ?thesis using x False by auto
  qed
  show "lru_ok (drop_entry x l)"
    unfolding lru_ok_def o using items ok x by (auto simp: drop_entry_def lru_ok_def)
qed

lemma recency_bytes: "lru_ok l \<Longrightarrow> luCurBytes l = bodies_bytes (recency l)"
  by (simp add: lru_ok_def recency_def entries_bytes_def bodies_bytes_def comp_def)

lemma recency_length: "length (recency l) = length (luOrder l)"
  by (simp add: recency_def)

lemma evict_refines:
  assumes "lru_ok l" and "evict l n = (l', k)"
  shows "lru_ok l' \<and> recency l' = clip (luMaxBytes l) (recency l) \<and> luMaxBytes l' = luMaxBytes l
     \<and> k + length (luOrder l') = n + length (luOrder l)"
  using assms
proof (induction l n rule: evict.induct)
  case (1 l n)
  show ?case
  proof (cases "luCurBytes l > luMaxBytes l \<and> length (luOrder l) > 1")
    case True
    let ?l = "drop_entry (last (luOrder l)) l"
    from True have ne: "luOrder l \<noteq> []" by auto
    then have sp: "luOrder l = butlast (luOrder l) @ last (luOrder l) # []" by simp
    note d = drop_entry_refines [OF 1(2) sp]
    have rec: "recency ?l = butlast (recency l)" by (simp add: recency_def d(2) map_butlast)
    have "evict ?l (Suc n) = (l', k)" using 1(3) True by (simp add: evict.simps [of l])
    from 1(1) [OF True d(1) this] have IH: "lru_ok l'" "recency l' = clip (luMaxBytes ?l) (recency ?l)"
      "luMaxBytes l' = luMaxBytes ?l" "k + length (luOrder l') = Suc n + length (luOrder ?l)" by blast+
    moreover have "clip (luMaxBytes l) (recency l) = clip (luMaxBytes l) (butlast (recency l))"
      by (rule clip_step) (use True recency_bytes [OF 1(2)] in \<open>simp_all add: recency_length\<close>)
    moreover have "Suc (length (luOrder ?l)) = length (luOrder l)" using d(2) ne by simp
    ultimately show ?thesis using d(3) rec by simp
  next
    case False
    then have "l' = l" "k = n" using 1(3) by (auto simp: evict.simps [of l] split: if_splits)
    moreover have "clip (luMaxBytes l) (recency l) = recency l"
      by (rule clip_done) (use False recency_bytes [OF 1(2)] in \<open>simp add: recency_length\<close>)
    ultimately show ?thesis using 1(2) by simp
  qed
qed

lemma lru_put_refines:
  assumes ok: "lru_ok l" and run: "lru_put rel d l = (n, l')"
  shows "lru_ok l'" "recency l' = clip (luMaxBytes l) (store rel d (recency l))" "luMaxBytes l' = luMaxBytes l"
    "n + length (luOrder l') = length (store rel d (recency l))"
proof -
  have ev: "evict (lru_insert rel d l) 0 = (l', n)" using run by (simp add: lru_put_def split: prod.splits)
  note i = lru_insert_refines [OF ok, of rel d]
  from evict_refines [OF i(1) ev] i
  show "lru_ok l'" "recency l' = clip (luMaxBytes l) (store rel d (recency l))" "luMaxBytes l' = luMaxBytes l"
    "n + length (luOrder l') = length (store rel d (recency l))"
    using recency_length [of "lru_insert rel d l"] by simp_all
qed

lemma invalidate_refines:
  assumes "lru_ok l" and "invalidate pre l n = (k, l')"
  shows "lru_ok l' \<and> luOrder l' = filter (\<lambda>x. \<not> hasPrefix (enRel (snd x)) pre) (luOrder l) \<and> luMaxBytes l' = luMaxBytes l
     \<and> k + length (luOrder l') = n + length (luOrder l)"
  using assms
proof (induction pre l n rule: invalidate.induct)
  case (1 pre l n)
  show ?case
  proof (cases "find (\<lambda>x. hasPrefix (enRel (snd x)) pre) (luOrder l)")
    case None
    then have "k = n" "l' = l" using 1(3) by (simp_all add: invalidate.simps [of _ l])
    moreover have "filter (\<lambda>x. \<not> hasPrefix (enRel (snd x)) pre) (luOrder l) = luOrder l"
      using None by (auto simp: find_None_iff filter_id_conv)
    ultimately show ?thesis using 1(2) by simp
  next
    case (Some x)
    then obtain ys zs where s: "luOrder l = ys @ x # zs" and x: "hasPrefix (enRel (snd x)) pre"
      by (metis find_Some_iff in_set_conv_decomp nth_mem)
    note d = drop_entry_refines [OF 1(2) s]
    have "invalidate pre (drop_entry x l) (Suc n) = (k, l')" using 1(3) Some by (simp add: invalidate.simps [of _ l])
    from 1(1) [OF Some d(1) this] d(2,3) s x show ?thesis by auto
  qed
qed

section \<open>The interface of the cache\<close>

text \<open>What the hub relies on: a bounded map that forgets, but never makes up a body.\<close>

locale object_cache =
  fixes inv :: "'c \<Rightarrow> bool" and view :: "'c \<Rightarrow> string \<rightharpoonup> slice"
    and get :: "string \<Rightarrow> 'c \<Rightarrow> slice option \<times> 'c"
    and put :: "string \<Rightarrow> slice \<Rightarrow> 'c \<Rightarrow> nat \<times> 'c"
    and inval :: "string \<Rightarrow> 'c \<Rightarrow> nat \<times> 'c"
  assumes get_view: "inv c \<Longrightarrow> get rel c = (r, c') \<Longrightarrow> r = view c rel \<and> view c' = view c \<and> inv c'"
    and put_view: "inv c \<Longrightarrow> put rel d c = (n, c') \<Longrightarrow> inv c' \<and> view c' rel = Some d \<and> view c' \<subseteq>\<^sub>m (view c)(rel \<mapsto> d)"
    and inval_view: "inv c \<Longrightarrow> inval pre c = (k, c') \<Longrightarrow> inv c' \<and> view c' = (\<lambda>rel. if hasPrefix rel pre then None else view c rel)"
begin

text \<open>A property of bodies that holds of what is stored holds of what is found.\<close>

definition all_bodies :: "(string \<Rightarrow> slice \<Rightarrow> bool) \<Rightarrow> 'c \<Rightarrow> bool" where
  "all_bodies Q c \<longleftrightarrow> inv c \<and> (\<forall>rel d. view c rel = Some d \<longrightarrow> Q rel d)"

lemma all_bodies_get:
  "all_bodies Q c \<Longrightarrow> get rel c = (r, c') \<Longrightarrow> all_bodies Q c' \<and> (\<forall>d. r = Some d \<longrightarrow> Q rel d)"
  unfolding all_bodies_def using get_view by metis

lemma all_bodies_put: "all_bodies Q c \<Longrightarrow> Q rel d \<Longrightarrow> put rel d c = (n, c') \<Longrightarrow> all_bodies Q c'"
  unfolding all_bodies_def using put_view [of c rel d n c']
  by (auto simp: map_le_def dom_def split: if_splits) (metis option.distinct(1) option.inject)

lemma all_bodies_inval: "all_bodies Q c \<Longrightarrow> inval pre c = (k, c') \<Longrightarrow> all_bodies Q c'"
  unfolding all_bodies_def using inval_view [of c pre k c'] by (auto split: if_splits)

lemma all_bodies_mono: "all_bodies Q c \<Longrightarrow> (\<And>rel d. Q rel d \<Longrightarrow> Q' rel d) \<Longrightarrow> all_bodies Q' c"
  unfolding all_bodies_def by blast

end

definition cached :: "LRU \<Rightarrow> string \<rightharpoonup> slice" where
  "cached l = map_of (recency l)"

lemma map_of_touch: "map_of (touch rel xs) = map_of xs"
proof
  fix k
  have "map_of (filter (\<lambda>x. fst x \<noteq> rel) xs) k = (if k = rel then None else map_of xs k)" by (induction xs) auto
  moreover have "map_of (filter (\<lambda>x. fst x = rel) xs) k = (if k = rel then map_of xs k else None)" by (induction xs) auto
  ultimately show "map_of (touch rel xs) k = map_of xs k"
    by (auto simp: touch_def map_add_def split: option.split)
qed

lemma map_of_store: "map_of (store rel d xs) = (map_of xs)(rel \<mapsto> d)"
proof
  fix k
  have "map_of (filter (\<lambda>x. fst x \<noteq> rel) xs) k = (if k = rel then None else map_of xs k)" by (induction xs) auto
  then show "map_of (store rel d xs) k = ((map_of xs)(rel \<mapsto> d)) k" by (simp add: store_def)
qed

lemma map_of_prefix_le: "prefix ys xs \<Longrightarrow> map_of ys \<subseteq>\<^sub>m map_of xs"
  by (auto simp: prefix_def map_le_def map_add_def split: option.split)

lemma map_of_keyed_filter: "map_of (filter (\<lambda>x. P (fst x)) xs) = (\<lambda>k. if P k then map_of xs k else None)"
  by (induction xs) (auto simp: fun_eq_iff)

interpretation lruc: object_cache lru_ok cached lru_get lru_put "\<lambda>pre l. invalidate pre l 0"
proof
  show "lru_ok c \<Longrightarrow> lru_get rel c = (r, c') \<Longrightarrow> r = cached c rel \<and> cached c' = cached c \<and> lru_ok c'" for c rel r c'
    using lru_get_refines [of c rel r c'] by (simp add: cached_def map_of_touch)
  show "lru_ok c' \<and> cached c' rel = Some d \<and> cached c' \<subseteq>\<^sub>m (cached c)(rel \<mapsto> d)"
    if a: "lru_ok c" and r: "lru_put rel d c = (n, c')" for c rel d n c'
  proof -
    note p = lru_put_refines [OF a r]
    have "hd (recency c') = (rel, d)" "recency c' \<noteq> []" using p(2) by (simp_all add: store_def)
    then have "cached c' rel = Some d" by (cases "recency c'") (simp_all add: cached_def)
    then show ?thesis
      using p(1) map_of_prefix_le [OF clip_prefix, of "luMaxBytes c" "store rel d (recency c)"]
      by (simp add: cached_def p(2) map_of_store)
  qed
  show "lru_ok c' \<and> cached c' = (\<lambda>rel. if hasPrefix rel pre then None else cached c rel)"
    if a: "lru_ok c" and r: "invalidate pre c 0 = (k, c')" for c pre k c'
    using invalidate_refines [OF a r] map_of_keyed_filter [of "\<lambda>rel. \<not> hasPrefix rel pre" "recency c"]
    by (auto simp: cached_def recency_def filter_map comp_def fun_eq_iff)
qed

section \<open>Properties\<close>

text \<open>C19. The cache implements a recency list. On a consistent cache a lookup returns the body stored
  under the path and makes it the most recent; storing makes the new body the most recent and drops
  bodies from the old end only as long as the budget is exceeded; and the cache stays consistent: the
  map and the list agree, no path occurs twice and the byte counter is the size of the bodies.\<close>

theorem LRU_refines_recency_list:
  assumes "lru_ok l"
  shows "lru_ok (snd (lru_get rel l)) \<and> fst (lru_get rel l) = map_of (recency l) rel
     \<and> recency (snd (lru_get rel l)) = touch rel (recency l)
     \<and> lru_ok (snd (lru_put rel d l)) \<and> recency (snd (lru_put rel d l)) = clip (luMaxBytes l) (store rel d (recency l))
     \<and> fst (lru_put rel d l) + length (recency (snd (lru_put rel d l))) = length (store rel d (recency l))
     \<and> luCurBytes (snd (lru_put rel d l)) = bodies_bytes (recency (snd (lru_put rel d l)))"
  using lru_get_refines [OF assms, of rel "fst (lru_get rel l)" "snd (lru_get rel l)"]
    lru_put_refines [OF assms, of rel d "fst (lru_put rel d l)" "snd (lru_put rel d l)"]
    recency_bytes [of "snd (lru_put rel d l)"] recency_length [of "snd (lru_put rel d l)"]
  by simp

text \<open>After a put the cache is within its byte budget, or holds nothing but the one body just put
  (also when the budget is zero or negative). In both cases the body just put is there.\<close>

theorem LRU_budget:
  assumes "lru_ok l"
  shows "(luCurBytes (snd (lru_put rel d l)) \<le> luMaxBytes l \<or> recency (snd (lru_put rel d l)) = [(rel, d)])
     \<and> cached (snd (lru_put rel d l)) rel = Some d"
proof -
  note p = lru_put_refines [OF assms, of rel d "fst (lru_put rel d l)" "snd (lru_put rel d l)", simplified]
  have "recency (snd (lru_put rel d l)) = [(rel, d)]" if "length (recency (snd (lru_put rel d l))) \<le> 1"
    using p(2) that by (auto simp: store_def)
  moreover have "luCurBytes (snd (lru_put rel d l)) = bodies_bytes (recency (snd (lru_put rel d l)))"
    using recency_bytes [OF p(1)] .
  moreover have "bodies_bytes (recency (snd (lru_put rel d l))) \<le> luMaxBytes l \<or> length (recency (snd (lru_put rel d l))) \<le> 1"
    unfolding p(2) by (rule clip_budget)
  moreover have "cached (snd (lru_put rel d l)) rel = Some d"
    using lruc.put_view [OF assms, of rel d "fst (lru_put rel d l)" "snd (lru_put rel d l)"] by simp
  ultimately show ?thesis by auto
qed

text \<open>The repeated scan of \<open>InvalidatePrefix\<close> is a filter: it drops exactly the bodies whose path has
  the prefix, keeps the order of the others, counts the dropped ones, and leaves the cache consistent.\<close>

theorem InvalidatePrefix_is_filter:
  assumes "lru_ok l"
  shows "lru_ok (snd (invalidate pre l 0))
     \<and> recency (snd (invalidate pre l 0)) = filter (\<lambda>x. \<not> hasPrefix (fst x) pre) (recency l)
     \<and> fst (invalidate pre l 0) = length (filter (\<lambda>x. hasPrefix (fst x) pre) (recency l))"
proof -
  obtain k l' where r: "invalidate pre l 0 = (k, l')" by fastforce
  note i = invalidate_refines [OF assms r]
  have rec: "recency l' = filter (\<lambda>x. \<not> hasPrefix (fst x) pre) (recency l)"
    using i by (simp add: recency_def filter_map comp_def)
  have "length (filter (\<lambda>x. hasPrefix (fst x) pre) (recency l)) + length (filter (\<lambda>x. \<not> hasPrefix (fst x) pre) (recency l))
      = length (recency l)"
    by (rule sum_length_filter_compl)
  moreover have "k + length (recency l') = length (recency l)"
    unfolding recency_length using i by linarith
  ultimately have "k = length (filter (\<lambda>x. hasPrefix (fst x) pre) (recency l))"
    unfolding rec by simp
  then show ?thesis using r i rec by simp
qed

definition demo_lru :: LRU where
  "demo_lru = snd (lru_put ''releases/a'' \<lparr>slPtr = 1, slLen = 3\<rparr> (snd (lru_put ''chunks/b'' \<lparr>slPtr = 0, slLen = 4\<rparr> (newLRU 10))))"

lemma demo_lru_ok: "lru_ok demo_lru"
  unfolding demo_lru_def using lru_put_refines(1) newLRU_ok prod.collapse by metis

lemma demo_lru_recency:
  "recency demo_lru = [(''releases/a'', \<lparr>slPtr = 1, slLen = 3\<rparr>), (''chunks/b'', \<lparr>slPtr = 0, slLen = 4\<rparr>)]" "luMaxBytes demo_lru = 10"
  by (simp_all add: demo_lru_def lru_put_def lru_insert_def newLRU_def evict.simps recency_def)

theorem LRU_refines_recency_list_witness:
  "recency (snd (lru_put ''chunks/c'' \<lparr>slPtr = 2, slLen = 5\<rparr> demo_lru))
     = [(''chunks/c'', \<lparr>slPtr = 2, slLen = 5\<rparr>), (''releases/a'', \<lparr>slPtr = 1, slLen = 3\<rparr>)]"
  using LRU_refines_recency_list [OF demo_lru_ok, of "''chunks/c''" "\<lparr>slPtr = 2, slLen = 5\<rparr>"]
  by (simp add: demo_lru_recency store_def)

theorem LRU_budget_witness:
  "recency (snd (lru_put ''chunks/c'' \<lparr>slPtr = 2, slLen = 50\<rparr> demo_lru)) = [(''chunks/c'', \<lparr>slPtr = 2, slLen = 50\<rparr>)]
   \<or> luCurBytes (snd (lru_put ''chunks/c'' \<lparr>slPtr = 2, slLen = 50\<rparr> demo_lru)) \<le> 10"
  using LRU_budget [OF demo_lru_ok, of "''chunks/c''" "\<lparr>slPtr = 2, slLen = 50\<rparr>"]
  by (auto simp: demo_lru_recency)

theorem InvalidatePrefix_is_filter_witness:
  "recency (snd (invalidate ''releases/'' demo_lru 0)) = [(''chunks/b'', \<lparr>slPtr = 0, slLen = 4\<rparr>)]
   \<and> fst (invalidate ''releases/'' demo_lru 0) = 1"
  using InvalidatePrefix_is_filter [OF demo_lru_ok, of "''releases/''"]
  by (simp add: demo_lru_recency hasPrefix_def)

end
