(* ===== verification/Hub.thy ===== *)
theory Hub
  imports HubCache Machine
begin

text \<open>
  The hub's object reads, \<open>src/internal/hub/hub.go\<close> (\<open>Hub\<close>, \<open>load\<close>, \<open>InvalidatePrefix\<close>): requests that
  run \<open>load\<close> at the same time, cut at the lock regions of the code, over one cache and one table of
  reads in flight. A schedule is a list of events; bodies live in buffers, so that sharing between the
  cache and the callers is visible.
\<close>

section \<open>State\<close>

text \<open>Where a request is in \<open>load\<close>; \<open>nat\<close> is the \<open>call\<close> it owns or waits for.\<close>

datatype pc =
    AtStart
  | AtHit slice
  | AtMiss
  | AtWait nat
  | AtRecheck slice
  | AtRead nat
  | AtDelete nat "slice result"
  | AtPut nat "slice result"
  | AtPublish nat "slice result"
  | AtReturn "slice result"

text \<open>A \<open>call\<close> with its path and, once its owner is done, its outcome. \<open>hbLog\<close> records what the loader has
  answered; no operation reads it.\<close>

record hub =
  hbLru :: LRU
  hbInflight :: "string \<rightharpoonup> nat"
  hbCalls :: "(string \<times> slice result option) list"
  hbDiskReads :: int
  hbCacheHits :: int
  hbCoalesced :: int
  hbEvictions :: int
  hbBufs :: "bytes list"
  hbThreads :: "(string \<times> pc) list"
  hbLog :: "(string \<times> bytes) list"

definition newHub :: "int \<Rightarrow> hub" where
  "newHub maxBytes = \<lparr>hbLru = newLRU maxBytes, hbInflight = Map.empty, hbCalls = [], hbDiskReads = 0, hbCacheHits = 0,
     hbCoalesced = 0, hbEvictions = 0, hbBufs = [], hbThreads = [], hbLog = []\<rparr>"

section \<open>Steps\<close>

text \<open>\<open>make\<close> and \<open>copy\<close>: a fresh buffer.\<close>

definition alloc :: "bytes \<Rightarrow> hub \<Rightarrow> slice \<times> hub" where
  "alloc b h = (\<lparr>slPtr = length (hbBufs h), slLen = length b\<rparr>, h\<lparr>hbBufs := hbBufs h @ [b]\<rparr>)"

definition content :: "hub \<Rightarrow> slice \<Rightarrow> bytes" where
  "content h sl = hbBufs h ! slPtr sl"

definition goto :: "nat \<Rightarrow> pc \<Rightarrow> hub \<Rightarrow> hub" where
  "goto t p h = h\<lparr>hbThreads := (hbThreads h)[t := (fst (hbThreads h ! t), p)]\<rparr>"

definition return_copy :: "nat \<Rightarrow> slice \<Rightarrow> hub \<Rightarrow> hub" where
  "return_copy t sl h = (case alloc (content h sl) h of (out, h') \<Rightarrow> goto t (AtReturn (Inr out)) h')"

text \<open>The lock regions of \<open>load\<close>. A request in the loader moves by the loader's answer only, and one that
  waits moves once its call is done.\<close>

definition load_step :: "nat \<Rightarrow> string \<Rightarrow> pc \<Rightarrow> hub \<Rightarrow> hub option" where
  "load_step t rel p h = (case p of
       AtStart \<Rightarrow> (case lru_get rel (hbLru h) of
           (Some sl, l) \<Rightarrow> Some (goto t (AtHit sl) (h\<lparr>hbLru := l\<rparr>))
         | (None, l) \<Rightarrow> Some (goto t AtMiss (h\<lparr>hbLru := l\<rparr>)))
     | AtHit sl \<Rightarrow> Some (return_copy t sl (h\<lparr>hbCacheHits := hbCacheHits h + 1\<rparr>))
     | AtMiss \<Rightarrow> (case hbInflight h rel of
           Some c \<Rightarrow> Some (goto t (AtWait c) (h\<lparr>hbCoalesced := hbCoalesced h + 1\<rparr>))
         | None \<Rightarrow> Some (goto t (AtRead (length (hbCalls h)))
             (h\<lparr>hbCalls := hbCalls h @ [(rel, None)], hbInflight := (hbInflight h)(rel \<mapsto> length (hbCalls h))\<rparr>)))
     | AtWait c \<Rightarrow> (case snd (hbCalls h ! c) of
           None \<Rightarrow> None
         | Some (Inl e) \<Rightarrow> Some (goto t (AtReturn (Inl e)) h)
         | Some (Inr sl) \<Rightarrow> Some (goto t (AtRecheck sl) h))
     | AtRecheck sl \<Rightarrow> (case lru_get rel (hbLru h) of
           (Some sl', l) \<Rightarrow> Some (return_copy t sl' (h\<lparr>hbLru := l\<rparr>))
         | (None, l) \<Rightarrow> Some (return_copy t sl (h\<lparr>hbLru := l\<rparr>)))
     | AtRead c \<Rightarrow> None
     | AtDelete c r \<Rightarrow> Some (goto t (AtPut c r) (h\<lparr>hbInflight := (hbInflight h)(rel := None),
           hbDiskReads := (case r of Inr _ \<Rightarrow> hbDiskReads h + 1 | Inl _ \<Rightarrow> hbDiskReads h)\<rparr>))
     | AtPut c r \<Rightarrow> (case r of
           Inr sl \<Rightarrow> (case lru_put rel sl (hbLru h) of (ev, l) \<Rightarrow>
             Some (goto t (AtPublish c r) (h\<lparr>hbLru := l, hbEvictions := hbEvictions h + int ev\<rparr>)))
         | Inl _ \<Rightarrow> Some (goto t (AtPublish c r) h))
     | AtPublish c r \<Rightarrow> Some (goto t (AtReturn r) (h\<lparr>hbCalls := (hbCalls h)[c := (rel, Some r)]\<rparr>))
     | AtReturn r \<Rightarrow> None)"

text \<open>Events: a request arrives, a request moves on, the loader answers, the announcement trigger
  invalidates a prefix, the caller overwrites the buffer it was given.\<close>

datatype hub_event = Arrive string | Go nat | Answer nat "bytes result" | Invalidate string | Scribble nat bytes

definition hub_step :: "hub_event \<Rightarrow> hub \<Rightarrow> hub option" where
  "hub_step ev h = (case ev of
       Arrive rel \<Rightarrow> Some (h\<lparr>hbThreads := hbThreads h @ [(rel, AtStart)]\<rparr>)
     | Go t \<Rightarrow> if t < length (hbThreads h) then load_step t (fst (hbThreads h ! t)) (snd (hbThreads h ! t)) h else None
     | Answer t r \<Rightarrow> if t < length (hbThreads h) then (case snd (hbThreads h ! t) of
           AtRead c \<Rightarrow> (case r of
               Inl e \<Rightarrow> Some (goto t (AtDelete c (Inl e)) h)
             | Inr b \<Rightarrow> (case alloc b h of (sl, h') \<Rightarrow>
                 Some (goto t (AtDelete c (Inr sl)) (h'\<lparr>hbLog := hbLog h' @ [(fst (hbThreads h ! t), b)]\<rparr>))))
         | _ \<Rightarrow> None) else None
     | Invalidate pre \<Rightarrow> Some (h\<lparr>hbLru := snd (invalidate pre (hbLru h) 0)\<rparr>)
     | Scribble t b \<Rightarrow> if t < length (hbThreads h) then (case snd (hbThreads h ! t) of
           AtReturn (Inr sl) \<Rightarrow> if length b = slLen sl then Some (h\<lparr>hbBufs := (hbBufs h)[slPtr sl := b]\<rparr>) else None
         | _ \<Rightarrow> None) else None)"

text \<open>The steps of the hub itself, with callers that leave their buffers alone.\<close>

fun by_hub :: "hub_event \<Rightarrow> bool" where
  "by_hub (Scribble _ _) = False"
| "by_hub _ = True"

definition own_step :: "hub_event \<Rightarrow> hub \<Rightarrow> hub option" where
  "own_step ev h = (if by_hub ev then hub_step ev h else None)"

section \<open>One read at a time\<close>

fun owns :: "nat \<Rightarrow> pc \<Rightarrow> bool" where
  "owns c (AtRead d) = (c = d)"
| "owns c (AtDelete d r) = (c = d)"
| "owns c (AtPut d r) = (c = d)"
| "owns c (AtPublish d r) = (c = d)"
| "owns c _ = False"

text \<open>The owner of a call is in the table of reads in flight until it has left the loader.\<close>

fun reading :: "nat \<Rightarrow> pc \<Rightarrow> bool" where
  "reading c (AtRead d) = (c = d)"
| "reading c (AtDelete d r) = (c = d)"
| "reading c _ = False"

text \<open>Lists as partial maps from positions.\<close>

definition at :: "'a list \<Rightarrow> nat \<rightharpoonup> 'a" where
  "at xs i = (if i < length xs then Some (xs ! i) else None)"

lemma at_update [simp]: "i < length xs \<Longrightarrow> at (xs[i := x]) = (at xs)(i \<mapsto> x)"
  by (auto simp: at_def fun_eq_iff)

lemma at_append [simp]: "at (xs @ [x]) = (at xs)(length xs \<mapsto> x)"
  by (auto simp: at_def fun_eq_iff nth_append)

lemma at_length [simp]: "at xs (length xs) = None"
  by (simp add: at_def)

lemma at_nth: "i < length xs \<Longrightarrow> at xs i = Some (xs ! i)"
  by (simp add: at_def)

lemma at_Some: "at xs i = Some x \<longleftrightarrow> i < length xs \<and> xs ! i = x"
  by (simp add: at_def)

text \<open>
  Every owner's call is open and owned by no other request; a path is in flight exactly while a request
  is reading it; whoever waits, waits for a call of its own path, and an open call has an owner.
\<close>

definition flight :: "(nat \<rightharpoonup> string \<times> pc) \<Rightarrow> (nat \<rightharpoonup> string \<times> slice result option) \<Rightarrow> (string \<rightharpoonup> nat) \<Rightarrow> bool" where
  "flight th calls infl \<longleftrightarrow>
     (\<forall>t rel p c. th t = Some (rel, p) \<longrightarrow> owns c p \<longrightarrow> calls c = Some (rel, None))
   \<and> (\<forall>t u rel rel' p p' c. th t = Some (rel, p) \<longrightarrow> th u = Some (rel', p') \<longrightarrow> owns c p \<longrightarrow> owns c p' \<longrightarrow> t = u)
   \<and> (\<forall>rel c. infl rel = Some c \<longleftrightarrow> (\<exists>t p. th t = Some (rel, p) \<and> reading c p))
   \<and> (\<forall>t rel c. th t = Some (rel, AtWait c) \<longrightarrow> (\<exists>r. calls c = Some (rel, r)
        \<and> (r = None \<longrightarrow> (\<exists>u rel' p. th u = Some (rel', p) \<and> owns c p))))"

lemma flightI:
  assumes "\<And>t rel p c. th t = Some (rel, p) \<Longrightarrow> owns c p \<Longrightarrow> calls c = Some (rel, None)"
    and "\<And>t u rel rel' p p' c. th t = Some (rel, p) \<Longrightarrow> th u = Some (rel', p') \<Longrightarrow> owns c p \<Longrightarrow> owns c p' \<Longrightarrow> t = u"
    and "\<And>rel c. infl rel = Some c \<longleftrightarrow> (\<exists>t p. th t = Some (rel, p) \<and> reading c p)"
    and "\<And>t rel c. th t = Some (rel, AtWait c) \<Longrightarrow> \<exists>r. calls c = Some (rel, r)
        \<and> (r = None \<longrightarrow> (\<exists>u rel' p. th u = Some (rel', p) \<and> owns c p))"
  shows "flight th calls infl"
  unfolding flight_def using assms by blast

lemma flightD:
  assumes "flight th calls infl"
  shows "th t = Some (rel, p) \<Longrightarrow> owns c p \<Longrightarrow> calls c = Some (rel, None)"
    and "th t = Some (rel, p) \<Longrightarrow> th u = Some (rel', p') \<Longrightarrow> owns c p \<Longrightarrow> owns c p' \<Longrightarrow> t = u"
    and "infl rel = Some c \<longleftrightarrow> (\<exists>t p. th t = Some (rel, p) \<and> reading c p)"
    and "th t = Some (rel, AtWait c) \<Longrightarrow> \<exists>r. calls c = Some (rel, r)
        \<and> (r = None \<longrightarrow> (\<exists>u rel' p. th u = Some (rel', p) \<and> owns c p))"
  using assms unfolding flight_def by blast+

lemma reading_owns: "reading c p \<Longrightarrow> owns c p"
  by (cases p) auto

text \<open>The kinds of moves.\<close>

lemma flight_same:
  assumes f: "flight th calls infl" and t: "th t = Some (rel, p)"
    and p': "\<And>c. owns c p' = owns c p" "\<And>c. reading c p' = reading c p" "\<And>c. p' \<noteq> AtWait c"
  shows "flight (th(t \<mapsto> (rel, p'))) calls infl"
proof (rule flightI)
  show "calls c = Some (r, None)" if "(th(t \<mapsto> (rel, p'))) u = Some (r, q)" "owns c q" for u r q c
    using that flightD(1) [OF f] t p' by (auto split: if_splits)
  show "u = v" if "(th(t \<mapsto> (rel, p'))) u = Some (r, q)" "(th(t \<mapsto> (rel, p'))) v = Some (r', q')" "owns c q" "owns c q'"
    for u v r r' q q' c
    using that flightD(2) [OF f, of _ _ _ _ _ _ c] t p' by (auto split: if_splits)
  show "infl r = Some c \<longleftrightarrow> (\<exists>u q. (th(t \<mapsto> (rel, p'))) u = Some (r, q) \<and> reading c q)" for r c
    unfolding flightD(3) [OF f] using t p'(2) by (auto split: if_splits) (metis option.inject prod.inject)
  show "\<exists>x. calls c = Some (r, x) \<and> (x = None \<longrightarrow> (\<exists>v rel' q. (th(t \<mapsto> (rel, p'))) v = Some (rel', q) \<and> owns c q))"
    if w: "(th(t \<mapsto> (rel, p'))) u = Some (r, AtWait c)" for u r c
  proof -
    have "th u = Some (r, AtWait c)" using w p'(3) by (auto split: if_splits)
    from flightD(4) [OF f this] obtain x where x: "calls c = Some (r, x)"
      "x = None \<longrightarrow> (\<exists>v rel' q. th v = Some (rel', q) \<and> owns c q)" by blast
    moreover have "\<exists>v rel' q. (th(t \<mapsto> (rel, p'))) v = Some (rel', q) \<and> owns c q" if "th v = Some (rel', q)" "owns c q" for v rel' q
      using that t p'(1) by (cases "v = t") (auto intro: exI [of _ t] exI [of _ v])
    ultimately show ?thesis by blast
  qed
qed

lemma flight_wait:
  assumes f: "flight th calls infl" and t: "th t = Some (rel, AtMiss)" and i: "infl rel = Some c"
  shows "flight (th(t \<mapsto> (rel, AtWait c))) calls infl"
proof (rule flightI)
  obtain t' p where o: "th t' = Some (rel, p)" "reading c p" using i flightD(3) [OF f] by blast
  then have c: "calls c = Some (rel, None)" using flightD(1) [OF f] reading_owns by blast
  have ne: "t' \<noteq> t" using o t by auto
  show "calls d = Some (r, None)" if "(th(t \<mapsto> (rel, AtWait c))) u = Some (r, q)" "owns d q" for u r q d
    using that flightD(1) [OF f] by (auto split: if_splits)
  show "u = v" if "(th(t \<mapsto> (rel, AtWait c))) u = Some (r, q)" "(th(t \<mapsto> (rel, AtWait c))) v = Some (r', q')" "owns d q" "owns d q'"
    for u v r r' q q' d
    using that flightD(2) [OF f, of _ _ _ _ _ _ d] by (auto split: if_splits)
  show "infl r = Some d \<longleftrightarrow> (\<exists>u q. (th(t \<mapsto> (rel, AtWait c))) u = Some (r, q) \<and> reading d q)" for r d
    unfolding flightD(3) [OF f] using t by (auto split: if_splits) (metis option.inject prod.inject reading.simps(5))
  show "\<exists>x. calls d = Some (r, x) \<and> (x = None \<longrightarrow> (\<exists>v rel' q. (th(t \<mapsto> (rel, AtWait c))) v = Some (rel', q) \<and> owns d q))"
    if w: "(th(t \<mapsto> (rel, AtWait c))) u = Some (r, AtWait d)" for u r d
  proof (cases "u = t")
    case True
    then show ?thesis using w c o ne reading_owns by (auto intro!: exI [of _ t'])
  next
    case False
    then have "th u = Some (r, AtWait d)" using w by simp
    from flightD(4) [OF f this] obtain x where x: "calls d = Some (r, x)"
      "x = None \<longrightarrow> (\<exists>v rel' q. th v = Some (rel', q) \<and> owns d q)" by blast
    moreover have "v \<noteq> t" if "th v = Some (rel', q)" "owns d q" for v rel' q using that t by auto
    ultimately show ?thesis by (metis fun_upd_other)
  qed
qed

lemma flight_new:
  assumes f: "flight th calls infl" and t: "th t = Some (rel, AtMiss)" and i: "infl rel = None" and c: "calls c = None"
  shows "flight (th(t \<mapsto> (rel, AtRead c))) (calls(c \<mapsto> (rel, None))) (infl(rel \<mapsto> c))"
proof (rule flightI)
  have fresh: "\<not> owns c q" if "th u = Some (r, q)" for u r q
    using that flightD(1) [OF f, of u r q c] c by auto
  show "(calls(c \<mapsto> (rel, None))) d = Some (r, None)" if "(th(t \<mapsto> (rel, AtRead c))) u = Some (r, q)" "owns d q" for u r q d
    using that flightD(1) [OF f, of u r q d] c by (auto split: if_splits)
  show "u = v" if "(th(t \<mapsto> (rel, AtRead c))) u = Some (r, q)" "(th(t \<mapsto> (rel, AtRead c))) v = Some (r', q')" "owns d q" "owns d q'"
    for u v r r' q q' d
    using that flightD(2) [OF f, of _ _ _ _ _ _ d] fresh by (auto split: if_splits)
  show "(infl(rel \<mapsto> c)) r = Some d \<longleftrightarrow> (\<exists>u q. (th(t \<mapsto> (rel, AtRead c))) u = Some (r, q) \<and> reading d q)" for r d
  proof (cases "r = rel")
    case True
    have "\<not> reading e q" if "th u = Some (rel, q)" for u q e using i flightD(3) [OF f, of rel] that by fastforce
    then show ?thesis using True by auto
  next
    case False
    then have "(infl(rel \<mapsto> c)) r = Some d \<longleftrightarrow> (\<exists>u q. th u = Some (r, q) \<and> reading d q)" using flightD(3) [OF f] by simp
    also have "\<dots> \<longleftrightarrow> (\<exists>u q. (th(t \<mapsto> (rel, AtRead c))) u = Some (r, q) \<and> reading d q)"
      using False t by (metis fun_upd_apply option.inject prod.inject)
    finally show ?thesis .
  qed
  show "\<exists>x. (calls(c \<mapsto> (rel, None))) d = Some (r, x) \<and> (x = None \<longrightarrow> (\<exists>v rel' q. (th(t \<mapsto> (rel, AtRead c))) v = Some (rel', q) \<and> owns d q))"
    if w: "(th(t \<mapsto> (rel, AtRead c))) u = Some (r, AtWait d)" for u r d
  proof -
    have u: "th u = Some (r, AtWait d)" using w by (auto split: if_splits)
    from flightD(4) [OF f this] obtain x where x: "calls d = Some (r, x)"
      "x = None \<longrightarrow> (\<exists>v rel' q. th v = Some (rel', q) \<and> owns d q)" by blast
    have "d \<noteq> c" using x c by auto
    moreover have "v \<noteq> t" if "th v = Some (rel', q)" "owns d q" for v rel' q using that t by auto
    ultimately show ?thesis using x by (metis fun_upd_other)
  qed
qed

lemma flight_delete:
  assumes f: "flight th calls infl" and t: "th t = Some (rel, AtDelete c r)"
  shows "flight (th(t \<mapsto> (rel, AtPut c r))) calls (infl(rel := None))"
proof (rule flightI)
  have i: "infl rel = Some c" using flightD(3) [OF f] t by fastforce
  show "calls d = Some (s, None)" if "(th(t \<mapsto> (rel, AtPut c r))) u = Some (s, q)" "owns d q" for u s q d
    using that flightD(1) [OF f, of u s] flightD(1) [OF f t] by (auto split: if_splits)
  show "u = v" if "(th(t \<mapsto> (rel, AtPut c r))) u = Some (s, q)" "(th(t \<mapsto> (rel, AtPut c r))) v = Some (s', q')" "owns d q" "owns d q'"
    for u v s s' q q' d
    using that flightD(2) [OF f, of _ _ _ _ _ _ d] t by (auto split: if_splits)
  show "(infl(rel := None)) s = Some d \<longleftrightarrow> (\<exists>u q. (th(t \<mapsto> (rel, AtPut c r))) u = Some (s, q) \<and> reading d q)" for s d
  proof (cases "s = rel")
    case True
    have "u = t" if "th u = Some (rel, q)" "reading e q" for u q e
    proof -
      have "e = c" using that i flightD(3) [OF f, of rel e] by auto
      then show ?thesis using flightD(2) [OF f that(1) t, of c] that(2) reading_owns by auto
    qed
    then show ?thesis using True by (auto split: if_splits)
  next
    case False
    then have "(infl(rel := None)) s = Some d \<longleftrightarrow> (\<exists>u q. th u = Some (s, q) \<and> reading d q)" using flightD(3) [OF f] by simp
    also have "\<dots> \<longleftrightarrow> (\<exists>u q. (th(t \<mapsto> (rel, AtPut c r))) u = Some (s, q) \<and> reading d q)"
      using False t by (metis fun_upd_apply option.inject prod.inject)
    finally show ?thesis .
  qed
  show "\<exists>x. calls d = Some (s, x) \<and> (x = None \<longrightarrow> (\<exists>v rel' q. (th(t \<mapsto> (rel, AtPut c r))) v = Some (rel', q) \<and> owns d q))"
    if w: "(th(t \<mapsto> (rel, AtPut c r))) u = Some (s, AtWait d)" for u s d
  proof -
    have "th u = Some (s, AtWait d)" using w by (auto split: if_splits)
    from flightD(4) [OF f this] obtain x where x: "calls d = Some (s, x)"
      "x = None \<longrightarrow> (\<exists>v rel' q. th v = Some (rel', q) \<and> owns d q)" by blast
    moreover have "\<exists>v rel' q. (th(t \<mapsto> (rel, AtPut c r))) v = Some (rel', q) \<and> owns d q" if "th v = Some (rel', q)" "owns d q" for v rel' q
      using that t by (cases "v = t") (auto intro: exI [of _ t] exI [of _ v])
    ultimately show ?thesis by blast
  qed
qed

lemma flight_publish:
  assumes f: "flight th calls infl" and t: "th t = Some (rel, AtPublish c r)"
  shows "flight (th(t \<mapsto> (rel, AtReturn r))) (calls(c \<mapsto> (rel, Some r))) infl"
proof (rule flightI)
  have other: "d \<noteq> c" if "th u = Some (s, q)" "owns d q" "u \<noteq> t" for u s q d
    using flightD(2) [OF f that(1) t that(2)] that(3) by auto
  have c: "calls c = Some (rel, None)" using flightD(1) [OF f t] by simp
  show "(calls(c \<mapsto> (rel, Some r))) d = Some (s, None)" if "(th(t \<mapsto> (rel, AtReturn r))) u = Some (s, q)" "owns d q" for u s q d
    using that flightD(1) [OF f, of u s q d] other by (auto split: if_splits)
  show "u = v" if "(th(t \<mapsto> (rel, AtReturn r))) u = Some (s, q)" "(th(t \<mapsto> (rel, AtReturn r))) v = Some (s', q')" "owns d q" "owns d q'"
    for u v s s' q q' d
    using that flightD(2) [OF f, of _ _ _ _ _ _ d] by (auto split: if_splits)
  show "infl s = Some d \<longleftrightarrow> (\<exists>u q. (th(t \<mapsto> (rel, AtReturn r))) u = Some (s, q) \<and> reading d q)" for s d
    unfolding flightD(3) [OF f] using t by (auto split: if_splits) (metis option.inject prod.inject reading.simps(9))
  show "\<exists>x. (calls(c \<mapsto> (rel, Some r))) d = Some (s, x) \<and> (x = None \<longrightarrow> (\<exists>v rel' q. (th(t \<mapsto> (rel, AtReturn r))) v = Some (rel', q) \<and> owns d q))"
    if w: "(th(t \<mapsto> (rel, AtReturn r))) u = Some (s, AtWait d)" for u s d
  proof -
    have "th u = Some (s, AtWait d)" using w by (auto split: if_splits)
    from flightD(4) [OF f this] obtain x where x: "calls d = Some (s, x)"
      "x = None \<longrightarrow> (\<exists>v rel' q. th v = Some (rel', q) \<and> owns d q)" by blast
    show ?thesis
    proof (cases "d = c")
      case True
      then show ?thesis using x(1) c by simp
    next
      case False
      have "v \<noteq> t" if "th v = Some (rel', q)" "owns d q" for v rel' q using that t False by auto
      then show ?thesis using x False by (metis fun_upd_other)
    qed
  qed
qed

lemma flight_arrive:
  assumes f: "flight th calls infl" and t: "th t = None"
  shows "flight (th(t \<mapsto> (rel, AtStart))) calls infl"
proof (rule flightI)
  show "calls c = Some (r, None)" if "(th(t \<mapsto> (rel, AtStart))) u = Some (r, q)" "owns c q" for u r q c
    using that flightD(1) [OF f] by (auto split: if_splits)
  show "u = v" if "(th(t \<mapsto> (rel, AtStart))) u = Some (r, q)" "(th(t \<mapsto> (rel, AtStart))) v = Some (r', q')" "owns c q" "owns c q'"
    for u v r r' q q' c
    using that flightD(2) [OF f, of _ _ _ _ _ _ c] by (auto split: if_splits)
  show "infl r = Some c \<longleftrightarrow> (\<exists>u q. (th(t \<mapsto> (rel, AtStart))) u = Some (r, q) \<and> reading c q)" for r c
    unfolding flightD(3) [OF f] using t by (metis fun_upd_apply option.distinct(1) option.inject prod.inject reading.simps(3))
  show "\<exists>x. calls c = Some (r, x) \<and> (x = None \<longrightarrow> (\<exists>v rel' q. (th(t \<mapsto> (rel, AtStart))) v = Some (rel', q) \<and> owns c q))"
    if w: "(th(t \<mapsto> (rel, AtStart))) u = Some (r, AtWait c)" for u r c
  proof -
    have "th u = Some (r, AtWait c)" using w by (auto split: if_splits)
    from flightD(4) [OF f this] t show ?thesis by (metis fun_upd_other option.distinct(1))
  qed
qed

definition flight_ok :: "hub \<Rightarrow> bool" where
  "flight_ok h \<longleftrightarrow> flight (at (hbThreads h)) (at (hbCalls h)) (hbInflight h)"

lemma goto_sel [simp]:
  "hbCalls (goto t p h) = hbCalls h" "hbInflight (goto t p h) = hbInflight h" "hbLru (goto t p h) = hbLru h"
  "hbBufs (goto t p h) = hbBufs h" "hbLog (goto t p h) = hbLog h" "length (hbThreads (goto t p h)) = length (hbThreads h)"
  by (simp_all add: goto_def)

lemma goto_at [simp]:
  "t < length (hbThreads h) \<Longrightarrow> at (hbThreads (goto t p h)) = (at (hbThreads h))(t \<mapsto> (fst (hbThreads h ! t), p))"
  by (simp add: goto_def)

lemma return_copy_eq:
  "return_copy t sl h = goto t (AtReturn (Inr \<lparr>slPtr = length (hbBufs h), slLen = length (content h sl)\<rparr>))
     (h\<lparr>hbBufs := hbBufs h @ [content h sl]\<rparr>)"
  by (simp add: return_copy_def alloc_def)

lemma flight_ok_load:
  assumes f: "flight_ok h" and t: "t < length (hbThreads h)" and th: "hbThreads h ! t = (rel, p)"
    and run: "load_step t rel p h = Some h'"
  shows "flight_ok h'"
proof -
  have a: "at (hbThreads h) t = Some (rel, p)" using t th by (simp add: at_nth)
  note same = flight_same [OF f [unfolded flight_ok_def] a]
  show ?thesis
  proof (cases p)
    case AtMiss
    show ?thesis
    proof (cases "hbInflight h rel")
      case None
      then show ?thesis
        using run AtMiss flight_new [OF f [unfolded flight_ok_def] a [unfolded AtMiss] None at_length] t th
        by (auto simp: load_step_def flight_ok_def)
    next
      case (Some c)
      then show ?thesis
        using run AtMiss flight_wait [OF f [unfolded flight_ok_def] a [unfolded AtMiss] Some] t th
        by (auto simp: load_step_def flight_ok_def)
    qed
  next
    case (AtDelete c r)
    then show ?thesis
      using run flight_delete [OF f [unfolded flight_ok_def] a [unfolded AtDelete]] t th by (auto simp: load_step_def flight_ok_def)
  next
    case (AtPublish c r)
    have "c < length (hbCalls h)"
      using flightD(1) [OF f [unfolded flight_ok_def] a, of c] AtPublish by (auto simp: at_def split: if_splits)
    then show ?thesis
      using run AtPublish flight_publish [OF f [unfolded flight_ok_def] a [unfolded AtPublish]] t th
      by (auto simp: load_step_def flight_ok_def)
  next
    case (AtPut c r)
    then show ?thesis
      using run same [of "AtPublish c r"] t th
      by (auto simp: load_step_def flight_ok_def split: sum.splits prod.splits)
  qed (use run same t th in \<open>auto simp: load_step_def flight_ok_def return_copy_eq split: prod.splits option.splits sum.splits\<close>)
qed

lemma flight_ok_step:
  assumes f: "flight_ok h" and run: "hub_step ev h = Some h'"
  shows "flight_ok h'"
proof (cases ev)
  case (Arrive rel)
  then show ?thesis using run flight_arrive [OF f [unfolded flight_ok_def] at_length] by (auto simp: hub_step_def flight_ok_def)
next
  case (Go t)
  then show ?thesis using run flight_ok_load [OF f, of t] by (cases "hbThreads h ! t") (auto simp: hub_step_def split: if_splits)
next
  case (Answer t r)
  then obtain c where t: "t < length (hbThreads h)" and c: "snd (hbThreads h ! t) = AtRead c"
    using run by (auto simp: hub_step_def split: if_splits pc.splits)
  then have a: "at (hbThreads h) t = Some (fst (hbThreads h ! t), AtRead c)" by (simp add: at_nth prod_eq_iff)
  show ?thesis
    using run Answer t c flight_same [OF f [unfolded flight_ok_def] a, of "AtDelete c _"]
    by (auto simp: hub_step_def flight_ok_def alloc_def split: sum.splits)
qed (use run f in \<open>auto simp: hub_step_def flight_ok_def split: if_splits pc.splits sum.splits\<close>)

interpretation inflight: invariant hub_step flight_ok
  by unfold_locales (rule flight_ok_step)

lemma newHub_flight: "flight_ok (newHub n)"
  by (simp add: flight_ok_def newHub_def flight_def at_def)

section \<open>What is served is what was read\<close>

definition from_log :: "hub \<Rightarrow> string \<Rightarrow> slice \<Rightarrow> bool" where
  "from_log h rel sl \<longleftrightarrow> slPtr sl < length (hbBufs h) \<and> slLen sl = length (content h sl) \<and> (rel, content h sl) \<in> set (hbLog h)"

fun slice_at :: "pc \<Rightarrow> slice option" where
  "slice_at (AtHit sl) = Some sl"
| "slice_at (AtRecheck sl) = Some sl"
| "slice_at (AtDelete c (Inr sl)) = Some sl"
| "slice_at (AtPut c (Inr sl)) = Some sl"
| "slice_at (AtPublish c (Inr sl)) = Some sl"
| "slice_at (AtReturn (Inr sl)) = Some sl"
| "slice_at _ = None"

definition bodies_ok :: "hub \<Rightarrow> bool" where
  "bodies_ok h \<longleftrightarrow> lruc.all_bodies (from_log h) (hbLru h)
   \<and> (\<forall>t rel p sl. at (hbThreads h) t = Some (rel, p) \<longrightarrow> slice_at p = Some sl \<longrightarrow> from_log h rel sl)
   \<and> (\<forall>c rel sl. at (hbCalls h) c = Some (rel, Some (Inr sl)) \<longrightarrow> from_log h rel sl)"

definition grows :: "hub \<Rightarrow> hub \<Rightarrow> bool" where
  "grows h h' \<longleftrightarrow> prefix (hbBufs h) (hbBufs h') \<and> prefix (hbLog h) (hbLog h')"

lemma from_log_grows: "from_log h rel sl \<Longrightarrow> grows h h' \<Longrightarrow> from_log h' rel sl"
  by (auto simp: from_log_def grows_def content_def prefix_def nth_append)

lemma bodies_okI:
  assumes "bodies_ok h" and "grows h h'" and "lruc.all_bodies (from_log h') (hbLru h')"
    and "\<And>u rel p sl. at (hbThreads h') u = Some (rel, p) \<Longrightarrow> slice_at p = Some sl \<Longrightarrow>
        at (hbThreads h) u = Some (rel, p) \<or> from_log h' rel sl"
    and "\<And>c rel sl. at (hbCalls h') c = Some (rel, Some (Inr sl)) \<Longrightarrow> at (hbCalls h) c = Some (rel, Some (Inr sl)) \<or> from_log h' rel sl"
  shows "bodies_ok h'"
  unfolding bodies_ok_def
proof (intro conjI allI impI)
  show "lruc.all_bodies (from_log h') (hbLru h')" by (rule assms(3))
  show "from_log h' rel sl" if a: "at (hbThreads h') u = Some (rel, p)" "slice_at p = Some sl" for u rel p sl
    using assms(4) [OF a] assms(1) a(2) from_log_grows [OF _ assms(2)] unfolding bodies_ok_def by blast
  show "from_log h' rel sl" if a: "at (hbCalls h') c = Some (rel, Some (Inr sl))" for c rel sl
    using assms(5) [OF a] assms(1) from_log_grows [OF _ assms(2)] unfolding bodies_ok_def by blast
qed

lemma bodies_okD:
  assumes "bodies_ok h"
  shows "lruc.all_bodies (from_log h) (hbLru h)"
    and "at (hbThreads h) t = Some (rel, p) \<Longrightarrow> slice_at p = Some sl \<Longrightarrow> from_log h rel sl"
    and "at (hbCalls h) c = Some (rel, Some (Inr sl)) \<Longrightarrow> from_log h rel sl"
  using assms unfolding bodies_ok_def by blast+

text \<open>A request moves on, with the cache and the calls as they become and nothing else changed.\<close>

lemma bodies_ok_goto:
  assumes ok: "bodies_ok h" and t: "t < length (hbThreads h)" and th: "fst (hbThreads h ! t) = rel"
    and same: "hbThreads h1 = hbThreads h" "hbBufs h1 = hbBufs h" "hbLog h1 = hbLog h"
    and lru: "lruc.all_bodies (from_log h) (hbLru h1)"
    and calls: "\<And>c r sl. at (hbCalls h1) c = Some (r, Some (Inr sl)) \<Longrightarrow> at (hbCalls h) c = Some (r, Some (Inr sl)) \<or> from_log h r sl"
    and p: "\<And>sl. slice_at p = Some sl \<Longrightarrow> from_log h rel sl"
  shows "bodies_ok (goto t p h1)"
proof -
  have eq: "from_log (goto t p h1) = from_log h" by (simp add: from_log_def content_def same fun_eq_iff)
  show ?thesis
    by (rule bodies_okI [OF ok]) (use lru calls p t th in \<open>auto simp: eq grows_def same split: if_splits\<close>)
qed

lemma bodies_ok_return:
  assumes ok: "bodies_ok h" and t: "t < length (hbThreads h)" and th: "fst (hbThreads h ! t) = rel"
    and same: "hbThreads h1 = hbThreads h" "hbBufs h1 = hbBufs h" "hbLog h1 = hbLog h" "hbCalls h1 = hbCalls h"
    and lru: "lruc.all_bodies (from_log h) (hbLru h1)" and sl: "from_log h rel sl"
  shows "bodies_ok (return_copy t sl h1)"
proof -
  define h2 where "h2 = h1\<lparr>hbBufs := hbBufs h1 @ [content h1 sl]\<rparr>"
  have c1: "content h1 sl = content h sl" by (simp add: content_def same)
  have g: "grows h h2" by (simp add: grows_def h2_def same)
  have "bodies_ok h2"
    by (rule bodies_okI [OF ok g])
       (use lruc.all_bodies_mono [OF lru] from_log_grows [OF _ g] in \<open>auto simp: h2_def same\<close>)
  moreover have "lruc.all_bodies (from_log h2) (hbLru h2)"
    using calculation by (rule bodies_okD)
  moreover have "from_log h2 rel \<lparr>slPtr = length (hbBufs h1), slLen = length (content h1 sl)\<rparr>"
    using sl by (simp add: from_log_def content_def h2_def same c1 [unfolded content_def])
  ultimately show ?thesis
    unfolding return_copy_eq h2_def [symmetric]
    by (intro bodies_ok_goto [OF _ _ _ refl refl refl]) (use t th in \<open>auto simp: h2_def same\<close>)
qed

lemma bodies_ok_load:
  assumes f: "flight_ok h" and ok: "bodies_ok h" and t: "t < length (hbThreads h)" and th: "hbThreads h ! t = (rel, p)"
    and run: "load_step t rel p h = Some h'"
  shows "bodies_ok h'"
proof -
  have a: "at (hbThreads h) t = Some (rel, p)" using t th by (simp add: at_nth)
  have t1: "fst (hbThreads h ! t) = rel" using th by simp
  note lru = bodies_okD(1) [OF ok] and mine = bodies_okD(2) [OF ok a]
  note go = bodies_ok_goto [OF ok t t1] and ret = bodies_ok_return [OF ok t t1]
  have get: "lruc.all_bodies (from_log h) l \<and> (\<forall>sl. r = Some sl \<longrightarrow> from_log h rel sl)"
    if "lru_get rel (hbLru h) = (r, l)" for r l
    by (rule lruc.all_bodies_get [OF lru that])
  show ?thesis
  proof (cases p)
    case AtStart
    obtain r l where g: "lru_get rel (hbLru h) = (r, l)" by fastforce
    show ?thesis using run AtStart g get [OF g] by (cases r) (auto simp: load_step_def intro!: go)
  next
    case (AtHit sl)
    then show ?thesis using run mine lru by (auto simp: load_step_def intro!: ret)
  next
    case AtMiss
    then show ?thesis using run lru by (auto simp: load_step_def split: option.splits if_splits intro!: go)
  next
    case (AtWait c)
    have "fst (hbCalls h ! c) = rel" and c: "c < length (hbCalls h)"
      using flightD(4) [OF f [unfolded flight_ok_def] a [unfolded AtWait]] by (auto simp: at_Some)
    then have "from_log h rel sl" if "snd (hbCalls h ! c) = Some (Inr sl)" for sl
      using bodies_okD(3) [OF ok, of c rel sl] that by (simp add: at_Some prod_eq_iff)
    then show ?thesis using run AtWait lru by (auto simp: load_step_def split: option.splits sum.splits intro!: go)
  next
    case (AtRecheck sl)
    obtain r l where g: "lru_get rel (hbLru h) = (r, l)" by fastforce
    show ?thesis using run AtRecheck g get [OF g] mine by (cases r) (auto simp: load_step_def intro!: ret)
  next
    case (AtDelete c r)
    then show ?thesis using run mine lru by (cases r) (auto simp: load_step_def intro!: go)
  next
    case (AtPut c r)
    show ?thesis
    proof (cases r)
      case (Inl e)
      then show ?thesis using run AtPut lru by (auto simp: load_step_def intro!: go)
    next
      case (Inr sl)
      obtain n l where pt: "lru_put rel sl (hbLru h) = (n, l)" by fastforce
      have m: "from_log h rel sl" using mine AtPut Inr by simp
      show ?thesis
        using run AtPut Inr pt m lruc.all_bodies_put [OF lru m pt] by (auto simp: load_step_def intro!: go)
    qed
  next
    case (AtPublish c r)
    have "c < length (hbCalls h)"
      using flightD(1) [OF f [unfolded flight_ok_def] a, of c] AtPublish by (auto simp: at_def split: if_splits)
    then show ?thesis using run AtPublish mine lru by (cases r) (auto simp: load_step_def split: if_splits intro!: go)
  qed (use run in \<open>simp_all add: load_step_def\<close>)
qed

definition hub_ok :: "hub \<Rightarrow> bool" where
  "hub_ok h \<longleftrightarrow> flight_ok h \<and> bodies_ok h"

lemma bodies_ok_answer:
  assumes f: "flight_ok h" and ok: "bodies_ok h" and run: "hub_step (Answer t r) h = Some h'"
  shows "bodies_ok h'"
proof -
  obtain c where t: "t < length (hbThreads h)" and c: "snd (hbThreads h ! t) = AtRead c"
    using run by (auto simp: hub_step_def split: if_splits pc.splits)
  show ?thesis
  proof (cases r)
    case (Inl e)
    then show ?thesis
      using run t c bodies_okD(1) [OF ok] bodies_ok_goto [OF ok t refl, of h "AtDelete c (Inl e)"] by (auto simp: hub_step_def)
  next
    case (Inr b)
    define rel where "rel = fst (hbThreads h ! t)"
    define h1 where "h1 = h\<lparr>hbBufs := hbBufs h @ [b], hbLog := hbLog h @ [(rel, b)]\<rparr>"
    have g: "grows h h1" by (simp add: grows_def h1_def)
    have ok1: "bodies_ok h1"
      by (rule bodies_okI [OF ok g])
         (use lruc.all_bodies_mono [OF bodies_okD(1) [OF ok]] from_log_grows [OF _ g] in \<open>auto simp: h1_def\<close>)
    have "h' = goto t (AtDelete c (Inr \<lparr>slPtr = length (hbBufs h), slLen = length b\<rparr>)) h1"
      using run t c Inr by (auto simp: hub_step_def alloc_def h1_def rel_def)
    moreover have "from_log h1 rel \<lparr>slPtr = length (hbBufs h), slLen = length b\<rparr>"
      by (simp add: from_log_def content_def h1_def)
    moreover have "t < length (hbThreads h1)" "fst (hbThreads h1 ! t) = rel" using t by (simp_all add: h1_def rel_def)
    ultimately show ?thesis
      using bodies_okD(1) [OF ok1] by (auto intro!: bodies_ok_goto [OF ok1])
  qed
qed

lemma hub_ok_step:
  assumes "hub_ok h" and run: "own_step ev h = Some h'"
  shows "hub_ok h'"
proof -
  have f: "flight_ok h" and ok: "bodies_ok h" using assms(1) by (simp_all add: hub_ok_def)
  have st: "hub_step ev h = Some h'" and hub: "by_hub ev" using run by (auto simp: own_step_def split: if_splits)
  have "bodies_ok h'"
  proof (cases ev)
    case (Arrive rel)
    then have h': "h' = h\<lparr>hbThreads := hbThreads h @ [(rel, AtStart)]\<rparr>" using st by (simp add: hub_step_def)
    have g: "grows h h'" and e: "from_log h' = from_log h" by (simp_all add: h' grows_def from_log_def content_def fun_eq_iff)
    show ?thesis by (rule bodies_okI [OF ok g]) (use bodies_okD(1) [OF ok] e in \<open>auto simp: h' split: if_splits\<close>)
  next
    case (Go t)
    then show ?thesis
      using st bodies_ok_load [OF f ok, of t] by (cases "hbThreads h ! t") (auto simp: hub_step_def split: if_splits)
  next
    case (Answer t r)
    then show ?thesis using bodies_ok_answer [OF f ok] st by simp
  next
    case (Invalidate pre)
    then have h': "h' = h\<lparr>hbLru := snd (invalidate pre (hbLru h) 0)\<rparr>" using st by (simp add: hub_step_def)
    have g: "grows h h'" and e: "from_log h' = from_log h" by (simp_all add: h' grows_def from_log_def content_def fun_eq_iff)
    have "lruc.all_bodies (from_log h) (snd (invalidate pre (hbLru h) 0))"
      using lruc.all_bodies_inval [OF bodies_okD(1) [OF ok]] prod.collapse by metis
    then show ?thesis by (intro bodies_okI [OF ok g]) (auto simp: h' e [unfolded h'])
  qed (use hub in simp)
  then show ?thesis using flight_ok_step [OF f st] by (simp add: hub_ok_def)
qed

interpretation hubI: invariant own_step hub_ok
  by unfold_locales (rule hub_ok_step)

lemma newHub_ok: "hub_ok (newHub n)"
proof -
  have "bodies_ok (newHub n)"
    using newLRU_ok by (simp add: bodies_ok_def lruc.all_bodies_def newHub_def at_def cached_def recency_def newLRU_def)
  then show ?thesis by (simp add: hub_ok_def newHub_flight)
qed

section \<open>Every request returns\<close>

fun rank :: "pc \<Rightarrow> nat" where
  "rank AtStart = 7"
| "rank AtMiss = 6"
| "rank (AtRead c) = 5"
| "rank (AtDelete c r) = 4"
| "rank (AtPut c r) = 3"
| "rank (AtPublish c r) = 2"
| "rank (AtWait c) = 2"
| "rank (AtHit sl) = 1"
| "rank (AtRecheck sl) = 1"
| "rank (AtReturn r) = 0"

definition todo :: "hub \<Rightarrow> nat" where
  "todo h = (\<Sum>x\<leftarrow>hbThreads h. rank (snd x))"

text \<open>The events that move requests along.\<close>

fun serves :: "hub_event \<Rightarrow> bool" where
  "serves (Go t) = True"
| "serves (Answer t r) = True"
| "serves _ = False"

definition serve_step :: "hub_event \<Rightarrow> hub \<Rightarrow> hub option" where
  "serve_step ev h = (if serves ev then hub_step ev h else None)"

lemma sum_rank_update:
  assumes "t < length xs"
  shows "(\<Sum>x\<leftarrow>xs[t := (r, p)]. rank (snd x)) + rank (snd (xs ! t)) = (\<Sum>x\<leftarrow>xs. rank (snd x)) + rank p"
  using assms by (induction xs arbitrary: t) (auto split: nat.split)

lemma todo_goto:
  assumes "t < length (hbThreads h)" and "hbThreads h1 = hbThreads h" and "rank p < rank (snd (hbThreads h ! t))"
  shows "todo (goto t p h1) < todo h"
  using sum_rank_update [OF assms(1), of "fst (hbThreads h ! t)" p] assms by (simp add: todo_def goto_def)

lemma serve_less:
  assumes run: "serve_step ev h = Some h'"
  shows "todo h' < todo h"
proof (cases ev)
  case (Go t)
  then have t: "t < length (hbThreads h)" and st: "load_step t (fst (hbThreads h ! t)) (snd (hbThreads h ! t)) h = Some h'"
    using run by (auto simp: serve_step_def hub_step_def split: if_splits)
  show ?thesis
    using st by (auto simp: load_step_def return_copy_eq intro!: todo_goto [OF t] split: pc.splits option.splits sum.splits prod.splits)
next
  case (Answer t r)
  then have t: "t < length (hbThreads h)" using run by (auto simp: serve_step_def hub_step_def split: if_splits)
  show ?thesis
    using run Answer by (auto simp: serve_step_def hub_step_def alloc_def intro!: todo_goto [OF t] split: if_splits pc.splits sum.splits)
qed (use run in \<open>simp_all add: serve_step_def\<close>)

interpretation serving: well_founded serve_step flight_ok todo
  by unfold_locales (auto simp: serve_step_def intro: flight_ok_step serve_less split: if_splits)

text \<open>A request that has not returned can move, or the owner it waits for can.\<close>

lemma serve_progress:
  assumes f: "flight_ok h" and t: "t < length (hbThreads h)" and p: "\<nexists>r. snd (hbThreads h ! t) = AtReturn r"
  shows "\<exists>ev h'. serve_step ev h = Some h'"
proof -
  have go: "\<exists>ev h'. serve_step ev h = Some h'" if u: "u < length (hbThreads h)"
    and q: "\<nexists>r. snd (hbThreads h ! u) = AtReturn r" "\<nexists>c. snd (hbThreads h ! u) = AtWait c" for u
  proof (cases "\<exists>c. snd (hbThreads h ! u) = AtRead c")
    case True
    then show ?thesis using u by (intro exI [of _ "Answer u (Inl (Msg []))"]) (auto simp: serve_step_def hub_step_def)
  next
    case False
    then show ?thesis
      using u q by (intro exI [of _ "Go u"]) (auto simp: serve_step_def hub_step_def load_step_def split: pc.splits option.split sum.split prod.split)
  qed
  show ?thesis
  proof (cases "\<exists>c. snd (hbThreads h ! t) = AtWait c")
    case True
    then obtain c where c: "snd (hbThreads h ! t) = AtWait c" by blast
    then have a: "at (hbThreads h) t = Some (fst (hbThreads h ! t), AtWait c)" using t by (simp add: at_Some prod_eq_iff)
    obtain r where r: "at (hbCalls h) c = Some (fst (hbThreads h ! t), r)"
      "r = None \<longrightarrow> (\<exists>u rel' q. at (hbThreads h) u = Some (rel', q) \<and> owns c q)"
      using flightD(4) [OF f [unfolded flight_ok_def] a] by blast
    show ?thesis
    proof (cases r)
      case None
      with r obtain u rel' q where u: "at (hbThreads h) u = Some (rel', q)" "owns c q" by blast
      then show ?thesis using go [of u] by (cases q) (auto simp: at_Some)
    next
      case (Some x)
      then show ?thesis
        using r(1) t c by (intro exI [of _ "Go t"]) (auto simp: serve_step_def hub_step_def load_step_def at_Some split: sum.split)
    qed
  qed (use go t p in blast)
qed

section \<open>Properties\<close>


text \<open>C22. As long as callers leave the buffers they are given alone, every body that \<open>load\<close> returns for a
  path, and every body in the cache, is one the loader returned for that path, whatever was cached,
  coalesced, evicted or invalidated in between.\<close>

theorem Hub_serves_what_was_read:
  assumes "reaches own_step (newHub n) h"
  shows "(t < length (hbThreads h) \<and> hbThreads h ! t = (rel, AtReturn (Inr sl)) \<longrightarrow> (rel, content h sl) \<in> set (hbLog h))
     \<and> (cached (hbLru h) rel = Some sl \<longrightarrow> (rel, content h sl) \<in> set (hbLog h))"
proof -
  have ok: "bodies_ok h" using hubI.holds [OF assms newHub_ok] by (simp add: hub_ok_def)
  have "lru_ok (hbLru h)" and "\<forall>rel sl. cached (hbLru h) rel = Some sl \<longrightarrow> from_log h rel sl"
    using bodies_okD(1) [OF ok] by (simp_all add: lruc.all_bodies_def)
  then show ?thesis
    using bodies_okD(2) [OF ok, of t rel "AtReturn (Inr sl)" sl] by (auto simp: at_nth from_log_def)
qed

text \<open>C23. Requests do not block each other for ever: in every reachable state with a request that has not
  returned some request can move (a waiting request waits for one that can), and no schedule of moves
  is longer than seven per request.\<close>

theorem Hub_requests_return:
  assumes "reaches hub_step (newHub n) h"
  shows "((\<exists>t < length (hbThreads h). \<nexists>r. snd (hbThreads h ! t) = AtReturn r) \<longrightarrow> (\<exists>ev h'. serve_step ev h = Some h'))
     \<and> (exec serve_step es h = Some h' \<longrightarrow> length es \<le> 7 * length (hbThreads h))"
proof -
  have f: "flight_ok h" by (rule inflight.holds [OF assms newHub_flight])
  have "(\<Sum>x\<leftarrow>xs. rank (snd x)) \<le> 7 * length xs" for xs :: "(string \<times> pc) list"
  proof (induction xs)
    case (Cons x xs)
    have "rank (snd x) \<le> 7" by (cases "snd x") simp_all
    with Cons show ?case by simp
  qed simp
  then have "todo h \<le> 7 * length (hbThreads h)" by (simp add: todo_def)
  then show ?thesis using serve_progress [OF f] serving.run_bound [OF _ f] by fastforce
qed

definition demo_run :: "hub_event list" where
  "demo_run = [Arrive ''releases/d'', Arrive ''releases/d'', Go 0, Go 1, Go 0, Go 1, Answer 0 (Inr [7, 8])]"

definition demo_hub_state :: hub where
  "demo_hub_state = the (exec hub_step demo_run (newHub 100))"

lemma demo_hub_run:
  "exec hub_step demo_run (newHub 100) = Some demo_hub_state"
  "exec own_step demo_run (newHub 100) = Some demo_hub_state"
  "hbThreads demo_hub_state = [(''releases/d'', AtDelete 0 (Inr \<lparr>slPtr = 0, slLen = 2\<rparr>)), (''releases/d'', AtWait 0)]"
  by (simp_all add: demo_hub_state_def demo_run_def hub_step_def own_step_def load_step_def newHub_def newLRU_def lru_get_def goto_def
      alloc_def)


theorem Hub_serves_what_was_read_witness:
  "\<exists>h. exec own_step (demo_run @ [Go 0, Go 0, Go 0]) (newHub 100) = Some h
     \<and> snd (hbThreads h ! 0) = AtReturn (Inr \<lparr>slPtr = 0, slLen = 2\<rparr>) \<and> (''releases/d'', content h \<lparr>slPtr = 0, slLen = 2\<rparr>) \<in> set (hbLog h)"
proof -
  have "case exec own_step (demo_run @ [Go 0, Go 0, Go 0]) (newHub 100) of None \<Rightarrow> False
     | Some h \<Rightarrow> hbThreads h = [(''releases/d'', AtReturn (Inr \<lparr>slPtr = 0, slLen = 2\<rparr>)), (''releases/d'', AtWait 0)]"
    by code_simp
  then obtain h where h: "exec own_step (demo_run @ [Go 0, Go 0, Go 0]) (newHub 100) = Some h"
    and th: "hbThreads h = [(''releases/d'', AtReturn (Inr \<lparr>slPtr = 0, slLen = 2\<rparr>)), (''releases/d'', AtWait 0)]"
    by (auto split: option.splits)
  have "reaches own_step (newHub 100) h" by (rule exec_reaches [OF h reaches.start])
  then have "(''releases/d'', content h \<lparr>slPtr = 0, slLen = 2\<rparr>) \<in> set (hbLog h)"
    using Hub_serves_what_was_read [of 100 h 0 "''releases/d''" "\<lparr>slPtr = 0, slLen = 2\<rparr>"] th by simp
  with h th show ?thesis by (intro exI [of _ h]) (simp del: exec.simps)
qed

theorem Hub_requests_return_witness:
  "\<exists>ev h'. serve_step ev demo_hub_state = Some h'"
proof -
  have r: "reaches hub_step (newHub 100) demo_hub_state" by (rule exec_reaches [OF demo_hub_run(1) reaches.start])
  have "\<exists>t < length (hbThreads demo_hub_state). \<nexists>r. snd (hbThreads demo_hub_state ! t) = AtReturn r"
    by (rule exI [of _ 0]) (simp add: demo_hub_run(3))
  then show ?thesis using Hub_requests_return [OF r] by blast
qed

section \<open>Two ways past the cache's purpose\<close>

text \<open>
  The request that reads an object hands its caller the very buffer it put into the cache (\<open>load\<close>
  returns \<open>data\<close>, not a copy). When the caller changes it in place, as the fault injection of the
  server does, the next request for the path gets the changed body.
\<close>

lemma cache_poisoned:
  "case exec hub_step [Arrive ''c'', Go 0, Go 0, Answer 0 (Inr [1]), Go 0, Go 0, Go 0, Scribble 0 [65],
       Arrive ''c'', Go 1, Go 1] (newHub 100) of None \<Rightarrow> False
     | Some h \<Rightarrow> hbThreads h ! 1 = (''c'', AtReturn (Inr \<lparr>slPtr = 1, slLen = 1\<rparr>)) \<and> content h \<lparr>slPtr = 1, slLen = 1\<rparr> = [65]
     \<and> hbLog h = [(''c'', [1])]"
  by code_simp

text \<open>
  A read that began before an invalidation puts its body into the cache after it: the metadata from
  before the announcement is served again, until the next one.
\<close>

lemma stale_after_invalidation:
  "case exec own_step [Arrive ''releases/d'', Go 0, Go 0, Answer 0 (Inr [1]), Invalidate ''releases/'', Go 0, Go 0, Go 0,
       Arrive ''releases/d'', Go 1, Go 1] (newHub 100) of None \<Rightarrow> False
     | Some h \<Rightarrow> hbThreads h ! 1 = (''releases/d'', AtReturn (Inr \<lparr>slPtr = 1, slLen = 1\<rparr>)) \<and> content h \<lparr>slPtr = 1, slLen = 1\<rparr> = [1]"
  by code_simp

end
