(* ===== verification/HubStats.thy ===== *)
theory HubStats
  imports Hub "HOL-Library.List_Lexorder" "HOL-Library.Char_ord" "HOL-Library.Multiset"
begin

text \<open>
  The accounting of the hub, \<open>src/internal/hub/hub.go\<close> (\<open>Record\<close>, \<open>Snapshot\<close>, \<open>sortDevices\<close>). Counters are
  64-bit words; the order in which Go ranges over a map is a parameter.
\<close>

section \<open>Per-device metrics\<close>

record DeviceMetrics =
  dmDevice :: string
  dmRequests :: u64
  dmChunkRequests :: u64
  dmMetaRequests :: u64
  dmBytesServed :: u64
  dmLastSeen :: int

definition zero_device :: "string \<Rightarrow> DeviceMetrics" where
  "zero_device device = \<lparr>dmDevice = device, dmRequests = 0, dmChunkRequests = 0, dmMetaRequests = 0, dmBytesServed = 0, dmLastSeen = 0\<rparr>"

definition anonName :: string where
  "anonName = ''anonymous''"

type_synonym devices = "string \<rightharpoonup> DeviceMetrics"

definition Record :: "string \<Rightarrow> bool \<Rightarrow> u64 \<Rightarrow> int \<Rightarrow> devices \<Rightarrow> devices" where
  "Record device' isChunk bytes now ds =
     (let device = (if device' = [] then anonName else device');
          d = (case ds device of None \<Rightarrow> zero_device device | Some d \<Rightarrow> d);
          d1 = d\<lparr>dmRequests := dmRequests d + 1\<rparr>;
          d2 = (if isChunk then d1\<lparr>dmChunkRequests := dmChunkRequests d1 + 1\<rparr> else d1\<lparr>dmMetaRequests := dmMetaRequests d1 + 1\<rparr>)
      in ds(device \<mapsto> d2\<lparr>dmBytesServed := dmBytesServed d2 + bytes, dmLastSeen := now\<rparr>))"

section \<open>Insertion sort in place\<close>

primrec sift :: "nat \<Rightarrow> DeviceMetrics list \<Rightarrow> DeviceMetrics list" where
  "sift 0 ds = ds"
| "sift (Suc j) ds = (if dmDevice (ds ! Suc j) < dmDevice (ds ! j)
     then sift j (ds[Suc j := ds ! j, j := ds ! Suc j]) else ds)"

definition sortDevices :: "DeviceMetrics list \<Rightarrow> DeviceMetrics list" where
  "sortDevices ds = foldl (\<lambda>ds i. sift i ds) ds [1..<length ds]"

section \<open>The snapshot\<close>

record hub_stats =
  hsCacheMaxBytes :: int
  hsCacheBytes :: int
  hsCacheObjects :: nat
  hsDiskReads :: int
  hsCacheHits :: int
  hsCoalesced :: int
  hsEvictions :: int
  hsInflightReads :: nat
  hsDevices :: "DeviceMetrics list"

text \<open>\<open>order\<close> is the order in which the device map is ranged over.\<close>

definition hubSnapshot :: "hub \<Rightarrow> devices \<Rightarrow> string list \<Rightarrow> hub_stats" where
  "hubSnapshot h ds order = \<lparr>hsCacheMaxBytes = luMaxBytes (hbLru h), hsCacheBytes = luCurBytes (hbLru h),
     hsCacheObjects = length (luOrder (hbLru h)), hsDiskReads = hbDiskReads h, hsCacheHits = hbCacheHits h,
     hsCoalesced = hbCoalesced h, hsEvictions = hbEvictions h, hsInflightReads = card (dom (hbInflight h)),
     hsDevices = sortDevices (List.map_filter ds order)\<rparr>"

section \<open>Sorting\<close>

lemma sift_insert:
  assumes "sorted (map dmDevice xs)"
  shows "\<exists>zs. sift (length xs) (xs @ x # ys) = zs @ ys \<and> mset zs = mset (x # xs) \<and> sorted (map dmDevice zs)"
  using assms
proof (induction xs arbitrary: ys rule: rev_induct)
  case Nil
  then show ?case by (intro exI [of _ "[x]"]) simp
next
  case (snoc y xs)
  show ?case
  proof (cases "dmDevice x < dmDevice y")
    case True
    have sw: "((xs @ [y]) @ x # ys)[Suc (length xs) := y, length xs := x] = xs @ x # (y # ys)"
      by (simp add: list_update_append)
    have at: "((xs @ [y]) @ x # ys) ! Suc (length xs) = x" "((xs @ [y]) @ x # ys) ! length xs = y"
      by (simp_all add: nth_append)
    have "sift (length (xs @ [y])) ((xs @ [y]) @ x # ys) = sift (length xs) (xs @ x # (y # ys))"
      using True by (simp only: length_append list.size One_nat_def add_Suc_right add_0_right sift.simps at if_True sw)
    moreover have "sorted (map dmDevice xs)" using snoc.prems by (simp add: sorted_append)
    then obtain zs where zs: "sift (length xs) (xs @ x # (y # ys)) = zs @ (y # ys)" "mset zs = mset (x # xs)" "sorted (map dmDevice zs)"
      using snoc.IH [of "y # ys"] by blast
    moreover have "sorted (map dmDevice (zs @ [y]))"
    proof -
      have "set zs = set (x # xs)" using zs(2) by (metis set_mset_mset)
      then show ?thesis using zs(3) snoc.prems True by (auto simp: sorted_append)
    qed
    ultimately show ?thesis using zs by (intro exI [of _ "zs @ [y]"]) simp
  next
    case False
    then have "sift (length (xs @ [y])) ((xs @ [y]) @ x # ys) = (xs @ [y]) @ x # ys"
      by (simp add: nth_append)
    moreover have "sorted (map dmDevice ((xs @ [y]) @ [x]))"
      using snoc.prems False by (auto simp: sorted_append intro: order_trans)
    ultimately show ?thesis by (intro exI [of _ "(xs @ [y]) @ [x]"]) simp
  qed
qed

lemma sift_prefix:
  assumes "i < length ds" and "sorted (map dmDevice (take i ds))"
  shows "mset (sift i ds) = mset ds \<and> length (sift i ds) = length ds \<and> sorted (map dmDevice (take (Suc i) (sift i ds)))"
proof -
  have ds: "ds = take i ds @ ds ! i # drop (Suc i) ds" using assms(1) by (rule id_take_nth_drop)
  obtain zs where zs: "sift i ds = zs @ drop (Suc i) ds" "mset zs = mset (ds ! i # take i ds)" "sorted (map dmDevice zs)"
    using sift_insert [OF assms(2), of "ds ! i" "drop (Suc i) ds"] ds assms(1) by auto
  have len: "length zs = Suc i" using zs(2) assms(1) by (metis length_Cons length_take min_absorb2 less_imp_le size_mset)
  have "mset (sift i ds) = mset (take i ds @ ds ! i # drop (Suc i) ds)" using zs(1,2) by simp
  then have m: "mset (sift i ds) = mset ds" using ds by simp
  then show ?thesis using zs len by (metis append_eq_conv_conj size_mset)
qed

lemma sortDevices_sorts: "mset (sortDevices ds) = mset ds \<and> sorted (map dmDevice (sortDevices ds))"
proof -
  have "mset (foldl (\<lambda>ds i. sift i ds) ds [1..<Suc k]) = mset ds \<and> length (foldl (\<lambda>ds i. sift i ds) ds [1..<Suc k]) = length ds
      \<and> sorted (map dmDevice (take (Suc k) (foldl (\<lambda>ds i. sift i ds) ds [1..<Suc k])))" if "k < length ds" for k
    using that
  proof (induction k)
    case 0
    then show ?case by (cases ds) simp_all
  next
    case (Suc k)
    let ?f = "foldl (\<lambda>ds i. sift i ds) ds [1..<Suc k]"
    have IH: "mset ?f = mset ds" "length ?f = length ds" "sorted (map dmDevice (take (Suc k) ?f))" using Suc by simp_all
    have st: "foldl (\<lambda>ds i. sift i ds) ds [1..<Suc (Suc k)] = sift (Suc k) ?f" by (simp add: upt_Suc_append)
    show ?case unfolding st using sift_prefix [of "Suc k" ?f] IH Suc.prems by simp
  qed
  note run = this
  show ?thesis
  proof (cases "ds = []")
    case False
    then have n: "Suc (length ds - 1) = length ds" "length ds - 1 < length ds" by simp_all
    have "mset (sortDevices ds) = mset ds" "length (sortDevices ds) = length ds"
      "sorted (map dmDevice (take (length ds) (sortDevices ds)))"
      using run [OF n(2)] unfolding n(1) sortDevices_def by blast+
    then show ?thesis by simp
  qed (simp add: sortDevices_def)
qed

section \<open>Accounting\<close>

text \<open>A record is filed under its own name, and its requests are its chunk and metadata requests.\<close>

definition devices_ok :: "devices \<Rightarrow> bool" where
  "devices_ok ds \<longleftrightarrow> (\<forall>k d. ds k = Some d \<longrightarrow> dmDevice d = k \<and> dmRequests d = dmChunkRequests d + dmMetaRequests d)"

lemma sorted_by_key_unique:
  assumes "sorted (map f xs)" "sorted (map f ys)" "distinct (map f xs)" "mset xs = mset ys"
  shows "xs = ys"
proof -
  have "mset (map f xs) = mset (map f ys)" using assms(4) by (metis mset_map)
  then have k: "map f xs = map f ys" using assms(1,2) by (metis properties_for_sort)
  have "set xs = set ys" using assms(4) by (metis set_mset_mset)
  moreover have "inj_on f (set xs)" using assms(3) by (simp add: distinct_map)
  ultimately show ?thesis using map_inj_on [OF k] by simp
qed

lemma map_filter_names:
  assumes "devices_ok ds" and "distinct order" and "set order \<subseteq> dom ds"
  shows "map dmDevice (List.map_filter ds order) = order"
  using assms(2,3)
proof (induction order)
  case (Cons k order)
  then obtain d where d: "ds k = Some d" by auto
  then have "dmDevice d = k" using assms(1) unfolding devices_ok_def by blast
  then show ?case using Cons d by (simp add: map_filter_simps)
qed (simp add: map_filter_simps)

section \<open>Properties\<close>

text \<open>\<open>Record\<close> charges one request, of one kind, and the bytes to the named device (to the anonymous
  one when no name is given), leaves every other device alone, and keeps the books: every record under
  its own name, with its requests the sum of its chunk and metadata requests, modulo the counter width.\<close>

theorem Record_keeps_books:
  assumes "devices_ok ds"
  shows "devices_ok (Record device isChunk bytes now ds)
     \<and> (let k = (if device = [] then anonName else device); old = (case ds k of None \<Rightarrow> zero_device k | Some d \<Rightarrow> d) in
        (\<exists>d. Record device isChunk bytes now ds = ds(k \<mapsto> d) \<and> dmRequests d = dmRequests old + 1
           \<and> dmBytesServed d = dmBytesServed old + bytes \<and> dmLastSeen d = now
           \<and> (dmChunkRequests d, dmMetaRequests d) = (if isChunk then (dmChunkRequests old + 1, dmMetaRequests old)
                                                    else (dmChunkRequests old, dmMetaRequests old + 1))))"
proof -
  define k where "k = (if device = [] then anonName else device)"
  define old where "old = (case ds k of None \<Rightarrow> zero_device k | Some d \<Rightarrow> d)"
  have o: "dmDevice old = k" "dmRequests old = dmChunkRequests old + dmMetaRequests old"
    using assms by (auto simp: old_def devices_ok_def zero_device_def split: option.split)
  show ?thesis
    using assms o unfolding Record_def Let_def k_def [symmetric] old_def [symmetric]
    by (auto simp: devices_ok_def)
qed

text \<open>The snapshot does not depend on the order in which the device map happens to be ranged over: its
  device list is sorted by name and has every device exactly once.\<close>

theorem hubSnapshot_deterministic:
  assumes "devices_ok ds" and "distinct order" "set order = dom ds" and "distinct order'" "set order' = dom ds"
  shows "hubSnapshot h ds order = hubSnapshot h ds order'
     \<and> sorted (map dmDevice (hsDevices (hubSnapshot h ds order))) \<and> distinct (map dmDevice (hsDevices (hubSnapshot h ds order)))
     \<and> set (hsDevices (hubSnapshot h ds order)) = ran ds"
proof -
  have names: "map dmDevice (List.map_filter ds order) = order" "map dmDevice (List.map_filter ds order') = order'"
    using map_filter_names [OF assms(1)] assms(2-5) by simp_all
  have set: "set (List.map_filter ds xs) = ran ds" if "set xs = dom ds" for xs
    using that by (force simp: List.map_filter_def ran_def dom_def)
  have dist: "distinct (List.map_filter ds order)" "distinct (List.map_filter ds order')"
    using names assms(2,4) by (metis distinct_map)+
  have mset: "mset (List.map_filter ds order) = mset (List.map_filter ds order')"
    using dist set [OF assms(3)] set [OF assms(5)] by (simp add: set_eq_iff_mset_eq_distinct [symmetric])
  note s = sortDevices_sorts [of "List.map_filter ds order"] and s' = sortDevices_sorts [of "List.map_filter ds order'"]
  have d: "distinct (map dmDevice (sortDevices (List.map_filter ds order)))"
    using s names(1) assms(2) by (metis distinct_count_atmost_1 mset_map mset_eq_imp_distinct_iff)
  have "sortDevices (List.map_filter ds order) = sortDevices (List.map_filter ds order')"
    by (rule sorted_by_key_unique [of dmDevice]) (use s s' d mset in simp_all)
  moreover have "set (sortDevices (List.map_filter ds order)) = ran ds"
    using s set [OF assms(3)] by (metis set_mset_mset)
  ultimately show ?thesis using s d by (simp add: hubSnapshot_def)
qed

definition demo_devices :: devices where
  "demo_devices = Record ''pi2'' True 10 1 (Record ''pi1'' False 5 2 Map.empty)"

lemma demo_devices_ok: "devices_ok demo_devices" "dom demo_devices = {''pi1'', ''pi2''}"
  by (auto simp: demo_devices_def Record_def devices_ok_def zero_device_def Let_def dom_def split: if_splits)

theorem Record_keeps_books_witness:
  "devices_ok (Record [] True 7 3 demo_devices) \<and> (\<exists>d. Record [] True 7 3 demo_devices anonName = Some d \<and> dmRequests d = 1)"
  using Record_keeps_books [OF demo_devices_ok(1), of "[]" True 7 3]
  by (auto simp: demo_devices_def Record_def anonName_def zero_device_def Let_def)

theorem hubSnapshot_deterministic_witness:
  "hubSnapshot (newHub 10) demo_devices [''pi2'', ''pi1''] = hubSnapshot (newHub 10) demo_devices [''pi1'', ''pi2'']"
  using hubSnapshot_deterministic [OF demo_devices_ok(1), of "[''pi2'', ''pi1'']" "[''pi1'', ''pi2'']" "newHub 10"]
  by (auto simp: demo_devices_ok(2))

end
