(* ===== verification/EventLog.thy ===== *)
theory EventLog
  imports Format AgentBase
begin

text \<open>
  The event log, \<open>src/internal/admin/admin.go\<close>: lines of JSON appended to a file and synced, with one older
  generation beside it; sequence numbers recovered from the end of the file on opening; queries by sequence
  number over both generations. Operations run over the machine and the log.
\<close>

section \<open>Model\<close>

record log_event =
  evSeq :: int
  evTime :: string
  evKind :: string
  evDetail :: string

text \<open>\<open>elOpen\<close>: the file handle has not been closed. Hooks are numbered in the order of their registration, and the
  calls made to them are logged.\<close>

record event_log =
  elPath :: path
  elMaxBytes :: int
  elOpen :: bool
  elSize :: int
  elSeq :: int
  elClosed :: bool
  elHooks :: nat
  elCalls :: "(nat \<times> log_event) list"

type_synonym 'a lg = "(world \<times> event_log, 'a) sm"

record log_prims = agent_prims +
  jsonEvent :: "log_event \<Rightarrow> bytes"
  jsonEventDec :: "bytes \<Rightarrow> log_event result"
  formatNano :: "int \<Rightarrow> string"

definition DefaultEventLogBytes :: int where
  "DefaultEventLogBytes = 8 * 2 ^ 20"

definition rotatedPath :: "path \<Rightarrow> path" where
  "rotatedPath p = butlast p @ [last p @ ''.1'']"

definition ErrClosed :: error where
  "ErrClosed = Msg ''file already closed''"

text \<open>An operation on an open file that changes nothing, \<open>os.OpenFile\<close> with \<open>O_TRUNC\<close>, and the operations on the log's
  handle.\<close>

definition fileOp :: "env \<Rightarrow> unit io" where
  "fileOp E = prim E (\<lambda>w. (Inr (), w))"

definition osOpenTrunc :: "env \<Rightarrow> path \<Rightarrow> nat \<Rightarrow> unit io" where
  "osOpenTrunc E p mode = prim E (\<lambda>w. case lookup w p of
       Some DirN \<Rightarrow> (Inl IOError, w)
     | Some (FileN _ m) \<Rightarrow> (Inr (), put_node p (FileN [] m) w)
     | None \<Rightarrow> if lookup w (butlast p) = Some DirN then (Inr (), put_node p (FileN [] mode) w) else (Inl NotExist, w))"

definition closeHandle :: "env \<Rightarrow> unit lg" where
  "closeHandle E = bindM getS (\<lambda>l. if \<not> elOpen l then throw ErrClosed
     else bindM (modS (\<lambda>l. l\<lparr>elOpen := False\<rparr>)) (\<lambda>_. onFst (fClose E (elPath l))))"

definition writeHandle :: "env \<Rightarrow> bytes \<Rightarrow> unit lg" where
  "writeHandle E b = bindM getS (\<lambda>l. if \<not> elOpen l then throw ErrClosed else onFst (fWrite E (elPath l) b))"

definition rotateLocked :: "env \<Rightarrow> unit lg" where
  "rotateLocked E = bindM getS (\<lambda>l.
     bindM (closeHandle E) (\<lambda>_.
     bindM (onFst (attemptM (osRename E (elPath l) (rotatedPath (elPath l))))) (\<lambda>r.
     bindM (guardM (r = Inr () \<or> r = Inl NotExist) (case r of Inl e \<Rightarrow> e | Inr _ \<Rightarrow> NotExist)) (\<lambda>_.
     bindM (onFst (osOpenTrunc E (elPath l) 416)) (\<lambda>_.
     bindM (modS (\<lambda>l. l\<lparr>elOpen := True, elSize := 0\<rparr>)) (\<lambda>_.
     onFst (SyncDir E (butlast (elPath l)))))))))"

section \<open>Opening\<close>

definition newline :: byte where "newline = 10"

fun seqOf :: "'x log_prims_scheme \<Rightarrow> bytes list \<Rightarrow> int \<Rightarrow> int" where
  "seqOf P [] n = n"
| "seqOf P (line # ls) n = seqOf P ls (if line = [] then n else
     (case jsonEventDec P line of Inl _ \<Rightarrow> n | Inr ev \<Rightarrow> if evSeq ev > n then evSeq ev else n))"

definition tailBytes :: nat where "tailBytes = 64 * 2 ^ 10"

definition lastSeq :: "'x log_prims_scheme \<Rightarrow> env \<Rightarrow> path \<Rightarrow> int io" where
  "lastSeq P E p = bindM (attemptM (osStat E p)) (\<lambda>r. case r of
       Inl e \<Rightarrow> if e = NotExist then ret 0 else throw e
     | Inr DirN \<Rightarrow> throw IOError
     | Inr (FileN b _) \<Rightarrow>
         (let tail = drop (length b - tailBytes) b in
          bindM (fileOp E) (\<lambda>_.
          bindM (fileOp E) (\<lambda>_.
          bindM (attemptM (fileOp E)) (\<lambda>rd.
          bindM (guardM (rd = Inr () \<or> tail = []) IOError) (\<lambda>_.
          ret (seqOf P (splitOn newline tail) 0)))))))"

definition OpenEventLog :: "'x log_prims_scheme \<Rightarrow> env \<Rightarrow> path \<Rightarrow> int \<Rightarrow> event_log io" where
  "OpenEventLog P E p maxBytes =
     (let mx = if maxBytes \<le> 0 then DefaultEventLogBytes else maxBytes in
      bindM (mkdirAll_rev E (rev (butlast p))) (\<lambda>_.
      bindM (osOpenCreate E p 416) (\<lambda>_.
      bindM (attemptM (osStat E p)) (\<lambda>st. case st of
          Inl e \<Rightarrow> bindM (attemptM (fClose E p)) (\<lambda>_. throw e)
        | Inr n \<Rightarrow>
      bindM (attemptM (lastSeq P E p)) (\<lambda>sq. case sq of
          Inl e \<Rightarrow> bindM (attemptM (fClose E p)) (\<lambda>_. throw e)
        | Inr s \<Rightarrow>
          (let l = \<lparr>elPath = p, elMaxBytes = mx, elOpen = True, elSize = (case n of FileN b _ \<Rightarrow> int (length b) | DirN \<Rightarrow> 0),
                    elSeq = s, elClosed = False, elHooks = 0, elCalls = []\<rparr> in
           if elSize l \<ge> mx then (\<lambda>w. case rotateLocked E (w, l) of
               (Inl e, (w', l')) \<Rightarrow> (Inl e, fst (snd (closeHandle E (w', l'))))
             | (Inr _, (w', l')) \<Rightarrow> (Inr l', w'))
           else ret l))))))"

section \<open>Appending\<close>

definition OnEmit :: "unit lg" where
  "OnEmit = modS (\<lambda>l. l\<lparr>elHooks := Suc (elHooks l)\<rparr>)"

definition nextEvent :: "'x log_prims_scheme \<Rightarrow> string \<Rightarrow> string \<Rightarrow> int \<Rightarrow> int \<Rightarrow> log_event" where
  "nextEvent P kind detail s now = \<lparr>evSeq = s, evTime = formatNano P now, evKind = kind, evDetail = detail\<rparr>"

definition callHooks :: "log_event \<Rightarrow> event_log \<Rightarrow> event_log" where
  "callHooks ev l = l\<lparr>elCalls := elCalls l @ map (\<lambda>i. (i, ev)) [0..<elHooks l]\<rparr>"

definition appendEvent :: "'x log_prims_scheme \<Rightarrow> env \<Rightarrow> string \<Rightarrow> string \<Rightarrow> unit lg" where
  "appendEvent P E kind detail =
     bindM (modS (\<lambda>l. l\<lparr>elSeq := wrap64 (elSeq l + 1)\<rparr>)) (\<lambda>_.
     bindM (onFst (timeNow E)) (\<lambda>now.
     bindM getS (\<lambda>l.
     (let ev = nextEvent P kind detail (elSeq l) now; b = jsonEvent P ev @ [newline] in
      bindM (attemptM (writeHandle E b)) (\<lambda>r. case r of
          Inl e \<Rightarrow> bindM (modS (\<lambda>l. l\<lparr>elSeq := wrap64 (elSeq l - 1)\<rparr>)) (\<lambda>_. throw e)
        | Inr _ \<Rightarrow>
            bindM (onFst (fSync E (elPath l))) (\<lambda>_.
            bindM (modS (\<lambda>l. l\<lparr>elSize := wrap64 (elSize l + int (length b))\<rparr>)) (\<lambda>_.
            modS (callHooks ev))))))))"

definition Emit :: "'x log_prims_scheme \<Rightarrow> env \<Rightarrow> string \<Rightarrow> string \<Rightarrow> unit lg" where
  "Emit P E kind detail = bindM getS (\<lambda>l.
     if elClosed l then throw (Msg ''event log closed'')
     else bindM (if elSize l \<ge> elMaxBytes l
                 then bindM (attemptM (rotateLocked E)) (\<lambda>r. case r of Inl e \<Rightarrow> throw (Wrap ''rotate event log'' e) | Inr _ \<Rightarrow> ret ())
                 else ret ()) (\<lambda>_. appendEvent P E kind detail))"

section \<open>Queries\<close>

text \<open>\<open>bufio.Scanner\<close> with lines: what is left without a final newline is a line too, a carriage return at the end is
  cut, and a line that does not fit the buffer of one mebibyte ends the scan.\<close>

definition fileLines :: "bytes \<Rightarrow> bytes list" where
  "fileLines b = (let ps = splitOn newline b in if last ps = [] then butlast ps else ps)"

definition maxLine :: nat where "maxLine = 2 ^ 20"

definition dropCR :: "bytes \<Rightarrow> bytes" where
  "dropCR b = (if b \<noteq> [] \<and> last b = 13 then butlast b else b)"

fun scanLines :: "bytes list \<Rightarrow> bytes list \<times> bool" where
  "scanLines [] = ([], False)"
| "scanLines (b # bs) = (if length b \<ge> maxLine then ([], True) else (dropCR b # fst (scanLines bs), snd (scanLines bs)))"

definition ErrTooLong :: error where
  "ErrTooLong = Msg ''bufio.Scanner: token too long''"

definition byteSpace :: "byte set" where
  "byteSpace = {9, 10, 11, 12, 13, 32}"

fun queryLines :: "'x log_prims_scheme \<Rightarrow> int \<Rightarrow> nat \<Rightarrow> bytes list \<Rightarrow> log_event list \<Rightarrow> int \<Rightarrow> log_event list \<times> int \<times> bool" where
  "queryLines P after lim [] evs oldest = (evs, oldest, False)"
| "queryLines P after lim (b # bs) evs oldest =
     (let line = trim byteSpace b in
      if line = [] then queryLines P after lim bs evs oldest
      else (case jsonEventDec P line of
          Inl _ \<Rightarrow> queryLines P after lim bs evs oldest
        | Inr ev \<Rightarrow>
            (let oldest' = if oldest = 0 \<or> evSeq ev < oldest then evSeq ev else oldest in
             if evSeq ev \<le> after then queryLines P after lim bs evs oldest'
             else if length (evs @ [ev]) \<ge> lim then (evs @ [ev], oldest', True)
             else queryLines P after lim bs (evs @ [ev]) oldest')))"

fun queryFiles :: "'x log_prims_scheme \<Rightarrow> env \<Rightarrow> int \<Rightarrow> nat \<Rightarrow> path list \<Rightarrow> log_event list \<Rightarrow> int \<Rightarrow>
    (log_event list \<times> int \<times> error option) io" where
  "queryFiles P E after lim [] evs oldest = ret (evs, oldest, None)"
| "queryFiles P E after lim (p # ps) evs oldest =
     bindM (attemptM (openRead E p)) (\<lambda>r. case r of
       Inl e \<Rightarrow> if e = NotExist then queryFiles P E after lim ps evs oldest else ret (evs, oldest, Some e)
     | Inr (b, rerr) \<Rightarrow> (case scanLines (fileLines b) of (ls, long) \<Rightarrow>
         (case queryLines P after lim ls evs oldest of (evs', oldest', full) \<Rightarrow>
           if full then ret (evs', oldest', None)
           else if long then ret (evs', oldest', Some ErrTooLong)
           else (case rerr of Some e \<Rightarrow> ret (evs', oldest', Some e)
                 | None \<Rightarrow> queryFiles P E after lim ps evs' oldest'))))"

definition queryLimit :: "int \<Rightarrow> nat" where
  "queryLimit limit = nat (if limit \<le> 0 then 200 else if limit > 1000 then 1000 else limit)"

definition Query :: "'x log_prims_scheme \<Rightarrow> env \<Rightarrow> int \<Rightarrow> int \<Rightarrow> (log_event list \<times> int \<times> error option) lg" where
  "Query P E after limit = bindM getS (\<lambda>l. onFst (
     if elPath l = [] then ret ([], 0, None)
     else bindM (attemptM (osStat E (rotatedPath (elPath l)))) (\<lambda>st.
       queryFiles P E after (queryLimit limit)
         (case st of Inr _ \<Rightarrow> [rotatedPath (elPath l), elPath l] | Inl _ \<Rightarrow> [elPath l]) [] 0)))"

definition closeLog :: "env \<Rightarrow> unit lg" where
  "closeLog E = bindM getS (\<lambda>l. if elClosed l then ret ()
     else bindM (modS (\<lambda>l. l\<lparr>elClosed := True\<rparr>)) (\<lambda>_. closeHandle E))"

end
