(* ===== verification/EventLogProps.thy ===== *)
theory EventLogProps
  imports EventLog Receipts
begin

text \<open>
  What the event log guarantees: a query on undamaged files is exact, successful appends are all there until their
  generation is rotated away, numbers continue over a restart, and both generations stay within their bound.
\<close>

section \<open>The text of a generation\<close>

definition logText :: "'x log_prims_scheme \<Rightarrow> log_event list \<Rightarrow> bytes" where
  "logText P evs = concat (map (\<lambda>ev. jsonEvent P ev @ [newline]) evs)"

lemma logText_simps [simp]:
  "logText P [] = []" "logText P (ev # evs) = jsonEvent P ev @ newline # logText P evs"
  "logText P (as @ bs) = logText P as @ logText P bs"
  by (simp_all add: logText_def)

text \<open>What the log relies on for one event: its JSON reads back, is one line without white space at the ends, fits the
  scanner's buffer, and no proper end of it is a JSON object.\<close>

definition event_ok :: "'x log_prims_scheme \<Rightarrow> log_event \<Rightarrow> bool" where
  "event_ok P ev \<longleftrightarrow> (let b = jsonEvent P ev in jsonEventDec P b = Inr ev \<and> b \<noteq> [] \<and> newline \<notin> set b \<and> length b < maxLine
     \<and> hd b \<notin> byteSpace \<and> last b \<notin> byteSpace
     \<and> list_all (\<lambda>k. case jsonEventDec P (drop (Suc k) b) of Inl _ \<Rightarrow> True | Inr _ \<Rightarrow> False) [0..<length b - 1])"

lemma event_okD:
  assumes "event_ok P ev"
  shows "jsonEventDec P (jsonEvent P ev) = Inr ev" "jsonEvent P ev \<noteq> []" "newline \<notin> set (jsonEvent P ev)"
    "length (jsonEvent P ev) < maxLine" "dropCR (jsonEvent P ev) = jsonEvent P ev" "trim byteSpace (jsonEvent P ev) = jsonEvent P ev"
proof -
  let ?b = "jsonEvent P ev"
  note ok = assms [unfolded event_ok_def Let_def]
  show "jsonEventDec P ?b = Inr ev" "?b \<noteq> []" "newline \<notin> set ?b" "length ?b < maxLine" using ok by simp_all
  show "dropCR ?b = ?b" using ok by (auto simp: dropCR_def byteSpace_def)
  have "trimLeft byteSpace ?b = ?b" using ok by (cases ?b) (simp_all add: trimLeft_def)
  moreover have "trimRight byteSpace ?b = ?b"
    using ok by (cases ?b rule: rev_cases) (simp_all add: trimRight_def)
  ultimately show "trim byteSpace ?b = ?b" by (simp add: trim_def)
qed

lemma event_ok_torn:
  assumes "event_ok P ev" and "0 < k" and "k < length (jsonEvent P ev)"
  shows "\<exists>e. jsonEventDec P (drop k (jsonEvent P ev)) = Inl e"
proof -
  have "k - 1 \<in> set [0..<length (jsonEvent P ev) - 1]" using assms(2,3) by auto
  then have "case jsonEventDec P (drop (Suc (k - 1)) (jsonEvent P ev)) of Inl _ \<Rightarrow> True | Inr _ \<Rightarrow> False"
    using assms(1) unfolding event_ok_def Let_def list_all_iff by blast
  then show ?thesis using assms(2) by (auto split: sum.splits)
qed

lemma splitOn_logText:
  "list_all (event_ok P) evs \<Longrightarrow> splitOn newline (logText P evs) = map (jsonEvent P) evs @ [[]]"
  by (induction evs) (simp_all add: splitOn_append event_okD)

lemma fileLines_logText: "list_all (event_ok P) evs \<Longrightarrow> fileLines (logText P evs) = map (jsonEvent P) evs"
  by (simp add: fileLines_def splitOn_logText)

lemma scanLines_logText: "list_all (event_ok P) evs \<Longrightarrow> scanLines (map (jsonEvent P) evs) = (map (jsonEvent P) evs, False)"
  by (induction evs) (use event_okD(4) in \<open>auto simp: event_okD(5) not_le\<close>)

section \<open>Queries\<close>

definition oldestOf :: "log_event list \<Rightarrow> int" where
  "oldestOf evs = (case evs of [] \<Rightarrow> 0 | ev # _ \<Rightarrow> evSeq ev)"

lemma queryLines_logText:
  assumes "list_all (event_ok P) evs" and "list_all (\<lambda>ev. 0 < evSeq ev) evs" and "sorted (map evSeq evs)"
    and "length acc < lim" and "list_all (\<lambda>ev. oldest \<le> evSeq ev) evs"
  shows "queryLines P after lim (map (jsonEvent P) evs) acc oldest =
    (take lim (acc @ filter (\<lambda>ev. after < evSeq ev) evs), (if oldest = 0 then oldestOf evs else oldest),
     lim \<le> length (acc @ filter (\<lambda>ev. after < evSeq ev) evs))"
  using assms
proof (induction evs arbitrary: acc oldest)
  case (Cons ev evs)
  let ?old = "if oldest = 0 then evSeq ev else oldest"
  have old: "(if oldest = 0 \<or> evSeq ev < oldest then evSeq ev else oldest) = ?old" using Cons.prems(5) by auto
  have ge: "list_all (\<lambda>ev. ?old \<le> evSeq ev) evs" using Cons.prems(3,5) by (auto simp: list_all_iff)
  have ev: "jsonEventDec P (jsonEvent P ev) = Inr ev" "trim byteSpace (jsonEvent P ev) = jsonEvent P ev" "jsonEvent P ev \<noteq> []"
    using Cons.prems(1) by (simp_all add: event_okD)
  have pos: "?old \<noteq> 0" using Cons.prems(2) by auto
  have rest: "queryLines P after lim (map (jsonEvent P) evs) acc' ?old =
      (take lim (acc' @ filter (\<lambda>ev. after < evSeq ev) evs), ?old, lim \<le> length (acc' @ filter (\<lambda>ev. after < evSeq ev) evs))"
    if "length acc' < lim" for acc'
    using Cons.IH [of acc' ?old] Cons.prems that ge pos by simp
  show ?case
  proof (cases "evSeq ev \<le> after")
    case True
    then show ?thesis using Cons.prems(4) by (simp add: ev Let_def old rest oldestOf_def)
  next
    case False
    show ?thesis
    proof (cases "lim \<le> length (acc @ [ev])")
      case True
      then have "lim = Suc (length acc)" using Cons.prems(4) by simp
      then show ?thesis using False by (simp add: ev Let_def old oldestOf_def)
    next
      case False2: False
      then show ?thesis using False rest [of "acc @ [ev]"] by (simp add: ev Let_def old oldestOf_def)
    qed
  qed
qed (auto simp: oldestOf_def)

text \<open>The files of a log: the current generation and, when there is one, the older one.\<close>

definition generations :: "'x log_prims_scheme \<Rightarrow> world \<Rightarrow> path \<Rightarrow> log_event list \<Rightarrow> log_event list \<Rightarrow> bool" where
  "generations P w p old cur \<longleftrightarrow> p \<noteq> [] \<and> file_bytes w p = Some (logText P cur)
     \<and> (case lookup w (rotatedPath p) of None \<Rightarrow> old = [] | Some n \<Rightarrow> file_bytes w (rotatedPath p) = Some (logText P old))"

definition numbered :: "'x log_prims_scheme \<Rightarrow> log_event list \<Rightarrow> bool" where
  "numbered P evs \<longleftrightarrow> list_all (event_ok P) evs \<and> list_all (\<lambda>ev. 0 < evSeq ev) evs \<and> sorted (map evSeq evs)"

definition answers_next :: "env \<Rightarrow> world \<Rightarrow> nat \<Rightarrow> bool" where
  "answers_next E w n \<longleftrightarrow> list_all (\<lambda>k. \<not> io_fails E (tick w + k)) [0..<n]"

lemma answers_nextD: "answers_next E w n \<Longrightarrow> k < n \<Longrightarrow> \<not> io_fails E (tick w + k)"
  by (auto simp: answers_next_def list_all_iff)

lemma openRead_steady:
  assumes "file_bytes w p = Some b" and "\<not> io_fails E (tick w)" and "\<not> io_fails E (Suc (tick w))"
  shows "openRead E p w = (Inr (b, None), w\<lparr>tick := Suc (Suc (tick w))\<rparr>)"
  using assms
  by (auto simp: openRead_def osStat_def prim_def bindM_def Let_def file_bytes_def sm_run split: option.splits node.splits)

lemma scan_generation:
  assumes "numbered P evs" and "length acc < lim" and "list_all (\<lambda>ev. oldest \<le> evSeq ev) evs"
  shows "(case scanLines (fileLines (logText P evs)) of (ls, long) \<Rightarrow> (queryLines P after lim ls acc oldest, long)) =
    ((take lim (acc @ filter (\<lambda>ev. after < evSeq ev) evs), (if oldest = 0 then oldestOf evs else oldest),
      lim \<le> length (acc @ filter (\<lambda>ev. after < evSeq ev) evs)), False)"
  using queryLines_logText [of P evs acc lim oldest after] assms
  by (simp add: numbered_def fileLines_logText scanLines_logText)

lemma queryFiles_generation:
  assumes "numbered P evs" and "length acc < lim" and "list_all (\<lambda>ev. oldest \<le> evSeq ev) evs"
    and "file_bytes w p = Some (logText P evs)" and "\<not> io_fails E (tick w)" and "\<not> io_fails E (Suc (tick w))"
  shows "queryFiles P E after lim (p # ps) acc oldest w =
    (let found = acc @ filter (\<lambda>ev. after < evSeq ev) evs; oldest' = (if oldest = 0 then oldestOf evs else oldest) in
     if lim \<le> length found then (Inr (take lim found, oldest', None), w\<lparr>tick := Suc (Suc (tick w))\<rparr>)
     else queryFiles P E after lim ps found oldest' (w\<lparr>tick := Suc (Suc (tick w))\<rparr>))"
  using scan_generation [OF assms(1-3), of after] openRead_steady [OF assms(4-6)]
  by (auto simp: attemptM_def bindM_def sm_run Let_def split: prod.splits)

declare queryFiles.simps(2) [simp del]

lemma rotatedPath_neq: "p \<noteq> [] \<Longrightarrow> rotatedPath p \<noteq> p"
  by (cases p rule: rev_cases) (simp_all add: rotatedPath_def)

lemma queryLimit_pos: "0 < queryLimit limit"
  by (simp add: queryLimit_def)

lemma file_bytes_tick [simp]: "file_bytes (w\<lparr>tick := n\<rparr>) p = file_bytes w p"
  by (simp add: file_bytes_def)

lemma oldest_ge: "sorted (map evSeq (as @ bs)) \<Longrightarrow> list_all (\<lambda>ev. 0 < evSeq ev) (as @ bs) \<Longrightarrow> list_all (\<lambda>ev. oldestOf as \<le> evSeq ev) bs"
  by (cases as) (auto simp: oldestOf_def list_all_iff sorted_append less_imp_le)

lemma Query_generations:
  assumes gen: "generations P w (elPath l) old cur" and num: "numbered P (old @ cur)" and calm: "answers_next E w 5"
  shows "\<exists>n. Query P E after limit (w, l) = (Inr (take (queryLimit limit) (filter (\<lambda>ev. after < evSeq ev) (old @ cur)),
      oldestOf (old @ cur), None), w\<lparr>tick := n\<rparr>, l)"
proof -
  let ?p = "elPath l" and ?lim = "queryLimit limit" and ?w1 = "w\<lparr>tick := Suc (tick w)\<rparr>"
  have nums: "numbered P old" "numbered P cur" and ge: "list_all (\<lambda>ev. oldestOf old \<le> evSeq ev) cur" "list_all (\<lambda>ev. 0 \<le> evSeq ev) old"
      "list_all (\<lambda>ev. 0 \<le> evSeq ev) cur"
    using num oldest_ge [of old cur] by (auto simp: numbered_def sorted_append list_all_iff less_imp_le)
  have io: "\<not> io_fails E (tick w)" "\<not> io_fails E (Suc (tick w))" "\<not> io_fails E (Suc (Suc (tick w)))" "\<not> io_fails E (Suc (Suc (Suc (tick w))))"
      "\<not> io_fails E (Suc (Suc (Suc (Suc (tick w)))))"
    using answers_nextD [OF calm, of 0] answers_nextD [OF calm, of 1] answers_nextD [OF calm, of 2] answers_nextD [OF calm, of 3]
      answers_nextD [OF calm, of 4] by (simp_all add: numeral_eq_Suc)
  have ne: "?p \<noteq> []" and cur: "file_bytes w ?p = Some (logText P cur)" using gen by (simp_all add: generations_def)
  show ?thesis
  proof (cases "lookup w (rotatedPath ?p)")
    case None
    then have "old = []" using gen by (simp add: generations_def)
    moreover have "Query P E after limit (w, l) = (case queryFiles P E after ?lim [?p] [] 0 ?w1 of (r, w') \<Rightarrow> (r, w', l))"
      using None ne io by (simp add: Query_def bindM_def getS_def onFst_def attemptM_def osStat_def prim_def split: prod.split)
    ultimately show ?thesis
      using queryFiles_generation [OF nums(2), of "[]" ?lim 0 ?w1 ?p E after "[]"] queryLimit_pos [of limit] cur io ge
      by (auto simp: Let_def sm_run)
  next
    case (Some n)
    then have old: "file_bytes w (rotatedPath ?p) = Some (logText P old)" using gen by (simp add: generations_def)
    have q: "Query P E after limit (w, l) = (case queryFiles P E after ?lim [rotatedPath ?p, ?p] [] 0 ?w1 of (r, w') \<Rightarrow> (r, w', l))"
      using Some ne io by (simp add: Query_def bindM_def getS_def onFst_def attemptM_def osStat_def prim_def split: prod.split)
    let ?found = "filter (\<lambda>ev. after < evSeq ev) old"
    have first: "queryFiles P E after ?lim [rotatedPath ?p, ?p] [] 0 ?w1 =
      (if ?lim \<le> length ?found then (Inr (take ?lim ?found, oldestOf old, None), w\<lparr>tick := Suc (Suc (Suc (tick w)))\<rparr>)
       else queryFiles P E after ?lim [?p] ?found (oldestOf old) (w\<lparr>tick := Suc (Suc (Suc (tick w)))\<rparr>))"
      using queryFiles_generation [OF nums(1), of "[]" ?lim 0 ?w1 "rotatedPath ?p" E after "[?p]"] queryLimit_pos [of limit] old io ge
      by (simp add: Let_def)
    show ?thesis
    proof (cases "?lim \<le> length ?found")
      case True
      then have "oldestOf old = oldestOf (old @ cur)" using queryLimit_pos [of limit] by (cases old) (auto simp: oldestOf_def)
      then show ?thesis using True by (auto simp: q first)
    next
      case False
      have "(if oldestOf old = 0 then oldestOf cur else oldestOf old) = oldestOf (old @ cur)"
        using nums(1) by (cases old) (auto simp: oldestOf_def numbered_def)
      then show ?thesis
        using False queryFiles_generation [OF nums(2), of ?found ?lim "oldestOf old" "w\<lparr>tick := Suc (Suc (Suc (tick w)))\<rparr>" ?p E after "[]"]
          cur io ge(1) by (auto simp: q first Let_def sm_run)
    qed
  qed
qed

section \<open>Appends\<close>

text \<open>The state of a log after appends that succeeded: the events so far are those rotated away, those of the older and
  those of the current generation, numbered from one.\<close>

definition fits :: "'x log_prims_scheme \<Rightarrow> int \<Rightarrow> log_event list \<Rightarrow> bool" where
  "fits P mx evs \<longleftrightarrow> evs = [] \<or> int (length (logText P (butlast evs))) < mx"

definition log_ok :: "'x log_prims_scheme \<Rightarrow> world \<Rightarrow> event_log \<Rightarrow> log_event list \<Rightarrow> log_event list \<Rightarrow> log_event list \<Rightarrow> bool" where
  "log_ok P w l lost old cur \<longleftrightarrow> (let evs = lost @ old @ cur in
     generations P w (elPath l) old cur \<and> list_all (event_ok P) evs \<and> map evSeq evs = map int [1..<Suc (length evs)]
     \<and> elSeq l = int (length evs) \<and> elSize l = int (length (logText P cur)) \<and> elOpen l \<and> \<not> elClosed l
     \<and> 0 < elMaxBytes l \<and> elMaxBytes l \<le> 2 ^ 62 \<and> fits P (elMaxBytes l) old \<and> fits P (elMaxBytes l) cur)"

text \<open>Every event of this kind and detail with a number up to \<open>n\<close> has a JSON text the log can work with.\<close>

definition kind_ok :: "'x log_prims_scheme \<Rightarrow> nat \<Rightarrow> string \<times> string \<Rightarrow> bool" where
  "kind_ok P n kd \<longleftrightarrow> (\<forall>s now. 0 < s \<longrightarrow> s \<le> int n \<longrightarrow> event_ok P (nextEvent P (fst kd) (snd kd) s now))"

lemma numbered_ints: "map evSeq evs = map int [1..<Suc (length evs)] \<Longrightarrow> list_all (event_ok P) evs \<Longrightarrow> numbered P evs"
proof -
  assume eq: "map evSeq evs = map int [1..<Suc (length evs)]" and ok: "list_all (event_ok P) evs"
  have "set (map evSeq evs) \<subseteq> {n. 0 < n}" unfolding eq by auto
  moreover have "sorted (map evSeq evs)" unfolding eq by (simp add: sorted_iff_nth_mono del: upt_Suc)
  ultimately show ?thesis using ok by (auto simp: numbered_def list_all_iff)
qed

lemma numbered_suffix: "numbered P (as @ bs) \<Longrightarrow> numbered P bs"
  by (simp add: numbered_def sorted_append)

lemma log_ok_numbered: "log_ok P w l lost old cur \<Longrightarrow> numbered P (old @ cur)"
  using numbered_suffix numbered_ints unfolding log_ok_def Let_def by blast

lemma rotatedPath_nonempty [simp]: "rotatedPath p \<noteq> []"
  by (simp add: rotatedPath_def)

lemma file_bytesD: "file_bytes w p = Some b \<Longrightarrow> \<exists>m. lookup w p = Some (FileN b m)"
  by (auto simp: file_bytes_def split: option.splits node.splits)

lemma file_bytes_put: "p \<noteq> [] \<Longrightarrow> file_bytes (put_node p n w) q = (if q = p then (case n of FileN b _ \<Rightarrow> Some b | DirN \<Rightarrow> None) else file_bytes w q)"
  by (auto simp: file_bytes_def split: node.splits)

lemma file_bytes_del: "p \<noteq> [] \<Longrightarrow> file_bytes (del_node p w) q = (if q = p then None else file_bytes w q)"
  by (auto simp: file_bytes_def)

lemma prim_ok: "prim E f w = (Inr x, w') \<Longrightarrow> f (w\<lparr>tick := Suc (tick w)\<rparr>) = (Inr x, w')"
  by (auto simp: prim_def Let_def split: if_splits)

lemma SyncDir_lookup: "SyncDir E d w = (r, w') \<Longrightarrow> lookup w' = lookup w"
  by (auto simp: SyncDir_def bindM_run osStat_def fSync_def prim_def Let_def split: if_splits option.splits)

lemma closeHandle_ok: "closeHandle E (w, l) = (Inr u, w', l') \<Longrightarrow> elOpen l \<and> lookup w' = lookup w \<and> l' = l\<lparr>elOpen := False\<rparr>"
  by (auto simp: closeHandle_def bindM_run onFst_run fClose_def prim_def Let_def split: if_splits)

lemma rename_ok:
  assumes "osRename E p q w = (r, w')" and "lookup w p = Some (FileN b m)" and "r = Inr () \<or> r = Inl NotExist" and "p \<noteq> []" "q \<noteq> []" "p \<noteq> q"
  shows "lookup w' p = None" "lookup w' q = Some (FileN b m)" "x \<notin> {p, q} \<Longrightarrow> lookup w' x = lookup w x"
  using assms by (auto simp: osRename_def prim_def Let_def split: if_splits)

lemma openTrunc_ok:
  assumes "osOpenTrunc E p m w = (Inr u, w')" and "p \<noteq> []"
  shows "file_bytes w' p = Some []" "x \<noteq> p \<Longrightarrow> lookup w' x = lookup w x"
  using assms by (auto simp: osOpenTrunc_def prim_def Let_def file_bytes_put split: if_splits option.splits node.splits)

lemma rotateLocked_ok:
  assumes run: "rotateLocked E (w, l) = (Inr u, w', l')" and b: "file_bytes w (elPath l) = Some b" and ne: "elPath l \<noteq> []"
  shows "file_bytes w' (elPath l) = Some []" "file_bytes w' (rotatedPath (elPath l)) = Some b" "l' = l\<lparr>elSize := 0\<rparr>" "elOpen l"
proof -
  let ?p = "elPath l" and ?q = "rotatedPath (elPath l)"
  obtain x w1 l1 where c: "closeHandle E (w, l) = (x, w1, l1)" by (rule prod_cases3)
  obtain r w2 where rn: "osRename E ?p ?q w1 = (r, w2)" by (rule prod.exhaust)
  obtain y w3 where tr: "osOpenTrunc E ?p 416 w2 = (y, w3)" by (rule prod.exhaust)
  obtain z w4 where sd: "SyncDir E (butlast ?p) w3 = (z, w4)" by (rule prod.exhaust)
  note at = rotateLocked_def bindM_def getS_def modS_def onFst_def attemptM_def guardM_def sm_run
  have x: "x = Inr ()" using run c by (cases x) (simp_all add: at)
  have w1: "lookup w1 = lookup w" and op: "elOpen l" and l1: "l1 = l\<lparr>elOpen := False\<rparr>" using closeHandle_ok [OF c [unfolded x]] by simp_all
  have ok: "r = Inr () \<or> r = Inl NotExist" using run c x rn by (simp add: at split: if_splits)
  have y: "y = Inr ()" using run c x rn ok tr by (cases y) (simp_all add: at)
  have w': "w' = w4" and l': "l' = l\<lparr>elOpen := True, elSize := 0\<rparr>" using run c x rn ok tr sd y l1 by (simp_all add: at)
  obtain m where m: "lookup w1 ?p = Some (FileN b m)" using file_bytesD [OF b] w1 by auto
  note ren = rename_ok [OF rn m ok ne rotatedPath_nonempty rotatedPath_neq [OF ne, symmetric]] and trunc = openTrunc_ok [OF tr [unfolded y] ne]
  show "file_bytes w' ?p = Some []" using trunc(1) SyncDir_lookup [OF sd] by (simp add: w' file_bytes_def)
  show "file_bytes w' ?q = Some b" using ren(2) trunc(2) [of ?q] rotatedPath_neq [OF ne] SyncDir_lookup [OF sd] by (simp add: w' file_bytes_def)
  show "l' = l\<lparr>elSize := 0\<rparr>" "elOpen l" using l' op by simp_all
qed

lemma writeHandle_ok:
  assumes "writeHandle E b (w, l) = (Inr u, w', l')" and "file_bytes w (elPath l) = Some old" and "elPath l \<noteq> []"
  shows "file_bytes w' (elPath l) = Some (old @ b)" "x \<noteq> elPath l \<Longrightarrow> lookup w' x = lookup w x" "l' = l" "elOpen l"
  using assms
  by (auto simp: writeHandle_def bindM_run onFst_run fWrite_def Let_def file_bytes_put file_bytes_def split: if_splits option.splits node.splits)

lemma appendEvent_ok:
  assumes run: "appendEvent P E k d (w, l) = (Inr u, w', l')" and b: "file_bytes w (elPath l) = Some b" and ne: "elPath l \<noteq> []"
    and ev: "\<And>now. ev now = nextEvent P k d (wrap64 (elSeq l + 1)) now" and bs: "\<And>now. bs now = jsonEvent P (ev now) @ [newline]"
  shows "\<exists>now. file_bytes w' (elPath l) = Some (b @ bs now) \<and> (\<forall>x. x \<noteq> elPath l \<longrightarrow> lookup w' x = lookup w x)
     \<and> l' = callHooks (ev now) (l\<lparr>elSeq := wrap64 (elSeq l + 1), elSize := wrap64 (elSize l + int (length (bs now)))\<rparr>)"
proof -
  let ?l1 = "l\<lparr>elSeq := wrap64 (elSeq l + 1)\<rparr>"
  obtain now w1 where n: "timeNow E w = (Inr now, w1)" and w1: "lookup w1 = lookup w"
    by (simp add: timeNow_def fun_eq_iff)
  obtain r w2 l2 where wr: "writeHandle E (bs now) (w1, ?l1) = (r, w2, l2)" by (rule prod_cases3)
  obtain z w3 where sy: "fSync E (elPath l) w2 = (z, w3)" by (rule prod.exhaust)
  note at = appendEvent_def bindM_def getS_def modS_def onFst_def attemptM_def sm_run Let_def
  have wr': "writeHandle E (jsonEvent P (nextEvent P k d (wrap64 (elSeq l + 1)) now) @ [newline]) (w1, ?l1) = (r, w2, l2)"
    using wr by (simp add: bs ev)
  have r: "r = Inr ()" using run by (cases r) (simp_all add: at n wr')
  have b1: "file_bytes w1 (elPath ?l1) = Some b" using b w1 by (simp add: file_bytes_def)
  note wrote = writeHandle_ok [OF wr [unfolded r] b1]
  have l2: "l2 = ?l1" using wrote(3) ne by simp
  have z: "z = Inr ()" using run by (cases z) (simp_all add: at n wr' r l2 sy)
  have w3: "lookup w3 = lookup w2" using sy z by (auto simp: fSync_def prim_def Let_def split: if_splits)
  have "w' = w3" "l' = callHooks (ev now) (l\<lparr>elSeq := wrap64 (elSeq l + 1), elSize := wrap64 (elSize l + int (length (bs now)))\<rparr>)"
    using run by (simp_all add: at n wr' r l2 sy z bs ev callHooks_def)
  moreover have "file_bytes w3 (elPath l) = Some (b @ bs now)" using wrote(1) ne w3 by (simp add: file_bytes_def)
  moreover have "lookup w3 x = lookup w x" if "x \<noteq> elPath l" for x using wrote(2) [of x] that ne w3 w1 by simp
  ultimately show ?thesis by blast
qed

lemma Emit_cases:
  assumes "Emit P E k d (w, l) = (Inr u, w', l')"
  shows "\<not> elClosed l" "if elMaxBytes l \<le> elSize l
    then \<exists>w1 l1. rotateLocked E (w, l) = (Inr (), w1, l1) \<and> appendEvent P E k d (w1, l1) = (Inr u, w', l')
    else appendEvent P E k d (w, l) = (Inr u, w', l')"
proof -
  show "\<not> elClosed l" using assms by (auto simp: Emit_def bindM_def getS_def sm_run)
  obtain r w1 l1 where "rotateLocked E (w, l) = (r, w1, l1)" by (rule prod_cases3)
  then show "if elMaxBytes l \<le> elSize l
    then \<exists>w1 l1. rotateLocked E (w, l) = (Inr (), w1, l1) \<and> appendEvent P E k d (w1, l1) = (Inr u, w', l')
    else appendEvent P E k d (w, l) = (Inr u, w', l')"
    using assms by (cases r) (auto simp: Emit_def bindM_def getS_def attemptM_def sm_run split: if_splits)
qed

lemma callHooks_sel [simp]:
  "elPath (callHooks ev l) = elPath l" "elMaxBytes (callHooks ev l) = elMaxBytes l" "elOpen (callHooks ev l) = elOpen l"
  "elSize (callHooks ev l) = elSize l" "elSeq (callHooks ev l) = elSeq l" "elClosed (callHooks ev l) = elClosed l"
  "elHooks (callHooks ev l) = elHooks l" "elCalls (callHooks ev l) = elCalls l @ map (\<lambda>i. (i, ev)) [0..<elHooks l]"
  by (simp_all add: callHooks_def)

text \<open>One append into a generation with room.\<close>

lemma appendEvent_log_ok:
  assumes run: "appendEvent P E k d (w, l) = (Inr u, w', l')" and ok: "log_ok P w l lost old cur" and kind: "kind_ok P n (k, d)"
    and n: "length (lost @ old @ cur) < n" and room: "elSize l < elMaxBytes l" and small: "int (length (lost @ old @ cur)) + 1 < 2 ^ 63"
  shows "\<exists>now. let ev = nextEvent P k d (int (length (lost @ old @ cur)) + 1) now in
     log_ok P w' l' lost old (cur @ [ev]) \<and> elPath l' = elPath l \<and> elHooks l' = elHooks l
       \<and> elCalls l' = elCalls l @ map (\<lambda>i. (i, ev)) [0..<elHooks l]"
proof -
  let ?n = "length (lost @ old @ cur)"
  note o = ok [unfolded log_ok_def Let_def]
  have gen: "generations P w (elPath l) old cur" using o by blast
  have ne: "elPath l \<noteq> []" and b: "file_bytes w (elPath l) = Some (logText P cur)" using gen by (simp_all add: generations_def)
  have seq: "wrap64 (elSeq l + 1) = int ?n + 1"
    using o small by (subst wrap64_id) (auto simp: int64_range_def)
  obtain now where w': "file_bytes w' (elPath l) = Some (logText P cur @ jsonEvent P (nextEvent P k d (int ?n + 1) now) @ [newline])"
    and other: "\<And>x. x \<noteq> elPath l \<Longrightarrow> lookup w' x = lookup w x"
    and l': "l' = callHooks (nextEvent P k d (int ?n + 1) now) (l\<lparr>elSeq := int ?n + 1,
        elSize := wrap64 (elSize l + int (length (jsonEvent P (nextEvent P k d (int ?n + 1) now) @ [newline])))\<rparr>)"
    using appendEvent_ok [OF run b ne refl refl] unfolding seq by blast
  let ?ev = "nextEvent P k d (int ?n + 1) now"
  have ev: "event_ok P ?ev" using kind n by (simp add: kind_ok_def)
  have len: "wrap64 (elSize l + int (length (jsonEvent P ?ev @ [newline]))) = int (length (logText P (cur @ [?ev])))"
    using o room event_okD(4) [OF ev] by (subst wrap64_id) (auto simp: int64_range_def maxLine_def)
  have rot: "lookup w' (rotatedPath (elPath l)) = lookup w (rotatedPath (elPath l))" using other rotatedPath_neq [OF ne] by blast
  then have "file_bytes w' (rotatedPath (elPath l)) = file_bytes w (rotatedPath (elPath l))" by (simp add: file_bytes_def)
  then have gen': "generations P w' (elPath l) old (cur @ [?ev])"
    using gen w' rot by (simp add: generations_def split: option.splits)
  have fit: "fits P (elMaxBytes l) (cur @ [?ev])" using o room by (simp add: fits_def)
  have "log_ok P w' l' lost old (cur @ [?ev])"
    using o gen' fit ev len unfolding log_ok_def Let_def by (simp add: l' nextEvent_def)
  then show ?thesis by (auto simp: l' Let_def)
qed

lemma rotate_log_ok:
  assumes run: "rotateLocked E (w, l) = (Inr u, w', l')" and ok: "log_ok P w l lost old cur"
  shows "log_ok P w' l' (lost @ old) cur []" "l' = l\<lparr>elSize := 0\<rparr>"
proof -
  note o = ok [unfolded log_ok_def Let_def]
  have ne: "elPath l \<noteq> []" and b: "file_bytes w (elPath l) = Some (logText P cur)" using o by (simp_all add: generations_def)
  note rot = rotateLocked_ok [OF run b ne]
  show l': "l' = l\<lparr>elSize := 0\<rparr>" by (rule rot)
  have "generations P w' (elPath l) cur []"
    using rot(1,2) ne file_bytesD [OF rot(2)] by (auto simp: generations_def)
  then show "log_ok P w' l' (lost @ old) cur []"
    using o unfolding log_ok_def Let_def by (simp add: l' fits_def del: upt_Suc)
qed

lemma generations_same:
  assumes "lookup w2 = lookup w"
  shows "generations P w2 p old cur = generations P w p old cur"
proof -
  have "file_bytes w2 = file_bytes w" using assms by (simp add: file_bytes_def fun_eq_iff)
  then show ?thesis unfolding generations_def assms by (simp only:)
qed

lemma log_ok_generations: "log_ok P w l lost old cur \<Longrightarrow> generations P w (elPath l) old cur"
  by (simp add: log_ok_def Let_def)

lemma log_ok_path: "log_ok P w l lost old cur \<Longrightarrow> elPath l \<noteq> []"
  by (simp add: log_ok_def Let_def generations_def)

lemma Emit_log_ok:
  assumes run: "Emit P E k d (w, l) = (Inr u, w', l')" and ok: "log_ok P w l lost old cur" and kind: "kind_ok P n (k, d)"
    and n: "length (lost @ old @ cur) < n" and small: "int n < 2 ^ 63"
  shows "\<exists>ev lost' old' cur'. (evKind ev, evDetail ev) = (k, d) \<and> lost' @ old' @ cur' = lost @ old @ cur @ [ev] \<and> cur' \<noteq> []
     \<and> log_ok P w' l' lost' old' cur' \<and> elHooks l' = elHooks l \<and> elCalls l' = elCalls l @ map (\<lambda>i. (i, ev)) [0..<elHooks l]"
proof (cases "elMaxBytes l \<le> elSize l")
  case True
  then obtain w1 l1 where rot: "rotateLocked E (w, l) = (Inr (), w1, l1)" and app: "appendEvent P E k d (w1, l1) = (Inr u, w', l')"
    using Emit_cases(2) [OF run] by auto
  note r = rotate_log_ok [OF rot ok]
  have "elSize l1 < elMaxBytes l1" using r ok by (simp add: log_ok_def Let_def)
  then obtain now where "let ev = nextEvent P k d (int (length ((lost @ old) @ cur @ [])) + 1) now in
     log_ok P w' l' (lost @ old) cur ([] @ [ev]) \<and> elPath l' = elPath l1 \<and> elHooks l' = elHooks l1
       \<and> elCalls l' = elCalls l1 @ map (\<lambda>i. (i, ev)) [0..<elHooks l1]"
    using appendEvent_log_ok [OF app r(1) kind] n small by fastforce
  then show ?thesis using r(2)
    by (intro exI [of _ "nextEvent P k d (int (length ((lost @ old) @ cur @ [])) + 1) now"] exI [of _ "lost @ old"] exI [of _ cur] exI)
      (auto simp: Let_def nextEvent_def)
next
  case False
  then have app: "appendEvent P E k d (w, l) = (Inr u, w', l')" using Emit_cases(2) [OF run] by simp
  obtain now where "let ev = nextEvent P k d (int (length (lost @ old @ cur)) + 1) now in
     log_ok P w' l' lost old (cur @ [ev]) \<and> elPath l' = elPath l \<and> elHooks l' = elHooks l
       \<and> elCalls l' = elCalls l @ map (\<lambda>i. (i, ev)) [0..<elHooks l]"
    using appendEvent_log_ok [OF app ok kind n] False n small by fastforce
  then show ?thesis
    by (intro exI [of _ "nextEvent P k d (int (length (lost @ old @ cur)) + 1) now"] exI [of _ lost] exI [of _ old] exI)
      (auto simp: Let_def nextEvent_def)
qed

lemma log_ok_bounded:
  assumes "log_ok P w l lost old cur"
  shows "int (length (logText P old)) < elMaxBytes l + int maxLine" "int (length (logText P cur)) < elMaxBytes l + int maxLine"
proof -
  have bound: "int (length (logText P evs)) < elMaxBytes l + int maxLine" if "fits P (elMaxBytes l) evs" "list_all (event_ok P) evs" "0 < elMaxBytes l" for evs
  proof (cases evs rule: rev_cases)
    case Nil
    then show ?thesis using that(3) by simp
  next
    case (snoc es ev)
    then show ?thesis using that(1,2) event_okD(4) [of P ev] by (simp add: fits_def)
  qed
  show "int (length (logText P old)) < elMaxBytes l + int maxLine" "int (length (logText P cur)) < elMaxBytes l + int maxLine"
    using assms by (auto simp: log_ok_def Let_def intro!: bound)
qed

lemma emits_log_ok:
  assumes "forM kds (\<lambda>(k, d). Emit P E k d) (w, l) = (Inr u, w', l')" and "log_ok P w l lost old cur" and "list_all (kind_ok P n) kds"
    and "length (lost @ old @ cur) + length kds \<le> n" and "int n < 2 ^ 63"
  shows "\<exists>new lost' old' cur'. map (\<lambda>ev. (evKind ev, evDetail ev)) new = kds \<and> lost' @ old' @ cur' = (lost @ old @ cur) @ new
     \<and> (kds \<noteq> [] \<longrightarrow> cur' \<noteq> []) \<and> log_ok P w' l' lost' old' cur' \<and> elHooks l' = elHooks l
     \<and> elCalls l' = elCalls l @ concat (map (\<lambda>ev. map (\<lambda>i. (i, ev)) [0..<elHooks l]) new)"
  using assms
proof (induction kds arbitrary: w l lost old cur)
  case Nil
  then show ?case by (intro exI [of _ "[]"] exI [of _ lost] exI [of _ old] exI [of _ cur]) simp
next
  case (Cons kd kds)
  obtain k d where kd: "kd = (k, d)" by (cases kd)
  obtain w1 l1 where e: "Emit P E k d (w, l) = (Inr (), w1, l1)" and rest: "forM kds (\<lambda>(k, d). Emit P E k d) (w1, l1) = (Inr u, w', l')"
    using Cons.prems(1) kd by (fastforce elim: bindM_okE)
  obtain ev lost1 old1 cur1 where one: "(evKind ev, evDetail ev) = (k, d)" "lost1 @ old1 @ cur1 = lost @ old @ cur @ [ev]" "cur1 \<noteq> []"
     "log_ok P w1 l1 lost1 old1 cur1" "elHooks l1 = elHooks l" "elCalls l1 = elCalls l @ map (\<lambda>i. (i, ev)) [0..<elHooks l]"
    using Emit_log_ok [OF e Cons.prems(2)] Cons.prems(3-5) kd by fastforce
  have "length (lost1 @ old1 @ cur1) + length kds \<le> n" unfolding one(2) using Cons.prems(4) by simp
  then obtain new lost' old' cur' where many: "map (\<lambda>ev. (evKind ev, evDetail ev)) new = kds" "lost' @ old' @ cur' = (lost1 @ old1 @ cur1) @ new"
     "kds \<noteq> [] \<longrightarrow> cur' \<noteq> []" "log_ok P w' l' lost' old' cur'" "elHooks l' = elHooks l1"
     "elCalls l' = elCalls l1 @ concat (map (\<lambda>ev. map (\<lambda>i. (i, ev)) [0..<elHooks l1]) new)"
    using Cons.IH [OF rest one(4)] Cons.prems(3,5) by auto
  show ?case
  proof (cases "kds = []")
    case True
    then have "w' = w1" "l' = l1" using rest by simp_all
    then show ?thesis using one kd True
      by (intro exI [of _ "[ev]"] exI [of _ lost1] exI [of _ old1] exI [of _ cur1]) simp
  next
    case False
    then show ?thesis using one many kd
      by (intro exI [of _ "ev # new"] exI [of _ lost'] exI [of _ old'] exI [of _ cur']) simp
  qed
qed

section \<open>Restart\<close>

lemma seqOf_map:
  assumes "list_all (event_ok P) evs" and "sorted (map evSeq evs)"
  shows "seqOf P (map (jsonEvent P) evs @ [[]]) n = (if evs = [] then n else max n (evSeq (last evs)))"
  using assms
proof (induction evs arbitrary: n)
  case (Cons ev evs)
  have "evSeq ev \<le> evSeq (last evs)" if "evs \<noteq> []" using Cons.prems(2) last_in_set [OF that] by auto
  then have "n \<le> evSeq (last evs)" if "evs \<noteq> []" "n < evSeq ev" using that by force
  then show ?case using Cons event_okD(1,2) [of P ev] by (auto simp: max_def)
qed simp

lemma seqOf_drop:
  assumes "list_all (event_ok P) evs" and "sorted (map evSeq evs)" and "evs \<noteq> []"
    and "k + length (jsonEvent P (last evs)) < length (logText P evs)" and "list_all (\<lambda>ev. n \<le> evSeq ev) evs"
  shows "seqOf P (splitOn newline (drop k (logText P evs))) n = evSeq (last evs)"
  using assms
proof (induction evs arbitrary: k)
  case (Cons ev evs)
  let ?b = "jsonEvent P ev"
  have ok: "event_ok P ev" using Cons.prems(1) by simp
  show ?case
  proof (cases "k \<le> length ?b")
    case True
    have pieces: "splitOn newline (drop k (logText P (ev # evs))) = drop k ?b # map (jsonEvent P) evs @ [[]]"
    proof -
      have "newline \<notin> set (drop k ?b)" using event_okD(3) [OF ok] by (meson in_set_dropD)
      moreover have "drop k (logText P (ev # evs)) = drop k ?b @ newline # logText P evs" using True by simp
      ultimately show ?thesis using splitOn_logText [of P evs] Cons.prems(1) by (simp add: splitOn_append)
    qed
    have last: "evSeq ev \<le> evSeq (last evs) \<and> n \<le> evSeq (last evs)" if "evs \<noteq> []"
      using Cons.prems(2,5) last_in_set [OF that] by (auto simp: list_all_iff)
    have rest: "seqOf P (map (jsonEvent P) evs @ [[]]) m = (if evs = [] then m else max m (evSeq (last evs)))" for m
      using seqOf_map [of P evs m] Cons.prems(1,2) by simp
    consider "k = 0" | "0 < k" "k < length ?b" | "k = length ?b" using True by linarith
    then show ?thesis
    proof cases
      case 1
      then show ?thesis unfolding pieces using event_okD(1,2) [OF ok] Cons.prems(5) last by (auto simp: rest max_def)
    next
      case 2
      obtain e where e: "jsonEventDec P (drop k ?b) = Inl e" using event_ok_torn [OF ok 2] by blast
      have "evs \<noteq> []" using Cons.prems(4) 2 by auto
      then show ?thesis unfolding pieces using e last by (simp add: rest max_def)
    next
      case 3
      have "evs \<noteq> []" using Cons.prems(4) 3 event_okD(2) [OF ok] by auto
      then show ?thesis unfolding pieces using 3 last by (simp add: rest max_def)
    qed
  next
    case False
    then obtain j where j: "k = Suc (length ?b) + j" by (metis less_iff_Suc_add not_le add_Suc)
    have ne: "evs \<noteq> []" using Cons.prems(4) j by auto
    have "drop k (logText P (ev # evs)) = drop j (logText P evs)" by (simp add: j)
    moreover have "seqOf P (splitOn newline (drop j (logText P evs))) n = evSeq (last evs)"
      by (rule Cons.IH) (use Cons.prems ne j in auto)
    ultimately show ?thesis using ne by simp
  qed
qed simp

lemma mkdirAll_only: "steps (only_at (\<lambda>q. length q \<le> length cs)) (mkdirAll_rev E cs)"
proof (induction cs)
  case (Cons c cs)
  have "steps (only_at (\<lambda>q. length q \<le> length (c # cs))) (mkdirAll_rev E cs)" by (rule only_at_mono [OF Cons]) simp
  then show ?case
    by (auto intro!: frame.steps_rules steps_quiet steps_touch split: node.splits)
qed (simp add: frame.steps_ret)

lemma mkdirAll_files:
  assumes "mkdirAll_rev E (rev (butlast p)) w = (r, w')" and "p \<noteq> []"
  shows "lookup w' p = lookup w p" "lookup w' (rotatedPath p) = lookup w (rotatedPath p)"
proof -
  have "only_at (\<lambda>q. length q \<le> length (rev (butlast p))) w w'" using stepsD [OF mkdirAll_only assms(1)] .
  moreover have "length (rev (butlast p)) < length p" "length (rev (butlast p)) < length (rotatedPath p)"
    using assms(2) by (simp_all add: rotatedPath_def)
  ultimately show "lookup w' p = lookup w p" "lookup w' (rotatedPath p) = lookup w (rotatedPath p)"
    by (auto simp: only_at_def)
qed

lemma lastSeq_ok:
  assumes "lastSeq P E p w = (Inr s, w')" and "file_bytes w p = Some b"
  shows "s = seqOf P (splitOn newline (drop (length b - tailBytes) b)) 0" "lookup w' = lookup w"
  using assms file_bytesD [OF assms(2)]
  by (auto simp: lastSeq_def fileOp_def bindM_run attemptM_run osStat_def prim_def guardM_def Let_def fun_eq_iff split: if_splits)

lemma openCreate_exists: "osOpenCreate E p m w = (Inr u, w') \<Longrightarrow> file_bytes w p = Some b \<Longrightarrow> lookup w' = lookup w"
  by (auto simp: osOpenCreate_def prim_def Let_def file_bytes_def fun_eq_iff split: if_splits option.splits node.splits)

lemma OpenEventLog_cases:
  assumes run: "OpenEventLog P E p mx w = (Inr l, w')" and b: "file_bytes w p = Some b" and ne: "p \<noteq> []" and mx: "0 < mx"
  shows "\<exists>w1 l1. file_bytes w1 p = Some b \<and> lookup w1 (rotatedPath p) = lookup w (rotatedPath p)
     \<and> l1 = \<lparr>elPath = p, elMaxBytes = mx, elOpen = True, elSize = int (length b),
           elSeq = seqOf P (splitOn newline (drop (length b - tailBytes) b)) 0, elClosed = False, elHooks = 0, elCalls = []\<rparr>
     \<and> (if mx \<le> int (length b) then rotateLocked E (w1, l1) = (Inr (), w', l) else w' = w1 \<and> l = l1)"
proof -
  obtain r w1 where mk: "mkdirAll_rev E (rev (butlast p)) w = (r, w1)" by (rule prod.exhaust)
  obtain x w2 where op: "osOpenCreate E p 416 w1 = (x, w2)" by (rule prod.exhaust)
  obtain y w3 where st: "osStat E p w2 = (y, w3)" by (rule prod.exhaust)
  obtain z w4 where sq: "lastSeq P E p w3 = (z, w4)" by (rule prod.exhaust)
  note at = OpenEventLog_def Let_def bindM_def attemptM_def sm_run
  have r: "r = Inr ()" using run mk by (cases r) (simp_all add: at)
  have x: "x = Inr ()" using run mk r op by (cases x) (simp_all add: at)
  have k1: "lookup w1 p = lookup w p" "lookup w1 (rotatedPath p) = lookup w (rotatedPath p)" using mkdirAll_files [OF mk ne] by simp_all
  then have b1: "file_bytes w1 p = Some b" using b by (simp add: file_bytes_def)
  have k2: "lookup w2 = lookup w1" using openCreate_exists [OF op [unfolded x] b1] .
  obtain m where m: "lookup w2 p = Some (FileN b m)" using file_bytesD [OF b1] k2 by auto
  have y: "y = Inr (FileN b m)" and k3: "lookup w3 = lookup w2"
    using st m run mk r op x by (auto simp: at osStat_def prim_def fun_eq_iff split: if_splits prod.splits)
  obtain s where z: "z = Inr s" using run mk r op x st y sq by (cases z) (simp_all add: at split: prod.splits sum.splits)
  have b3: "file_bytes w3 p = Some b" using b1 k2 k3 by (simp add: file_bytes_def)
  note ls = lastSeq_ok [OF sq [unfolded z] b3]
  let ?l = "\<lparr>elPath = p, elMaxBytes = mx, elOpen = True, elSize = int (length b), elSeq = s, elClosed = False, elHooks = 0, elCalls = []\<rparr>"
  obtain v w5 l5 where rot: "rotateLocked E (w4, ?l) = (v, w5, l5)" by (rule prod_cases3)
  have "if mx \<le> int (length b) then rotateLocked E (w4, ?l) = (Inr (), w', l) else w' = w4 \<and> l = ?l"
    using run mk r op x st y sq z mx rot by (cases v) (auto simp: at split: if_splits prod.splits)
  moreover have "file_bytes w4 p = Some b" using b3 ls(2) by (simp add: file_bytes_def)
  moreover have "lookup w4 (rotatedPath p) = lookup w (rotatedPath p)" using ls(2) k1 k2 k3 by simp
  ultimately show ?thesis using ls(1) by (intro exI [of _ w4] exI [of _ ?l]) simp
qed

text \<open>A failing rotation. When the file has been closed and the rename or the new file fails, the log stays without a handle and
  with the old size: every later append fails the same way.\<close>

lemma failed_rotation_is_final:
  assumes "\<not> elOpen l" and "elMaxBytes l \<le> elSize l"
  shows "\<exists>e. Emit P E k d (w, l) = (Inl e, w, l)"
  using assms by (cases "elClosed l") (simp_all add: Emit_def rotateLocked_def closeHandle_def bindM_def getS_def attemptM_def sm_run)

lemma rotation_without_rename:
  assumes "io_fails E (Suc (tick w))" and "\<not> io_fails E (tick w)" and "elOpen l" and "\<not> elClosed l" and "elMaxBytes l \<le> elSize l"
  shows "\<exists>e w' l'. Emit P E k d (w, l) = (Inl e, w', l') \<and> \<not> elOpen l' \<and> elMaxBytes l' \<le> elSize l'"
  using assms
  by (simp add: Emit_def rotateLocked_def closeHandle_def fClose_def osRename_def prim_def bindM_def getS_def modS_def onFst_def
      attemptM_def guardM_def sm_run Let_def)

text \<open>Right after a rotation the current generation is empty, and a restart starts numbering from one again.\<close>

lemma restart_after_rotation:
  assumes "OpenEventLog P E p mx w = (Inr l, w')" and "file_bytes w p = Some []" and "p \<noteq> []" and "0 < mx"
  shows "elSeq l = 0"
  using OpenEventLog_cases [OF assms] assms(4) by auto

section \<open>Properties\<close>


text \<open>C25. Restart. A log opened again on the files of one that appended without failure, in its current generation at least one
  event whose line fits the 64 KiB looked at, continues it: the same events are held, whether or not opening rotates,
  and numbering goes on with the next number.\<close>

theorem OpenEventLog_resumes:
  assumes ok: "log_ok P w l lost old cur" and ne: "cur \<noteq> []" and short: "length (jsonEvent P (last cur)) < tailBytes"
    and same: "lookup w2 = lookup w" and run: "OpenEventLog P E (elPath l) (elMaxBytes l) w2 = (Inr l', w')"
  shows "elSeq l' = elSeq l \<and> (\<exists>lost' old' cur'. lost' @ old' @ cur' = lost @ old @ cur \<and> log_ok P w' l' lost' old' cur')"
proof -
  let ?p = "elPath l" and ?text = "logText P cur"
  have seqs: "map evSeq (lost @ old @ cur) = map int [1..<Suc (length (lost @ old @ cur))]" "elSeq l = int (length (lost @ old @ cur))"
    and pos: "0 < elMaxBytes l" using ok unfolding log_ok_def Let_def by blast+
  have "generations P w2 ?p old cur" using log_ok_generations [OF ok] by (simp only: generations_same [OF same])
  then have p: "?p \<noteq> []" and b: "file_bytes w2 ?p = Some ?text" by (simp_all add: generations_def)
  have num: "numbered P cur" using numbered_suffix [OF log_ok_numbered [OF ok]] .
  obtain es ev where cur: "cur = es @ [ev]" using ne by (cases cur rule: rev_cases) auto
  have "evSeq (last cur) = map evSeq (lost @ old @ cur) ! (length (lost @ old @ cur) - 1)" by (simp add: cur nth_append)
  also have "\<dots> = elSeq l" unfolding seqs by (simp add: cur del: upt_Suc)
  finally have last: "evSeq (last cur) = elSeq l" .
  have sq: "seqOf P (splitOn newline (drop (length ?text - tailBytes) ?text)) 0 = elSeq l"
    unfolding last [symmetric]
    by (rule seqOf_drop) (use num ne short in \<open>auto simp: numbered_def cur list_all_iff less_imp_le\<close>)
  from OpenEventLog_cases [OF run b p pos, unfolded sq same] obtain w1 l1 where w1: "file_bytes w1 ?p = Some ?text" "lookup w1 (rotatedPath ?p) = lookup w (rotatedPath ?p)"
     and l1: "l1 = \<lparr>elPath = ?p, elMaxBytes = elMaxBytes l, elOpen = True, elSize = int (length ?text), elSeq = elSeq l,
           elClosed = False, elHooks = 0, elCalls = []\<rparr>"
     and fin: "if elMaxBytes l \<le> int (length ?text) then rotateLocked E (w1, l1) = (Inr (), w', l') else w' = w1 \<and> l' = l1"
    by blast
  have "file_bytes w1 (rotatedPath ?p) = file_bytes w (rotatedPath ?p)" using w1(2) by (simp add: file_bytes_def)
  then have "generations P w1 ?p old cur" using log_ok_generations [OF ok] w1 by (simp add: generations_def split: option.splits)
  then have ok1: "log_ok P w1 l1 lost old cur" using ok unfolding log_ok_def Let_def by (simp add: l1 del: upt_Suc)
  show ?thesis
  proof (cases "elMaxBytes l \<le> int (length ?text)")
    case True
    then have "rotateLocked E (w1, l1) = (Inr (), w', l')" using fin by simp
    note rot = rotate_log_ok [OF this ok1]
    have "elSeq l' = elSeq l" using rot(2) by (simp add: l1)
    moreover have "(lost @ old) @ cur @ [] = lost @ old @ cur" by simp
    ultimately show ?thesis using rot(1) by blast
  next
    case False
    then have "w' = w1" "l' = l1" using fin by simp_all
    moreover have "elSeq l1 = elSeq l" by (simp add: l1)
    ultimately show ?thesis using ok1 by blast
  qed
qed

section \<open>Witnesses\<close>

text \<open>Three bytes of text per event, the middle one its number; times are left out.\<close>

definition demo_log_prims :: log_prims where
  "demo_log_prims = agent_prims.extend demo_agent_prims (log_prims.fields (\<lambda>ev. [123, 64 + word_of_int (evSeq ev), 125])
     (\<lambda>b. if length b = 3 then Inr \<lparr>evSeq = uint (b ! 1) - 64, evTime = [], evKind = ''k'', evDetail = ''d''\<rparr> else Inl IOError)
     (\<lambda>_. []))"

lemma demo_log_sel:
  "jsonEvent demo_log_prims ev = [123, 64 + word_of_int (evSeq ev), 125]"
  "jsonEventDec demo_log_prims b = (if length b = 3 then Inr \<lparr>evSeq = uint (b ! 1) - 64, evTime = [], evKind = ''k'', evDetail = ''d''\<rparr> else Inl IOError)"
  "formatNano demo_log_prims n = []"
  by (simp_all add: demo_log_prims_def agent_prims.defs log_prims.defs)

definition demo_event :: "int \<Rightarrow> log_event" where
  "demo_event s = \<lparr>evSeq = s, evTime = [], evKind = ''k'', evDetail = ''d''\<rparr>"

lemma demo_kind_ok: "kind_ok demo_log_prims 2 (''k'', ''d'')"
proof -
  have "event_ok demo_log_prims (nextEvent demo_log_prims ''k'' ''d'' s now)" if "s = 1 \<or> s = 2" for s now
    using that by (auto simp: event_ok_def demo_log_sel nextEvent_def newline_def byteSpace_def maxLine_def Let_def upt_rec)
  moreover have "s = 1 \<or> s = 2" if "0 < s" "s \<le> int 2" for s using that by auto
  ultimately show ?thesis unfolding kind_ok_def by simp
qed

text \<open>A log with room for one event per generation, and one event in it.\<close>

definition demo_log :: event_log where
  "demo_log = \<lparr>elPath = [''events''], elMaxBytes = 4, elOpen = True, elSize = 4, elSeq = 1, elClosed = False, elHooks = 2, elCalls = []\<rparr>"

definition demo_log_world :: world where
  "demo_log_world = empty_world\<lparr>files := [([''events''], FileN [123, 65, 125, 10] 416)]\<rparr>"

lemma demo_log_ok: "log_ok demo_log_prims demo_log_world demo_log [] [] [demo_event 1]"
proof -
  have "event_ok demo_log_prims (demo_event 1)" using demo_kind_ok by (simp add: kind_ok_def nextEvent_def demo_log_sel demo_event_def)
  then show ?thesis
    by (simp add: log_ok_def generations_def demo_log_world_def demo_log_def file_bytes_def lookup_def empty_world_def rotatedPath_def
        demo_log_sel demo_event_def newline_def fits_def)
qed

lemmas demo_log_defs = demo_log_world_def demo_log_def empty_world_def env_fail_at_def lookup_def put_node_def del_node_def
  bindM_def getS_def modS_def onFst_def attemptM_def guardM_def sm_run prim_def Let_def osStat_def fSync_def fClose_def SyncDir_def


theorem OpenEventLog_resumes_witness:
  "\<exists>l' w'. OpenEventLog demo_log_prims (env_fail_at 99) [''events''] 4 demo_log_world = (Inr l', w') \<and> elSeq l' = 1"
proof -
  let ?open = "OpenEventLog demo_log_prims (env_fail_at 99) (elPath demo_log) (elMaxBytes demo_log) demo_log_world"
  have "\<exists>l'. fst ?open = Inr l'"
    by (simp add: OpenEventLog_def lastSeq_def fileOp_def osOpenCreate_def rotateLocked_def closeHandle_def osRename_def osOpenTrunc_def
        rotatedPath_def tailBytes_def newline_def demo_log_sel demo_log_defs)
  then obtain l' w' where run: "?open = (Inr l', w')" by (cases ?open) auto
  have "elSeq l' = elSeq demo_log"
    using OpenEventLog_resumes [OF demo_log_ok _ _ refl run] by (simp add: demo_log_sel tailBytes_def)
  then show ?thesis using run by (simp add: demo_log_def)
qed

end
