(* ===== verification/Fixtures.thy ===== *)
theory Fixtures
  imports DockerLoad
begin

text \<open>
  The generator of test images, \<open>src/internal/lab/fixtures.go\<close>: a reproducible stream of bytes, layers cut from it with a
  patched window and an insertion, and the archives of four images that share a layer. \<open>archive/tar\<close> writes through the
  file: the header bytes are an argument of the model, sizes, padding and the end of the archive are written out.
\<close>

section \<open>The stream\<close>

definition golden :: u64 where "golden = 0x9e3779b97f4a7c15"

definition mix64 :: "u64 \<Rightarrow> u64" where
  "mix64 x = (let z1 = (x XOR drop_bit 30 x) * 0xbf58476d1ce4e5b9; z2 = (z1 XOR drop_bit 27 z1) * 0x94d049bb133111eb
     in z2 XOR drop_bit 31 z2)"

text \<open>\<open>binary.LittleEndian.PutUint64\<close>.\<close>

definition putUint64LE :: "u64 \<Rightarrow> bytes" where
  "putUint64LE z = map (\<lambda>i. ucast (drop_bit (8 * i) z)) [0..<8]"

text \<open>\<open>Read\<close> fills a buffer of the given length; what a last word has beyond it is lost.\<close>

function rngRead :: "u64 \<Rightarrow> nat \<Rightarrow> bytes \<times> u64" where
  "rngRead x n = (if n = 0 then ([], x)
     else (let x' = x + golden; v = putUint64LE (mix64 x'); k = min 8 n; (rest, y) = rngRead x' (n - k) in (take k v @ rest, y)))"
  by pat_completeness auto
termination by (relation "measure snd") auto

declare rngRead.simps [simp del]

text \<open>The bytes of the buffer at the given offset of the layer which lie in the patched window.\<close>

fun patchBuf :: "int \<Rightarrow> int \<Rightarrow> int \<Rightarrow> bytes \<Rightarrow> bytes" where
  "patchBuf off start patch [] = []"
| "patchBuf off start patch (b # bs) =
     (if off \<ge> start \<and> off < start + patch then b XOR 0x5a else b) # patchBuf (off + 1) start patch bs"

section \<open>Tar archives\<close>

record layer_info =
  liSHA256 :: string
  liRawBytes :: int
  liGzipBytes :: int

record fixture_info =
  fiFile :: path
  fiTag :: string
  fiImageID :: string
  fiLayers :: "layer_info list"
  fiArtifactBytes :: int
  fiChanged :: int

record fixture_prims = prims +
  tarHdr :: "string \<Rightarrow> int \<Rightarrow> bytes result"
  gzipDefault :: "bytes \<Rightarrow> bytes"
  jsonImageConfig :: "string list \<Rightarrow> bytes"
  jsonSaveManifest :: "string \<Rightarrow> string \<Rightarrow> string list \<Rightarrow> bytes"
  jsonFixtures :: "(string \<times> fixture_info) list \<Rightarrow> bytes"

record tar_writer =
  twFile :: path
  twLeft :: int
  twPad :: int

definition tarNewWriter :: "path \<Rightarrow> tar_writer" where
  "tarNewWriter p = \<lparr>twFile = p, twLeft = 0, twPad = 0\<rparr>"

definition zeros :: "int \<Rightarrow> bytes" where
  "zeros n = replicate (nat n) 0"

definition twFlush :: "env \<Rightarrow> tar_writer \<Rightarrow> tar_writer io" where
  "twFlush E tw =
     bindM (guardM (\<not> twLeft tw > 0) (Msg ''archive/tar: missed writing'')) (\<lambda>_.
     bindM (fWrite E (twFile tw) (zeros (twPad tw))) (\<lambda>_. ret (tw\<lparr>twPad := 0\<rparr>)))"

definition twWriteHeader :: "'x fixture_prims_scheme \<Rightarrow> env \<Rightarrow> tar_writer \<Rightarrow> string \<Rightarrow> int \<Rightarrow> tar_writer io" where
  "twWriteHeader P E tw name sz =
     bindM (twFlush E tw) (\<lambda>tw1.
     bindM (liftR (tarHdr P name sz)) (\<lambda>h.
     bindM (fWrite E (twFile tw1) h) (\<lambda>_. ret (tw1\<lparr>twLeft := sz, twPad := (- sz) mod 512\<rparr>))))"

definition twWrite :: "env \<Rightarrow> tar_writer \<Rightarrow> bytes \<Rightarrow> tar_writer io" where
  "twWrite E tw b =
     (let over = int (length b) > twLeft tw; b' = (if over then take (nat (twLeft tw)) b else b) in
      bindM (if b' \<noteq> [] then fWrite E (twFile tw) b' else ret ()) (\<lambda>_.
      if over then throw (Msg ''archive/tar: write too long'') else ret (tw\<lparr>twLeft := twLeft tw - int (length b')\<rparr>)))"

definition twClose :: "env \<Rightarrow> tar_writer \<Rightarrow> unit io" where
  "twClose E tw = bindM (twFlush E tw) (\<lambda>tw1.
     bindM (fWrite E (twFile tw1) (zeros 512)) (\<lambda>_. fWrite E (twFile tw1) (zeros 512)))"

section \<open>Layers\<close>

text \<open>The loop over buffers of 64 KiB. A slice expression out of range would panic; it is an error of its own.\<close>

function layerLoop :: "env \<Rightarrow> int \<Rightarrow> int \<Rightarrow> int \<Rightarrow> u64 \<Rightarrow> int \<Rightarrow> bool \<Rightarrow> tar_writer \<Rightarrow> tar_writer io" where
  "layerLoop E sz patch ins rng offset inserted tw =
     (if offset < sz then
       (let n = (if sz - offset < 65536 then sz - offset else 65536);
            (raw, rng') = rngRead rng (nat n);
            start = sz div 2;
            buf = patchBuf offset start patch raw in
        bindM (if \<not> inserted \<and> ins > 0 \<and> offset + n \<ge> start then
                 (let split = start - offset in
                  bindM (guardM (0 \<le> split \<and> split \<le> n) (Msg ''panic: slice bounds out of range'')) (\<lambda>_.
                  bindM (twWrite E tw (take (nat split) buf)) (\<lambda>tw1.
                  bindM (twWrite E tw1 (fst (rngRead 789 (nat ins)))) (\<lambda>tw2.
                  bindM (twWrite E tw2 (drop (nat split) buf)) (\<lambda>tw3. ret (tw3, True))))))
               else bindM (twWrite E tw buf) (\<lambda>tw1. ret (tw1, inserted))) (\<lambda>(tw', inserted').
        layerLoop E sz patch ins rng' (offset + n) inserted' tw'))
      else ret tw)"
  by pat_completeness auto
termination by (relation "measure (\<lambda>(E, sz, patch, ins, rng, offset, inserted, tw). nat (sz - offset))") auto

declare layerLoop.simps [simp del]

definition writeFixtureLayer :: "'x fixture_prims_scheme \<Rightarrow> env \<Rightarrow> path \<Rightarrow> string \<Rightarrow> int \<Rightarrow> u64 \<Rightarrow> int \<Rightarrow> int \<Rightarrow> unit io" where
  "writeFixtureLayer P E p name sz seed patch ins =
     bindM (osCreate E p) (\<lambda>_. deferM (fClose E p)
      (bindM (twWriteHeader P E (tarNewWriter p) name (sz + ins)) (\<lambda>tw.
       bindM (layerLoop E sz patch ins seed 0 False tw) (\<lambda>tw'.
       bindM (twClose E tw') (\<lambda>_. fClose E p)))))"

text \<open>\<open>countWriter\<close> behind a compressor counts the compressed bytes.\<close>

definition countWrite :: "int \<Rightarrow> bytes \<Rightarrow> int" where
  "countWrite n b = n + int (length b)"

definition layerInfo :: "'x fixture_prims_scheme \<Rightarrow> env \<Rightarrow> path \<Rightarrow> layer_info io" where
  "layerInfo P E p =
     bindM (FileHash E p) (\<lambda>(h, n, e). case e of Some err \<Rightarrow> throw err | None \<Rightarrow>
     bindM (openRead E p) (\<lambda>(b, e'). case e' of Some err \<Rightarrow> throw err | None \<Rightarrow>
     ret \<lparr>liSHA256 = h, liRawBytes = n, liGzipBytes = countWrite 0 (gzipDefault P b)\<rparr>))"

section \<open>Images\<close>

text \<open>Reading an open file: the bytes up to the error, if there is one. The size of a directory is not modelled.\<close>

definition readRest :: "env \<Rightarrow> node \<Rightarrow> (bytes \<times> error option) io" where
  "readRest E n w = (let w' = w\<lparr>tick := Suc (tick w)\<rparr> in case n of
       DirN \<Rightarrow> (Inr ([], Some IOError), w')
     | FileN b _ \<Rightarrow> if io_fails E (tick w) then (Inr (take (short_write E (tick w)) b, Some IOError), w') else (Inr (b, None), w'))"

fun nodeSize :: "node \<Rightarrow> int" where
  "nodeSize (FileN b m) = int (length b)"
| "nodeSize DirN = 0"

definition tarFile :: "'x fixture_prims_scheme \<Rightarrow> env \<Rightarrow> tar_writer \<Rightarrow> string \<Rightarrow> path \<Rightarrow> tar_writer io" where
  "tarFile P E tw name p =
     bindM (osStat E p) (\<lambda>f.
     bindM (osStat E p) (\<lambda>s.
     bindM (twWriteHeader P E tw name (nodeSize s)) (\<lambda>tw1.
     bindM (readRest E f) (\<lambda>(b, e).
     bindM (twWrite E tw1 b) (\<lambda>tw2. case e of Some err \<Rightarrow> throw err | None \<Rightarrow> ret tw2)))))"

definition tarBytes :: "'x fixture_prims_scheme \<Rightarrow> env \<Rightarrow> tar_writer \<Rightarrow> string \<Rightarrow> bytes \<Rightarrow> tar_writer io" where
  "tarBytes P E tw name b = bindM (twWriteHeader P E tw name (int (length b))) (\<lambda>tw1. twWrite E tw1 b)"

fun layerInfos :: "'x fixture_prims_scheme \<Rightarrow> env \<Rightarrow> path list \<Rightarrow> layer_info list io" where
  "layerInfos P E [] = ret []"
| "layerInfos P E (p # ps) = bindM (layerInfo P E p) (\<lambda>i. bindM (layerInfos P E ps) (\<lambda>is. ret (i # is)))"

fun tarLayers :: "'x fixture_prims_scheme \<Rightarrow> env \<Rightarrow> tar_writer \<Rightarrow> (string \<times> path) list \<Rightarrow> tar_writer io" where
  "tarLayers P E tw [] = ret tw"
| "tarLayers P E tw ((name, p) # ps) = bindM (tarFile P E tw name p) (\<lambda>tw1. tarLayers P E tw1 ps)"

definition layerName :: "layer_info \<Rightarrow> string" where
  "layerName i = liSHA256 i @ ''/layer.tar''"

definition makeFixtureArchive :: "'x fixture_prims_scheme \<Rightarrow> env \<Rightarrow> path \<Rightarrow> string \<Rightarrow> path list \<Rightarrow> fixture_info io" where
  "makeFixtureArchive P E out tag layers =
     bindM (layerInfos P E layers) (\<lambda>infos.
     let names = map layerName infos; c = jsonImageConfig P (map (\<lambda>i. ''sha256:'' @ liSHA256 i) infos); id' = Hash c;
         manifest = jsonSaveManifest P (id' @ ''.json'') tag names in
     bindM (osCreate E out) (\<lambda>_. deferM (fClose E out)
      (bindM (tarLayers P E (tarNewWriter out) (zip names layers)) (\<lambda>tw.
       bindM (tarBytes P E tw (id' @ ''.json'') c) (\<lambda>tw1.
       bindM (tarBytes P E tw1 ''manifest.json'' manifest) (\<lambda>tw2.
       bindM (twClose E tw2) (\<lambda>_.
       bindM (fClose E out) (\<lambda>_.
       bindM (osStat E out) (\<lambda>st.
       ret \<lparr>fiFile = out, fiTag = tag, fiImageID = ''sha256:'' @ id', fiLayers = infos, fiArtifactBytes = nodeSize st, fiChanged = 0\<rparr>)))))))))"

text \<open>\<open>os.MkdirTemp\<close> below a directory.\<close>

definition osMkdirTempIn :: "env \<Rightarrow> path \<Rightarrow> string \<Rightarrow> path io" where
  "osMkdirTempIn E dir pre w = prim E (\<lambda>w'.
     let p = dir @ [pre @ temp_rand E (tick w)] in
     if lookup w' dir \<noteq> Some DirN then (Inl NotExist, w')
     else if lookup w' p \<noteq> None then (Inl ErrExist, w')
     else (Inr p, put_node p DirN w')) w"

record variant =
  vrName :: string
  vrSeed :: u64
  vrPatch :: int
  vrInsert :: int

definition fixtureVariants :: "int \<Rightarrow> variant list" where
  "fixtureVariants patch =
     [\<lparr>vrName = ''app-a-v1'', vrSeed = 2, vrPatch = 0, vrInsert = 0\<rparr>, \<lparr>vrName = ''app-b-v1'', vrSeed = 3, vrPatch = 0, vrInsert = 0\<rparr>,
      \<lparr>vrName = ''app-a-v2'', vrSeed = 2, vrPatch = patch, vrInsert = 0\<rparr>, \<lparr>vrName = ''app-a-v3'', vrSeed = 2, vrPatch = patch, vrInsert = 4096\<rparr>]"

definition tarName :: "variant \<Rightarrow> string" where
  "tarName v = vrName v @ ''.tar''"

fun fixtureImages :: "'x fixture_prims_scheme \<Rightarrow> env \<Rightarrow> path \<Rightarrow> path \<Rightarrow> int \<Rightarrow> variant list \<Rightarrow> (string \<times> fixture_info) list io" where
  "fixtureImages P E dir work appSize [] = ret []"
| "fixtureImages P E dir work appSize (v # vs) =
     bindM (writeFixtureLayer P E (work @ [tarName v]) ''app.blob'' appSize (vrSeed v) (vrPatch v) (vrInsert v)) (\<lambda>_.
     bindM (makeFixtureArchive P E (dir @ [tarName v]) (''edge-delta-lab/'' @ vrName v @ '':fixture'')
              [work @ [''base.tar''], work @ [tarName v]]) (\<lambda>info.
     bindM (fixtureImages P E dir work appSize vs) (\<lambda>rest.
     ret ((vrName v, info\<lparr>fiChanged := vrPatch v + vrInsert v\<rparr>) # rest))))"

text \<open>\<open>int64(patchKiB) << 10\<close> drops the bits beyond 64. The map that accompanies an error of the last write is not kept.\<close>

definition Fixtures :: "'x fixture_prims_scheme \<Rightarrow> env \<Rightarrow> path \<Rightarrow> int \<Rightarrow> int \<Rightarrow> (string \<times> fixture_info) list io" where
  "Fixtures P E dir sizeMiB patchKiB =
     bindM (guardM (\<not> (sizeMiB < 2 \<or> sizeMiB > 8192 \<or> patchKiB < 1)) (Msg ''size-mib must be 2..8192 and patch-kib positive'')) (\<lambda>_.
     bindM (EnsureDir E dir) (\<lambda>_.
     bindM (osMkdirTempIn E dir ''.layers-'') (\<lambda>work. deferM (osRemoveAll work)
      (let sz = sizeMiB * 2 ^ 20; baseSize = sz * 3 div 5; appSize = sz - baseSize; patch = wrap64 (patchKiB * 2 ^ 10) in
       bindM (guardM (\<not> patch > appSize div 4) (Msg ''patch too large for this fixture'')) (\<lambda>_.
       bindM (writeFixtureLayer P E (work @ [''base.tar'']) ''shared.blob'' baseSize 1 0 0) (\<lambda>_.
       bindM (fixtureImages P E dir work appSize (fixtureVariants patch)) (\<lambda>out.
       bindM (AtomicWrite E (dir @ [''fixture-info.json'']) (jsonFixtures P out) 420) (\<lambda>_. ret out))))))))"

end
