(* ===== verification/AdminServer.thy ===== *)
theory AdminServer
  imports EventLogProps Watcher "HOL-Library.AList"
begin

text \<open>
  The admin endpoint, \<open>src/internal/admin/server.go\<close>: one request per line of a connection, one answer per request;
  and the CSV form of answers, \<open>src/internal/admin/admin.go\<close>. A connection runs over the machine and the server.
\<close>

section \<open>Requests and answers\<close>

text \<open>The id is the JSON text the caller gave, if any; parameters are JSON text.\<close>

record admin_request =
  aqID :: "bytes option"
  aqMethod :: string
  aqParams :: bytes

record method_error =
  meCode :: string
  meMessage :: string

datatype 's answer =
    EmptyObject
  | Pong int
  | StatsAns 's
  | ClientsAns int "receipt list option"
  | ReceiptsAns "receipt list"
  | EventsAns "log_event list" int int
  | WatchAns "watch_status list"

record 's admin_response =
  arID :: "bytes option"
  arOk :: bool
  arResult :: "'s answer option"
  arError :: "method_error option"

text \<open>The live state of the process the server shows: its statistics and the watcher's status, if it has them. The event log
  is shared with the process, too.\<close>

record 's admin_server =
  adLog :: "event_log option"
  adStats :: "(world \<Rightarrow> 's) option"
  adWatch :: "(world \<Rightarrow> watch_status list) option"
  adClients :: int
  adStarted :: int

type_synonym ('s, 'a) ad = "(world \<times> 's admin_server, 'a) sm"

record admin_prims = log_prims +
  jsonAdminReq :: "bytes \<Rightarrow> admin_request result"
  jsonDirParam :: "bytes \<Rightarrow> string"
  jsonReceiptsDirParam :: "bytes \<Rightarrow> string"
  jsonEventsParams :: "bytes \<Rightarrow> (int \<times> int) result"
  adErrText :: "error \<Rightarrow> string"

definition NewServer :: "event_log option \<Rightarrow> (world \<Rightarrow> 's) option \<Rightarrow> (world \<Rightarrow> watch_status list) option \<Rightarrow> int \<Rightarrow> 's admin_server" where
  "NewServer l stats watch now = \<lparr>adLog = l, adStats = stats, adWatch = watch, adClients = 0, adStarted = now\<rparr>"

definition SortWatchStatus :: "watch_status list \<Rightarrow> watch_status list" where
  "SortWatchStatus es = sort_key (\<lambda>e. (wsRepo e, wsTag e)) es"

definition methodErr :: "string \<Rightarrow> string \<Rightarrow> 's answer option \<times> method_error option" where
  "methodErr code msg = (None, Some \<lparr>meCode = code, meMessage = msg\<rparr>)"

definition answered :: "'s answer \<Rightarrow> 's answer option \<times> method_error option" where
  "answered a = (Some a, None)"

section \<open>Receipts\<close>

fun readReceipts :: "'x admin_prims_scheme \<Rightarrow> env \<Rightarrow> path \<Rightarrow> (string \<times> bool) list \<Rightarrow> receipt list \<Rightarrow> receipt list io" where
  "readReceipts P E dir [] acc = ret acc"
| "readReceipts P E dir ((name, isDir) # rest) acc =
     (if isDir \<or> \<not> hasSuffix name ''.json'' then readReceipts P E dir rest acc
      else bindM (osReadFile E (dir @ [name])) (\<lambda>b.
        (case jsonReceiptDec P b of
           Inl _ \<Rightarrow> throw (Msg (''corrupt persisted receipt '' @ name))
         | Inr rc \<Rightarrow> (case validate P rc of
             Inl _ \<Rightarrow> throw (Msg (''corrupt persisted receipt '' @ name))
           | Inr _ \<Rightarrow> readReceipts P E dir rest (acc @ [rc])))))"

definition listReceipts :: "'x admin_prims_scheme \<Rightarrow> env \<Rightarrow> string \<Rightarrow> receipt list io" where
  "listReceipts P E dir = (if dir = [] then ret []
     else bindM (attemptM (readDirEntries E (pathOf dir))) (\<lambda>r. case r of
         Inl e \<Rightarrow> if e = NotExist then ret [] else throw e
       | Inr entries \<Rightarrow> readReceipts P E (pathOf dir) entries []))"

section \<open>Methods\<close>

text \<open>Whole seconds, towards zero; the rounding of \<open>float64\<close> for very long times is left out.\<close>

definition wholeSeconds :: "int \<Rightarrow> int" where
  "wholeSeconds d = (if d < 0 then - (- d div 1000000000) else d div 1000000000)"

definition handlePing :: "env \<Rightarrow> ('s, 's answer option \<times> method_error option) ad" where
  "handlePing E = bindM (onFst (timeNow E)) (\<lambda>now. bindM getS (\<lambda>s. ret (answered (Pong (wholeSeconds (now - adStarted s))))))"

definition handleStats :: "('s, 's answer option \<times> method_error option) ad" where
  "handleStats st = (Inr (answered (case adStats (snd st) of None \<Rightarrow> EmptyObject | Some f \<Rightarrow> StatsAns (f (fst st)))), st)"

definition handleWatch :: "('s, 's answer option \<times> method_error option) ad" where
  "handleWatch st = (Inr (answered (WatchAns (case adWatch (snd st) of None \<Rightarrow> [] | Some f \<Rightarrow> f (fst st)))), st)"

definition handleClients :: "'x admin_prims_scheme \<Rightarrow> env \<Rightarrow> bytes \<Rightarrow> ('s, 's answer option \<times> method_error option) ad" where
  "handleClients P E params =
     (let dir = (if params = [] then [] else jsonReceiptsDirParam P params) in
      bindM getS (\<lambda>s.
      if dir = [] then ret (answered (ClientsAns (adClients s) None))
      else bindM (onFst (attemptM (listReceipts P E dir))) (\<lambda>r. ret (case r of
          Inl e \<Rightarrow> methodErr ''receipts'' (adErrText P e)
        | Inr rs \<Rightarrow> answered (ClientsAns (adClients s) (Some rs))))))"

definition handleReceipts :: "'x admin_prims_scheme \<Rightarrow> env \<Rightarrow> bytes \<Rightarrow> ('s, 's answer option \<times> method_error option) ad" where
  "handleReceipts P E params =
     (let dir = (if params = [] then [] else jsonDirParam P params) in
      bindM (onFst (attemptM (listReceipts P E dir))) (\<lambda>r. ret (case r of
          Inl e \<Rightarrow> methodErr ''receipts'' (adErrText P e)
        | Inr rs \<Rightarrow> answered (ReceiptsAns rs))))"

text \<open>A query on the shared log changes the machine's clock only.\<close>

definition queryLog :: "'x admin_prims_scheme \<Rightarrow> env \<Rightarrow> event_log \<Rightarrow> int \<Rightarrow> int \<Rightarrow> (log_event list \<times> int \<times> error option) io" where
  "queryLog P E l after limit w = (case Query P E after limit (w, l) of (r, (w', _)) \<Rightarrow> (r, w'))"

definition latestOf :: "log_event list \<Rightarrow> int" where
  "latestOf evs = (if evs = [] then 0 else evSeq (last evs))"

definition handleEvents :: "'x admin_prims_scheme \<Rightarrow> env \<Rightarrow> bytes \<Rightarrow> ('s, 's answer option \<times> method_error option) ad" where
  "handleEvents P E params =
     (case (if params = [] then Inr (0, 0) else jsonEventsParams P params) of
        Inl e \<Rightarrow> ret (methodErr ''bad_params'' (adErrText P e))
      | Inr (after, limit) \<Rightarrow> bindM getS (\<lambda>s. case adLog s of
          None \<Rightarrow> ret (answered (EventsAns [] 0 0))
        | Some l \<Rightarrow> bindM (onFst (queryLog P E l after limit)) (\<lambda>(evs, oldest, err). ret (case err of
            Some e \<Rightarrow> methodErr ''events'' (adErrText P e)
          | None \<Rightarrow> answered (EventsAns evs oldest (latestOf evs))))))"

definition callMethod :: "'x admin_prims_scheme \<Rightarrow> env \<Rightarrow> string \<Rightarrow> bytes \<Rightarrow> ('s, 's answer option \<times> method_error option) ad option" where
  "callMethod P E name params =
     (if name = ''ping'' then Some (handlePing E)
      else if name = ''stats'' then Some handleStats
      else if name = ''clients'' then Some (handleClients P E params)
      else if name = ''receipts'' then Some (handleReceipts P E params)
      else if name = ''events'' then Some (handleEvents P E params)
      else if name = ''watch-status'' then Some handleWatch
      else None)"

section \<open>A connection\<close>

definition writeResp :: "bytes option \<Rightarrow> 's answer option \<Rightarrow> method_error option \<Rightarrow> 's admin_response" where
  "writeResp i result merr = \<lparr>arID = i, arOk = (merr = None),
     arResult = (if merr = None \<and> result = None then Some EmptyObject else result), arError = merr\<rparr>"

text \<open>The answer to one line, \<open>None\<close> when the context is done before the method is called.\<close>

definition answerLine :: "'x admin_prims_scheme \<Rightarrow> env \<Rightarrow> bytes \<Rightarrow> ('s, 's admin_response option) ad" where
  "answerLine P E line = (case jsonAdminReq P line of
       Inl e \<Rightarrow> ret (Some (writeResp None None (Some \<lparr>meCode = ''bad_request'', meMessage = ''malformed request: '' @ adErrText P e\<rparr>)))
     | Inr r \<Rightarrow>
         if aqMethod r = [] then ret (Some (writeResp None None (Some \<lparr>meCode = ''bad_request'', meMessage = ''malformed request: <nil>''\<rparr>)))
         else (case callMethod P E (aqMethod r) (aqParams r) of
             None \<Rightarrow> ret (Some (writeResp (aqID r) None (Some \<lparr>meCode = ''unknown_method'', meMessage = aqMethod r\<rparr>)))
           | Some m \<Rightarrow> bindM (onFst (attemptM (ctxErr E))) (\<lambda>c. case c of
               Inl _ \<Rightarrow> ret None
             | Inr _ \<Rightarrow> bindM m (\<lambda>(result, merr). ret (Some (writeResp (aqID r) result merr))))))"

fun serveLines :: "'x admin_prims_scheme \<Rightarrow> env \<Rightarrow> bytes list \<Rightarrow> ('s, 's admin_response list) ad" where
  "serveLines P E [] = ret []"
| "serveLines P E (line # ls) =
     bindM (onFst (attemptM (ctxErr E))) (\<lambda>c. case c of
       Inl _ \<Rightarrow> ret []
     | Inr _ \<Rightarrow>
         if line = [] then serveLines P E ls
         else bindM (answerLine P E line) (\<lambda>x. case x of
             None \<Rightarrow> ret []
           | Some rsp \<Rightarrow> bindM (serveLines P E ls) (\<lambda>rest. ret (rsp # rest))))"

definition handleConn :: "'x admin_prims_scheme \<Rightarrow> env \<Rightarrow> bytes \<Rightarrow> ('s, 's admin_response list) ad" where
  "handleConn P E input =
     bindM (modS (\<lambda>s. s\<lparr>adClients := adClients s + 1\<rparr>)) (\<lambda>_.
     deferM (modS (\<lambda>s. s\<lparr>adClients := adClients s - 1\<rparr>))
       (serveLines P E (fst (scanLines (fileLines input)))))"

section \<open>Answers are observations\<close>

text \<open>Nothing but the clock of the machine moves, and the server is as it was.\<close>

definition observes :: "world \<times> 's admin_server \<Rightarrow> world \<times> 's admin_server \<Rightarrow> bool" where
  "observes st st' \<longleftrightarrow> (\<exists>n. fst st' = (fst st)\<lparr>tick := n\<rparr>) \<and> snd st' = snd st"

definition ticks :: "world \<Rightarrow> world \<Rightarrow> bool" where
  "ticks w w' \<longleftrightarrow> (\<exists>n. w' = w\<lparr>tick := n\<rparr>)"

lemma world_tick: "\<exists>n. (w::world) = w\<lparr>tick := n\<rparr>"
  by (rule exI [of _ "tick w"]) simp

interpretation ticking: effect_order ticks
proof
  fix w show "ticks w w" unfolding ticks_def by (rule world_tick)
next
  fix a b c assume "ticks a b" "ticks b c"
  then show "ticks a c" by (auto simp: ticks_def)
qed

interpretation observing: effect_order observes
proof
  fix st :: "world \<times> 's admin_server" show "observes st st" unfolding observes_def using world_tick by blast
next
  fix a b c :: "world \<times> 's admin_server" assume "observes a b" "observes b c"
  then show "observes a c" by (auto simp: observes_def)
qed

lemma ticks_prims:
  "steps ticks (osStat E p)" "steps ticks (osReadFile E p)" "steps ticks (readDirEntries E p)" "steps ticks (ctxErr E)"
  "steps ticks (timeNow E)" "steps ticks (openRead E p)"
proof -
  show st: "steps ticks (osStat E p)" "steps ticks (osReadFile E p)" "steps ticks (readDirEntries E p)" "steps ticks (ctxErr E)"
    "steps ticks (timeNow E)"
    by (auto simp: steps_def ticks_def osStat_def osReadFile_def readDirEntries_def ctxErr_def timeNow_def prim_def Let_def
        split: option.splits node.splits)
  have rest: "steps ticks (\<lambda>w. let w' = w\<lparr>tick := Suc (tick w)\<rparr> in
      if io_fails E (tick w) then (Inr (take (short_write E (tick w)) b, Some IOError), w') else (Inr (b, None), w'))" for b
    by (auto simp: steps_def ticks_def Let_def)
  show "steps ticks (openRead E p)"
    unfolding openRead_def by (intro ticking.steps_bindM st) (auto split: node.split intro: ticking.steps_ret rest)
qed

lemma ticks_queryFiles: "steps ticks (queryFiles P E after lim ps evs oldest)"
proof (induction ps arbitrary: evs oldest)
  case (Cons p ps)
  show ?case unfolding queryFiles.simps by (intro ticking.steps_rules ticks_prims Cons)
qed (simp add: ticking.steps_ret)

lemma ticks_queryLog: "steps ticks (queryLog P E l after limit)"
proof -
  have "steps ticks (if elPath l = [] then ret ([], 0, None)
     else bindM (attemptM (osStat E (rotatedPath (elPath l)))) (\<lambda>st.
       queryFiles P E after (queryLimit limit)
         (case st of Inr _ \<Rightarrow> [rotatedPath (elPath l), elPath l] | Inl _ \<Rightarrow> [elPath l]) [] 0))" (is "steps ticks ?m")
    by (intro ticking.steps_rules ticks_prims ticks_queryFiles)
  moreover have "snd (queryLog P E l after limit w) = snd (?m w)" for w
    by (simp add: queryLog_def Query_def bindM_def getS_def onFst_def split: prod.split)
  ultimately show ?thesis by (simp add: steps_def)
qed

lemma ticks_receipts: "steps ticks (readReceipts P E dir es acc)" "steps ticks (listReceipts P E d)"
proof -
  show read: "steps ticks (readReceipts P E dir es acc)" for dir es acc
    by (induction P E dir es acc rule: readReceipts.induct) (auto intro!: ticking.steps_rules ticks_prims)
  show "steps ticks (listReceipts P E d)"
    unfolding listReceipts_def by (intro ticking.steps_rules ticks_prims read)
qed

lemma observes_onFst: "steps ticks m \<Longrightarrow> steps observes (onFst m)"
  by (auto simp: steps_def observes_def ticks_def onFst_def split: prod.split) (metis snd_conv)

lemmas observes_attempt = observes_onFst [OF ticking.steps_attemptM]

lemma observes_local: "steps observes getS" "steps observes handleStats" "steps observes handleWatch"
  by (auto simp: steps_def observes_def getS_def handleStats_def handleWatch_def intro: world_tick)

lemma observes_callMethod: "callMethod P E name params = Some m \<Longrightarrow> steps observes m"
  by (auto simp: callMethod_def handlePing_def handleClients_def handleReceipts_def handleEvents_def Let_def split: if_splits sum.split
      intro!: observing.steps_rules observes_onFst ticking.steps_attemptM observes_local ticks_prims ticks_receipts ticks_queryLog)

lemma observes_answerLine: "steps observes (answerLine P E line)"
  unfolding answerLine_def
  by (auto intro!: observing.steps_rules observes_attempt ticks_prims observes_callMethod split: option.split)

lemma observes_serveLines: "steps observes (serveLines P E ls)"
  by (induction ls) (auto intro!: observing.steps_rules observes_attempt ticks_prims observes_answerLine)

section \<open>Properties\<close>

text \<open>What an answer owes to the line it answers: the caller's id, and a result or an error, never both. An error is due for a
  line that is no request and for an unknown method.\<close>

definition methods :: "string set" where
  "methods = {''ping'', ''stats'', ''clients'', ''receipts'', ''events'', ''watch-status''}"

definition answers_line :: "'x admin_prims_scheme \<Rightarrow> bytes \<Rightarrow> 's admin_response \<Rightarrow> bool" where
  "answers_line P line rsp \<longleftrightarrow> (arOk rsp \<longleftrightarrow> arError rsp = None) \<and> (arOk rsp \<longleftrightarrow> arResult rsp \<noteq> None)
     \<and> (case jsonAdminReq P line of
          Inl _ \<Rightarrow> arID rsp = None \<and> \<not> arOk rsp
        | Inr r \<Rightarrow> arID rsp = (if aqMethod r = [] then None else aqID r) \<and> (aqMethod r \<notin> methods \<longrightarrow> \<not> arOk rsp))"

definition one_of :: "'s answer option \<times> method_error option \<Rightarrow> bool" where
  "one_of p \<longleftrightarrow> (snd p = None) = (fst p \<noteq> None)"

lemma one_of_rules:
  "one_of (answered a)" "one_of (methodErr c t)"
  "one_of (case x of Inl e \<Rightarrow> methodErr c (f e) | Inr y \<Rightarrow> answered (g y))"
  "one_of (case z of None \<Rightarrow> answered a | Some e \<Rightarrow> methodErr c (h e))"
  by (auto simp: one_of_def answered_def methodErr_def split: sum.split option.split)

lemma handleEvents_one_of: "handleEvents P E params st = (Inr p, st') \<Longrightarrow> one_of p"
proof (cases "if params = [] then Inr (0, 0) else jsonEventsParams P params")
  case (Inl e)
  assume "handleEvents P E params st = (Inr p, st')"
  then show ?thesis using Inl by (auto simp: handleEvents_def one_of_rules)
next
  case (Inr x)
  assume "handleEvents P E params st = (Inr p, st')"
  then show ?thesis using Inr
    by (cases x) (auto simp: handleEvents_def bindM_run onFst_run one_of_rules split: option.splits)
qed

lemma handlers_one_of:
  "handlePing E st = (Inr p, st') \<Longrightarrow> one_of p" "handleStats st = (Inr p, st') \<Longrightarrow> one_of p"
  "handleWatch st = (Inr p, st') \<Longrightarrow> one_of p" "handleClients P E params st = (Inr p, st') \<Longrightarrow> one_of p"
  "handleReceipts P E params st = (Inr p, st') \<Longrightarrow> one_of p"
  by (auto simp: handlePing_def handleStats_def handleWatch_def handleClients_def handleReceipts_def bindM_run onFst_run attemptM_run
      Let_def one_of_rules split: if_splits simp del: split_paired_All split_paired_Ex)

lemma callMethod_answers:
  assumes "callMethod P E name params = Some m" and "m st = (Inr (result, merr), st')"
  shows "name \<in> methods" "(merr = None) = (result \<noteq> None)"
proof -
  show "name \<in> methods" using assms(1) by (auto simp: callMethod_def methods_def split: if_splits)
  have "one_of (result, merr)"
    using assms by (auto simp: callMethod_def split: if_splits dest: handlers_one_of handleEvents_one_of simp del: split_paired_All)
  then show "(merr = None) = (result \<noteq> None)" by (simp add: one_of_def)
qed

lemma callMethod_None: "callMethod P E name params = None \<longleftrightarrow> name \<notin> methods"
  by (simp add: callMethod_def methods_def)

lemma queryFiles_total: "\<exists>x w'. queryFiles P E after lim ps evs oldest w = (Inr x, w')"
proof (induction ps arbitrary: evs oldest w)
  case (Cons p ps)
  obtain r w1 where "openRead E p w = (r, w1)" by (rule prod.exhaust)
  then show ?case using Cons
    by (cases r) (auto simp: queryFiles.simps(2) bindM_def attemptM_def sm_run split: prod.split option.split)
qed (simp add: sm_run)

lemma queryLog_total: "\<exists>x w'. queryLog P E l after limit w = (Inr x, w')"
proof -
  obtain r w1 where st: "osStat E (rotatedPath (elPath l)) w = (r, w1)" by (rule prod.exhaust)
  obtain x w2 where "queryFiles P E after (queryLimit limit)
      (case r of Inr _ \<Rightarrow> [rotatedPath (elPath l), elPath l] | Inl _ \<Rightarrow> [elPath l]) [] 0 w1 = (Inr x, w2)" using queryFiles_total by blast
  then show ?thesis using st
    by (cases x; cases "elPath l = []") (simp_all add: queryLog_def Query_def bindM_def getS_def onFst_def attemptM_def sm_run)
qed

lemma callMethod_total:
  assumes "callMethod P E name params = Some m"
  shows "\<exists>result merr st'. m st = (Inr (result, merr), st')"
proof -
  obtain w s where st: "st = (w, s)" by (cases st)
  have events: "\<exists>result merr st'. handleEvents P E params st = (Inr (result, merr), st')"
  proof (cases "if params = [] then Inr (0, 0) else jsonEventsParams P params")
    case (Inr x)
    obtain after limit where x: "x = (after, limit)" by (cases x)
    show ?thesis
    proof (cases "adLog s")
      case (Some l)
      obtain y w' where "queryLog P E l after limit w = (Inr y, w')" using queryLog_total by blast
      then show ?thesis using Inr x Some
        by (cases y) (auto simp: handleEvents_def st bindM_def getS_def onFst_def sm_run methodErr_def answered_def split: option.split)
    qed (use Inr x in \<open>simp add: handleEvents_def st bindM_def getS_def sm_run answered_def\<close>)
  qed (simp add: handleEvents_def sm_run methodErr_def)
  show ?thesis
    using assms events
    by (auto simp: callMethod_def handlePing_def handleStats_def handleWatch_def handleClients_def handleReceipts_def st Let_def
        bindM_def getS_def onFst_def attemptM_def timeNow_def sm_run answered_def methodErr_def split: if_splits prod.split sum.split)
qed

lemma answerLine_ok:
  fixes st :: "world \<times> 's admin_server"
  shows "\<exists>x st'. answerLine P E line st = (Inr x, st')
    \<and> (\<forall>rsp. x = Some rsp \<longrightarrow> answers_line P line rsp) \<and> (x = None \<longrightarrow> (\<exists>t. ctx_done E t))"
proof (cases "jsonAdminReq P line")
  case (Inl e)
  then show ?thesis by (simp add: answerLine_def sm_run answers_line_def writeResp_def)
next
  case (Inr r)
  show ?thesis
  proof (cases "aqMethod r = [] \<or> aqMethod r \<notin> methods")
    case True
    then show ?thesis using Inr
      by (auto simp: answerLine_def sm_run answers_line_def writeResp_def callMethod_None [THEN iffD2])
  next
    case False
    then obtain m :: "('s, 's answer option \<times> method_error option) ad" where ne: "aqMethod r \<noteq> []" and m: "callMethod P E (aqMethod r) (aqParams r) = Some m"
      using callMethod_None by (metis option.exhaust)
    obtain c w1 where c: "ctxErr E (fst st) = (c, w1)" by (rule prod.exhaust)
    show ?thesis
    proof (cases c)
      case (Inl e)
      then show ?thesis using c ne m \<open>jsonAdminReq P line = Inr r\<close>
        by (auto simp: answerLine_def bindM_def onFst_def attemptM_def sm_run ctxErr_def Let_def split: if_splits)
    next
      case Inr2: (Inr u)
      obtain result merr st' where run: "m (w1, snd st) = (Inr (result, merr), st')" using callMethod_total [OF m] by blast
      then show ?thesis using c ne m Inr Inr2 callMethod_answers [OF m run]
        by (auto simp: answerLine_def bindM_def onFst_def attemptM_def sm_run answers_line_def writeResp_def)
    qed
  qed
qed

lemma serveLines_answers: "\<exists>rsps st' k. serveLines P E ls st = (Inr rsps, st')
    \<and> list_all2 (answers_line P) (take k (filter (\<lambda>b. b \<noteq> []) ls)) rsps \<and> (k < length (filter (\<lambda>b. b \<noteq> []) ls) \<longrightarrow> (\<exists>t. ctx_done E t))"
proof (induction ls arbitrary: st)
  case Nil
  then show ?case by (simp add: sm_run)
next
  case (Cons line ls)
  obtain c w1 where c: "ctxErr E (fst st) = (c, w1)" by (rule prod.exhaust)
  show ?case
  proof (cases c)
    case (Inl e)
    then have "ctx_done E (tick (fst st))" using c by (auto simp: ctxErr_def Let_def split: if_splits)
    then show ?thesis using c Inl
      by (intro exI [of _ "[]"] exI [of _ "(w1, snd st)"] exI [of _ 0]) (auto simp: bindM_def onFst_def attemptM_def sm_run)
  next
    case (Inr u)
    show ?thesis
    proof (cases "line = []")
      case True
      obtain rsps st' k where "serveLines P E ls (w1, snd st) = (Inr rsps, st')"
        "list_all2 (answers_line P) (take k (filter (\<lambda>b. b \<noteq> []) ls)) rsps" "k < length (filter (\<lambda>b. b \<noteq> []) ls) \<longrightarrow> (\<exists>t. ctx_done E t)"
        using Cons.IH by blast
      then show ?thesis using c Inr True
        by (intro exI [of _ rsps] exI [of _ st'] exI [of _ k]) (simp add: bindM_def onFst_def attemptM_def)
    next
      case False
      obtain x st1 where x: "answerLine P E line (w1, snd st) = (Inr x, st1)" "\<forall>rsp. x = Some rsp \<longrightarrow> answers_line P line rsp"
        "x = None \<longrightarrow> (\<exists>t. ctx_done E t)" using answerLine_ok by blast
      show ?thesis
      proof (cases x)
        case None
        then show ?thesis using c Inr False x
          by (intro exI [of _ "[]"] exI [of _ st1] exI [of _ 0]) (simp add: bindM_def onFst_def attemptM_def sm_run)
      next
        case (Some rsp)
        obtain rsps st' k where "serveLines P E ls st1 = (Inr rsps, st')"
          "list_all2 (answers_line P) (take k (filter (\<lambda>b. b \<noteq> []) ls)) rsps" "k < length (filter (\<lambda>b. b \<noteq> []) ls) \<longrightarrow> (\<exists>t. ctx_done E t)"
          using Cons.IH by blast
        then show ?thesis using c Inr False x Some
          by (intro exI [of _ "rsp # rsps"] exI [of _ st'] exI [of _ "Suc k"]) (simp add: bindM_def onFst_def attemptM_def sm_run)
      qed
    qed
  qed
qed

text \<open>C26. A connection. Whatever a client sends, nothing but time passes on the machine and the server is as it was, connection
  count included; the lines that are not empty are answered one by one in their order, each answer with the id of its
  request and either a result or an error, and an answer is missing only when the server is being stopped.\<close>

theorem Admin_connection:
  "\<exists>rsps w' k. handleConn P E input (w, s) = (Inr rsps, w', s) \<and> (\<exists>n. w' = w\<lparr>tick := n\<rparr>)
    \<and> (let ls = filter (\<lambda>b. b \<noteq> []) (fst (scanLines (fileLines input))) in
       list_all2 (answers_line P) (take k ls) rsps \<and> (length ls \<le> k \<or> (\<exists>t. ctx_done E t)))"
proof -
  let ?ls = "fst (scanLines (fileLines input))" and ?s = "s\<lparr>adClients := adClients s + 1\<rparr>"
  obtain rsps st' k where run: "serveLines P E ?ls (w, ?s) = (Inr rsps, st')"
    and k: "list_all2 (answers_line P) (take k (filter (\<lambda>b. b \<noteq> []) ?ls)) rsps" "k < length (filter (\<lambda>b. b \<noteq> []) ?ls) \<longrightarrow> (\<exists>t. ctx_done E t)"
    using serveLines_answers by blast
  have "observes (w, ?s) st'" by (rule stepsD [OF observes_serveLines run])
  then obtain n where "st' = (w\<lparr>tick := n\<rparr>, ?s)" by (cases st') (auto simp: observes_def)
  then have "handleConn P E input (w, s) = (Inr rsps, w\<lparr>tick := n\<rparr>, s)"
    using run by (simp add: handleConn_def bindM_def modS_def deferM_def)
  then show ?thesis using k unfolding Let_def by (metis not_le)
qed

text \<open>The events method on an undamaged log: exactly the oldest events beyond the cursor, the smallest number held and the
  largest number answered.\<close>

lemma handleEvents_exact:
  assumes "adLog s = Some l" and "generations P w (elPath l) old cur" and "numbered P (old @ cur)" and "answers_next E w 5"
    and "params \<noteq> []" and "jsonEventsParams P params = Inr (after, limit)"
    and "found = take (queryLimit limit) (filter (\<lambda>ev. after < evSeq ev) (old @ cur))"
  shows "\<exists>n. handleEvents P E params (w, s) = (Inr (answered (EventsAns found (oldestOf (old @ cur)) (latestOf found))), w\<lparr>tick := n\<rparr>, s)"
proof -
  obtain n where "Query P E after limit (w, l) = (Inr (found, oldestOf (old @ cur), None), w\<lparr>tick := n\<rparr>, l)"
    using Query_generations [OF assms(2-4), of after limit] assms(7) by blast
  then show ?thesis using assms(1,5,6)
    by (intro exI [of _ n]) (simp add: handleEvents_def bindM_def getS_def onFst_def queryLog_def sm_run)
qed

end
