(* ===== verification/AdminCSV.thy ===== *)
theory AdminCSV
  imports GoStd "HOL-Library.AList" "HOL-Library.Char_ord" "HOL-Library.List_Lexorder"
begin

text \<open>
  The CSV form of admin answers, \<open>src/internal/admin/admin.go\<close> (\<open>CSV\<close>, \<open>flatten\<close>, \<open>csvCell\<close>, \<open>csvRow\<close>), over the JSON value
  an answer is turned into first. An object is listed in the order its map is ranged over.
\<close>

datatype json =
    JNull
  | JBool bool
  | JNumber string
  | JString string
  | JArray "json list"
  | JObject "(string \<times> json) list"

section \<open>Cells and rows\<close>

text \<open>\<open>jsonText\<close>: the JSON text of a value that is neither null nor a string.\<close>

definition csvCell :: "(json \<Rightarrow> string) \<Rightarrow> json \<Rightarrow> string" where
  "csvCell jsonText v = (case v of JNull \<Rightarrow> [] | JString s \<Rightarrow> s | _ \<Rightarrow> jsonText v)"

definition quote :: char where "quote = CHR 0x22"

fun doubleQuotes :: "string \<Rightarrow> string" where
  "doubleQuotes [] = []"
| "doubleQuotes (c # cs) = (if c = quote then quote # quote # doubleQuotes cs else c # doubleQuotes cs)"

definition csvField :: "string \<Rightarrow> string" where
  "csvField c = (if set c \<inter> {CHR '','', quote, CHR 0x0A} \<noteq> {} then quote # doubleQuotes c @ [quote] else c)"

definition csvRow :: "string list \<Rightarrow> string" where
  "csvRow cells = joinWith '','' (map csvField cells) @ [CHR 0x0A]"

section \<open>Documents\<close>

function flatten :: "(json \<Rightarrow> string) \<Rightarrow> string \<Rightarrow> (string \<times> json) list \<Rightarrow> (string \<times> string) list \<Rightarrow> (string \<times> string) list" where
  "flatten jt pre [] out = out"
| "flatten jt pre ((k, v) # m) out =
     (let key = (if pre \<noteq> [] then pre @ ''.'' @ k else k) in
      case v of JObject nested \<Rightarrow> flatten jt pre m (flatten jt key nested out)
              | _ \<Rightarrow> flatten jt pre m (AList.update key (csvCell jt v) out))"
  by pat_completeness auto

termination flatten
  by (relation "measure (\<lambda>(_, _, m, _). size_list (size_prod (\<lambda>_. 0) size) m)") (auto split: prod.split)

definition cellOf :: "(json \<Rightarrow> string) \<Rightarrow> (string \<times> json) list \<Rightarrow> string \<Rightarrow> string" where
  "cellOf jt m k = (case map_of m k of None \<Rightarrow> [] | Some v \<Rightarrow> csvCell jt v)"

definition csvShape :: error where
  "csvShape = Msg ''csv: array elements must be objects''"

fun csvElements :: "(json \<Rightarrow> string) \<Rightarrow> string list \<Rightarrow> json list \<Rightarrow> string result" where
  "csvElements jt keys [] = Inr []"
| "csvElements jt keys (el # els) = (case el of
       JObject m \<Rightarrow> bindR (csvElements jt keys els) (\<lambda>rest. Inr (csvRow (map (cellOf jt m) keys) @ rest))
     | _ \<Rightarrow> Inl csvShape)"

definition CSV :: "(json \<Rightarrow> string) \<Rightarrow> json \<Rightarrow> string result" where
  "CSV jt raw = (case raw of
       JArray [] \<Rightarrow> Inr []
     | JArray (JObject first # els) \<Rightarrow>
         (let keys = sort (map fst first) in
          bindR (csvElements jt keys (JObject first # els)) (\<lambda>rows. Inr (csvRow keys @ rows)))
     | JArray _ \<Rightarrow> Inl csvShape
     | JObject m \<Rightarrow> (let flat = flatten jt [] m [] in
         Inr (concat (map (\<lambda>k. csvRow [k, the (map_of flat k)]) (sort (map fst flat)))))
     | _ \<Rightarrow> Inl (Msg ''csv: result must be an object or array''))"

section \<open>Reading rows back\<close>

text \<open>A reader of comma separated values: a field is plain text up to a comma or the end of its line, or quoted text in which a
  doubled quote stands for one.\<close>

datatype mode = FieldStart | Plain | Quoted | QuoteSeen

fun csvRead :: "mode \<Rightarrow> string \<Rightarrow> string list \<Rightarrow> string \<Rightarrow> string list list" where
  "csvRead md cell row [] = (if md = FieldStart \<and> row = [] then [] else [row @ [cell]])"
| "csvRead FieldStart cell row (c # cs) =
     (if c = quote then csvRead Quoted [] row cs
      else if c = CHR '','' then csvRead FieldStart [] (row @ [[]]) cs
      else if c = CHR 0x0A then (row @ [[]]) # csvRead FieldStart [] [] cs
      else csvRead Plain [c] row cs)"
| "csvRead Plain cell row (c # cs) =
     (if c = CHR '','' then csvRead FieldStart [] (row @ [cell]) cs
      else if c = CHR 0x0A then (row @ [cell]) # csvRead FieldStart [] [] cs
      else csvRead Plain (cell @ [c]) row cs)"
| "csvRead Quoted cell row (c # cs) = (if c = quote then csvRead QuoteSeen cell row cs else csvRead Quoted (cell @ [c]) row cs)"
| "csvRead QuoteSeen cell row (c # cs) =
     (if c = quote then csvRead Quoted (cell @ [quote]) row cs
      else if c = CHR '','' then csvRead FieldStart [] (row @ [cell]) cs
      else if c = CHR 0x0A then (row @ [cell]) # csvRead FieldStart [] [] cs
      else csvRead Plain (cell @ [c]) row cs)"

lemma read_quoted: "csvRead Quoted cell row (doubleQuotes s @ quote # rest) = csvRead QuoteSeen (cell @ s) row rest"
  if "rest \<noteq> []" "hd rest \<noteq> quote"
  using that by (induction s arbitrary: cell) auto

lemma read_plain_rest:
  "CHR '','' \<notin> set s \<Longrightarrow> CHR 0x0A \<notin> set s \<Longrightarrow> csvRead Plain cell row (s @ rest) = csvRead Plain (cell @ s) row rest"
  by (induction s arbitrary: cell) auto

lemma read_plain:
  assumes "s \<noteq> []" and "quote \<notin> set s" "CHR '','' \<notin> set s" "CHR 0x0A \<notin> set s"
  shows "csvRead FieldStart [] row (s @ rest) = csvRead Plain s row rest"
  using assms read_plain_rest [of "tl s" "[hd s]" row rest] by (cases s) auto

text \<open>A field is read back, whatever it contains, when a comma or the end of the line follows.\<close>

lemma read_field:
  assumes "sep = CHR '','' \<or> sep = CHR 0x0A"
  shows "csvRead FieldStart [] row (csvField s @ sep # rest) =
    (if sep = CHR 0x0A then (row @ [s]) # csvRead FieldStart [] [] rest else csvRead FieldStart [] (row @ [s]) rest)"
proof (cases "set s \<inter> {CHR '','', quote, CHR 0x0A} \<noteq> {}")
  case True
  have "hd (sep # rest) \<noteq> quote" using assms by (auto simp: quote_def)
  then show ?thesis using True assms read_quoted [of "sep # rest" "[]" row s] by (auto simp: csvField_def quote_def)
next
  case False
  show ?thesis
  proof (cases "s = []")
    case True
    then show ?thesis using assms by (auto simp: csvField_def quote_def)
  next
    case ne: False
    then have "csvRead FieldStart [] row (s @ sep # rest) = csvRead Plain s row (sep # rest)"
      using read_plain [of s row "sep # rest"] False by auto
    then show ?thesis using False assms by (auto simp: csvField_def)
  qed
qed

lemma read_fields:
  "cells \<noteq> [] \<Longrightarrow> csvRead FieldStart [] row (joinWith '','' (map csvField cells) @ CHR 0x0A # rest) =
     (row @ cells) # csvRead FieldStart [] [] rest"
proof (induction cells arbitrary: row)
  case (Cons s cells)
  show ?case
  proof (cases "cells = []")
    case True
    then show ?thesis using read_field [of "CHR 0x0A" row s rest] by simp
  next
    case False
    then obtain t ts where t: "cells = t # ts" by (cases cells) auto
    show ?thesis using Cons.IH [of "row @ [s]"] read_field [of "CHR '',''" row s] by (simp add: t)
  qed
qed simp

text \<open>Rows are read back as they were written, whatever their cells contain.\<close>

theorem CSV_rows_roundtrip:
  "list_all (\<lambda>row. row \<noteq> []) rows \<Longrightarrow> csvRead FieldStart [] [] (concat (map csvRow rows)) = rows"
  by (induction rows) (simp_all add: csvRow_def read_fields)

theorem CSV_rows_roundtrip_witness:
  "csvRead FieldStart [] [] (concat (map csvRow [[''a'', [quote, CHR '','']], ['''']])) = [[''a'', [quote, CHR '','']], ['''']]"
  by (rule CSV_rows_roundtrip) simp

end
