(* ===== verification/CommandLine.thy ===== *)
theory CommandLine
  imports Publish ReceiverLoop PublisherRun Server HubStats EventLogProps Notify Fixtures AdminServer AdminCSV
begin

text \<open>
  The command \<open>edgelab\<close>, \<open>src/cmd/edgelab/main.go\<close>: what each command does with its parsed flags, and the wiring of
  the serve process: origin, hub, announce trigger, event log and notifiers.
\<close>

section \<open>Publishing\<close>

text \<open>Shifts of 64-bit integers.\<close>

definition kibi :: "int \<Rightarrow> int" where "kibi n = wrap64 (n * 2 ^ 10)"
definition mebi :: "int \<Rightarrow> int" where "mebi n = wrap64 (n * 2 ^ 20)"
definition gibi :: "int \<Rightarrow> int" where "gibi n = wrap64 (n * 2 ^ 30)"

record publish_flags =
  pfInput :: path
  pfRoot :: path
  pfKey :: path
  pfRelease :: string
  pfSequence :: u64
  pfKind :: string
  pfSource :: string
  pfImageIDs :: string
  pfMin :: int
  pfTarget :: int
  pfMax :: int

definition publishFlags :: publish_flags where
  "publishFlags = \<lparr>pfInput = [], pfRoot = pathOf ''work/origin'', pfKey = pathOf ''work/keys/publisher.key'', pfRelease = [], pfSequence = 0,
     pfKind = ''raw'', pfSource = [], pfImageIDs = [], pfMin = 16, pfTarget = 64, pfMax = 256\<rparr>"

definition publishOptions :: "publish_flags \<Rightarrow> publish_options" where
  "publishOptions f = \<lparr>poInput = pfInput f, poRoot = pfRoot f, poKey = pfKey f, poRelease = pfRelease f, poKind = pfKind f, poSource = pfSource f,
     poSequence = pfSequence f, poImageIDs = (if pfImageIDs f \<noteq> [] then splitOn (CHR '','') (pfImageIDs f) else []),
     poMin = kibi (pfMin f), poAvg = kibi (pfTarget f), poMax = kibi (pfMax f)\<rparr>"

definition cmdPublish :: "'x prims_scheme \<Rightarrow> env \<Rightarrow> publish_flags \<Rightarrow> manifest io" where
  "cmdPublish P E f = publish_io P E (publishOptions f)"

definition cmdKeygen :: "'x prims_scheme \<Rightarrow> env \<Rightarrow> path \<Rightarrow> unit io" where
  "cmdKeygen P E out = Keygen P E out"

text \<open>The flags and their defaults: directory, payload in MiB, changed bytes in KiB.\<close>

definition fixturesFlags :: "path \<times> int \<times> int" where
  "fixturesFlags = (pathOf ''work/fixtures'', 16, 32)"

definition cmdFixtures :: "'x fixture_prims_scheme \<Rightarrow> env \<Rightarrow> path \<times> int \<times> int \<Rightarrow> (string \<times> fixture_info) list io" where
  "cmdFixtures P E f = (case f of (out, sz, patch) \<Rightarrow> Fixtures P E out sz patch)"

definition cmdPromote :: "env \<Rightarrow> path \<Rightarrow> string \<Rightarrow> string \<Rightarrow> unit io" where
  "cmdPromote E root release channel =
     bindM (guardM (\<not> (set (release @ channel) \<inter> {CHR ''/'', CHR 0x5C} \<noteq> {} \<or> release = [] \<or> channel = [] \<or> release = channel))
             (Msg ''invalid release/channel'')) (\<lambda>_.
     bindM (osReadFile E (root @ [''releases'', release @ ''.json''])) (\<lambda>b.
     AtomicWrite E (root @ [''releases'', channel @ ''.json'']) b 420))"

definition cmdStatus :: "env \<Rightarrow> path \<Rightarrow> bytes io" where
  "cmdStatus E dir = osReadFile E (dir @ [''state.json''])"

section \<open>Agent commands\<close>

text \<open>The flags bound to the options themselves, with their defaults, and those set after parsing.\<close>

definition agentDefaults :: agent_options where
  "agentDefaults = DefaultAgentOptions\<lparr>oDeviceID := ''edge-01'', oStateDir := pathOf ''work/edge'', oPublicKey := pathOf ''work/keys/publisher.pub''\<rparr>"

record agent_flags =
  afOptions :: agent_options
  afTLS :: hub_config
  afMaxGib :: int
  afReserveMib :: int
  afPoll :: int
  afEventsURL :: string

definition agentFlags :: agent_flags where
  "agentFlags = \<lparr>afOptions = agentDefaults, afTLS = zero_config, afMaxGib = 10, afReserveMib = 64, afPoll = 30000000000, afEventsURL = []\<rparr>"

definition agentOptions :: "agent_flags \<Rightarrow> agent_options" where
  "agentOptions f = (afOptions f)\<lparr>oMaxArtifact := gibi (afMaxGib f), oHubTLS := afTLS f, oReserveBytes := mebi (afReserveMib f), oEvents := True\<rparr>"

definition cmdSync :: "'x agent_prims_scheme \<Rightarrow> env \<Rightarrow> nat \<Rightarrow> agent_flags \<Rightarrow> summary io" where
  "cmdSync P E fuel f = bindM (syncIO P E fuel (agentOptions f)) (\<lambda>s. bindM (WriteSummary P E (oStateDir (agentOptions f)) s) (\<lambda>_. ret s))"

text \<open>A cancelled loop is no failure of the command.\<close>

fun wrapsCanceled :: "error \<Rightarrow> bool" where
  "wrapsCanceled Canceled = True"
| "wrapsCanceled (Wrap _ e) = wrapsCanceled e"
| "wrapsCanceled _ = False"

definition notCanceled :: "unit result \<Rightarrow> unit result" where
  "notCanceled r = (case r of Inl e \<Rightarrow> if wrapsCanceled e then Inr () else r | Inr _ \<Rightarrow> r)"

definition cmdWatch :: "'x agent_prims_scheme \<Rightarrow> env \<Rightarrow> nat \<Rightarrow> agent_flags \<Rightarrow> announce list list \<Rightarrow> world \<Rightarrow>
    unit result \<times> world \<times> error list \<times> summary list" where
  "cmdWatch P E fuel f hints w =
     (if afPoll f \<le> 0 then (Inl (Msg ''poll must be positive''), w, [], [])
      else case loopRun P E fuel (agentOptions f) (afPoll f) (afEventsURL f) hints (w, start_vars) of
        (r, w', v) \<Rightarrow> (notCanceled r, w', lvErrors v, lvSynced v))"

section \<open>The registry watcher\<close>

text \<open>From a configuration on: password, client, watcher, and the loop that triggers publications. The watcher's events and
  the trigger's go to the same output.\<close>

definition watchLoop :: "'x watch_prims_scheme \<Rightarrow> env \<Rightarrow> nat \<Rightarrow> watch_config \<Rightarrow> world \<Rightarrow> unit result \<times> world \<times> (string \<times> string) list" where
  "watchLoop P E rounds cfg w =
     (let password = (if wcPasswordEnv cfg \<noteq> [] then getenv P (wcPasswordEnv cfg) else []) in
      if wcPasswordEnv cfg \<noteq> [] \<and> password = [] then (Inl (Msg (''watch-registry: '' @ wcPasswordEnv cfg @ '' is not set'')), w, [])
      else case NewClient P (wcRegistryURL cfg) \<lparr>acUsername = wcUsername cfg, acPassword = password\<rparr> of
        Inl e \<Rightarrow> (Inl e, w, [])
      | Inr c \<Rightarrow> (case NewWatcher P E c cfg w of
          (Inl e, w1) \<Rightarrow> (Inl e, w1, [])
        | (Inr wa, w1) \<Rightarrow>
            (case wtRun P E (Some (publisherTrigger P E \<lparr>tgConfig = cfg, tgEvent = True, tgClient = Some c\<rparr>)) rounds (w1, wa) of
               (r, w2, wa') \<Rightarrow> (r, w2, waEvents wa'))))"

text \<open>\<open>fileTLS\<close>: the TLS settings of the configuration file, which the command refuses like those of the flags.\<close>

definition cmdWatchRegistry :: "'x watch_prims_scheme \<Rightarrow> env \<Rightarrow> nat \<Rightarrow> path \<Rightarrow> hub_config \<Rightarrow> hub_config \<Rightarrow> world \<Rightarrow>
    unit result \<times> world \<times> (string \<times> string) list" where
  "cmdWatchRegistry P E rounds cfgPath fileTLS flags w =
     (if cfgPath = [] then (Inl (Msg ''watch-registry: -config is required''), w, [])
      else case LoadConfig P E cfgPath w of
        (Inl e, w1) \<Rightarrow> (Inl e, w1, [])
      | (Inr cfg, w1) \<Rightarrow>
          (let tls = overlayHubTLS fileTLS flags in
           if hcCA tls \<noteq> [] \<or> hcClientCert tls \<noteq> [] \<or> hcClientKey tls \<noteq> []
           then (Inl (Msg ''watch-registry publishes to a local root; hub TLS credentials do not apply to registry traffic''), w1, [])
           else (case watchLoop P E rounds cfg w1 of (r, w2, evs) \<Rightarrow> (notCanceled r, w2, evs))))"

section \<open>The serve process\<close>

record serve_flags =
  sfRoot :: path
  sfFaults :: path
  sfReceipts :: path
  sfRateKbit :: int
  sfEvents :: bool
  sfHub :: bool
  sfCacheMib :: int
  sfAdminSocket :: string
  sfTelegramEnv :: string
  sfTelegramChat :: string
  sfSlackEnv :: string
  sfEventLog :: string
  sfEventLogMib :: int

definition serveFlags :: serve_flags where
  "serveFlags = \<lparr>sfRoot = pathOf ''work/origin'', sfFaults = [], sfReceipts = [], sfRateKbit = 5000, sfEvents = False, sfHub = False,
     sfCacheMib = 128, sfAdminSocket = [], sfTelegramEnv = [], sfTelegramChat = [], sfSlackEnv = [], sfEventLog = [], sfEventLogMib = 8\<rparr>"

definition hubOn :: "serve_flags \<Rightarrow> bool" where
  "hubOn f \<longleftrightarrow> sfEvents f \<or> sfHub f"

text \<open>The origin; the hub's loader stands for the reads it coalesces and caches.\<close>

definition ratePlan :: "int \<Rightarrow> fault_plan" where
  "ratePlan rate = \<lparr>fpRateKbit = rate, fpLatencyMS = 0, fpOffline = False, fpOfflineForMS = 0, fpFailFirst = 0, fpDropEvery = 0,
     fpDropAfterBytes = 0, fpCorruptFirst = 0, fpStallFirst = 0, fpStallMS = 0\<rparr>"

definition serveOrigin :: "serve_flags \<Rightarrow> (string \<Rightarrow> bytes result) \<Rightarrow> int \<Rightarrow> fault_server" where
  "serveOrigin f loader now = (let s = (NewFaultServer (sfRoot f) (ratePlan (sfRateKbit f)) now)\<lparr>svPlanFile := sfFaults f, svReceiptsDir := sfReceipts f\<rparr> in
     if hubOn f then s\<lparr>svEvents := sfEvents f, svLoader := Some loader, svDeviceHeader := ''X-Edgelab-Device'', svObserver := True\<rparr> else s)"

text \<open>What the callbacks of the process share: hub, broker, event log, dispatcher, and the lines on the error output.
  \<open>spNotify\<close>: the log's hook feeds the dispatcher.\<close>

record serve_proc =
  spHub :: hub
  spBroker :: broker
  spBus :: "event_log option"
  spDisp :: dispatcher
  spNotify :: bool
  spLines :: "(string \<times> string) list"

type_synonym 'a sp = "(world \<times> serve_proc, 'a) sm"

text \<open>The hook.\<close>

definition noticeOf :: "log_event \<Rightarrow> notice" where
  "noticeOf ev = \<lparr>ntKind = KindReleasePublished, ntRepo = [], ntTag = [], ntDigest = [], ntRelease = [], ntDetail = evDetail ev\<rparr>"

definition onBusEvent :: "log_event \<Rightarrow> serve_proc \<Rightarrow> serve_proc" where
  "onBusEvent ev sp = (if evKind ev \<in> {''hub-announce'', ''hub-publish'', ''hub-promote''}
     then sp\<lparr>spDisp := fst (Dispatch (noticeOf ev) (spDisp sp))\<rparr> else sp)"

text \<open>\<open>bus.Emit\<close> with the calls it makes to the hook; without a log nothing happens.\<close>

definition busEmit :: "'x log_prims_scheme \<Rightarrow> env \<Rightarrow> string \<Rightarrow> string \<Rightarrow> unit sp" where
  "busEmit P E kind detail st = (case st of (w, sp) \<Rightarrow> (case spBus sp of
       None \<Rightarrow> (Inr (), (w, sp))
     | Some l \<Rightarrow> (case Emit P E kind detail (w, l) of (r, (w', l')) \<Rightarrow>
         (r, (w', fold onBusEvent (map snd (drop (length (elCalls l)) (elCalls l'))) (sp\<lparr>spBus := Some l'\<rparr>))))))"

text \<open>The trigger's event function: an announcement invalidates what the hub has cached of the releases.\<close>

definition purgeReleases :: "string \<Rightarrow> string \<Rightarrow> serve_proc \<Rightarrow> serve_proc \<times> string" where
  "purgeReleases kind detail sp = (if kind = ''announce''
     then (case invalidate ''releases/'' (hbLru (spHub sp)) 0 of (n, lru) \<Rightarrow>
       (sp\<lparr>spHub := (spHub sp)\<lparr>hbLru := lru\<rparr>\<rparr>, detail @ (if n > 0 then '' cache_invalidated='' @ decimal n else [])))
     else (sp, detail))"

definition onTriggerEvent :: "'x log_prims_scheme \<Rightarrow> env \<Rightarrow> string \<Rightarrow> string \<Rightarrow> unit sp" where
  "onTriggerEvent P E kind detail =
     bindM getS (\<lambda>sp. (case purgeReleases kind detail sp of (sp', detail') \<Rightarrow>
     bindM (modS (\<lambda>_. sp')) (\<lambda>_.
     bindM (attemptM (busEmit P E (''hub-'' @ kind) detail')) (\<lambda>_.
     modS (\<lambda>sp. sp\<lparr>spLines := spLines sp @ [(kind, detail')]\<rparr>)))))"

text \<open>One output of a scan, with the file it is about: the event first, then the broker.\<close>

definition announceDetail :: "announce \<Rightarrow> string \<Rightarrow> string" where
  "announceDetail a name = ''kind='' @ anKind a @ '' release='' @ anRelease a @ '' sequence='' @ decimal (unat (anSequence a)) @ '' file='' @ name"

fun serveOut :: "'x log_prims_scheme \<Rightarrow> env \<Rightarrow> string \<times> trigger_out \<Rightarrow> unit sp" where
  "serveOut P E (name, OError d) = onTriggerEvent P E ''trigger_error'' d"
| "serveOut P E (name, OAnnounce a) = bindM (onTriggerEvent P E ''announce'' (announceDetail a name)) (\<lambda>_.
     modS (\<lambda>sp. sp\<lparr>spBroker := brAnnounce a (spBroker sp)\<rparr>))"

text \<open>The reactor of the admin server writes the origin's counters to the log, every ten seconds.\<close>

definition statsDetail :: "server_stats \<Rightarrow> string" where
  "statsDetail s = ''requests='' @ showInt (ssRequests s) @ '' chunk_requests='' @ showInt (ssChunkRequests s) @ '' bytes='' @ showInt (ssChunkBodyBytes s)"

definition reactorTick :: "'x log_prims_scheme \<Rightarrow> env \<Rightarrow> server_stats \<Rightarrow> unit sp" where
  "reactorTick P E s = bindM (attemptM (busEmit P E ''stats-snapshot'' (statsDetail s))) (\<lambda>_. ret ())"

definition serveNotifiers :: "(string \<Rightarrow> string option) \<Rightarrow> serve_flags \<Rightarrow> notifier list" where
  "serveNotifiers env f =
     (if sfTelegramEnv f \<noteq> [] then (case env (sfTelegramEnv f) of
          Some (t # ts) \<Rightarrow> if sfTelegramChat f \<noteq> [] then [NewTelegram (t # ts) (sfTelegramChat f)] else [] | _ \<Rightarrow> []) else [])
   @ (if sfSlackEnv f \<noteq> [] then (case env (sfSlackEnv f) of Some (t # ts) \<Rightarrow> [Slack (t # ts)] | _ \<Rightarrow> []) else [])"

definition eventLogPath :: "serve_flags \<Rightarrow> path" where
  "eventLogPath f = (if sfEventLog f = [] then butlast (pathOf (sfAdminSocket f)) @ [''events.jsonl''] else pathOf (sfEventLog f))"

text \<open>Starting: origin, hub, broker and trigger; with an admin socket the log and the notifiers.\<close>

definition serveSetup :: "'x log_prims_scheme \<Rightarrow> env \<Rightarrow> (string \<Rightarrow> string option) \<Rightarrow> serve_flags \<Rightarrow> (string \<Rightarrow> bytes result) \<Rightarrow> (fault_server \<times> serve_proc) io" where
  "serveSetup P E env f loader =
     bindM (timeNow E) (\<lambda>now.
     (let origin = serveOrigin f loader now;
          proc = \<lparr>spHub = newHub (mebi (sfCacheMib f)), spBroker = NewBroker, spBus = None, spDisp = NewDispatcher 64 [], spNotify = False, spLines = []\<rparr> in
      if sfAdminSocket f = [] then ret (origin, proc)
      else bindM (OpenEventLog P E (eventLogPath f) (mebi (sfEventLogMib f))) (\<lambda>l.
        (let ns = serveNotifiers env f;
             l' = (if ns \<noteq> [] then l\<lparr>elHooks := Suc (elHooks l)\<rparr> else l) in
         ret (origin, proc\<lparr>spBus := Some l', spDisp := NewDispatcher 64 (map notifierName ns), spNotify := ns \<noteq> []\<rparr>)))))"

text \<open>The admin server of the process: the counters of origin and hub (an empty object without a hub), and no watcher.\<close>

definition hubStatsSafe :: "json option \<Rightarrow> json" where
  "hubStatsSafe f = (case f of None \<Rightarrow> JObject [] | Some v \<Rightarrow> v)"

definition watcherStatus :: "watch_status list" where
  "watcherStatus = []"

definition serveAdmin :: "event_log \<Rightarrow> (world \<Rightarrow> json) \<Rightarrow> (world \<Rightarrow> json) option \<Rightarrow> int \<Rightarrow> json admin_server" where
  "serveAdmin bus origin hubStats now = NewServer (Some bus)
     (Some (\<lambda>w. JObject [(''hub'', hubStatsSafe (map_option (\<lambda>f. f w) hubStats)), (''origin'', origin w)]))
     (Some (\<lambda>_. watcherStatus)) now"

text \<open>Nothing ever registers a watcher: the method answers with an empty list in every serve process.\<close>

lemma serve_watch_empty: "handleWatch (w, serveAdmin bus origin hubStats now) = (Inr (answered (WatchAns [])), (w, serveAdmin bus origin hubStats now))"
  by (simp add: handleWatch_def serveAdmin_def NewServer_def watcherStatus_def)

section \<open>Appending keeps count of its hooks\<close>

definition hooks_kept :: "event_log \<Rightarrow> event_log \<Rightarrow> bool" where
  "hooks_kept l l' \<longleftrightarrow> elHooks l' = elHooks l \<and> elCalls l' = elCalls l"

interpretation hooks_snd: effect_order "\<lambda>s t. hooks_kept (snd s) (snd t)"
  by unfold_locales (auto simp: hooks_kept_def)

lemma hooks_prims:
  "steps (\<lambda>s t. hooks_kept (snd s) (snd t)) (onFst m)" "steps (\<lambda>s t. hooks_kept (snd s) (snd t)) getS"
  "(\<And>l. hooks_kept l (f l)) \<Longrightarrow> steps (\<lambda>s t. hooks_kept (snd s) (snd t)) (modS f)"
  by (auto simp: steps_def onFst_def getS_def modS_def hooks_kept_def split: prod.split)

lemma hooks_handle: "steps (\<lambda>s t. hooks_kept (snd s) (snd t)) (closeHandle E)" "steps (\<lambda>s t. hooks_kept (snd s) (snd t)) (writeHandle E b)"
    "steps (\<lambda>s t. hooks_kept (snd s) (snd t)) (rotateLocked E)"
proof -
  show close: "steps (\<lambda>s t. hooks_kept (snd s) (snd t)) (closeHandle E)" "steps (\<lambda>s t. hooks_kept (snd s) (snd t)) (writeHandle E b)"
    unfolding closeHandle_def writeHandle_def by (intro hooks_snd.steps_rules hooks_prims; simp add: hooks_kept_def)+
  show "steps (\<lambda>s t. hooks_kept (snd s) (snd t)) (rotateLocked E)"
    unfolding rotateLocked_def by (intro hooks_snd.steps_rules hooks_prims close; simp add: hooks_kept_def)
qed

lemma appendEvent_calls:
  assumes "appendEvent P E k d (w, l) = (r, w', l')"
  shows "elHooks l' = elHooks l \<and> (case r of Inl _ \<Rightarrow> elCalls l' = elCalls l
    | Inr _ \<Rightarrow> \<exists>ev. evKind ev = k \<and> evDetail ev = d \<and> elCalls l' = elCalls l @ map (\<lambda>i. (i, ev)) [0..<elHooks l])"
proof -
  let ?l = "l\<lparr>elSeq := wrap64 (elSeq l + 1)\<rparr>"
  obtain now w1 where t: "timeNow E w = (Inr now, w1)" by (simp add: timeNow_def)
  let ?ev = "nextEvent P k d (elSeq ?l) now"
  obtain x w2 l2 where x: "writeHandle E (jsonEvent P ?ev @ [newline]) (w1, ?l) = (x, w2, l2)" by (rule prod_cases3)
  have keep: "hooks_kept ?l l2" using stepsD [OF hooks_handle(2) x] by simp
  obtain y w3 where y: "fSync E (elPath l2) w2 = (y, w3)" by (rule prod.exhaust)
  have l2: "l2 = ?l" using x by (auto simp: writeHandle_def bindM_run onFst_run getS_def split: if_splits)
  have path: "elPath ?l = elPath l" by simp
  show ?thesis
    using assms t x y keep l2
    by (cases x; cases y) (auto intro!: exI [of _ ?ev] simp: appendEvent_def bindM_def modS_def onFst_def getS_def attemptM_def sm_run
        hooks_kept_def callHooks_def nextEvent_def Let_def)
qed

lemma Emit_calls:
  assumes "Emit P E k d (w, l) = (r, w', l')"
  shows "elHooks l' = elHooks l \<and> (case r of Inl _ \<Rightarrow> elCalls l' = elCalls l
    | Inr _ \<Rightarrow> \<exists>ev. evKind ev = k \<and> evDetail ev = d \<and> elCalls l' = elCalls l @ map (\<lambda>i. (i, ev)) [0..<elHooks l])"
proof (cases "elClosed l")
  case True
  then show ?thesis using assms by (auto simp: Emit_def bindM_def getS_def sm_run)
next
  case False
  let ?rot = "if elSize l \<ge> elMaxBytes l
     then bindM (attemptM (rotateLocked E)) (\<lambda>r. case r of Inl e \<Rightarrow> throw (Wrap ''rotate event log'' e) | Inr _ \<Rightarrow> ret ()) else ret ()"
  obtain x w1 l1 where x: "?rot (w, l) = (x, w1, l1)" by (rule prod_cases3)
  have "steps (\<lambda>s t. hooks_kept (snd s) (snd t)) ?rot" by (intro hooks_snd.steps_rules hooks_handle)
  from stepsD [OF this x] have keep: "hooks_kept l l1" by simp
  show ?thesis
  proof (cases x)
    case (Inl e)
    then have "r = Inl e" "l' = l1" using assms False x by (auto simp: Emit_def bindM_def getS_def)
    then show ?thesis using keep by (simp add: hooks_kept_def)
  next
    case (Inr u)
    then have "appendEvent P E k d (w1, l1) = (r, w', l')" using assms False x by (auto simp: Emit_def bindM_def getS_def)
    from appendEvent_calls [OF this] keep show ?thesis by (cases r) (auto simp: hooks_kept_def)
  qed
qed

section \<open>What the process does with announcements\<close>

definition announced :: "(string \<times> trigger_out) list \<Rightarrow> (string \<times> announce) list" where
  "announced outs = concat (map (\<lambda>(name, out). case out of OError _ \<Rightarrow> [] | OAnnounce a \<Rightarrow> [(name, a)]) outs)"

text \<open>The notices handed to the dispatcher, and the announcements they are about.\<close>

definition notified :: "(string \<times> announce) list \<Rightarrow> dispatcher \<Rightarrow> dispatcher \<Rightarrow> bool" where
  "notified as d d' \<longleftrightarrow> (\<exists>bs evs. subseq bs as \<and> d' = fold (\<lambda>ev d. fst (Dispatch (noticeOf ev) d)) evs d
     \<and> list_all2 (\<lambda>(name, a) ev. evKind ev = ''hub-announce'' \<and> hasPrefix (evDetail ev) (announceDetail a name)) bs evs)"

lemma notified_refl: "notified [] d d"
  unfolding notified_def by (intro exI [of _ "[]"]) simp

lemma notified_more: "notified as d d' \<Longrightarrow> notified (as @ bs) d d'"
  unfolding notified_def by (blast intro: list_emb_prefix)

lemma notified_one: "evKind ev = ''hub-announce'' \<Longrightarrow> hasPrefix (evDetail ev) (announceDetail a name) \<Longrightarrow>
    notified [(name, a)] d (fst (Dispatch (noticeOf ev) d))"
  unfolding notified_def by (intro exI [of _ "[(name, a)]"] exI [of _ "[ev]"]) simp

lemma notified_trans:
  assumes "notified as d d1" and "notified bs d1 d2"
  shows "notified (as @ bs) d d2"
proof -
  obtain xs es where 1: "subseq xs as" "d1 = fold (\<lambda>ev d. fst (Dispatch (noticeOf ev) d)) es d"
      "list_all2 (\<lambda>(name, a) ev. evKind ev = ''hub-announce'' \<and> hasPrefix (evDetail ev) (announceDetail a name)) xs es"
    using assms(1) unfolding notified_def by blast
  obtain ys fs where 2: "subseq ys bs" "d2 = fold (\<lambda>ev d. fst (Dispatch (noticeOf ev) d)) fs d1"
      "list_all2 (\<lambda>(name, a) ev. evKind ev = ''hub-announce'' \<and> hasPrefix (evDetail ev) (announceDetail a name)) ys fs"
    using assms(2) unfolding notified_def by blast
  show ?thesis unfolding notified_def
    using 1 2 by (intro exI [of _ "xs @ ys"] exI [of _ "es @ fs"]) (simp add: list_emb_append_mono list_all2_appendI)
qed

definition bus_ok :: "serve_proc \<Rightarrow> bool" where
  "bus_ok sp \<longleftrightarrow> (case spBus sp of None \<Rightarrow> True | Some l \<Rightarrow> elHooks l \<le> 1)"

lemma purge_cache:
  assumes "lru_ok (hbLru (spHub sp))" and "purgeReleases k d sp = (sp', d')"
  shows "lru_ok (hbLru (spHub sp'))" "hasPrefix d' d" "spBus sp' = spBus sp" "spDisp sp' = spDisp sp" "spBroker sp' = spBroker sp"
    "luOrder (hbLru (spHub sp')) = (if k = ''announce'' then filter (\<lambda>x. \<not> hasPrefix (enRel (snd x)) ''releases/'') (luOrder (hbLru (spHub sp)))
       else luOrder (hbLru (spHub sp)))"
proof -
  obtain n lru where i: "invalidate ''releases/'' (hbLru (spHub sp)) 0 = (n, lru)" by (rule prod.exhaust)
  note ref = invalidate_refines [OF assms(1) i]
  show "lru_ok (hbLru (spHub sp'))" "hasPrefix d' d" "spBus sp' = spBus sp" "spDisp sp' = spDisp sp" "spBroker sp' = spBroker sp"
    "luOrder (hbLru (spHub sp')) = (if k = ''announce'' then filter (\<lambda>x. \<not> hasPrefix (enRel (snd x)) ''releases/'') (luOrder (hbLru (spHub sp)))
       else luOrder (hbLru (spHub sp)))"
    using assms(2) i ref assms(1) by (auto simp: purgeReleases_def hasPrefix_def split: if_splits)
qed

lemma busEmit_run:
  assumes "busEmit P E k d (w, sp) = (r, w', sp')" and "bus_ok sp"
  shows "bus_ok sp' \<and> spHub sp' = spHub sp \<and> spBroker sp' = spBroker sp \<and> spLines sp' = spLines sp
    \<and> (spDisp sp' = spDisp sp \<or> (\<exists>ev. evKind ev = k \<and> evDetail ev = d \<and> k \<in> {''hub-announce'', ''hub-publish'', ''hub-promote''}
        \<and> spDisp sp' = fst (Dispatch (noticeOf ev) (spDisp sp))))"
proof (cases "spBus sp")
  case None
  then show ?thesis using assms by (simp add: busEmit_def)
next
  case (Some l)
  obtain r1 w1 l1 where em: "Emit P E k d (w, l) = (r1, w1, l1)" by (rule prod_cases3)
  note calls = Emit_calls [OF em]
  have sp': "sp' = fold onBusEvent (map snd (drop (length (elCalls l)) (elCalls l1))) (sp\<lparr>spBus := Some l1\<rparr>)"
    using assms(1) Some em by (simp add: busEmit_def)
  have one: "elHooks l = 0 \<or> elHooks l = 1" using assms(2) Some by (auto simp: bus_ok_def)
  show ?thesis
  proof (cases r1)
    case (Inl e)
    then show ?thesis using sp' calls one by (auto simp: bus_ok_def)
  next
    case (Inr u)
    then obtain ev where ev: "evKind ev = k" "evDetail ev = d" "elCalls l1 = elCalls l @ map (\<lambda>i. (i, ev)) [0..<elHooks l]" "elHooks l1 = elHooks l"
      using calls by auto
    show ?thesis using one
    proof
      assume "elHooks l = 0"
      then show ?thesis using sp' ev by (simp add: bus_ok_def)
    next
      assume "elHooks l = 1"
      then have "sp' = onBusEvent ev (sp\<lparr>spBus := Some l1\<rparr>)" using sp' ev by simp
      then show ?thesis using ev \<open>elHooks l = 1\<close> by (auto simp: onBusEvent_def bus_ok_def)
    qed
  qed
qed

lemma onTriggerEvent_run:
  assumes "lru_ok (hbLru (spHub sp))" and "bus_ok sp"
  shows "\<exists>w' sp' d'. onTriggerEvent P E k d (w, sp) = (Inr (), w', sp') \<and> lru_ok (hbLru (spHub sp')) \<and> bus_ok sp'
    \<and> spBroker sp' = spBroker sp \<and> hasPrefix d' d
    \<and> luOrder (hbLru (spHub sp')) = (if k = ''announce'' then filter (\<lambda>x. \<not> hasPrefix (enRel (snd x)) ''releases/'') (luOrder (hbLru (spHub sp)))
       else luOrder (hbLru (spHub sp)))
    \<and> (spDisp sp' = spDisp sp \<or> (\<exists>ev. evKind ev = ''hub-'' @ k \<and> evDetail ev = d'
        \<and> ''hub-'' @ k \<in> {''hub-announce'', ''hub-publish'', ''hub-promote''} \<and> spDisp sp' = fst (Dispatch (noticeOf ev) (spDisp sp))))"
proof -
  obtain sp1 d' where p: "purgeReleases k d sp = (sp1, d')" by (rule prod.exhaust)
  note pc = purge_cache [OF assms(1) p]
  obtain r w' sp2 where e: "busEmit P E (''hub-'' @ k) d' (w, sp1) = (r, w', sp2)" by (rule prod_cases3)
  have "bus_ok sp1" using assms(2) pc(3) by (simp add: bus_ok_def)
  note em = busEmit_run [OF e this]
  have "onTriggerEvent P E k d (w, sp) = (Inr (), w', sp2\<lparr>spLines := spLines sp2 @ [(k, d')]\<rparr>)"
    using p e by (simp add: onTriggerEvent_def bindM_def getS_def modS_def attemptM_def)
  moreover have "bus_ok (sp2\<lparr>spLines := x\<rparr>)" for x using em by (simp add: bus_ok_def)
  ultimately show ?thesis using em pc by (intro exI [of _ w'] exI [of _ "sp2\<lparr>spLines := spLines sp2 @ [(k, d')]\<rparr>"] exI [of _ d']) auto
qed

lemma serveOut_run:
  assumes "lru_ok (hbLru (spHub sp))" and "bus_ok sp"
  shows "\<exists>w' sp'. serveOut P E out (w, sp) = (Inr (), w', sp') \<and> lru_ok (hbLru (spHub sp')) \<and> bus_ok sp'
    \<and> spBroker sp' = fold brAnnounce (map snd (announced [out])) (spBroker sp)
    \<and> luOrder (hbLru (spHub sp')) = (if announced [out] \<noteq> [] then filter (\<lambda>x. \<not> hasPrefix (enRel (snd x)) ''releases/'') (luOrder (hbLru (spHub sp)))
       else luOrder (hbLru (spHub sp)))
    \<and> notified (announced [out]) (spDisp sp) (spDisp sp')"
proof -
  obtain name o' where out: "out = (name, o')" by (cases out)
  show ?thesis
  proof (cases o')
    case (OError d)
    obtain w' sp' where "onTriggerEvent P E ''trigger_error'' d (w, sp) = (Inr (), w', sp')" "lru_ok (hbLru (spHub sp'))" "bus_ok sp'"
      "spBroker sp' = spBroker sp" "luOrder (hbLru (spHub sp')) = luOrder (hbLru (spHub sp))" "spDisp sp' = spDisp sp"
      using onTriggerEvent_run [OF assms, of P E "''trigger_error''" d w] by auto
    then show ?thesis by (simp add: out OError announced_def notified_refl)
  next
    case (OAnnounce a)
    obtain w' sp' d' where run: "onTriggerEvent P E ''announce'' (announceDetail a name) (w, sp) = (Inr (), w', sp')"
      and ok: "lru_ok (hbLru (spHub sp'))" "bus_ok sp'"
      and eff: "spBroker sp' = spBroker sp" "hasPrefix d' (announceDetail a name)"
        "luOrder (hbLru (spHub sp')) = filter (\<lambda>x. \<not> hasPrefix (enRel (snd x)) ''releases/'') (luOrder (hbLru (spHub sp)))"
      and disp: "spDisp sp' = spDisp sp \<or> (\<exists>ev. evKind ev = ''hub-announce'' \<and> evDetail ev = d' \<and> spDisp sp' = fst (Dispatch (noticeOf ev) (spDisp sp)))"
      using onTriggerEvent_run [OF assms, of P E "''announce''" "announceDetail a name" w] by auto
    have "notified [(name, a)] (spDisp sp) (spDisp sp')"
      using disp notified_more [OF notified_refl, of "[(name, a)]"] notified_one eff(2) by auto
    moreover have "bus_ok (sp'\<lparr>spBroker := b\<rparr>)" for b using ok(2) by (simp add: bus_ok_def)
    ultimately show ?thesis using run ok eff
      by (intro exI [of _ w'] exI [of _ "sp'\<lparr>spBroker := brAnnounce a (spBroker sp')\<rparr>"])
        (simp add: out OAnnounce announced_def bindM_def modS_def)
  qed
qed

lemma announced_Cons: "announced (out # outs) = announced [out] @ announced outs"
  by (simp add: announced_def)

text \<open>C21. The serve process and what its trigger reports, whatever fails. Every announcement goes to the broker, in order, and
  errors of a scan do not; once anything was announced the hub caches nothing of the releases any more, and everything
  else as before; and the notifiers are told of announcements only, each at most once and in their order.\<close>

theorem Serve_announces:
  assumes "lru_ok (hbLru (spHub sp))" and "bus_ok sp"
  shows "\<exists>w' sp'. forM outs (serveOut P E) (w, sp) = (Inr (), w', sp')
    \<and> spBroker sp' = fold brAnnounce (map snd (announced outs)) (spBroker sp)
    \<and> luOrder (hbLru (spHub sp')) = (if announced outs \<noteq> []
         then filter (\<lambda>x. \<not> hasPrefix (enRel (snd x)) ''releases/'') (luOrder (hbLru (spHub sp))) else luOrder (hbLru (spHub sp)))
    \<and> notified (announced outs) (spDisp sp) (spDisp sp')"
  using assms
proof (induction outs arbitrary: w sp)
  case Nil
  then show ?case by (auto simp: announced_def sm_run notified_refl)
next
  case (Cons out outs)
  obtain w1 sp1 where 1: "serveOut P E out (w, sp) = (Inr (), w1, sp1)" "lru_ok (hbLru (spHub sp1))" "bus_ok sp1"
      "spBroker sp1 = fold brAnnounce (map snd (announced [out])) (spBroker sp)"
      "luOrder (hbLru (spHub sp1)) = (if announced [out] \<noteq> [] then filter (\<lambda>x. \<not> hasPrefix (enRel (snd x)) ''releases/'') (luOrder (hbLru (spHub sp)))
         else luOrder (hbLru (spHub sp)))"
      "notified (announced [out]) (spDisp sp) (spDisp sp1)"
    using serveOut_run [OF Cons.prems] by blast
  obtain w2 sp2 where 2: "forM outs (serveOut P E) (w1, sp1) = (Inr (), w2, sp2)"
      "spBroker sp2 = fold brAnnounce (map snd (announced outs)) (spBroker sp1)"
      "luOrder (hbLru (spHub sp2)) = (if announced outs \<noteq> []
         then filter (\<lambda>x. \<not> hasPrefix (enRel (snd x)) ''releases/'') (luOrder (hbLru (spHub sp1))) else luOrder (hbLru (spHub sp1)))"
      "notified (announced outs) (spDisp sp1) (spDisp sp2)"
    using Cons.IH [OF 1(2,3)] by blast
  have "forM (out # outs) (serveOut P E) (w, sp) = (Inr (), w2, sp2)" using 1(1) 2(1) by (simp add: bindM_def)
  moreover have "notified (announced (out # outs)) (spDisp sp) (spDisp sp2)"
    unfolding announced_Cons [of out outs] by (rule notified_trans [OF 1(6) 2(4)])
  moreover have "spBroker sp2 = fold brAnnounce (map snd (announced (out # outs))) (spBroker sp)"
    unfolding announced_Cons [of out outs] by (simp add: 1(4) 2(2))
  moreover have "luOrder (hbLru (spHub sp2)) = (if announced (out # outs) \<noteq> []
         then filter (\<lambda>x. \<not> hasPrefix (enRel (snd x)) ''releases/'') (luOrder (hbLru (spHub sp))) else luOrder (hbLru (spHub sp)))"
    unfolding announced_Cons [of out outs] by (auto simp: 1(5) 2(3))
  ultimately show ?case by blast
qed

section \<open>Promotion by hand\<close>

text \<open>The promote command. Whatever fails, the channel file is as it was or has exactly the bytes of the release file that was
  there, it has them when the command succeeds, and no other file that was there changes; a channel can not be promoted
  onto the release itself, nor can either name leave the releases directory. (The bytes are not looked at: an envelope
  that does not verify is promoted like any other.)\<close>

theorem Promote_copies:
  assumes "cmdPromote E root release channel w = (r, w')" and "\<not> isTempName (channel @ ''.json'')"
  shows "(lookup w' (root @ [''releases'', channel @ ''.json'']) = lookup w (root @ [''releases'', channel @ ''.json''])
       \<or> (\<exists>b. file_bytes w (root @ [''releases'', release @ ''.json'']) = Some b
            \<and> lookup w' (root @ [''releases'', channel @ ''.json'']) = Some (FileN b 420)))
     \<and> (r = Inr () \<longrightarrow> file_bytes w (root @ [''releases'', release @ ''.json'']) \<noteq> None
            \<and> file_bytes w' (root @ [''releases'', channel @ ''.json'']) = file_bytes w (root @ [''releases'', release @ ''.json''])
            \<and> release \<noteq> channel \<and> CHR ''/'' \<notin> set release \<and> CHR ''/'' \<notin> set channel)
     \<and> (\<forall>q. q \<noteq> root @ [''releases'', channel @ ''.json''] \<and> lookup w q \<noteq> None \<longrightarrow> lookup w' q = lookup w q)"
proof -
  let ?rel = "root @ [''releases'', release @ ''.json'']" and ?ch = "root @ [''releases'', channel @ ''.json'']"
  let ?ok = "\<not> (set (release @ channel) \<inter> {CHR ''/'', CHR 0x5C} \<noteq> {} \<or> release = [] \<or> channel = [] \<or> release = channel)"
  show ?thesis
  proof (cases ?ok)
    case False
    then have "r = Inl (Msg ''invalid release/channel'')" "w' = w" using assms(1) by (auto simp: cmdPromote_def bindM_def guardM_def sm_run)
    then show ?thesis by simp
  next
    case ok: True
    obtain x w1 where x: "osReadFile E ?rel w = (x, w1)" by (rule prod.exhaust)
    have same: "lookup w1 = lookup w" using x by (auto simp: osReadFile_def prim_def Let_def fun_eq_iff split: if_splits option.splits node.splits)
    have run: "bindM (osReadFile E ?rel) (\<lambda>b. AtomicWrite E ?ch b 420) w = (r, w')"
      using assms(1) ok by (simp add: cmdPromote_def)
    show ?thesis
    proof (cases x)
      case (Inl e)
      then have "r = Inl e" "w' = w1" using run x by (simp_all add: bindM_def)
      then show ?thesis using same by simp
    next
      case (Inr b)
      have rel: "file_bytes w ?rel = Some b" using x Inr
        by (auto simp: osReadFile_def prim_def Let_def file_bytes_def split: if_splits option.splits node.splits)
      have "AtomicWrite E ?ch b 420 w1 = (r, w')" using run x Inr by (simp add: bindM_def)
      moreover have "\<not> is_temp ?ch" using assms(2) by (simp add: is_temp_def)
      ultimately have aw: "aw_effect ?ch (FileN b 420) w1 w' \<and> (r = Inr () \<longrightarrow> lookup w' ?ch = Some (FileN b 420))"
        by (intro AtomicWrite_run) simp_all
      have ch: "lookup w' ?ch = lookup w ?ch \<or> lookup w' ?ch = Some (FileN b 420)" "r = Inr () \<longrightarrow> lookup w' ?ch = Some (FileN b 420)"
        "\<forall>q. q \<noteq> ?ch \<and> lookup w q \<noteq> None \<longrightarrow> lookup w' q = lookup w q"
        using aw unfolding aw_effect_def same by blast+
      have "r = Inr () \<longrightarrow> file_bytes w' ?ch = file_bytes w ?rel" using ch(2) rel by (simp add: file_bytes_def)
      moreover have "release \<noteq> channel" "CHR ''/'' \<notin> set release" "CHR ''/'' \<notin> set channel" using ok by auto
      ultimately show ?thesis using ch rel by blast
    qed
  qed
qed

section \<open>The two publishers\<close>

text \<open>The embedded publisher and the command run the same loop: where the password is set, or none is named, they differ in the
  test of the context before the loop only. (An environment variable without a name is empty.)\<close>

theorem Publisher_is_watch_registry:
  assumes "getenv P [] = []" and "wcPasswordEnv cfg = [] \<or> getenv P (wcPasswordEnv cfg) \<noteq> []"
  shows "publisherRun P E rounds \<lparr>paConfig = cfg, paEvent = True, paRunning = False\<rparr> w
    = (case ctxErr E w of (Inl e, w1) \<Rightarrow> (Inl e, w1, []) | (Inr _, w1) \<Rightarrow> watchLoop P E rounds cfg w1)"
  using assms by (auto simp: publisherRun_def watchLoop_def Let_def split: prod.split sum.split)

section \<open>Witnesses\<close>

definition demo_proc :: serve_proc where
  "demo_proc = \<lparr>spHub = (newHub 10)\<lparr>hbLru := demo_lru\<rparr>, spBroker = NewBroker, spBus = None, spDisp = NewDispatcher 64 [], spNotify = False, spLines = []\<rparr>"

theorem Serve_announces_witness:
  "\<exists>w' sp'. forM [(''x.json'', OError ''read x.json''), (''desired.json'', OAnnounce demo_announce)] (serveOut demo_log_prims (env_fail_at 0))
       (empty_world, demo_proc) = (Inr (), w', sp')
     \<and> map (enRel \<circ> snd) (luOrder (hbLru (spHub sp'))) = [''chunks/b''] \<and> bkAnnounced (spBroker sp') = 1"
proof -
  have "lru_ok (hbLru (spHub demo_proc))" "bus_ok demo_proc" by (simp_all add: demo_proc_def demo_lru_ok bus_ok_def)
  from Serve_announces [OF this, of "[(''x.json'', OError ''read x.json''), (''desired.json'', OAnnounce demo_announce)]" demo_log_prims "env_fail_at 0" empty_world]
  show ?thesis
    by (auto simp: announced_def demo_proc_def demo_lru_def lru_put_def lru_insert_def newLRU_def lru_get_def evict.simps drop_entry_def hasPrefix_def
        brAnnounce_def NewBroker_def)
qed

theorem Promote_copies_witness:
  "lookup (snd (cmdPromote (env_fail_at 4) [''o''] ''v1'' ''desired''
      (put_node [''o'', ''releases'', ''v1.json''] (FileN [1, 2] 420) (put_node [''o'', ''releases'', ''desired.json''] (FileN [9] 420) empty_world))))
    [''o'', ''releases'', ''desired.json''] \<in> {Some (FileN [9] 420), Some (FileN [1, 2] 420)}"
proof -
  let ?w = "put_node [''o'', ''releases'', ''v1.json''] (FileN [1, 2] 420) (put_node [''o'', ''releases'', ''desired.json''] (FileN [9] 420) empty_world)"
  obtain r w' where run: "cmdPromote (env_fail_at 4) [''o''] ''v1'' ''desired'' ?w = (r, w')" by (rule prod.exhaust)
  have "\<not> isTempName (''desired'' @ ''.json'')" by (simp add: isTempName_def)
  from Promote_copies [OF run this] run show ?thesis by (auto simp: file_bytes_def)
qed

theorem Publisher_is_watch_registry_witness:
  "publisherRun demo_watch steady_registry 3 \<lparr>paConfig = demo_config, paEvent = True, paRunning = False\<rparr> demo_signed
    = (case ctxErr steady_registry demo_signed of (Inl e, w1) \<Rightarrow> (Inl e, w1, []) | (Inr _, w1) \<Rightarrow> watchLoop demo_watch steady_registry 3 demo_config w1)"
proof (rule Publisher_is_watch_registry)
  show "getenv demo_watch [] = []" by (simp add: demo_watch_def demo_oci_def watch_prims.defs oci_prims.defs reg_prims.defs)
  show "wcPasswordEnv demo_config = [] \<or> getenv demo_watch (wcPasswordEnv demo_config) \<noteq> []" by (simp add: demo_config_def)
qed

end
