(* ===== verification/FixtureProps.thy ===== *)
theory FixtureProps
  imports Fixtures
begin

text \<open>
  What the generator of test images produces, whatever fails on the way: the stream and its patched window, the archives
  written through a file that holds exactly the bytes written so far, and the run over all variants.
\<close>

section \<open>The stream and the window\<close>

lemma length_rngRead [simp]: "length (fst (rngRead x n)) = n"
  by (induction x n rule: rngRead.induct) (subst rngRead.simps, auto simp: Let_def putUint64LE_def split: prod.splits)

lemma rngRead_0 [simp]: "rngRead x 0 = ([], x)"
  by (subst rngRead.simps) simp

text \<open>Reading in portions of whole words gives the same stream as one read.\<close>

lemma rngRead_split:
  assumes "8 dvd m"
  shows "rngRead x (m + n) = (fst (rngRead x m) @ fst (rngRead (snd (rngRead x m)) n), snd (rngRead (snd (rngRead x m)) n))"
  using assms
proof (induction x m rule: rngRead.induct)
  case (1 x m)
  show ?case
  proof (cases "m = 0")
    case False
    with "1.prems" have "8 \<le> m" by (auto dest: dvd_imp_le)
    have step: "rngRead x k = (let v = putUint64LE (mix64 (x + golden)); r = rngRead (x + golden) (k - 8) in (take 8 v @ fst r, snd r))"
      if "8 \<le> k" for k using that by (subst rngRead.simps) (auto simp: Let_def split: prod.splits)
    have "rngRead (x + golden) (m - 8 + n) = (fst (rngRead (x + golden) (m - 8)) @ fst (rngRead (snd (rngRead (x + golden) (m - 8))) n),
        snd (rngRead (snd (rngRead (x + golden) (m - 8))) n))"
      using "1.IH" [OF False refl refl refl] "1.prems" \<open>8 \<le> m\<close> by simp
    then show ?thesis using \<open>8 \<le> m\<close> by (simp add: step Let_def)
  qed simp
qed

lemma length_patchBuf [simp]: "length (patchBuf off start patch bs) = length bs"
  by (induction bs arbitrary: off) auto

lemma patchBuf_append: "patchBuf off start patch (a @ b) = patchBuf off start patch a @ patchBuf (off + int (length a)) start patch b"
  by (induction a arbitrary: off) (auto simp: algebra_simps)

lemma nth_patchBuf:
  "i < length bs \<Longrightarrow> patchBuf off start patch bs ! i =
     (if start \<le> off + int i \<and> off + int i < start + patch then bs ! i XOR 0x5a else bs ! i)"
  by (induction bs arbitrary: off i) (auto simp: nth_Cons algebra_simps split: nat.splits)

lemma patchBuf_none: "patch \<le> 0 \<Longrightarrow> patchBuf off start patch bs = bs"
  by (rule nth_equalityI) (auto simp: nth_patchBuf)

lemma xor_changes: "(b :: byte) XOR 0x5a \<noteq> b"
proof
  assume "b XOR 0x5a = b"
  then have "(b XOR 0x5a) XOR b = b XOR b" by simp
  then show False by (simp add: xor.commute xor.left_commute)
qed

text \<open>What a layer holds: the stream with its window patched, and the insertion in the middle.\<close>

definition fixtureLayer :: "int \<Rightarrow> u64 \<Rightarrow> int \<Rightarrow> int \<Rightarrow> bytes" where
  "fixtureLayer sz seed patch ins =
     (let b = patchBuf 0 (sz div 2) patch (fst (rngRead seed (nat sz))) in
      if ins > 0 then take (nat (sz div 2)) b @ fst (rngRead 789 (nat ins)) @ drop (nat (sz div 2)) b else b)"

section \<open>Writing\<close>

text \<open>Nothing changed but the file, which holds these bytes; and the same for the archive a writer has under way, with the
  padding of its last entry still to come.\<close>

definition file_at :: "path \<Rightarrow> world \<Rightarrow> bytes \<Rightarrow> world \<Rightarrow> bool" where
  "file_at p w0 b w \<longleftrightarrow> p \<noteq> [] \<and> only_at (\<lambda>q. q = p) w0 w \<and> (\<exists>m. lookup w p = Some (FileN b m))"

definition tar_at :: "path \<Rightarrow> world \<Rightarrow> bytes \<Rightarrow> tar_writer \<Rightarrow> world \<Rightarrow> bool" where
  "tar_at p w0 c tw w \<longleftrightarrow> twFile tw = p \<and> twLeft tw = 0 \<and> (\<exists>b. file_at p w0 b w \<and> b @ zeros (twPad tw) = c)"

text \<open>An error has a cause outside: under the condition, some operation failed.\<close>

definition blame :: "env \<Rightarrow> bool \<Rightarrow> error \<Rightarrow> 'w \<Rightarrow> bool" where
  "blame E G e w \<longleftrightarrow> (G \<longrightarrow> \<not> calm E)"

lemma fWrite_t: "triple (file_at p w0 a) (fWrite E p b) (\<lambda>_. file_at p w0 (a @ b)) (blame E G)"
  by (rule tripleI) (auto simp: fWrite_def Let_def file_at_def only_at_def blame_def calm_def split: if_splits)

lemma fClose_t: "triple (file_at p w0 a) (fClose E p) (\<lambda>_. file_at p w0 a) (blame E G)"
  by (rule tripleI) (auto simp: fClose_def prim_def Let_def file_at_def only_at_def blame_def calm_def split: if_splits)

lemma osCreate_t:
  "p \<noteq> [] \<Longrightarrow> (G \<Longrightarrow> lookup w0 p \<noteq> Some DirN \<and> lookup w0 (butlast p) = Some DirN) \<Longrightarrow>
   triple (\<lambda>w. lookup w = lookup w0) (osCreate E p) (\<lambda>_. file_at p w0 []) (blame E G)"
  by (rule tripleI)
     (auto simp: osCreate_def prim_def Let_def file_at_def only_at_def blame_def calm_def split: if_splits option.splits node.splits)

lemma zeros_0 [simp]: "zeros 0 = []"
  by (simp add: zeros_def)

lemma tar_new: "file_at p w0 [] w \<Longrightarrow> tar_at p w0 [] (tarNewWriter p) w"
  by (simp add: tar_at_def tarNewWriter_def)

lemma twFlush_t: "triple (tar_at p w0 c tw) (twFlush E tw) (\<lambda>tw' w. tw' = tw\<lparr>twPad := 0\<rparr> \<and> twFile tw = p \<and> file_at p w0 c w) (blame E G)"
proof (rule triple_pre)
  fix w assume "tar_at p w0 c tw w"
  then obtain b where b: "twFile tw = p" "twLeft tw = 0" "file_at p w0 b w" "b @ zeros (twPad tw) = c" by (auto simp: tar_at_def)
  show "triple (\<lambda>s. s = w) (twFlush E tw) (\<lambda>tw' w. tw' = tw\<lparr>twPad := 0\<rparr> \<and> twFile tw = p \<and> file_at p w0 c w) (blame E G)"
    unfolding twFlush_def using b(1,2)
    by (simp, intro triple_bind [OF triple_conseq [OF fWrite_t [of p w0 b E "zeros (twPad tw)" G]]] triple_ret) (use b in auto)
qed

lemma twWrite_t:
  assumes "twFile tw = p" "int (length b) \<le> twLeft tw"
  shows "triple (file_at p w0 a) (twWrite E tw b) (\<lambda>tw' w. tw' = tw\<lparr>twLeft := twLeft tw - int (length b)\<rparr> \<and> file_at p w0 (a @ b) w) (blame E G)"
proof (cases "b = []")
  case False
  then show ?thesis unfolding twWrite_def using assms
    by (simp, intro triple_bind [OF fWrite_t] triple_ret) simp
qed (use assms in \<open>auto simp: twWrite_def intro: triple_ret\<close>)

text \<open>Two computations in a row, the first with a known value.\<close>

lemma triple_check:
  assumes "ok \<Longrightarrow> triple P m Q X" and "\<And>s. P s \<Longrightarrow> \<not> ok \<Longrightarrow> X e s"
  shows "triple P (bindM (guardM ok e) (\<lambda>_. m)) Q X"
  using assms by (cases ok) (auto simp: guardM_def bindM_def throw_def ret_def triple_def)

lemma triple_then:
  assumes "triple P m (\<lambda>y w. y = x \<and> R w) X" and "triple R (f x) Q X"
  shows "triple P (bindM m f) Q X"
  by (rule triple_bind [OF assms(1)], rule triple_pure) (simp add: assms(2))

section \<open>The layer loop\<close>

text \<open>What remains to be written at an offset.\<close>

definition layerRest :: "int \<Rightarrow> int \<Rightarrow> int \<Rightarrow> u64 \<Rightarrow> int \<Rightarrow> bool \<Rightarrow> bytes" where
  "layerRest sz patch ins rng off inserted =
     (let b = patchBuf off (sz div 2) patch (fst (rngRead rng (nat (sz - off)))); k = nat (sz div 2 - off) in
      if \<not> inserted \<and> 0 < ins \<and> off < sz then take k b @ fst (rngRead 789 (nat ins)) @ drop k b else b)"

lemma layer_portion:
  assumes "0 \<le> n" "n \<le> sz - off" "n = sz - off \<or> 8 dvd nat n" "rngRead rng (nat n) = (raw, rng')"
  shows "patchBuf off start patch (fst (rngRead rng (nat (sz - off)))) =
     patchBuf off start patch raw @ patchBuf (off + n) start patch (fst (rngRead rng' (nat (sz - (off + n)))))"
    and "length raw = nat n"
proof -
  have len: "length raw = nat n" using length_rngRead [of rng "nat n"] assms(4) by simp
  then show "length raw = nat n" .
  have "nat (sz - off) = nat n + nat (sz - (off + n))" using assms(1,2) by simp
  then have "fst (rngRead rng (nat (sz - off))) = raw @ fst (rngRead rng' (nat (sz - (off + n))))"
    using assms(3,4) rngRead_split [of "nat n" rng "nat (sz - (off + n))"] by auto
  then show "patchBuf off start patch (fst (rngRead rng (nat (sz - off)))) =
     patchBuf off start patch raw @ patchBuf (off + n) start patch (fst (rngRead rng' (nat (sz - (off + n)))))"
    using assms(1) len by (simp add: patchBuf_append)
qed

text \<open>One pass of the loop, up to the next one.\<close>

definition layerStep :: "env \<Rightarrow> int \<Rightarrow> bytes \<Rightarrow> int \<Rightarrow> int \<Rightarrow> bool \<Rightarrow> tar_writer \<Rightarrow> (tar_writer \<times> bool) io" where
  "layerStep E ins buf split n here tw =
     (if here then
        bindM (guardM (0 \<le> split \<and> split \<le> n) (Msg ''panic: slice bounds out of range'')) (\<lambda>_.
        bindM (twWrite E tw (take (nat split) buf)) (\<lambda>tw1.
        bindM (twWrite E tw1 (fst (rngRead 789 (nat ins)))) (\<lambda>tw2.
        bindM (twWrite E tw2 (drop (nat split) buf)) (\<lambda>tw3. ret (tw3, True)))))
      else bindM (twWrite E tw buf) (\<lambda>tw1. ret (tw1, False)))"


lemma layerStep_t:
  assumes "twFile tw = p" and "here \<Longrightarrow> 0 \<le> split \<and> split \<le> n" "n = int (length buf)" "0 \<le> ins"
    and "int (length buf) + (if here then ins else 0) \<le> twLeft tw"
  shows "triple (file_at p w0 a) (layerStep E ins buf split n here tw)
    (\<lambda>y w. y = (tw\<lparr>twLeft := twLeft tw - (n + (if here then ins else 0))\<rparr>, here)
       \<and> file_at p w0 (a @ (if here then take (nat split) buf @ fst (rngRead 789 (nat ins)) @ drop (nat split) buf else buf)) w)
    (blame E G)"
proof (cases here)
  case True
  note sp = assms(2) [OF True]
  have len: "int (length (take (nat split) buf)) = split" "int (length (drop (nat split) buf)) = n - split" using sp assms(3) by (auto simp: min_def)
  have run: "triple (file_at p w0 a) (bindM (twWrite E tw (take (nat split) buf)) (\<lambda>tw1. bindM (twWrite E tw1 (fst (rngRead 789 (nat ins))))
       (\<lambda>tw2. bindM (twWrite E tw2 (drop (nat split) buf)) (\<lambda>tw3. ret (tw3, True)))))
      (\<lambda>y w. y = (tw\<lparr>twLeft := twLeft tw - (n + ins)\<rparr>, True)
         \<and> file_at p w0 (((a @ take (nat split) buf) @ fst (rngRead 789 (nat ins))) @ drop (nat split) buf) w) (blame E G)"
    by (rule triple_then [OF twWrite_t], use assms True sp len in simp, use assms True sp len in simp,
        rule triple_then [OF twWrite_t], use assms True sp len in simp, use assms True sp len in simp,
        rule triple_then [OF twWrite_t], use assms True sp len in simp, use assms True sp len in simp,
        rule triple_ret, use assms(4) len in simp)
  then show ?thesis unfolding layerStep_def using True sp by simp
qed (use assms in \<open>auto simp: layerStep_def intro!: triple_then [OF twWrite_t] triple_ret\<close>)

lemma layerLoop_step:
  assumes "off < sz"
  shows "layerLoop E sz patch ins rng off inserted tw =
    (let n = min (sz - off) 65536; raw = fst (rngRead rng (nat n)); here = (\<not> inserted \<and> 0 < ins \<and> sz div 2 \<le> off + n) in
     bindM (layerStep E ins (patchBuf off (sz div 2) patch raw) (sz div 2 - off) n here tw)
       (\<lambda>(tw', h). layerLoop E sz patch ins (snd (rngRead rng (nat n))) (off + n) (inserted \<or> h) tw'))"
  using assms
  by (subst layerLoop.simps)
     (auto simp: layerStep_def Let_def bindM_assoc min_def bindM_ret split: prod.split)

lemma layerRest_step:
  assumes "patchBuf off (sz div 2) patch (fst (rngRead rng (nat (sz - off)))) =
      buf @ patchBuf (off + n) (sz div 2) patch (fst (rngRead rng' (nat (sz - (off + n)))))" (is "?b = buf @ ?b2")
    and "n = int (length buf)" "n \<le> sz - off" "off < sz" "sz div 2 \<le> sz"
    and "here = (\<not> inserted \<and> 0 < ins \<and> sz div 2 \<le> off + n)" "here \<Longrightarrow> 0 \<le> sz div 2 - off"
  shows "layerRest sz patch ins rng off inserted =
    (if here then take (nat (sz div 2 - off)) buf @ fst (rngRead 789 (nat ins)) @ drop (nat (sz div 2 - off)) buf else buf)
    @ layerRest sz patch ins rng' (off + n) (inserted \<or> here)"
proof -
  consider "here" | "inserted \<or> \<not> 0 < ins" "\<not> here" | "\<not> inserted" "0 < ins" "off + n < sz div 2" "\<not> here"
    using assms(6) by linarith
  then show ?thesis
  proof cases
    case 1
    then have "nat (sz div 2 - off) \<le> length buf" using assms(2,6,7) by auto
    with 1 assms(4,6) show ?thesis by (simp add: layerRest_def assms(1) Let_def)
  next
    case 2
    then show ?thesis by (auto simp: layerRest_def assms(1) Let_def)
  next
    case 3
    then have "nat (sz div 2 - off) = length buf + nat (sz div 2 - (off + n))" "off + n < sz" using assms(2,5) by auto
    with 3 assms(4) show ?thesis by (simp add: layerRest_def assms(1) Let_def)
  qed
qed


text \<open>The loop writes what remains, with the header's size used up; no slice is out of range and no write too long.\<close>

lemma layerLoop_t:
  assumes "twFile tw = p" and "0 \<le> ins" and "0 \<le> off \<and> off \<le> sz" "inserted \<or> ins = 0 \<or> off \<le> sz div 2"
    and "twLeft tw = sz - off + (if \<not> inserted \<and> 0 < ins \<and> off < sz then ins else 0)"
  shows "triple (file_at p w0 a) (layerLoop E sz patch ins rng off inserted tw)
    (\<lambda>tw' w. tw' = tw\<lparr>twLeft := 0\<rparr> \<and> file_at p w0 (a @ layerRest sz patch ins rng off inserted) w) (blame E G)"
  using assms
proof (induction "nat (sz - off)" arbitrary: rng off inserted tw a rule: less_induct)
  case less
  show ?case
  proof (cases "off < sz")
    case False
    with less.prems(3,5) show ?thesis by (auto simp: layerLoop.simps layerRest_def intro!: triple_ret)
  next
    case True
    define n where "n = min (sz - off) 65536"
    obtain raw rng' where raw: "rngRead rng (nat n) = (raw, rng')" by (rule prod.exhaust)
    define here where "here = (\<not> inserted \<and> 0 < ins \<and> sz div 2 \<le> off + n)"
    define buf where "buf = patchBuf off (sz div 2) patch raw"
    have half: "sz div 2 \<le> sz" using True less.prems(3) by simp
    have n: "0 < n" "n \<le> sz - off" "n = sz - off \<or> 8 dvd nat n" using True by (auto simp: n_def min_def)
    note cut = layer_portion [OF less_imp_le [OF n(1)] n(2,3) raw]
    have len: "n = int (length buf)" using cut(2) n(1) by (simp add: buf_def)
    have split: "here \<Longrightarrow> 0 \<le> sz div 2 - off \<and> sz div 2 - off \<le> n" using less.prems(4) by (auto simp: here_def)
    let ?out = "if here then take (nat (sz div 2 - off)) buf @ fst (rngRead 789 (nat ins)) @ drop (nat (sz div 2 - off)) buf else buf"
    let ?tw = "tw\<lparr>twLeft := twLeft tw - (n + (if here then ins else 0))\<rparr>"
    have room: "int (length buf) + (if here then ins else 0) \<le> twLeft tw" using less.prems(5) n True len by (auto simp: here_def)
    have rest: "layerRest sz patch ins rng off inserted = ?out @ layerRest sz patch ins rng' (off + n) (inserted \<or> here)"
      using layerRest_step [OF cut(1) [of "sz div 2" patch, folded buf_def] len n(2) True half] split by (simp add: here_def)
    have IH: "triple (file_at p w0 (a @ ?out)) (layerLoop E sz patch ins rng' (off + n) (inserted \<or> here) ?tw)
       (\<lambda>tw' w. tw' = ?tw\<lparr>twLeft := 0\<rparr> \<and> file_at p w0 ((a @ ?out) @ layerRest sz patch ins rng' (off + n) (inserted \<or> here)) w) (blame E G)"
      by (rule less.hyps) (use less.prems n True half in \<open>auto simp: here_def\<close>)
    have step: "layerLoop E sz patch ins rng off inserted tw = bindM (layerStep E ins buf (sz div 2 - off) n here tw)
        (\<lambda>(tw', h). layerLoop E sz patch ins rng' (off + n) (inserted \<or> h) tw')"
      unfolding layerLoop_step [OF True] Let_def n_def [symmetric] raw fst_conv snd_conv buf_def [symmetric] here_def [symmetric] ..
    show ?thesis
      unfolding step rest
      by (rule triple_then [OF layerStep_t [OF less.prems(1) split len less.prems(2) room]]) (use IH in simp_all)
  qed
qed

section \<open>Archives\<close>

text \<open>The text of an archive: header, data and padding of each entry, and two blocks of zeros.\<close>

definition hdrText :: "'x fixture_prims_scheme \<Rightarrow> string \<Rightarrow> int \<Rightarrow> bytes" where
  "hdrText P name n = (case tarHdr P name n of Inl _ \<Rightarrow> [] | Inr h \<Rightarrow> h)"

definition tarEntry :: "'x fixture_prims_scheme \<Rightarrow> string \<times> bytes \<Rightarrow> bytes" where
  "tarEntry P e = hdrText P (fst e) (int (length (snd e))) @ snd e @ zeros ((- int (length (snd e))) mod 512)"

definition entries :: "'x fixture_prims_scheme \<Rightarrow> (string \<times> bytes) list \<Rightarrow> bytes" where
  "entries P es = concat (map (tarEntry P) es)"

definition tarText :: "'x fixture_prims_scheme \<Rightarrow> (string \<times> bytes) list \<Rightarrow> bytes" where
  "tarText P es = entries P es @ zeros 1024"

definition headers_fit :: "'x fixture_prims_scheme \<Rightarrow> bool" where
  "headers_fit P \<longleftrightarrow> (\<forall>name n. \<not> isl (tarHdr P name n))"

lemma entries_simps [simp]: "entries P [] = []" "entries P (es @ [e]) = entries P es @ tarEntry P e" "entries P (e # es) = tarEntry P e @ entries P es"
  "entries P (es @ fs) = entries P es @ entries P fs"
  by (simp_all add: entries_def)

text \<open>A header opens an entry; its data, written in full, closes it.\<close>

definition opened :: "tar_writer \<Rightarrow> int \<Rightarrow> tar_writer" where
  "opened tw sz = tw\<lparr>twLeft := sz, twPad := (- sz) mod 512\<rparr>"

lemma twWriteHeader_t:
  assumes "G \<Longrightarrow> headers_fit P"
  shows "triple (tar_at p w0 c tw) (twWriteHeader P E tw name sz)
    (\<lambda>tw' w. tw' = opened tw sz \<and> twFile tw = p \<and> file_at p w0 (c @ hdrText P name sz) w) (blame E G)"
  unfolding twWriteHeader_def
proof (rule triple_then [OF twFlush_t], rule triple_pure)
  assume p: "twFile tw = p"
  show "triple (file_at p w0 c) (bindM (liftR (tarHdr P name sz)) (\<lambda>h. bindM (fWrite E (twFile (tw\<lparr>twPad := 0\<rparr>)) h)
       (\<lambda>_. ret (tw\<lparr>twPad := 0, twLeft := sz, twPad := - sz mod 512\<rparr>))))
     (\<lambda>tw' w. tw' = opened tw sz \<and> twFile tw = p \<and> file_at p w0 (c @ hdrText P name sz) w) (blame E G)"
  proof (cases "tarHdr P name sz")
    case (Inl e)
    then have "\<not> headers_fit P" unfolding headers_fit_def by (metis sum.disc(1))
    moreover have eq: "liftR (tarHdr P name sz) = throw e" by (rule ext) (simp add: Inl liftR_def throw_def)
    ultimately show ?thesis unfolding eq bindM_throw using assms by (intro triple_throw) (auto simp: blame_def)
  next
    case (Inr h)
    have eq: "liftR (tarHdr P name sz) = ret h" by (rule ext) (simp add: Inr liftR_def ret_def)
    show ?thesis unfolding eq bindM_ret using p Inr
      by (simp, intro triple_bind [OF fWrite_t] triple_ret) (simp add: hdrText_def opened_def)
  qed
qed

lemma entry_closed:
  "twFile tw = p \<Longrightarrow> file_at p w0 ((c @ hdrText P name (int (length b))) @ b) w \<Longrightarrow>
   tar_at p w0 (c @ tarEntry P (name, b)) ((opened tw (int (length b)))\<lparr>twLeft := 0\<rparr>) w"
  by (auto simp: tar_at_def opened_def tarEntry_def)

lemma entry_t:
  assumes "G \<Longrightarrow> headers_fit P"
    and data: "\<And>a. twFile tw = p \<Longrightarrow> triple (file_at p w0 a) (f (opened tw (int (length b))))
      (\<lambda>tw' w. tw' = (opened tw (int (length b)))\<lparr>twLeft := 0\<rparr> \<and> file_at p w0 (a @ b) w) (blame E G)"
  shows "triple (tar_at p w0 c tw) (bindM (twWriteHeader P E tw name (int (length b))) f) (tar_at p w0 (c @ tarEntry P (name, b))) (blame E G)"
  by (rule triple_then [OF twWriteHeader_t [OF assms(1)]], assumption, rule triple_pure, rule triple_conseq [OF data])
     (auto intro: entry_closed)

lemma tarBytes_t:
  assumes "G \<Longrightarrow> headers_fit P"
  shows "triple (tar_at p w0 c tw) (tarBytes P E tw name b) (tar_at p w0 (c @ tarEntry P (name, b))) (blame E G)"
  unfolding tarBytes_def
proof (rule entry_t [OF assms])
  fix a assume "twFile tw = p"
  then show "triple (file_at p w0 a) (twWrite E (opened tw (int (length b))) b)
      (\<lambda>tw' w. tw' = (opened tw (int (length b)))\<lparr>twLeft := 0\<rparr> \<and> file_at p w0 (a @ b) w) (blame E G)"
    using twWrite_t [of "opened tw (int (length b))" p b w0 a E G] by (simp add: opened_def)
qed assumption

lemma twClose_t: "triple (tar_at p w0 c tw) (twClose E tw) (\<lambda>_. file_at p w0 (c @ zeros 1024)) (blame E G)"
proof -
  have "zeros 512 @ zeros 512 = zeros 1024" by (simp add: zeros_def flip: replicate_add)
  then have eq: "c @ zeros 1024 = (c @ zeros 512) @ zeros 512" by simp
  show ?thesis unfolding twClose_def eq
    by (rule triple_then [OF twFlush_t], rule triple_pure) (simp del: append_assoc, rule triple_bind [OF fWrite_t], rule fWrite_t)
qed

lemma file_at_cong: "lookup w' = lookup w \<Longrightarrow> file_at p w0 b w' = file_at p w0 b w"
  unfolding file_at_def only_at_def by simp

lemma tar_at_cong:
  assumes "lookup w' = lookup w"
  shows "tar_at p w0 c tw w' = tar_at p w0 c tw w"
  unfolding tar_at_def file_at_cong [OF assms] ..

text \<open>Operations that leave the tree alone keep what depends on the tree only.\<close>

lemma osStat_t:
  assumes "\<And>w w'. lookup w' = lookup w \<Longrightarrow> I w' = I w" and "\<And>w. I w \<Longrightarrow> lookup w q = Some n"
  shows "triple I (osStat E q) (\<lambda>x w. x = n \<and> I w) (blame E G)"
proof (rule tripleI)
  fix w x w' assume I: "I w" and run: "osStat E q w = (Inr x, w')"
  have "lookup w' = lookup w" using run by (auto simp: osStat_def prim_def Let_def fun_eq_iff split: if_splits option.splits)
  from assms(1) [OF this] show "x = n \<and> I w'" using I assms(2) [OF I] run by (auto simp: osStat_def prim_def Let_def split: if_splits option.splits)
next
  fix w e w' assume "I w" "osStat E q w = (Inl e, w')"
  then show "blame E G e w'" using assms(2) [of w] by (auto simp: osStat_def prim_def Let_def blame_def calm_def split: if_splits)
qed

definition fully_read :: "env \<Rightarrow> bytes \<Rightarrow> bytes \<times> error option \<Rightarrow> bool" where
  "fully_read E b r \<longleftrightarrow> length (fst r) \<le> length b \<and> (case snd r of None \<Rightarrow> fst r = b | Some _ \<Rightarrow> \<not> calm E)"

lemma readRest_t:
  assumes "\<And>w w'. lookup w' = lookup w \<Longrightarrow> I w' = I w"
  shows "triple I (readRest E (FileN b m)) (\<lambda>r w. fully_read E b r \<and> I w) (blame E G)"
proof (rule tripleI)
  fix w x w' assume I: "I w" and run: "readRest E (FileN b m) w = (Inr x, w')"
  have "lookup w' = lookup w" using run by (auto simp: readRest_def Let_def fun_eq_iff split: if_splits)
  from assms [OF this] show "fully_read E b x \<and> I w'" using I run by (auto simp: readRest_def Let_def fully_read_def calm_def split: if_splits)
qed (simp add: readRest_def Let_def split: if_splits)

lemma tarFile_data:
  assumes "twFile tw = p" "int (length b) = twLeft tw"
  shows "triple (file_at p w0 a) (bindM (readRest E (FileN b m)) (\<lambda>(b, e). bindM (twWrite E tw b)
      (\<lambda>tw2. case e of Some err \<Rightarrow> throw err | None \<Rightarrow> ret tw2)))
    (\<lambda>tw' w. tw' = tw\<lparr>twLeft := 0\<rparr> \<and> file_at p w0 (a @ b) w) (blame E G)"
proof (rule triple_bind [OF readRest_t [OF file_at_cong]], assumption, rule triple_pure, clarify)
  fix b' e assume r: "fully_read E b (b', e)"
  show "triple (file_at p w0 a) (bindM (twWrite E tw b') (\<lambda>tw2. case e of Some err \<Rightarrow> throw err | None \<Rightarrow> ret tw2))
     (\<lambda>tw' w. tw' = tw\<lparr>twLeft := 0\<rparr> \<and> file_at p w0 (a @ b) w) (blame E G)"
  proof (rule triple_then [OF twWrite_t [OF assms(1)]])
    show "int (length b') \<le> twLeft tw" using r assms(2) by (simp add: fully_read_def)
    show "triple (file_at p w0 (a @ b')) (case e of Some err \<Rightarrow> throw err | None \<Rightarrow> ret (tw\<lparr>twLeft := twLeft tw - int (length b')\<rparr>))
       (\<lambda>tw' w. tw' = tw\<lparr>twLeft := 0\<rparr> \<and> file_at p w0 (a @ b) w) (blame E G)"
      using r assms(2) by (cases e) (auto intro!: triple_ret triple_throw simp: fully_read_def blame_def)
  qed
qed

lemma tarFile_t:
  assumes "G \<Longrightarrow> headers_fit P" and "q \<noteq> p" "lookup w0 q = Some (FileN b m)"
  shows "triple (tar_at p w0 c tw) (tarFile P E tw name q) (tar_at p w0 (c @ tarEntry P (name, b))) (blame E G)"
proof -
  have q: "lookup w q = Some (FileN b m)" if "tar_at p w0 c tw w" for w
    using that assms(2,3) by (auto simp: tar_at_def file_at_def only_at_def)
  note stat = osStat_t [where I = "tar_at p w0 c tw", OF tar_at_cong q]
  show ?thesis unfolding tarFile_def
  proof (rule triple_then [OF stat], assumption, assumption, rule triple_then [OF stat], assumption, assumption, unfold nodeSize.simps,
      rule entry_t [OF assms(1)], assumption)
    fix a assume tw: "twFile tw = p"
    show "triple (file_at p w0 a) (bindM (readRest E (FileN b m)) (\<lambda>(b', e). bindM (twWrite E (opened tw (int (length b))) b')
        (\<lambda>tw2. case e of Some err \<Rightarrow> throw err | None \<Rightarrow> ret tw2)))
      (\<lambda>tw' w. tw' = (opened tw (int (length b)))\<lparr>twLeft := 0\<rparr> \<and> file_at p w0 (a @ b) w) (blame E G)"
      by (rule tarFile_data) (use tw in \<open>simp_all add: opened_def\<close>)
  qed
qed

text \<open>Creating an archive: the body between the creation and the close of the file.\<close>

lemma archive_t:
  assumes "p \<noteq> []" "G \<Longrightarrow> lookup w0 p \<noteq> Some DirN \<and> lookup w0 (butlast p) = Some DirN"
    and body: "triple (tar_at p w0 [] (tarNewWriter p)) body (\<lambda>x w. Q x \<and> file_at p w0 b w) (blame E G)"
  shows "triple (\<lambda>w. lookup w = lookup w0) (bindM (osCreate E p) (\<lambda>_. deferM (fClose E p) body)) (\<lambda>x w. Q x \<and> file_at p w0 b w) (blame E G)"
proof (rule triple_bind [OF osCreate_t [OF assms(1,2)]], assumption, rule triple_defer)
  show "triple (file_at p w0 []) body (\<lambda>x w. Q x \<and> file_at p w0 b w) (blame E G)"
    by (rule triple_conseq [OF body]) (auto intro: tar_new)
  fix x w assume "Q x \<and> file_at p w0 b w"
  moreover have "lookup (snd (fClose E p w)) = lookup w" by (simp add: fClose_def prim_def Let_def fun_eq_iff)
  ultimately show "Q x \<and> file_at p w0 b (snd (fClose E p w))" using file_at_cong by blast
qed (simp add: blame_def)

lemma writeFixtureLayer_t:
  assumes "p \<noteq> []" "0 < sz" "0 \<le> ins"
    and G: "G \<Longrightarrow> headers_fit P \<and> lookup w0 p \<noteq> Some DirN \<and> lookup w0 (butlast p) = Some DirN"
  shows "triple (\<lambda>w. lookup w = lookup w0) (writeFixtureLayer P E p name sz seed patch ins)
    (\<lambda>_. file_at p w0 (tarText P [(name, fixtureLayer sz seed patch ins)])) (blame E G)"
proof -
  let ?b = "fixtureLayer sz seed patch ins"
  have len: "sz + ins = int (length ?b)"
    using assms(2,3) by (auto simp: fixtureLayer_def Let_def nat_add_distrib min_def)
  have rest: "layerRest sz patch ins seed 0 False = ?b" using assms(2) by (simp add: layerRest_def fixtureLayer_def Let_def)
  have loop: "triple (file_at p w0 a) (layerLoop E sz patch ins seed 0 False (opened tw (int (length ?b))))
      (\<lambda>tw' w. tw' = (opened tw (int (length ?b)))\<lparr>twLeft := 0\<rparr> \<and> file_at p w0 (a @ ?b) w) (blame E G)" if "twFile tw = p" for tw a
  proof -
    have "twFile (opened tw (int (length ?b))) = p"
      "twLeft (opened tw (int (length ?b))) = sz - 0 + (if \<not> False \<and> 0 < ins \<and> 0 < sz then ins else 0)"
      using that assms(2,3) unfolding len [symmetric] by (auto simp: opened_def)
    from layerLoop_t [OF this(1) assms(3) _ _ this(2), of w0 a E patch seed G] show ?thesis using assms(2) unfolding rest by simp
  qed
  have "triple (tar_at p w0 [] (tarNewWriter p))
      (bindM (bindM (twWriteHeader P E (tarNewWriter p) name (int (length ?b))) (layerLoop E sz patch ins seed 0 False)) (\<lambda>tw'.
       bindM (twClose E tw') (\<lambda>_. fClose E p))) (\<lambda>_. file_at p w0 (([] @ tarEntry P (name, ?b)) @ zeros 1024)) (blame E G)"
    by (rule triple_bind [OF entry_t], use G in blast, erule loop, rule triple_bind [OF twClose_t], rule fClose_t)
  then have "triple (\<lambda>w. lookup w = lookup w0) (writeFixtureLayer P E p name sz seed patch ins)
      (\<lambda>_ w. True \<and> file_at p w0 (tarText P [(name, ?b)]) w) (blame E G)"
    unfolding writeFixtureLayer_def len using G assms(1) by (intro archive_t) (simp_all add: bindM_assoc tarText_def)
  then show ?thesis by simp
qed

section \<open>Images\<close>

text \<open>The layers of an image as files, and what is said of them.\<close>

definition holds :: "world \<Rightarrow> path list \<Rightarrow> bytes list \<Rightarrow> bool" where
  "holds w ps bs \<longleftrightarrow> list_all2 (\<lambda>p b. file_bytes w p = Some b) ps bs"

lemma file_bytes_iff: "file_bytes w p = Some b \<longleftrightarrow> (\<exists>m. lookup w p = Some (FileN b m))"
  by (auto simp: file_bytes_def split: option.splits node.splits)

lemma tarLayers_t:
  assumes "G \<Longrightarrow> headers_fit P" and "holds w0 (map snd nps) bs" "p \<notin> snd ` set nps"
  shows "triple (tar_at p w0 c tw) (tarLayers P E tw nps) (tar_at p w0 (c @ entries P (zip (map fst nps) bs))) (blame E G)"
  using assms(2,3)
proof (induction nps arbitrary: bs c tw)
  case (Cons np nps)
  obtain n q where np: "np = (n, q)" by (rule prod.exhaust)
  with Cons.prems obtain b bs' m where bs: "bs = b # bs'" "lookup w0 q = Some (FileN b m)" "holds w0 (map snd nps) bs'"
    by (auto simp: holds_def list_all2_Cons1 file_bytes_iff)
  have "q \<noteq> p" "p \<notin> snd ` set nps" using Cons.prems(2) np by auto
  from triple_bind [OF tarFile_t [OF assms(1) this(1) bs(2)] Cons.IH [OF bs(3) this(2)]]
  show ?case by (simp add: np bs(1))
qed (auto intro: triple_ret simp: holds_def)

definition layerInfoOf :: "'x fixture_prims_scheme \<Rightarrow> bytes \<Rightarrow> layer_info" where
  "layerInfoOf P b = \<lparr>liSHA256 = Hash b, liRawBytes = int (length b), liGzipBytes = int (length (gzipDefault P b))\<rparr>"

lemma openRead_run:
  assumes "openRead E p w = (r, w')" and "file_bytes w p = Some b"
  shows "lookup w' = lookup w \<and> (r = Inr (b, None) \<or> (\<exists>b' e. r = Inr (b', Some e) \<and> \<not> calm E) \<or> (\<exists>e. r = Inl e \<and> \<not> calm E))"
  using assms by (auto simp: openRead_def file_bytes_iff bindM_def osStat_def prim_def Let_def calm_def fun_eq_iff split: if_splits)

lemma layerInfo_run:
  assumes "layerInfo P E p w = (r, w')" and "file_bytes w p = Some b"
  shows "lookup w' = lookup w \<and> (\<forall>i. r = Inr i \<longrightarrow> i = layerInfoOf P b) \<and> (\<forall>e. r = Inl e \<longrightarrow> \<not> calm E)"
proof -
  obtain x w1 where x: "openRead E p w = (x, w1)" by (rule prod.exhaust)
  obtain y w2 where y: "openRead E p w1 = (y, w2)" by (rule prod.exhaust)
  note a = openRead_run [OF x assms(2)]
  then have "file_bytes w1 p = Some b" using assms(2) by (simp add: file_bytes_def)
  note c = openRead_run [OF y this]
  show ?thesis using assms(1) x y a c
    by (auto simp: layerInfo_def FileHash_def bindM_def attemptM_def sm_run layerInfoOf_def countWrite_def)
qed

lemma layerInfo_t:
  assumes "file_bytes w0 p = Some b"
  shows "triple (\<lambda>w. lookup w = lookup w0) (layerInfo P E p) (\<lambda>i w. i = layerInfoOf P b \<and> lookup w = lookup w0) (blame E G)"
proof -
  have "file_bytes w p = Some b" if "lookup w = lookup w0" for w using assms that by (simp add: file_bytes_def)
  then show ?thesis by (intro tripleI) (auto simp: blame_def dest: layerInfo_run)
qed

lemma layerInfos_t:
  assumes "holds w0 ps bs"
  shows "triple (\<lambda>w. lookup w = lookup w0) (layerInfos P E ps) (\<lambda>is w. is = map (layerInfoOf P) bs \<and> lookup w = lookup w0) (blame E G)"
  using assms
proof (induction ps arbitrary: bs)
  case (Cons p ps)
  then obtain b bs' where bs: "bs = b # bs'" "file_bytes w0 p = Some b" "holds w0 ps bs'"
    by (auto simp: holds_def list_all2_Cons1)
  show ?case unfolding layerInfos.simps
    by (rule triple_then [OF layerInfo_t [OF bs(2)]], rule triple_then [OF Cons.IH [OF bs(3)]], rule triple_ret) (simp add: bs(1))
qed (auto intro: triple_ret simp: holds_def)

text \<open>The entries and the description of an image with these layers.\<close>

definition imageConfig :: "'x fixture_prims_scheme \<Rightarrow> bytes list \<Rightarrow> bytes" where
  "imageConfig P bs = jsonImageConfig P (map (\<lambda>b. ''sha256:'' @ Hash b) bs)"

definition layerNames :: "bytes list \<Rightarrow> string list" where
  "layerNames bs = map (\<lambda>b. Hash b @ ''/layer.tar'') bs"

definition imageEntries :: "'x fixture_prims_scheme \<Rightarrow> string \<Rightarrow> bytes list \<Rightarrow> (string \<times> bytes) list" where
  "imageEntries P tag bs =
     (let c = imageConfig P bs in
      zip (layerNames bs) bs @ [(Hash c @ ''.json'', c), (''manifest.json'', jsonSaveManifest P (Hash c @ ''.json'') tag (layerNames bs))])"

definition imageInfo :: "'x fixture_prims_scheme \<Rightarrow> path \<Rightarrow> string \<Rightarrow> bytes list \<Rightarrow> fixture_info" where
  "imageInfo P out tag bs = \<lparr>fiFile = out, fiTag = tag, fiImageID = ''sha256:'' @ Hash (imageConfig P bs),
     fiLayers = map (layerInfoOf P) bs, fiArtifactBytes = int (length (tarText P (imageEntries P tag bs))), fiChanged = 0\<rparr>"

lemma info_of_layers:
  "map layerName (map (layerInfoOf P) bs) = layerNames bs"
  "jsonImageConfig P (map (\<lambda>i. ''sha256:'' @ liSHA256 i) (map (layerInfoOf P) bs)) = imageConfig P bs"
  by (simp_all add: layerName_def layerInfoOf_def imageConfig_def layerNames_def comp_def)

lemma sized_t:
  "triple (file_at p w0 b) (osStat E p) (\<lambda>st w. nodeSize st = int (length b) \<and> file_at p w0 b w) (blame E G)"
proof (rule triple_pre)
  fix w assume f: "file_at p w0 b w"
  then obtain m where m: "lookup w p = Some (FileN b m)" by (auto simp: file_at_def)
  have "triple (\<lambda>v. lookup v = lookup w) (osStat E p) (\<lambda>x v. x = FileN b m \<and> lookup v = lookup w) (blame E G)"
    by (rule osStat_t) (simp_all add: m)
  then show "triple (\<lambda>s. s = w) (osStat E p) (\<lambda>st w. nodeSize st = int (length b) \<and> file_at p w0 b w) (blame E G)"
    by (rule triple_conseq) (auto intro: iffD2 [OF file_at_cong f])
qed

lemma makeFixtureArchive_t:
  assumes "out \<noteq> []" "holds w0 layers bs" "out \<notin> set layers"
    and G: "G \<Longrightarrow> headers_fit P \<and> lookup w0 out \<noteq> Some DirN \<and> lookup w0 (butlast out) = Some DirN"
  shows "triple (\<lambda>w. lookup w = lookup w0) (makeFixtureArchive P E out tag layers)
    (\<lambda>x w. x = imageInfo P out tag bs \<and> file_at out w0 (tarText P (imageEntries P tag bs)) w) (blame E G)"
proof -
  let ?c = "imageConfig P bs" and ?json = "Hash (imageConfig P bs) @ ''.json''" and ?text = "tarText P (imageEntries P tag bs)"
  have len: "length (layerNames bs) = length layers" using assms(2) by (simp add: holds_def layerNames_def list_all2_lengthD)
  have layers: "triple (tar_at out w0 [] (tarNewWriter out)) (tarLayers P E (tarNewWriter out) (zip (layerNames bs) layers))
      (tar_at out w0 ([] @ entries P (zip (layerNames bs) bs))) (blame E G)"
  proof -
    have "out \<notin> snd ` set (zip (layerNames bs) layers)" using assms(3) by (auto dest: set_zip_rightD)
    then show ?thesis using tarLayers_t [of G P w0 "zip (layerNames bs) layers" bs out "[]" "tarNewWriter out" E] assms(2) G len by simp
  qed
  have whole: "?text = (((([] @ entries P (zip (layerNames bs) bs)) @ tarEntry P (?json, ?c))
      @ tarEntry P (''manifest.json'', jsonSaveManifest P ?json tag (layerNames bs))) @ zeros 1024)"
    by (simp add: tarText_def imageEntries_def Let_def)
  show ?thesis
    unfolding makeFixtureArchive_def
  proof (rule triple_then [OF layerInfos_t [OF assms(2)]], unfold Let_def info_of_layers, rule archive_t [OF assms(1)], use G in blast)
    show "triple (tar_at out w0 [] (tarNewWriter out))
       (bindM (tarLayers P E (tarNewWriter out) (zip (layerNames bs) layers)) (\<lambda>tw.
        bindM (tarBytes P E tw ?json ?c) (\<lambda>tw1.
        bindM (tarBytes P E tw1 ''manifest.json'' (jsonSaveManifest P ?json tag (layerNames bs))) (\<lambda>tw2.
        bindM (twClose E tw2) (\<lambda>_. bindM (fClose E out) (\<lambda>_. bindM (osStat E out) (\<lambda>st.
        ret \<lparr>fiFile = out, fiTag = tag, fiImageID = ''sha256:'' @ Hash ?c, fiLayers = map (layerInfoOf P) bs, fiArtifactBytes = nodeSize st, fiChanged = 0\<rparr>)))))))
       (\<lambda>x w. x = imageInfo P out tag bs \<and> file_at out w0 ?text w) (blame E G)"
      by (rule triple_bind [OF layers], (rule triple_bind [OF tarBytes_t], use G in blast)+, rule triple_bind [OF twClose_t],
          fold whole, rule triple_bind [OF fClose_t], rule triple_bind [OF sized_t], rule triple_ret) (simp add: imageInfo_def)
  qed
qed

section \<open>The generator\<close>

definition layerFile :: "'x fixture_prims_scheme \<Rightarrow> int \<Rightarrow> variant \<Rightarrow> bytes" where
  "layerFile P sz v = tarText P [(''app.blob'', fixtureLayer sz (vrSeed v) (vrPatch v) (vrInsert v))]"

definition fixtureTag :: "variant \<Rightarrow> string" where
  "fixtureTag v = ''edge-delta-lab/'' @ vrName v @ '':fixture''"

definition fixtureArchive :: "'x fixture_prims_scheme \<Rightarrow> bytes \<Rightarrow> int \<Rightarrow> variant \<Rightarrow> bytes" where
  "fixtureArchive P base sz v = tarText P (imageEntries P (fixtureTag v) [base, layerFile P sz v])"

definition fixtureEntry :: "'x fixture_prims_scheme \<Rightarrow> path \<Rightarrow> bytes \<Rightarrow> int \<Rightarrow> variant \<Rightarrow> string \<times> fixture_info" where
  "fixtureEntry P dir base sz v = (vrName v,
     (imageInfo P (dir @ [tarName v]) (fixtureTag v) [base, layerFile P sz v])\<lparr>fiChanged := vrPatch v + vrInsert v\<rparr>)"

text \<open>The files written for these variants, and the tree once their images are there and nothing else has changed.\<close>

definition outputs :: "path \<Rightarrow> path \<Rightarrow> variant list \<Rightarrow> path \<Rightarrow> bool" where
  "outputs dir work vs q \<longleftrightarrow> (\<exists>v \<in> set vs. q = work @ [tarName v] \<or> q = dir @ [tarName v])"

definition images_at :: "'x fixture_prims_scheme \<Rightarrow> path \<Rightarrow> path \<Rightarrow> bytes \<Rightarrow> int \<Rightarrow> world \<Rightarrow> variant list \<Rightarrow> world \<Rightarrow> bool" where
  "images_at P dir work base sz w0 vs w \<longleftrightarrow> only_at (outputs dir work vs) w0 w
     \<and> (\<forall>v \<in> set vs. file_bytes w (dir @ [tarName v]) = Some (fixtureArchive P base sz v))"

lemma triple_at:
  assumes "\<And>w1. Pre w1 \<Longrightarrow> triple (\<lambda>w. lookup w = lookup w1) m Q X"
  shows "triple Pre m Q X"
  by (rule triple_pre, rule triple_conseq [OF assms]) simp_all

lemma images_step:
  assumes "images_at P dir work base sz w0 vs w1" and "file_at (work @ [tarName v]) w1 l w2"
    and "file_at (dir @ [tarName v]) w2 (fixtureArchive P base sz v) w3" and "tarName v \<notin> set (map tarName vs)" "work = dir @ [n]"
  shows "images_at P dir work base sz w0 (vs @ [v]) w3"
proof -
  have "dir @ [tarName u] \<noteq> dir @ [tarName v]" "dir @ [tarName u] \<noteq> work @ [tarName v]" if "u \<in> set vs" for u
  proof -
    have "tarName u \<noteq> tarName v" using that assms(4) by (metis imageI list.set_map)
    then show "dir @ [tarName u] \<noteq> dir @ [tarName v]" "dir @ [tarName u] \<noteq> work @ [tarName v]" using assms(5) by auto
  qed
  then show ?thesis using assms(1-3) by (auto simp: images_at_def file_at_def only_at_def outputs_def file_bytes_def)
qed

text \<open>The image of one variant, from the tree after the ones before it.\<close>

lemma variant_t:
  assumes w1: "images_at P dir work base sz w0 vs w1" and "0 < sz" "0 \<le> vrInsert v" "work = dir @ [n]"
    and names: "tarName v \<notin> set (map tarName vs)" "''base.tar'' \<notin> set (map tarName (vs @ [v]))"
    and "file_bytes w0 (work @ [''base.tar'']) = Some base"
    and G: "G \<Longrightarrow> headers_fit P \<and> lookup w0 dir = Some DirN \<and> lookup w0 work = Some DirN \<and> n \<notin> set (map tarName (vs @ [v]))
      \<and> lookup w0 (work @ [tarName v]) \<noteq> Some DirN \<and> lookup w0 (dir @ [tarName v]) \<noteq> Some DirN"
    and rest: "triple (images_at P dir work base sz w0 (vs @ [v])) (f (imageInfo P (dir @ [tarName v]) (fixtureTag v) [base, layerFile P sz v])) Q (blame E G)"
  shows "triple (\<lambda>w. lookup w = lookup w1)
    (bindM (writeFixtureLayer P E (work @ [tarName v]) ''app.blob'' sz (vrSeed v) (vrPatch v) (vrInsert v)) (\<lambda>_.
     bindM (makeFixtureArchive P E (dir @ [tarName v]) (fixtureTag v) [work @ [''base.tar''], work @ [tarName v]]) f)) Q (blame E G)"
proof -
  let ?l = "work @ [tarName v]" and ?o = "dir @ [tarName v]" and ?b = "work @ [''base.tar'']"
  have keep: "lookup w1 q = lookup w0 q" if "\<not> outputs dir work vs q" for q using w1 that by (auto simp: images_at_def only_at_def)
  have out: "\<not> outputs dir work vs q" if "q \<in> {?l, ?o, ?b, dir}" for q
    using that assms(4) names by (auto simp: outputs_def)
  have work: "lookup w1 work = lookup w0 work" if G
    using G [OF that] assms(4) by (intro keep) (auto simp: outputs_def)
  have neq: "?l \<noteq> ?o" "?b \<noteq> ?l" "?b \<noteq> ?o" "?l \<noteq> dir" using assms(4) names(2) by auto
  show ?thesis
  proof (rule triple_bind [OF writeFixtureLayer_t], goal_cases)
    case 4
    then show ?case using G keep out work by simp
  next
    case (5 u)
    show ?case
    proof (rule triple_at)
      fix w2 assume w2: "file_at ?l w1 (tarText P [(''app.blob'', fixtureLayer sz (vrSeed v) (vrPatch v) (vrInsert v))]) w2"
      then have "holds w2 [?b, ?l] [base, layerFile P sz v]"
        using keep [OF out, of ?b] assms(7) neq by (auto simp: holds_def file_at_def only_at_def file_bytes_iff layerFile_def)
      moreover have "G \<Longrightarrow> headers_fit P \<and> lookup w2 ?o \<noteq> Some DirN \<and> lookup w2 (butlast ?o) = Some DirN"
        using w2 G keep out neq by (auto simp: file_at_def only_at_def)
      moreover have "triple (file_at ?o w2 (fixtureArchive P base sz v)) (f (imageInfo P ?o (fixtureTag v) [base, layerFile P sz v])) Q (blame E G)"
        by (rule triple_conseq [OF rest]) (rule images_step [OF w1 w2 _ names(1) assms(4)])
      ultimately show "triple (\<lambda>w. lookup w = lookup w2) (bindM (makeFixtureArchive P E ?o (fixtureTag v) [?b, ?l]) f) Q (blame E G)"
        using neq unfolding fixtureArchive_def by (intro triple_then [OF makeFixtureArchive_t]) auto
    qed
  qed (use assms in auto)
qed

lemma fixtureImages_t:
  assumes "0 < sz" "work = dir @ [n]" "file_bytes w0 (work @ [''base.tar'']) = Some base"
    and "\<forall>v \<in> set vs. 0 \<le> vrInsert v" "distinct (map tarName (pre @ vs))" "''base.tar'' \<notin> set (map tarName (pre @ vs))"
    and G: "G \<Longrightarrow> headers_fit P \<and> lookup w0 dir = Some DirN \<and> lookup w0 work = Some DirN \<and> n \<notin> set (map tarName (pre @ vs))
      \<and> (\<forall>q. outputs dir work (pre @ vs) q \<longrightarrow> lookup w0 q \<noteq> Some DirN)"
  shows "triple (images_at P dir work base sz w0 pre) (fixtureImages P E dir work sz vs)
    (\<lambda>x w. x = map (fixtureEntry P dir base sz) vs \<and> images_at P dir work base sz w0 (pre @ vs) w) (blame E G)"
  using assms(4-)
proof (induction vs arbitrary: pre)
  case Nil
  then show ?case by (auto intro: triple_ret)
next
  case (Cons v vs)
  have IH: "triple (images_at P dir work base sz w0 (pre @ [v])) (fixtureImages P E dir work sz vs)
     (\<lambda>x w. x = map (fixtureEntry P dir base sz) vs \<and> images_at P dir work base sz w0 ((pre @ [v]) @ vs) w) (blame E G)"
    by (rule Cons.IH) (use Cons.prems in auto)
  show ?case unfolding fixtureImages.simps fixtureTag_def [symmetric]
    by (rule triple_at, rule variant_t [OF _ assms(1) _ assms(2) _ _ assms(3)], assumption)
       (use Cons.prems in \<open>auto simp: outputs_def fixtureEntry_def intro!: triple_then [OF IH] triple_ret\<close>)
qed

section \<open>The whole run\<close>

definition appBytes :: "int \<Rightarrow> int" where
  "appBytes sizeMiB = sizeMiB * 2 ^ 20 - sizeMiB * 2 ^ 20 * 3 div 5"

definition baseLayer :: "'x fixture_prims_scheme \<Rightarrow> int \<Rightarrow> bytes" where
  "baseLayer P sizeMiB = tarText P [(''shared.blob'', fixtureLayer (sizeMiB * 2 ^ 20 * 3 div 5) 1 0 0)]"

definition patchBytes :: "int \<Rightarrow> int" where
  "patchBytes patchKiB = wrap64 (patchKiB * 2 ^ 10)"

definition infoFile :: "path \<Rightarrow> path" where
  "infoFile dir = dir @ [''fixture-info.json'']"

text \<open>A directory with nothing in it.\<close>

definition empty_dir :: "path \<Rightarrow> world \<Rightarrow> bool" where
  "empty_dir dir w \<longleftrightarrow> (\<forall>q. prefix q dir \<longrightarrow> lookup w q = Some DirN) \<and> (\<forall>q. strict_prefix dir q \<longrightarrow> lookup w q = None) \<and> fresh_temps w"

lemma layer_differs:
  assumes "0 < sz" "i < nat sz"
  shows "fixtureLayer sz seed patch 0 ! i \<noteq> fixtureLayer sz seed 0 0 ! i \<longleftrightarrow> sz div 2 \<le> int i \<and> int i < sz div 2 + patch"
  using assms by (simp add: fixtureLayer_def Let_def nth_patchBuf xor_changes)

text \<open>The part of the generator between the creation of the work directory and its removal.\<close>

definition fixtureBody :: "'x fixture_prims_scheme \<Rightarrow> env \<Rightarrow> path \<Rightarrow> path \<Rightarrow> int \<Rightarrow> int \<Rightarrow> (string \<times> fixture_info) list io" where
  "fixtureBody P E dir work sizeMiB patchKiB =
     bindM (guardM (\<not> patchBytes patchKiB > appBytes sizeMiB div 4) (Msg ''patch too large for this fixture'')) (\<lambda>_.
     bindM (writeFixtureLayer P E (work @ [''base.tar'']) ''shared.blob'' (sizeMiB * 2 ^ 20 * 3 div 5) 1 0 0) (\<lambda>_.
     bindM (fixtureImages P E dir work (appBytes sizeMiB) (fixtureVariants (patchBytes patchKiB))) (\<lambda>out.
     bindM (AtomicWrite E (infoFile dir) (jsonFixtures P out) 420) (\<lambda>_. ret out))))"

lemma Fixtures_alt:
  "Fixtures P E dir sizeMiB patchKiB =
     bindM (guardM (\<not> (sizeMiB < 2 \<or> sizeMiB > 8192 \<or> patchKiB < 1)) (Msg ''size-mib must be 2..8192 and patch-kib positive'')) (\<lambda>_.
     bindM (EnsureDir E dir) (\<lambda>_. bindM (osMkdirTempIn E dir ''.layers-'') (\<lambda>work.
     deferM (osRemoveAll work) (fixtureBody P E dir work sizeMiB patchKiB))))"
  by (simp add: Fixtures_def fixtureBody_def appBytes_def patchBytes_def infoFile_def Let_def)

lemma variant_names:
  "map tarName (fixtureVariants p) = [''app-a-v1.tar'', ''app-b-v1.tar'', ''app-a-v2.tar'', ''app-a-v3.tar'']"
  by (simp add: fixtureVariants_def tarName_def)

lemma outputs_iff:
  "outputs dir work (fixtureVariants p) q \<longleftrightarrow>
     (\<exists>n \<in> {''app-a-v1.tar'', ''app-b-v1.tar'', ''app-a-v2.tar'', ''app-a-v3.tar''}. q = work @ [n] \<or> q = dir @ [n])"
proof -
  have "outputs dir work vs q \<longleftrightarrow> (\<exists>n \<in> set (map tarName vs). q = work @ [n] \<or> q = dir @ [n])" for vs
    by (auto simp: outputs_def)
  then show ?thesis by (simp only: variant_names) simp
qed

lemma info_t:
  assumes "G \<Longrightarrow> open_path w1 (infoFile dir) \<and> fresh_temps w1"
  shows "triple (\<lambda>w. lookup w = lookup w1) (AtomicWrite E (infoFile dir) b 420)
    (\<lambda>_ w. file_bytes w (infoFile dir) = Some b \<and> (\<forall>q. q \<noteq> infoFile dir \<and> lookup w1 q \<noteq> None \<longrightarrow> lookup w q = lookup w1 q)) (blame E G)"
proof -
  have info: "\<not> is_temp (infoFile dir)" "infoFile dir \<noteq> []" by (simp_all add: is_temp_def isTempName_def infoFile_def)
  show ?thesis
  proof (rule tripleI)
    fix w x w' assume "lookup w = lookup w1" "AtomicWrite E (infoFile dir) b 420 w = (Inr x, w')"
    then show "file_bytes w' (infoFile dir) = Some b \<and> (\<forall>q. q \<noteq> infoFile dir \<and> lookup w1 q \<noteq> None \<longrightarrow> lookup w' q = lookup w1 q)"
      using AtomicWrite_run [OF info(2,1), of E b 420 w] by (auto simp: aw_effect_def file_bytes_def)
  next
    fix w e w' assume w: "lookup w = lookup w1" "AtomicWrite E (infoFile dir) b 420 w = (Inl e, w')"
    have "\<not> calm E" if "open_path w (infoFile dir)" "fresh_temps w"
      using AtomicWrite_live [OF _ that(1) info(1) that(2), of E b 420] w(2) by auto
    then show "blame E G e w'" using assms w(1) by (auto simp: blame_def open_path_def fresh_temps_def)
  qed
qed

text \<open>What a run leaves, against the tree \<open>w0\<close> with the empty work directory.\<close>

definition fixtures_at :: "'x fixture_prims_scheme \<Rightarrow> path \<Rightarrow> path \<Rightarrow> int \<Rightarrow> int \<Rightarrow> world \<Rightarrow> (string \<times> fixture_info) list \<Rightarrow> world \<Rightarrow> bool" where
  "fixtures_at P dir work sizeMiB patch w0 out w \<longleftrightarrow>
     out = map (fixtureEntry P dir (baseLayer P sizeMiB) (appBytes sizeMiB)) (fixtureVariants patch)
   \<and> (\<forall>v \<in> set (fixtureVariants patch). file_bytes w (dir @ [tarName v]) = Some (fixtureArchive P (baseLayer P sizeMiB) (appBytes sizeMiB) v))
   \<and> file_bytes w (infoFile dir) = Some (jsonFixtures P out)
   \<and> (\<forall>q. q \<noteq> work @ [''base.tar''] \<and> \<not> outputs dir work (fixtureVariants patch) q \<and> q \<noteq> infoFile dir \<and> lookup w0 q \<noteq> None
        \<longrightarrow> lookup w q = lookup w0 q)"

definition ready :: "path \<Rightarrow> path \<Rightarrow> int \<Rightarrow> world \<Rightarrow> bool" where
  "ready dir work patch w \<longleftrightarrow> (\<forall>q. prefix q dir \<longrightarrow> lookup w q = Some DirN) \<and> fresh_temps w \<and> lookup w work = Some DirN
    \<and> (\<forall>q. (q = work @ [''base.tar''] \<or> outputs dir work (fixtureVariants patch) q) \<or> q = infoFile dir \<longrightarrow> lookup w q = None)"

lemma fixtures_done:
  assumes "file_at (work @ [''base.tar'']) w0 (baseLayer P sizeMiB) w1" and "images_at P dir work (baseLayer P sizeMiB) (appBytes sizeMiB) w1 (fixtureVariants patch) w2"
    and "file_bytes w3 (infoFile dir) = Some (jsonFixtures P out)" "\<forall>q. q \<noteq> infoFile dir \<and> lookup w2 q \<noteq> None \<longrightarrow> lookup w3 q = lookup w2 q"
    and "out = map (fixtureEntry P dir (baseLayer P sizeMiB) (appBytes sizeMiB)) (fixtureVariants patch)"
  shows "fixtures_at P dir work sizeMiB patch w0 out w3"
proof -
  have "file_bytes w3 (dir @ [tarName v]) = Some (fixtureArchive P (baseLayer P sizeMiB) (appBytes sizeMiB) v)" if "v \<in> set (fixtureVariants patch)" for v
  proof -
    have "tarName v \<in> set (map tarName (fixtureVariants patch))" using that by simp
    then have "dir @ [tarName v] \<noteq> infoFile dir" unfolding variant_names by (auto simp: infoFile_def)
    then show ?thesis using assms(2,4) that by (auto simp: images_at_def file_bytes_iff)
  qed
  then show ?thesis using assms unfolding fixtures_at_def by (auto simp: file_at_def images_at_def only_at_def)
qed

lemma ready_info:
  assumes "ready dir work patch w0" and "work = dir @ [''.layers-'' @ s]" and "file_at (work @ [''base.tar'']) w0 base w1"
    and "images_at P dir work b sz w1 (fixtureVariants patch) w2"
  shows "open_path w2 (infoFile dir) \<and> fresh_temps w2"
proof -
  let ?Q = "\<lambda>q. q = work @ [''base.tar''] \<or> outputs dir work (fixtureVariants patch) q"
  have same: "lookup w2 q = lookup w0 q" if "\<not> ?Q q" for q using assms(3,4) that by (auto simp: file_at_def images_at_def only_at_def)
  have above: "lookup w2 q = Some DirN" if "prefix q dir" for q
  proof -
    have "lookup w0 q = Some DirN" "\<forall>q. ?Q q \<longrightarrow> lookup w0 q = None" using assms(1) that by (auto simp: ready_def)
    then have "\<not> ?Q q" by auto
    then show ?thesis using same \<open>lookup w0 q = Some DirN\<close> by simp
  qed
  have "\<not> ?Q (infoFile dir)" unfolding outputs_iff assms(2) by (simp add: infoFile_def)
  then have "lookup w2 (infoFile dir) = None" using same [of "infoFile dir"] assms(1) by (simp add: ready_def)
  moreover have "prefix q dir" if "strict_prefix q (infoFile dir)" for q
    using that by (auto simp: infoFile_def strict_prefix_def)
  ultimately have "open_path w2 (infoFile dir)" using above by (auto simp: open_path_def infoFile_def)
  moreover have "\<not> ?Q (d @ [tmpPrefix @ t])" for d t unfolding outputs_iff by (simp add: tmpPrefix_def)
  then have "fresh_temps w2" using same assms(1) by (simp add: fresh_temps_def ready_def)
  ultimately show ?thesis ..
qed

lemma fixtureBody_t:
  assumes "2 \<le> sizeMiB" "work = dir @ [''.layers-'' @ s]"
    and G: "G \<Longrightarrow> headers_fit P \<and> patchBytes patchKiB \<le> appBytes sizeMiB div 4 \<and> ready dir work (patchBytes patchKiB) w0"
  shows "triple (\<lambda>w. lookup w = lookup w0) (fixtureBody P E dir work sizeMiB patchKiB)
    (fixtures_at P dir work sizeMiB (patchBytes patchKiB) w0) (blame E G)"
proof -
  let ?vs = "fixtureVariants (patchBytes patchKiB)" and ?b = "work @ [''base.tar'']" and ?base = "baseLayer P sizeMiB" and ?app = "appBytes sizeMiB"
  have pos: "0 < sizeMiB * 2 ^ 20 * 3 div 5" "0 < ?app" using assms(1) by (auto simp: appBytes_def)
  have ins: "\<forall>v \<in> set ?vs. 0 \<le> vrInsert v" by (simp add: fixtureVariants_def)
  have names: "distinct (map tarName ?vs)" "''base.tar'' \<notin> set (map tarName ?vs)" "(''.layers-'' @ s) \<notin> set (map tarName ?vs)"
    unfolding variant_names by simp_all
  have work: "butlast ?b = work" "?b \<noteq> dir" "?b \<noteq> work" using assms(2) by (simp_all add: butlast_append)
  show ?thesis unfolding fixtureBody_def
  proof (rule triple_check, rule triple_bind [OF writeFixtureLayer_t [OF _ pos(1)]], goal_cases)
    case (4 _)
    show ?case
    proof (rule triple_at, fold baseLayer_def)
      fix w1 assume w1: "file_at ?b w0 ?base w1"
      have fb: "file_bytes w1 ?b = Some ?base" using w1 by (auto simp: file_at_def file_bytes_iff)
      have sure: "headers_fit P \<and> lookup w1 dir = Some DirN \<and> lookup w1 work = Some DirN \<and> (''.layers-'' @ s) \<notin> set (map tarName ([] @ ?vs))
        \<and> (\<forall>q. outputs dir work ([] @ ?vs) q \<longrightarrow> lookup w1 q \<noteq> Some DirN)" if G
      proof -
        have "lookup w1 q \<noteq> Some DirN" if "outputs dir work ?vs q" for q
          using w1 G [OF \<open>G\<close>] that by (cases "q = ?b") (auto simp: file_at_def only_at_def ready_def)
        then show ?thesis using G [OF that] w1 work names(3) by (auto simp: file_at_def only_at_def ready_def)
      qed
      show "triple (\<lambda>w. lookup w = lookup w1) (bindM (fixtureImages P E dir work ?app ?vs) (\<lambda>out.
          bindM (AtomicWrite E (infoFile dir) (jsonFixtures P out) 420) (\<lambda>_. ret out))) (fixtures_at P dir work sizeMiB (patchBytes patchKiB) w0) (blame E G)"
      proof (rule triple_then [OF triple_conseq [OF fixtureImages_t [OF pos(2) assms(2) fb ins, of "[]"]]])
        show "triple (images_at P dir work ?base ?app w1 ([] @ ?vs))
          (bindM (AtomicWrite E (infoFile dir) (jsonFixtures P (map (fixtureEntry P dir ?base ?app) ?vs)) 420) (\<lambda>_. ret (map (fixtureEntry P dir ?base ?app) ?vs)))
          (fixtures_at P dir work sizeMiB (patchBytes patchKiB) w0) (blame E G)"
        proof (rule triple_at)
          fix w2 assume "images_at P dir work ?base ?app w1 ([] @ ?vs) w2"
          then have w2: "images_at P dir work ?base ?app w1 ?vs w2" by simp
          have "open_path w2 (infoFile dir) \<and> fresh_temps w2" if G using ready_info [OF _ assms(2) w1 w2] G [OF that] by simp
          then show "triple (\<lambda>w. lookup w = lookup w2)
            (bindM (AtomicWrite E (infoFile dir) (jsonFixtures P (map (fixtureEntry P dir ?base ?app) ?vs)) 420) (\<lambda>_. ret (map (fixtureEntry P dir ?base ?app) ?vs)))
            (fixtures_at P dir work sizeMiB (patchBytes patchKiB) w0) (blame E G)"
            by (rule triple_bind [OF info_t]) (use fixtures_done [OF w1 w2] in \<open>auto intro!: triple_ret\<close>)
        qed
      qed (use names sure in \<open>auto simp: images_at_def only_at_def\<close>)
    qed
  qed (use G work in \<open>auto simp: blame_def ready_def\<close>)
qed

lemma osMkdirTempIn_t:
  assumes "G \<Longrightarrow> lookup w0 dir = Some DirN \<and> (\<forall>s. lookup w0 (dir @ [pre @ s]) = None)"
  shows "triple (\<lambda>w. lookup w = lookup w0) (osMkdirTempIn E dir pre)
    (\<lambda>p w. (\<exists>s. p = dir @ [pre @ s]) \<and> lookup w0 p = None \<and> lookup w = (lookup w0)(p \<mapsto> DirN)) (blame E G)"
  using assms by (intro tripleI) (auto simp: osMkdirTempIn_def prim_def Let_def calm_def blame_def fun_eq_iff split: if_splits)

text \<open>An empty directory, once the work directory is made, is ready.\<close>

lemma empty_ready:
  assumes "empty_dir dir w" and "lookup w2 = (lookup w)(dir @ [''.layers-'' @ s] \<mapsto> DirN)"
  shows "ready dir (dir @ [''.layers-'' @ s]) patch w2"
proof -
  let ?work = "dir @ [''.layers-'' @ s]"
  have "lookup w2 q = None" if "(q = ?work @ [''base.tar''] \<or> outputs dir ?work (fixtureVariants patch) q) \<or> q = infoFile dir" for q
  proof -
    have "strict_prefix dir q" "q \<noteq> ?work"
      using that unfolding outputs_iff by (auto simp: infoFile_def strict_prefix_def)
    then show ?thesis using assms by (auto simp: empty_dir_def)
  qed
  then show ?thesis using assms by (auto simp: ready_def empty_dir_def fresh_temps_def tmpPrefix_def)
qed

text \<open>After the work directory is removed.\<close>

definition left_at :: "'x fixture_prims_scheme \<Rightarrow> path \<Rightarrow> int \<Rightarrow> int \<Rightarrow> world \<Rightarrow> (string \<times> fixture_info) list \<Rightarrow> world \<Rightarrow> bool" where
  "left_at P dir sizeMiB patch w0 out w \<longleftrightarrow>
     out = map (fixtureEntry P dir (baseLayer P sizeMiB) (appBytes sizeMiB)) (fixtureVariants patch)
   \<and> (\<forall>v \<in> set (fixtureVariants patch). file_bytes w (dir @ [tarName v]) = Some (fixtureArchive P (baseLayer P sizeMiB) (appBytes sizeMiB) v))
   \<and> file_bytes w (infoFile dir) = Some (jsonFixtures P out)
   \<and> (\<exists>s. \<forall>q. prefix (dir @ [''.layers-'' @ s]) q \<longrightarrow> lookup w q = None)
   \<and> (\<forall>q. lookup w0 q \<noteq> None \<and> (\<forall>v \<in> set (fixtureVariants patch). q \<noteq> dir @ [tarName v]) \<and> q \<noteq> infoFile dir
        \<and> (\<forall>s. \<not> prefix (dir @ [''.layers-'' @ s]) q) \<longrightarrow> lookup w q = lookup w0 q)"

lemma fixtures_left:
  assumes "fixtures_at P dir work sizeMiB patch w2 out w3" and "work = dir @ [''.layers-'' @ s]"
    and "lookup w2 = (lookup w1)(work \<mapsto> DirN)" "mk_dirs dir w0 w1"
  shows "left_at P dir sizeMiB patch w0 out (snd (osRemoveAll work w3))"
proof -
  let ?w = "snd (osRemoveAll work w3)"
  have rm: "lookup ?w q = (if prefix work q then None else lookup w3 q)" for q using lookup_RemoveAll [of work w3 q] assms(2) by simp
  have kept: "file_bytes ?w (dir @ [n]) = file_bytes w3 (dir @ [n])" if "hd n \<noteq> CHR ''.''" for n
    using rm [of "dir @ [n]"] assms(2) that by (auto simp: file_bytes_def)
  have heads: "hd (tarName v) \<noteq> CHR ''.''" if "v \<in> set (fixtureVariants patch)" for v
    using that by (auto simp: fixtureVariants_def tarName_def)
  have info: "file_bytes ?w (infoFile dir) = file_bytes w3 (infoFile dir)" unfolding infoFile_def by (rule kept) simp
  have "lookup ?w q = lookup w0 q"
    if "lookup w0 q \<noteq> None" "\<forall>v \<in> set (fixtureVariants patch). q \<noteq> dir @ [tarName v]" "q \<noteq> infoFile dir" "\<forall>s. \<not> prefix (dir @ [''.layers-'' @ s]) q" for q
  proof -
    have no: "\<not> prefix work q" using that(4) assms(2) by simp
    then have "q \<noteq> work @ [''base.tar'']" "\<not> outputs dir work (fixtureVariants patch) q" "q \<noteq> work"
      using that(2) by (auto simp: outputs_def)
    moreover have "lookup w1 q = lookup w0 q" using assms(4) that(1) by (auto simp: mk_dirs_def)
    ultimately show ?thesis using assms(1,3) that(1,3) rm [of q] no by (simp add: fixtures_at_def)
  qed
  then show ?thesis using assms(1) kept [OF heads] info rm assms(2) unfolding left_at_def fixtures_at_def by auto
qed

lemma Fixtures_t:
  assumes G: "G \<Longrightarrow> headers_fit P \<and> empty_dir dir w0 \<and> 2 \<le> sizeMiB \<and> sizeMiB \<le> 8192 \<and> 1 \<le> patchKiB \<and> patchBytes patchKiB \<le> appBytes sizeMiB div 4"
  shows "triple (\<lambda>w. w = w0) (Fixtures P E dir sizeMiB patchKiB)
    (\<lambda>out w. 2 \<le> sizeMiB \<and> left_at P dir sizeMiB (patchBytes patchKiB) w0 out w) (blame E G)"
  unfolding Fixtures_alt
proof (rule triple_check)
  assume sz: "\<not> (sizeMiB < 2 \<or> sizeMiB > 8192 \<or> patchKiB < 1)"
  show "triple (\<lambda>w. w = w0) (bindM (EnsureDir E dir) (\<lambda>_. bindM (osMkdirTempIn E dir ''.layers-'') (\<lambda>work.
      deferM (osRemoveAll work) (fixtureBody P E dir work sizeMiB patchKiB))))
    (\<lambda>out w. 2 \<le> sizeMiB \<and> left_at P dir sizeMiB (patchBytes patchKiB) w0 out w) (blame E G)"
  proof (rule triple_bind)
    show "triple (\<lambda>w. w = w0) (EnsureDir E dir) (\<lambda>_. mk_dirs dir w0) (blame E G)"
    proof (rule tripleI)
      fix w e w' assume "w = w0" "EnsureDir E dir w = (Inl e, w')"
      then show "blame E G e w'" using EnsureDir_live [of E dir w0] G by (auto simp: blame_def empty_dir_def)
    qed (auto dest: stepsD [OF steps_EnsureDir])
    show "triple (mk_dirs dir w0) (bindM (osMkdirTempIn E dir ''.layers-'') (\<lambda>work. deferM (osRemoveAll work) (fixtureBody P E dir work sizeMiB patchKiB)))
      (\<lambda>out w. 2 \<le> sizeMiB \<and> left_at P dir sizeMiB (patchBytes patchKiB) w0 out w) (blame E G)"
    proof (rule triple_at, rule triple_bind [OF osMkdirTempIn_t], goal_cases)
      case (1 w1)
      then have "lookup w1 = lookup w0" if G using G [OF that] by (intro ext) (auto simp: mk_dirs_def empty_dir_def)
      then show ?case using G 1 by (auto simp: empty_dir_def strict_prefix_def)
    next
      case (2 w1 work)
      then have clean: "lookup w1 = lookup w0" if G using G [OF that] by (intro ext) (auto simp: mk_dirs_def empty_dir_def)
      show ?case
      proof (rule triple_at)
        fix w2 assume w2: "(\<exists>s. work = dir @ [''.layers-'' @ s]) \<and> lookup w1 work = None \<and> lookup w2 = (lookup w1)(work \<mapsto> DirN)"
        then obtain s where s: "work = dir @ [''.layers-'' @ s]" by blast
        show "triple (\<lambda>w. lookup w = lookup w2) (deferM (osRemoveAll work) (fixtureBody P E dir work sizeMiB patchKiB))
          (\<lambda>out w. 2 \<le> sizeMiB \<and> left_at P dir sizeMiB (patchBytes patchKiB) w0 out w) (blame E G)"
          by (rule triple_defer [OF fixtureBody_t [OF _ s]])
             (use sz w2 s G clean 2 empty_ready [of dir w0 w2 s] fixtures_left [OF _ s] in \<open>auto simp: blame_def\<close>)
      qed
    qed
  qed
qed (use G in \<open>auto simp: blame_def\<close>)

section \<open>Properties\<close>

text \<open>The size of the patch wraps before it is compared: this request is for more than any layer holds, and is accepted.\<close>

lemma patch_wraps: "patchBytes (2 ^ 53) = - (2 ^ 63) \<and> patchBytes (2 ^ 53) \<le> appBytes 2 div 4"
  by (simp add: patchBytes_def appBytes_def wrap64_def signed_take_bit_eq_take_bit_minus take_bit_eq_mod bit_iff_odd)


section \<open>Witness\<close>

definition demo_fixture_prims :: fixture_prims where
  "demo_fixture_prims = prims.extend demo_prims
     (fixture_prims.fields (\<lambda>_ _. Inr [1]) (\<lambda>b. b) (\<lambda>_. [2]) (\<lambda>_ _ _. [3]) (\<lambda>is. replicate (length is) 4))"

definition steady_env :: env where
  "steady_env = (env_fail_at 0)\<lparr>io_fails := \<lambda>_. False\<rparr>"


end
