(* ===== verification/AdminServe.thy ===== *)
theory AdminServe
  imports EventLog Machine
begin

text \<open>
  The listener of the admin server, \<open>Serve\<close> and \<open>Close\<close> of \<open>src/internal/admin/server.go\<close>: starting to listen, and a
  machine over what happens afterwards: connections coming and going, the context, calls of \<open>Close\<close>, the goroutine that
  closes the listener, and the accept loop.
\<close>

section \<open>Listening\<close>

text \<open>\<open>stale\<close>: there is a socket at the path already. A socket is no file of the machine; its removal, \<open>net.Listen\<close> and the change
  of mode are operations that may fail.\<close>

definition startListening :: "env \<Rightarrow> path \<Rightarrow> bool \<Rightarrow> unit io" where
  "startListening E p stale =
     bindM (mkdirAll_rev E (rev (butlast p))) (\<lambda>_.
     bindM (attemptM (fileOp E)) (\<lambda>st.
     bindM (if st = Inr () \<and> stale then bindM (attemptM (fileOp E)) (\<lambda>_. ret ()) else ret ()) (\<lambda>_.
     bindM (attemptM (fileOp E)) (\<lambda>ln. case ln of
         Inl e \<Rightarrow> throw (Wrap ''admin listen'' e)
       | Inr _ \<Rightarrow> fileOp E))))"

section \<open>Serving\<close>

datatype serve_phase = Starting | Accepting | Waiting error | Returned "unit result"

text \<open>\<open>svKnown\<close>: the server holds its listener; \<open>svOpen\<close>: the listener takes connections; \<open>svDone\<close>: the channel that ends the
  goroutine is closed; \<open>svSocket\<close>: the socket file is there, which goes with the listener.\<close>

record serving =
  svPhase :: serve_phase
  svKnown :: bool
  svOpen :: bool
  svSocket :: bool
  svActive :: nat
  svClosed :: bool
  svCtx :: bool
  svDone :: bool

definition listening :: "bool \<Rightarrow> serving" where
  "listening closed = \<lparr>svPhase = Starting, svKnown = False, svOpen = True, svSocket = True, svActive = 0, svClosed = closed, svCtx = False, svDone = False\<rparr>"

datatype serving_event = SRegister | SConnect | SConnEnds | SCancel | SClose | SCloser | SAcceptFails error | SFinish

definition listenerClosed :: error where
  "listenerClosed = Msg ''use of closed network connection''"

definition shut :: "serving \<Rightarrow> serving" where
  "shut s = s\<lparr>svOpen := False, svSocket := False\<rparr>"

text \<open>An open listener may fail in any way; a closed one fails as such.\<close>

definition serving_step :: "serving_event \<Rightarrow> serving \<Rightarrow> serving option" where
  "serving_step ev s = (case ev of
       SRegister \<Rightarrow> if svPhase s = Starting then Some (s\<lparr>svPhase := Accepting, svKnown := True\<rparr>) else None
     | SConnect \<Rightarrow> if svPhase s = Accepting \<and> svOpen s then Some (s\<lparr>svActive := Suc (svActive s)\<rparr>) else None
     | SConnEnds \<Rightarrow> if 0 < svActive s then Some (s\<lparr>svActive := svActive s - 1\<rparr>) else None
     | SCancel \<Rightarrow> if svCtx s then None else Some (s\<lparr>svCtx := True\<rparr>)
     | SClose \<Rightarrow> Some (if svKnown s then shut (s\<lparr>svClosed := True\<rparr>) else s\<lparr>svClosed := True\<rparr>)
     | SCloser \<Rightarrow> if svPhase s \<noteq> Starting \<and> (svCtx s \<or> svDone s) \<and> svOpen s then Some (shut s) else None
     | SAcceptFails e \<Rightarrow> if svPhase s = Accepting \<and> (svOpen s \<or> e = listenerClosed) then Some (s\<lparr>svPhase := Waiting e, svDone := True\<rparr>) else None
     | SFinish \<Rightarrow> (case svPhase s of
           Waiting e \<Rightarrow> if svActive s = 0 then
               (let already = svClosed s; s1 = s\<lparr>svClosed := True, svKnown := False, svSocket := svSocket s \<and> already\<rparr> in
                Some (s1\<lparr>svPhase := Returned (if svCtx s \<or> already then Inr () else Inl e)\<rparr>)) else None
         | _ \<Rightarrow> None))"

definition serving_ok :: "serving \<Rightarrow> bool" where
  "serving_ok s \<longleftrightarrow> (svOpen s \<or> \<not> svSocket s) \<and> (svPhase s = Starting \<longrightarrow> svActive s = 0 \<and> \<not> svKnown s \<and> svOpen s \<and> \<not> svDone s)
     \<and> (case svPhase s of Waiting e \<Rightarrow> svDone s | Returned r \<Rightarrow> svActive s = 0 \<and> svClosed s \<and> svDone s | _ \<Rightarrow> True)
     \<and> (case svPhase s of Returned (Inl e) \<Rightarrow> \<not> svSocket s | _ \<Rightarrow> True)"

lemma serving_ok_start: "serving_ok (listening closed)"
  by (simp add: serving_ok_def listening_def)

lemma serving_ok_step: "serving_ok s \<Longrightarrow> serving_step ev s = Some s' \<Longrightarrow> serving_ok s'"
  by (cases ev; cases "svPhase s") (auto simp: serving_step_def serving_ok_def shut_def Let_def split: if_splits sum.splits)

interpretation servingI: invariant serving_step serving_ok
  by unfold_locales (rule serving_ok_step)

section \<open>Ending\<close>

text \<open>The steps the server takes by itself, and clients that hang up.\<close>

fun ends :: "serving_event \<Rightarrow> bool" where
  "ends SConnect = False"
| "ends SCancel = False"
| "ends SClose = False"
| "ends _ = True"

definition ending_step :: "serving_event \<Rightarrow> serving \<Rightarrow> serving option" where
  "ending_step ev s = (if ends ev then serving_step ev s else None)"

definition left :: "serving \<Rightarrow> nat" where
  "left s = svActive s + (if svOpen s then 1 else 0) + (case svPhase s of Starting \<Rightarrow> 3 | Accepting \<Rightarrow> 2 | Waiting _ \<Rightarrow> 1 | Returned _ \<Rightarrow> 0)"

lemma ending_less: "ending_step ev s = Some s' \<Longrightarrow> left s' < left s"
  by (cases ev; cases "svPhase s") (auto simp: ending_step_def serving_step_def left_def shut_def Let_def split: if_splits)

interpretation endingW: well_founded ending_step serving_ok left
  by unfold_locales (auto simp: ending_step_def intro: serving_ok_step ending_less split: if_splits)

lemma ending_progress:
  assumes "svCtx s \<or> \<not> svOpen s" and "\<nexists>r. svPhase s = Returned r"
  shows "\<exists>ev s'. ending_step ev s = Some s'"
proof (cases "svPhase s")
  case Starting
  then show ?thesis by (intro exI [of _ SRegister]) (simp add: ending_step_def serving_step_def)
next
  case Accepting
  then show ?thesis by (intro exI [of _ "SAcceptFails listenerClosed"]) (simp add: ending_step_def serving_step_def)
next
  case (Waiting e)
  then show ?thesis
  proof (cases "svActive s = 0")
    case True
    then show ?thesis using Waiting by (intro exI [of _ SFinish]) (simp add: ending_step_def serving_step_def Let_def)
  next
    case False
    then show ?thesis by (intro exI [of _ SConnEnds]) (simp add: ending_step_def serving_step_def)
  qed
next
  case (Returned r)
  then show ?thesis using assms by simp
qed



text \<open>A call of \<open>Close\<close> that comes before \<open>Serve\<close> has stored its listener closes nothing: the server goes on accepting.\<close>

lemma early_close_is_lost:
  "\<exists>s. exec serving_step [SClose, SRegister, SConnect] (listening False) = Some s \<and> svPhase s = Accepting \<and> svOpen s \<and> svClosed s"
  by (simp add: serving_step_def listening_def)

end
