(* ===== verification/OriginServe.thy ===== *)
theory OriginServe
  imports Prelude Machine
begin

text \<open>
  \<open>Serve\<close> of \<open>src/internal/lab/server.go\<close>: the origin's HTTP server, the goroutine that shuts it down when the context
  ends, and what \<open>Serve\<close> reports. One machine over the events of both; requests in progress are counted.
\<close>

datatype origin_phase = Binding | Serving | Back "unit result"

text \<open>\<open>ogShut\<close>: \<open>Shutdown\<close> was called, which closes the listener at once and then waits for requests to end.\<close>

record origin_run =
  ogPhase :: origin_phase
  ogShut :: bool
  ogRequests :: nat
  ogCtx :: bool

definition originStart :: origin_run where
  "originStart = \<lparr>ogPhase = Binding, ogShut = False, ogRequests = 0, ogCtx = False\<rparr>"

datatype origin_event = GListen | GListenFails error | GRequest | GRequestEnds | GCancel | GShutdown | GAcceptFails error

definition origin_step :: "origin_event \<Rightarrow> origin_run \<Rightarrow> origin_run option" where
  "origin_step ev s = (case ev of
       GListen \<Rightarrow> if ogPhase s = Binding then Some (s\<lparr>ogPhase := (if ogShut s then Back (Inr ()) else Serving)\<rparr>) else None
     | GListenFails e \<Rightarrow> if ogPhase s = Binding \<and> \<not> ogShut s then Some (s\<lparr>ogPhase := Back (Inl e)\<rparr>) else None
     | GRequest \<Rightarrow> if ogPhase s = Serving \<and> \<not> ogShut s then Some (s\<lparr>ogRequests := Suc (ogRequests s)\<rparr>) else None
     | GRequestEnds \<Rightarrow> if 0 < ogRequests s then Some (s\<lparr>ogRequests := ogRequests s - 1\<rparr>) else None
     | GCancel \<Rightarrow> if ogCtx s then None else Some (s\<lparr>ogCtx := True\<rparr>)
     | GShutdown \<Rightarrow> if ogCtx s \<and> \<not> ogShut s then Some (s\<lparr>ogShut := True\<rparr>) else None
     | GAcceptFails e \<Rightarrow> if ogPhase s = Serving then Some (s\<lparr>ogPhase := Back (if ogShut s then Inr () else Inl e)\<rparr>) else None)"

definition origin_ok :: "origin_run \<Rightarrow> bool" where
  "origin_ok s \<longleftrightarrow> (ogShut s \<longrightarrow> ogCtx s) \<and> (ogPhase s = Back (Inr ()) \<longrightarrow> ogShut s) \<and> (ogPhase s = Binding \<longrightarrow> ogRequests s = 0)"

lemma origin_ok_step: "origin_ok s \<Longrightarrow> origin_step ev s = Some s' \<Longrightarrow> origin_ok s'"
  by (cases ev) (auto simp: origin_step_def origin_ok_def split: if_splits)

interpretation originI: invariant origin_step origin_ok
  by unfold_locales (rule origin_ok_step)

text \<open>\<open>Serve\<close> reports no error only after the context ended and the listener was shut; an error of the listener is reported.\<close>

lemma Serve_clean:
  assumes "exec origin_step es originStart = Some s" and "ogPhase s = Back (Inr ())"
  shows "ogCtx s \<and> ogShut s"
proof -
  have "origin_ok originStart" by (simp add: origin_ok_def originStart_def)
  from originI.exec_holds [OF assms(1) this] assms(2) show ?thesis by (simp add: origin_ok_def)
qed

text \<open>It does not wait for \<open>Shutdown\<close>: a request in progress does not keep it from returning.\<close>

lemma Serve_returns_early:
  "\<exists>s. exec origin_step [GListen, GRequest, GCancel, GShutdown, GAcceptFails IOError] originStart = Some s
     \<and> ogPhase s = Back (Inr ()) \<and> ogRequests s = 1"
  by (simp add: origin_step_def originStart_def)

end
