(* ===== verification/AdminClient.thy ===== *)
theory AdminClient
  imports AdminServer AdminCSV Broker
begin

text \<open>
  The wire between the admin server and its readers: the JSON of an answer as \<open>writeResp\<close> of
  \<open>src/internal/admin/server.go\<close> writes it, decoding into Go structs, and a connection to the server from the side of
  a reader. The text of a JSON value is a parameter; the values are those of \<open>AdminCSV\<close>.
\<close>

section \<open>JSON of Go values\<close>

text \<open>\<open>watchNone\<close>: what an empty list of watchers is written as, \<open>null\<close> for a nil slice.\<close>

record wire_prims = admin_prims +
  jsonText :: "json \<Rightarrow> bytes"
  jsonParse :: "bytes \<Rightarrow> json result"
  goQuote :: "string \<Rightarrow> string"
  receiptJSON :: "receipt \<Rightarrow> json"
  watchNone :: json

definition intJSON :: "int \<Rightarrow> json" where
  "intJSON n = JNumber (showInt n)"

definition eventJSON :: "log_event \<Rightarrow> json" where
  "eventJSON ev = JObject [(''seq'', intJSON (evSeq ev)), (''time'', JString (evTime ev)), (''kind'', JString (evKind ev)), (''detail'', JString (evDetail ev))]"

definition watchJSON :: "watch_status \<Rightarrow> json" where
  "watchJSON e = JObject [(''repo'', JString (wsRepo e)), (''tag'', JString (wsTag e)), (''digest'', JString (wsDigest e))]"

definition answerJSON :: "'x wire_prims_scheme \<Rightarrow> json answer \<Rightarrow> json" where
  "answerJSON P a = (case a of
       EmptyObject \<Rightarrow> JObject []
     | Pong n \<Rightarrow> JObject [(''pong'', JBool True), (''uptime_seconds'', intJSON n)]
     | StatsAns j \<Rightarrow> j
     | ClientsAns n rs \<Rightarrow> JObject ((''admin_connections'', intJSON n)
         # (case rs of None \<Rightarrow> [] | Some l \<Rightarrow> [(''receipts'', JArray (map (receiptJSON P) l))]))
     | ReceiptsAns l \<Rightarrow> JArray (map (receiptJSON P) l)
     | EventsAns evs oldest latest \<Rightarrow> JObject [(''events'', JArray (map eventJSON evs)), (''latest'', intJSON latest), (''oldest'', intJSON oldest)]
     | WatchAns ws \<Rightarrow> if ws = [] then watchNone P else JArray (map watchJSON ws))"

definition errorJSON :: "method_error option \<Rightarrow> json" where
  "errorJSON e = (case e of None \<Rightarrow> JNull | Some m \<Rightarrow> JObject [(''code'', JString (meCode m)), (''message'', JString (meMessage m))])"

text \<open>The map \<open>writeResp\<close> marshals, its keys in order; a nil result of a failed call is \<open>null\<close>.\<close>

definition responseJSON :: "'x wire_prims_scheme \<Rightarrow> json admin_response \<Rightarrow> json" where
  "responseJSON P r = JObject
     [(''error'', errorJSON (arError r)),
      (''id'', case arID r of None \<Rightarrow> JNull | Some t \<Rightarrow> (case jsonParse P t of Inl _ \<Rightarrow> JNull | Inr j \<Rightarrow> j)),
      (''ok'', JBool (arOk r)),
      (''result'', case arResult r of None \<Rightarrow> JNull | Some a \<Rightarrow> answerJSON P a)]"

section \<open>Decoding into structs\<close>

text \<open>The last field of that name counts, names compared without case; \<open>null\<close> leaves the zero value; another kind of value is
  an error.\<close>

definition field :: "string \<Rightarrow> (string \<times> json) list \<Rightarrow> json option" where
  "field k m = map_option snd (List.find (\<lambda>(k', _). lower k' = lower k) (rev m))"

definition kindError :: error where
  "kindError = Msg ''json: cannot unmarshal into Go value''"

fun decInt :: "json option \<Rightarrow> int result" where
  "decInt None = Inr 0"
| "decInt (Some JNull) = Inr 0"
| "decInt (Some (JNumber t)) = (case atoi t of None \<Rightarrow> Inl kindError | Some n \<Rightarrow> Inr n)"
| "decInt (Some _) = Inl kindError"

fun decString :: "json option \<Rightarrow> string result" where
  "decString None = Inr []"
| "decString (Some JNull) = Inr []"
| "decString (Some (JString s)) = Inr s"
| "decString (Some _) = Inl kindError"

fun decBool :: "json option \<Rightarrow> bool result" where
  "decBool None = Inr False"
| "decBool (Some JNull) = Inr False"
| "decBool (Some (JBool b)) = Inr b"
| "decBool (Some _) = Inl kindError"

fun mapR :: "('a \<Rightarrow> 'b result) \<Rightarrow> 'a list \<Rightarrow> 'b list result" where
  "mapR f [] = Inr []"
| "mapR f (x # xs) = bindR (f x) (\<lambda>y. bindR (mapR f xs) (\<lambda>ys. Inr (y # ys)))"

fun decList :: "(json \<Rightarrow> 'a result) \<Rightarrow> json option \<Rightarrow> 'a list result" where
  "decList f None = Inr []"
| "decList f (Some JNull) = Inr []"
| "decList f (Some (JArray js)) = mapR f js"
| "decList f (Some _) = Inl kindError"

text \<open>A struct takes an object, or \<open>null\<close>.\<close>

fun decObject :: "((string \<times> json) list \<Rightarrow> 'a result) \<Rightarrow> json \<Rightarrow> 'a result" where
  "decObject f (JObject m) = f m"
| "decObject f JNull = f []"
| "decObject f _ = Inl kindError"

definition decEvent :: "json \<Rightarrow> log_event result" where
  "decEvent = decObject (\<lambda>m. bindR (decInt (field ''seq'' m)) (\<lambda>n. bindR (decString (field ''time'' m)) (\<lambda>t.
     bindR (decString (field ''kind'' m)) (\<lambda>k. bindR (decString (field ''detail'' m)) (\<lambda>d.
     Inr \<lparr>evSeq = n, evTime = t, evKind = k, evDetail = d\<rparr>)))))"

definition decWatch :: "json \<Rightarrow> watch_status result" where
  "decWatch = decObject (\<lambda>m. bindR (decString (field ''repo'' m)) (\<lambda>r. bindR (decString (field ''tag'' m)) (\<lambda>t.
     bindR (decString (field ''digest'' m)) (\<lambda>d. Inr \<lparr>wsRepo = r, wsTag = t, wsDigest = d\<rparr>))))"

text \<open>The response as a reader decodes it: the result stays raw, and may be absent.\<close>

record wire_response =
  wrOk :: bool
  wrResult :: "json option"
  wrError :: "method_error option"

definition decMethodError :: "json option \<Rightarrow> method_error option result" where
  "decMethodError j = (case j of
       None \<Rightarrow> Inr None
     | Some JNull \<Rightarrow> Inr None
     | Some v \<Rightarrow> decObject (\<lambda>m. bindR (decString (field ''code'' m)) (\<lambda>c. bindR (decString (field ''message'' m)) (\<lambda>t.
           Inr (Some \<lparr>meCode = c, meMessage = t\<rparr>)))) v)"

definition decResponse :: "json \<Rightarrow> wire_response result" where
  "decResponse = decObject (\<lambda>m. bindR (decBool (field ''ok'' m)) (\<lambda>k. bindR (decMethodError (field ''error'' m)) (\<lambda>e.
     Inr \<lparr>wrOk = k, wrResult = field ''result'' m, wrError = e\<rparr>)))"

section \<open>A connection seen by its reader\<close>

text \<open>The bytes up to and with the first newline; without one the read ends in an error.\<close>

definition readLine :: "bytes \<Rightarrow> bytes result" where
  "readLine b = (if newline \<in> set b then Inr (takeWhile (\<lambda>c. c \<noteq> newline) b @ [newline]) else Inl IOError)"

text \<open>The other end as a function: what it sends for the bytes written to it, or the failure of the dial, the write or the read.
  The admin server at the other end answers the lines it is sent.\<close>

type_synonym 's peer = "bytes \<Rightarrow> ('s, bytes) sm"

definition adminPeer :: "'x wire_prims_scheme \<Rightarrow> env \<Rightarrow> (world \<times> json admin_server) peer" where
  "adminPeer P E req =
     bindM (onFst (fileOp E)) (\<lambda>_.
     bindM (onFst (fileOp E)) (\<lambda>_.
     bindM (handleConn P E req) (\<lambda>rsps.
     bindM (onFst (fileOp E)) (\<lambda>_.
     ret (concat (map (\<lambda>r. jsonText P (responseJSON P r) @ [newline]) rsps))))))"

section \<open>Round trips\<close>

lemma field_simps:
  "field k [] = None" "field k (m @ [(k', v)]) = (if lower k' = lower k then Some v else field k m)"
  by (simp_all add: field_def)

lemma decInt_intJSON: "int64_range n \<Longrightarrow> decInt (Some (intJSON n)) = Inr n"
proof -
  assume n: "int64_range n"
  have "hd (decimal k) \<noteq> CHR ''-''" "hd (decimal k) \<noteq> CHR ''+''" for k
    using decimal_digits [of k] by (cases "decimal k"; auto simp: isDigit_def)+
  then show ?thesis using n decimal_digits [of "nat n"] decimal_digits [of "nat (- n)"]
    by (auto simp: intJSON_def showInt_def atoi_def Let_def)
qed

lemma mapR_map: "(\<And>x. x \<in> set xs \<Longrightarrow> f (g x) = Inr x) \<Longrightarrow> mapR f (map g xs) = Inr xs"
  by (induction xs) simp_all

lemmas struct_simps = field_def lower_def lower_char_def

lemma decEvent_eventJSON: "int64_range (evSeq ev) \<Longrightarrow> decEvent (eventJSON ev) = Inr ev"
  by (simp add: decEvent_def eventJSON_def struct_simps decInt_intJSON)

lemma decWatch_watchJSON: "decWatch (watchJSON e) = Inr e"
  by (simp add: decWatch_def watchJSON_def struct_simps)

lemma decResponse_responseJSON:
  "decResponse (responseJSON P r) = Inr \<lparr>wrOk = arOk r, wrResult = Some (case arResult r of None \<Rightarrow> JNull | Some a \<Rightarrow> answerJSON P a), wrError = arError r\<rparr>"
  by (cases "arError r") (simp_all add: decResponse_def responseJSON_def errorJSON_def decMethodError_def struct_simps)

lemma readLine_line: "newline \<notin> set b \<Longrightarrow> readLine (b @ newline # rest) = Inr (b @ [newline])"
  by (auto simp: readLine_def takeWhile_append)

section \<open>One request\<close>

text \<open>A machine on which nothing fails and nobody cancels.\<close>

definition undisturbed :: "env \<Rightarrow> bool" where
  "undisturbed E \<longleftrightarrow> (\<forall>n. \<not> io_fails E n \<and> \<not> ctx_done E n)"

lemma undisturbed_run:
  assumes "undisturbed E"
  shows "fileOp E w = (Inr (), w\<lparr>tick := Suc (tick w)\<rparr>)" "ctxErr E w = (Inr (), w\<lparr>tick := Suc (tick w)\<rparr>)"
  using assms by (auto simp: undisturbed_def fileOp_def prim_def ctxErr_def Let_def)

definition request_line :: "bytes \<Rightarrow> bool" where
  "request_line b \<longleftrightarrow> b \<noteq> [] \<and> newline \<notin> set b \<and> length b < maxLine \<and> dropCR b = b"

lemma splitOn_absent: "c \<notin> set b \<Longrightarrow> splitOn c (b @ [c]) = [b, []]"
  by (induction b) auto

lemma request_lines: "request_line b \<Longrightarrow> scanLines (fileLines (b @ [newline])) = ([b], False)"
  by (simp add: request_line_def fileLines_def splitOn_absent)

text \<open>A request for a method of the table: the method runs a few ticks later with the caller counted, and its answer comes back
  on a line; the server is as it was.\<close>

lemma adminPeer_call:
  assumes "undisturbed E" and "request_line b" and "jsonAdminReq P b = Inr r" and "aqMethod r \<noteq> []"
    and m: "callMethod P E (aqMethod r) (aqParams r) = Some m"
  shows "\<exists>w1 res merr w2 w3. ticks w w1 \<and> m (w1, s\<lparr>adClients := adClients s + 1\<rparr>) = (Inr (res, merr), w2, s\<lparr>adClients := adClients s + 1\<rparr>)
     \<and> ticks w w3 \<and> adminPeer P E (b @ [newline]) (w, s) = (Inr (jsonText P (responseJSON P (writeResp (aqID r) res merr)) @ [newline]), w3, s)"
proof -
  let ?w1 = "w\<lparr>tick := Suc (Suc (Suc (Suc (tick w))))\<rparr>" and ?s = "s\<lparr>adClients := adClients s + 1\<rparr>"
  note run = undisturbed_run [OF assms(1)]
  obtain res merr st' where call: "m (?w1, ?s) = (Inr (res, merr), st')" using callMethod_total [OF m] by blast
  have "observes (?w1, ?s) st'" by (rule stepsD [OF observes_callMethod [OF m] call])
  then obtain n where st: "st' = (w\<lparr>tick := n\<rparr>, ?s)" by (cases st') (auto simp: observes_def)
  have "adminPeer P E (b @ [newline]) (w, s)
      = (Inr (jsonText P (responseJSON P (writeResp (aqID r) res merr)) @ [newline]), w\<lparr>tick := Suc n\<rparr>, s)"
    using assms(2-4) m call
    by (simp add: adminPeer_def handleConn_def bindM_def onFst_def modS_def deferM_def run request_lines attemptM_def answerLine_def
        request_line_def sm_run st)
  moreover have "ticks w ?w1" "ticks w (w\<lparr>tick := Suc n\<rparr>)" by (auto simp: ticks_def)
  ultimately show ?thesis using call st by blast
qed

end
