(* ===== verification/Tui.thy ===== *)
theory Tui
  imports AdminClient "HOL-Library.Countable"
begin

text \<open>
  The admin console, \<open>src/cmd/edgelab-tui/main.go\<close>: requests to the admin socket, the poll that fills the dashboard, the
  dashboard's reaction to messages, and the one-shot modes; and what the dashboard shows of an admin server.
\<close>

section \<open>Requests\<close>

definition callLine :: "'x wire_prims_scheme \<Rightarrow> string \<Rightarrow> string \<Rightarrow> bytes" where
  "callLine P method params = bytes_of (''{'' @ [quote] @ ''id'' @ [quote] @ '':1,'' @ [quote] @ ''method'' @ [quote] @ '':'' @ goQuote P method
     @ '','' @ [quote] @ ''params'' @ [quote] @ '':'' @ params @ ''}'')"

text \<open>\<open>call\<close>: the raw result, which an answer may lack.\<close>

definition tuiCall :: "'x wire_prims_scheme \<Rightarrow> 's peer \<Rightarrow> string \<Rightarrow> string \<Rightarrow> ('s, json option) sm" where
  "tuiCall P peer method params =
     bindM (peer (callLine P method (if params = [] then ''{}'' else params) @ [newline])) (\<lambda>b.
     bindM (liftR (readLine b)) (\<lambda>line.
     bindM (liftR (case bindR (jsonParse P (butlast line)) decResponse of Inl e \<Rightarrow> Inl (Wrap ''bad admin response'' e) | Inr r \<Rightarrow> Inr r)) (\<lambda>r.
     if \<not> wrOk r
     then throw (Msg (''admin '' @ method @ '': ''
            @ (case wrError r of None \<Rightarrow> ''unknown error'' | Some e \<Rightarrow> meCode e @ '': '' @ meMessage e)))
     else ret (wrResult r))))"

section \<open>Polling\<close>

record tui_tick =
  tkStats :: "json option"
  tkWatch :: "watch_status list"
  tkEvents :: "log_event list"
  tkOldest :: int
  tkLatest :: int
  tkConns :: int
  tkErr :: "error option"

definition zero_tick :: tui_tick where
  "zero_tick = \<lparr>tkStats = None, tkWatch = [], tkEvents = [], tkOldest = 0, tkLatest = 0, tkConns = 0, tkErr = None\<rparr>"

text \<open>Decoding a raw result that is absent is an error, too.\<close>

definition decRaw :: "(json \<Rightarrow> 'a result) \<Rightarrow> json option result \<Rightarrow> 'a option" where
  "decRaw f r = (case r of Inr (Some j) \<Rightarrow> (case f j of Inr x \<Rightarrow> Some x | Inl _ \<Rightarrow> None) | _ \<Rightarrow> None)"

definition decWatchers :: "json \<Rightarrow> watch_status list result" where
  "decWatchers = decObject (\<lambda>m. decList decWatch (field ''watchers'' m))"

definition decEvents :: "json \<Rightarrow> (log_event list \<times> int \<times> int) result" where
  "decEvents = decObject (\<lambda>m. bindR (decList decEvent (field ''events'' m)) (\<lambda>evs. bindR (decInt (field ''oldest'' m)) (\<lambda>old.
     bindR (decInt (field ''latest'' m)) (\<lambda>latest. Inr (evs, old, latest)))))"

definition decConns :: "json \<Rightarrow> int result" where
  "decConns = decObject (\<lambda>m. decInt (field ''admin_connections'' m))"

definition eventsParams :: string where
  "eventsParams = ''{'' @ [quote] @ ''after'' @ [quote] @ '':0,'' @ [quote] @ ''limit'' @ [quote] @ '':12}''"

definition tuiPoll :: "'x wire_prims_scheme \<Rightarrow> 's peer \<Rightarrow> ('s, tui_tick) sm" where
  "tuiPoll P peer =
     bindM (attemptM (tuiCall P peer ''stats'' [])) (\<lambda>st. case st of
       Inl e \<Rightarrow> ret (zero_tick\<lparr>tkErr := Some e\<rparr>)
     | Inr raw \<Rightarrow>
     bindM (attemptM (tuiCall P peer ''watch-status'' [])) (\<lambda>wr.
     bindM (attemptM (tuiCall P peer ''events'' eventsParams)) (\<lambda>er.
     bindM (attemptM (tuiCall P peer ''clients'' [])) (\<lambda>cr.
     (let m1 = zero_tick\<lparr>tkStats := raw\<rparr>;
          m2 = (case decRaw decWatchers wr of None \<Rightarrow> m1 | Some ws \<Rightarrow> m1\<lparr>tkWatch := ws\<rparr>);
          m3 = (case decRaw decEvents er of None \<Rightarrow> m2
                | Some (evs, old, latest) \<Rightarrow> m2\<lparr>tkEvents := evs, tkOldest := old, tkLatest := latest\<rparr>)
      in ret (case decRaw decConns cr of None \<Rightarrow> m3 | Some n \<Rightarrow> m3\<lparr>tkConns := n\<rparr>))))))"

section \<open>The dashboard\<close>

record tui_model =
  tmSocket :: string
  tmWidth :: int
  tmHeight :: int
  tmCur :: tui_tick
  tmQuitting :: bool

datatype tui_msg = WindowSize int int | Key string | StatsTick tui_tick

text \<open>What the runtime is asked to do next: nothing, to quit, to poll, or to poll after a pause in nanoseconds.\<close>

datatype tui_cmd = NoCmd | QuitCmd | PollCmd | TickCmd int

definition tuiInit :: "tui_model \<Rightarrow> tui_cmd" where
  "tuiInit m = PollCmd"

fun tuiUpdate :: "tui_model \<Rightarrow> tui_msg \<Rightarrow> tui_model \<times> tui_cmd" where
  "tuiUpdate m (WindowSize w h) = (m\<lparr>tmWidth := w, tmHeight := h\<rparr>, NoCmd)"
| "tuiUpdate m (Key s) = (if s \<in> {''q'', ''ctrl+c'', ''esc''} then (m\<lparr>tmQuitting := True\<rparr>, QuitCmd) else (m, NoCmd))"
| "tuiUpdate m (StatsTick t) = (m\<lparr>tmCur := t\<rparr>, TickCmd 1000000000)"

definition shortDigest :: "string \<Rightarrow> string" where
  "shortDigest d = (if length d > 19 then take 19 d @ string_of [0xE2, 0x80, 0xA6] else d)"

section \<open>Modes\<close>

text \<open>The flags choose the mode; \<open>Live\<close> is told whether the input is a terminal. What is printed: a JSON value, a text, or the
  snapshot; the dashboard itself is the runtime's loop over \<open>tuiUpdate\<close>.\<close>

datatype tui_mode = OneJSON string string | OneCSV string string | Live bool

datatype tui_output = PrintJSON "json option" | PrintText string | PrintTick tui_tick | Dashboard tui_model tui_cmd

definition newModel :: "string \<Rightarrow> tui_model" where
  "newModel socket = \<lparr>tmSocket = socket, tmWidth = 0, tmHeight = 0, tmCur = zero_tick, tmQuitting = False\<rparr>"

definition runLive :: "'x wire_prims_scheme \<Rightarrow> 's peer \<Rightarrow> string \<Rightarrow> bool \<Rightarrow> ('s, tui_output) sm" where
  "runLive P peer socket terminal = (if \<not> terminal
     then bindM (tuiPoll P peer) (\<lambda>m. case tkErr m of Some e \<Rightarrow> throw e | None \<Rightarrow> ret (PrintTick m))
     else ret (Dashboard (newModel socket) (tuiInit (newModel socket))))"

definition chooseMode :: "string \<Rightarrow> string \<Rightarrow> string \<Rightarrow> bool \<Rightarrow> tui_mode" where
  "chooseMode jsonMethod csvMethod params terminal =
     (if jsonMethod \<noteq> [] then OneJSON jsonMethod params else if csvMethod \<noteq> [] then OneCSV csvMethod params else Live terminal)"

fun tuiMain :: "'x wire_prims_scheme \<Rightarrow> (json \<Rightarrow> string) \<Rightarrow> 's peer \<Rightarrow> string \<Rightarrow> tui_mode \<Rightarrow> ('s, tui_output) sm" where
  "tuiMain P jt peer socket (OneJSON method params) = bindM (tuiCall P peer method params) (\<lambda>raw. ret (PrintJSON raw))"
| "tuiMain P jt peer socket (OneCSV method params) = bindM (tuiCall P peer method params) (\<lambda>raw.
     bindM (liftR (case raw of None \<Rightarrow> Inl kindError | Some v \<Rightarrow> CSV jt v)) (\<lambda>t. ret (PrintText t)))"
| "tuiMain P jt peer socket (Live terminal) = runLive P peer socket terminal"

section \<open>A call on the admin server\<close>

text \<open>What a reader and the server have to agree on, for one request: the text of the request is one line the server reads as this
  method with these parameters.\<close>

definition understood :: "'x wire_prims_scheme \<Rightarrow> string \<Rightarrow> string \<Rightarrow> bool" where
  "understood P method params \<longleftrightarrow> request_line (callLine P method params)
     \<and> jsonAdminReq P (callLine P method params) = Inr \<lparr>aqID = Some (bytes_of ''1''), aqMethod = method, aqParams = bytes_of params\<rparr>"

definition json_text_ok :: "'x wire_prims_scheme \<Rightarrow> bool" where
  "json_text_ok P \<longleftrightarrow> (\<forall>j. jsonParse P (jsonText P j) = Inr j \<and> newline \<notin> set (jsonText P j))"

lemma tuiCall_admin:
  assumes "undisturbed E" and "json_text_ok P" and "understood P method ps" and ps: "ps = (if params = [] then ''{}'' else params)"
    and "method \<noteq> []" and m: "callMethod P E method (bytes_of ps) = Some m"
  shows "\<exists>w1 res merr w2 w3. ticks w w1 \<and> m (w1, s\<lparr>adClients := adClients s + 1\<rparr>) = (Inr (res, merr), w2, s\<lparr>adClients := adClients s + 1\<rparr>)
     \<and> ticks w w3 \<and> tuiCall P (adminPeer P E) method params (w, s) = ((case (res, merr) of
          (Some a, None) \<Rightarrow> Inr (Some (answerJSON P a))
        | (_, Some e) \<Rightarrow> Inl (Msg (''admin '' @ method @ '': '' @ meCode e @ '': '' @ meMessage e))), w3, s)"
proof -
  let ?b = "callLine P method ps"
  have b: "request_line ?b" "jsonAdminReq P ?b = Inr \<lparr>aqID = Some (bytes_of ''1''), aqMethod = method, aqParams = bytes_of ps\<rparr>"
    using assms(3) by (simp_all add: understood_def)
  obtain w1 res merr w2 w3 where w1: "ticks w w1"
      and run: "m (w1, s\<lparr>adClients := adClients s + 1\<rparr>) = (Inr (res, merr), w2, s\<lparr>adClients := adClients s + 1\<rparr>)" and w3: "ticks w w3"
      and peer: "adminPeer P E (?b @ [newline]) (w, s)
         = (Inr (jsonText P (responseJSON P (writeResp (Some (bytes_of ''1'')) res merr)) @ [newline]), w3, s)"
    using adminPeer_call [OF assms(1) b, of m w s] assms(5) m by auto
  have one: "(merr = None) = (res \<noteq> None)" by (rule callMethod_answers(2) [OF m run])
  have "tuiCall P (adminPeer P E) method params (w, s) = ((case (res, merr) of
          (Some a, None) \<Rightarrow> Inr (Some (answerJSON P a))
        | (_, Some e) \<Rightarrow> Inl (Msg (''admin '' @ method @ '': '' @ meCode e @ '': '' @ meMessage e))), w3, s)"
    using peer one assms(2) readLine_line [of "jsonText P (responseJSON P (writeResp (Some (bytes_of ''1'')) res merr))" "[]"]
    by (cases res; cases merr)
      (simp_all add: tuiCall_def ps [symmetric] bindM_def sm_run json_text_ok_def decResponse_responseJSON writeResp_def)
  then show ?thesis using w1 run w3 by blast
qed

section \<open>The four calls of a poll\<close>

lemma call_stats:
  assumes "undisturbed E" and "json_text_ok P" and "understood P ''stats'' ''{}''"
  shows "\<exists>w1 w'. ticks w w1 \<and> ticks w w' \<and> tuiCall P (adminPeer P E) ''stats'' [] (w, s)
    = (Inr (Some (case adStats s of None \<Rightarrow> JObject [] | Some f \<Rightarrow> f w1)), w', s)"
proof -
  have m: "callMethod P E ''stats'' (bytes_of ''{}'') = Some handleStats" by (simp add: callMethod_def)
  from tuiCall_admin [OF assms _ _ m, of "[]" w s] show ?thesis
    by (fastforce simp: handleStats_def answered_def answerJSON_def split: option.split)
qed

lemma call_watch:
  assumes "undisturbed E" and "json_text_ok P" and "understood P ''watch-status'' ''{}''" and "watchNone P = JNull \<or> watchNone P = JArray []"
  shows "\<exists>j w'. ticks w w' \<and> tuiCall P (adminPeer P E) ''watch-status'' [] (w, s) = (Inr (Some j), w', s)
    \<and> (decWatchers j = Inr [] \<or> decWatchers j = Inl kindError)"
proof -
  have m: "callMethod P E ''watch-status'' (bytes_of ''{}'') = Some handleWatch" by (simp add: callMethod_def)
  have dec: "decWatchers (answerJSON P (WatchAns ws)) = Inr [] \<or> decWatchers (answerJSON P (WatchAns ws)) = Inl kindError" for ws
    using assms(4) by (auto simp: answerJSON_def decWatchers_def field_simps)
  from tuiCall_admin [OF assms(1-3) _ _ m, of "[]" w s] show ?thesis
    using dec by (fastforce simp: handleWatch_def answered_def)
qed

lemma call_clients:
  assumes "undisturbed E" and "json_text_ok P" and "understood P ''clients'' ''{}''" and "jsonReceiptsDirParam P (bytes_of ''{}'') = []"
  shows "\<exists>w'. ticks w w' \<and> tuiCall P (adminPeer P E) ''clients'' [] (w, s)
    = (Inr (Some (JObject [(''admin_connections'', intJSON (adClients s + 1))])), w', s)"
proof -
  have m: "callMethod P E ''clients'' (bytes_of ''{}'') = Some (handleClients P E (bytes_of ''{}''))" by (simp add: callMethod_def)
  from tuiCall_admin [OF assms(1-3) _ _ m, of "[]" w s] assms(4) show ?thesis
    by (fastforce simp: handleClients_def answered_def answerJSON_def bindM_def getS_def sm_run bytes_of_def)
qed

lemma call_events:
  assumes "undisturbed E" and "json_text_ok P" and "understood P ''events'' eventsParams"
    and "jsonEventsParams P (bytes_of eventsParams) = Inr (0, 12)"
    and "adLog s = Some l" and "generations P w (elPath l) old cur" and "numbered P (old @ cur)"
    and found: "found = take 12 (old @ cur)"
  shows "\<exists>w'. ticks w w' \<and> tuiCall P (adminPeer P E) ''events'' eventsParams (w, s)
    = (Inr (Some (answerJSON P (EventsAns found (oldestOf (old @ cur)) (latestOf found)))), w', s)"
proof -
  have ne: "eventsParams \<noteq> []" "bytes_of eventsParams \<noteq> []" by (simp_all add: eventsParams_def bytes_of_def)
  have m: "callMethod P E ''events'' (bytes_of eventsParams) = Some (handleEvents P E (bytes_of eventsParams))" by (simp add: callMethod_def)
  have all: "filter (\<lambda>ev. 0 < evSeq ev) (old @ cur) = old @ cur" using assms(7) by (simp add: numbered_def list_all_iff)
  have answer: "\<exists>n. handleEvents P E (bytes_of eventsParams) (w1, s\<lparr>adClients := adClients s + 1\<rparr>)
      = (Inr (answered (EventsAns found (oldestOf (old @ cur)) (latestOf found))), w1\<lparr>tick := n\<rparr>, s\<lparr>adClients := adClients s + 1\<rparr>)"
    if "ticks w w1" for w1
  proof (rule handleEvents_exact [OF _ _ assms(7) _ ne(2) assms(4)])
    show "adLog (s\<lparr>adClients := adClients s + 1\<rparr>) = Some l" using assms(5) by simp
    show "generations P w1 (elPath l) old cur" using that assms(6) by (auto simp: ticks_def generations_def split: option.split)
    show "answers_next E w1 5" using assms(1) by (simp add: undisturbed_def answers_next_def list_all_iff)
    show "found = take (queryLimit 12) (filter (\<lambda>ev. 0 < evSeq ev) (old @ cur))" by (simp only: all) (simp add: queryLimit_def found)
  qed
  from tuiCall_admin [OF assms(1-3) _ _ m, of eventsParams w s] ne obtain w1 res merr w2 w3 where
    w1: "ticks w w1" and run: "handleEvents P E (bytes_of eventsParams) (w1, s\<lparr>adClients := adClients s + 1\<rparr>)
        = (Inr (res, merr), w2, s\<lparr>adClients := adClients s + 1\<rparr>)"
    and w3: "ticks w w3" and call: "tuiCall P (adminPeer P E) ''events'' eventsParams (w, s) = ((case (res, merr) of
          (Some a, None) \<Rightarrow> Inr (Some (answerJSON P a))
        | (_, Some e) \<Rightarrow> Inl (Msg (''admin '' @ ''events'' @ '': '' @ meCode e @ '': '' @ meMessage e))), w3, s)"
    by auto
  have "res = Some (EventsAns found (oldestOf (old @ cur)) (latestOf found))" "merr = None"
    using answer [OF w1] run by (auto simp: answered_def)
  then show ?thesis using call w3 by auto
qed

lemma decEvents_answer:
  assumes "list_all (\<lambda>ev. int64_range (evSeq ev)) found" and "int64_range oldest" and "int64_range latest"
  shows "decEvents (answerJSON P (EventsAns found oldest latest)) = Inr (found, oldest, latest)"
proof -
  have "mapR decEvent (map eventJSON found) = Inr found"
    using assms(1) by (intro mapR_map decEvent_eventJSON) (simp add: list_all_iff)
  then show ?thesis using assms(2,3) by (simp add: decEvents_def answerJSON_def struct_simps decInt_intJSON)
qed

section \<open>What the dashboard shows\<close>


section \<open>Witness\<close>

text \<open>A JSON text without newlines: the number of the value in some enumeration, in unary.\<close>

instance json :: countable
  by countable_datatype

definition demo_wire :: wire_prims where
  "demo_wire = admin_prims.extend (log_prims.extend demo_log_prims (admin_prims.fields
       (\<lambda>b. case List.find (\<lambda>(m, ps). bytes_of (''{'' @ [quote] @ ''id'' @ [quote] @ '':1,'' @ [quote] @ ''method'' @ [quote] @ '':'' @ [quote] @ m @ [quote]
             @ '','' @ [quote] @ ''params'' @ [quote] @ '':'' @ ps @ ''}'') = b)
           [(''stats'', ''{}''), (''watch-status'', ''{}''), (''events'', eventsParams), (''clients'', ''{}'')] of
         None \<Rightarrow> Inl IOError | Some (m, ps) \<Rightarrow> Inr \<lparr>aqID = Some (bytes_of ''1''), aqMethod = m, aqParams = bytes_of ps\<rparr>)
       (\<lambda>_. []) (\<lambda>_. []) (\<lambda>_. Inr (0, 12)) (\<lambda>_. [])))
     (wire_prims.fields (\<lambda>j. replicate (to_nat j) 0) (\<lambda>b. Inr (from_nat (length b))) (\<lambda>m. [quote] @ m @ [quote]) (\<lambda>_. JNull) JNull)"

lemma demo_wire_text: "json_text_ok demo_wire"
  by (simp add: json_text_ok_def demo_wire_def admin_prims.defs log_prims.defs wire_prims.defs newline_def)

lemma demo_wire_log:
  "jsonEvent demo_wire = jsonEvent demo_log_prims" "jsonEventDec demo_wire = jsonEventDec demo_log_prims"
  "jsonEventsParams demo_wire = (\<lambda>_. Inr (0, 12))" "jsonReceiptsDirParam demo_wire = (\<lambda>_. [])" "watchNone demo_wire = JNull"
  by (simp_all add: demo_wire_def demo_log_prims_def admin_prims.defs log_prims.defs wire_prims.defs agent_prims.defs)

lemma demo_wire_same: "logText demo_wire = logText demo_log_prims" "event_ok demo_wire = event_ok demo_log_prims"
  by (simp_all add: fun_eq_iff logText_def event_ok_def demo_wire_log)

lemma demo_wire_lines:
  "understood demo_wire ''stats'' ''{}''" "understood demo_wire ''watch-status'' ''{}''" "understood demo_wire ''events'' eventsParams"
  "understood demo_wire ''clients'' ''{}''"
  by (simp_all add: understood_def request_line_def callLine_def demo_wire_def admin_prims.defs log_prims.defs wire_prims.defs quote_def
      eventsParams_def bytes_of_def byte_of_char_def newline_def maxLine_def dropCR_def)

definition demo_admin :: "json admin_server" where
  "demo_admin = NewServer (Some demo_log) None (Some (\<lambda>_. [\<lparr>wsRepo = ''team/app'', wsTag = ''v1'', wsDigest = ''sha256:00''\<rparr>])) 0"


end
