(* ===== verification/TuiView.thy ===== *)
theory TuiView
  imports Tui
begin

text \<open>
  The text of the dashboard, \<open>View\<close> of \<open>src/cmd/edgelab-tui/main.go\<close>: lines cut to the width of the terminal, counted
  in runes of their UTF-8 text.
\<close>

section \<open>Runes\<close>

definition replacement :: string where
  "replacement = string_of [0xEF, 0xBF, 0xBD]"

definition ellipsis :: string where
  "ellipsis = string_of [0xE2, 0x80, 0xA6]"

text \<open>\<open>[]rune(s)\<close>, each rune as its text: a byte that starts no rune becomes the replacement character.\<close>

function goRunes :: "string \<Rightarrow> string list" where
  "goRunes s = (if s = [] then [] else
     (let k = runeWidth s in
      (if k = 1 \<and> (of_char (hd s) :: nat) \<ge> 0x80 then replacement else take k s) # goRunes (drop k s)))"
  by pat_completeness auto
termination by (relation "measure length") (auto simp: Let_def)

declare goRunes.simps [simp del]

definition trunc :: "string \<Rightarrow> int \<Rightarrow> string" where
  "trunc s w = (if w \<le> 0 then [] else
     (let r = goRunes s in if int (length r) > w then concat (take (nat (max 0 (w - 1))) r) @ ellipsis else s))"

section \<open>The view\<close>

text \<open>\<open>%3d\<close>, and \<open>time[11:19]\<close>, which panics on a shorter text (\<open>None\<close>).\<close>

definition padLeft :: "nat \<Rightarrow> string \<Rightarrow> string" where
  "padLeft n s = replicate (n - length s) (CHR '' '') @ s"

definition clockPart :: "string \<Rightarrow> string option" where
  "clockPart t = (if length t < 19 then None else Some (take 8 (drop 11 t)))"

text \<open>What the text is made with: the text of an error, of a value as it is marshalled again, and the time of day.\<close>

record view_prims =
  vwError :: "error \<Rightarrow> string"
  vwValue :: "json \<Rightarrow> string"
  vwClock :: string

definition middot :: string where
  "middot = string_of [0xC2, 0xB7]"

definition viewHead :: "view_prims \<Rightarrow> tui_model \<Rightarrow> string" where
  "viewHead V m = ''edgelab-tui '' @ middot @ '' '' @ tmSocket m @
     (case tkErr (tmCur m) of Some e \<Rightarrow> '' '' @ middot @ '' ERROR: '' @ vwError V e
      | None \<Rightarrow> '' '' @ middot @ '' admin_conns='' @ showInt (tkConns (tmCur m)) @ '' '' @ middot @ '' '' @ vwClock V)"

definition viewStats :: "view_prims \<Rightarrow> tui_model \<Rightarrow> string list" where
  "viewStats V m = (case tkStats (tmCur m) of
       None \<Rightarrow> [''  (no data yet)'']
     | Some (JObject kvs) \<Rightarrow> concat (map (\<lambda>k. case map_of kvs k of None \<Rightarrow> []
           | Some v \<Rightarrow> [trunc (''  '' @ k @ '': '' @ vwValue V v) (tmWidth m)]) [''origin'', ''hub''])
     | Some _ \<Rightarrow> [])"

definition viewWatch :: "tui_model \<Rightarrow> string list" where
  "viewWatch m = (if length (tkWatch (tmCur m)) = 0 then [''  (no registry watchers)''] else [])
     @ map (\<lambda>w. trunc (''  '' @ wsRepo w @ '' tag='' @ wsTag w @ '' digest='' @ shortDigest (wsDigest w)) (tmWidth m)) (tkWatch (tmCur m))"

definition viewEvent :: "int \<Rightarrow> log_event \<Rightarrow> string option" where
  "viewEvent width e = (case clockPart (evTime e) of None \<Rightarrow> None
     | Some t \<Rightarrow> Some (trunc (''  '' @ padLeft 3 (showInt (evSeq e)) @ '' '' @ t @ '' '' @ evKind e @ '' '' @ evDetail e) width))"

fun viewEvents :: "int \<Rightarrow> log_event list \<Rightarrow> string list option" where
  "viewEvents width [] = Some []"
| "viewEvents width (e # es) = (case viewEvent width e of None \<Rightarrow> None
     | Some l \<Rightarrow> (case viewEvents width es of None \<Rightarrow> None | Some ls \<Rightarrow> Some (l # ls)))"

text \<open>The lines of the view; the last one has no line end.\<close>

definition View :: "view_prims \<Rightarrow> tui_model \<Rightarrow> string list option" where
  "View V m = (if tmQuitting m then Some [] else
     (let c = tmCur m in
      case viewEvents (tmWidth m) (tkEvents c) of None \<Rightarrow> None
      | Some evs \<Rightarrow> Some ([trunc (viewHead V m) (tmWidth m), concat (replicate (nat (max 0 (min (tmWidth m) 80))) (string_of [0xE2, 0x94, 0x80])), ''STATS'']
          @ viewStats V m @ [[], ''WATCH STATUS''] @ viewWatch m
          @ [[], ''EVENTS (tail, oldest retained seq '' @ showInt (tkOldest c) @ '')'']
          @ (if length (tkEvents c) = 0 then [''  (no events)''] else []) @ evs
          @ [[], ''[q] quit '' @ middot @ '' polling every 1s '' @ middot @ '' seq range '' @ showInt (tkOldest c) @ ''..'' @ showInt (tkLatest c)])))"

section \<open>Lines fit\<close>

lemma goRunes_Nil [simp]: "goRunes [] = []"
  by (subst goRunes.simps) simp

text \<open>A rune is read back as itself whatever follows it.\<close>

definition rune :: "string \<Rightarrow> bool" where
  "rune r \<longleftrightarrow> r \<noteq> [] \<and> (\<forall>t. runeWidth (r @ t) = length r) \<and> (length r = 1 \<longrightarrow> (of_char (hd r) :: nat) < 0x80)"

lemma goRunes_rune: "rune r \<Longrightarrow> goRunes (r @ t) = r # goRunes t"
  by (subst goRunes.simps) (auto simp: rune_def Let_def)

lemma goRunes_concat: "list_all rune rs \<Longrightarrow> goRunes (concat rs @ t) = rs @ goRunes t"
  by (induction rs) (auto simp: goRunes_rune)

definition three :: "char \<Rightarrow> char \<Rightarrow> bool" where
  "three a b \<longleftrightarrow> in_range 0xE0 0xE0 a \<and> in_range 0xA0 0xBF b \<or> in_range 0xED 0xED a \<and> in_range 0x80 0x9F b
     \<or> (in_range 0xE1 0xEC a \<or> in_range 0xEE 0xEF a) \<and> cont b"

definition four :: "char \<Rightarrow> char \<Rightarrow> bool" where
  "four a b \<longleftrightarrow> in_range 0xF0 0xF0 a \<and> in_range 0x90 0xBF b \<or> in_range 0xF4 0xF4 a \<and> in_range 0x80 0x8F b \<or> in_range 0xF1 0xF3 a \<and> cont b"

lemma runeWidth_ascii: "(of_char a :: nat) < 0x80 \<Longrightarrow> runeWidth (a # t) = 1"
  by (cases "a # t" rule: runeWidth.cases) (auto simp: in_range_def)

lemma runeWidth_2: "in_range 0xC2 0xDF a \<Longrightarrow> cont b \<Longrightarrow> runeWidth (a # b # t) = 2"
  by (cases "a # b # t" rule: runeWidth.cases) auto

lemma runeWidth_3: "three a b \<Longrightarrow> cont c \<Longrightarrow> runeWidth (a # b # c # t) = 3"
  by (cases "a # b # c # t" rule: runeWidth.cases) (auto simp: three_def in_range_def)

lemma runeWidth_4: "four a b \<Longrightarrow> cont c \<Longrightarrow> cont d \<Longrightarrow> runeWidth (a # b # c # d # t) = 4"
  by (auto simp: four_def in_range_def)

lemma runeWidth_shape:
  obtains "runeWidth s = 1"
  | a b t where "s = a # b # t" "in_range 0xC2 0xDF a" "cont b"
  | a b c t where "s = a # b # c # t" "three a b" "cont c"
  | a b c d t where "s = a # b # c # d # t" "four a b" "cont c" "cont d"
proof (cases s rule: runeWidth.cases)
  case (1 a b c d t)
  have "runeWidth s = (if in_range 0xC2 0xDF a \<and> cont b then 2 else if three a b \<and> cont c then 3
      else if four a b \<and> cont c \<and> cont d then 4 else 1)"
    unfolding 1 three_def four_def by (rule runeWidth.simps)
  then consider "runeWidth s = 1" | "in_range 0xC2 0xDF a \<and> cont b" | "three a b \<and> cont c" | "four a b \<and> cont c \<and> cont d"
    by metis
  then show thesis
    using that(1) that(2) [OF 1] that(3) [OF 1] that(4) [OF 1] by metis
next
  case (2 a b c)
  have "runeWidth s = (if in_range 0xC2 0xDF a \<and> cont b then 2 else if three a b \<and> cont c then 3 else 1)"
    unfolding 2 three_def by (rule runeWidth.simps)
  then consider "runeWidth s = 1" | "in_range 0xC2 0xDF a \<and> cont b" | "three a b \<and> cont c" by metis
  then show thesis
    using that(1) that(2) [OF 2] that(3) [OF 2] by metis
next
  case (3 a b)
  have "runeWidth s = (if in_range 0xC2 0xDF a \<and> cont b then 2 else 1)" unfolding 3 by (rule runeWidth.simps)
  then consider "runeWidth s = 1" | "in_range 0xC2 0xDF a \<and> cont b" by metis
  then show thesis
    using that(1) that(2) [OF 3] by metis
qed (use that in auto)

lemma rune_piece: "s \<noteq> [] \<Longrightarrow> runeWidth s = 1 \<Longrightarrow> (of_char (hd s) :: nat) < 0x80 \<Longrightarrow> rune (take 1 s)"
  by (cases s) (auto simp: rune_def runeWidth_ascii)

lemma rune_many:
  "in_range 0xC2 0xDF a \<Longrightarrow> cont b \<Longrightarrow> rune [a, b]"
  "three a b \<Longrightarrow> cont c \<Longrightarrow> rune [a, b, c]"
  "four a b \<Longrightarrow> cont c \<Longrightarrow> cont d \<Longrightarrow> rune [a, b, c, d]"
  by (simp_all add: rune_def runeWidth_2 runeWidth_3 runeWidth_4 del: runeWidth.simps)

lemma rune_take:
  assumes "s \<noteq> []" and "runeWidth s \<noteq> 1"
  shows "rune (take (runeWidth s) s)"
proof (cases s rule: runeWidth_shape)
  case 1
  with assms show ?thesis by simp
next
  case (2 a b t)
  then show ?thesis using rune_many(1) [of a b] runeWidth_2 [of a b t] by simp
next
  case (3 a b c t)
  then show ?thesis using rune_many(2) [of a b c] runeWidth_3 [of a b c t] by (simp del: runeWidth.simps)
next
  case (4 a b c d t)
  then show ?thesis using rune_many(3) [of a b c d] runeWidth_4 [of a b c d t] by (simp del: runeWidth.simps)
qed

lemma rune_marks: "rune ellipsis" "rune replacement"
proof -
  have e: "ellipsis = [CHR 0xE2, CHR 0x80, CHR 0xA6]" "replacement = [CHR 0xEF, CHR 0xBF, CHR 0xBD]"
    and t: "three CHR 0xE2 CHR 0x80" "cont CHR 0xA6" "three CHR 0xEF CHR 0xBF" "cont CHR 0xBD" by code_simp+
  show "rune ellipsis" "rune replacement" unfolding e by (intro rune_many(2) t)+
qed

lemma goRunes_runes: "list_all rune (goRunes s)"
proof (induction s rule: goRunes.induct)
  case (1 s)
  show ?case
  proof (cases "s = []")
    case False
    then have "rune (if runeWidth s = 1 \<and> (of_char (hd s) :: nat) \<ge> 0x80 then replacement else take (runeWidth s) s)"
      using rune_piece [of s] rune_take [of s] rune_marks by (cases "runeWidth s = 1") auto
    then show ?thesis using 1 False by (subst goRunes.simps) (simp add: Let_def)
  qed simp
qed

text \<open>A line cut to a width has at most that many runes; a line that fits is not changed.\<close>

lemma trunc_fits: "int (length (goRunes (trunc s w))) \<le> max 0 w"
proof -
  have "goRunes (concat (take n (goRunes s)) @ ellipsis) = take n (goRunes s) @ [ellipsis]" for n
  proof -
    have "list_all rune (take n (goRunes s))" using goRunes_runes [of s] by (auto simp: list_all_iff dest: in_set_takeD)
    then show ?thesis using goRunes_concat goRunes_rune [OF rune_marks(1), of "[]"] by simp
  qed
  then show ?thesis by (auto simp: trunc_def Let_def)
qed

lemma trunc_whole: "0 < w \<Longrightarrow> int (length (goRunes s)) \<le> w \<Longrightarrow> trunc s w = s"
  by (simp add: trunc_def Let_def)

text \<open>The view panics exactly when an event's time is shorter than the clock it cuts out of it; the times the log writes are
  longer (RFC 3339).\<close>

lemma View_panics: "View V m = None \<longleftrightarrow> \<not> tmQuitting m \<and> (\<exists>e \<in> set (tkEvents (tmCur m)). length (evTime e) < 19)"
proof -
  have "viewEvents w es = None \<longleftrightarrow> (\<exists>e \<in> set es. length (evTime e) < 19)" for w es
    by (induction es) (auto simp: viewEvent_def clockPart_def split: option.splits)
  then have "viewEvents (tmWidth m) (tkEvents (tmCur m)) = None \<longleftrightarrow> (\<exists>e \<in> set (tkEvents (tmCur m)). length (evTime e) < 19)" .
  then show ?thesis by (cases "viewEvents (tmWidth m) (tkEvents (tmCur m))") (simp_all add: View_def Let_def)
qed

end
