(* ===== verification/Exporter.thy ===== *)
theory Exporter
  imports AdminClient
begin

text \<open>
  The metrics exporter, \<open>src/internal/exporter/exporter.go\<close>: a scrape asks the admin server for its statistics and
  writes the numbers in them as lines of a metrics page; and what a reader of such a page gets back.
\<close>

section \<open>Configuration\<close>

text \<open>Floating point numbers are a type of their own: parsing a JSON number, the fixed notation with so many digits, nanoseconds
  as seconds, and the tests against zero. \<open>sprintAny\<close>: \<open>fmt.Sprint\<close> of a number, a list or an object.\<close>

record 'f exporter_prims = wire_prims +
  fParse :: "string \<Rightarrow> 'f option"
  fZero :: 'f
  fIsZero :: "'f \<Rightarrow> bool"
  fPositive :: "'f \<Rightarrow> bool"
  fOfNanos :: "int \<Rightarrow> 'f"
  fFixed :: "nat \<Rightarrow> 'f \<Rightarrow> string"
  sprintAny :: "json \<Rightarrow> string"

record exporter_config =
  exRole :: string
  exInstance :: string
  exTimeout :: int
  exMaxResponse :: int

record 'f exporter =
  exCfg :: exporter_config
  exStart :: int
  exLast :: 'f

definition NewExporter :: "('f, 'x) exporter_prims_scheme \<Rightarrow> env \<Rightarrow> exporter_config \<Rightarrow> 'f exporter io" where
  "NewExporter P E c =
     (let c1 = (if exTimeout c \<le> 0 then c\<lparr>exTimeout := 2000000000\<rparr> else c);
          c2 = (if exMaxResponse c1 \<le> 0 then c1\<lparr>exMaxResponse := 2 ^ 20\<rparr> else c1)
      in bindM (timeNow E) (\<lambda>now. ret \<lparr>exCfg = c2, exStart = now, exLast = fZero P\<rparr>))"

section \<open>Maps of decoded JSON\<close>

definition mapField :: "string \<Rightarrow> (string \<times> json) list \<Rightarrow> json option" where
  "mapField k m = map_of (rev m) k"

text \<open>Decoding into \<open>any\<close> fails when a number does not fit a float.\<close>

primrec floatable :: "(string \<Rightarrow> bool) \<Rightarrow> json \<Rightarrow> bool" where
  "floatable f JNull = True"
| "floatable f (JBool b) = True"
| "floatable f (JNumber t) = f t"
| "floatable f (JString s) = True"
| "floatable f (JArray js) = list_all id (map (floatable f) js)"
| "floatable f (JObject m) = list_all (\<lambda>p. snd p) (map (map_prod id (floatable f)) m)"

text \<open>\<open>json.Unmarshal\<close> of a raw message into a map: an error, a nil map for \<open>null\<close>, or the object.\<close>

definition unmarshalMap :: "('f, 'x) exporter_prims_scheme \<Rightarrow> json option \<Rightarrow> (string \<times> json) list option result" where
  "unmarshalMap P raw = (case raw of
       Some JNull \<Rightarrow> Inr None
     | Some (JObject m) \<Rightarrow> if floatable (\<lambda>t. fParse P t \<noteq> None) (JObject m) then Inr (Some m) else Inl kindError
     | _ \<Rightarrow> Inl kindError)"

definition num :: "('f, 'x) exporter_prims_scheme \<Rightarrow> (string \<times> json) list \<Rightarrow> string \<Rightarrow> 'f" where
  "num P m k = (case mapField k m of Some (JNumber t) \<Rightarrow> (case fParse P t of Some v \<Rightarrow> v | None \<Rightarrow> fZero P) | _ \<Rightarrow> fZero P)"

text \<open>A type assertion on a nested map.\<close>

definition nested :: "string \<Rightarrow> (string \<times> json) list \<Rightarrow> (string \<times> json) list" where
  "nested k m = (case mapField k m of Some (JObject x) \<Rightarrow> x | _ \<Rightarrow> m)"

section \<open>Fetching\<close>

definition isNumber :: "json option \<Rightarrow> bool" where
  "isNumber j = (case j of Some (JNumber _) \<Rightarrow> True | _ \<Rightarrow> False)"

definition hubCache :: "(string \<times> json) list \<Rightarrow> (string \<times> json) list result" where
  "hubCache root = (case mapField ''hub'' root of
       Some n \<Rightarrow> Inr (case n of JObject c \<Rightarrow> c | _ \<Rightarrow> [])
     | None \<Rightarrow> if mapField ''origin'' root \<noteq> None then Inl (Msg ''missing hub cache snapshot'') else Inr root)"

definition cacheFields :: "string list" where
  "cacheFields = [''cache_bytes'', ''cache_objects'', ''cache_max_bytes'']"

definition checkHub :: "('f, 'x) exporter_prims_scheme \<Rightarrow> json option \<Rightarrow> unit result" where
  "checkHub P raw = (case unmarshalMap P raw of
       Inr (Some root) \<Rightarrow> bindR (hubCache root) (\<lambda>cache.
         (case List.find (\<lambda>k. \<not> isNumber (mapField k cache)) cacheFields of
            Some k \<Rightarrow> Inl (Msg (''invalid hub cache field '' @ k))
          | None \<Rightarrow> Inr ()))
     | _ \<Rightarrow> Inl (Msg ''invalid hub stats snapshot''))"

definition statsLine :: bytes where
  "statsLine = bytes_of (''{'' @ [quote] @ ''id'' @ [quote] @ '':1,'' @ [quote] @ ''method'' @ [quote] @ '':'' @ [quote] @ ''stats'' @ [quote] @ ''}'')"

definition decStats :: "json \<Rightarrow> (bool \<times> json option) result" where
  "decStats = decObject (\<lambda>m. bindR (decBool (field ''ok'' m)) (\<lambda>k. Inr (k, field ''result'' m)))"

definition fetch :: "('f, 'x) exporter_prims_scheme \<Rightarrow> exporter_config \<Rightarrow> 's peer \<Rightarrow> ('s, json option) sm" where
  "fetch P c peer =
     bindM (peer (statsLine @ [newline])) (\<lambda>b.
     bindM (liftR (readLine (take (nat (exMaxResponse c)) b))) (\<lambda>line.
     bindM (liftR (case bindR (jsonParse P (butlast line)) decStats of Inr (True, raw) \<Rightarrow> Inr raw | _ \<Rightarrow> Inl (Msg ''admin stats failed''))) (\<lambda>raw.
     bindM (liftR (if exRole c = ''hub'' then checkHub P raw else Inr ())) (\<lambda>_. ret raw))))"

section \<open>The page\<close>

definition backslash :: char where "backslash = CHR 0x5C"
definition nl :: char where "nl = CHR 0x0A"

fun esc :: "string \<Rightarrow> string" where
  "esc [] = []"
| "esc (c # cs) = (if c = backslash then [backslash, backslash] else if c = quote then [backslash, quote]
     else if c = nl then [backslash, CHR ''n''] else [c]) @ esc cs"

definition label :: "string \<Rightarrow> string \<Rightarrow> string" where
  "label k v = k @ ''='' @ [quote] @ v @ [quote]"

definition labelsOf :: "exporter_config \<Rightarrow> string" where
  "labelsOf c = label ''job'' ''edgelab'' @ '','' @ label ''instance'' (esc (exInstance c)) @ '','' @ label ''role'' (esc (exRole c))"

definition metric :: "string \<Rightarrow> string \<Rightarrow> string \<Rightarrow> string" where
  "metric n l v = n @ ''{'' @ l @ ''} '' @ v @ [nl]"

definition gauge :: "('f, 'x) exporter_prims_scheme \<Rightarrow> string \<Rightarrow> string \<Rightarrow> 'f \<Rightarrow> string" where
  "gauge P n l v = metric n l (fFixed P 6 v)"

definition counter :: "('f, 'x) exporter_prims_scheme \<Rightarrow> string \<Rightarrow> string \<Rightarrow> 'f \<Rightarrow> string" where
  "counter P n l v = metric n l (fFixed P 6 v)"

definition counterPair :: "('f, 'x) exporter_prims_scheme \<Rightarrow> string \<Rightarrow> string \<Rightarrow> 'f \<Rightarrow> 'f \<Rightarrow> string \<Rightarrow> string \<Rightarrow> string" where
  "counterPair P n l a b ka kb = metric n (l @ '','' @ label ''kind'' ka) (fFixed P 6 a) @ metric n (l @ '','' @ label ''kind'' kb) (fFixed P 6 b)"

definition emitHub :: "('f, 'x) exporter_prims_scheme \<Rightarrow> string \<Rightarrow> (string \<times> json) list \<Rightarrow> string" where
  "emitHub P l r = (let origin = nested ''origin'' r; h = nested ''hub'' r in
     counterPair P ''edgelab_hub_requests_total'' l (num P origin ''chunk_requests'') (num P origin ''metadata_requests'') ''chunk'' ''metadata''
   @ counterPair P ''edgelab_hub_response_body_bytes_total'' l (num P origin ''chunk_response_body_bytes'') (num P origin ''metadata_response_body_bytes'') ''chunk'' ''metadata''
   @ gauge P ''edgelab_hub_cache_bytes'' l (num P h ''cache_bytes'')
   @ gauge P ''edgelab_hub_cache_capacity_bytes'' l (num P h ''cache_max_bytes'')
   @ gauge P ''edgelab_hub_cache_objects'' l (num P h ''cache_objects'')
   @ gauge P ''edgelab_hub_inflight_reads'' l (num P h ''inflight_reads'')
   @ counter P ''edgelab_hub_disk_reads_total'' l (num P h ''disk_reads'')
   @ counter P ''edgelab_hub_cache_hits_total'' l (num P h ''cache_hits'')
   @ counter P ''edgelab_hub_coalesced_requests_total'' l (num P h ''coalesced_requests'')
   @ counter P ''edgelab_hub_cache_evictions_total'' l (num P h ''evictions''))"

text \<open>\<open>fmt.Sprint\<close> of the state: a field that is absent is the nil interface.\<close>

definition sprintState :: "('f, 'x) exporter_prims_scheme \<Rightarrow> json option \<Rightarrow> string" where
  "sprintState P j = (case j of
       None \<Rightarrow> ''<nil>'' | Some JNull \<Rightarrow> ''<nil>'' | Some (JString s) \<Rightarrow> s
     | Some (JBool b) \<Rightarrow> if b then ''true'' else ''false'' | Some v \<Rightarrow> sprintAny P v)"

definition emitClient :: "('f, 'x) exporter_prims_scheme \<Rightarrow> string \<Rightarrow> (string \<times> json) list \<Rightarrow> string" where
  "emitClient P l root = (let r = nested ''client'' root; st = sprintState P (mapField ''state'' r); state = (if st = [] then ''unknown'' else st) in
     counterPair P ''edgelab_client_response_body_bytes_total'' l (num P r ''chunk_response_body_bytes'') (num P r ''metadata_response_body_bytes'') ''chunk'' ''metadata''
   @ counterPair P ''edgelab_client_requests_total'' l (num P r ''chunk_requests'') (num P r ''metadata_requests'') ''chunk'' ''metadata''
   @ counterPair P ''edgelab_client_syncs_total'' l (num P r ''sync_success'') (num P r ''sync_failure'') ''success'' ''failure''
   @ counter P ''edgelab_client_retries_total'' l (num P r ''retries'')
   @ counter P ''edgelab_client_integrity_failures_total'' l (num P r ''integrity_failures'')
   @ counter P ''edgelab_client_verified_download_bytes_total'' l (num P r ''verified_download_bytes'')
   @ counter P ''edgelab_client_verified_chunks_total'' l (num P r ''verified_chunks'')
   @ counter P ''edgelab_client_reused_chunks_total'' l (num P r ''reused_chunks'')
   @ gauge P ''edgelab_client_sync_active'' l (num P r ''sync_active'')
   @ metric ''edgelab_client_state'' (l @ '','' @ label ''state'' (esc state)) ''1''
   @ gauge P ''edgelab_client_last_sync_duration_seconds'' l (num P r ''last_sync_duration_seconds'')
   @ gauge P ''edgelab_client_last_success_timestamp_seconds'' l (num P r ''last_success_timestamp_seconds'')
   @ gauge P ''edgelab_client_last_sync_download_bytes'' l (num P r ''last_sync_download_bytes'')
   @ gauge P ''edgelab_client_last_sync_verified_chunks'' l (num P r ''last_sync_verified_chunks'')
   @ gauge P ''edgelab_client_last_sync_reused_chunks'' l (num P r ''last_sync_reused_chunks''))"

text \<open>\<open>strings.Replace\<close> with a count of one.\<close>

fun replaceOnce :: "string \<Rightarrow> string \<Rightarrow> string \<Rightarrow> string" where
  "replaceOnce old new [] = (if old = [] then new else [])"
| "replaceOnce old new (c # cs) = (if hasPrefix (c # cs) old then new @ drop (length old) (c # cs) else c # replaceOnce old new cs)"

definition processStart :: "('f, 'x) exporter_prims_scheme \<Rightarrow> 'f exporter \<Rightarrow> (string \<times> json) list \<Rightarrow> 'f" where
  "processStart P ex root = (let s1 = num P root ''process_start_time_seconds'';
       s2 = (case mapField ''client'' root of Some (JObject x) \<Rightarrow> num P x ''process_start_time_seconds'' | _ \<Rightarrow> s1)
     in if fIsZero P s2 then fOfNanos P (exStart ex) else s2)"

definition scrape :: "('f, 'x) exporter_prims_scheme \<Rightarrow> env \<Rightarrow> (world \<times> 'q) peer \<Rightarrow> 'f exporter \<Rightarrow> (world \<times> 'q, string \<times> 'f exporter) sm" where
  "scrape P E peer ex =
     (let l = labelsOf (exCfg ex) in
      bindM (attemptM (fetch P (exCfg ex) peer)) (\<lambda>r. case r of
        Inl e \<Rightarrow> ret (metric ''edgelab_source_up'' l ''0''
            @ (if fPositive P (exLast ex) then metric ''edgelab_snapshot_last_success_timestamp_seconds'' l (fFixed P 3 (exLast ex)) else []), ex)
      | Inr raw \<Rightarrow>
      bindM (onFst (timeNow E)) (\<lambda>t.
      (let now = fOfNanos P t; ex' = ex\<lparr>exLast := now\<rparr>; marker = metric ''edgelab_source_up'' l ''1'';
           top = marker @ metric ''edgelab_snapshot_last_success_timestamp_seconds'' l (fFixed P 3 now) in
       case unmarshalMap P raw of
         Inl e \<Rightarrow> ret (top, ex')
       | Inr root \<Rightarrow>
           (let m = (case root of None \<Rightarrow> [] | Some m \<Rightarrow> m);
                lines = top @ (if exRole (exCfg ex) = ''hub'' then emitHub P l m else emitClient P l m)
            in ret (replaceOnce marker (marker @ metric ''edgelab_process_start_time_seconds'' l (fFixed P 3 (processStart P ex m))) lines, ex'))))))"

text \<open>\<open>ServeHTTP\<close>: the status and the body.\<close>

definition exporterHTTP :: "('f, 'x) exporter_prims_scheme \<Rightarrow> env \<Rightarrow> (world \<times> 'q) peer \<Rightarrow> string \<Rightarrow> 'f exporter \<Rightarrow>
    (world \<times> 'q, (int \<times> string) \<times> 'f exporter) sm" where
  "exporterHTTP P E peer path ex = (if path \<noteq> ''/metrics'' then ret ((404, ''404 page not found'' @ [nl]), ex)
     else bindM (scrape P E peer ex) (\<lambda>(page, ex'). ret ((200, page), ex')))"

section \<open>Reading a page\<close>

text \<open>A reader of the exposition format: a sample is a name, labels with quoted values in which a backslash escapes the next
  character, and a value up to the end of the line.\<close>

type_synonym sample = "string \<times> (string \<times> string) list \<times> string"

fun unesc :: "string \<Rightarrow> (string \<times> string) option" where
  "unesc [] = None"
| "unesc (c # cs) = (if c = quote then Some ([], cs)
     else if c \<noteq> backslash then map_option (\<lambda>(v, r). (c # v, r)) (unesc cs)
     else case cs of [] \<Rightarrow> None
        | d # ds \<Rightarrow> map_option (\<lambda>(v, r). ((if d = CHR ''n'' then nl else d) # v, r)) (unesc ds))"

fun readLabels :: "nat \<Rightarrow> string \<Rightarrow> ((string \<times> string) list \<times> string) option" where
  "readLabels 0 s = None"
| "readLabels (Suc n) s = (let k = takeWhile (\<lambda>c. c \<noteq> CHR ''='') s in
     case drop (length k) s of
       e # q # rest \<Rightarrow> (case unesc rest of
           Some (v, sep # rest') \<Rightarrow>
             if sep = CHR ''}'' then Some ([(k, v)], rest')
             else map_option (\<lambda>(ls, r). ((k, v) # ls, r)) (readLabels n rest')
         | _ \<Rightarrow> None)
     | _ \<Rightarrow> None)"

definition readSample :: "string \<Rightarrow> (sample \<times> string) option" where
  "readSample s = (let n = takeWhile (\<lambda>c. c \<noteq> CHR ''{'') s in
     case readLabels (length s) (drop (Suc (length n)) s) of
       Some (ls, sp # rest) \<Rightarrow> (let v = takeWhile (\<lambda>c. c \<noteq> nl) rest in Some ((n, ls, v), drop (Suc (length v)) rest))
     | _ \<Rightarrow> None)"

fun readSamples :: "nat \<Rightarrow> string \<Rightarrow> sample list option" where
  "readSamples n [] = Some []"
| "readSamples 0 (c # cs) = None"
| "readSamples (Suc n) (c # cs) = (case readSample (c # cs) of
     None \<Rightarrow> None | Some (x, rest) \<Rightarrow> map_option ((#) x) (readSamples n rest))"

definition readPage :: "string \<Rightarrow> sample list option" where
  "readPage s = readSamples (length s) s"

section \<open>Written samples\<close>

definition labelText :: "(string \<times> string) list \<Rightarrow> string" where
  "labelText ls = joinWith '','' (map (\<lambda>(k, v). label k (esc v)) ls)"

definition sampleText :: "sample \<Rightarrow> string" where
  "sampleText = (\<lambda>(n, ls, v). metric n (labelText ls) v)"

definition sample_ok :: "sample \<Rightarrow> bool" where
  "sample_ok = (\<lambda>(n, ls, v). n \<noteq> [] \<and> CHR ''{'' \<notin> set n \<and> ls \<noteq> [] \<and> list_all (\<lambda>(k, _). CHR ''='' \<notin> set k) ls \<and> nl \<notin> set v)"

lemma esc_chars: "quote \<noteq> backslash" "nl \<noteq> quote" "nl \<noteq> backslash" "CHR ''n'' \<noteq> quote" "CHR ''n'' \<noteq> backslash" "quote \<noteq> nl"
    "backslash \<noteq> nl" "backslash \<noteq> CHR ''n''" "quote \<noteq> CHR ''n''" "backslash \<noteq> quote"
  by (simp_all add: quote_def backslash_def nl_def)

lemma unesc_esc: "unesc (esc s @ quote # rest) = Some (s, rest)"
  by (induction s) (simp_all add: esc_chars)

lemma takeWhile_stop: "c \<notin> set xs \<Longrightarrow> takeWhile (\<lambda>x. x \<noteq> c) (xs @ c # ys) = xs"
  by (induction xs) auto

lemma readLabels_text:
  "ls \<noteq> [] \<Longrightarrow> list_all (\<lambda>(k, _). CHR ''='' \<notin> set k) ls \<Longrightarrow> length ls \<le> n \<Longrightarrow> readLabels n (labelText ls @ CHR ''}'' # rest) = Some (ls, rest)"
proof (induction ls arbitrary: n)
  case (Cons l ls)
  obtain k v where l: "l = (k, v)" by (cases l)
  obtain m where n: "n = Suc m" using Cons.prems by (cases n) auto
  have head: "takeWhile (\<lambda>c. c \<noteq> CHR ''='') (k @ CHR ''='' # s) = k" for s using Cons.prems by (intro takeWhile_stop) (simp add: l)
  show ?case
  proof (cases ls)
    case Nil
    then show ?thesis by (simp add: l n labelText_def label_def head unesc_esc)
  next
    case (Cons x xs)
    then have "readLabels m (labelText ls @ CHR ''}'' # rest) = Some (ls, rest)" using Cons.IH [of m] Cons.prems n by simp
    then show ?thesis using Cons by (simp add: l n labelText_def label_def head unesc_esc)
  qed
qed simp

lemma labelText_length: "length ls \<le> length (labelText ls) + 1"
proof (induction ls)
  case (Cons l ls)
  then show ?case by (cases ls; cases l) (auto simp: labelText_def label_def)
qed simp

lemma readSample_text: "sample_ok x \<Longrightarrow> readSample (sampleText x @ rest) = Some (x, rest)"
proof -
  assume ok: "sample_ok x"
  obtain n ls v where x: "x = (n, ls, v)" by (cases x)
  have n: "takeWhile (\<lambda>c. c \<noteq> CHR ''{'') (n @ CHR ''{'' # s) = n" for s using ok by (intro takeWhile_stop) (simp add: sample_ok_def x)
  have v: "takeWhile (\<lambda>c. c \<noteq> nl) (v @ nl # s) = v" for s using ok by (intro takeWhile_stop) (simp add: sample_ok_def x)
  have "readLabels k (labelText ls @ CHR ''}'' # s) = Some (ls, s)" if "length (labelText ls) + 1 \<le> k" for k s
    using ok that labelText_length [of ls] by (intro readLabels_text) (simp_all add: sample_ok_def x)
  then show ?thesis by (simp add: readSample_def x sampleText_def metric_def n v Let_def Suc_diff_le del: readLabels.simps)
qed

lemma readSamples_text: "list_all sample_ok xs \<Longrightarrow> length (concat (map sampleText xs)) \<le> n \<Longrightarrow> readSamples n (concat (map sampleText xs)) = Some xs"
proof (induction xs arbitrary: n)
  case (Cons x xs)
  have "sampleText x \<noteq> []" by (cases x) (simp add: sampleText_def metric_def)
  then obtain c cs where c: "sampleText x = c # cs" by (cases "sampleText x") auto
  obtain m where n: "n = Suc m" using Cons.prems c by (cases n) auto
  have "readSamples m (concat (map sampleText xs)) = Some xs" using Cons.IH [of m] Cons.prems n c by simp
  moreover have "readSample (c # cs @ concat (map sampleText xs)) = Some (x, concat (map sampleText xs))"
    using readSample_text [of x "concat (map sampleText xs)"] Cons.prems c by simp
  ultimately show ?case by (simp add: n c)
qed simp

lemma readPage_text: "list_all sample_ok xs \<Longrightarrow> readPage (concat (map sampleText xs)) = Some xs"
  by (simp add: readPage_def readSamples_text)

section \<open>What a page says\<close>

definition baseLabels :: "exporter_config \<Rightarrow> (string \<times> string) list" where
  "baseLabels c = [(''job'', ''edgelab''), (''instance'', exInstance c), (''role'', exRole c)]"

text \<open>The tables of the metrics: name and field, for pairs the name and the two fields with their kinds.\<close>

definition plainSamples :: "('f, 'x) exporter_prims_scheme \<Rightarrow> exporter_config \<Rightarrow> (string \<times> json) list \<Rightarrow> (string \<times> string) list \<Rightarrow> sample list" where
  "plainSamples P c m = map (\<lambda>(n, k). (n, baseLabels c, fFixed P 6 (num P m k)))"

definition pairSamples :: "('f, 'x) exporter_prims_scheme \<Rightarrow> exporter_config \<Rightarrow> (string \<times> json) list \<Rightarrow> (string \<times> (string \<times> string) list) list \<Rightarrow> sample list" where
  "pairSamples P c m ps = concat (map (\<lambda>(n, ks). map (\<lambda>(kind, k). (n, baseLabels c @ [(''kind'', kind)], fFixed P 6 (num P m k))) ks) ps)"

definition hubTable :: "(string \<times> string) list" where
  "hubTable = [(''edgelab_hub_cache_bytes'', ''cache_bytes''), (''edgelab_hub_cache_capacity_bytes'', ''cache_max_bytes''),
     (''edgelab_hub_cache_objects'', ''cache_objects''), (''edgelab_hub_inflight_reads'', ''inflight_reads''),
     (''edgelab_hub_disk_reads_total'', ''disk_reads''), (''edgelab_hub_cache_hits_total'', ''cache_hits''),
     (''edgelab_hub_coalesced_requests_total'', ''coalesced_requests''), (''edgelab_hub_cache_evictions_total'', ''evictions'')]"

definition requestTable :: "string \<Rightarrow> (string \<times> (string \<times> string) list) list" where
  "requestTable role =
     [(''edgelab_'' @ role @ ''_requests_total'', [(''chunk'', ''chunk_requests''), (''metadata'', ''metadata_requests'')]),
      (''edgelab_'' @ role @ ''_response_body_bytes_total'', [(''chunk'', ''chunk_response_body_bytes''), (''metadata'', ''metadata_response_body_bytes'')])]"

definition hubSamples :: "('f, 'x) exporter_prims_scheme \<Rightarrow> exporter_config \<Rightarrow> (string \<times> json) list \<Rightarrow> sample list" where
  "hubSamples P c m = pairSamples P c (nested ''origin'' m) (requestTable ''hub'') @ plainSamples P c (nested ''hub'' m) hubTable"

definition clientCounters :: "(string \<times> string) list" where
  "clientCounters = [(''edgelab_client_retries_total'', ''retries''), (''edgelab_client_integrity_failures_total'', ''integrity_failures''),
     (''edgelab_client_verified_download_bytes_total'', ''verified_download_bytes''), (''edgelab_client_verified_chunks_total'', ''verified_chunks''),
     (''edgelab_client_reused_chunks_total'', ''reused_chunks''), (''edgelab_client_sync_active'', ''sync_active'')]"

definition clientGauges :: "(string \<times> string) list" where
  "clientGauges = map (\<lambda>k. (''edgelab_client_'' @ k, k)) [''last_sync_duration_seconds'', ''last_success_timestamp_seconds'',
     ''last_sync_download_bytes'', ''last_sync_verified_chunks'', ''last_sync_reused_chunks'']"

definition clientSamples :: "('f, 'x) exporter_prims_scheme \<Rightarrow> exporter_config \<Rightarrow> (string \<times> json) list \<Rightarrow> sample list" where
  "clientSamples P c m = (let r = nested ''client'' m; st = sprintState P (mapField ''state'' r) in
     pairSamples P c r (rev (requestTable ''client''))
   @ pairSamples P c r [(''edgelab_client_syncs_total'', [(''success'', ''sync_success''), (''failure'', ''sync_failure'')])]
   @ plainSamples P c r clientCounters
   @ [(''edgelab_client_state'', baseLabels c @ [(''state'', if st = [] then ''unknown'' else st)], ''1'')]
   @ plainSamples P c r clientGauges)"

lemma labelText_base: "labelText (baseLabels c) = labelsOf c"
    "labelText (baseLabels c @ [(k, v)]) = labelsOf c @ '','' @ label k (esc v)"
  by (simp_all add: labelText_def baseLabels_def labelsOf_def quote_def backslash_def nl_def)

lemma sampleText_base:
  "sampleText (n, baseLabels c, v) = metric n (labelsOf c) v"
  "sampleText (n, baseLabels c @ [(k, u)], v) = metric n (labelsOf c @ '','' @ label k (esc u)) v"
  by (simp_all add: sampleText_def labelText_base)

lemma esc_kinds: "esc ''chunk'' = ''chunk''" "esc ''metadata'' = ''metadata''" "esc ''success'' = ''success''" "esc ''failure'' = ''failure''"
  by (simp_all add: quote_def backslash_def nl_def)

lemmas table_simps = list.map concat.simps prod.case append_assoc append_Nil append_Nil2 append_Cons sampleText_base esc_kinds
  gauge_def counter_def counterPair_def Let_def

lemma emitHub_samples: "emitHub P (labelsOf c) m = concat (map sampleText (hubSamples P c m))"
  unfolding emitHub_def hubSamples_def pairSamples_def plainSamples_def hubTable_def requestTable_def
  by (simp only: table_simps map_append concat_append)

lemma emitClient_samples: "emitClient P (labelsOf c) m = concat (map sampleText (clientSamples P c m))"
  unfolding emitClient_def clientSamples_def pairSamples_def plainSamples_def clientCounters_def clientGauges_def requestTable_def
  by (simp only: table_simps map_append concat_append rev.simps)

lemma sample_ok_base:
  "n \<noteq> [] \<Longrightarrow> CHR ''{'' \<notin> set n \<Longrightarrow> nl \<notin> set v \<Longrightarrow> sample_ok (n, baseLabels c, v)"
  "n \<noteq> [] \<Longrightarrow> CHR ''{'' \<notin> set n \<Longrightarrow> nl \<notin> set v \<Longrightarrow> CHR ''='' \<notin> set k \<Longrightarrow> sample_ok (n, baseLabels c @ [(k, u)], v)"
  by (simp_all add: sample_ok_def baseLabels_def)

lemma samples_ok:
  assumes "\<And>n v. nl \<notin> set (fFixed P n v)"
  shows "list_all sample_ok (hubSamples P c m)" "list_all sample_ok (clientSamples P c m)"
  using assms
  by (simp_all add: hubSamples_def clientSamples_def pairSamples_def plainSamples_def hubTable_def clientCounters_def clientGauges_def
      requestTable_def sample_ok_base Let_def nl_def)

lemma checkHub_fields:
  assumes "checkHub P raw = Inr u"
  shows "\<exists>m cache. unmarshalMap P raw = Inr (Some m) \<and> hubCache m = Inr cache \<and> list_all (\<lambda>k. isNumber (mapField k cache)) cacheFields"
  using assms by (auto simp: checkHub_def bindR_Inr_iff find_None_iff list_all_iff split: sum.splits option.splits)

lemma fetch_hub:
  assumes "fetch P c peer st = (Inr raw, st')" and "exRole c = ''hub''"
  shows "checkHub P raw = Inr ()"
  using assms by (auto simp: fetch_def bindM_run)

lemma replaceOnce_prefix: "old \<noteq> [] \<Longrightarrow> replaceOnce old new (old @ s) = new @ s"
  by (cases old) (simp_all add: hasPrefix_def)

definition upSample :: "exporter_config \<Rightarrow> string \<Rightarrow> sample" where
  "upSample c v = (''edgelab_source_up'', baseLabels c, v)"

definition seenSample :: "('f, 'x) exporter_prims_scheme \<Rightarrow> exporter_config \<Rightarrow> 'f \<Rightarrow> sample" where
  "seenSample P c t = (''edgelab_snapshot_last_success_timestamp_seconds'', baseLabels c, fFixed P 3 t)"

text \<open>The samples of a scrape: down, with the time of the last success if there was one; or up, with the time, and, when the
  statistics are an object, the start of the process and the numbers of the role.\<close>

definition pageSamples :: "('f, 'x) exporter_prims_scheme \<Rightarrow> 'f exporter \<Rightarrow> json option result \<Rightarrow> 'f \<Rightarrow> sample list" where
  "pageSamples P ex r now = (let c = exCfg ex in case r of
       Inl _ \<Rightarrow> upSample c ''0'' # (if fPositive P (exLast ex) then [seenSample P c (exLast ex)] else [])
     | Inr raw \<Rightarrow> (case unmarshalMap P raw of
           Inl _ \<Rightarrow> [upSample c ''1'', seenSample P c now]
         | Inr root \<Rightarrow> (let m = (case root of None \<Rightarrow> [] | Some m \<Rightarrow> m) in
             [upSample c ''1'', (''edgelab_process_start_time_seconds'', baseLabels c, fFixed P 3 (processStart P ex m)), seenSample P c now]
             @ (if exRole c = ''hub'' then hubSamples P c m else clientSamples P c m))))"

lemma pageSamples_ok: "(\<And>n v. nl \<notin> set (fFixed P n v)) \<Longrightarrow> list_all sample_ok (pageSamples P ex r now)"
  by (auto simp: pageSamples_def upSample_def seenSample_def sample_ok_base samples_ok Let_def nl_def split: sum.split)

lemma scrape_text:
  assumes f: "fetch P (exCfg ex) peer st = (r, w1, q1)"
  shows "\<exists>ex' st'. scrape P E peer ex st
      = (Inr (concat (map sampleText (pageSamples P ex r (fOfNanos P (clock E (tick w1))))), ex'), st')
    \<and> ex' = (case r of Inl _ \<Rightarrow> ex | Inr _ \<Rightarrow> ex\<lparr>exLast := fOfNanos P (clock E (tick w1))\<rparr>)"
proof -
  let ?l = "labelsOf (exCfg ex)"
  show ?thesis
  proof (cases r)
    case (Inl e)
    then show ?thesis using f
      by (auto simp: scrape_def bindM_def attemptM_def sm_run pageSamples_def upSample_def seenSample_def sampleText_base Let_def)
  next
    case (Inr raw)
    have ne: "metric n l v \<noteq> []" for n l v by (simp add: metric_def)
    show ?thesis
    proof (cases "unmarshalMap P raw")
      case (Inl e)
      then show ?thesis using f Inr
        by (auto simp: scrape_def bindM_def attemptM_def sm_run pageSamples_def upSample_def seenSample_def sampleText_base Let_def
            onFst_def timeNow_def)
    next
      case root: (Inr root)
      show ?thesis using f Inr root
        by (simp add: scrape_def bindM_def attemptM_def sm_run pageSamples_def upSample_def seenSample_def sampleText_base Let_def
            onFst_def timeNow_def replaceOnce_prefix [OF ne] emitHub_samples emitClient_samples)
    qed
  qed
qed

text \<open>C28. A metrics page reads back to what was scraped. Whatever the instance, the role and the state reported are spelled like,
  and whatever the admin server answers, a reader of the page gets exactly the samples of the statistics, each under the
  configured labels; the source is reported down exactly when the fetch failed, and a hub is reported up only with the
  three sizes of its cache given as numbers. (A formatted number has no newline.)\<close>

theorem Exporter_page_roundtrip:
  assumes "\<And>n v. nl \<notin> set (fFixed P n v)" and "fetch P (exCfg ex) peer (w, q) = (r, w1, q1)"
  shows "\<exists>page ex' st'. scrape P E peer ex (w, q) = (Inr (page, ex'), st')
    \<and> readPage page = Some (pageSamples P ex r (fOfNanos P (clock E (tick w1))))
    \<and> (exRole (exCfg ex) = ''hub'' \<and> (\<exists>raw. r = Inr raw) \<longrightarrow>
        (\<exists>m cache. (\<exists>raw. r = Inr raw \<and> unmarshalMap P raw = Inr (Some m)) \<and> hubCache m = Inr cache
          \<and> list_all (\<lambda>k. isNumber (mapField k cache)) [''cache_bytes'', ''cache_objects'', ''cache_max_bytes'']))"
proof -
  obtain ex' st' where run: "scrape P E peer ex (w, q)
      = (Inr (concat (map sampleText (pageSamples P ex r (fOfNanos P (clock E (tick w1))))), ex'), st')"
    using scrape_text [OF assms(2), of E] by blast
  have "readPage (concat (map sampleText (pageSamples P ex r (fOfNanos P (clock E (tick w1)))))) = Some (pageSamples P ex r (fOfNanos P (clock E (tick w1))))"
    by (rule readPage_text [OF pageSamples_ok [OF assms(1)]])
  moreover have "exRole (exCfg ex) = ''hub'' \<and> (\<exists>raw. r = Inr raw) \<longrightarrow>
        (\<exists>m cache. (\<exists>raw. r = Inr raw \<and> unmarshalMap P raw = Inr (Some m)) \<and> hubCache m = Inr cache
          \<and> list_all (\<lambda>k. isNumber (mapField k cache)) [''cache_bytes'', ''cache_objects'', ''cache_max_bytes''])"
    using assms(2) fetch_hub [of P "exCfg ex" peer "(w, q)"] checkHub_fields unfolding cacheFields_def by fastforce
  ultimately show ?thesis using run by blast
qed

text \<open>An absent state is shown as the text of a nil interface, never as unknown.\<close>

lemma missing_state: "mapField ''state'' (nested ''client'' m) = None \<Longrightarrow>
    (''edgelab_client_state'', baseLabels c @ [(''state'', ''<nil>'')], ''1'') \<in> set (clientSamples P c m)"
  by (simp add: clientSamples_def sprintState_def Let_def)

section \<open>Witness\<close>

text \<open>A hub whose instance has a quote, a backslash and a newline in its name; numbers are their texts.\<close>

definition demo_cache :: "(string \<times> json) list" where
  "demo_cache = [(''cache_bytes'', JNumber ''5''), (''cache_objects'', JNumber ''1''), (''cache_max_bytes'', JNumber ''9'')]"

definition demo_exporter_prims :: "string exporter_prims" where
  "demo_exporter_prims = wire_prims.extend (admin_prims.extend (log_prims.extend demo_log_prims (admin_prims.fields
       (\<lambda>_. Inl IOError) (\<lambda>_. []) (\<lambda>_. []) (\<lambda>_. Inl IOError) (\<lambda>_. [])))
     (wire_prims.fields (\<lambda>_. []) (\<lambda>_. Inr (JObject [(''ok'', JBool True), (''result'', JObject [(''hub'', JObject demo_cache)])]))
       (\<lambda>m. m) (\<lambda>_. JNull) JNull))
     (exporter_prims.fields Some ''0'' (\<lambda>v. v = ''0'') (\<lambda>v. v \<noteq> ''0'') (\<lambda>_. ''7'') (\<lambda>_ v. filter (\<lambda>c. c \<noteq> nl) v) (\<lambda>_. []))"

definition demo_exporter :: "string exporter" where
  "demo_exporter = \<lparr>exCfg = \<lparr>exRole = ''hub'', exInstance = ''a'' @ [quote, backslash, nl] @ ''b'', exTimeout = 1, exMaxResponse = 9\<rparr>,
     exStart = 0, exLast = ''0''\<rparr>"

lemma demo_exporter_sel:
  "jsonParse demo_exporter_prims b = Inr (JObject [(''ok'', JBool True), (''result'', JObject [(''hub'', JObject demo_cache)])])"
  "fParse demo_exporter_prims = Some" "fFixed demo_exporter_prims k v = filter (\<lambda>c. c \<noteq> nl) v"
  by (simp_all add: demo_exporter_prims_def wire_prims.defs admin_prims.defs log_prims.defs exporter_prims.defs)

lemma demo_stats: "decStats (JObject [(''ok'', JBool True), (''result'', j)]) = Inr (True, Some j)"
  by (simp add: decStats_def struct_simps)

theorem Exporter_page_roundtrip_witness:
  "\<exists>page ex' st' ss. scrape demo_exporter_prims (env_fail_at 0) (\<lambda>_. ret [newline]) demo_exporter (empty_world, ()) = (Inr (page, ex'), st')
     \<and> readPage page = Some ss \<and> (''edgelab_hub_cache_bytes'', baseLabels (exCfg demo_exporter), ''5'') \<in> set ss"
proof -
  let ?raw = "Some (JObject [(''hub'', JObject demo_cache)])"
  have fixed: "nl \<notin> set (fFixed demo_exporter_prims n v)" for n v by (simp add: demo_exporter_sel)
  have hub: "unmarshalMap demo_exporter_prims ?raw = Inr (Some [(''hub'', JObject demo_cache)])"
    by (simp add: unmarshalMap_def demo_exporter_sel demo_cache_def)
  have "hubCache [(''hub'', JObject demo_cache)] = Inr demo_cache" by (simp add: hubCache_def mapField_def)
  moreover have "List.find (\<lambda>k. \<not> isNumber (mapField k demo_cache)) cacheFields = None"
    by (simp add: cacheFields_def demo_cache_def mapField_def isNumber_def)
  ultimately have "checkHub demo_exporter_prims ?raw = Inr ()" by (simp add: checkHub_def hub)
  then have "fetch demo_exporter_prims (exCfg demo_exporter) (\<lambda>_. ret [newline]) (empty_world, ()) = (Inr ?raw, empty_world, ())"
    by (simp add: fetch_def readLine_def demo_exporter_def bindM_def sm_run demo_exporter_sel demo_stats)
  from Exporter_page_roundtrip [OF fixed this, of "env_fail_at 0"] hub show ?thesis
    by (fastforce simp: pageSamples_def hubSamples_def plainSamples_def hubTable_def demo_exporter_def Let_def nested_def mapField_def num_def
        demo_exporter_sel demo_cache_def nl_def)
qed

end
