(* ===== verification/Spec2Isabelle.thy ===== *)
theory Spec2Isabelle
  imports SyncLoops Trigger PushClient ServerProps Conf RegistryFiles CommandLine FixtureProps AdminServe OriginServe TuiView Exporter
begin

text \<open>
  Verification of the edge delta lab.

  \<^bold>\<open>The program.\<close> A publisher cuts an archive into content-defined chunks, stores them under their digests and signs
  a manifest naming them; a channel file names the current manifest. An origin serves these files, a hub caches
  them and announces new releases over a socket, and an agent on every device fetches the manifest, downloads what
  it lacks, puts the archive together, optionally loads it into Docker and reports a receipt. A registry watcher
  turns new image tags into releases, and the conf command wraps one agent run into a policy: which releases, what
  to do with them, which containers to restart. The components meet in files (the release store, the channel, the
  agent's state directory), in requests between agent, origin and registry, and in calls: the publisher's loop
  calls the watcher, which calls the trigger, which calls \<open>Publish\<close>; \<open>conf\<close> calls \<open>Sync\<close> and the runner; the
  receiver calls \<open>Sync\<close> again and again; \<open>Sync\<close> calls \<open>Verify\<close>, \<open>Decode\<close> and \<open>AtomicWrite\<close>, and so does the
  publisher.

  \<^bold>\<open>The machine.\<close> \<open>Prelude\<close> has the errors, the computations that may fail while they change a state (\<open>('s, 'a) sm\<close>),
  64-bit arithmetic (\<open>wrap64\<close>) and the locale \<open>effect_order\<close>, whose rules give the composition of effects for any
  preorder on states; \<open>Machine\<close> the runs of a step function with the locales \<open>invariant\<close> and \<open>well_founded\<close>;
  \<open>GoStd\<close> the parts of Go's library the program computes with, SHA-256 included. \<open>World\<close> has what a process sees:
  a tree of files, the requests sent, the Docker commands issued, and an environment which decides, operation by
  operation, what fails, what the clock says, what the network and Docker answer and which goroutine moves. A
  statement for all environments is one for all failures, answers and schedules.

  \<^bold>\<open>Theories and sources\<close> (under \<open>src/\<close>; definitions have the names of the functions they translate):
  \<^item> \<open>Chunker\<close>: \<open>internal/lab/chunker.go\<close>; \<open>Storage\<close>: \<open>storage.go\<close>; \<open>Format\<close>: \<open>format.go\<close>; \<open>Publish\<close>: \<open>publish.go\<close>.
  \<^item> \<open>HubClient\<close>: \<open>hubclient/tls.go\<close>, the transport every agent request goes through.
  \<^item> \<open>AgentBase\<close>, \<open>Receipts\<close>, \<open>DockerLoad\<close>, \<open>Sync\<close>: \<open>internal/lab/agent.go\<close> and \<open>telemetry.go\<close>. A run is
    \<open>sync_manifest\<close> (fetch, verify, rollback check, high-water mark), \<open>sync_fetch\<close> (plan, space, pool of workers),
    \<open>sync_install\<close> (assembly, Docker) and \<open>sync_finish\<close> (the deferred telemetry, state and receipt). \<open>SyncEffects\<close>
    has what each step may do to the machine, \<open>SyncLoops\<close> the loops, \<open>SyncProps\<close> and \<open>SyncRun\<close> what a run guarantees.
  \<^item> \<open>Server\<close>, \<open>ServerProps\<close>, \<open>OriginServe\<close>: \<open>internal/lab/server.go\<close> and the receipts endpoint of \<open>telemetry.go\<close>.
  \<^item> \<open>HubCache\<close>, \<open>Hub\<close>, \<open>HubStats\<close>: \<open>internal/hub/hub.go\<close>: the cache, the coalesced reads as a machine, the accounting.
  \<^item> \<open>Broker\<close>, \<open>PushClient\<close>: \<open>internal/push/push.go\<close>; \<open>Trigger\<close>: \<open>internal/push/trigger.go\<close>.
  \<^item> \<open>RegistryClient\<close>: \<open>internal/registry/client.go\<close> and \<open>auth_transport.go\<close>; \<open>RegistryPublish\<close>: \<open>config.go\<close> and
    \<open>publish.go\<close>; \<open>Watcher\<close>, \<open>WatcherProps\<close>: \<open>watcher.go\<close>; \<open>PublisherRun\<close>: \<open>publisher/publisher.go\<close>.
  \<^item> \<open>Notify\<close>: \<open>internal/notify/notify.go\<close>; \<open>ClientConf\<close>: \<open>internal/clientconf/clientconf.go\<close> and \<open>runner.go\<close>;
    \<open>Conf\<close>: \<open>cmd/edgelab/conf.go\<close> and \<open>tls.go\<close>; \<open>RegistryFiles\<close>: \<open>internal/registry/fs.go\<close>.
  \<^item> \<open>ReceiverLoop\<close>: \<open>internal/receiverloop/run.go\<close> and \<open>receiver/receiver.go\<close>, runs of \<open>Sync\<close> one after another.
  \<^item> \<open>EventLog\<close>, \<open>EventLogProps\<close>, \<open>AdminCSV\<close>: \<open>internal/admin/admin.go\<close>; \<open>AdminServer\<close>, \<open>AdminServe\<close>: its
    \<open>server.go\<close>, the methods with their connections and the listener; \<open>AdminClient\<close>: the lines both sides exchange.
  \<^item> \<open>Tui\<close>, \<open>TuiView\<close>: \<open>cmd/edgelab-tui/main.go\<close>; \<open>Exporter\<close>: \<open>internal/exporter/exporter.go\<close>, both clients of
    the admin server.
  \<^item> \<open>CommandLine\<close>: \<open>cmd/edgelab/main.go\<close>, each command as a function of its parsed flags, and the serve process, whose
    state \<open>serve_proc\<close> is what its callbacks share; \<open>Fixtures\<close>, \<open>FixtureProps\<close>: \<open>internal/lab/fixtures.go\<close>.

  A struct is a record with a prefix for its fields; a pointer to shared state is the state of the \<open>sm\<close> computation;
  a Go error is a value of \<open>error\<close>; a byte is a \<open>word\<close>, counters that wrap are words or go through \<open>wrap64\<close>.
  Concurrent parts (the hub's readers, the broker, the dispatcher) are step functions over events at the
  granularity of the code's critical sections; the agent's download pool is run by a scheduler in the environment.

  \<^bold>\<open>What is shown.\<close>
  \<^item> Releases: splitting is lossless, bounded, equal to a reference and resynchronises; \<open>Verify\<close> accepts exactly the
    signed well-formed manifests and inverts \<open>Sign\<close>; \<open>Decode\<close> gives exactly the described bytes; a release
    appears complete or not at all and is not replaced.
  \<^item> Agent: no rollback, nothing unverified in the cache, Docker only after full verification, a successful run has
    the verified archive in place, a run terminates, receipts are delivered at least once; over the rounds of a
    receiver too the accepted release never goes back, and announcements that do not verify change nothing.
  \<^item> Origin and hub: what is served is what is stored, at most with the injected fault; one read per path at a time;
    the cache refines a recency list; bodies are those read as long as callers leave them alone; requests return;
    the books add up; subscribers get announcements in order within their bound.
  \<^item> Registry to channel: credentials stay with the registry and its token service; a scan finds exactly the new
    eligible tags; a digest is acknowledged, durably, only when its release is in the store; sequence numbers
    count; the channel never goes back; a retried trigger reuses the release.
  \<^item> Policy: an ineligible release costs the manifest request only; Docker is called as the action allows; restarts
    are audited; notifications are bounded, counted and drained on closing.
  \<^item> Views: the event log loses whole old generations only, resumes its numbers when opened again and answers queries
    from what it holds; a client of the admin socket is answered line by line and changes nothing; the listener ends
    once it is stopped and its clients hang up; a metrics page reads back to the statistics scraped; the dashboard's
    poll shows what the server computes, and which events it does not.
  \<^item> Commands: the serve process passes on, purges and notifies as announced; promote copies or leaves the channel;
    accepted configurations are well-formed and do not fail later on their own; generated images are what they claim.

  The interfaces are the locales: \<open>effect_order\<close> (interpreted for every relation used: frames, request confinement,
  audit trails), \<open>file_order\<close> with \<open>agent_core\<close>, \<open>agent_free\<close> and \<open>agent_docker\<close> (what a relation must allow the
  agent's writes to hold for a whole run), \<open>object_cache\<close> (what the hub expects of its cache), \<open>lossy_queue\<close> (what
  the broker expects of a channel), \<open>invariant\<close> and \<open>well_founded\<close> for the machines.

  \<^bold>\<open>Bounds and fuel.\<close> \<open>Sync\<close> takes fuel for its two loops; \<open>run_steps\<close> is enough whenever attempts are limited
  (\<open>Sync_terminates\<close>), and the safety statements hold for any fuel. The code's loops that end by a limit of their own
  (tag pages, redirects, sequence counters) have that limit: 10000 pages, 10 redirects. The services that run until
  they are cancelled (watcher, trigger, push client, receiver) are run for any number of rounds.

  \<^bold>\<open>Parameters.\<close> Ed25519, gzip, JSON, YAML, tar headers, X.509, URL parsing, regular expressions, durations, the text of
  floating-point numbers and the image library are the records \<open>prims\<close> and its extensions; what a statement needs of
  them is a hypothesis in it. SHA-256 is computed. The network, the Docker command and the clock are the environment.

  \<^bold>\<open>Not modelled.\<close> What survives a power loss (a sync may fail, but a file written is there), the text of the agent's
  metrics file, and the timing of goroutines below the critical sections: the receiver's announce client is the list
  of announcements taken in before a wait. Left out are the syntax of flags and the messages commands print, the
  terminal runtime that drives the dashboard, the lock around the receiver's event text, the main program of the
  exporter (flags and a listener), the example programs, the test certificates and the settings of the HTTP
  transport, which are constants handed to the library.
\<close>

end
